(* ===== verification/Prelude.thy ===== *)
theory Prelude
  imports Main "HOL-Library.Word"
begin

text \<open>
  Shared vocabulary of the systemd-netlogd development: machine integers, the
  \<open>errno\<close> values of Linux, outcomes of effectful C functions, and C strings.

  A C string is the list of its bytes before the terminating NUL, and a
  \<open>char *\<close> that walks through a string is the suffix it points at; the NUL that
  \<open>*p == 0\<close> tests for is the empty suffix.  The target is Linux on an LP64
  machine: \<open>unsigned\<close> has 32 bits, \<open>unsigned long\<close>, \<open>unsigned long long\<close>,
  \<open>size_t\<close> and \<open>usec_t\<close> have 64.
\<close>

section \<open>Machine integers and error codes\<close>

type_synonym u8 = "8 word"
type_synonym u16 = "16 word"
type_synonym u32 = "32 word"
type_synonym u64 = "64 word"

abbreviation (input) ENOENT :: int where "ENOENT \<equiv> 2"
abbreviation (input) EINTR :: int where "EINTR \<equiv> 4"
abbreviation (input) EIO :: int where "EIO \<equiv> 5"
abbreviation (input) EBADF :: int where "EBADF \<equiv> 9"
abbreviation (input) EAGAIN :: int where "EAGAIN \<equiv> 11"
abbreviation (input) ENOMEM :: int where "ENOMEM \<equiv> 12"
abbreviation (input) EINVAL :: int where "EINVAL \<equiv> 22"
abbreviation (input) EPIPE :: int where "EPIPE \<equiv> 32"
abbreviation (input) ERANGE :: int where "ERANGE \<equiv> 34"
abbreviation (input) ENODATA :: int where "ENODATA \<equiv> 61"
abbreviation (input) EBADMSG :: int where "EBADMSG \<equiv> 74"
abbreviation (input) EMSGSIZE :: int where "EMSGSIZE \<equiv> 90"
abbreviation (input) EPROTONOSUPPORT :: int where "EPROTONOSUPPORT \<equiv> 93"
abbreviation (input) EOPNOTSUPP :: int where "EOPNOTSUPP \<equiv> 95"
abbreviation (input) EAFNOSUPPORT :: int where "EAFNOSUPPORT \<equiv> 97"
abbreviation (input) EADDRNOTAVAIL :: int where "EADDRNOTAVAIL \<equiv> 99"
abbreviation (input) ETIMEDOUT :: int where "ETIMEDOUT \<equiv> 110"
abbreviation (input) EINPROGRESS :: int where "EINPROGRESS \<equiv> 115"
abbreviation (input) ENOTRECOVERABLE :: int where "ENOTRECOVERABLE \<equiv> 131"

lemma unat_two_power: "n < LENGTH('a) \<Longrightarrow> unat (2 ^ n :: 'a::len word) = 2 ^ n"
  using unat_of_nat [of "2 ^ n", where ?'a = 'a] by (simp add: mod_less power_strict_increasing)

section \<open>Outcomes of effectful functions\<close>

text \<open>
  \<open>Ret v\<close>: the function returned \<open>v\<close>.  \<open>Abort\<close>: a failed \<open>assert\<close> (or an access
  through \<open>NULL\<close> or past the end of a string, which C leaves undefined) ended the
  process.  \<open>Diverge\<close>: the bound on the number of loop iterations was used up; a
  claim that a function returns is a claim that its outcome is a \<open>Ret\<close>.
\<close>

datatype 'a outcome = Ret 'a | Abort | Diverge

fun obind :: "'a outcome \<Rightarrow> ('a \<Rightarrow> 'b outcome) \<Rightarrow> 'b outcome" where
  "obind (Ret v) f = f v"
| "obind Abort f = Abort"
| "obind Diverge f = Diverge"

definition c_assert :: "bool \<Rightarrow> 'a outcome \<Rightarrow> 'a outcome" where
  "c_assert b k = (if b then k else Abort)"

lemma c_assert_simps [simp]:
  "c_assert True k = k" "c_assert False k = Abort"
  by (simp_all add: c_assert_def)

lemma obind_cong [fundef_cong]:
  "x = y \<Longrightarrow> (\<And>v. y = Ret v \<Longrightarrow> f v = g v) \<Longrightarrow> obind x f = obind y g"
  by (cases y) simp_all

lemma obind_eq_Ret:
  "obind x f = Ret v \<longleftrightarrow> (\<exists>u. x = Ret u \<and> f u = Ret v)"
  by (cases x) auto

lemma obind_eq_Abort:
  "obind x f = Abort \<longleftrightarrow> x = Abort \<or> (\<exists>u. x = Ret u \<and> f u = Abort)"
  by (cases x) auto

lemma obind_assoc: "obind (obind x f) g = obind x (\<lambda>u. obind (f u) g)"
  by (cases x) auto

lemma obind_Ret_right: "obind x Ret = x"
  by (cases x) auto

text \<open>What every returned value satisfies, and that no assertion fires.\<close>

definition all_ret :: "('a \<Rightarrow> bool) \<Rightarrow> 'a outcome \<Rightarrow> bool" where
  "all_ret P x \<longleftrightarrow> (case x of Ret v \<Rightarrow> P v | Abort \<Rightarrow> False | Diverge \<Rightarrow> True)"

lemma all_ret_simps [simp]:
  "all_ret P (Ret v) = P v" "\<not> all_ret P Abort" "all_ret P Diverge"
  by (simp_all add: all_ret_def)

lemma all_ret_obind:
  assumes "all_ret P x" and "\<And>v. P v \<Longrightarrow> all_ret Q (f v)"
  shows "all_ret Q (obind x f)"
  using assms by (cases x) auto

lemma all_ret_mono: "all_ret P x \<Longrightarrow> (\<And>v. P v \<Longrightarrow> Q v) \<Longrightarrow> all_ret Q x"
  by (cases x) auto

lemma all_retD: "all_ret P x \<Longrightarrow> x = Ret v \<Longrightarrow> P v"
  by simp

lemma all_ret_not_Abort: "all_ret P x \<Longrightarrow> x \<noteq> Abort"
  by (cases x) auto

definition gives :: "('a \<Rightarrow> bool) \<Rightarrow> 'a outcome \<Rightarrow> bool" where
  \<comment> \<open>the computation returns, with a value that satisfies the predicate\<close>
  "gives P x \<longleftrightarrow> (case x of Ret v \<Rightarrow> P v | _ \<Rightarrow> False)"

lemma gives_simps [simp]: "gives P (Ret v) = P v" "gives P Abort = False" "gives P Diverge = False"
  by (simp_all add: gives_def)

lemma gives_obind: "gives P x \<Longrightarrow> (\<And>v. P v \<Longrightarrow> gives Q (f v)) \<Longrightarrow> gives Q (obind x f)"
  by (cases x) simp_all

lemma gives_iff: "gives P x \<longleftrightarrow> (\<exists>v. x = Ret v \<and> P v)"
  by (cases x) simp_all

lemma gives_mono: "gives P x \<Longrightarrow> (\<And>v. P v \<Longrightarrow> Q v) \<Longrightarrow> gives Q x"
  by (auto simp: gives_iff)

section \<open>Results of parsers\<close>

text \<open>A C function that returns a negative code or stores a value: \<open>Inl\<close> the code.\<close>

type_synonym 'a result = "int + 'a"

section \<open>Characters and strings of the C library\<close>

definition char_code :: "char \<Rightarrow> nat" where
  "char_code c = of_char c"

lemma char_code_less: "char_code c < 256"
  by (simp add: char_code_def)

lemma char_code_inj: "char_code c = char_code d \<longleftrightarrow> c = d"
  by (simp add: char_code_def)

definition dropspan :: "string \<Rightarrow> string \<Rightarrow> string" where
  \<comment> \<open>\<open>p + strspn(p, accept)\<close>\<close>
  "dropspan accept p = dropWhile (\<lambda>c. c \<in> set accept) p"

definition strspn :: "string \<Rightarrow> string \<Rightarrow> nat" where
  "strspn p accept = length (takeWhile (\<lambda>c. c \<in> set accept) p)"

definition strcspn :: "string \<Rightarrow> string \<Rightarrow> nat" where
  "strcspn p reject = length (takeWhile (\<lambda>c. c \<notin> set reject) p)"

text \<open>\<open>strchr(p, c)\<close>: the suffix that starts at the first \<open>c\<close>.\<close>

fun strchr :: "string \<Rightarrow> char \<Rightarrow> string option" where
  "strchr [] c = None"
| "strchr (x # xs) c = (if x = c then Some (x # xs) else strchr xs c)"

lemma strchr_None: "strchr s c = None \<longleftrightarrow> c \<notin> set s"
  by (induction s) auto

lemma strchr_Some: "strchr s c = Some r \<Longrightarrow> \<exists>p. s = p @ r \<and> c \<notin> set p \<and> hd r = c \<and> r \<noteq> []"
proof (induction s)
  case Nil
  then show ?case by simp
next
  case (Cons x xs)
  show ?case
  proof (cases "x = c")
    case True
    with Cons.prems show ?thesis by (intro exI [of _ "[]"]) auto
  next
    case False
    with Cons.prems have "strchr xs c = Some r" by simp
    from Cons.IH [OF this] obtain p where "xs = p @ r" "c \<notin> set p" "hd r = c" "r \<noteq> []"
      by blast
    with False show ?thesis by (intro exI [of _ "x # p"]) auto
  qed
qed

lemma strchr_append: "c \<notin> set p \<Longrightarrow> strchr (p @ c # r) c = Some (c # r)"
  by (induction p) auto

lemma dropspan_length: "length (dropspan a p) \<le> length p"
  by (simp add: dropspan_def length_dropWhile_le)

lemma dropspan_drop: "drop (strspn p a) p = dropspan a p"
  by (simp add: strspn_def dropspan_def dropWhile_eq_drop)

lemma dropspan_Nil [simp]: "dropspan a [] = []"
  by (simp add: dropspan_def)

lemma dropspan_Cons: "dropspan a (c # p) = (if c \<in> set a then dropspan a p else c # p)"
  by (simp add: dropspan_def)

lemma takeWhile_stop: "\<forall>c\<in>set xs. P c \<Longrightarrow> \<not> P y \<Longrightarrow> takeWhile P (xs @ y # ys) = xs"
  by (induction xs) auto

lemma dropWhile_stop: "\<forall>c\<in>set xs. P c \<Longrightarrow> \<not> P y \<Longrightarrow> dropWhile P (xs @ y # ys) = y # ys"
  by (induction xs) auto

section \<open>Decimal notation\<close>

text \<open>\<open>printf("%u")\<close> of a non-negative number.\<close>

definition digit_char :: "nat \<Rightarrow> char" where
  "digit_char d = char_of (48 + d)"

fun dec_of_nat :: "nat \<Rightarrow> string" where
  "dec_of_nat n = (if n < 10 then [digit_char n] else dec_of_nat (n div 10) @ [digit_char (n mod 10)])"

declare dec_of_nat.simps [simp del]

lemma char_code_digit_char: "d < 10 \<Longrightarrow> char_code (digit_char d) = 48 + d"
  by (simp add: char_code_def digit_char_def)

lemma dec_of_nat_nonempty: "dec_of_nat n \<noteq> []"
  by (subst dec_of_nat.simps) simp

lemma dec_of_nat_digits: "c \<in> set (dec_of_nat n) \<Longrightarrow> \<exists>d<10. c = digit_char d"
proof (induction n rule: dec_of_nat.induct)
  case (1 n)
  show ?case
  proof (cases "n < 10")
    case True
    with "1.prems" show ?thesis by (subst (asm) dec_of_nat.simps) auto
  next
    case False
    from "1.prems" False have "c \<in> set (dec_of_nat (n div 10)) \<or> c = digit_char (n mod 10)"
      by (subst (asm) dec_of_nat.simps) auto
    with "1.IH" [OF False] show ?thesis by (auto intro: exI [of _ "n mod 10"])
  qed
qed

lemma dec_of_nat_length: "n < 10 ^ Suc k \<Longrightarrow> length (dec_of_nat n) \<le> Suc k"
proof (induction k arbitrary: n)
  case 0
  then show ?case by (subst dec_of_nat.simps) simp
next
  case (Suc k)
  show ?case
  proof (cases "n < 10")
    case True
    then show ?thesis by (subst dec_of_nat.simps) simp
  next
    case False
    from Suc.prems have "n div 10 < 10 ^ Suc k" by auto
    with Suc.IH have "length (dec_of_nat (n div 10)) \<le> Suc k" by blast
    with False show ?thesis by (subst dec_of_nat.simps) simp
  qed
qed

lemma dec_of_nat_length_ge: "10 ^ k \<le> n \<Longrightarrow> Suc k \<le> length (dec_of_nat n)"
proof (induction k arbitrary: n)
  case 0
  then show ?case by (cases "dec_of_nat n") (auto simp: dec_of_nat_nonempty)
next
  case (Suc k)
  have "(10::nat) \<le> 10 ^ Suc k" by simp
  with Suc.prems have big: "\<not> n < 10" by linarith
  from Suc.prems have "10 ^ k \<le> n div 10" by auto
  with Suc.IH have "Suc k \<le> length (dec_of_nat (n div 10))" by blast
  with big show ?case by (subst dec_of_nat.simps) simp
qed

section \<open>Codecs\<close>

text \<open>
  The contract of a printer and its parser: every well-formed value is read back from its
  printed form.  Each component that writes what it later reads interprets it.
\<close>

locale codec =
  fixes encode :: "'a \<Rightarrow> 'b" and decode :: "'b \<Rightarrow> 'a option" and wf :: "'a \<Rightarrow> bool"
  assumes decode_encode: "wf x \<Longrightarrow> decode (encode x) = Some x"
begin

lemma encode_inj: "wf x \<Longrightarrow> wf y \<Longrightarrow> encode x = encode y \<longleftrightarrow> x = y"
  using decode_encode by (metis option.inject)

lemma decode_all: "list_all wf xs \<Longrightarrow> map (decode \<circ> encode) xs = map Some xs"
  by (induction xs) (simp_all add: decode_encode)

end

section \<open>Reading files\<close>

text \<open>A buffer used as a C string ends at its first NUL.\<close>

definition cstr :: "string \<Rightarrow> string" where
  "cstr bytes = takeWhile (\<lambda>c. c \<noteq> CHR 0x00) bytes"

text \<open>
  \<open>fgets(buf, bufsize, f)\<close> on a stream with the bytes \<open>s\<close> left: at most \<open>bufsize - 1\<close> bytes, up to
  and including the first newline, and the bytes left over; \<open>None\<close> at the end of the file.
\<close>

definition fgets :: "nat \<Rightarrow> string \<Rightarrow> (string \<times> string) option" where
  "fgets bufsize s =
     (if s = [] then None
      else let l = takeWhile (\<lambda>c. c \<noteq> CHR ''\<newline>'') s;
               n = min (bufsize - 1) (if length l < length s then Suc (length l) else length l)
           in Some (take n s, drop n s))"

lemma fgets_shorter: "fgets bufsize s = Some (l, r) \<Longrightarrow> 1 < bufsize \<Longrightarrow> length r < length s"
  by (cases s) (auto simp: fgets_def Let_def split: if_splits)

lemma digit_chars: "digit_char 0 = CHR ''0''" "digit_char (Suc 0) = CHR ''1''" "digit_char (Suc (Suc 0)) = CHR ''2''" "digit_char 1 = CHR ''1''" "digit_char 2 = CHR ''2''" "digit_char 3 = CHR ''3''"
  "digit_char 4 = CHR ''4''" "digit_char 5 = CHR ''5''" "digit_char 6 = CHR ''6''" "digit_char 7 = CHR ''7''"
  "digit_char 8 = CHR ''8''" "digit_char 9 = CHR ''9''"
  by (simp_all add: digit_char_def char_of_def bit_0)

end
