(* ===== verification/String_Util.thy ===== *)
theory String_Util
  imports Prelude
begin

text \<open>
  The string helpers of \<open>src/share/string-util.c\<close>, \<open>string-util.h\<close> and \<open>strv.c\<close>.
  A function that returns a pointer into its argument returns the suffix the pointer
  addresses, and \<open>NULL\<close> is \<open>None\<close>.  Allocation is taken to succeed.
\<close>

section \<open>Character classes\<close>

definition WHITESPACE :: string where
  "WHITESPACE = [CHR '' '', CHR 0x09, CHR 0x0A, CHR 0x0D]"

definition NEWLINE :: string where
  "NEWLINE = [CHR 0x0A, CHR 0x0D]"

definition QUOTES :: string where
  "QUOTES = [CHR 0x22, CHR 0x27]"

definition COMMENTS :: string where
  "COMMENTS = ''#;''"

definition DIGITS :: string where
  "DIGITS = ''0123456789''"

lemmas char_class_defs = WHITESPACE_def NEWLINE_def QUOTES_def COMMENTS_def DIGITS_def

definition ascii_isdigit :: "char \<Rightarrow> bool" where
  "ascii_isdigit a \<longleftrightarrow> 48 \<le> char_code a \<and> char_code a \<le> 57"

definition ascii_isalpha :: "char \<Rightarrow> bool" where
  "ascii_isalpha a \<longleftrightarrow>
     (97 \<le> char_code a \<and> char_code a \<le> 122) \<or> (65 \<le> char_code a \<and> char_code a \<le> 90)"

definition ascii_tolower :: "char \<Rightarrow> char" where
  "ascii_tolower x =
     (if 65 \<le> char_code x \<and> char_code x \<le> 90 then char_of (char_code x - 65 + 97) else x)"

definition strcaseeq :: "string \<Rightarrow> string \<Rightarrow> bool" where
  \<comment> \<open>\<open>strcasecmp\<close> of the C locale folds the ASCII letters only\<close>
  "strcaseeq a b \<longleftrightarrow> map ascii_tolower a = map ascii_tolower b"

section \<open>Comparison\<close>

text \<open>\<open>strcmp\<close>, as the sign of the first difference of the unsigned bytes.\<close>

fun strcmp :: "string \<Rightarrow> string \<Rightarrow> int" where
  "strcmp [] [] = 0"
| "strcmp [] (y # ys) = -1"
| "strcmp (x # xs) [] = 1"
| "strcmp (x # xs) (y # ys) =
     (if char_code x < char_code y then -1
      else if char_code y < char_code x then 1 else strcmp xs ys)"

definition strcmp_ptr :: "string option \<Rightarrow> string option \<Rightarrow> int" where
  "strcmp_ptr a b =
     (case (a, b) of
        (Some x, Some y) \<Rightarrow> strcmp x y
      | (None, Some y) \<Rightarrow> -1
      | (Some x, None) \<Rightarrow> 1
      | (None, None) \<Rightarrow> 0)"

definition streq_ptr :: "string option \<Rightarrow> string option \<Rightarrow> bool" where
  "streq_ptr a b \<longleftrightarrow> strcmp_ptr a b = 0"

definition isempty :: "string option \<Rightarrow> bool" where
  "isempty p \<longleftrightarrow> (case p of None \<Rightarrow> True | Some s \<Rightarrow> s = [])"

section \<open>Prefixes and suffixes\<close>

definition startswith :: "string \<Rightarrow> string \<Rightarrow> string option" where
  "startswith s prefix =
     (let l = length prefix in if take l s = prefix then Some (drop l s) else None)"

definition startswith_no_case :: "string \<Rightarrow> string \<Rightarrow> string option" where
  "startswith_no_case s prefix =
     (let l = length prefix
      in if strcaseeq (take l s) prefix then Some (drop l s) else None)"

definition endswith :: "string \<Rightarrow> string \<Rightarrow> string option" where
  "endswith s postfix =
     (let sl = length s; pl = length postfix
      in if pl = 0 then Some (drop sl s)
         else if sl < pl then None
         else if drop (sl - pl) s \<noteq> postfix then None
         else Some (drop (sl - pl) s))"

definition endswith_no_case :: "string \<Rightarrow> string \<Rightarrow> string option" where
  "endswith_no_case s postfix =
     (let sl = length s; pl = length postfix
      in if pl = 0 then Some (drop sl s)
         else if sl < pl then None
         else if \<not> strcaseeq (drop (sl - pl) s) postfix then None
         else Some (drop (sl - pl) s))"

definition first_word :: "string \<Rightarrow> string \<Rightarrow> string option" where
  "first_word s word =
     (let sl = length s; wl = length word
      in if sl < wl then None
         else if wl = 0 then Some s
         else if take wl s \<noteq> word then None
         else case drop wl s of
                [] \<Rightarrow> Some []
              | c # p \<Rightarrow>
                  if c \<notin> set WHITESPACE then None else Some (dropspan WHITESPACE (c # p)))"

section \<open>Splitting\<close>

text \<open>The loop of \<open>strcspn_escaped\<close>: index reached and the \<open>escaped\<close> flag.\<close>

fun strcspn_escaped_loop :: "string \<Rightarrow> string \<Rightarrow> bool \<Rightarrow> nat \<Rightarrow> nat \<times> bool" where
  "strcspn_escaped_loop [] reject escaped n = (n, escaped)"
| "strcspn_escaped_loop (c # s) reject escaped n =
     (if escaped then strcspn_escaped_loop s reject False (Suc n)
      else if c = CHR 0x5C then strcspn_escaped_loop s reject True (Suc n)
      else if c \<in> set reject then (n, escaped)
      else strcspn_escaped_loop s reject escaped (Suc n))"

definition strcspn_escaped :: "string \<Rightarrow> string \<Rightarrow> nat" where
  "strcspn_escaped s reject =
     (case strcspn_escaped_loop s reject False 0 of (n, e) \<Rightarrow> n - (if e then 1 else 0))"

text \<open>
  \<open>split\<close> returns the new \<open>*state\<close> and the word found (\<open>current\<close> cut at \<open>*l\<close>),
  \<open>None\<close> for the \<open>NULL\<close> that ends \<open>FOREACH_WORD\<close>.  Reading \<open>current[i]\<close> at the
  terminator is the empty suffix.
\<close>

definition split :: "string \<Rightarrow> string \<Rightarrow> bool \<Rightarrow> string \<times> string option" where
  "split state separator quoted =
     (if state = [] then (state, None)
      else
        let current = dropspan separator state
        in case current of
             [] \<Rightarrow> (current, None)
           | q # rest \<Rightarrow>
               if quoted \<and> q \<in> set QUOTES then
                 (let l = strcspn_escaped rest [q]; after = drop l rest
                  in if after = [] \<or> hd after \<noteq> q \<or>
                        (tl after \<noteq> [] \<and> hd (tl after) \<notin> set separator)
                     then (current, None)
                     else (drop (l + 2) current, Some (take l rest)))
               else if quoted then
                 (let l = strcspn_escaped current separator; after = drop l current
                  in if after \<noteq> [] \<and> hd after \<notin> set separator
                     then (current, None)
                     else (after, Some (take l current)))
               else
                 (let l = strcspn current separator
                  in (drop l current, Some (take l current))))"

section \<open>Building and trimming\<close>

definition strnappend :: "string option \<Rightarrow> string option \<Rightarrow> nat \<Rightarrow> string" where
  \<comment> \<open>for \<open>b \<le> strlen(suffix)\<close>, as \<open>memcpy\<close> requires\<close>
  "strnappend s suffix b =
     (case (s, suffix) of
        (None, None) \<Rightarrow> []
      | (None, Some x) \<Rightarrow> take b x
      | (Some x, None) \<Rightarrow> x
      | (Some x, Some y) \<Rightarrow> x @ take b y)"

definition strappend :: "string option \<Rightarrow> string option \<Rightarrow> string" where
  "strappend s suffix =
     strnappend s suffix (case suffix of None \<Rightarrow> 0 | Some x \<Rightarrow> length x)"

text \<open>\<open>strjoin(x, ..., NULL)\<close>: the arguments up to the first \<open>NULL\<close>.\<close>

fun strjoin :: "string option list \<Rightarrow> string" where
  "strjoin [] = []"
| "strjoin (None # ts) = []"
| "strjoin (Some t # ts) = t @ strjoin ts"

text \<open>The loop that moves \<open>e\<close> back over trailing white space.\<close>

fun strip_end :: "string \<Rightarrow> string" where
  "strip_end [] = []"
| "strip_end (c # s) =
     (let t = strip_end s in if t = [] \<and> c \<in> set WHITESPACE then [] else c # t)"

definition strstrip :: "string \<Rightarrow> string" where
  "strstrip s = strip_end (dropspan WHITESPACE s)"

definition truncate_nl :: "string \<Rightarrow> string" where
  "truncate_nl s = take (strcspn s NEWLINE) s"

section \<open>NUL-separated lists and string vectors\<close>

text \<open>
  \<open>NULSTR_FOREACH\<close> over the bytes of the list: entries end with a NUL, an empty entry
  (or the end of the bytes) ends the list.
\<close>

function nulstr_entries :: "string \<Rightarrow> string list" where
  "nulstr_entries bytes =
     (let w = takeWhile (\<lambda>c. c \<noteq> CHR 0x00) bytes
      in if w = [] then [] else w # nulstr_entries (drop (Suc (length w)) bytes))"
  by pat_completeness auto
termination
proof (relation "measure length", goal_cases)
  case (2 bytes w)
  then have "bytes \<noteq> []" by auto
  then show ?case by simp
qed simp

declare nulstr_entries.simps [simp del]

definition nulstr_contains :: "string option \<Rightarrow> string \<Rightarrow> bool" where
  "nulstr_contains nulstr needle =
     (case nulstr of None \<Rightarrow> False
      | Some b \<Rightarrow> list_ex (\<lambda>i. strcmp i needle = 0) (nulstr_entries b))"

fun strv_find :: "string list \<Rightarrow> string \<Rightarrow> string option" where
  "strv_find [] name = None"
| "strv_find (x # xs) name = (if strcmp x name = 0 then Some x else strv_find xs name)"

definition strv_length :: "string list \<Rightarrow> u32" where
  "strv_length l = fold (\<lambda>_ n. n + 1) l 0"

fun strv_remove :: "string list \<Rightarrow> string \<Rightarrow> string list" where
  "strv_remove [] s = []"
| "strv_remove (f # fs) s =
     (if strcmp f s = 0 then strv_remove fs s else f # strv_remove fs s)"

text \<open>\<open>strv_uniq\<close> visits the entries that are left and removes each from its tail.\<close>

lemma strv_remove_length: "length (strv_remove l s) \<le> length l"
  by (induction l s rule: strv_remove.induct) auto

function strv_uniq :: "string list \<Rightarrow> string list" where
  "strv_uniq [] = []"
| "strv_uniq (x # xs) = x # strv_uniq (strv_remove xs x)"
  by pat_completeness auto
termination
  by (relation "measure length") (auto intro: le_imp_less_Suc strv_remove_length)

definition strv_extend :: "string list \<Rightarrow> string option \<Rightarrow> string list" where
  "strv_extend l value = (case value of None \<Rightarrow> l | Some v \<Rightarrow> l @ [v])"

definition strv_split_nulstr :: "string \<Rightarrow> string list" where
  "strv_split_nulstr s = foldl (\<lambda>r i. strv_extend r (Some i)) [] (nulstr_entries s)"

text \<open>\<open>strv_split\<close>: the words that \<open>FOREACH_WORD_SEPARATOR\<close> visits.\<close>

lemma split_length:
  "split state separator False = (state', Some w) \<Longrightarrow> length state' < length state"
proof -
  assume a: "split state separator False = (state', Some w)"
  show ?thesis
  proof (cases "dropspan separator state")
    case Nil
    with a show ?thesis by (simp add: split_def split: if_splits)
  next
    case (Cons q rest)
    from Cons have "q \<notin> set separator"
      using hd_dropWhile [of "\<lambda>c. c \<in> set separator" state] by (auto simp: dropspan_def)
    then have pos: "0 < strcspn (q # rest) separator" by (simp add: strcspn_def)
    from a Cons have "state' = drop (strcspn (q # rest) separator) (q # rest)"
      by (auto simp: split_def Let_def split: if_splits)
    then have "length state' < length (q # rest)" using pos by simp
    also have "\<dots> \<le> length state" using dropspan_length [of separator state] Cons by simp
    finally show ?thesis .
  qed
qed

function strv_split :: "string \<Rightarrow> string \<Rightarrow> string list" where
  "strv_split s separator =
     (case split s separator False of
        (state, None) \<Rightarrow> []
      | (state, Some w) \<Rightarrow> w # strv_split state separator)"
  by pat_completeness auto
termination
  by (relation "measure (length \<circ> fst)") (auto dest: split_length [OF sym])

declare strv_split.simps [simp del]


section \<open>Facts\<close>

lemma strcmp_eq_0 [simp]: "strcmp a b = 0 \<longleftrightarrow> a = b"
  by (induction a b rule: strcmp.induct) (auto simp: char_code_inj)

lemma streq_ptr_iff [simp]: "streq_ptr a b \<longleftrightarrow> a = b"
  by (cases a; cases b) (auto simp: streq_ptr_def strcmp_ptr_def)

lemma strcmp_antisym: "strcmp b a = - strcmp a b"
  by (induction a b rule: strcmp.induct) auto

lemma startswith_Some: "startswith s p = Some r \<longleftrightarrow> s = p @ r"
  by (auto simp: startswith_def Let_def) (metis append_take_drop_id)

lemma startswith_None: "startswith s p = None \<longleftrightarrow> (\<nexists>r. s = p @ r)"
  by (metis option.exhaust option.distinct(1) startswith_Some)

lemma endswith_Some: "endswith s p = Some r \<longleftrightarrow> r = p \<and> (\<exists>q. s = q @ p)"
proof
  assume "endswith s p = Some r"
  then show "r = p \<and> (\<exists>q. s = q @ p)"
    by (auto simp: endswith_def Let_def split: if_splits) (metis append_take_drop_id)
next
  assume "r = p \<and> (\<exists>q. s = q @ p)"
  then show "endswith s p = Some r" by (auto simp: endswith_def Let_def)
qed

lemma strip_end_append:
  "\<exists>w. s = strip_end s @ w \<and> set w \<subseteq> set WHITESPACE"
proof (induction s)
  case Nil
  then show ?case by simp
next
  case (Cons c s)
  then obtain w where "s = strip_end s @ w" "set w \<subseteq> set WHITESPACE" by blast
  then show ?case by (cases "strip_end s = [] \<and> c \<in> set WHITESPACE") (auto simp: Let_def)
qed

lemma strip_end_last: "strip_end s \<noteq> [] \<Longrightarrow> last (strip_end s) \<notin> set WHITESPACE"
  by (induction s) (auto simp: Let_def split: if_splits)

lemma strip_end_hd: "s \<noteq> [] \<Longrightarrow> hd s \<notin> set WHITESPACE \<Longrightarrow> strip_end s \<noteq> [] \<and> hd (strip_end s) = hd s"
  by (cases s) (auto simp: Let_def)

lemma strip_end_id: "s = [] \<or> last s \<notin> set WHITESPACE \<Longrightarrow> strip_end s = s"
  by (induction s) (auto simp: Let_def split: if_splits)

lemma dropspan_append:
  "\<exists>w. s = w @ dropspan a s \<and> set w \<subseteq> set a"
  by (rule exI [of _ "takeWhile (\<lambda>c. c \<in> set a) s"]) (auto simp: dropspan_def dest: set_takeWhileD)

lemma dropspan_hd: "dropspan a s \<noteq> [] \<Longrightarrow> hd (dropspan a s) \<notin> set a"
  using hd_dropWhile [of "\<lambda>c. c \<in> set a" s] by (auto simp: dropspan_def)

lemma dropspan_id: "s = [] \<or> hd s \<notin> set a \<Longrightarrow> dropspan a s = s"
  by (cases s) (auto simp: dropspan_Cons)

lemma strstrip_id: "s = [] \<or> hd s \<notin> set WHITESPACE \<and> last s \<notin> set WHITESPACE \<Longrightarrow> strstrip s = s"
  by (auto simp: strstrip_def dropspan_id strip_end_id)

lemma strstrip_trimmed:
  "strstrip s = [] \<or> hd (strstrip s) \<notin> set WHITESPACE \<and> last (strstrip s) \<notin> set WHITESPACE"
  by (metis dropspan_hd strip_end.simps(1) strip_end_hd strip_end_last strstrip_def)

lemma strstrip_parts:
  "\<exists>u v. s = u @ strstrip s @ v \<and> set u \<subseteq> set WHITESPACE \<and> set v \<subseteq> set WHITESPACE"
proof -
  obtain u where u: "s = u @ dropspan WHITESPACE s" "set u \<subseteq> set WHITESPACE"
    using dropspan_append by blast
  obtain v where "dropspan WHITESPACE s = strstrip s @ v" "set v \<subseteq> set WHITESPACE"
    unfolding strstrip_def using strip_end_append by blast
  with u show ?thesis by auto
qed

lemma strstrip_set: "set (strstrip s) \<subseteq> set s"
  using strstrip_parts [of s] by (metis Un_upper1 Un_upper2 order_trans set_append)

lemma strv_remove_filter: "strv_remove l s = filter (\<lambda>x. x \<noteq> s) l"
  by (induction l s rule: strv_remove.induct) auto

lemma strv_uniq_set: "set (strv_uniq l) = set l"
  by (induction l rule: strv_uniq.induct) (auto simp: strv_remove_filter)

lemma strv_uniq_distinct: "distinct (strv_uniq l)"
  by (induction l rule: strv_uniq.induct) (auto simp: strv_remove_filter strv_uniq_set)

lemma strv_find_Some: "strv_find l s = (if s \<in> set l then Some s else None)"
  by (induction l s rule: strv_find.induct) auto

lemma strv_split_nulstr_entries: "strv_split_nulstr s = nulstr_entries s"
proof -
  have "foldl (\<lambda>r i. strv_extend r (Some i)) acc xs = acc @ xs" for acc xs
    by (induction xs arbitrary: acc) (auto simp: strv_extend_def)
  then show ?thesis by (simp add: strv_split_nulstr_def)
qed

lemma nulstr_contains_iff:
  "nulstr_contains (Some b) needle \<longleftrightarrow> needle \<in> set (nulstr_entries b)"
  by (auto simp: nulstr_contains_def list_ex_iff)

end
