(* ===== verification/Parse_Util.thy ===== *)
theory Parse_Util
  imports String_Util
begin

text \<open>
  Number and boolean parsing of \<open>src/share/parse-util.c\<close> and the digit helpers of
  \<open>src/share/hexdecoct.c\<close>.  \<open>strtoul\<close>, \<open>strtoull\<close>, \<open>strtol\<close> and \<open>strtoll\<close> are
  modelled as ISO C11 describes them for the C locale: optional white space, an
  optional sign, for base 0 a \<open>0x\<close>/\<open>0\<close> prefix, the longest run of digits, the end
  pointer, and saturation with \<open>ERANGE\<close>.
\<close>

section \<open>Digits\<close>

definition unoctchar :: "char \<Rightarrow> int" where
  "unoctchar c =
     (if 48 \<le> char_code c \<and> char_code c \<le> 55 then int (char_code c) - 48 else - EINVAL)"

definition undecchar :: "char \<Rightarrow> int" where
  "undecchar c =
     (if 48 \<le> char_code c \<and> char_code c \<le> 57 then int (char_code c) - 48 else - EINVAL)"

definition unhexchar :: "char \<Rightarrow> int" where
  "unhexchar c =
     (if 48 \<le> char_code c \<and> char_code c \<le> 57 then int (char_code c) - 48
      else if 97 \<le> char_code c \<and> char_code c \<le> 102 then int (char_code c) - 97 + 10
      else if 65 \<le> char_code c \<and> char_code c \<le> 70 then int (char_code c) - 65 + 10
      else - EINVAL)"

definition octchar :: "int \<Rightarrow> char" where
  "octchar x = char_of (48 + nat (x mod 8))"

definition decchar :: "int \<Rightarrow> char" where
  \<comment> \<open>for \<open>x \<ge> 0\<close>, where the C remainder agrees with \<open>mod\<close>\<close>
  "decchar x = char_of (48 + nat (x mod 10))"

definition hexchar :: "int \<Rightarrow> char" where
  "hexchar x = ''0123456789abcdef'' ! nat (x mod 16)"

section \<open>The strtol family\<close>

definition c_isspace :: "char \<Rightarrow> bool" where
  "c_isspace c \<longleftrightarrow> char_code c = 32 \<or> 9 \<le> char_code c \<and> char_code c \<le> 13"

text \<open>The value of a digit or letter, \<open>None\<close> for other characters.\<close>

definition digit_value :: "char \<Rightarrow> nat option" where
  "digit_value c =
     (let n = char_code c
      in if 48 \<le> n \<and> n \<le> 57 then Some (n - 48)
         else if 97 \<le> n \<and> n \<le> 122 then Some (n - 97 + 10)
         else if 65 \<le> n \<and> n \<le> 90 then Some (n - 65 + 10)
         else None)"

definition is_digit_of :: "nat \<Rightarrow> char \<Rightarrow> bool" where
  "is_digit_of base c \<longleftrightarrow> (case digit_value c of None \<Rightarrow> False | Some d \<Rightarrow> d < base)"

definition digits_value :: "nat \<Rightarrow> string \<Rightarrow> nat" where
  "digits_value base ds = foldl (\<lambda>v c. v * base + the (digit_value c)) 0 ds"

text \<open>Base 0 is resolved by the prefix; \<open>0x\<close> counts only before a hexadecimal digit.\<close>

definition number_prefix :: "nat \<Rightarrow> string \<Rightarrow> nat \<times> string" where
  "number_prefix base s =
     (if base = 0 then
        (case s of
           z # x # d # rest \<Rightarrow>
             if z = CHR ''0'' \<and> (x = CHR ''x'' \<or> x = CHR ''X'') \<and> is_digit_of 16 d
             then (16, d # rest)
             else if z = CHR ''0'' then (8, s) else (10, s)
         | z # rest \<Rightarrow> if z = CHR ''0'' then (8, s) else (10, s)
         | [] \<Rightarrow> (10, s))
      else (base, s))"

text \<open>Sign, magnitude and the rest of the string; \<open>None\<close> when there is no digit.\<close>

definition scan_number :: "nat \<Rightarrow> string \<Rightarrow> (bool \<times> nat \<times> string) option" where
  "scan_number base s0 =
     (let s1 = dropWhile c_isspace s0;
          (neg, s2) = (case s1 of
                         c # r \<Rightarrow> if c = CHR ''-'' then (True, r)
                                  else if c = CHR ''+'' then (False, r) else (False, s1)
                       | [] \<Rightarrow> (False, s1));
          (b, s3) = number_prefix base s2;
          ds = takeWhile (is_digit_of b) s3
      in if ds = [] then None else Some (neg, digits_value b ds, dropWhile (is_digit_of b) s3))"

text \<open>
  Each function returns the value, the end pointer (\<open>None\<close> stands for an end pointer
  equal to the argument: nothing was converted) and the \<open>errno\<close> it sets.
\<close>

definition strtoul :: "nat \<Rightarrow> string \<Rightarrow> nat \<times> string option \<times> int" where
  "strtoul base s =
     (case scan_number base s of
        None \<Rightarrow> (0, None, 0)
      | Some (neg, v, rest) \<Rightarrow>
          if 2 ^ 64 \<le> v then (2 ^ 64 - 1, Some rest, ERANGE)
          else (if neg then (2 ^ 64 - v) mod 2 ^ 64 else v, Some rest, 0))"

definition strtol :: "nat \<Rightarrow> string \<Rightarrow> int \<times> string option \<times> int" where
  "strtol base s =
     (case scan_number base s of
        None \<Rightarrow> (0, None, 0)
      | Some (neg, v, rest) \<Rightarrow>
          if neg then
            (if 2 ^ 63 < v then (- (2 ^ 63), Some rest, ERANGE) else (- int v, Some rest, 0))
          else
            (if 2 ^ 63 \<le> v then (2 ^ 63 - 1, Some rest, ERANGE) else (int v, Some rest, 0)))"

section \<open>The safe parsers\<close>

definition parse_boolean :: "string \<Rightarrow> int" where
  "parse_boolean v =
     (if v = ''1'' \<or> strcaseeq v ''yes'' \<or> strcaseeq v ''y'' \<or> strcaseeq v ''true'' \<or>
         strcaseeq v ''t'' \<or> strcaseeq v ''on'' then 1
      else if v = ''0'' \<or> strcaseeq v ''no'' \<or> strcaseeq v ''n'' \<or> strcaseeq v ''false'' \<or>
         strcaseeq v ''f'' \<or> strcaseeq v ''off'' then 0
      else - EINVAL)"

definition starts_with_minus :: "string \<Rightarrow> bool" where
  "starts_with_minus s \<longleftrightarrow> (case s of [] \<Rightarrow> False | c # _ \<Rightarrow> c = CHR ''-'')"

definition safe_atou :: "string \<Rightarrow> u32 result" where
  "safe_atou s0 =
     (let s = dropspan WHITESPACE s0; (l, x, err) = strtoul 0 s
      in if 0 < err then Inl (- err)
         else if x \<noteq> Some [] then Inl (- EINVAL)
         else if starts_with_minus s then Inl (- ERANGE)
         else if l mod 2 ^ 32 \<noteq> l then Inl (- ERANGE)
         else Inr (of_nat l))"

definition safe_atoi :: "string \<Rightarrow> int result" where
  "safe_atoi s =
     (let (l, x, err) = strtol 0 s
      in if 0 < err then Inl (- err)
         else if x \<noteq> Some [] then Inl (- EINVAL)
         else if sint (word_of_int l :: 32 word) \<noteq> l then Inl (- ERANGE)
         else Inr l)"

definition safe_atollu :: "string \<Rightarrow> u64 result" where
  "safe_atollu s0 =
     (let s = dropspan WHITESPACE s0; (l, x, err) = strtoul 0 s
      in if 0 < err then Inl (- err)
         else if x \<noteq> Some [] then Inl (- EINVAL)
         else if starts_with_minus s then Inl (- ERANGE)
         else Inr (of_nat l))"

definition safe_atolli :: "string \<Rightarrow> int result" where
  "safe_atolli s =
     (let (l, x, err) = strtol 0 s
      in if 0 < err then Inl (- err)
         else if x \<noteq> Some [] then Inl (- EINVAL)
         else Inr l)"

definition parse_ifindex :: "string \<Rightarrow> int result" where
  "parse_ifindex s =
     (case safe_atoi s of
        Inl r \<Rightarrow> Inl r
      | Inr ifi \<Rightarrow> if ifi \<le> 0 then Inl (- EINVAL) else Inr ifi)"

section \<open>Facts\<close>

lemma digit_value_digit_char: "d < 10 \<Longrightarrow> digit_value (digit_char d) = Some d"
  by (simp add: digit_value_def char_code_digit_char Let_def)

lemma is_digit_of_digit_char: "d < 10 \<Longrightarrow> is_digit_of b (digit_char d) \<longleftrightarrow> d < b"
  by (simp add: is_digit_of_def digit_value_digit_char)

lemma digits_value_append: "digits_value b (xs @ [c]) = digits_value b xs * b + the (digit_value c)"
  by (simp add: digits_value_def)

lemma digits_value_dec_of_nat: "digits_value 10 (dec_of_nat n) = n"
proof (induction n rule: dec_of_nat.induct)
  case (1 n)
  show ?case
  proof (cases "n < 10")
    case True
    then show ?thesis
      by (subst dec_of_nat.simps) (simp add: digits_value_def digit_value_digit_char)
  next
    case False
    then show ?thesis
      by (subst dec_of_nat.simps) (simp add: digits_value_append digit_value_digit_char "1.IH")
  qed
qed

lemma dec_of_nat_all_digits: "c \<in> set (dec_of_nat n) \<Longrightarrow> is_digit_of 10 c"
  using dec_of_nat_digits [of c n] by (auto simp: is_digit_of_digit_char)

lemma dec_of_nat_ascii_isdigit: "c \<in> set (dec_of_nat n) \<Longrightarrow> ascii_isdigit c"
  using dec_of_nat_digits [of c n] by (auto simp: ascii_isdigit_def char_code_digit_char)

lemma dec_of_nat_hd: "0 < n \<Longrightarrow> \<exists>d. 0 < d \<and> d < 10 \<and> hd (dec_of_nat n) = digit_char d"
proof (induction n rule: dec_of_nat.induct)
  case (1 n)
  show ?case
  proof (cases "n < 10")
    case True
    with "1.prems" show ?thesis by (subst dec_of_nat.simps) auto
  next
    case False
    then have "0 < n div 10" by auto
    with "1.IH" False obtain d where "0 < d" "d < 10" "hd (dec_of_nat (n div 10)) = digit_char d"
      by blast
    with False show ?thesis
      by (subst dec_of_nat.simps) (auto simp: dec_of_nat_nonempty)
  qed
qed

lemma digit_not_special:
  assumes "d < 10"
  shows "\<not> c_isspace (digit_char d)" "digit_char d \<noteq> CHR ''-''" "digit_char d \<noteq> CHR ''+''"
    "digit_char d \<notin> set WHITESPACE" "digit_char d \<noteq> CHR ''x''" "digit_char d \<noteq> CHR ''X''"
    "digit_char d = CHR ''0'' \<longleftrightarrow> d = 0"
proof -
  have code: "char_code (digit_char d) = 48 + d" using assms by (rule char_code_digit_char)
  show "\<not> c_isspace (digit_char d)" using code assms by (auto simp: c_isspace_def)
  have "digit_char d \<noteq> c" if "char_code c < 48 \<or> 57 < char_code c" for c
    using that code assms by auto
  note ne = this
  show "digit_char d \<noteq> CHR ''-''" "digit_char d \<noteq> CHR ''+''"
    "digit_char d \<noteq> CHR ''x''" "digit_char d \<noteq> CHR ''X''"
    by (rule ne, simp add: char_code_def)+
  have "c \<in> set WHITESPACE \<Longrightarrow> char_code c < 48" for c
    by (auto simp: WHITESPACE_def char_code_def)
  with ne show "digit_char d \<notin> set WHITESPACE" by blast
  have "char_code (CHR ''0'') = 48" by (simp add: char_code_def)
  with code show "digit_char d = CHR ''0'' \<longleftrightarrow> d = 0" using char_code_inj by force
qed

lemma number_prefix_dec:
  assumes "0 < n"
  shows "number_prefix 0 (dec_of_nat n) = (10, dec_of_nat n)"
proof -
  obtain d where d: "0 < d" "d < 10" "hd (dec_of_nat n) = digit_char d"
    using dec_of_nat_hd [OF assms] by blast
  then have "hd (dec_of_nat n) \<noteq> CHR ''0''" using digit_not_special(7) by auto
  then show ?thesis
    by (cases "dec_of_nat n" rule: remdups_adj.cases)
       (auto simp: number_prefix_def dec_of_nat_nonempty split: list.splits)
qed

lemma scan_number_dec: "scan_number 0 (dec_of_nat n) = Some (False, n, [])"
proof -
  obtain c cs where eq: "dec_of_nat n = c # cs"
    using dec_of_nat_nonempty by (cases "dec_of_nat n") auto
  then obtain d where d: "d < 10" "c = digit_char d"
    using dec_of_nat_digits [of c n] by auto
  have all: "\<forall>x\<in>set (dec_of_nat n). is_digit_of 10 x"
    using dec_of_nat_all_digits by blast
  show ?thesis
  proof (cases "n = 0")
    case True
    then have "dec_of_nat n = [digit_char 0]" by (subst dec_of_nat.simps) simp
    moreover have "number_prefix 0 [digit_char 0] = (8, [digit_char 0])"
      using digit_not_special(7) [of 0] by (simp add: number_prefix_def)
    ultimately show ?thesis
      using digit_not_special [of 0] True
      by (simp add: scan_number_def is_digit_of_def digits_value_def digit_value_def char_code_def)
  next
    case False
    then have pre: "number_prefix 0 (dec_of_nat n) = (10, dec_of_nat n)"
      by (simp add: number_prefix_dec)
    have "dropWhile c_isspace (dec_of_nat n) = dec_of_nat n"
      using d digit_not_special(1) eq by simp
    moreover have "takeWhile (is_digit_of 10) (dec_of_nat n) = dec_of_nat n"
      "dropWhile (is_digit_of 10) (dec_of_nat n) = []"
      using all by (auto simp: takeWhile_eq_all_conv dropWhile_eq_Nil_conv)
    ultimately show ?thesis
      using pre d digit_not_special(2,3) eq digits_value_dec_of_nat [of n]
      by (auto simp: scan_number_def dec_of_nat_nonempty digits_value_dec_of_nat)
  qed
qed

lemma dropspan_ws_dec: "dropspan WHITESPACE (dec_of_nat n) = dec_of_nat n"
proof -
  obtain c cs where eq: "dec_of_nat n = c # cs"
    using dec_of_nat_nonempty by (cases "dec_of_nat n") auto
  then obtain d where "d < 10" "c = digit_char d"
    using dec_of_nat_digits [of c n] by auto
  then show ?thesis using eq digit_not_special(4) by (simp add: dropspan_Cons)
qed

lemma starts_with_minus_dec: "\<not> starts_with_minus (dec_of_nat n)"
proof (cases "dec_of_nat n")
  case (Cons c cs)
  then obtain d where "d < 10" "c = digit_char d"
    using dec_of_nat_digits [of c n] by auto
  then show ?thesis using Cons digit_not_special(2) by (simp add: starts_with_minus_def)
qed (simp add: starts_with_minus_def)

lemma strtoul_dec:
  "strtoul 0 (dec_of_nat n) = (if 2 ^ 64 \<le> n then (2 ^ 64 - 1, Some [], ERANGE) else (n, Some [], 0))"
  by (simp add: strtoul_def scan_number_dec)

lemma safe_atou_ws: "set w \<subseteq> set WHITESPACE \<Longrightarrow> safe_atou (w @ s) = safe_atou s"
  by (simp add: safe_atou_def dropspan_def subset_iff dropWhile_append2)

lemma safe_atou_dec:
  "safe_atou (dec_of_nat n) = (if n < 2 ^ 32 then Inr (of_nat n) else Inl (- ERANGE))"
proof -
  have "n mod 2 ^ 32 = n \<longleftrightarrow> n < 2 ^ 32" by auto
  then show ?thesis
    by (auto simp: safe_atou_def strtoul_dec dropspan_ws_dec starts_with_minus_dec Let_def)
qed

lemma safe_atou_minus: "s = CHR ''-'' # t \<Longrightarrow> \<exists>e<0. safe_atou s = Inl e"
  by (auto simp: safe_atou_def Let_def dropspan_Cons WHITESPACE_def starts_with_minus_def
      strtoul_def scan_number_def split: option.splits prod.splits)

lemma safe_atoi_range: "safe_atoi s = Inr v \<Longrightarrow> - (2 ^ 31) \<le> v \<and> v < 2 ^ 31"
proof -
  assume "safe_atoi s = Inr v"
  then have "sint (word_of_int v :: 32 word) = v"
    by (auto simp: safe_atoi_def split: prod.splits if_splits)
  moreover have "- (2 ^ 31) \<le> sint (w :: 32 word)" "sint (w :: 32 word) < 2 ^ 31" for w
    using sint_range_size [of w] by (simp_all add: word_size)
  ultimately show ?thesis by metis
qed

lemma parse_ifindex_range: "parse_ifindex s = Inr v \<Longrightarrow> 0 < v \<and> v < 2 ^ 31"
  using safe_atoi_range by (force simp: parse_ifindex_def split: sum.splits if_splits)

lemma parse_boolean_range: "parse_boolean v \<in> {1, 0, - EINVAL}"
  by (auto simp: parse_boolean_def)

end
