(* ===== verification/Utf8.thy ===== *)
theory Utf8
  imports Parse_Util
begin

text \<open>
  \<open>src/share/utf8.c\<close>: encoding, decoding and validation of UTF-8.  \<open>char32_t\<close> is a
  32-bit word; every use of a byte in the source is masked to its low eight bits, so a
  byte is the word \<open>utf8_byte c\<close>.  Reading at the end of the string reads the NUL.
\<close>

unbundle bit_operations_syntax

definition utf8_byte :: "char \<Rightarrow> u32" where
  "utf8_byte c = of_nat (char_code c)"

definition byte_char :: "u32 \<Rightarrow> char" where
  "byte_char v = char_of (unat v)"

text \<open>\<open>str[i]\<close> as a byte; 0 at and after the terminator, which no caller passes.\<close>

definition byte_at :: "string \<Rightarrow> nat \<Rightarrow> u32" where
  "byte_at str i = (if i < length str then utf8_byte (str ! i) else 0)"

definition unichar_is_valid :: "u32 \<Rightarrow> bool" where
  "unichar_is_valid ch \<longleftrightarrow>
     \<not> 0x110000 \<le> ch \<and> \<not> (ch AND 0xFFFFF800) = 0xD800 \<and>
     \<not> (0xFDD0 \<le> ch \<and> ch \<le> 0xFDEF) \<and> \<not> (ch AND 0xFFFE) = 0xFFFE"

definition utf8_encoded_expected_len :: "string \<Rightarrow> nat" where
  "utf8_encoded_expected_len str =
     (let c = byte_at str 0
      in if c < 0x80 then 1
         else if (c AND 0xe0) = 0xc0 then 2
         else if (c AND 0xf0) = 0xe0 then 3
         else if (c AND 0xf8) = 0xf0 then 4
         else if (c AND 0xfc) = 0xf8 then 5
         else if (c AND 0xfe) = 0xfc then 6
         else 0)"

text \<open>The loop over the continuation bytes, from index \<open>i\<close> with \<open>n\<close> bytes left.\<close>

fun utf8_continuation :: "string \<Rightarrow> nat \<Rightarrow> nat \<Rightarrow> u32 \<Rightarrow> u32 result" where
  "utf8_continuation str i 0 unichar = Inr unichar"
| "utf8_continuation str i (Suc n) unichar =
     (if (byte_at str i AND 0xc0) \<noteq> 0x80 then Inl (- EINVAL)
      else utf8_continuation str (Suc i) n (push_bit 6 unichar OR (byte_at str i AND 0x3f)))"

definition utf8_encoded_to_unichar :: "string \<Rightarrow> u32 result" where
  "utf8_encoded_to_unichar str =
     (let len = utf8_encoded_expected_len str; c = byte_at str 0
      in if len = 1 then Inr c
         else if len = 2 then utf8_continuation str 1 1 (c AND 0x1f)
         else if len = 3 then utf8_continuation str 1 2 (c AND 0x0f)
         else if len = 4 then utf8_continuation str 1 3 (c AND 0x07)
         else if len = 5 then utf8_continuation str 1 4 (c AND 0x03)
         else if len = 6 then utf8_continuation str 1 5 (c AND 0x01)
         else Inl (- EINVAL))"

definition utf8_unichar_to_encoded_len :: "u32 \<Rightarrow> nat" where
  "utf8_unichar_to_encoded_len unichar =
     (if unichar < 0x80 then 1 else if unichar < 0x800 then 2
      else if unichar < 0x10000 then 3 else if unichar < 0x200000 then 4
      else if unichar < 0x4000000 then 5 else 6)"

definition utf8_encoded_valid_unichar :: "string \<Rightarrow> nat result" where
  "utf8_encoded_valid_unichar str =
     (let len = utf8_encoded_expected_len str
      in if len = 0 then Inl (- EINVAL)
         else if len = 1 then Inr 1
         else if \<exists>i<len. (byte_at str i AND 0x80) \<noteq> 0x80 then Inl (- EINVAL)
         else case utf8_encoded_to_unichar str of
                Inl r \<Rightarrow> Inl r
              | Inr unichar \<Rightarrow>
                  if utf8_unichar_to_encoded_len unichar \<noteq> len then Inl (- EINVAL)
                  else if \<not> unichar_is_valid unichar then Inl (- EINVAL)
                  else Inr len)"

lemma utf8_encoded_valid_unichar_pos:
  "utf8_encoded_valid_unichar str = Inr len \<Longrightarrow> 0 < len"
  by (auto simp: utf8_encoded_valid_unichar_def Let_def split: if_splits sum.splits)

function utf8_is_valid :: "string \<Rightarrow> bool" where
  \<comment> \<open>whether the C function returns its argument rather than \<open>NULL\<close>\<close>
  "utf8_is_valid p =
     (if p = [] then True
      else case utf8_encoded_valid_unichar p of
             Inl _ \<Rightarrow> False
           | Inr len \<Rightarrow> utf8_is_valid (drop len p))"
  by pat_completeness auto
termination
  by (relation "measure length") (auto dest: utf8_encoded_valid_unichar_pos)

declare utf8_is_valid.simps [simp del]

definition UTF8_REPLACEMENT_CHARACTER :: string where
  "UTF8_REPLACEMENT_CHARACTER = [CHR 0xEF, CHR 0xBF, CHR 0xBD]"

function utf8_escape_invalid :: "string \<Rightarrow> string" where
  "utf8_escape_invalid str =
     (if str = [] then []
      else case utf8_encoded_valid_unichar str of
             Inr len \<Rightarrow> take len str @ utf8_escape_invalid (drop len str)
           | Inl _ \<Rightarrow> UTF8_REPLACEMENT_CHARACTER @ utf8_escape_invalid (drop 1 str))"
  by pat_completeness auto
termination
  by (relation "measure length") (auto dest: utf8_encoded_valid_unichar_pos)

declare utf8_escape_invalid.simps [simp del]

definition ascii_is_valid :: "string \<Rightarrow> bool" where
  "ascii_is_valid str \<longleftrightarrow> list_all (\<lambda>c. \<not> 128 \<le> char_code c) str"

text \<open>The bytes written to \<open>out_utf8\<close>; their number is the return value.\<close>

definition utf8_encode_unichar :: "u32 \<Rightarrow> string" where
  "utf8_encode_unichar g =
     (if g < 2 ^ 7 then [byte_char (g AND 0x7f)]
      else if g < 2 ^ 11 then
        [byte_char (0xc0 OR (drop_bit 6 g AND 0x1f)), byte_char (0x80 OR (g AND 0x3f))]
      else if g < 2 ^ 16 then
        [byte_char (0xe0 OR (drop_bit 12 g AND 0x0f)),
         byte_char (0x80 OR (drop_bit 6 g AND 0x3f)), byte_char (0x80 OR (g AND 0x3f))]
      else if g < 2 ^ 21 then
        [byte_char (0xf0 OR (drop_bit 18 g AND 0x07)),
         byte_char (0x80 OR (drop_bit 12 g AND 0x3f)),
         byte_char (0x80 OR (drop_bit 6 g AND 0x3f)), byte_char (0x80 OR (g AND 0x3f))]
      else [])"

section \<open>Facts\<close>

lemma word32_eqI: "(\<forall>n<32. bit (a :: u32) n = bit b n) \<Longrightarrow> a = b"
  by (rule bit_word_eqI) simp

lemma all_below_32:
  "(\<forall>n<32. P n) \<longleftrightarrow> P 0 \<and> P 1 \<and> P 2 \<and> P 3 \<and> P 4 \<and> P 5 \<and> P 6 \<and> P 7 \<and>
     P 8 \<and> P 9 \<and> P 10 \<and> P 11 \<and> P 12 \<and> P 13 \<and> P 14 \<and> P 15 \<and> P 16 \<and> P 17 \<and> P 18 \<and>
     P 19 \<and> P 20 \<and> P 21 \<and> P 22 \<and> P 23 \<and> P 24 \<and> P 25 \<and> P 26 \<and> P 27 \<and> P 28 \<and>
     P 29 \<and> P 30 \<and> P (31 :: nat)"
  by (auto simp: numeral_eq_Suc All_less_Suc)

lemma take_bit_below: "g < 2 ^ n \<Longrightarrow> n < 32 \<Longrightarrow> take_bit n (g :: u32) = g"
  by (simp add: word_unat_eq_iff unsigned_take_bit_eq word_less_nat_alt take_bit_nat_eq_self_iff
      unat_two_power)

lemma bit_not_below: "bit (g :: u32) n \<Longrightarrow> n < 32 \<Longrightarrow> \<not> g < 2 ^ n"
  by (metis bit_take_bit_iff less_irrefl take_bit_below)

lemma byte_roundtrip: "utf8_byte (byte_char v) = take_bit 8 v"
proof -
  have "unat v mod 256 mod 2 ^ 32 = unat v mod 256" by (simp add: less_imp_le mod_less)
  then have "unat (utf8_byte (byte_char v)) = unat v mod 256"
    by (simp add: utf8_byte_def byte_char_def char_code_def unat_of_nat)
  also have "\<dots> = unat (take_bit 8 v)" by (simp add: unsigned_take_bit_eq take_bit_eq_mod [of 8 "unat v"])
  finally show ?thesis by (simp add: word_unat_eq_iff)
qed

lemma byte_at_Cons: "byte_at (c # cs) 0 = utf8_byte c" "byte_at (c # cs) (Suc n) = byte_at cs n"
  by (simp_all add: byte_at_def)

text \<open>The lead and continuation bytes the encoder writes, as the decoder reads them.\<close>

lemma lead_byte2: "take_bit 8 ((0xc0 :: u32) OR (x AND 0x1f)) = 0xc0 OR (x AND 0x1f)"
  by (rule word32_eqI, unfold all_below_32) (simp add: bit_simps)

lemma lead_byte3: "take_bit 8 ((0xe0 :: u32) OR (x AND 0x0f)) = 0xe0 OR (x AND 0x0f)"
  by (rule word32_eqI, unfold all_below_32) (simp add: bit_simps)

lemma lead_byte4: "take_bit 8 ((0xf0 :: u32) OR (x AND 0x07)) = 0xf0 OR (x AND 0x07)"
  by (rule word32_eqI, unfold all_below_32) (simp add: bit_simps)

lemma cont_byte: "take_bit 8 ((0x80 :: u32) OR (x AND 0x3f)) = 0x80 OR (x AND 0x3f)"
  by (rule word32_eqI, unfold all_below_32) (simp add: bit_simps)

lemma cont_byte_mark: "((0x80 :: u32) OR (x AND 0x3f)) AND 0xc0 = 0x80"
  by (rule word32_eqI, unfold all_below_32) (simp add: bit_simps)

lemma cont_byte_high: "((0x80 :: u32) OR (x AND 0x3f)) AND 0x80 = 0x80"
  by (rule word32_eqI, unfold all_below_32) (simp add: bit_simps)

lemma cont_byte_payload: "((0x80 :: u32) OR (x AND 0x3f)) AND 0x3f = x AND 0x3f"
  by (rule word32_eqI, unfold all_below_32) (simp add: bit_simps)

lemma lead_classes:
  "((0xc0 :: u32) OR (x AND 0x1f)) AND 0xe0 = 0xc0"
  "((0xe0 :: u32) OR (x AND 0x0f)) AND 0xe0 \<noteq> 0xc0"
  "((0xe0 :: u32) OR (x AND 0x0f)) AND 0xf0 = 0xe0"
  "((0xf0 :: u32) OR (x AND 0x07)) AND 0xe0 \<noteq> 0xc0"
  "((0xf0 :: u32) OR (x AND 0x07)) AND 0xf0 \<noteq> 0xe0"
  "((0xf0 :: u32) OR (x AND 0x07)) AND 0xf8 = 0xf0"
proof -
  show "((0xc0 :: u32) OR (x AND 0x1f)) AND 0xe0 = 0xc0"
    "((0xe0 :: u32) OR (x AND 0x0f)) AND 0xf0 = 0xe0"
    "((0xf0 :: u32) OR (x AND 0x07)) AND 0xf8 = 0xf0"
    by (rule word32_eqI, unfold all_below_32, simp add: bit_simps)+
  have "bit (((0xe0 :: u32) OR (x AND 0x0f)) AND 0xe0) 5" "\<not> bit (0xc0 :: u32) 5"
    "bit (((0xf0 :: u32) OR (x AND 0x07)) AND 0xe0) 5"
    by (simp_all add: bit_simps)
  then show "((0xe0 :: u32) OR (x AND 0x0f)) AND 0xe0 \<noteq> 0xc0"
    "((0xf0 :: u32) OR (x AND 0x07)) AND 0xe0 \<noteq> 0xc0" by metis+
  have "bit (((0xf0 :: u32) OR (x AND 0x07)) AND 0xf0) 4" "\<not> bit (0xe0 :: u32) 4"
    by (simp_all add: bit_simps)
  then show "((0xf0 :: u32) OR (x AND 0x07)) AND 0xf0 \<noteq> 0xe0" by metis
qed

lemma high_byte_not_ascii: "bit v 7 \<Longrightarrow> \<not> (v :: u32) < 0x80"
  using bit_not_below [of v 7] by simp

lemma lead_not_ascii:
  "\<not> ((0xc0 :: u32) OR (x AND 0x1f)) < 0x80"
  "\<not> ((0xe0 :: u32) OR (x AND 0x0f)) < 0x80"
  "\<not> ((0xf0 :: u32) OR (x AND 0x07)) < 0x80"
  by (rule high_byte_not_ascii, simp add: bit_simps)+

lemma lead_high:
  "((0xc0 :: u32) OR (x AND 0x1f)) AND 0x80 = 0x80"
  "((0xe0 :: u32) OR (x AND 0x0f)) AND 0x80 = 0x80"
  "((0xf0 :: u32) OR (x AND 0x07)) AND 0x80 = 0x80"
  by (rule word32_eqI, unfold all_below_32, simp add: bit_simps)+

lemma reassemble2:
  assumes "g < 2 ^ 11"
  shows "push_bit 6 ((0xc0 OR (drop_bit 6 g AND 0x1f)) AND 0x1f) OR (g AND 0x3f) = (g :: u32)"
proof -
  have "push_bit 6 ((0xc0 OR (drop_bit 6 (take_bit 11 g) AND 0x1f)) AND 0x1f) OR
      (take_bit 11 g AND 0x3f) = take_bit 11 (g :: u32)"
    by (rule word32_eqI, unfold all_below_32) (simp add: bit_simps)
  then show ?thesis using assms by (simp add: take_bit_below)
qed

lemma reassemble3:
  assumes "g < 2 ^ 16"
  shows "push_bit 6 (push_bit 6 ((0xe0 OR (drop_bit 12 g AND 0x0f)) AND 0x0f) OR
    (drop_bit 6 g AND 0x3f)) OR (g AND 0x3f) = (g :: u32)"
proof -
  have "push_bit 6 (push_bit 6 ((0xe0 OR (drop_bit 12 (take_bit 16 g) AND 0x0f)) AND 0x0f) OR
      (drop_bit 6 (take_bit 16 g) AND 0x3f)) OR (take_bit 16 g AND 0x3f) = take_bit 16 (g :: u32)"
    by (rule word32_eqI, unfold all_below_32) (simp add: bit_simps)
  then show ?thesis using assms by (simp add: take_bit_below)
qed

lemma reassemble4:
  assumes "g < 2 ^ 21"
  shows "push_bit 6 (push_bit 6 (push_bit 6 ((0xf0 OR (drop_bit 18 g AND 0x07)) AND 0x07) OR
    (drop_bit 12 g AND 0x3f)) OR (drop_bit 6 g AND 0x3f)) OR (g AND 0x3f) = (g :: u32)"
proof -
  have "push_bit 6 (push_bit 6 (push_bit 6 ((0xf0 OR (drop_bit 18 (take_bit 21 g) AND 0x07)) AND 0x07) OR
      (drop_bit 12 (take_bit 21 g) AND 0x3f)) OR (drop_bit 6 (take_bit 21 g) AND 0x3f)) OR
      (take_bit 21 g AND 0x3f) = take_bit 21 (g :: u32)"
    by (rule word32_eqI, unfold all_below_32) (simp add: bit_simps)
  then show ?thesis using assms by (simp add: take_bit_below)
qed

section \<open>Decoding inverts encoding\<close>

lemma written_bytes:
  "utf8_byte (byte_char (0xc0 OR (x AND 0x1f))) = 0xc0 OR (x AND 0x1f)"
  "utf8_byte (byte_char (0xe0 OR (x AND 0x0f))) = 0xe0 OR (x AND 0x0f)"
  "utf8_byte (byte_char (0xf0 OR (x AND 0x07))) = 0xf0 OR (x AND 0x07)"
  "utf8_byte (byte_char (0x80 OR (x AND 0x3f))) = 0x80 OR (x AND 0x3f)"
  by (simp_all only: byte_roundtrip lead_byte2 lead_byte3 lead_byte4 cont_byte)

lemmas encoded_bytes = byte_at_Cons written_bytes
lemmas encoded_classes = lead_classes lead_not_ascii lead_high cont_byte_mark cont_byte_high
  cont_byte_payload

lemma ascii_byte: "g < 2 ^ 7 \<Longrightarrow> take_bit 8 ((g :: u32) AND 0x7f) = g"
proof -
  assume g: "g < 2 ^ 7"
  have "take_bit 8 (take_bit 7 g AND 0x7f) = take_bit 7 (g :: u32)"
    by (rule word32_eqI, unfold all_below_32) (simp add: bit_simps)
  with g show ?thesis by (simp add: take_bit_below)
qed

lemma below_power_mono:
  "(g :: u32) < 2 ^ 7 \<Longrightarrow> g < 2 ^ 11" "g < 2 ^ 11 \<Longrightarrow> g < 2 ^ 16" "g < 2 ^ 16 \<Longrightarrow> g < 2 ^ 21"
  by (simp_all add: word_less_nat_alt)

lemma encode_cases:
  fixes g :: u32
  assumes "g < 2 ^ 21"
  obtains (one) "g < 2 ^ 7" "utf8_encode_unichar g = [byte_char (g AND 0x7f)]"
  | (two) "\<not> g < 2 ^ 7" "g < 2 ^ 11" "utf8_encode_unichar g =
     [byte_char (0xc0 OR (drop_bit 6 g AND 0x1f)), byte_char (0x80 OR (g AND 0x3f))]"
  | (three) "\<not> g < 2 ^ 11" "g < 2 ^ 16" "utf8_encode_unichar g =
     [byte_char (0xe0 OR (drop_bit 12 g AND 0x0f)),
      byte_char (0x80 OR (drop_bit 6 g AND 0x3f)), byte_char (0x80 OR (g AND 0x3f))]"
  | (four) "\<not> g < 2 ^ 16" "g < 2 ^ 21" "utf8_encode_unichar g =
     [byte_char (0xf0 OR (drop_bit 18 g AND 0x07)),
      byte_char (0x80 OR (drop_bit 12 g AND 0x3f)),
      byte_char (0x80 OR (drop_bit 6 g AND 0x3f)), byte_char (0x80 OR (g AND 0x3f))]"
proof -
  consider "g < 2 ^ 7" | "\<not> g < 2 ^ 7" "g < 2 ^ 11" | "\<not> g < 2 ^ 7" "\<not> g < 2 ^ 11" "g < 2 ^ 16"
    | "\<not> g < 2 ^ 7" "\<not> g < 2 ^ 11" "\<not> g < 2 ^ 16"
    using assms by blast
  then show thesis
  proof cases
    case 1
    then show ?thesis by (intro one) (simp_all only: utf8_encode_unichar_def if_True)
  next
    case 2
    then show ?thesis by (intro two) (simp_all only: utf8_encode_unichar_def if_True if_False not_False_eq_True)
  next
    case 3
    then show ?thesis by (intro three) (simp_all only: utf8_encode_unichar_def if_True if_False not_False_eq_True)
  next
    case 4
    with assms show ?thesis by (intro four) (simp_all only: utf8_encode_unichar_def if_True if_False not_False_eq_True)
  qed
qed

lemma expected_len_encode:
  assumes "g < 2 ^ 21"
  shows "utf8_encoded_expected_len (utf8_encode_unichar g @ rest) = length (utf8_encode_unichar g)"
  using assms
proof (cases rule: encode_cases)
  case one
  then show ?thesis
    by (simp add: utf8_encoded_expected_len_def Let_def byte_at_Cons byte_roundtrip ascii_byte [simplified])
qed (simp_all add: utf8_encoded_expected_len_def Let_def encoded_bytes encoded_classes)

lemma decode_encode:
  assumes "g < 2 ^ 21"
  shows "utf8_encoded_to_unichar (utf8_encode_unichar g @ rest) = Inr g"
proof -
  note len = expected_len_encode [OF assms, of rest]
  show ?thesis
    using assms
  proof (cases rule: encode_cases)
    case one
    with len show ?thesis
      by (simp add: utf8_encoded_to_unichar_def Let_def byte_at_Cons byte_roundtrip ascii_byte [simplified])
  next
    case two
    with len show ?thesis using reassemble2 [OF two(2)]
      by (simp add: utf8_encoded_to_unichar_def Let_def encoded_bytes encoded_classes)
  next
    case three
    with len show ?thesis using reassemble3 [OF three(2)]
      by (simp add: utf8_encoded_to_unichar_def Let_def encoded_bytes encoded_classes numeral_2_eq_2)
  next
    case four
    with len show ?thesis using reassemble4 [OF four(2)]
      by (simp add: utf8_encoded_to_unichar_def Let_def encoded_bytes encoded_classes numeral_3_eq_3)
  qed
qed

lemma encode_high_bits:
  assumes "g < 2 ^ 21" and "\<not> g < 2 ^ 7" and "i < length (utf8_encode_unichar g)"
  shows "byte_at (utf8_encode_unichar g @ rest) i AND 0x80 = 0x80"
  using assms(1)
proof (cases rule: encode_cases)
  case one
  with assms(2) show ?thesis by simp
qed (use assms(3) in \<open>auto simp: less_Suc_eq encoded_bytes encoded_classes numeral_2_eq_2 numeral_3_eq_3\<close>)

lemma encoded_len_encode:
  assumes "g < 2 ^ 21"
  shows "utf8_unichar_to_encoded_len g = length (utf8_encode_unichar g)"
  using assms
  by (cases rule: encode_cases) (simp_all add: utf8_unichar_to_encoded_len_def word_less_nat_alt)

lemma valid_encode:
  assumes "unichar_is_valid g"
  shows "utf8_encoded_valid_unichar (utf8_encode_unichar g @ rest) = Inr (length (utf8_encode_unichar g))"
proof -
  have g: "g < 2 ^ 21" using assms by (simp add: unichar_is_valid_def word_less_nat_alt word_le_nat_alt)
  note len = expected_len_encode [OF g, of rest]
  show ?thesis
  proof (cases "g < 2 ^ 7")
    case True
    then have "length (utf8_encode_unichar g) = 1" by (simp add: utf8_encode_unichar_def)
    then show ?thesis by (simp add: utf8_encoded_valid_unichar_def len)
  next
    case False
    then have long: "length (utf8_encode_unichar g) > 1"
      by (cases rule: encode_cases [OF g]) simp_all
    then have "utf8_encode_unichar g \<noteq> []" by auto
    moreover have "\<not> (\<exists>i<length (utf8_encode_unichar g).
        byte_at (utf8_encode_unichar g @ rest) i AND 0x80 \<noteq> 0x80)"
      using encode_high_bits [OF g False] by blast
    ultimately show ?thesis
      using assms long by (simp add: utf8_encoded_valid_unichar_def Let_def len decode_encode [OF g]
          encoded_len_encode [OF g])
  qed
qed

section \<open>Validation is local\<close>

lemma valid_length:
  assumes "p \<noteq> []" and "utf8_encoded_valid_unichar p = Inr len"
  shows "len \<le> length p"
proof (cases "len = 1")
  case True
  then show ?thesis using assms(1) by (cases p) auto
next
  case False
  with assms(2) have all: "\<forall>i<len. byte_at p i AND 0x80 = 0x80"
    by (auto simp: utf8_encoded_valid_unichar_def Let_def split: if_splits sum.splits)
  show ?thesis
  proof (rule ccontr)
    assume "\<not> len \<le> length p"
    then have "byte_at p (length p) AND 0x80 = 0x80" using all by simp
    then show False by (simp add: byte_at_def)
  qed
qed

lemma utf8_continuation_cong:
  "(\<forall>j<n. byte_at s (i + j) = byte_at t (i + j)) \<Longrightarrow>
     utf8_continuation s i n u = utf8_continuation t i n u"
proof (induction n arbitrary: i u)
  case 0
  then show ?case by simp
next
  case (Suc n)
  have "byte_at s i = byte_at t i" using Suc.prems [rule_format, of 0] by simp
  moreover have "\<forall>j<n. byte_at s (Suc i + j) = byte_at t (Suc i + j)"
    using Suc.prems by (metis add_Suc_shift Suc_less_eq)
  ultimately show ?case using Suc.IH by simp
qed

lemma valid_local:
  assumes "utf8_encoded_valid_unichar p = Inr len" and "\<forall>i<len. byte_at q i = byte_at p i"
  shows "utf8_encoded_valid_unichar q = Inr len"
proof -
  have pos: "0 < len" using assms(1) by (rule utf8_encoded_valid_unichar_pos)
  then have b0: "byte_at q 0 = byte_at p 0" using assms(2) by blast
  then have el: "utf8_encoded_expected_len q = utf8_encoded_expected_len p"
    by (simp add: utf8_encoded_expected_len_def)
  have len: "utf8_encoded_expected_len p = len"
    using assms(1) by (auto simp: utf8_encoded_valid_unichar_def Let_def split: if_splits sum.splits)
  have cont: "utf8_continuation q 1 n u = utf8_continuation p 1 n u" if "Suc n = len" for n u
    using that assms(2) by (intro utf8_continuation_cong) auto
  have "utf8_encoded_to_unichar q = utf8_encoded_to_unichar p"
    using cont b0 el len
    by (auto simp: utf8_encoded_to_unichar_def Let_def simp del: utf8_continuation.simps One_nat_def)
  moreover have "(\<exists>i<len. byte_at q i AND 0x80 \<noteq> 0x80) \<longleftrightarrow> (\<exists>i<len. byte_at p i AND 0x80 \<noteq> 0x80)"
    using assms(2) by auto
  ultimately have "utf8_encoded_valid_unichar q = utf8_encoded_valid_unichar p"
    by (simp only: utf8_encoded_valid_unichar_def Let_def el len)
  with assms(1) show ?thesis by simp
qed

lemma valid_take_append:
  assumes "p \<noteq> []" and "utf8_encoded_valid_unichar p = Inr len"
  shows "utf8_encoded_valid_unichar (take len p @ r) = Inr len"
  using assms valid_length [OF assms]
  by (intro valid_local [OF assms(2)]) (auto simp: byte_at_def nth_append)

lemma utf8_is_valid_append:
  assumes "c \<noteq> []" and "utf8_encoded_valid_unichar (c @ r) = Inr (length c)"
  shows "utf8_is_valid (c @ r) = utf8_is_valid r"
  using assms by (subst utf8_is_valid.simps) simp

lemma replacement_valid:
  "utf8_encoded_valid_unichar (UTF8_REPLACEMENT_CHARACTER @ r) = Inr 3"
proof -
  have enc: "utf8_encode_unichar 0xFFFD = UTF8_REPLACEMENT_CHARACTER"
    by (simp add: utf8_encode_unichar_def UTF8_REPLACEMENT_CHARACTER_def byte_char_def char_of_def
        bit_simps)
  have "unichar_is_valid 0xFFFD" by (simp add: unichar_is_valid_def)
  from valid_encode [OF this, of r] show ?thesis
    by (simp add: enc) (simp add: UTF8_REPLACEMENT_CHARACTER_def)
qed

text \<open>
  C38.  Whatever the bytes, the escaped string is valid UTF-8.
\<close>

theorem escape_invalid_valid: "utf8_is_valid (utf8_escape_invalid s)"
proof (induction s rule: utf8_escape_invalid.induct)
  case (1 str)
  show ?case
  proof (cases "str = []")
    case True
    then show ?thesis by (simp add: utf8_escape_invalid.simps utf8_is_valid.simps)
  next
    case False
    show ?thesis
    proof (cases "utf8_encoded_valid_unichar str")
      case (Inl r)
      have "utf8_is_valid (UTF8_REPLACEMENT_CHARACTER @ utf8_escape_invalid (drop 1 str)) =
          utf8_is_valid (utf8_escape_invalid (drop 1 str))"
        using replacement_valid
        by (intro utf8_is_valid_append) (simp_all add: UTF8_REPLACEMENT_CHARACTER_def)
      with "1.IH"(1) [OF False Inl] show ?thesis
        using False Inl by (simp add: utf8_escape_invalid.simps [of str])
    next
      case (Inr len)
      have "length (take len str) = len" using valid_length [OF False Inr] by simp
      moreover have "take len str \<noteq> []"
        using utf8_encoded_valid_unichar_pos [OF Inr] False by auto
      ultimately have "utf8_is_valid (take len str @ utf8_escape_invalid (drop len str)) =
          utf8_is_valid (utf8_escape_invalid (drop len str))"
        using valid_take_append [OF False Inr] by (intro utf8_is_valid_append) simp_all
      with "1.IH"(2) [OF False Inr] show ?thesis
        using False Inr by (simp add: utf8_escape_invalid.simps [of str])
    qed
  qed
qed

lemma escape_invalid_id: "utf8_is_valid s \<Longrightarrow> utf8_escape_invalid s = s"
proof (induction s rule: utf8_is_valid.induct)
  case (1 p)
  show ?case
  proof (cases "p = []")
    case True
    then show ?thesis by (simp add: utf8_escape_invalid.simps)
  next
    case False
    with "1.prems" obtain len where len: "utf8_encoded_valid_unichar p = Inr len"
      "utf8_is_valid (drop len p)"
      by (subst (asm) utf8_is_valid.simps) (auto split: sum.splits)
    with "1.IH" [OF False] False show ?thesis
      by (subst utf8_escape_invalid.simps) simp
  qed
qed

lemma encode_all_valid:
  "list_all unichar_is_valid gs \<Longrightarrow> utf8_is_valid (concat (map utf8_encode_unichar gs))"
proof (induction gs)
  case Nil
  then show ?case by (simp add: utf8_is_valid.simps)
next
  case (Cons g gs)
  then have g: "unichar_is_valid g" by simp
  have "utf8_encode_unichar g \<noteq> []"
    using valid_encode [OF g, of "[]"] utf8_encoded_valid_unichar_pos by fastforce
  with Cons valid_encode [OF g] show ?case by (simp add: utf8_is_valid_append)
qed

text \<open>
  C37.  An encoded character decodes to itself, whatever follows it, and the validator accepts it with its length.
\<close>

theorem utf8_char_roundtrip:
  assumes "unichar_is_valid g"
  shows "utf8_encoded_to_unichar (utf8_encode_unichar g @ rest) = Inr g \<and>
    utf8_encoded_valid_unichar (utf8_encode_unichar g @ rest) = Inr (length (utf8_encode_unichar g))"
proof -
  have "g < 2 ^ 21"
    using assms by (auto simp: unichar_is_valid_def word_less_nat_alt word_le_nat_alt split: if_splits)
  then show ?thesis using decode_encode valid_encode [OF assms] by blast
qed

theorem utf8_char_roundtrip_witness: "utf8_encoded_to_unichar (utf8_encode_unichar 0x20AC @ ''x'') = Inr 0x20AC"
proof -
  have "unichar_is_valid 0x20AC" by code_simp
  from utf8_char_roundtrip [OF this] show ?thesis by blast
qed

end
