(* ===== verification/Extract_Word.thy ===== *)
theory Extract_Word
  imports Utf8 Parse_Util
begin

text \<open>
  \<open>src/share/escape.c\<close> and \<open>src/share/extract-word.c\<close>: C escape sequences and the splitting of
  a setting into words.
\<close>

unbundle bit_operations_syntax

section \<open>Escape sequences\<close>

definition char_at :: "string \<Rightarrow> nat \<Rightarrow> char" where
  \<comment> \<open>\<open>p[i]\<close> up to the terminating NUL\<close>
  "char_at p i = (if i < length p then p ! i else CHR 0x00)"

definition simple_escapes :: "(char \<times> u32) list" where
  "simple_escapes = [(CHR ''a'', 7), (CHR ''b'', 8), (CHR ''f'', 12), (CHR ''n'', 10), (CHR ''r'', 13), (CHR ''t'', 9),
     (CHR ''v'', 11), (CHR 0x5C, 92), (CHR 0x22, 34), (CHR 0x27, 39), (CHR ''s'', 32)]"

text \<open>Reads digits up to the first that is none; the digits are put together most significant first.\<close>

fun escape_digits :: "(char \<Rightarrow> int) \<Rightarrow> nat \<Rightarrow> nat \<Rightarrow> string \<Rightarrow> nat \<Rightarrow> u32 \<Rightarrow> u32 result" where
  "escape_digits undigit bits 0 p i c = Inr c"
| "escape_digits undigit bits (Suc n) p i c =
     (let a = undigit (char_at p i)
      in if a < 0 then Inl (- EINVAL)
         else escape_digits undigit bits n p (Suc i) (push_bit bits c OR word_of_int a))"

definition too_short :: "nat option \<Rightarrow> nat \<Rightarrow> bool" where
  "too_short len n = (case len of None \<Rightarrow> False | Some l \<Rightarrow> l < n)"

definition cunescape_one :: "string \<Rightarrow> nat option \<Rightarrow> (nat \<times> u32 \<times> bool) result" where
  \<comment> \<open>the number of bytes read, the character, and whether it is a literal byte\<close>
  "cunescape_one p len =
     (let k = char_at p 0
      in if too_short len 1 then Inl (- EINVAL)
         else case map_of simple_escapes k of
                Some v \<Rightarrow> Inr (1, v, False)
              | None \<Rightarrow>
                  if k = CHR ''x'' then
                    (if too_short len 3 then Inl (- EINVAL)
                     else case escape_digits unhexchar 4 2 p 1 0 of
                            Inl r \<Rightarrow> Inl r
                          | Inr c \<Rightarrow> if c = 0 then Inl (- EINVAL) else Inr (3, c, True))
                  else if k = CHR ''u'' then
                    (if too_short len 5 then Inl (- EINVAL)
                     else case escape_digits unhexchar 4 4 p 1 0 of
                            Inl r \<Rightarrow> Inl r
                          | Inr c \<Rightarrow> if c = 0 then Inl (- EINVAL) else Inr (5, c, False))
                  else if k = CHR ''U'' then
                    (if too_short len 9 then Inl (- EINVAL)
                     else case escape_digits unhexchar 4 8 p 1 0 of
                            Inl r \<Rightarrow> Inl r
                          | Inr c \<Rightarrow> if c = 0 \<or> \<not> unichar_is_valid c then Inl (- EINVAL) else Inr (9, c, False))
                  else if 0 \<le> unoctchar k then
                    (if too_short len 3 then Inl (- EINVAL)
                     else case escape_digits unoctchar 3 3 p 0 0 of
                            Inl r \<Rightarrow> Inl r
                          | Inr c \<Rightarrow> if c = 0 \<or> 255 < c then Inl (- EINVAL) else Inr (3, c, True))
                  else Inl (- EINVAL))"

section \<open>Words\<close>

definition EXTRACT_RELAX :: u32 where "EXTRACT_RELAX = 1"
definition EXTRACT_CUNESCAPE :: u32 where "EXTRACT_CUNESCAPE = 2"
definition EXTRACT_CUNESCAPE_RELAX :: u32 where "EXTRACT_CUNESCAPE_RELAX = 4"
definition EXTRACT_QUOTES :: u32 where "EXTRACT_QUOTES = 8"
definition EXTRACT_DONT_COALESCE_SEPARATORS :: u32 where "EXTRACT_DONT_COALESCE_SEPARATORS = 16"
definition EXTRACT_RETAIN_ESCAPE :: u32 where "EXTRACT_RETAIN_ESCAPE = 32"

lemmas extract_flag_defs = EXTRACT_RELAX_def EXTRACT_CUNESCAPE_def EXTRACT_CUNESCAPE_RELAX_def EXTRACT_QUOTES_def
  EXTRACT_DONT_COALESCE_SEPARATORS_def EXTRACT_RETAIN_ESCAPE_def

definition flag :: "u32 \<Rightarrow> u32 \<Rightarrow> bool" where
  "flag flags f \<longleftrightarrow> flags AND f \<noteq> 0"

text \<open>
  How the loops end: \<open>Finish\<close> a word with what is left, where \<open>None\<close> is the null pointer;
  \<open>Fail\<close> with what is left.
\<close>

datatype extract_end = Finish string "string option" | Fail int string

definition unescape_step :: "u32 \<Rightarrow> string \<Rightarrow> string \<Rightarrow> (string \<times> nat) result" where
  \<comment> \<open>the word after the character behind a backslash, and the bytes read\<close>
  "unescape_step flags p s =
     (if flag flags EXTRACT_CUNESCAPE
      then case cunescape_one p None of
             Inl r \<Rightarrow> if flag flags EXTRACT_CUNESCAPE_RELAX then Inr (s @ [CHR 0x5C, hd p], 1) else Inl (- EINVAL)
           | Inr (r, u, eight_bit) \<Rightarrow> Inr (s @ (if eight_bit then [byte_char u] else utf8_encode_unichar u), r)
      else Inr (s @ [hd p], 1))"

function (sequential) extract_loop :: "u32 \<Rightarrow> string \<Rightarrow> string \<Rightarrow> char option \<Rightarrow> bool \<Rightarrow> string \<Rightarrow> extract_end" where
  "extract_loop flags seps [] quote True s =
     (if flag flags EXTRACT_CUNESCAPE_RELAX \<and> (quote = None \<or> flag flags EXTRACT_RELAX) then Finish (s @ [CHR 0x5C]) None
      else if flag flags EXTRACT_RELAX then Finish s None
      else Fail (- EINVAL) [])"
| "extract_loop flags seps [] (Some q) False s = (if flag flags EXTRACT_RELAX then Finish s None else Fail (- EINVAL) [])"
| "extract_loop flags seps [] None False s = Finish s None"
| "extract_loop flags seps (c # p) quote True s =
     (case unescape_step flags (c # p) s of
        Inl r \<Rightarrow> Fail r (c # p)
      | Inr (s, n) \<Rightarrow> extract_loop flags seps (drop n (c # p)) quote False s)"
| "extract_loop flags seps (c # p) (Some q) False s =
     (if c = q then extract_loop flags seps p None False s
      else if c = CHR 0x5C \<and> \<not> flag flags EXTRACT_RETAIN_ESCAPE then extract_loop flags seps p (Some q) True s
      else extract_loop flags seps p (Some q) False (s @ [c]))"
| "extract_loop flags seps (c # p) None False s =
     (if (c = CHR 0x27 \<or> c = CHR 0x22) \<and> flag flags EXTRACT_QUOTES then extract_loop flags seps p (Some c) False s
      else if c = CHR 0x5C \<and> \<not> flag flags EXTRACT_RETAIN_ESCAPE then extract_loop flags seps p None True s
      else if c \<in> set seps then
        (if flag flags EXTRACT_DONT_COALESCE_SEPARATORS then Finish s (Some p)
         else case dropspan seps (c # p) of [] \<Rightarrow> Finish s None | q \<Rightarrow> Finish s (Some q))
      else extract_loop flags seps p None False (s @ [c]))"
  by pat_completeness auto

lemma cunescape_one_consumes: "cunescape_one p len = Inr (n, u, b) \<Longrightarrow> 0 < n"
  by (auto simp: cunescape_one_def Let_def split: option.splits if_splits sum.splits)

lemma unescape_step_consumes: "unescape_step flags p s = Inr (s', n) \<Longrightarrow> 0 < n"
  using cunescape_one_consumes by (auto simp: unescape_step_def split: if_splits sum.splits)

termination extract_loop
  by (relation "measure (\<lambda>(flags, seps, p, quote, b, s). length p)")
    (auto dest: unescape_step_consumes)

definition extract_first_word :: "string option \<Rightarrow> string option \<Rightarrow> u32 \<Rightarrow> int \<times> string option \<times> string option" where
  \<comment> \<open>the result, the word, and the pointer after it\<close>
  "extract_first_word p separators flags =
     (case p of
        None \<Rightarrow> (0, None, None)
      | Some p \<Rightarrow>
          let seps = (case separators of None \<Rightarrow> WHITESPACE | Some s \<Rightarrow> s)
          in if flag flags EXTRACT_DONT_COALESCE_SEPARATORS \<and> (p = [] \<or> hd p \<in> set seps)
             then (if p = [] then (1, Some [], None) else (1, Some [], Some (tl p)))
             else case dropspan seps p of
                    [] \<Rightarrow> (0, None, None)
                  | q \<Rightarrow> (case extract_loop flags seps q None False [] of
                            Finish s rest \<Rightarrow> (1, Some s, rest)
                          | Fail r rest \<Rightarrow> (r, None, Some rest)))"

section \<open>Facts\<close>

text \<open>What is left is shorter than what there was, so every loop over the words of a string ends.\<close>

lemma dropspan_sep_shorter: "c \<in> set seps \<Longrightarrow> length (dropspan seps (c # p)) < Suc (length p)"
  using dropspan_length [of seps p] by (simp add: dropspan_def)

lemma extract_loop_shorter:
  "extract_loop flags seps p quote b s = Finish w (Some rest) \<Longrightarrow> length rest < length p"
proof (induction flags seps p quote b s rule: extract_loop.induct)
  case (4 flags seps c p quote s)
  show ?case
  proof (cases "unescape_step flags (c # p) s")
    case (Inl r)
    with 4 show ?thesis by simp
  next
    case (Inr v)
    obtain s' n where v: "v = (s', n)" by fastforce
    have "length rest < length (drop n (c # p))"
      using "4.IH" [OF Inr v [symmetric]] "4.prems" Inr v by simp
    then show ?thesis by simp
  qed
next
  case (6 flags seps c p s)
  show ?case
  proof (cases "c \<in> set seps \<and> \<not> ((c = CHR 0x27 \<or> c = CHR 0x22) \<and> flag flags EXTRACT_QUOTES) \<and>
      \<not> (c = CHR 0x5C \<and> \<not> flag flags EXTRACT_RETAIN_ESCAPE)")
    case True
    with "6.prems" show ?thesis
      by (cases "dropspan seps (c # p)") (auto simp: dropspan_sep_shorter split: if_splits)
  next
    case False
    with 6 show ?thesis by (auto split: if_splits)
  qed
next
  case (5 flags seps c p q s)
  then show ?case by (simp split: if_splits)
qed (simp_all split: if_splits)

lemma unescape_step_fails: "unescape_step flags p s = Inl r \<Longrightarrow> r < 0"
  by (auto simp: unescape_step_def split: if_splits sum.splits)

lemma extract_loop_fails: "extract_loop flags seps p quote b s = Fail r rest \<Longrightarrow> r < 0"
proof (induction flags seps p quote b s rule: extract_loop.induct)
  case (4 flags seps c p quote s)
  then show ?case using unescape_step_fails by (auto split: sum.splits)
next
  case (6 flags seps c p s)
  then show ?case by (simp split: if_splits list.splits)
qed (simp_all split: if_splits)

lemma extract_first_word_shorter:
  assumes "extract_first_word (Some p) seps flags = (r, w, Some rest)" "0 < r"
  shows "length rest < length p"
proof -
  define sp where "sp = (case seps of None \<Rightarrow> WHITESPACE | Some s \<Rightarrow> s)"
  show ?thesis
  proof (cases "flag flags EXTRACT_DONT_COALESCE_SEPARATORS \<and> (p = [] \<or> hd p \<in> set sp)")
    case True
    with assms show ?thesis by (cases p) (simp_all add: extract_first_word_def Let_def sp_def [symmetric])
  next
    case False
    then obtain c q where q: "dropspan sp p = c # q"
      using assms by (cases "dropspan sp p") (simp_all only: extract_first_word_def Let_def sp_def [symmetric] option.case if_False list.case prod.inject option.distinct)
    with assms False have "extract_loop flags sp (c # q) None False [] = Finish (the w) (Some rest)"
      by (simp add: extract_first_word_def Let_def sp_def [symmetric] del: extract_loop.simps split: extract_end.splits)
        (auto simp del: extract_loop.simps dest!: extract_loop_fails)
    from extract_loop_shorter [OF this] show ?thesis using dropspan_length [of sp p] q by simp
  qed
qed


declare extract_loop.simps [simp del]

section \<open>All words of a setting\<close>

text \<open>The loop \<open>for (p = rvalue;;)\<close> of the callers: the words up to the first error or the end.\<close>

function extract_words :: "u32 \<Rightarrow> string option \<Rightarrow> string list result" where
  "extract_words flags p =
     (case p of
        None \<Rightarrow> Inr []
      | Some s \<Rightarrow>
          (case extract_first_word (Some s) None flags of
             (r, w, rest) \<Rightarrow>
               if r < 0 then Inl r
               else if r = 0 then Inr []
               else case extract_words flags rest of Inl r \<Rightarrow> Inl r | Inr ws \<Rightarrow> Inr (the w # ws)))"
  by pat_completeness auto

termination extract_words
proof (relation "measure (\<lambda>(flags, p). case p of None \<Rightarrow> 0 | Some s \<Rightarrow> Suc (length s))", goal_cases)
  case (2 flags p s r y w rest)
  then have "extract_first_word (Some s) None flags = (r, w, rest)" "0 < r" by simp_all
  then have "length q < length s" if "rest = Some q" for q using that extract_first_word_shorter by blast
  with 2 show ?case by (cases rest) auto
qed simp

declare extract_words.simps [simp del]

definition plain_word :: "string \<Rightarrow> bool" where
  "plain_word w \<longleftrightarrow> w \<noteq> [] \<and> (\<forall>c\<in>set w. c \<notin> set WHITESPACE \<and> c \<notin> {CHR 0x27, CHR 0x22, CHR 0x5C})"

lemma extract_loop_plain:
  "\<forall>c\<in>set w. c \<notin> set seps \<and> c \<notin> {CHR 0x27, CHR 0x22, CHR 0x5C} \<Longrightarrow>
     extract_loop flags seps (w @ p) None False s = extract_loop flags seps p None False (s @ w)"
  by (induction w arbitrary: s) (simp_all add: extract_loop.simps)

lemma extract_first_word_plain:
  assumes "plain_word w" "\<not> flag flags EXTRACT_DONT_COALESCE_SEPARATORS"
  shows "extract_first_word (Some w) None flags = (1, Some w, None)"
    and "v \<noteq> [] \<Longrightarrow> hd v \<notin> set WHITESPACE \<Longrightarrow> extract_first_word (Some (w @ '' '' @ v)) None flags = (1, Some w, Some v)"
proof -
  have ws: "dropspan WHITESPACE (w @ p) = w @ p" for p
    using assms(1) by (cases w) (simp_all add: plain_word_def dropspan_def)
  have loop: "extract_loop flags WHITESPACE (w @ p) None False [] = extract_loop flags WHITESPACE p None False w" for p
    using extract_loop_plain [of w WHITESPACE flags p "[]"] assms(1) by (simp add: plain_word_def)
  have ne: "\<exists>c q. w @ p = c # q" for p using assms(1) by (cases w) (auto simp: plain_word_def)
  have first: "extract_first_word (Some (w @ p)) None flags =
      (case extract_loop flags WHITESPACE (w @ p) None False [] of Finish s rest \<Rightarrow> (1, Some s, rest) | Fail r rest \<Rightarrow> (r, None, Some rest))" for p
    using ne [of p] assms(2) ws [of p] by (auto simp: extract_first_word_def Let_def split: list.splits)
  show "extract_first_word (Some w) None flags = (1, Some w, None)"
    using first [of "[]"] loop [of "[]"] by (simp add: extract_loop.simps)
  assume v: "v \<noteq> []" "hd v \<notin> set WHITESPACE"
  have "dropspan WHITESPACE (CHR '' '' # v) = v"
    using v by (cases v) (simp_all add: dropspan_def WHITESPACE_def)
  with v first [of "'' '' @ v"] loop [of "'' '' @ v"] assms(2)
  show "extract_first_word (Some (w @ '' '' @ v)) None flags = (1, Some w, Some v)"
    by (cases v) (simp_all add: extract_loop.simps WHITESPACE_def)
qed

fun join_words :: "string list \<Rightarrow> string" where
  "join_words [] = []"
| "join_words [w] = w"
| "join_words (w # ws) = w @ '' '' @ join_words ws"

lemma join_words_hd: "ws \<noteq> [] \<Longrightarrow> \<forall>w\<in>set ws. plain_word w \<Longrightarrow> join_words ws \<noteq> [] \<and> hd (join_words ws) \<notin> set WHITESPACE"
  by (induction ws rule: join_words.induct) (auto simp: plain_word_def hd_append)

lemma extract_words_join:
  assumes "\<not> flag flags EXTRACT_DONT_COALESCE_SEPARATORS"
  shows "ws \<noteq> [] \<Longrightarrow> \<forall>w\<in>set ws. plain_word w \<Longrightarrow> extract_words flags (Some (join_words ws)) = Inr ws"
proof (induction ws rule: join_words.induct)
  case (2 w)
  then show ?case
    using extract_first_word_plain(1) [OF _ assms, of w] by (simp add: extract_words.simps)
next
  case (3 w v vs)
  have "plain_word w" using 3 by simp
  from extract_first_word_plain(2) [OF this assms, of "join_words (v # vs)"] join_words_hd [of "v # vs"] 3
  show ?case by (subst extract_words.simps) simp
qed simp

lemma join_words_set: "set (join_words ws) \<subseteq> {CHR '' ''} \<union> (\<Union>w\<in>set ws. set w)"
  by (induction ws rule: join_words.induct) auto

lemma join_words_last: "ws \<noteq> [] \<Longrightarrow> \<forall>w\<in>set ws. plain_word w \<Longrightarrow> last (join_words ws) \<notin> set WHITESPACE"
proof (induction ws rule: join_words.induct)
  case (3 w v vs)
  then have "join_words (v # vs) \<noteq> []" using join_words_hd [of "v # vs"] by simp
  with 3 show ?case by simp
qed (auto simp: plain_word_def)

end
