(* ===== verification/Time_Util.thy ===== *)
theory Time_Util
  imports Parse_Util
begin

text \<open>
  \<open>src/share/time-util.c\<close> and \<open>time-util.h\<close>: saturating arithmetic on
  \<open>usec_t\<close>, conversion to and from \<open>struct timespec\<close>, and the time span parser
  behind \<open>ConnectionRetrySec=\<close> and the keep-alive settings.
\<close>

type_synonym usec = u64

abbreviation USEC_INFINITY :: usec where "USEC_INFINITY \<equiv> - 1"
abbreviation USEC_PER_SEC :: usec where "USEC_PER_SEC \<equiv> 1000000"
abbreviation USEC_PER_MSEC :: usec where "USEC_PER_MSEC \<equiv> 1000"
abbreviation NSEC_PER_USEC :: usec where "NSEC_PER_USEC \<equiv> 1000"
abbreviation USEC_PER_MINUTE :: usec where "USEC_PER_MINUTE \<equiv> 60000000"
abbreviation USEC_PER_HOUR :: usec where "USEC_PER_HOUR \<equiv> 3600000000"
abbreviation USEC_PER_DAY :: usec where "USEC_PER_DAY \<equiv> 86400000000"
abbreviation USEC_PER_WEEK :: usec where "USEC_PER_WEEK \<equiv> 604800000000"
abbreviation USEC_PER_MONTH :: usec where "USEC_PER_MONTH \<equiv> 2629800000000"
abbreviation USEC_PER_YEAR :: usec where "USEC_PER_YEAR \<equiv> 31557600000000"

section \<open>Arithmetic\<close>

definition usec_add :: "usec \<Rightarrow> usec \<Rightarrow> usec" where
  "usec_add a b = (if USEC_INFINITY - b < a then USEC_INFINITY else a + b)"

definition usec_sub_unsigned :: "usec \<Rightarrow> usec \<Rightarrow> usec" where
  "usec_sub_unsigned timestamp delta =
     (if timestamp = USEC_INFINITY then USEC_INFINITY
      else if timestamp < delta then 0 else timestamp - delta)"

definition usec_sub_signed :: "usec \<Rightarrow> 64 word \<Rightarrow> usec" where
  \<comment> \<open>\<open>delta\<close> is an \<open>int64_t\<close>, read with \<open>sint\<close>\<close>
  "usec_sub_signed timestamp delta =
     (if sint delta = - (2 ^ 63) then usec_add timestamp (2 ^ 63 - 1 + 1)
      else if sint delta < 0 then usec_add timestamp (- delta)
      else usec_sub_unsigned timestamp delta)"

definition timestamp_is_set :: "usec \<Rightarrow> bool" where
  "timestamp_is_set timestamp \<longleftrightarrow> 0 < timestamp \<and> timestamp \<noteq> USEC_INFINITY"

record timespec =
  ts_sec :: "64 word"
  ts_nsec :: "64 word"

definition timespec_load :: "timespec \<Rightarrow> usec" where
  \<comment> \<open>\<open>tv_nsec / NSEC_PER_USEC\<close> divides by an unsigned constant\<close>
  "timespec_load ts =
     (if ts_sec ts = - 1 \<and> ts_nsec ts = - 1 then USEC_INFINITY
      else if (- 1 - ts_nsec ts div NSEC_PER_USEC) div USEC_PER_SEC < ts_sec ts
      then USEC_INFINITY
      else ts_sec ts * USEC_PER_SEC + ts_nsec ts div NSEC_PER_USEC)"

definition timespec_store :: "usec \<Rightarrow> timespec" where
  "timespec_store u =
     (if u = USEC_INFINITY then \<lparr>ts_sec = - 1, ts_nsec = - 1\<rparr>
      else \<lparr>ts_sec = u div USEC_PER_SEC, ts_nsec = (u mod USEC_PER_SEC) * NSEC_PER_USEC\<rparr>)"

record timeval =
  tv_sec :: "64 word"
  tv_usec :: "64 word"

definition timeval_store :: "usec \<Rightarrow> timeval" where
  "timeval_store u =
     (if u = USEC_INFINITY then \<lparr>tv_sec = - 1, tv_usec = - 1\<rparr>
      else \<lparr>tv_sec = u div USEC_PER_SEC, tv_usec = u mod USEC_PER_SEC\<rparr>)"

section \<open>The time span parser\<close>

definition multiplier_table :: "(string \<times> usec) list" where
  "multiplier_table =
    [(''seconds'', USEC_PER_SEC), (''second'', USEC_PER_SEC), (''sec'', USEC_PER_SEC),
     (''s'', USEC_PER_SEC), (''minutes'', USEC_PER_MINUTE), (''minute'', USEC_PER_MINUTE),
     (''min'', USEC_PER_MINUTE), (''months'', USEC_PER_MONTH), (''month'', USEC_PER_MONTH),
     (''M'', USEC_PER_MONTH), (''msec'', USEC_PER_MSEC), (''ms'', USEC_PER_MSEC),
     (''m'', USEC_PER_MINUTE), (''hours'', USEC_PER_HOUR), (''hour'', USEC_PER_HOUR),
     (''hr'', USEC_PER_HOUR), (''h'', USEC_PER_HOUR), (''days'', USEC_PER_DAY),
     (''day'', USEC_PER_DAY), (''d'', USEC_PER_DAY), (''weeks'', USEC_PER_WEEK),
     (''week'', USEC_PER_WEEK), (''w'', USEC_PER_WEEK), (''years'', USEC_PER_YEAR),
     (''year'', USEC_PER_YEAR), (''y'', USEC_PER_YEAR), (''usec'', 1), (''us'', 1),
     ([CHR 0xCE, CHR 0xBC, CHR ''s''], 1), ([CHR 0xC2, CHR 0xB5, CHR ''s''], 1)]"

fun extract_multiplier_loop :: "(string \<times> usec) list \<Rightarrow> string \<Rightarrow> usec \<Rightarrow> string \<times> usec" where
  "extract_multiplier_loop [] p ret = (p, ret)"
| "extract_multiplier_loop ((suffix, usec) # table) p ret =
     (case startswith p suffix of
        Some e \<Rightarrow> (e, usec)
      | None \<Rightarrow> extract_multiplier_loop table p ret)"

definition extract_multiplier :: "string \<Rightarrow> usec \<Rightarrow> string \<times> usec" where
  "extract_multiplier p ret = extract_multiplier_loop multiplier_table p ret"

text \<open>The digits after the decimal point, each worth a tenth of the previous one.\<close>

fun parse_time_fraction :: "string \<Rightarrow> usec \<Rightarrow> usec \<Rightarrow> usec result" where
  "parse_time_fraction [] m usec = Inr usec"
| "parse_time_fraction (b # bs) m usec =
     (if ascii_isdigit b then
        (let k = of_nat (char_code b - 48) * m
         in if USEC_INFINITY - usec \<le> k then Inl (- ERANGE)
            else parse_time_fraction bs (m div 10) (usec + k))
      else Inr usec)"

definition starts_with :: "char \<Rightarrow> string \<Rightarrow> bool" where
  "starts_with c s \<longleftrightarrow> (case s of [] \<Rightarrow> False | d # _ \<Rightarrow> d = c)"

text \<open>
  One iteration of the \<open>for (;;)\<close> loop after the white space is skipped and the end of
  the string and a minus sign are excluded: \<open>Inr (s, usec)\<close> with the next position.
  \<open>s == p\<close> compares pointers into one string, hence lengths of suffixes.
\<close>

definition parse_time_span :: "usec \<Rightarrow> string \<Rightarrow> usec \<Rightarrow> (string \<times> usec) result" where
  "parse_time_span default_unit p0 usec =
     (let (l, x, err) = strtol 10 p0;
          e = (case x of None \<Rightarrow> p0 | Some r \<Rightarrow> r);
          dot = starts_with (CHR ''.'') e
      in if 0 < err then Inl (- err)
         else if l < 0 then Inl (- ERANGE)
         else if \<not> dot \<and> x = None then Inl (- EINVAL)
         else
           let p = (if dot then dropspan DIGITS (tl e) else e);
               (s, multiplier) = extract_multiplier (dropspan WHITESPACE p) default_unit
           in if length s = length p \<and> s \<noteq> [] then Inl (- EINVAL)
              else if USEC_INFINITY div multiplier \<le> word_of_int l then Inl (- ERANGE)
              else
                let k = word_of_int l * multiplier
                in if USEC_INFINITY - usec \<le> k then Inl (- ERANGE)
                   else if dot then
                     (case parse_time_fraction (tl e) (multiplier div 10) (usec + k) of
                        Inl r \<Rightarrow> Inl r
                      | Inr usec' \<Rightarrow>
                          if tl e = [] \<or> \<not> ascii_isdigit (hd (tl e)) then Inl (- EINVAL)
                          else Inr (s, usec'))
                   else Inr (s, usec + k))"

lemma scan_number_rest: "scan_number b s = Some (neg, v, rest) \<Longrightarrow> length rest < length s"
proof -
  assume a: "scan_number b s = Some (neg, v, rest)"
  define s1 where "s1 = dropWhile c_isspace s"
  define s2 where "s2 = (case s1 of c # r \<Rightarrow> if c = CHR ''-'' then r else if c = CHR ''+'' then r else s1 | [] \<Rightarrow> s1)"
  have l1: "length s1 \<le> length s" by (simp add: s1_def length_dropWhile_le)
  have l2: "length s2 \<le> length s1" by (auto simp: s2_def split: list.splits)
  obtain b' s3 where p: "number_prefix b s2 = (b', s3)" by force
  then have l3: "length s3 \<le> length s2"
    by (auto simp: number_prefix_def split: if_splits list.splits)
  have "takeWhile (is_digit_of b') s3 \<noteq> [] \<and> rest = dropWhile (is_digit_of b') s3"
    using a p by (auto simp: scan_number_def Let_def s1_def [symmetric] s2_def
        split: list.splits if_splits prod.splits)
  moreover have "length (takeWhile (is_digit_of b') s3) + length (dropWhile (is_digit_of b') s3) = length s3"
    by (metis length_append takeWhile_dropWhile_id)
  ultimately have "length rest < length s3" by (cases "takeWhile (is_digit_of b') s3") auto
  with l1 l2 l3 show ?thesis by linarith
qed

lemma strtol_rest: "strtol b s = (l, Some r, err) \<Longrightarrow> length r < length s"
  using scan_number_rest by (auto simp: strtol_def split: option.splits prod.splits if_splits)

lemma extract_multiplier_loop_length:
  "extract_multiplier_loop t p ret = (s, m) \<Longrightarrow> length s \<le> length p"
  by (induction t p ret rule: extract_multiplier_loop.induct)
     (auto simp: startswith_def Let_def split: option.splits if_splits)

lemma extract_multiplier_length: "extract_multiplier p ret = (s, m) \<Longrightarrow> length s \<le> length p"
  unfolding extract_multiplier_def by (rule extract_multiplier_loop_length)

lemma parse_time_span_shorter:
  assumes "parse_time_span d p usec = Inr (s, u)"
  shows "length s < length p"
proof -
  obtain l x err where st: "strtol 10 p = (l, x, err)" by (cases "strtol 10 p") auto
  define e where "e = (case x of None \<Rightarrow> p | Some r \<Rightarrow> r)"
  define q where "q = (if starts_with (CHR ''.'') e then dropspan DIGITS (tl e) else e)"
  obtain s' m where em: "extract_multiplier (dropspan WHITESPACE q) d = (s', m)" by force
  have le: "length e \<le> length p" "x \<noteq> None \<Longrightarrow> length e < length p"
    using st strtol_rest by (auto simp: e_def less_imp_le split: option.splits)
  have ne: "\<not> starts_with (CHR ''.'') e \<Longrightarrow> x \<noteq> None"
    using assms st by (auto simp: parse_time_span_def Let_def e_def split: if_splits)
  have dl: "length (dropspan DIGITS t) \<le> length t" for t by (rule dropspan_length)
  have "length q < length p"
  proof (cases "starts_with (CHR ''.'') e")
    case True
    then have "length (tl e) < length e" by (cases e) (auto simp: starts_with_def)
    with True dl [of "tl e"] le show ?thesis by (simp add: q_def)
  next
    case False
    with ne le show ?thesis by (simp add: q_def)
  qed
  moreover have "length s' \<le> length q"
    using extract_multiplier_length [OF em] dropspan_length [of WHITESPACE q] by linarith
  moreover have "s = s'"
    using assms st em
    by (auto simp: parse_time_span_def Let_def e_def q_def split: if_splits sum.splits prod.splits)
  ultimately show ?thesis by simp
qed

function parse_time_loop :: "usec \<Rightarrow> string \<Rightarrow> usec \<Rightarrow> bool \<Rightarrow> usec result" where
  "parse_time_loop default_unit p0 usec something =
     (let p = dropspan WHITESPACE p0
      in if p = [] then (if something then Inr usec else Inl (- EINVAL))
         else if starts_with_minus p then Inl (- ERANGE)
         else case parse_time_span default_unit p usec of
                Inl r \<Rightarrow> Inl r
              | Inr (s, usec') \<Rightarrow> parse_time_loop default_unit s usec' True)"
  by pat_completeness auto
termination
proof (relation "measure (\<lambda>(d, p, u, b). length p)", goal_cases)
  case (2 default_unit p0 usec something p su s usec')
  then have "length s < length (dropspan WHITESPACE p0)"
    by (metis parse_time_span_shorter)
  with dropspan_length [of WHITESPACE p0] show ?case by simp
qed simp

declare parse_time_loop.simps [simp del]

definition parse_time :: "string \<Rightarrow> usec \<Rightarrow> usec result" where
  "parse_time t default_unit =
     (let p = dropspan WHITESPACE t
      in case startswith p ''infinity'' of
           Some s \<Rightarrow> if dropspan WHITESPACE s \<noteq> [] then Inl (- EINVAL) else Inr USEC_INFINITY
         | None \<Rightarrow> parse_time_loop default_unit p 0 False)"

definition parse_sec :: "string \<Rightarrow> usec result" where
  "parse_sec t = parse_time t USEC_PER_SEC"

section \<open>Facts\<close>

lemma unat_USEC_INFINITY [simp]: "unat USEC_INFINITY = 18446744073709551615"
  by (simp add: unsigned_minus_1_eq_mask mask_eq_exp_minus_1)

lemma usec_le_infinity: "(a :: usec) \<le> USEC_INFINITY"
  by simp

text \<open>
  Adding times saturates at infinity instead of wrapping around.
\<close>

theorem unat_usec_add: "unat (usec_add a b) = min (unat a + unat b) (2 ^ 64 - 1)"
proof -
  have ub: "unat (USEC_INFINITY - b) = (2 ^ 64 - 1) - unat b"
    using unat_sub [of b USEC_INFINITY] by simp
  have lt: "unat a < 2 ^ 64" "unat b < 2 ^ 64"
    using unsigned_less [of a] unsigned_less [of b] by simp_all
  show ?thesis
  proof (cases "USEC_INFINITY - b < a")
    case True
    then have "(2 ^ 64 - 1) - unat b < unat a" by (simp add: word_less_nat_alt ub)
    with True show ?thesis using lt by (simp add: usec_add_def)
  next
    case False
    then have "unat a + unat b \<le> 2 ^ 64 - 1" using lt by (simp add: word_less_nat_alt ub)
    with False show ?thesis by (simp add: usec_add_def unat_plus_if')
  qed
qed

lemma unat_usec_sub_unsigned:
  "unat (usec_sub_unsigned a b) = (if a = USEC_INFINITY then 2 ^ 64 - 1 else unat a - unat b)"
proof -
  have "a < b \<Longrightarrow> unat a - unat b = 0" by (simp add: word_less_nat_alt)
  moreover have "\<not> a < b \<Longrightarrow> unat (a - b) = unat a - unat b" by (simp add: unat_sub not_less)
  ultimately show ?thesis by (simp add: usec_sub_unsigned_def)
qed

lemma usec_sub_unsigned_self: "a \<noteq> USEC_INFINITY \<Longrightarrow> usec_sub_unsigned a a = 0"
  by (simp add: usec_sub_unsigned_def)

lemma word_not_max_less: "(u :: usec) \<noteq> - 1 \<Longrightarrow> u < - 1"
  by (simp add: word_order.not_eq_extremum)

text \<open>The overflow test of the parser keeps the sum exact and finite.\<close>

lemma usec_sum_bound:
  fixes u k :: usec
  assumes "\<not> USEC_INFINITY - u \<le> k"
  shows "unat (u + k) = unat u + unat k" and "u + k < USEC_INFINITY"
proof -
  have ub: "unat (USEC_INFINITY - u) = (2 ^ 64 - 1) - unat u"
    using unat_sub [of u USEC_INFINITY] by simp
  with assms have lt: "unat u + unat k < 2 ^ 64 - 1"
    by (simp add: word_le_nat_alt)
  then show eq: "unat (u + k) = unat u + unat k" by (simp add: unat_plus_if')
  from lt show "u + k < USEC_INFINITY" by (simp add: word_less_nat_alt eq)
qed

text \<open>
  What a text means as a time span, over unbounded numbers and without any overflow test: a
  sequence of spans, each a decimal number, a unit (the default one if none is named) and
  digits after the point, each worth a tenth of the one before it in whole microseconds.
\<close>

fun fraction_value :: "string \<Rightarrow> nat \<Rightarrow> nat" where
  "fraction_value [] m = 0"
| "fraction_value (b # bs) m =
     (if ascii_isdigit b then (char_code b - 48) * m + fraction_value bs (m div 10) else 0)"

definition span_value :: "usec \<Rightarrow> string \<Rightarrow> (string \<times> nat) option" where
  "span_value d p =
     (let (neg, v, e) = (case scan_number 10 p of None \<Rightarrow> (False, 0, p) | Some r \<Rightarrow> r);
          dot = starts_with (CHR ''.'') e;
          q = (if dot then dropspan DIGITS (tl e) else e);
          (s, m) = extract_multiplier (dropspan WHITESPACE q) d
      in if neg \<and> v \<noteq> 0 \<or> \<not> dot \<and> scan_number 10 p = None \<or> length s = length q \<and> s \<noteq> [] \<or>
            dot \<and> (tl e = [] \<or> \<not> ascii_isdigit (hd (tl e)))
         then None
         else Some (s, v * unat m + (if dot then fraction_value (tl e) (unat m div 10) else 0)))"

inductive reads_time :: "usec \<Rightarrow> string \<Rightarrow> nat \<Rightarrow> bool" for d where
  reads_end: "dropspan WHITESPACE p = [] \<Longrightarrow> reads_time d p 0"
| reads_span: "\<not> starts_with_minus (dropspan WHITESPACE p) \<Longrightarrow>
    span_value d (dropspan WHITESPACE p) = Some (s, n) \<Longrightarrow> reads_time d s k \<Longrightarrow> reads_time d p (n + k)"

text \<open>A text stands for at most one time.\<close>

lemma span_value_Nil: "span_value d [] = None"
  by (simp add: span_value_def scan_number_def number_prefix_def starts_with_def Let_def split: prod.splits)

inductive_cases reads_timeE: "reads_time d p n"

lemma reads_time_unique: "reads_time d p n \<Longrightarrow> reads_time d p n' \<Longrightarrow> n' = n"
proof (induction arbitrary: n' rule: reads_time.induct)
  case (reads_end p)
  then show ?case by (auto simp: span_value_Nil elim: reads_timeE)
next
  case (reads_span p s n k)
  from reads_span.prems reads_span.hyps(2) show ?case
    by (cases rule: reads_time.cases) (auto simp: span_value_Nil dest: reads_span.IH)
qed

lemma unat_digit_times:
  fixes m :: usec
  assumes "ascii_isdigit b" "unat m \<le> (2 ^ 64 - 1) div 10"
  shows "unat (of_nat (char_code b - 48) * m) = (char_code b - 48) * unat m"
proof -
  have b: "char_code b - 48 \<le> 9" using assms(1) unfolding ascii_isdigit_def by linarith
  then have "(char_code b - 48) * unat m \<le> 9 * ((2 ^ 64 - 1) div 10)" using assms(2) by (intro mult_le_mono) simp_all
  moreover have "unat (of_nat (char_code b - 48) :: usec) = char_code b - 48" using b by (simp add: unat_of_nat)
  ultimately show ?thesis by (subst unat_mult_lem [THEN iffD1]) simp_all
qed

lemma unat_tenth: "unat (m div 10 :: usec) = unat m div 10" "unat (m div 10 :: usec) \<le> (2 ^ 64 - 1) div 10"
proof -
  show "unat (m div 10) = unat m div 10" by (simp add: unat_div)
  moreover have "unat m \<le> 2 ^ 64 - 1" using word_le_nat_alt [of m USEC_INFINITY] by simp
  ultimately show "unat (m div 10) \<le> (2 ^ 64 - 1) div 10" by (metis div_le_mono)
qed

lemma parse_time_fraction_exact:
  "parse_time_fraction bs m u = Inr u' \<Longrightarrow> unat m \<le> (2 ^ 64 - 1) div 10 \<Longrightarrow> u < USEC_INFINITY \<Longrightarrow>
     unat u' = unat u + fraction_value bs (unat m) \<and> u' < USEC_INFINITY"
proof (induction bs m u rule: parse_time_fraction.induct)
  case (2 b bs m u)
  show ?case
  proof (cases "ascii_isdigit b")
    case True
    define k where "k = of_nat (char_code b - 48) * m"
    from True 2(2) have ok: "\<not> USEC_INFINITY - u \<le> k"
      and rest: "parse_time_fraction bs (m div 10) (u + k) = Inr u'"
      by (auto simp: k_def Let_def split: if_splits)
    have "unat u' = unat (u + k) + fraction_value bs (unat (m div 10)) \<and> u' < USEC_INFINITY"
      using 2(1) [OF True k_def ok rest unat_tenth(2) usec_sum_bound(2) [OF ok]] .
    moreover have "unat k = (char_code b - 48) * unat m" unfolding k_def by (rule unat_digit_times [OF True 2(3)])
    ultimately show ?thesis using True usec_sum_bound(1) [OF ok] by (simp add: unat_tenth(1))
  qed (use 2 in simp)
qed simp

text \<open>The test before the multiplication keeps the product exact.\<close>

lemma usec_product_exact:
  fixes l m :: usec
  assumes "\<not> USEC_INFINITY div m \<le> l"
  shows "unat (l * m) = unat l * unat m"
proof -
  have "unat l < (2 ^ 64 - 1) div unat m" using assms by (simp add: word_le_nat_alt unat_div)
  then have "unat l * unat m \<le> (2 ^ 64 - 1) div unat m * unat m" by simp
  also have "\<dots> \<le> 2 ^ 64 - 1" by (rule div_times_less_eq_dividend)
  finally have "unat l * unat m < 2 ^ 64" by simp
  then show ?thesis by (subst unat_mult_lem [THEN iffD1]) simp_all
qed

text \<open>A number that \<open>strtol\<close> accepts and that is not negative.\<close>

lemma strtol_scan:
  assumes "strtol 10 p = (l, x, err)" "\<not> 0 < err" "\<not> l < 0"
  obtains neg v e where "(case scan_number 10 p of None \<Rightarrow> (False, 0, p) | Some r \<Rightarrow> r) = (neg, v, e)"
    "v < 2 ^ 63" "\<not> (neg \<and> v \<noteq> 0)"
proof (cases "scan_number 10 p")
  case None
  then show ?thesis using assms that [of False 0 p] by (simp add: strtol_def)
next
  case (Some r)
  obtain neg v e where r: "r = (neg, v, e)" by (cases r)
  then show ?thesis using assms Some that [of neg v e] by (cases neg) (auto simp: strtol_def split: if_splits)
qed

lemma if_Inl_Inr: "(if P then Inl r else y) = Inr z \<longleftrightarrow> \<not> P \<and> y = Inr z"
  by simp

lemma parse_time_span_unfold:
  assumes sc: "(case scan_number 10 p of None \<Rightarrow> (False, 0, p) | Some r \<Rightarrow> r) = (neg, v, e)" "v < 2 ^ 63" "\<not> (neg \<and> v \<noteq> 0)"
    and em: "extract_multiplier (dropspan WHITESPACE (if starts_with (CHR ''.'') e then dropspan DIGITS (tl e) else e)) d = (s, m)"
  shows "parse_time_span d p u =
    (if \<not> starts_with (CHR ''.'') e \<and> scan_number 10 p = None then Inl (- EINVAL)
     else if length s = length (if starts_with (CHR ''.'') e then dropspan DIGITS (tl e) else e) \<and> s \<noteq> [] then Inl (- EINVAL)
     else if USEC_INFINITY div m \<le> of_nat v then Inl (- ERANGE)
     else if USEC_INFINITY - u \<le> of_nat v * m then Inl (- ERANGE)
     else if starts_with (CHR ''.'') e then (case parse_time_fraction (tl e) (m div 10) (u + of_nat v * m) of Inl r \<Rightarrow> Inl r
       | Inr u' \<Rightarrow> if tl e = [] \<or> \<not> ascii_isdigit (hd (tl e)) then Inl (- EINVAL) else Inr (s, u'))
     else Inr (s, u + of_nat v * m))"
proof -
  define x where "x = (case scan_number 10 p of None \<Rightarrow> None | Some (_, _, r) \<Rightarrow> Some r)"
  have st: "strtol 10 p = (int v, x, 0)" and e: "(case x of None \<Rightarrow> p | Some r \<Rightarrow> r) = e"
    and x: "x = None \<longleftrightarrow> scan_number 10 p = None"
    using sc by (auto simp: strtol_def x_def split: option.splits)
  show ?thesis
    unfolding parse_time_span_def st Let_def prod.case e em x by simp
qed

lemma parse_time_span_exact:
  assumes "parse_time_span d p u = Inr (s, u')"
  shows "\<exists>n. span_value d p = Some (s, n) \<and> unat u' = unat u + n \<and> u' < USEC_INFINITY"
proof -
  obtain l x err where st: "strtol 10 p = (l, x, err)" by (cases "strtol 10 p") auto
  have nn: "\<not> 0 < err" "\<not> l < 0" using assms unfolding parse_time_span_def st Let_def prod.case if_Inl_Inr by blast+
  obtain neg v e where sc: "(case scan_number 10 p of None \<Rightarrow> (False, 0, p) | Some r \<Rightarrow> r) = (neg, v, e)"
    and v: "v < 2 ^ 63" "\<not> (neg \<and> v \<noteq> 0)"
    using strtol_scan [OF st nn] .
  define dot where "dot = starts_with (CHR ''.'') e"
  obtain s' m where em: "extract_multiplier (dropspan WHITESPACE (if dot then dropspan DIGITS (tl e) else e)) d = (s', m)" by force
  let ?k = "(of_nat v :: usec) * m"
  let ?q = "if dot then dropspan DIGITS (tl e) else e"
  let ?r = "if dot then (case parse_time_fraction (tl e) (m div 10) (u + ?k) of Inl r \<Rightarrow> Inl r
       | Inr u' \<Rightarrow> if tl e = [] \<or> \<not> ascii_isdigit (hd (tl e)) then Inl (- EINVAL) else Inr (s', u'))
     else Inr (s', u + ?k)"
  have "\<not> (\<not> dot \<and> scan_number 10 p = None) \<and> \<not> (length s' = length ?q \<and> s' \<noteq> []) \<and> \<not> USEC_INFINITY div m \<le> of_nat v \<and>
      \<not> USEC_INFINITY - u \<le> ?k \<and> ?r = Inr (s, u')"
    using assms unfolding parse_time_span_unfold [OF sc v em [unfolded dot_def]] dot_def [symmetric] if_Inl_Inr .
  then have g: "\<not> (\<not> dot \<and> scan_number 10 p = None)" "\<not> (length s' = length ?q \<and> s' \<noteq> [])"
      "\<not> USEC_INFINITY div m \<le> of_nat v" "\<not> USEC_INFINITY - u \<le> ?k" and r0: "?r = Inr (s, u')" by blast+
  from r0 have r: "if dot then parse_time_fraction (tl e) (m div 10) (u + ?k) = Inr u' \<and> \<not> (tl e = [] \<or> \<not> ascii_isdigit (hd (tl e))) \<and> s = s'
      else s = s' \<and> u' = u + ?k"
    by (cases dot) (simp_all split: sum.split_asm if_split_asm)
  have "unat (of_nat v :: usec) = v" using v(1) by (simp add: unat_of_nat)
  then have k: "unat ?k = v * unat m" using usec_product_exact [OF g(3)] by simp
  note sum = usec_sum_bound [OF g(4)]
  have sv: "span_value d p = Some (s, v * unat m + (if dot then fraction_value (tl e) (unat m div 10) else 0))"
    unfolding span_value_def sc Let_def prod.case dot_def [symmetric] em
    using g(1,2) r v(2) by (auto split: if_splits)
  show ?thesis
  proof (cases dot)
    case True
    then have f: "parse_time_fraction (tl e) (m div 10) (u + ?k) = Inr u'" using r by simp
    from parse_time_fraction_exact [OF this unat_tenth(2) sum(2)] sv k sum(1) True show ?thesis by (simp add: unat_tenth(1))
  next
    case False
    with r sv k sum show ?thesis by simp
  qed
qed

lemma parse_time_loop_exact:
  "parse_time_loop d p u b = Inr u' \<Longrightarrow> u < USEC_INFINITY \<Longrightarrow>
     (b \<or> dropspan WHITESPACE p \<noteq> []) \<and> u' < USEC_INFINITY \<and> (\<exists>n. reads_time d p n \<and> unat u' = unat u + n)"
proof (induction d p u b rule: parse_time_loop.induct)
  case (1 d p u b)
  let ?q = "dropspan WHITESPACE p"
  show ?case
  proof (cases "?q = []")
    case True
    then show ?thesis using "1.prems" reads_end [OF True, of d] by (auto simp: parse_time_loop.simps [of d p u b] split: if_splits)
  next
    case False
    with "1.prems"(1) obtain s v where v: "\<not> starts_with_minus ?q" "parse_time_span d ?q u = Inr (s, v)"
      "parse_time_loop d s v True = Inr u'"
      by (subst (asm) parse_time_loop.simps) (auto simp: Let_def split: sum.splits if_splits)
    obtain n where n: "span_value d ?q = Some (s, n)" "unat v = unat u + n" "v < USEC_INFINITY"
      using parse_time_span_exact [OF v(2)] by blast
    have "u' < USEC_INFINITY \<and> (\<exists>k. reads_time d s k \<and> unat u' = unat v + k)"
      using "1.IH" [OF refl False v(1,2) refl v(3) n(3)] by blast
    then show ?thesis using reads_span [OF v(1) n(1)] n(2) False by (metis add.assoc)
  qed
qed

text \<open>Conversely, nothing that fits is refused.\<close>

lemma usec_room:
  fixes u k :: usec
  assumes "unat u + unat k < 2 ^ 63"
  shows "\<not> USEC_INFINITY - u \<le> k"
proof -
  have "unat (USEC_INFINITY - u) = (2 ^ 64 - 1) - unat u" using unat_sub [of u USEC_INFINITY] by simp
  then show ?thesis using assms by (simp add: word_le_nat_alt)
qed

lemma parse_time_fraction_fits:
  "unat m \<le> (2 ^ 64 - 1) div 10 \<Longrightarrow> unat u + fraction_value bs (unat m) < 2 ^ 63 \<Longrightarrow>
     parse_time_fraction bs m u = Inr (u + of_nat (fraction_value bs (unat m)))"
proof (induction bs m u rule: parse_time_fraction.induct)
  case (2 b bs m u)
  show ?case
  proof (cases "ascii_isdigit b")
    case True
    define k where "k = of_nat (char_code b - 48) * m"
    have k: "unat k = (char_code b - 48) * unat m" unfolding k_def by (rule unat_digit_times [OF True 2(2)])
    have le: "unat u + unat k + fraction_value bs (unat m div 10) < 2 ^ 63" using 2(3) True k by simp
    then have ok: "\<not> USEC_INFINITY - u \<le> k" by (intro usec_room) simp
    have "parse_time_fraction bs (m div 10) (u + k) = Inr (u + k + of_nat (fraction_value bs (unat m div 10)))"
      using 2(1) [OF True k_def ok unat_tenth(2)] le by (simp add: usec_sum_bound(1) [OF ok] unat_tenth(1))
    moreover have "of_nat ((char_code b - 48) * unat m) = k" unfolding k [symmetric] by simp
    ultimately show ?thesis using True ok by (simp add: k_def [symmetric] Let_def add.assoc)
  qed simp
qed simp

lemma extract_multiplier_bound:
  assumes "extract_multiplier p d = (s, m)" "0 < d" "d \<le> 2 ^ 62"
  shows "0 < m" "m \<le> 2 ^ 62"
proof -
  have "extract_multiplier_loop t p d = (s, m) \<Longrightarrow> \<forall>(x, m)\<in>set t. 0 < m \<and> m \<le> 2 ^ 62 \<Longrightarrow> 0 < m \<and> m \<le> 2 ^ 62" for t
    using assms(2,3) by (induction t p d rule: extract_multiplier_loop.induct) (auto split: option.splits)
  moreover have "\<forall>(x, m)\<in>set multiplier_table. 0 < m \<and> m \<le> 2 ^ 62" by (simp add: multiplier_table_def)
  ultimately have "0 < m \<and> m \<le> 2 ^ 62" using assms(1) unfolding extract_multiplier_def by blast
  then show "0 < m" "m \<le> 2 ^ 62" by simp_all
qed

lemma parse_time_span_fits:
  assumes "span_value d p = Some (s, n)" "0 < d" "d \<le> 2 ^ 62" "unat u + n < 2 ^ 63"
  shows "parse_time_span d p u = Inr (s, u + of_nat n)"
proof -
  obtain neg v e where sc: "(case scan_number 10 p of None \<Rightarrow> (False, 0, p) | Some r \<Rightarrow> r) = (neg, v, e)" by (metis prod_cases3)
  define dot where "dot = starts_with (CHR ''.'') e"
  obtain s' m where em: "extract_multiplier (dropspan WHITESPACE (if dot then dropspan DIGITS (tl e) else e)) d = (s', m)" by force
  define f where "f = (if dot then fraction_value (tl e) (unat m div 10) else 0)"
  have g: "\<not> (neg \<and> v \<noteq> 0)" "\<not> (\<not> dot \<and> scan_number 10 p = None)"
      "\<not> (length s' = length (if dot then dropspan DIGITS (tl e) else e) \<and> s' \<noteq> [])"
      "dot \<Longrightarrow> \<not> (tl e = [] \<or> \<not> ascii_isdigit (hd (tl e)))" and s: "s' = s" and n: "n = v * unat m + f"
    using assms(1) unfolding span_value_def sc Let_def prod.case dot_def [symmetric] em f_def by (auto split: if_splits)
  note mb = extract_multiplier_bound [OF em assms(2,3)]
  have um: "0 < unat m" "unat m \<le> 2 ^ 62" using mb by (simp_all add: word_le_nat_alt word_less_nat_alt)
  have vm: "unat u + v * unat m + f < 2 ^ 63" using assms(4) n by simp
  then have v: "v < 2 ^ 63" using mult_le_mono [of v v 1 "unat m"] um(1) by linarith
  have uv: "unat (of_nat v :: usec) = v" using v by (simp add: unat_of_nat)
  have "(v + 1) * unat m \<le> 2 ^ 64 - 1" using vm um(2) by simp
  then have "v < (2 ^ 64 - 1) div unat m" using um(1) by (metis Suc_eq_plus1 Suc_le_eq less_eq_div_iff_mult_less_eq)
  then have g3: "\<not> USEC_INFINITY div m \<le> of_nat v" by (simp add: word_le_nat_alt unat_div uv)
  let ?k = "(of_nat v :: usec) * m"
  have k: "unat ?k = v * unat m" using usec_product_exact [OF g3] uv by simp
  have g4: "\<not> USEC_INFINITY - u \<le> ?k" using vm k by (intro usec_room) simp
  have ofn: "of_nat n = ?k + of_nat f" using n k by (simp add: )
  have fr: "parse_time_fraction (tl e) (m div 10) (u + ?k) = Inr (u + ?k + of_nat f)" if dot
    using parse_time_fraction_fits [OF unat_tenth(2), of "u + ?k" "tl e" m] vm that
    by (simp add: f_def usec_sum_bound(1) [OF g4] k unat_tenth(1))
  show ?thesis
    unfolding parse_time_span_unfold [OF sc v g(1) em [unfolded dot_def]] dot_def [symmetric] ofn
    using g g3 g4 s fr by (auto simp: f_def add.assoc)
qed

lemma parse_time_loop_fits:
  "reads_time d p n \<Longrightarrow> 0 < d \<Longrightarrow> d \<le> 2 ^ 62 \<Longrightarrow> unat u + n < 2 ^ 63 \<Longrightarrow> b \<or> dropspan WHITESPACE p \<noteq> [] \<Longrightarrow>
     parse_time_loop d p u b = Inr (u + of_nat n)"
proof (induction arbitrary: u b rule: reads_time.induct)
  case (reads_end p)
  then show ?case by (simp add: parse_time_loop.simps [of d p])
next
  case (reads_span p s n k)
  let ?q = "dropspan WHITESPACE p"
  have ne: "?q \<noteq> []" using reads_span.hyps(2) by (auto simp: span_value_Nil)
  have sp: "parse_time_span d ?q u = Inr (s, u + of_nat n)"
    using reads_span.prems by (intro parse_time_span_fits [OF reads_span.hyps(2)]) simp_all
  have "unat (of_nat n :: usec) = n" using reads_span.prems(3) by (simp add: unat_of_nat)
  then have "unat (u + of_nat n) = unat u + n" using reads_span.prems(3) by (simp add: unat_plus_if')
  then have "parse_time_loop d s (u + of_nat n) True = Inr (u + of_nat n + of_nat k)"
    using reads_span.IH [of "u + of_nat n" True] reads_span.prems by simp
  with sp ne reads_span.hyps(1) show ?case by (simp add: parse_time_loop.simps [of d p] Let_def add.assoc)
qed

lemma dropspan_idem: "dropspan cs (dropspan cs p) = dropspan cs p"
  by (induction p) (simp_all add: dropspan_def)

lemma reads_time_dropspan: "reads_time d (dropspan WHITESPACE t) n \<longleftrightarrow> reads_time d t n"
  using reads_time.cases reads_end reads_span by (metis dropspan_idem)

text \<open>
  C31.  A time span is read exactly.  A text that starts with \<open>infinity\<close> is the special value infinity, or refused if anything but white space follows.  From any other text the parser only ever accepts the sum that the text stands for over unbounded numbers, which is then below infinity, so no multiplication and no addition wraps around; and with a default unit between 1 and \<open>2 ^ 62\<close> it does accept every text that is not blank and stands for a time below \<open>2 ^ 63\<close>.
\<close>

theorem parse_time_exact:
  "case startswith (dropspan WHITESPACE t) ''infinity'' of
     Some s \<Rightarrow> parse_time t d = (if dropspan WHITESPACE s = [] then Inr USEC_INFINITY else Inl (- EINVAL))
   | None \<Rightarrow>
       (\<forall>u. parse_time t d = Inr u \<longrightarrow> dropspan WHITESPACE t \<noteq> [] \<and> reads_time d t (unat u) \<and> u < USEC_INFINITY) \<and>
       (\<forall>n. dropspan WHITESPACE t \<noteq> [] \<and> 0 < d \<and> d \<le> 2 ^ 62 \<and> reads_time d t n \<and> n < 2 ^ 63 \<longrightarrow> parse_time t d = Inr (of_nat n))"
proof (cases "startswith (dropspan WHITESPACE t) ''infinity''")
  case None
  have p: "parse_time t d = parse_time_loop d (dropspan WHITESPACE t) 0 False" by (simp add: parse_time_def None)
  have z: "(0 :: usec) < USEC_INFINITY" by (simp add: word_less_nat_alt)
  have "dropspan WHITESPACE t \<noteq> [] \<and> reads_time d t (unat u) \<and> u < USEC_INFINITY" if "parse_time t d = Inr u" for u
    using parse_time_loop_exact [OF that [unfolded p] z] by (auto simp: reads_time_dropspan dropspan_idem)
  moreover have "parse_time t d = Inr (of_nat n)"
    if "dropspan WHITESPACE t \<noteq> []" "0 < d" "d \<le> 2 ^ 62" "reads_time d t n" "n < 2 ^ 63" for n
    using parse_time_loop_fits [of d "dropspan WHITESPACE t" n 0 False] that by (simp add: p reads_time_dropspan dropspan_idem)
  ultimately show ?thesis unfolding None option.case by blast
qed (simp add: parse_time_def)

theorem parse_time_exact_witness:
  "reads_time USEC_PER_SEC ''1.5h'' 5400000000 \<and> parse_time ''1.5h'' USEC_PER_SEC = Inr 5400000000"
proof -
  have sc: "scan_number 10 ''1.5h'' = Some (False, 1, ''.5h'')" by code_simp
  have em: "extract_multiplier ''h'' USEC_PER_SEC = ([], 3600000000)" by code_simp
  have ws: "dropspan WHITESPACE ''h'' = ''h''" "dropspan DIGITS ''5h'' = ''h''" "dropspan WHITESPACE ''1.5h'' = ''1.5h''"
      "dropspan WHITESPACE [] = []" "startswith ''1.5h'' ''infinity'' = None" "\<not> starts_with_minus ''1.5h''" by code_simp+
  have "span_value USEC_PER_SEC ''1.5h'' = Some ([], 5400000000)"
    by (simp add: span_value_def sc em ws starts_with_def ascii_isdigit_def char_code_def)
  then have r: "reads_time USEC_PER_SEC ''1.5h'' 5400000000"
    using reads_span [of "''1.5h''" USEC_PER_SEC "[]" 5400000000 0] reads_end [of "[]"] ws by simp
  have "\<forall>n. reads_time USEC_PER_SEC ''1.5h'' n \<and> n < 2 ^ 63 \<longrightarrow> parse_time ''1.5h'' USEC_PER_SEC = Inr (of_nat n)"
    using parse_time_exact [of "''1.5h''" USEC_PER_SEC] ws by (simp add: word_le_nat_alt)
  from spec [OF this, of 5400000000] r show ?thesis by simp
qed

lemma scan_number_dec10: "scan_number 10 (dec_of_nat n) = Some (False, n, [])"
proof -
  obtain c cs where eq: "dec_of_nat n = c # cs"
    using dec_of_nat_nonempty by (cases "dec_of_nat n") auto
  then obtain d where d: "d < 10" "c = digit_char d"
    using dec_of_nat_digits [of c n] by auto
  have all: "\<forall>x\<in>set (dec_of_nat n). is_digit_of 10 x"
    using dec_of_nat_all_digits by blast
  have "dropWhile c_isspace (dec_of_nat n) = dec_of_nat n"
    using d digit_not_special(1) eq by simp
  moreover have "takeWhile (is_digit_of 10) (dec_of_nat n) = dec_of_nat n"
    "dropWhile (is_digit_of 10) (dec_of_nat n) = []"
    using all by (auto simp: takeWhile_eq_all_conv dropWhile_eq_Nil_conv)
  ultimately show ?thesis
    using d digit_not_special(2,3) eq digits_value_dec_of_nat [of n]
    by (auto simp: scan_number_def number_prefix_def dec_of_nat_nonempty)
qed

lemma extract_multiplier_Nil: "extract_multiplier [] d = ([], d)"
  by (simp add: extract_multiplier_def multiplier_table_def startswith_def)

lemma usec_per_sec_division: "USEC_INFINITY div USEC_PER_SEC = 18446744073709"
  by (simp add: word_unat_eq_iff unat_div)

lemma parse_time_span_dec:
  assumes "n < 2 ^ 63"
  shows "parse_time_span USEC_PER_SEC (dec_of_nat n) 0 =
    (if n < 18446744073709 then Inr ([], of_nat n * USEC_PER_SEC) else Inl (- ERANGE))"
proof -
  have st: "strtol 10 (dec_of_nat n) = (int n, Some [], 0)"
    using assms by (simp add: strtol_def scan_number_dec10)
  have un: "unat (of_nat n :: usec) = n" using assms by (simp add: unat_of_nat)
  have cmp: "(18446744073709 :: usec) \<le> of_nat n \<longleftrightarrow> 18446744073709 \<le> n"
    by (simp add: word_le_nat_alt un)
  have fits: "n < 18446744073709 \<Longrightarrow> \<not> USEC_INFINITY \<le> of_nat n * USEC_PER_SEC"
    using un by (simp add: word_le_nat_alt unat_word_ariths)
  show ?thesis
    using cmp fits
    by (auto simp: parse_time_span_def st starts_with_def extract_multiplier_Nil
        usec_per_sec_division Let_def)
qed

lemma parse_time_span_huge:
  assumes "2 ^ 63 \<le> n"
  shows "parse_time_span d (dec_of_nat n) u = Inl (- ERANGE)"
  using assms by (simp add: parse_time_span_def strtol_def scan_number_dec10 Let_def)

lemma not_infinity_dec: "startswith (dec_of_nat n) (CHR ''i'' # t) = None"
proof -
  have "hd (dec_of_nat n) \<noteq> CHR ''i''"
  proof -
    obtain d where "d < 10" "hd (dec_of_nat n) = digit_char d"
      using dec_of_nat_digits [of "hd (dec_of_nat n)" n] dec_of_nat_nonempty [of n]
      by (metis hd_in_set)
    moreover have "char_code (CHR ''i'') = 105" by (simp add: char_code_def)
    ultimately show ?thesis using char_code_digit_char by force
  qed
  then show ?thesis by (auto simp: startswith_None)
qed

text \<open>
  A plain decimal number of seconds is read as that many seconds, up to the last value whose microseconds fit, and refused with \<open>ERANGE\<close> beyond it.
\<close>

theorem parse_sec_dec:
  "parse_sec (dec_of_nat n) =
     (if n < 18446744073709 then Inr (of_nat n * USEC_PER_SEC) else Inl (- ERANGE))"
proof -
  have loop: "parse_time_loop USEC_PER_SEC (dec_of_nat n) 0 False =
    (case parse_time_span USEC_PER_SEC (dec_of_nat n) 0 of
       Inl r \<Rightarrow> Inl r | Inr (s, u) \<Rightarrow> parse_time_loop USEC_PER_SEC s u True)"
    by (simp add: parse_time_loop.simps [of _ "dec_of_nat n"] dropspan_ws_dec
        dec_of_nat_nonempty starts_with_minus_dec)
  have fin: "parse_time_loop USEC_PER_SEC [] u True = Inr u" for u
    by (simp add: parse_time_loop.simps)
  show ?thesis
  proof (cases "n < 2 ^ 63")
    case True
    then show ?thesis
      by (simp add: parse_sec_def parse_time_def dropspan_ws_dec not_infinity_dec loop fin
          parse_time_span_dec)
  next
    case False
    then show ?thesis
      by (simp add: parse_sec_def parse_time_def dropspan_ws_dec not_infinity_dec loop
          parse_time_span_huge)
  qed
qed

text \<open>
  Storing a time in a \<open>timespec\<close> and loading it gives the same time, infinity included.
\<close>

theorem timespec_roundtrip: "timespec_load (timespec_store u) = u"
proof (cases "u = USEC_INFINITY")
  case True
  then show ?thesis by (simp add: timespec_load_def timespec_store_def)
next
  case False
  let ?n = "unat u"
  have n: "?n < 2 ^ 64" using unsigned_less [of u] by simp
  have q: "unat (u div USEC_PER_SEC) = ?n div 1000000" by (simp add: unat_div)
  have r: "unat (u mod USEC_PER_SEC) = ?n mod 1000000" by (simp add: unat_mod)
  have ns: "unat (u mod USEC_PER_SEC * NSEC_PER_USEC) = ?n mod 1000000 * 1000"
    by (simp add: unat_word_ariths r)
  then have nd: "u mod USEC_PER_SEC * NSEC_PER_USEC div NSEC_PER_USEC = u mod USEC_PER_SEC"
    by (simp add: word_unat_eq_iff unat_div r)
  have sub: "unat (- 1 - u mod USEC_PER_SEC) = 2 ^ 64 - 1 - ?n mod 1000000"
    using unat_sub [of "u mod USEC_PER_SEC" "- 1"] r by simp
  have "?n div 1000000 * 1000000 \<le> 2 ^ 64 - 1 - ?n mod 1000000"
    using n div_mult_mod_eq [of ?n 1000000] by linarith
  then have "?n div 1000000 \<le> (2 ^ 64 - 1 - ?n mod 1000000) div 1000000"
    by (simp add: less_eq_div_iff_mult_less_eq)
  then have fits: "\<not> (- 1 - u mod USEC_PER_SEC) div USEC_PER_SEC < u div USEC_PER_SEC"
    by (simp add: word_less_nat_alt unat_div sub q not_less)
  have "u div USEC_PER_SEC \<noteq> - 1" using n q by (auto simp: word_unat_eq_iff)
  with False fits show ?thesis
    by (simp add: timespec_load_def timespec_store_def nd word_mod_div_equality)
qed

end
