(* ===== verification/Parse_Size.thy ===== *)
theory Parse_Size
  imports Time_Util
begin

text \<open>
  \<open>parse_size\<close> of \<open>src/share/parse-util.c\<close>: sizes with binary or decimal suffixes.  Digits
  after a point are read into a \<open>double\<close>; what the code does with that \<open>double\<close> is a
  parameter: whether the fraction with the digits \<open>l2\<close>, \<open>k\<close> of them, is positive, and its product
  with a factor, cut to an integer.
\<close>

record float_ops =
  frac_positive :: "nat \<Rightarrow> nat \<Rightarrow> bool"
  frac_times :: "nat \<Rightarrow> nat \<Rightarrow> u64 \<Rightarrow> u64"

definition size_table :: "u64 \<Rightarrow> (string \<times> u64) list" where
  "size_table base =
     (let b = (if base = 1000 then 1000 else 1024)
      in [(''E'', b ^ 6), (''P'', b ^ 5), (''T'', b ^ 4), (''G'', b ^ 3), (''M'', b ^ 2), (''K'', b), (''B'', 1), ([], 1)])"

fun size_suffix :: "(string \<times> u64) list \<Rightarrow> nat \<Rightarrow> string \<Rightarrow> (nat \<times> string \<times> u64) option" where
  \<comment> \<open>the first entry that the string starts with, and its position\<close>
  "size_suffix [] i e = None"
| "size_suffix ((suffix, factor) # t) i e =
     (if startswith e suffix \<noteq> None then Some (i, suffix, factor) else size_suffix t (Suc i) e)"

definition size_fraction :: "string \<Rightarrow> ((nat \<times> nat) option \<times> string) result" where
  \<comment> \<open>the digits of the fraction and their number, and the rest\<close>
  "size_fraction e =
     (case e of
        c # e' \<Rightarrow>
          if c = CHR ''.'' then
            (if e' \<noteq> [] \<and> ascii_isdigit (hd e')
             then let (l2, e2, err) = strtoul 10 e'; e2 = (case e2 of None \<Rightarrow> e' | Some s \<Rightarrow> s)
                  in if 0 < err then Inl (- err) else Inr (Some (l2, length e' - length e2), e2)
             else Inr (None, e'))
          else Inr (None, e)
      | [] \<Rightarrow> Inr (None, e))"

definition size_amount :: "float_ops \<Rightarrow> u64 \<Rightarrow> (nat \<times> nat) option \<Rightarrow> u64 \<Rightarrow> u64 result" where
  "size_amount ops l frac factor =
     (let positive = (case frac of None \<Rightarrow> False | Some (l2, k) \<Rightarrow> frac_positive ops l2 k);
          scaled = (case frac of None \<Rightarrow> 0 | Some (l2, k) \<Rightarrow> frac_times ops l2 k factor)
      in if - 1 div factor < l + (if positive then 1 else 0) then Inl (- ERANGE)
         else Inr (l * factor + scaled))"

definition size_item :: "float_ops \<Rightarrow> (string \<times> u64) list \<Rightarrow> nat \<Rightarrow> string \<Rightarrow> (nat \<times> string \<times> u64) result" where
  \<comment> \<open>one round of the loop: the position of the suffix, the rest and the amount\<close>
  "size_item ops table start p0 =
     (let p = dropspan WHITESPACE p0; (l, e, err) = strtoul 10 p
      in if 0 < err then Inl (- err)
         else (case e of
                None \<Rightarrow> Inl (- EINVAL)
              | Some e \<Rightarrow>
                  if starts_with_minus p then Inl (- ERANGE)
                  else (case size_fraction e of
                         Inl r \<Rightarrow> Inl r
                       | Inr (frac, e) \<Rightarrow>
                           (let e = dropspan WHITESPACE e
                            in (case size_suffix (drop start table) start e of
                                 None \<Rightarrow> Inl (- EINVAL)
                               | Some (i, suffix, factor) \<Rightarrow>
                                   (case size_amount ops (of_nat l) frac factor of
                                     Inl r \<Rightarrow> Inl r
                                   | Inr tmp \<Rightarrow> Inr (i, drop (length suffix) e, tmp)))))))"

lemma size_suffix_range: "size_suffix t i e = Some (j, s, f) \<Longrightarrow> i \<le> j \<and> j < i + length t"
  by (induction t i e rule: size_suffix.induct) (fastforce split: if_splits)+

lemma size_item_start: "size_item ops table start p = Inr (i, q, tmp) \<Longrightarrow> start \<le> i \<and> i < length table"
  by (auto simp: size_item_def Let_def split: prod.splits if_splits option.splits sum.splits dest!: size_suffix_range)

function parse_size_loop :: "float_ops \<Rightarrow> (string \<times> u64) list \<Rightarrow> string \<Rightarrow> nat \<Rightarrow> u64 \<Rightarrow> u64 result" where
  "parse_size_loop ops table p start r =
     (case size_item ops table start p of
        Inl e \<Rightarrow> Inl e
      | Inr (i, q, tmp) \<Rightarrow>
          if - 1 - r < tmp then Inl (- ERANGE)
          else if q = [] then Inr (r + tmp) else parse_size_loop ops table q (Suc i) (r + tmp))"
  by pat_completeness auto

termination parse_size_loop
  by (relation "measure (\<lambda>(ops, table, p, start, r). Suc (length table) - start)")
    (auto dest!: size_item_start)

declare parse_size_loop.simps [simp del]

definition parse_size :: "float_ops \<Rightarrow> string \<Rightarrow> u64 \<Rightarrow> u64 result outcome" where
  "parse_size ops t base = c_assert (base = 1000 \<or> base = 1024) (Ret (parse_size_loop ops (size_table base) t 0 0))"

section \<open>Facts\<close>

lemma scan_number_dec_append:
  assumes "s = [] \<or> \<not> is_digit_of 10 (hd s)"
  shows "scan_number 10 (dec_of_nat n @ s) = Some (False, n, s)"
proof -
  obtain c cs where eq: "dec_of_nat n = c # cs"
    using dec_of_nat_nonempty by (cases "dec_of_nat n") auto
  then obtain d where d: "d < 10" "c = digit_char d"
    using dec_of_nat_digits [of c n] by auto
  have all: "\<forall>x\<in>set (dec_of_nat n). is_digit_of 10 x"
    using dec_of_nat_all_digits by blast
  have "takeWhile (is_digit_of 10) (dec_of_nat n @ s) = dec_of_nat n" "dropWhile (is_digit_of 10) (dec_of_nat n @ s) = s"
    using all assms by (cases s; simp add: takeWhile_append2 dropWhile_append2)+
  moreover have "dropWhile c_isspace (dec_of_nat n @ s) = dec_of_nat n @ s"
    using d digit_not_special(1) eq by simp
  ultimately show ?thesis
    using d digit_not_special(2,3) eq digits_value_dec_of_nat [of n] dec_of_nat_nonempty [of n]
    by (auto simp: scan_number_def number_prefix_def)
qed

lemma dropspan_ws_dec_append: "dropspan WHITESPACE (dec_of_nat n @ s) = dec_of_nat n @ s"
proof -
  obtain c cs where eq: "dec_of_nat n = c # cs"
    using dec_of_nat_nonempty by (cases "dec_of_nat n") auto
  then obtain d where "d < 10" "c = digit_char d"
    using dec_of_nat_digits [of c n] by auto
  then show ?thesis using eq digit_not_special(4) by (simp add: dropspan_Cons)
qed

lemma starts_with_minus_dec_append: "\<not> starts_with_minus (dec_of_nat n @ s)"
  using starts_with_minus_dec [of n] dec_of_nat_nonempty [of n]
  by (cases "dec_of_nat n") (auto simp: starts_with_minus_def)

lemma size_table_eq: "\<exists>k. size_table b = [(''E'', k ^ 6), (''P'', k ^ 5), (''T'', k ^ 4), (''G'', k ^ 3), (''M'', k ^ 2), (''K'', k), (''B'', 1), ([], 1)]"
  by (auto simp: size_table_def Let_def)

lemma size_suffix_own:
  assumes "(s, f) \<in> set (size_table b)" "i = 0"
  shows "\<exists>j. size_suffix (size_table b) i s = Some (j, s, f)"
proof -
  obtain k where t: "size_table b = [(''E'', k ^ 6), (''P'', k ^ 5), (''T'', k ^ 4), (''G'', k ^ 3), (''M'', k ^ 2), (''K'', k), (''B'', 1), ([], 1)]"
    using size_table_eq by blast
  from assms(1) show ?thesis
    unfolding t assms(2) set_simps insert_iff prod.inject by (elim disjE conjE emptyE) (simp_all add: startswith_def)
qed

lemma size_suffix_chars:
  assumes "(s, f) \<in> set (size_table b)"
  shows "(s = [] \<or> \<not> is_digit_of 10 (hd s)) \<and> dropspan WHITESPACE s = s \<and> size_fraction s = Inr (None, s)"
proof -
  have "s \<in> {''E'', ''P'', ''T'', ''G'', ''M'', ''K'', ''B'', []}" using size_table_eq [of b] assms by auto
  then show ?thesis
    by (elim insertE emptyE) (simp_all add: is_digit_of_def digit_value_def char_code_def dropspan_def WHITESPACE_def size_fraction_def)
qed

text \<open>
  C30.  A size in decimal digits with one of the suffixes is the number times the binary factor of the suffix, and a range error when that does not fit into 64 bits.
\<close>

theorem parse_size_decimal:
  assumes "(suffix, factor) \<in> set (size_table 1024)"
  shows "parse_size ops (dec_of_nat n @ suffix) 1024 =
    Ret (if n * unat factor < 2 ^ 64 then Inr (of_nat n * factor) else Inl (- ERANGE))"
proof -
  note sfx = size_suffix_chars [OF assms]
  obtain j where j: "size_suffix (size_table 1024) 0 suffix = Some (j, suffix, factor)"
    using size_suffix_own [OF assms] by blast
  have f: "0 < unat factor" using assms by (auto simp: size_table_def Let_def)
  have str: "strtoul 10 (dec_of_nat n @ suffix) = (if 2 ^ 64 \<le> n then (2 ^ 64 - 1, Some suffix, ERANGE) else (n, Some suffix, 0))"
    using scan_number_dec_append sfx by (simp add: strtoul_def)
  show ?thesis
  proof (cases "2 ^ 64 \<le> n")
    case True
    then have "\<not> n * unat factor < 2 ^ 64" using f by (metis Suc_leI mult.right_neutral mult_le_mono not_less One_nat_def)
    with True show ?thesis
      by (simp add: parse_size_def parse_size_loop.simps size_item_def dropspan_ws_dec_append str)
  next
    case False
    have q: "unat (- 1 div factor :: u64) = (2 ^ 64 - 1) div unat factor"
      by (simp add: unat_div unsigned_minus_1_eq_mask mask_eq_exp_minus_1)
    have "- 1 div factor < (of_nat n :: u64) \<longleftrightarrow> (2 ^ 64 - 1) div unat factor < n"
      using False by (simp add: word_less_nat_alt q unat_of_nat)
    also have "\<dots> \<longleftrightarrow> \<not> n * unat factor < 2 ^ 64"
      using f by (simp add: div_less_iff_less_mult less_Suc_eq_le) linarith
    finally have over: "- 1 div factor < (of_nat n :: u64) \<longleftrightarrow> \<not> n * unat factor < 2 ^ 64" .
    have "size_item ops (size_table 1024) 0 (dec_of_nat n @ suffix) =
        (if n * unat factor < 2 ^ 64 then Inr (j, [], of_nat n * factor) else Inl (- ERANGE))"
      using False sfx j over
      by (simp add: size_item_def dropspan_ws_dec_append str starts_with_minus_dec_append size_amount_def)
    then show ?thesis
      by (simp add: parse_size_def parse_size_loop.simps)
  qed
qed

theorem parse_size_decimal_witness:
  "\<forall>ops. parse_size ops (dec_of_nat 64 @ ''K'') 1024 = Ret (Inr 65536)"
  using parse_size_decimal [of "''K''" 1024 _ 64] by (simp add: size_table_def)

text \<open>The sum of the integer part and the carry wraps around before it is compared.\<close>

lemma parse_size_wraps:
  assumes "frac_positive ops 5 1" "frac_times ops 5 1 1024 = 512"
  shows "parse_size ops ''18446744073709551615.5K'' 1024 = Ret (Inr (- 512))"
proof -
  have tail: "''.5K'' = [] \<or> \<not> is_digit_of 10 (hd ''.5K'')"
    by (simp add: is_digit_of_def digit_value_def char_code_def)
  have digits: "''18446744073709551615.5K'' = dec_of_nat 18446744073709551615 @ ''.5K''"
    by (simp add: digit_chars dec_of_nat.simps)
  have int: "strtoul 10 (dec_of_nat 18446744073709551615 @ ''.5K'') = (18446744073709551615, Some ''.5K'', 0)"
    using scan_number_dec_append [OF tail] by (simp add: strtoul_def del: dec_of_nat.simps)
  have frac: "size_fraction ''.5K'' = Inr (Some (5, 1), ''K'')"
    by (simp add: size_fraction_def ascii_isdigit_def char_code_def strtoul_def scan_number_def number_prefix_def c_isspace_def
        is_digit_of_def digit_value_def digits_value_def)
  have suffix: "dropspan WHITESPACE ''K'' = ''K''" "size_suffix (size_table 1024) 0 ''K'' = Some (5, ''K'', 1024)"
    by (simp_all add: dropspan_def WHITESPACE_def size_table_def startswith_def)
  have "size_item ops (size_table 1024) 0 ''18446744073709551615.5K'' = Inr (5, [], - 512)"
    unfolding digits size_item_def
    by (simp add: dropspan_ws_dec_append int frac suffix starts_with_minus_dec_append assms [simplified] size_amount_def)
  then show ?thesis
    by (simp add: parse_size_def parse_size_loop.simps)
qed

end
