(* ===== verification/Path_Util.thy ===== *)
theory Path_Util
  imports String_Util
begin

text \<open>
  \<open>src/share/path-util.c\<close>: file system paths as C strings.  A path is compared and
  matched component by component; \<open>path_components\<close> is the reference the loops of the
  source are shown to agree with.  \<open>path_strv_resolve\<close>, which asks the file system for
  canonical names, is not modelled.
\<close>

section \<open>Operations\<close>

definition begins_slash :: "string \<Rightarrow> bool" where
  "begins_slash p \<longleftrightarrow> (case p of [] \<Rightarrow> False | c # _ \<Rightarrow> c = CHR ''/'')"

definition path_is_absolute :: "string \<Rightarrow> bool" where
  "path_is_absolute p \<longleftrightarrow> begins_slash p"

definition is_path :: "string \<Rightarrow> bool" where
  "is_path p \<longleftrightarrow> strchr p CHR ''/'' \<noteq> None"

text \<open>The loop of \<open>path_kill_slashes\<close>: the characters copied from \<open>f\<close> on, and the flag at the end.\<close>

fun path_kill_slashes_loop :: "string \<Rightarrow> bool \<Rightarrow> string \<times> bool" where
  "path_kill_slashes_loop [] slash = ([], slash)"
| "path_kill_slashes_loop (c # f) slash =
     (if c = CHR ''/'' then path_kill_slashes_loop f True
      else let (t, sl) = path_kill_slashes_loop f False
           in ((if slash then [CHR ''/'', c] else [c]) @ t, sl))"

definition path_kill_slashes :: "string \<Rightarrow> string" where
  "path_kill_slashes path =
     (let (t, slash) = path_kill_slashes_loop path False
      in if t = [] \<and> slash then ''/'' else t)"

lemma strcspn_slash_shorter:
  "dropspan ''/'' p \<noteq> [] \<Longrightarrow> length (drop (strcspn (dropspan ''/'' p) ''/'') (dropspan ''/'' p)) < length p"
proof -
  assume ne: "dropspan ''/'' p \<noteq> []"
  then obtain c q where q: "dropspan ''/'' p = c # q" by (cases "dropspan ''/'' p") auto
  have "c \<noteq> CHR ''/''" using dropspan_hd [OF ne] q by simp
  then have "0 < strcspn (c # q) ''/''" by (simp add: strcspn_def)
  moreover have "length (c # q) \<le> length p" using dropspan_length [of "''/''" p] q by simp
  ultimately show ?thesis using q by simp
qed

function path_startswith_loop :: "string \<Rightarrow> string \<Rightarrow> string option" where
  "path_startswith_loop path prefix =
     (let path = dropspan ''/'' path; prefix = dropspan ''/'' prefix
      in if prefix = [] then Some path
         else if path = [] then None
         else let a = strcspn path ''/''; b = strcspn prefix ''/''
              in if a \<noteq> b then None
                 else if take a path \<noteq> take a prefix then None
                 else path_startswith_loop (drop a path) (drop b prefix))"
  by pat_completeness auto
termination
  by (relation "measure (length \<circ> snd)") (use strcspn_slash_shorter in \<open>auto simp: Let_def\<close>)

declare path_startswith_loop.simps [simp del]

definition path_startswith :: "string \<Rightarrow> string \<Rightarrow> string option" where
  "path_startswith path prefix =
     (if begins_slash path \<noteq> begins_slash prefix then None else path_startswith_loop path prefix)"

text \<open>The sign of \<open>memcmp\<close> on equally long blocks.\<close>

definition memcmp_sign :: "string \<Rightarrow> string \<Rightarrow> nat \<Rightarrow> int" where
  "memcmp_sign a b n = strcmp (take n a) (take n b)"

function path_compare_loop :: "string \<Rightarrow> string \<Rightarrow> int" where
  "path_compare_loop a b =
     (let a = dropspan ''/'' a; b = dropspan ''/'' b
      in if a = [] \<and> b = [] then 0
         else if a = [] then -1
         else if b = [] then 1
         else let j = strcspn a ''/''; k = strcspn b ''/''; d = memcmp_sign a b (min j k)
              in if d \<noteq> 0 then d
                 else let d = (if k < j then 1 else 0) - (if j < k then 1 else 0)
                      in if d \<noteq> 0 then d
                         else path_compare_loop (drop j a) (drop k b))"
  by pat_completeness auto
termination
  by (relation "measure (length \<circ> fst)") (use strcspn_slash_shorter in \<open>auto simp: Let_def\<close>)

declare path_compare_loop.simps [simp del]

definition path_compare :: "string \<Rightarrow> string \<Rightarrow> int" where
  "path_compare a b =
     (let d = (if begins_slash a then 1 else 0) - (if begins_slash b then 1 else 0)
      in if d \<noteq> 0 then d else path_compare_loop a b)"

definition path_equal :: "string \<Rightarrow> string \<Rightarrow> bool" where
  "path_equal a b \<longleftrightarrow> path_compare a b = 0"

text \<open>Dropping duplicate slashes at the front, and all trailing slashes, as \<open>prefix_root\<close> does.\<close>

fun drop_double_slash :: "string \<Rightarrow> string" where
  "drop_double_slash (a # b # p) =
     (if a = CHR ''/'' \<and> b = CHR ''/'' then drop_double_slash (b # p) else a # b # p)"
| "drop_double_slash p = p"

definition prefix_root :: "string option \<Rightarrow> string \<Rightarrow> string" where
  "prefix_root root path =
     (let path = drop_double_slash path
      in case root of
           None \<Rightarrow> path
         | Some r \<Rightarrow>
             if r = [] \<or> path_equal r ''/'' then path
             else rev (dropWhile (\<lambda>c. c = CHR ''/'') (rev r)) @
                  (if begins_slash path then [] else ''/'') @ path)"

definition FILENAME_MAX :: nat where "FILENAME_MAX = 4096"
definition PATH_MAX :: nat where "PATH_MAX = 4096"

definition filename_is_valid :: "string option \<Rightarrow> bool" where
  "filename_is_valid p \<longleftrightarrow>
     (case p of
        None \<Rightarrow> False
      | Some s \<Rightarrow> s \<noteq> [] \<and> s \<noteq> ''.'' \<and> s \<noteq> ''..'' \<and> strchr s CHR ''/'' = None \<and>
          \<not> FILENAME_MAX < length s)"

text \<open>\<open>strstr(p, x) != NULL\<close> for a nonempty \<open>x\<close>.\<close>

fun contains_str :: "string \<Rightarrow> string \<Rightarrow> bool" where
  "contains_str [] x \<longleftrightarrow> x = []"
| "contains_str (c # p) x \<longleftrightarrow> startswith (c # p) x \<noteq> None \<or> contains_str p x"

definition path_is_safe :: "string option \<Rightarrow> bool" where
  "path_is_safe p \<longleftrightarrow>
     (case p of
        None \<Rightarrow> False
      | Some s \<Rightarrow>
          s \<noteq> [] \<and>
          \<not> (s = ''..'' \<or> startswith s ''../'' \<noteq> None \<or> endswith s ''/..'' \<noteq> None \<or> contains_str s ''/../'') \<and>
          \<not> PATH_MAX < length s + 1 \<and>
          \<not> (s = ''.'' \<or> startswith s ''./'' \<noteq> None \<or> endswith s ''/.'' \<noteq> None \<or> contains_str s ''/./'') \<and>
          \<not> contains_str s ''//'')"

text \<open>\<open>strrchr(path, c)\<close>, as what comes before the last \<open>c\<close> and what comes after it.\<close>

definition strrchr :: "string \<Rightarrow> char \<Rightarrow> (string \<times> string) option" where
  "strrchr s c =
     (if c \<in> set s
      then Some (rev (drop 1 (dropWhile (\<lambda>x. x \<noteq> c) (rev s))), rev (takeWhile (\<lambda>x. x \<noteq> c) (rev s)))
      else None)"

definition file_in_same_dir :: "string \<Rightarrow> string \<Rightarrow> string" where
  "file_in_same_dir path filename =
     (if path_is_absolute filename then filename
      else case strrchr path CHR ''/'' of
             None \<Rightarrow> filename
           | Some (dir, _) \<Rightarrow> dir @ ''/'' @ filename)"

definition hidden_or_backup_file :: "string \<Rightarrow> bool" where
  "hidden_or_backup_file filename \<longleftrightarrow>
     (case filename of c # _ \<Rightarrow> c = CHR ''.'' | [] \<Rightarrow> False) \<or>
     filename \<in> {''lost+found'', ''aquota.user'', ''aquota.group''} \<or>
     endswith filename ''~'' \<noteq> None \<or>
     (case strrchr filename CHR ''.'' of
        None \<Rightarrow> False
      | Some (_, ext) \<Rightarrow> ext \<in> {''rpmnew'', ''rpmsave'', ''rpmorig'', ''dpkg-old'', ''dpkg-new'',
          ''dpkg-tmp'', ''dpkg-dist'', ''dpkg-bak'', ''dpkg-backup'', ''dpkg-remove'', ''ucf-new'',
          ''ucf-old'', ''ucf-dist'', ''swp'', ''bak'', ''old'', ''new''})"

text \<open>\<open>tempfn_xxxxxx\<close> of \<open>src/share/fileio.c\<close>: the template of a temporary file beside \<open>p\<close>.\<close>

definition tempfn_xxxxxx :: "string \<Rightarrow> string option \<Rightarrow> string result" where
  "tempfn_xxxxxx p extra =
     (let (dir, fn) = (case strrchr p CHR ''/'' of None \<Rightarrow> ([], p) | Some (d, f) \<Rightarrow> (d @ ''/'', f))
      in if \<not> filename_is_valid (Some fn) then Inl (- EINVAL)
         else Inr (path_kill_slashes
                (dir @ ''.#'' @ (case extra of None \<Rightarrow> [] | Some x \<Rightarrow> x) @ fn @ ''XXXXXX'')))"

section \<open>Components\<close>

function path_components :: "string \<Rightarrow> string list" where
  "path_components p =
     (let q = dropspan ''/'' p
      in if q = [] then []
         else take (strcspn q ''/'') q # path_components (drop (strcspn q ''/'') q))"
  by pat_completeness auto
termination
  by (relation "measure length") (use strcspn_slash_shorter in \<open>auto simp: Let_def\<close>)

declare path_components.simps [simp del]

lemma path_components_dropspan: "path_components (dropspan ''/'' p) = path_components p"
proof -
  have "dropspan ''/'' (dropspan ''/'' p) = dropspan ''/'' p"
    using dropspan_hd [of "''/''" p] by (intro dropspan_id) blast
  then show ?thesis by (subst (1 2) path_components.simps) (simp only: Let_def)
qed

lemma path_components_Nil: "path_components p = [] \<longleftrightarrow> dropspan ''/'' p = []"
  by (subst path_components.simps) (simp add: Let_def)

lemma path_components_Cons:
  "dropspan ''/'' p \<noteq> [] \<Longrightarrow>
     path_components p = take (strcspn (dropspan ''/'' p) ''/'') (dropspan ''/'' p) #
       path_components (drop (strcspn (dropspan ''/'' p) ''/'') (dropspan ''/'' p))"
  by (subst path_components.simps) (simp add: Let_def)

lemma strcspn_le: "strcspn p r \<le> length p"
  by (simp add: strcspn_def length_takeWhile_le)


lemma path_startswith_loop_prefix:
  "path_startswith_loop p q = Some r \<Longrightarrow> path_components p = path_components q @ path_components r"
proof (induction p q rule: path_startswith_loop.induct)
  case (1 p q)
  define p' where "p' = dropspan ''/'' p"
  define q' where "q' = dropspan ''/'' q"
  note unf = path_startswith_loop.simps [of p q, folded p'_def q'_def, unfolded Let_def]
  show ?case
  proof (cases "q' = []")
    case True
    with "1.prems" unf have "r = p'" by simp
    with True show ?thesis
      by (simp add: p'_def q'_def path_components_dropspan path_components_Nil [THEN iffD2])
  next
    case False
    with "1.prems" unf have pne: "p' \<noteq> []" and len: "strcspn p' ''/'' = strcspn q' ''/''"
      and eq: "take (strcspn p' ''/'') p' = take (strcspn p' ''/'') q'"
      and rest: "path_startswith_loop (drop (strcspn p' ''/'') p') (drop (strcspn q' ''/'') q') = Some r"
      by (auto split: if_splits)
    have "path_components (drop (strcspn p' ''/'') p') =
        path_components (drop (strcspn q' ''/'') q') @ path_components r"
      using "1.IH" [OF p'_def q'_def False pne refl refl] len eq rest by simp
    then show ?thesis
      using path_components_Cons [of p] path_components_Cons [of q] pne False len eq
      by (simp add: p'_def q'_def)
  qed
qed

lemma path_startswith_loop_complete:
  "path_components p = path_components q @ cs \<Longrightarrow>
     \<exists>r. path_startswith_loop p q = Some r \<and> path_components r = cs"
proof (induction p q rule: path_startswith_loop.induct)
  case (1 p q)
  define p' where "p' = dropspan ''/'' p"
  define q' where "q' = dropspan ''/'' q"
  note unf = path_startswith_loop.simps [of p q, folded p'_def q'_def, unfolded Let_def]
  show ?case
  proof (cases "q' = []")
    case True
    then have "path_components q = []" by (simp add: q'_def path_components_Nil)
    with True "1.prems" unf show ?thesis by (simp add: p'_def path_components_dropspan)
  next
    case False
    then have cq: "path_components q = take (strcspn q' ''/'') q' # path_components (drop (strcspn q' ''/'') q')"
      using path_components_Cons [of q] by (simp add: q'_def)
    with "1.prems" have pne: "p' \<noteq> []" using path_components_Nil [of p] by (auto simp: p'_def)
    then have cp: "path_components p = take (strcspn p' ''/'') p' # path_components (drop (strcspn p' ''/'') p')"
      using path_components_Cons [of p] by (simp add: p'_def)
    from cp cq "1.prems" have eq: "take (strcspn p' ''/'') p' = take (strcspn q' ''/'') q'"
      and rest: "path_components (drop (strcspn p' ''/'') p') = path_components (drop (strcspn q' ''/'') q') @ cs"
      by auto
    from arg_cong [OF eq, of length] have len: "strcspn p' ''/'' = strcspn q' ''/''"
      using strcspn_le [of p' "''/''"] strcspn_le [of q' "''/''"] by simp
    show ?thesis
      using "1.IH" [OF p'_def q'_def False pne refl refl] len eq rest unf False pne by simp
  qed
qed

text \<open>The order of the source: component by component, a proper prefix first.\<close>

fun components_compare :: "string list \<Rightarrow> string list \<Rightarrow> int" where
  "components_compare [] [] = 0"
| "components_compare [] (y # ys) = -1"
| "components_compare (x # xs) [] = 1"
| "components_compare (x # xs) (y # ys) =
     (if strcmp x y \<noteq> 0 then strcmp x y else components_compare xs ys)"

lemma strcmp_by_prefix:
  "strcmp a b =
     (let d = strcmp (take (min (length a) (length b)) a) (take (min (length a) (length b)) b)
      in if d \<noteq> 0 then d
         else (if length b < length a then 1 else 0) - (if length a < length b then 1 else 0))"
  by (induction a b rule: strcmp.induct) (auto simp: Let_def)

lemma path_compare_loop_components:
  "path_compare_loop a b = components_compare (path_components a) (path_components b)"
proof (induction a b rule: path_compare_loop.induct)
  case (1 a b)
  define p where "p = dropspan ''/'' a"
  define q where "q = dropspan ''/'' b"
  define x where "x = take (strcspn p ''/'') p"
  define y where "y = take (strcspn q ''/'') q"
  note unf = path_compare_loop.simps [of a b, folded p_def q_def, unfolded Let_def]
  show ?case
  proof (cases "p = [] \<or> q = []")
    case True
    then show ?thesis
      using unf path_components_Nil [of a] path_components_Nil [of b] p_def q_def
      by (cases "path_components a"; cases "path_components b") auto
  next
    case False
    have lx: "length x = strcspn p ''/''" and ly: "length y = strcspn q ''/''"
      by (simp_all add: x_def y_def strcspn_le min_absorb2)
    have ca: "path_components a = x # path_components (drop (strcspn p ''/'') p)"
      and cb: "path_components b = y # path_components (drop (strcspn q ''/'') q)"
      using path_components_Cons [of a] path_components_Cons [of b] False
      by (simp_all add: p_def q_def x_def y_def)
    have mem: "memcmp_sign p q (min (strcspn p ''/'') (strcspn q ''/'')) =
        strcmp (take (min (length x) (length y)) x) (take (min (length x) (length y)) y)"
      unfolding memcmp_sign_def lx ly by (simp add: x_def y_def min.commute)
    have rec: "path_compare_loop (drop (strcspn p ''/'') p) (drop (strcspn q ''/'') q) =
        components_compare (path_components (drop (strcspn p ''/'') p)) (path_components (drop (strcspn q ''/'') q))"
      if "strcmp x y = 0"
    proof -
      from that have "x = y" by simp
      then have "strcspn p ''/'' = strcspn q ''/''" using lx ly by simp
      then show ?thesis
        using "1.IH" [OF p_def q_def _ _ _ refl refl refl _ refl] False mem \<open>x = y\<close> by simp
    qed
    have "path_compare_loop a b =
        (if strcmp x y \<noteq> 0 then strcmp x y
         else path_compare_loop (drop (strcspn p ''/'') p) (drop (strcspn q ''/'') q))"
    proof -
      have s: "strcmp x y =
          (if memcmp_sign p q (min (strcspn p ''/'') (strcspn q ''/'')) \<noteq> 0
           then memcmp_sign p q (min (strcspn p ''/'') (strcspn q ''/''))
           else (if strcspn q ''/'' < strcspn p ''/'' then 1 else 0) -
                (if strcspn p ''/'' < strcspn q ''/'' then 1 else 0))"
        unfolding mem using strcmp_by_prefix [of x y] unfolding Let_def lx ly .
      show ?thesis unfolding s using unf False by (auto split: if_splits)
    qed
    with rec ca cb show ?thesis by simp
  qed
qed

lemma components_compare_0: "components_compare a b = 0 \<longleftrightarrow> a = b"
  by (induction a b rule: components_compare.induct) auto

lemma components_compare_antisym: "components_compare b a = - components_compare a b"
proof (induction a b rule: components_compare.induct)
  case (4 x xs y ys)
  then show ?case using strcmp_antisym [of x y] by simp
qed simp_all

section \<open>Redundant slashes do not matter\<close>

abbreviation not_slash :: "char \<Rightarrow> bool" where
  "not_slash c \<equiv> c \<noteq> CHR ''/''"

lemma path_components_slash: "path_components (CHR ''/'' # f) = path_components f"
  by (metis path_components_dropspan dropspan_Cons list.set_intros(1))

lemma path_components_word:
  "not_slash c \<Longrightarrow>
     path_components (c # f) = (c # takeWhile not_slash f) # path_components (dropWhile not_slash f)"
  by (subst path_components.simps)
    (simp add: dropspan_Cons strcspn_def takeWhile_eq_take [symmetric] dropWhile_eq_drop [symmetric])

lemma path_kill_slashes_loop_components:
  "path_components (fst (path_kill_slashes_loop f slash)) = path_components f \<and>
   (slash \<longrightarrow> fst (path_kill_slashes_loop f slash) = [] \<or> begins_slash (fst (path_kill_slashes_loop f slash))) \<and>
   (\<not> slash \<longrightarrow>
      takeWhile not_slash (fst (path_kill_slashes_loop f slash)) = takeWhile not_slash f \<and>
      path_components (dropWhile not_slash (fst (path_kill_slashes_loop f slash))) =
        path_components (dropWhile not_slash f))"
proof (induction f slash rule: path_kill_slashes_loop.induct)
  case (1 slash)
  then show ?case by simp
next
  case (2 c f slash)
  show ?case
  proof (cases "c = CHR ''/''")
    case True
    with "2.IH"(1) show ?thesis
      by (auto simp: path_components_slash begins_slash_def split: list.splits)
  next
    case False
    obtain t sl where t: "path_kill_slashes_loop f False = (t, sl)" by fastforce
    with "2.IH"(2) [OF False] have "takeWhile not_slash t = takeWhile not_slash f"
      "path_components (dropWhile not_slash t) = path_components (dropWhile not_slash f)" by auto
    with False t show ?thesis
      by (auto simp: path_components_slash path_components_word begins_slash_def)
  qed
qed

lemma path_kill_slashes_loop_absolute:
  "begins_slash (fst (path_kill_slashes_loop f slash)) \<or> fst (path_kill_slashes_loop f slash) = [] \<and> snd (path_kill_slashes_loop f slash) \<longleftrightarrow>
     slash \<or> begins_slash f"
  by (induction f slash rule: path_kill_slashes_loop.induct)
    (auto simp: begins_slash_def split: prod.splits)

lemma path_kill_slashes_components: "path_components (path_kill_slashes p) = path_components p"
  using path_kill_slashes_loop_components [of p False] path_components_slash [of "[]"]
  by (auto simp: path_kill_slashes_def split: prod.splits)

lemma path_kill_slashes_absolute: "begins_slash (path_kill_slashes p) = begins_slash p"
  using path_kill_slashes_loop_absolute [of p False]
  by (auto simp: path_kill_slashes_def begins_slash_def split: prod.splits)

lemma path_equal_iff: "path_equal a b \<longleftrightarrow> begins_slash a = begins_slash b \<and> path_components a = path_components b"
  by (auto simp: path_equal_def path_compare_def Let_def path_compare_loop_components components_compare_0)

lemma path_equal_kill_slashes: "path_equal (path_kill_slashes p) p"
  by (simp add: path_equal_iff path_kill_slashes_components path_kill_slashes_absolute)

text \<open>
  A path starts with another exactly when both are absolute or both relative and the components of the prefix are the first components of the path, however many slashes separate them.
\<close>

theorem path_startswith_iff:
  "(\<exists>r. path_startswith p q = Some r) \<longleftrightarrow>
     begins_slash p = begins_slash q \<and> (\<exists>cs. path_components p = path_components q @ cs)"
  using path_startswith_loop_prefix path_startswith_loop_complete
  by (simp add: path_startswith_def) blast

lemma path_kill_slashes_no_double: "\<not> contains_str (path_kill_slashes p) ''//''"
proof -
  have "\<not> contains_str (fst (path_kill_slashes_loop f sl)) ''//'' \<and>
      (\<not> sl \<longrightarrow> \<not> contains_str (CHR ''/'' # fst (path_kill_slashes_loop f False)) ''//'' \<or> begins_slash f)" for f sl
    by (induction f sl rule: path_kill_slashes_loop.induct)
      (auto simp: startswith_def begins_slash_def split: prod.splits)
  from this [of p False] show ?thesis
    by (cases "path_kill_slashes_loop p False") (auto simp: path_kill_slashes_def startswith_def)
qed

text \<open>
  C39.  \<open>path_compare\<close> is 0 exactly for paths with the same components, both absolute or both relative, and swapping the paths swaps the sign.
\<close>

theorem path_compare_order:
  "(path_compare a b = 0 \<longleftrightarrow> begins_slash a = begins_slash b \<and> path_components a = path_components b) \<and>
   path_compare b a = - path_compare a b"
proof -
  have "path_compare a b = 0 \<longleftrightarrow> path_equal a b" by (simp add: path_equal_def)
  moreover have "path_compare b a = - path_compare a b"
    by (auto simp: path_compare_def path_compare_loop_components components_compare_antisym [of "path_components b"])
  ultimately show ?thesis using path_equal_iff by simp
qed

text \<open>
  Removing redundant slashes keeps the path the same path, and leaves no empty component.
\<close>

theorem path_kill_slashes_normal:
  "path_equal (path_kill_slashes p) p \<and> \<not> contains_str (path_kill_slashes p) ''//''"
  using path_equal_kill_slashes path_kill_slashes_no_double by blast

end
