(* ===== verification/File_IO.thy ===== *)
theory File_IO
  imports Utf8 Path_Util
begin

text \<open>
  \<open>src/share/fileio.c\<close>: reading files and the parser of environment files
  (\<open>KEY=value\<close> lines with shell-like quoting), which reads the daemon's state file.
  What the stdio library delivers is an argument: the bytes of the open file, or the
  error of \<open>fopen\<close>.  The parser is a state machine over the characters of the file; each
  state of the \<open>switch\<close> is one step function.  Memory allocation does not fail.
\<close>

section \<open>Whole files\<close>

definition LINE_MAX :: nat where "LINE_MAX = 2048"

definition FILE_LIMIT :: nat where "FILE_LIMIT = 4 * 1024 * 1024"

text \<open>
  The loop of \<open>read_full_stream\<close>: \<open>n\<close> is the size of the buffer, \<open>buf\<close> what was read,
  \<open>rest\<close> the bytes left in the stream; \<open>fread\<close> fills the free part of the buffer.
\<close>

function read_full_loop :: "nat \<Rightarrow> string \<Rightarrow> string \<Rightarrow> string result" where
  "read_full_loop n buf rest =
     (let k = min (n - length buf) (length rest)
      in if k = 0 then Inr buf
         else if FILE_LIMIT < n * 2 then Inl (-7)
         else read_full_loop (n * 2) (buf @ take k rest) (drop k rest))"
  by pat_completeness auto
termination
  by (relation "measure (\<lambda>(n, buf, rest). length rest)") (auto simp: min_def split: if_splits)

declare read_full_loop.simps [simp del]

definition read_full_stream :: "nat option \<Rightarrow> string \<Rightarrow> string result" where
  \<comment> \<open>\<open>st_size\<close> is the size \<open>fstat\<close> reports for a regular file; 7 is \<open>E2BIG\<close>\<close>
  "read_full_stream st_size bytes =
     (case st_size of
        None \<Rightarrow> read_full_loop LINE_MAX [] bytes
      | Some s \<Rightarrow>
          if FILE_LIMIT < s then Inl (-7)
          else read_full_loop (if 0 < s then s else LINE_MAX) [] bytes)"

definition read_full_file :: "(nat option \<times> string) result \<Rightarrow> string result" where
  "read_full_file file =
     (case file of Inl r \<Rightarrow> Inl r | Inr (st_size, bytes) \<Rightarrow> read_full_stream st_size bytes)"

definition read_one_line_file :: "string result \<Rightarrow> string result" where
  "read_one_line_file file =
     (case file of
        Inl r \<Rightarrow> Inl r
      | Inr bytes \<Rightarrow>
          let t = (case fgets LINE_MAX bytes of None \<Rightarrow> [] | Some (l, _) \<Rightarrow> l)
          in Inr (truncate_nl (cstr t)))"

definition verify_file :: "string result \<Rightarrow> string \<Rightarrow> bool \<Rightarrow> int" where
  "verify_file file blob accept_extra_nl =
     (let l = length blob;
          accept = accept_extra_nl \<and> endswith blob ''\<newline>'' = None;
          extra = (if accept then 1 else 0)
      in case file of
           Inl r \<Rightarrow> r
         | Inr bytes \<Rightarrow>
             let buf = take (l + extra + 1) bytes; k = length buf
             in if k \<noteq> l \<and> k \<noteq> l + extra then 0
                else if take l buf \<noteq> blob then 0
                else if l < k \<and> buf ! l \<noteq> CHR ''\<newline>'' then 0
                else 1)"

definition write_string_stream :: "string \<Rightarrow> bool \<Rightarrow> string" where
  \<comment> \<open>the bytes put into the stream before it is flushed\<close>
  "write_string_stream line enforce_newline =
     line @ (if enforce_newline \<and> endswith line ''\<newline>'' = None then ''\<newline>'' else [])"

section \<open>The environment file parser\<close>

datatype env_mode = PRE_KEY | KEY | PRE_VALUE | VALUE | VALUE_ESCAPE | SINGLE_QUOTE_VALUE
  | SINGLE_QUOTE_VALUE_ESCAPE | DOUBLE_QUOTE_VALUE | DOUBLE_QUOTE_VALUE_ESCAPE | COMMENT | COMMENT_ESCAPE

text \<open>
  The local variables of \<open>parse_env_file_internal\<close>: \<open>ep_key\<close> is \<open>key[0..n_key)\<close>,
  \<open>ep_value\<close> is \<open>value[0..n_value)\<close> (\<open>None\<close>: the pointer is \<open>NULL\<close>); \<open>ep_lkw\<close> and \<open>ep_lvw\<close>
  are \<open>last_key_whitespace\<close> and \<open>last_value_whitespace\<close> (\<open>None\<close>: \<open>(size_t) -1\<close>);
  \<open>ep_user\<close> is what the callback writes to.
\<close>

record 'u env_parser =
  ep_mode :: env_mode
  ep_key :: string
  ep_value :: "string option"
  ep_lkw :: "nat option"
  ep_lvw :: "nat option"
  ep_line :: u32
  ep_user :: 'u

type_synonym 'u env_push = "u32 \<Rightarrow> string \<Rightarrow> string option \<Rightarrow> 'u \<Rightarrow> int \<times> 'u"
type_synonym 'u env_result = "(int \<times> 'u) + 'u env_parser"

definition ep_length :: "string option \<Rightarrow> nat" where
  "ep_length v = (case v of None \<Rightarrow> 0 | Some s \<Rightarrow> length s)"

definition ep_append :: "string option \<Rightarrow> char \<Rightarrow> string option" where
  "ep_append v c = Some ((case v of None \<Rightarrow> [] | Some s \<Rightarrow> s) @ [c])"

definition ep_truncate :: "nat option \<Rightarrow> string \<Rightarrow> string" where
  \<comment> \<open>\<open>if (last != (size_t) -1) s[last] = 0\<close>\<close>
  "ep_truncate w s = (case w of None \<Rightarrow> s | Some n \<Rightarrow> take n s)"

text \<open>The call of \<open>push\<close> at the end of an assignment, and the reset after it.\<close>

definition env_commit :: "'u env_push \<Rightarrow> nat option \<Rightarrow> 'u env_parser \<Rightarrow> 'u env_result" where
  "env_commit push lvw p =
     (let (r, u) = push (ep_line p) (ep_truncate (ep_lkw p) (ep_key p))
                     (map_option (ep_truncate lvw) (ep_value p)) (ep_user p)
      in if r < 0 then Inl (r, u)
         else Inr (p\<lparr>ep_key := [], ep_value := None, ep_user := u\<rparr>))"

definition env_pre_key :: "char \<Rightarrow> 'u env_parser \<Rightarrow> 'u env_parser" where
  "env_pre_key c p =
     (if c \<in> set COMMENTS then p\<lparr>ep_mode := COMMENT\<rparr>
      else if c \<notin> set WHITESPACE then p\<lparr>ep_mode := KEY, ep_lkw := None, ep_key := ep_key p @ [c]\<rparr>
      else p)"

definition env_key :: "string \<Rightarrow> char \<Rightarrow> 'u env_parser \<Rightarrow> 'u env_parser" where
  "env_key newline c p =
     (if c \<in> set newline then p\<lparr>ep_mode := PRE_KEY, ep_line := ep_line p + 1, ep_key := []\<rparr>
      else if c = CHR ''='' then p\<lparr>ep_mode := PRE_VALUE, ep_lvw := None\<rparr>
      else p\<lparr>ep_lkw := (if c \<notin> set WHITESPACE then None
                       else if ep_lkw p = None then Some (length (ep_key p)) else ep_lkw p),
             ep_key := ep_key p @ [c]\<rparr>)"

definition env_pre_value :: "'u env_push \<Rightarrow> string \<Rightarrow> char \<Rightarrow> 'u env_parser \<Rightarrow> 'u env_result" where
  "env_pre_value push newline c p =
     (if c \<in> set newline then env_commit push None (p\<lparr>ep_mode := PRE_KEY, ep_line := ep_line p + 1\<rparr>)
      else if c = CHR 0x27 then Inr (p\<lparr>ep_mode := SINGLE_QUOTE_VALUE\<rparr>)
      else if c = CHR 0x22 then Inr (p\<lparr>ep_mode := DOUBLE_QUOTE_VALUE\<rparr>)
      else if c = CHR 0x5C then Inr (p\<lparr>ep_mode := VALUE_ESCAPE\<rparr>)
      else if c \<notin> set WHITESPACE then Inr (p\<lparr>ep_mode := VALUE, ep_value := ep_append (ep_value p) c\<rparr>)
      else Inr p)"

definition env_value :: "'u env_push \<Rightarrow> string \<Rightarrow> char \<Rightarrow> 'u env_parser \<Rightarrow> 'u env_result" where
  "env_value push newline c p =
     (if c \<in> set newline then env_commit push (ep_lvw p) (p\<lparr>ep_mode := PRE_KEY, ep_line := ep_line p + 1\<rparr>)
      else if c = CHR 0x5C then Inr (p\<lparr>ep_mode := VALUE_ESCAPE, ep_lvw := None\<rparr>)
      else Inr (p\<lparr>ep_lvw := (if c \<notin> set WHITESPACE then None
                            else if ep_lvw p = None then Some (ep_length (ep_value p)) else ep_lvw p),
                  ep_value := ep_append (ep_value p) c\<rparr>))"

text \<open>The three escape states differ only in the state they return to.\<close>

definition env_escape :: "env_mode \<Rightarrow> string \<Rightarrow> char \<Rightarrow> 'u env_parser \<Rightarrow> 'u env_parser" where
  "env_escape back newline c p =
     (if c \<in> set newline then p\<lparr>ep_mode := back\<rparr>
      else p\<lparr>ep_mode := back, ep_value := ep_append (ep_value p) c\<rparr>)"

definition env_quoted :: "char \<Rightarrow> env_mode \<Rightarrow> char \<Rightarrow> 'u env_parser \<Rightarrow> 'u env_parser" where
  "env_quoted q esc c p =
     (if c = q then p\<lparr>ep_mode := PRE_VALUE\<rparr>
      else if c = CHR 0x5C then p\<lparr>ep_mode := esc\<rparr>
      else p\<lparr>ep_value := ep_append (ep_value p) c\<rparr>)"

definition env_comment :: "string \<Rightarrow> char \<Rightarrow> 'u env_parser \<Rightarrow> 'u env_parser" where
  "env_comment newline c p =
     (if c = CHR 0x5C then p\<lparr>ep_mode := COMMENT_ESCAPE\<rparr>
      else if c \<in> set newline then p\<lparr>ep_mode := PRE_KEY, ep_line := ep_line p + 1\<rparr>
      else p)"

definition env_step :: "'u env_push \<Rightarrow> string \<Rightarrow> char \<Rightarrow> 'u env_parser \<Rightarrow> 'u env_result" where
  "env_step push newline c p =
     (case ep_mode p of
        PRE_KEY \<Rightarrow> Inr (env_pre_key c p)
      | KEY \<Rightarrow> Inr (env_key newline c p)
      | PRE_VALUE \<Rightarrow> env_pre_value push newline c p
      | VALUE \<Rightarrow> env_value push newline c p
      | VALUE_ESCAPE \<Rightarrow> Inr (env_escape VALUE newline c p)
      | SINGLE_QUOTE_VALUE \<Rightarrow> Inr (env_quoted (CHR 0x27) SINGLE_QUOTE_VALUE_ESCAPE c p)
      | SINGLE_QUOTE_VALUE_ESCAPE \<Rightarrow> Inr (env_escape SINGLE_QUOTE_VALUE newline c p)
      | DOUBLE_QUOTE_VALUE \<Rightarrow> Inr (env_quoted (CHR 0x22) DOUBLE_QUOTE_VALUE_ESCAPE c p)
      | DOUBLE_QUOTE_VALUE_ESCAPE \<Rightarrow> Inr (env_escape DOUBLE_QUOTE_VALUE newline c p)
      | COMMENT \<Rightarrow> Inr (env_comment newline c p)
      | COMMENT_ESCAPE \<Rightarrow> Inr (p\<lparr>ep_mode := COMMENT\<rparr>))"

fun env_loop :: "'u env_push \<Rightarrow> string \<Rightarrow> string \<Rightarrow> 'u env_parser \<Rightarrow> 'u env_result" where
  "env_loop push newline [] p = Inr p"
| "env_loop push newline (c # cs) p =
     (case env_step push newline c p of Inl e \<Rightarrow> Inl e | Inr p' \<Rightarrow> env_loop push newline cs p')"

definition env_start :: "'u \<Rightarrow> 'u env_parser" where
  "env_start u = \<lparr>ep_mode = PRE_KEY, ep_key = [], ep_value = None, ep_lkw = None, ep_lvw = None,
     ep_line = 1, ep_user = u\<rparr>"

definition env_end :: "'u env_push \<Rightarrow> 'u env_parser \<Rightarrow> int \<times> 'u" where
  "env_end push p =
     (if ep_mode p \<in> {PRE_VALUE, VALUE, VALUE_ESCAPE, SINGLE_QUOTE_VALUE, SINGLE_QUOTE_VALUE_ESCAPE,
          DOUBLE_QUOTE_VALUE, DOUBLE_QUOTE_VALUE_ESCAPE}
      then case env_commit push (if ep_mode p = VALUE then ep_lvw p else None) p of
             Inl e \<Rightarrow> e
           | Inr p' \<Rightarrow> (0, ep_user p')
      else (0, ep_user p))"

definition parse_env_file_internal :: "string result \<Rightarrow> string \<Rightarrow> 'u env_push \<Rightarrow> 'u \<Rightarrow> int \<times> 'u" where
  "parse_env_file_internal contents newline push u =
     (case contents of
        Inl r \<Rightarrow> (r, u)
      | Inr bytes \<Rightarrow>
          case env_loop push newline (cstr bytes) (env_start u) of
            Inl e \<Rightarrow> e
          | Inr p \<Rightarrow> env_end push p)"

text \<open>
  The variable arguments of \<open>parse_env_file\<close>: the wanted keys, each with the pointer it
  sets, and the counter of the assignments made.
\<close>

type_synonym env_targets = "(string \<times> string option) list \<times> int"

fun env_assign :: "string \<Rightarrow> string option \<Rightarrow> (string \<times> string option) list \<Rightarrow> (string \<times> string option) list option" where
  "env_assign key v [] = None"
| "env_assign key v ((k, old) # ts) =
     (if key = k then Some ((k, v) # ts) else map_option (Cons (k, old)) (env_assign key v ts))"

definition parse_env_file_push :: "env_targets env_push" where
  "parse_env_file_push line key value u =
     (if \<not> utf8_is_valid key then (- EINVAL, u)
      else if (case value of None \<Rightarrow> False | Some v \<Rightarrow> \<not> utf8_is_valid v) then (- EINVAL, u)
      else case env_assign key value (fst u) of
             Some ts \<Rightarrow> (1, (ts, snd u + 1))
           | None \<Rightarrow> (0, u))"

definition parse_env_file :: "string result \<Rightarrow> string option \<Rightarrow> (string \<times> string option) list \<Rightarrow> int \<times> (string \<times> string option) list" where
  "parse_env_file contents newline targets =
     (let (r, (ts, n_pushed)) =
        parse_env_file_internal contents (case newline of None \<Rightarrow> NEWLINE | Some n \<Rightarrow> n)
          parse_env_file_push (targets, 0)
      in (if r < 0 then r else n_pushed, ts))"

section \<open>Reading back whole files\<close>

lemma read_full_loop_all:
  "length rest \<le> n - length buf \<Longrightarrow> length buf \<le> n \<Longrightarrow> 0 < n \<Longrightarrow> n * 2 \<le> FILE_LIMIT \<Longrightarrow>
     read_full_loop n buf rest = Inr (buf @ rest)"
proof -
  assume *: "length rest \<le> n - length buf" "length buf \<le> n" "0 < n" "n * 2 \<le> FILE_LIMIT"
  show ?thesis
  proof (cases "rest = []")
    case True
    then show ?thesis by (subst read_full_loop.simps) simp
  next
    case False
    with * have "read_full_loop n buf rest = read_full_loop (n * 2) (buf @ rest) []"
      by (subst read_full_loop.simps) (auto simp: Let_def)
    also have "\<dots> = Inr (buf @ rest)" by (subst read_full_loop.simps) simp
    finally show ?thesis .
  qed
qed

text \<open>A regular file comes back whole up to half of the intended limit, and never above it.\<close>

lemma read_full_stream_regular:
  "read_full_stream (Some (length bytes)) bytes =
     (if length bytes * 2 \<le> FILE_LIMIT then Inr bytes else Inl (-7))"
proof (cases "length bytes * 2 \<le> FILE_LIMIT")
  case True
  have "read_full_loop (if 0 < length bytes then length bytes else LINE_MAX) [] bytes = Inr ([] @ bytes)"
    by (rule read_full_loop_all) (use True in \<open>auto simp: LINE_MAX_def FILE_LIMIT_def\<close>)
  with True show ?thesis by (simp add: read_full_stream_def)
next
  case False
  then have "read_full_loop (length bytes) [] bytes = Inl (-7)"
    by (subst read_full_loop.simps) (auto simp: Let_def)
  with False show ?thesis by (auto simp: read_full_stream_def)
qed

section \<open>Runs of the parser\<close>

lemma env_loop_append:
  "env_loop push nl (a @ b) p =
     (case env_loop push nl a p of Inl e \<Rightarrow> Inl e | Inr p' \<Rightarrow> env_loop push nl b p')"
  by (induction a arbitrary: p) (auto split: sum.splits)

lemma env_comment_run:
  "ep_mode p = COMMENT \<Longrightarrow> \<forall>c\<in>set s. c \<notin> set nl \<and> c \<noteq> CHR 0x5C \<Longrightarrow> env_loop push nl s p = Inr p"
  by (induction s) (auto simp: env_step_def env_comment_def)

lemma env_key_run:
  "ep_mode p = KEY \<Longrightarrow> ep_lkw p = None \<Longrightarrow>
   \<forall>c\<in>set s. c \<notin> set nl \<and> c \<noteq> CHR ''='' \<and> c \<notin> set WHITESPACE \<Longrightarrow>
     env_loop push nl s p = Inr (p\<lparr>ep_key := ep_key p @ s\<rparr>)"
  by (induction s arbitrary: p) (auto simp: env_step_def env_key_def)

text \<open>Inside a value, the last white space is forgotten as soon as another character follows.\<close>

lemma env_value_run:
  "ep_mode p = VALUE \<Longrightarrow> ep_value p = Some v \<Longrightarrow>
   \<forall>c\<in>set s. c \<notin> set nl \<and> c \<noteq> CHR 0x5C \<Longrightarrow>
     \<exists>w. env_loop push nl s p = Inr (p\<lparr>ep_value := Some (v @ s), ep_lvw := w\<rparr>) \<and>
         (s = [] \<longrightarrow> w = ep_lvw p) \<and> (s \<noteq> [] \<longrightarrow> last s \<notin> set WHITESPACE \<longrightarrow> w = None)"
proof (induction s rule: rev_induct)
  case Nil
  then show ?case by (intro exI [of _ "ep_lvw p"]) simp
next
  case (snoc c s)
  then obtain w where w: "env_loop push nl s p = Inr (p\<lparr>ep_value := Some (v @ s), ep_lvw := w\<rparr>)"
    by auto
  let ?p = "p\<lparr>ep_value := Some (v @ s), ep_lvw := w\<rparr>"
  let ?w = "if c \<notin> set WHITESPACE then None else if w = None then Some (length (v @ s)) else w"
  have "env_step push nl c ?p = Inr (?p\<lparr>ep_lvw := ?w, ep_value := Some ((v @ s) @ [c])\<rparr>)"
    using snoc.prems by (simp add: env_step_def env_value_def ep_append_def ep_length_def)
  then have "env_loop push nl (s @ [c]) p = Inr (p\<lparr>ep_value := Some (v @ s @ [c]), ep_lvw := ?w\<rparr>)"
    by (simp add: env_loop_append w)
  then show ?case by (intro exI [of _ ?w]) simp
qed

definition plain_key :: "string \<Rightarrow> bool" where
  "plain_key k \<longleftrightarrow> k \<noteq> [] \<and> hd k \<notin> set COMMENTS \<and> (\<forall>c\<in>set k. c \<notin> set WHITESPACE \<and> c \<noteq> CHR ''='')"

definition plain_value :: "string \<Rightarrow> bool" where
  "plain_value v \<longleftrightarrow> v \<noteq> [] \<and> hd v \<notin> {CHR 0x27, CHR 0x22} \<and> hd v \<notin> set WHITESPACE \<and>
     last v \<notin> set WHITESPACE \<and> (\<forall>c\<in>set v. c \<notin> set NEWLINE \<and> c \<noteq> CHR 0x5C)"

definition env_line :: "string \<Rightarrow> string \<Rightarrow> string" where
  "env_line k v = k @ ''='' @ v @ ''\<newline>''"

definition env_ready :: "'u env_parser \<Rightarrow> bool" where
  "env_ready p \<longleftrightarrow> ep_mode p = PRE_KEY \<and> ep_key p = [] \<and> ep_value p = None"

lemma NEWLINE_WHITESPACE: "c \<in> set NEWLINE \<Longrightarrow> c \<in> set WHITESPACE"
  by (auto simp: char_class_defs)

text \<open>One plain assignment: the callback gets the key and the value as they were written.\<close>

lemma env_line_run:
  assumes k: "plain_key k" and v: "plain_value v" and p: "env_ready p"
  shows "env_loop push NEWLINE (env_line k v) p =
    (let (r, u) = push (ep_line p + 1) k (Some v) (ep_user p)
     in if r < 0 then Inl (r, u)
        else Inr (p\<lparr>ep_lkw := None, ep_lvw := None, ep_line := ep_line p + 1, ep_user := u\<rparr>))"
proof -
  obtain k0 ks where ks: "k = k0 # ks" using k by (cases k) (auto simp: plain_key_def)
  obtain v0 vs where vs: "v = v0 # vs" using v by (cases v) (auto simp: plain_value_def)
  define p1 where "p1 = p\<lparr>ep_mode := KEY, ep_lkw := None, ep_key := [k0]\<rparr>"
  define p2 where "p2 = p\<lparr>ep_mode := VALUE, ep_lkw := None, ep_lvw := None, ep_key := k, ep_value := Some [v0]\<rparr>"
  have "env_loop push NEWLINE [k0] p = Inr p1"
    using k p ks by (simp add: env_step_def env_pre_key_def env_ready_def plain_key_def p1_def)
  moreover have "env_loop push NEWLINE ks p1 = Inr (p1\<lparr>ep_key := k\<rparr>)"
    using k ks env_key_run [of p1 ks NEWLINE push] NEWLINE_WHITESPACE
    by (auto simp: p1_def plain_key_def)
  moreover have "env_loop push NEWLINE [CHR ''='', v0] (p1\<lparr>ep_key := k\<rparr>) = Inr p2"
    using v vs p by (simp add: p1_def p2_def env_step_def env_key_def env_pre_value_def plain_value_def
        env_ready_def ep_append_def NEWLINE_def)
  moreover obtain w where w: "env_loop push NEWLINE vs p2 = Inr (p2\<lparr>ep_value := Some v, ep_lvw := w\<rparr>)"
    and "w = None"
  proof -
    have "\<exists>w. env_loop push NEWLINE vs p2 = Inr (p2\<lparr>ep_value := Some ([v0] @ vs), ep_lvw := w\<rparr>) \<and>
         (vs = [] \<longrightarrow> w = ep_lvw p2) \<and> (vs \<noteq> [] \<longrightarrow> last vs \<notin> set WHITESPACE \<longrightarrow> w = None)"
      by (rule env_value_run) (use v vs in \<open>auto simp: p2_def plain_value_def\<close>)
    with that v vs show ?thesis by (cases "vs = []") (auto simp: plain_value_def p2_def)
  qed
  ultimately have "env_loop push NEWLINE (([k0] @ ks @ [CHR ''='', v0] @ vs) @ ''\<newline>'') p =
      env_loop push NEWLINE ''\<newline>'' (p2\<lparr>ep_value := Some v, ep_lvw := None\<rparr>)"
    by (simp only: env_loop_append sum.case)
  moreover have "([k0] @ ks @ [CHR ''='', v0] @ vs) @ ''\<newline>'' = env_line k v"
    by (simp add: env_line_def ks vs)
  moreover have "env_loop push NEWLINE ''\<newline>'' (p2\<lparr>ep_value := Some v, ep_lvw := None\<rparr>) =
    (let (r, u) = push (ep_line p + 1) k (Some v) (ep_user p)
     in if r < 0 then Inl (r, u)
        else Inr (p\<lparr>ep_lkw := None, ep_lvw := None, ep_line := ep_line p + 1, ep_user := u\<rparr>))"
    using p by (cases p) (auto simp: env_step_def env_value_def env_commit_def NEWLINE_def p2_def
        ep_truncate_def env_ready_def Let_def split: prod.splits)
  ultimately show ?thesis by (simp only:)
qed

lemma env_comment_line_run:
  assumes "env_ready p" and "\<forall>c\<in>set s. c \<notin> set NEWLINE \<and> c \<noteq> CHR 0x5C"
  shows "env_loop push NEWLINE (CHR ''#'' # s @ ''\<newline>'') p = Inr (p\<lparr>ep_line := ep_line p + 1\<rparr>)"
proof -
  have "env_loop push NEWLINE s (p\<lparr>ep_mode := COMMENT\<rparr>) = Inr (p\<lparr>ep_mode := COMMENT\<rparr>)"
    by (rule env_comment_run) (use assms(2) in simp_all)
  with assms(1) show ?thesis
    by (simp add: env_loop_append env_step_def env_pre_key_def env_comment_def env_ready_def COMMENTS_def NEWLINE_def)
qed

text \<open>The parser never leaves the file half read: it stops early only when the callback fails.\<close>

lemma env_step_fails: "env_step push nl c p = Inl (r, u) \<Longrightarrow> r < 0"
  by (auto simp: env_step_def env_pre_value_def env_value_def env_commit_def Let_def
      split: env_mode.splits if_splits prod.splits)

lemma env_loop_fails: "env_loop push nl s p = Inl (r, u) \<Longrightarrow> r < 0"
  by (induction s arbitrary: p) (auto split: sum.splits dest: env_step_fails)

end
