(* ===== verification/Conf_Parser.thy ===== *)
theory Conf_Parser
  imports Extract_Word Parse_Size File_IO
begin

text \<open>
  \<open>src/share/conf-parser.c\<close>: configuration files of \<open>key=value\<close> lines in sections, with
  continuation lines, comments and includes.  The object a setting is written to is the
  type parameter \<open>'u\<close>; a parser callback of the table, with the offset of the member it
  writes, is a function on it.  Messages about bad lines go to the log and are no part of the
  model; memory allocation does not fail.
\<close>

section \<open>Tables of settings\<close>

text \<open>What a callback gets from the parser: the names for its messages, the key and the value.\<close>

record assignment =
  as_filename :: string
  as_line :: u32
  as_section :: "string option"
  as_section_line :: u32
  as_lvalue :: string
  as_rvalue :: string

type_synonym 'u callback = "assignment \<Rightarrow> 'u \<Rightarrow> (int \<times> 'u) outcome"

record 'u ConfigTableItem =
  ti_section :: "string option"
  ti_lvalue :: string
  ti_parse :: "'u callback option"

type_synonym 'u config_lookup = "string option \<Rightarrow> string \<Rightarrow> 'u callback option option"

fun config_item_table_lookup :: "'u ConfigTableItem list \<Rightarrow> 'u config_lookup" where
  \<comment> \<open>\<open>None\<close>: the key is not in the table\<close>
  "config_item_table_lookup [] section lvalue = None"
| "config_item_table_lookup (t # table) section lvalue =
     (if lvalue = ti_lvalue t \<and> streq_ptr section (ti_section t) then Some (ti_parse t)
      else config_item_table_lookup table section lvalue)"

definition config_item_perf_lookup :: "(string \<Rightarrow> 'u callback option option) \<Rightarrow> 'u config_lookup" where
  \<comment> \<open>the argument is the function that \<open>gperf\<close> generates for a table\<close>
  "config_item_perf_lookup lookup section lvalue =
     (case section of
        None \<Rightarrow> lookup lvalue
      | Some s \<Rightarrow> lookup (strjoin [Some s, Some ''.'', Some lvalue, None]))"

section \<open>One line\<close>

record conf_section =
  cs_section :: "string option"
  cs_section_line :: u32
  cs_section_ignored :: bool

definition next_assignment :: "'u config_lookup \<Rightarrow> string \<Rightarrow> u32 \<Rightarrow> conf_section \<Rightarrow> string \<Rightarrow> string \<Rightarrow> 'u \<Rightarrow> (int \<times> 'u) outcome" where
  "next_assignment lookup filename line cs lvalue rvalue u =
     c_assert (0 < line)
      (case lookup (cs_section cs) lvalue of
         Some (Some func) \<Rightarrow>
           func \<lparr>as_filename = filename, as_line = line, as_section = cs_section cs,
                 as_section_line = cs_section_line cs, as_lvalue = lvalue, as_rvalue = rvalue\<rparr> u
       | Some None \<Rightarrow> Ret (0, u)
       | None \<Rightarrow> Ret (0, u))"

definition parse_section :: "string option \<Rightarrow> u32 \<Rightarrow> string \<Rightarrow> conf_section \<Rightarrow> int \<times> conf_section" where
  \<comment> \<open>a line that starts with an opening bracket\<close>
  "parse_section sections line l cs =
     (if last l \<noteq> CHR '']'' then (- EBADMSG, cs)
      else let n = take (length l - 2) (tl l)
           in if sections \<noteq> None \<and> \<not> nulstr_contains sections n
              then (0, \<lparr>cs_section = None, cs_section_line = 0, cs_section_ignored = True\<rparr>)
              else (0, \<lparr>cs_section = Some n, cs_section_line = line, cs_section_ignored = False\<rparr>))"

definition parse_line :: "(string \<Rightarrow> 'u \<Rightarrow> (int \<times> 'u) outcome) option \<Rightarrow> string option \<Rightarrow> 'u config_lookup \<Rightarrow> string \<Rightarrow> u32 \<Rightarrow>
    string \<Rightarrow> conf_section \<Rightarrow> 'u \<Rightarrow> (int \<times> conf_section \<times> 'u) outcome" where
  \<comment> \<open>\<open>include\<close> parses an included file, \<open>None\<close> when \<open>allow_include\<close> is false\<close>
  "parse_line include sections lookup filename line l0 cs u =
     c_assert (0 < line)
      (let l = strstrip l0
       in if l = [] then Ret (0, cs, u)
          else if hd l \<in> set (COMMENTS @ ''\<newline>'') then Ret (0, cs, u)
          else (case startswith l ''.include '' of
            Some fn \<Rightarrow>
              (case include of
                 None \<Rightarrow> Ret (0, cs, u)
               | Some inc \<Rightarrow> obind (inc (file_in_same_dir filename (strstrip fn)) u) (\<lambda>(r, u). Ret (r, cs, u)))
          | None \<Rightarrow>
              if hd l = CHR ''['' then
                (let (r, cs) = parse_section sections line l cs in Ret (r, cs, u))
              else if sections \<noteq> None \<and> cs_section cs = None then Ret (0, cs, u)
              else (case strchr l CHR ''='' of
                     None \<Rightarrow> Ret (- EINVAL, cs, u)
                   | Some e \<Rightarrow>
                       obind (next_assignment lookup filename line cs
                           (strstrip (take (length l - length e) l)) (strstrip (tl e)) u)
                         (\<lambda>(r, u). Ret (r, cs, u)))))"

section \<open>One file\<close>

text \<open>What \<open>fopen\<close> and \<open>fgets\<close> deliver: the bytes of the file, and the error that ends the reading, if any.\<close>

type_synonym conf_stream = "string \<times> int option"

definition UTF8_BYTE_ORDER_MARK :: string where
  "UTF8_BYTE_ORDER_MARK = [CHR 0xEF, CHR 0xBB, CHR 0xBF]"

fun line_escaped :: "bool \<Rightarrow> string \<Rightarrow> bool" where
  \<comment> \<open>whether the last character is a backslash that is not itself escaped\<close>
  "line_escaped escaped [] = escaped"
| "line_escaped escaped (c # s) = line_escaped (\<not> escaped \<and> c = CHR 0x5C) s"

definition read_line :: "conf_stream \<Rightarrow> (string \<times> string) option result" where
  \<comment> \<open>\<open>fgets\<close> into a buffer of \<open>LINE_MAX\<close> bytes; an error discards the line it interrupts\<close>
  "read_line f =
     (let (bytes, err) = f; got = fgets LINE_MAX bytes
      in case err of
           None \<Rightarrow> Inr got
         | Some e \<Rightarrow>
             (case got of
                None \<Rightarrow> Inl (- e)
              | Some (l, rest) \<Rightarrow> if rest = [] \<and> last l \<noteq> CHR ''\<newline>'' \<and> length l < LINE_MAX - 1 then Inl (- e) else Inr got))"

definition line_text :: "bool \<Rightarrow> string option \<Rightarrow> string \<Rightarrow> string" where
  \<comment> \<open>the line without byte order mark and newline, appended to the lines it continues\<close>
  "line_text allow_bom continuation buf =
     (let b = cstr buf;
          l = (if allow_bom then (case startswith b UTF8_BYTE_ORDER_MARK of Some r \<Rightarrow> r | None \<Rightarrow> b) else b);
          l = truncate_nl l
      in case continuation of None \<Rightarrow> l | Some c \<Rightarrow> strappend (Some c) (Some l))"

lemma read_line_shorter: "read_line f = Inr (Some (l, rest)) \<Longrightarrow> length rest < length (fst f)"
  using fgets_shorter [of LINE_MAX "fst f" l rest]
  by (auto simp: read_line_def LINE_MAX_def Let_def split: prod.splits option.splits if_splits)

function config_parse_loop :: "(string \<Rightarrow> 'u \<Rightarrow> (int \<times> 'u) outcome) option \<Rightarrow> string option \<Rightarrow> 'u config_lookup \<Rightarrow> string \<Rightarrow>
    conf_stream \<Rightarrow> bool \<Rightarrow> string option \<Rightarrow> u32 \<Rightarrow> conf_section \<Rightarrow> 'u \<Rightarrow> (int \<times> 'u) outcome" where
  "config_parse_loop include sections lookup filename f allow_bom continuation line cs u =
     (case read_line f of
        Inl r \<Rightarrow> Ret (r, u)
      | Inr None \<Rightarrow> Ret (0, u)
      | Inr (Some (buf, rest)) \<Rightarrow>
          let p = line_text allow_bom continuation buf
          in if line_escaped False p
             then config_parse_loop include sections lookup filename (rest, snd f) False (Some (butlast p @ '' '')) line cs u
             else obind (parse_line include sections lookup filename (line + 1) p cs u) (\<lambda>(r, cs, u).
                    if r < 0 then Ret (r, u)
                    else config_parse_loop include sections lookup filename (rest, snd f) False None (line + 1) cs u))"
  by pat_completeness auto

termination config_parse_loop
  by (relation "measure (\<lambda>(include, sections, lookup, filename, f, allow_bom, continuation, line, cs, u). length (fst f))")
    (auto dest: read_line_shorter)

declare config_parse_loop.simps [simp del]

definition no_section :: conf_section where
  "no_section = \<lparr>cs_section = None, cs_section_line = 0, cs_section_ignored = False\<rparr>"

text \<open>
  \<open>fopen\<close> is an argument: it may change the state of the world that \<open>'u\<close> carries.  An included
  file is parsed with \<open>allow_include\<close> false, so the recursion of the code ends after one level.
\<close>

type_synonym 'u conf_open = "string \<Rightarrow> 'u \<Rightarrow> conf_stream result \<times> 'u"

definition config_parse_opened :: "(string \<Rightarrow> 'u \<Rightarrow> (int \<times> 'u) outcome) option \<Rightarrow> 'u conf_open \<Rightarrow> string option \<Rightarrow> 'u config_lookup \<Rightarrow>
    string \<Rightarrow> 'u \<Rightarrow> (int \<times> 'u) outcome" where
  "config_parse_opened include fopen sections lookup filename u =
     (case fopen filename u of
        (Inl r, u) \<Rightarrow> Ret (if r = - ENOENT then 0 else r, u)
      | (Inr f, u) \<Rightarrow> config_parse_loop include sections lookup filename f True None 0 no_section u)"

definition config_parse :: "bool \<Rightarrow> 'u conf_open \<Rightarrow> string option \<Rightarrow> 'u config_lookup \<Rightarrow> string \<Rightarrow> 'u \<Rightarrow> (int \<times> 'u) outcome" where
  "config_parse allow_include fopen sections lookup filename u =
     config_parse_opened (if allow_include then Some (config_parse_opened None fopen sections lookup) else None)
       fopen sections lookup filename u"

fun config_parse_files :: "'u conf_open \<Rightarrow> string option \<Rightarrow> 'u config_lookup \<Rightarrow> string list \<Rightarrow> 'u \<Rightarrow> (int \<times> 'u) outcome" where
  "config_parse_files fopen sections lookup [] u = Ret (0, u)"
| "config_parse_files fopen sections lookup (fn # files) u =
     obind (config_parse False fopen sections lookup fn u) (\<lambda>(r, u).
       if r < 0 then Ret (r, u) else config_parse_files fopen sections lookup files u)"

definition config_parse_many :: "('u \<Rightarrow> string list result \<times> 'u) \<Rightarrow> 'u conf_open \<Rightarrow> string option \<Rightarrow> string option \<Rightarrow> 'u config_lookup \<Rightarrow>
    'u \<Rightarrow> (int \<times> 'u) outcome" where
  \<comment> \<open>\<open>list_files\<close> is the call of \<open>conf_files_list_nulstr\<close> with the directories\<close>
  "config_parse_many list_files fopen conf_file sections lookup u =
     (case list_files u of
        (Inl r, u) \<Rightarrow> Ret (r, u)
      | (Inr files, u) \<Rightarrow>
          (case conf_file of
             None \<Rightarrow> config_parse_files fopen sections lookup files u
           | Some cf \<Rightarrow>
               obind (config_parse False fopen sections lookup cf u) (\<lambda>(r, u).
                 if r < 0 then Ret (r, u) else config_parse_files fopen sections lookup files u)))"

section \<open>Parsers of single values\<close>

text \<open>\<open>set\<close> writes the member that the table names; a value that does not parse is ignored.\<close>

definition config_parse_string :: "(string option \<Rightarrow> 'u \<Rightarrow> 'u) \<Rightarrow> 'u callback" where
  "config_parse_string upd a u =
     (if \<not> utf8_is_valid (as_rvalue a) then Ret (0, u)
      else Ret (0, upd (if isempty (Some (as_rvalue a)) then None else Some (as_rvalue a)) u))"

definition config_parse_bool :: "int \<Rightarrow> (bool \<Rightarrow> 'u \<Rightarrow> 'u) \<Rightarrow> 'u callback" where
  \<comment> \<open>8 is \<open>ENOEXEC\<close>\<close>
  "config_parse_bool ltype upd a u =
     (let k = parse_boolean (as_rvalue a)
      in if k < 0 then Ret (if ltype \<noteq> 0 then -8 else 0, u) else Ret (0, upd (k \<noteq> 0) u))"

definition config_parse_iec_size :: "float_ops \<Rightarrow> (u64 \<Rightarrow> 'u \<Rightarrow> 'u) \<Rightarrow> 'u callback" where
  \<comment> \<open>\<open>size_t\<close> has 64 bits, so the value always fits\<close>
  "config_parse_iec_size ops upd a u =
     obind (parse_size ops (as_rvalue a) 1024) (\<lambda>r.
       case r of Inl _ \<Rightarrow> Ret (0, u) | Inr v \<Rightarrow> Ret (0, upd v u))"

definition config_parse_ptr :: "(string \<Rightarrow> 'v result) \<Rightarrow> ('v \<Rightarrow> 'u \<Rightarrow> 'u) \<Rightarrow> 'u callback" where
  \<comment> \<open>the body of \<open>DEFINE_CONFIG_PARSE_PTR\<close>\<close>
  "config_parse_ptr parse upd a u =
     (case parse (as_rvalue a) of Inl _ \<Rightarrow> Ret (0, u) | Inr v \<Rightarrow> Ret (0, upd v u))"

definition config_parse_sec :: "(usec \<Rightarrow> 'u \<Rightarrow> 'u) \<Rightarrow> 'u callback" where
  "config_parse_sec = config_parse_ptr parse_sec"

definition config_parse_unsigned :: "(u32 \<Rightarrow> 'u \<Rightarrow> 'u) \<Rightarrow> 'u callback" where
  "config_parse_unsigned = config_parse_ptr safe_atou"

section \<open>Logical lines\<close>

text \<open>The lines of a file as the parser sees them, without reading or parsing errors.\<close>

function conf_lines :: "bool \<Rightarrow> string option \<Rightarrow> string \<Rightarrow> string list" where
  "conf_lines allow_bom continuation bytes =
     (case fgets LINE_MAX bytes of
        None \<Rightarrow> []
      | Some (buf, rest) \<Rightarrow>
          let p = line_text allow_bom continuation buf
          in if line_escaped False p then conf_lines False (Some (butlast p @ '' '')) rest
             else p # conf_lines False None rest)"
  by pat_completeness auto

termination conf_lines
  by (relation "measure (\<lambda>(allow_bom, continuation, bytes). length bytes)")
    (auto dest: fgets_shorter simp: LINE_MAX_def)

declare conf_lines.simps [simp del]

fun parse_lines :: "(string \<Rightarrow> 'u \<Rightarrow> (int \<times> 'u) outcome) option \<Rightarrow> string option \<Rightarrow> 'u config_lookup \<Rightarrow> string \<Rightarrow>
    u32 \<Rightarrow> string list \<Rightarrow> conf_section \<Rightarrow> 'u \<Rightarrow> (int \<times> 'u) outcome" where
  "parse_lines include sections lookup filename line [] cs u = Ret (0, u)"
| "parse_lines include sections lookup filename line (l # ls) cs u =
     obind (parse_line include sections lookup filename (line + 1) l cs u) (\<lambda>(r, cs, u).
       if r < 0 then Ret (r, u) else parse_lines include sections lookup filename (line + 1) ls cs u)"

lemma config_parse_loop_lines:
  "config_parse_loop include sections lookup filename (bytes, None) allow_bom continuation line cs u =
     parse_lines include sections lookup filename line (conf_lines allow_bom continuation bytes) cs u"
proof (induction allow_bom continuation bytes arbitrary: line cs u rule: conf_lines.induct)
  case (1 allow_bom continuation bytes)
  show ?case
  proof (cases "fgets LINE_MAX bytes")
    case None
    then show ?thesis by (simp add: config_parse_loop.simps conf_lines.simps read_line_def)
  next
    case (Some v)
    obtain buf rest where v: "v = (buf, rest)" by fastforce
    define p where "p = line_text allow_bom continuation buf"
    have r: "read_line (bytes, None) = Inr (Some (buf, rest))" using Some v by (simp add: read_line_def)
    show ?thesis
    proof (cases "line_escaped False p")
      case True
      then show ?thesis
        using "1.IH"(1) [OF Some v [symmetric] p_def True] Some v r
        by (simp add: config_parse_loop.simps [of _ _ _ _ "(bytes, None)"] conf_lines.simps [of _ _ bytes] Let_def p_def)
    next
      case False
      then show ?thesis
        using "1.IH"(2) [OF Some v [symmetric] p_def False] Some v r
        by (auto simp: config_parse_loop.simps [of _ _ _ _ "(bytes, None)"] conf_lines.simps [of _ _ bytes] Let_def p_def
            intro!: obind_cong)
    qed
  qed
qed

section \<open>Files written line by line\<close>

definition bom_free :: "string \<Rightarrow> bool" where
  "bom_free l \<longleftrightarrow> startswith l UTF8_BYTE_ORDER_MARK = None"

definition conf_line :: "string \<Rightarrow> bool" where
  "conf_line l \<longleftrightarrow> length l < LINE_MAX - 1 \<and> bom_free l \<and> (\<forall>c\<in>set l. c \<notin> {CHR ''\<newline>'', CHR 0x0D, CHR 0x00})"

lemma fgets_line: "CHR ''\<newline>'' \<notin> set l \<Longrightarrow> length l < n - 1 \<Longrightarrow> fgets n (l @ ''\<newline>'' @ rest) = Some (l @ ''\<newline>'', rest)"
proof -
  assume l: "CHR ''\<newline>'' \<notin> set l" "length l < n - 1"
  then have "takeWhile (\<lambda>c. c \<noteq> CHR ''\<newline>'') (l @ ''\<newline>'' @ rest) = l"
    by (induction l) auto
  moreover have "min (n - 1) (Suc (length l)) = Suc (length l)" using l(2) by simp
  ultimately show ?thesis by (simp add: fgets_def)
qed

lemma conf_line_fgets: "conf_line l \<Longrightarrow> fgets LINE_MAX (l @ ''\<newline>'' @ rest) = Some (l @ ''\<newline>'', rest)"
  by (rule fgets_line) (auto simp: conf_line_def)

lemma takeWhile_not_in: "\<forall>c\<in>set l. c \<notin> A \<Longrightarrow> y \<in> A \<Longrightarrow> takeWhile (\<lambda>c. c \<notin> A) (l @ y # ys) = l"
  by (simp add: takeWhile_tail)

lemma line_text_line:
  assumes "conf_line l"
  shows "line_text allow_bom continuation (l @ ''\<newline>'') = (case continuation of None \<Rightarrow> l | Some c \<Rightarrow> c @ l)"
proof -
  have nul: "cstr (l @ ''\<newline>'') = l @ ''\<newline>''"
    using assms by (auto simp: cstr_def conf_line_def takeWhile_eq_all_conv)
  have nl: "truncate_nl (l @ ''\<newline>'') = l"
  proof -
    have "takeWhile (\<lambda>c. c \<notin> set NEWLINE) (l @ ''\<newline>'') = l"
      using assms by (intro takeWhile_not_in) (auto simp: conf_line_def NEWLINE_def)
    then have "strcspn (l @ ''\<newline>'') NEWLINE = length l" by (simp add: strcspn_def)
    then show ?thesis by (simp add: truncate_nl_def)
  qed
  have bom: "startswith (l @ ''\<newline>'') UTF8_BYTE_ORDER_MARK = None"
  proof (rule ccontr)
    assume "\<not> ?thesis"
    then obtain r where r: "l @ ''\<newline>'' = UTF8_BYTE_ORDER_MARK @ r" by (auto simp: startswith_None)
    then have "r \<noteq> []" by (auto simp: UTF8_BYTE_ORDER_MARK_def)
    then have "l = UTF8_BYTE_ORDER_MARK @ butlast r"
      using arg_cong [OF r, of butlast] by (simp add: butlast_append)
    then show False using assms by (auto simp: conf_line_def bom_free_def startswith_None)
  qed
  show ?thesis
    using nul nl bom by (simp add: line_text_def Let_def strappend_def strnappend_def split: option.splits)
qed

lemma conf_lines_Nil [simp]: "conf_lines allow_bom continuation [] = []"
  by (simp add: conf_lines.simps fgets_def)

lemma conf_lines_Cons:
  assumes "conf_line l" "\<not> line_escaped False l"
  shows "conf_lines allow_bom None (l @ ''\<newline>'' @ rest) = l # conf_lines False None rest"
  using conf_line_fgets [OF assms(1)] assms(2) line_text_line [OF assms(1), of allow_bom None]
  by (simp add: conf_lines.simps [of _ _ "l @ CHR ''\<newline>'' # rest"])

lemma line_escaped_append: "line_escaped b (s @ t) = line_escaped (line_escaped b s) t"
  by (induction s arbitrary: b) simp_all

lemma conf_lines_continued:
  assumes "conf_line (l @ [CHR 0x5C])" "\<not> line_escaped False l" "conf_line k" "\<not> line_escaped False (l @ '' '' @ k)"
  shows "conf_lines allow_bom None (l @ [CHR 0x5C] @ ''\<newline>'' @ k @ ''\<newline>'' @ rest) = (l @ '' '' @ k) # conf_lines False None rest"
proof -
  have "line_escaped False (l @ [CHR 0x5C])" using assms(2) by (simp add: line_escaped_append)
  then have "conf_lines allow_bom None ((l @ [CHR 0x5C]) @ ''\<newline>'' @ k @ ''\<newline>'' @ rest) =
      conf_lines False (Some (l @ '' '')) (k @ ''\<newline>'' @ rest)"
    using conf_line_fgets [OF assms(1), of "k @ ''\<newline>'' @ rest"] line_text_line [OF assms(1), of allow_bom None]
    by (subst conf_lines.simps) simp
  also have "\<dots> = (l @ '' '' @ k) # conf_lines False None rest"
    using conf_line_fgets [OF assms(3)] assms(4) line_text_line [OF assms(3), of False "Some (l @ '' '')"]
    by (subst conf_lines.simps) simp
  finally show ?thesis by simp
qed

lemma conf_lines_unfinished:
  assumes "conf_line (l @ [CHR 0x5C])" "\<not> line_escaped False l"
  shows "conf_lines allow_bom None (l @ [CHR 0x5C] @ ''\<newline>'') = []"
proof -
  have "line_escaped False (l @ [CHR 0x5C])" using assms(2) by (simp add: line_escaped_append)
  then have "conf_lines allow_bom None ((l @ [CHR 0x5C]) @ ''\<newline>'' @ []) = conf_lines False (Some (l @ '' '')) []"
    using conf_line_fgets [OF assms(1), of "[]"] line_text_line [OF assms(1), of allow_bom None]
    by (subst conf_lines.simps) simp
  then show ?thesis by simp
qed

definition setting_key :: "string \<Rightarrow> bool" where
  "setting_key k \<longleftrightarrow> k \<noteq> [] \<and> (\<forall>c\<in>set k. ascii_isalpha c \<or> ascii_isdigit c)"

definition setting_value :: "string \<Rightarrow> bool" where
  "setting_value v \<longleftrightarrow> strstrip v = v \<and> \<not> line_escaped False v \<and> (\<forall>c\<in>set v. c \<notin> {CHR ''\<newline>'', CHR 0x0D, CHR 0x00})"

definition setting_line :: "string \<times> string \<Rightarrow> string" where
  "setting_line = (\<lambda>(k, v). k @ ''='' @ v)"

definition conf_text :: "string \<Rightarrow> (string \<times> string) list \<Rightarrow> string" where
  "conf_text section kvs = ''['' @ section @ '']'' @ ''\<newline>'' @ concat (map (\<lambda>kv. setting_line kv @ ''\<newline>'') kvs)"

definition setting_ok :: "string \<times> string \<Rightarrow> bool" where
  "setting_ok kv \<longleftrightarrow> setting_key (fst kv) \<and> setting_value (snd kv) \<and> length (setting_line kv) < LINE_MAX - 1"

fun apply_settings :: "'u config_lookup \<Rightarrow> string \<Rightarrow> conf_section \<Rightarrow> u32 \<Rightarrow> (string \<times> string) list \<Rightarrow> 'u \<Rightarrow> (int \<times> 'u) outcome" where
  "apply_settings lookup filename cs line [] u = Ret (0, u)"
| "apply_settings lookup filename cs line ((k, v) # kvs) u =
     obind (next_assignment lookup filename (line + 1) cs k v u) (\<lambda>(r, u).
       if r < 0 then Ret (r, u) else apply_settings lookup filename cs (line + 1) kvs u)"

lemma alnum_not_special:
  "ascii_isalpha c \<or> ascii_isdigit c \<Longrightarrow>
     c \<notin> set WHITESPACE \<and> c \<notin> set COMMENTS \<and> c \<notin> {CHR ''\<newline>'', CHR 0x0D, CHR 0x00, CHR 0x5C, CHR ''='', CHR ''['', CHR ''.'', CHR 0xEF}"
  by (auto simp: ascii_isalpha_def ascii_isdigit_def char_code_def char_class_defs)

lemma line_escaped_plain: "CHR 0x5C \<notin> set k \<Longrightarrow> line_escaped b k \<longleftrightarrow> k = [] \<and> b"
  by (induction k arbitrary: b) auto

lemma setting_hd:
  assumes "setting_key k"
  shows "\<exists>c k'. k = c # k' \<and> c \<notin> set WHITESPACE \<and> c \<notin> set COMMENTS \<and> c \<notin> {CHR ''\<newline>'', CHR ''['', CHR ''.'', CHR 0xEF}"
  using assms alnum_not_special by (cases k) (auto simp: setting_key_def)

lemma setting_line_conf:
  assumes "setting_ok (k, v)"
  shows "conf_line (setting_line (k, v))" "\<not> line_escaped False (setting_line (k, v))"
proof -
  obtain c k' where k: "k = c # k'" "c \<noteq> CHR 0xEF"
    using setting_hd [of k] assms by (auto simp: setting_ok_def)
  have a: "\<forall>c\<in>set k. c \<notin> {CHR ''\<newline>'', CHR 0x0D, CHR 0x00, CHR 0x5C}"
    using assms alnum_not_special by (auto simp: setting_ok_def setting_key_def)
  have "bom_free (setting_line (k, v))"
    using k by (auto simp: bom_free_def setting_line_def startswith_None UTF8_BYTE_ORDER_MARK_def)
  then show "conf_line (setting_line (k, v))"
    using assms a by (auto simp: conf_line_def setting_ok_def setting_line_def setting_value_def)
  have "\<not> line_escaped False (k @ ''='')" using a line_escaped_plain [of "k @ ''=''" False] by auto
  then show "\<not> line_escaped False (setting_line (k, v))"
    using assms line_escaped_append [of False "k @ ''=''" v] by (simp add: setting_line_def setting_ok_def setting_value_def)
qed

lemma strstrip_setting:
  assumes "setting_key k" "strstrip v = v"
  shows "strstrip (k @ ''='' @ v) = k @ ''='' @ v" "strstrip k = k"
proof -
  have hd: "hd k \<notin> set WHITESPACE" and ne: "k \<noteq> []" using setting_hd [OF assms(1)] by auto
  have "last k \<notin> set WHITESPACE"
    using assms(1) alnum_not_special last_in_set [OF ne] unfolding setting_key_def by blast
  then show "strstrip k = k" using hd by (intro strstrip_id) simp
  have "v = [] \<or> last v \<notin> set WHITESPACE" using strstrip_trimmed [of v] assms(2) by auto
  then have "last (k @ ''='' @ v) \<notin> set WHITESPACE" by (cases "v = []") (auto simp: WHITESPACE_def)
  then show "strstrip (k @ ''='' @ v) = k @ ''='' @ v" using hd ne by (intro strstrip_id) simp
qed

lemma parse_line_setting:
  assumes "setting_key k" "strstrip v = v" "sections = None \<or> cs_section cs \<noteq> None"
  shows "parse_line include sections lookup filename line (setting_line (k, v)) cs u =
    obind (next_assignment lookup filename line cs k v u) (\<lambda>(r, u). Ret (r, cs, u))"
proof -
  obtain c k' where k: "k = c # k'" "c \<notin> set COMMENTS" "c \<notin> {CHR ''\<newline>'', CHR ''['', CHR ''.''}"
    using setting_hd [OF assms(1)] by auto
  have "CHR ''='' \<notin> set k" using assms(1) alnum_not_special by (auto simp: setting_key_def)
  then have eq: "strchr (k @ ''='' @ v) CHR ''='' = Some (''='' @ v)" using strchr_append by simp
  have inc: "startswith (k @ ''='' @ v) ''.include '' = None" using k by (auto simp: startswith_None)
  show ?thesis
    using assms k eq inc strstrip_setting [OF assms(1,2)]
    by (cases "0 < line") (auto simp: parse_line_def setting_line_def next_assignment_def)
qed

lemma parse_lines_settings:
  assumes "list_all setting_ok kvs" "sections = None \<or> cs_section cs \<noteq> None"
  shows "parse_lines include sections lookup filename line (map setting_line kvs) cs u =
    apply_settings lookup filename cs line kvs u"
  using assms(1)
proof (induction kvs arbitrary: line u)
  case (Cons kv kvs)
  obtain k v where kv: "kv = (k, v)" by fastforce
  then have "setting_key k" "strstrip v = v" using Cons.prems by (simp_all add: setting_ok_def setting_value_def)
  note step = parse_line_setting [OF this assms(2)]
  show ?case
    using Cons by (auto simp: kv step obind_assoc intro!: obind_cong)
qed simp

lemma conf_lines_settings:
  "list_all setting_ok kvs \<Longrightarrow> conf_lines False None (concat (map (\<lambda>kv. setting_line kv @ ''\<newline>'') kvs)) = map setting_line kvs"
proof (induction kvs)
  case (Cons kv kvs)
  obtain k v where kv: "kv = (k, v)" by fastforce
  with Cons conf_lines_Cons [OF setting_line_conf] show ?case by simp
qed simp

definition in_section :: "string \<Rightarrow> u32 \<Rightarrow> conf_section" where
  "in_section name line = \<lparr>cs_section = Some name, cs_section_line = line, cs_section_ignored = False\<rparr>"

lemma section_line_conf:
  assumes "setting_key name" "length name < LINE_MAX - 3"
  shows "conf_line (''['' @ name @ '']'')" "\<not> line_escaped False (''['' @ name @ '']'')"
proof -
  have a: "\<forall>c\<in>set name. c \<notin> {CHR ''\<newline>'', CHR 0x0D, CHR 0x00, CHR 0x5C}"
    using assms alnum_not_special by (auto simp: setting_key_def)
  have "bom_free (''['' @ name @ '']'')" by (simp add: bom_free_def startswith_None UTF8_BYTE_ORDER_MARK_def)
  then show "conf_line (''['' @ name @ '']'')" using a assms(2) by (auto simp: conf_line_def)
  show "\<not> line_escaped False (''['' @ name @ '']'')"
    using a line_escaped_plain [of "''['' @ name @ '']''" False] by auto
qed

lemma parse_line_section:
  assumes "setting_key name" "sections = None \<or> nulstr_contains sections name" "0 < line"
  shows "parse_line include sections lookup filename line (''['' @ name @ '']'') cs u = Ret (0, in_section name line, u)"
proof -
  have "strstrip (''['' @ name @ '']'') = ''['' @ name @ '']''"
    by (rule strstrip_id) (simp add: WHITESPACE_def)
  moreover have "startswith (''['' @ name @ '']'') ''.include '' = None" by (simp add: startswith_None)
  ultimately show ?thesis
    using assms by (auto simp: parse_line_def parse_section_def in_section_def COMMENTS_def)
qed

lemma config_parse_opened_settings:
  assumes "fopen filename u = (Inr (conf_text name kvs, None), u')" "list_all setting_ok kvs"
    and "setting_key name" "length name < LINE_MAX - 3" "sections = None \<or> nulstr_contains sections name"
  shows "config_parse_opened include fopen sections lookup filename u =
    apply_settings lookup filename (in_section name 1) 1 kvs u'"
proof -
  have "conf_lines True None (conf_text name kvs) = (''['' @ name @ '']'') # map setting_line kvs"
    using conf_lines_Cons [OF section_line_conf [OF assms(3,4)]] conf_lines_settings [OF assms(2)]
    by (simp add: conf_text_def)
  then show ?thesis
    using assms(1)
    by (simp add: config_parse_opened_def config_parse_loop_lines parse_line_section [OF assms(3,5), simplified]
        parse_lines_settings [OF assms(2)] in_section_def)
qed

section \<open>Invariants of the object that is configured\<close>

text \<open>
  What the callbacks of a table keep, parsing keeps.  A file has fewer than \<open>2 ^ 32\<close> bytes, so
  the line counter does not wrap around to zero.
\<close>

definition include_keeps :: "('u \<Rightarrow> bool) \<Rightarrow> (string \<Rightarrow> 'u \<Rightarrow> (int \<times> 'u) outcome) option \<Rightarrow> bool" where
  "include_keeps P include \<longleftrightarrow> (\<forall>inc fn u. include = Some inc \<longrightarrow> P u \<longrightarrow> gives (\<lambda>(r, u'). P u') (inc fn u))"

definition files_small :: "'u conf_open \<Rightarrow> bool" where
  "files_small fopen \<longleftrightarrow> (\<forall>fn u g u'. fopen fn u = (Inr g, u') \<longrightarrow> length (fst g) < 2 ^ 32)"

locale config_invariant =
  fixes lookup :: "'u config_lookup" and fopen :: "'u conf_open" and P :: "'u \<Rightarrow> bool"
  assumes callback: "lookup s k = Some (Some func) \<Longrightarrow> P u \<Longrightarrow> gives (\<lambda>(r, u'). P u') (func a u)"
    and open_keeps: "fopen fn u = (f, u') \<Longrightarrow> P u \<Longrightarrow> P u'"
begin

lemma next_assignment_keeps:
  "P u \<Longrightarrow> 0 < line \<Longrightarrow> gives (\<lambda>(r, u'). P u') (next_assignment lookup filename line cs lvalue rvalue u)"
  by (auto simp: next_assignment_def callback split: option.splits)

lemma parse_line_keeps:
  assumes "include_keeps P include" "P u" "0 < line"
  shows "gives (\<lambda>(r, cs', u'). P u') (parse_line include sections lookup filename line l cs u)"
proof -
  have n: "gives (\<lambda>(r, cs', u'). P u') (obind (next_assignment lookup filename line cs k v u) (\<lambda>(r, u). Ret (r, cs, u)))" for k v
    by (rule gives_obind [OF next_assignment_keeps [OF assms(2,3)]]) auto
  have i: "gives (\<lambda>(r, cs', u'). P u') (obind (inc fn u) (\<lambda>(r, u). Ret (r, cs, u)))" if "include = Some inc" for inc fn
    by (rule gives_obind [where P = "\<lambda>(r, u'). P u'"]) (use assms(1,2) that in \<open>auto simp: include_keeps_def\<close>)
  show ?thesis
    using assms(2,3) n i by (auto simp: parse_line_def Let_def split: option.splits prod.splits)
qed

lemma loop_keeps:
  assumes "include_keeps P include"
  shows "P u \<Longrightarrow> unat line + length (fst f) < 2 ^ 32 \<Longrightarrow>
    gives (\<lambda>(r, u'). P u') (config_parse_loop include sections lookup filename f allow_bom continuation line cs u)"
proof (induction "length (fst f)" arbitrary: f allow_bom continuation line cs u rule: less_induct)
  case less
  show ?case
  proof (cases "\<exists>buf rest. read_line f = Inr (Some (buf, rest))")
    case False
    then show ?thesis
      using less.prems(1) by (auto simp: config_parse_loop.simps [of _ _ _ _ f] split: sum.splits option.splits)
  next
    case True
    then obtain buf rest where r: "read_line f = Inr (Some (buf, rest))" by blast
    have shorter: "length (fst (rest, snd f)) < length (fst f)" using read_line_shorter [OF r] by simp
    define p where "p = line_text allow_bom continuation buf"
    have next_line: "unat (line + 1) = Suc (unat line)" using less.prems(2) shorter by (simp add: unat_word_ariths)
    then have pos: "0 < line + 1" by (metis less_numeral_extra(3) unat_0 word_gt_0 zero_less_Suc)
    have "gives (\<lambda>(r, u'). P u') (if r < 0 then Ret (r, u)
        else config_parse_loop include sections lookup filename (rest, snd f) False None (line + 1) cs u)" if "P u" for r :: int and cs u
      using less.hyps [OF shorter that, of "line + 1" False None cs] that next_line less.prems(2) shorter by simp
    then have "gives (\<lambda>(r, u'). P u') (obind (parse_line include sections lookup filename (line + 1) p cs u) (\<lambda>(r, cs, u).
        if r < 0 then Ret (r, u) else config_parse_loop include sections lookup filename (rest, snd f) False None (line + 1) cs u))"
      by (intro gives_obind [OF parse_line_keeps [OF assms less.prems(1) pos]]) auto
    then show ?thesis
      using less.hyps [OF shorter less.prems(1), of line False "Some (butlast p @ '' '')" cs] less.prems(2) shorter
      by (simp add: config_parse_loop.simps [of _ _ _ _ f] r p_def Let_def)
  qed
qed

lemma opened_keeps:
  assumes "files_small fopen" "include_keeps P include" "P u"
  shows "gives (\<lambda>(r, u'). P u') (config_parse_opened include fopen sections lookup filename u)"
proof -
  obtain f u' where f: "fopen filename u = (f, u')" by fastforce
  show ?thesis
  proof (cases f)
    case (Inl r)
    then show ?thesis using open_keeps [OF f assms(3)] f by (simp add: config_parse_opened_def)
  next
    case (Inr g)
    then have "length (fst g) < 2 ^ 32" using assms(1) f unfolding files_small_def by blast
    then show ?thesis
      using Inr loop_keeps [OF assms(2) open_keeps [OF f assms(3)], of 0 g] f
      by (simp add: config_parse_opened_def)
  qed
qed

lemma parse_keeps: "files_small fopen \<Longrightarrow> P u \<Longrightarrow> gives (\<lambda>(r, u'). P u') (config_parse allow_include fopen sections lookup filename u)"
  unfolding config_parse_def by (rule opened_keeps) (auto simp: include_keeps_def intro: opened_keeps)

lemma parse_files_keeps: "files_small fopen \<Longrightarrow> P u \<Longrightarrow> gives (\<lambda>(r, u'). P u') (config_parse_files fopen sections lookup files u)"
proof (induction files arbitrary: u)
  case (Cons fn files)
  then show ?case by (auto intro!: gives_obind [OF parse_keeps [OF Cons.prems]])
qed simp

lemma parse_many_keeps:
  assumes "files_small fopen" "P u" "\<And>fs u u'. list_files u = (fs, u') \<Longrightarrow> P u \<Longrightarrow> P u'"
  shows "gives (\<lambda>(r, u'). P u') (config_parse_many list_files fopen conf_file sections lookup u)"
proof -
  obtain fs u' where l: "list_files u = (fs, u')" by fastforce
  then have u': "P u'" using assms by blast
  have "gives (\<lambda>(r, u'). P u') (obind (config_parse False fopen sections lookup cf u') (\<lambda>(r, u).
      if r < 0 then Ret (r, u) else config_parse_files fopen sections lookup files u))" for cf files
    by (rule gives_obind [OF parse_keeps [OF assms(1) u']]) (auto simp: parse_files_keeps assms(1))
  then show ?thesis
    using l u' parse_files_keeps [OF assms(1)] by (auto simp: config_parse_many_def split: sum.splits option.splits)
qed

end

end
