(* ===== verification/Conf_Files.thy ===== *)
theory Conf_Files
  imports Path_Util
begin

text \<open>
  \<open>src/share/conf-files.c\<close> and the path resolution of \<open>src/share/path-util.c\<close> it uses: the
  drop-in files of several directories, where a file of an earlier directory hides
  the files with the same name of the later ones.  The file system is an argument.
\<close>

section \<open>The file system\<close>

abbreviation (input) DT_UNKNOWN :: nat where "DT_UNKNOWN \<equiv> 0"
abbreviation (input) DT_REG :: nat where "DT_REG \<equiv> 8"
abbreviation (input) DT_LNK :: nat where "DT_LNK \<equiv> 10"

record dirent =
  d_type :: nat
  d_name :: string

text \<open>
  \<open>fs_open\<close>: the bytes of a file and the error that ends the reading; \<open>fs_opendir\<close>: the entries
  of a directory and the error that ends the reading; \<open>fs_canonicalize\<close>: the canonical path.  A
  failure is the negative \<open>errno\<close>.
\<close>

record conf_fs =
  fs_open :: "string \<Rightarrow> (string \<times> int option) result"
  fs_opendir :: "string \<Rightarrow> (dirent list \<times> int option) result"
  fs_canonicalize :: "string \<Rightarrow> string result"

section \<open>Resolving directories\<close>

definition path_resolve_entry :: "(string \<Rightarrow> string result) \<Rightarrow> string option \<Rightarrow> string \<Rightarrow> string option \<times> bool" where
  \<comment> \<open>the entry that replaces \<open>s\<close>, and whether memory ran out\<close>
  "path_resolve_entry canon prefix s =
     (if \<not> path_is_absolute s then (None, False)
      else let t = (case prefix of None \<Rightarrow> s | Some p \<Rightarrow> strappend (Some p) (Some s))
           in case canon t of
                Inl r \<Rightarrow> if r = - ENOENT then (Some s, False) else (None, r = - ENOMEM \<or> r = 0)
              | Inr u \<Rightarrow>
                  (case prefix of
                     None \<Rightarrow> (Some u, False)
                   | Some p \<Rightarrow>
                       (case path_startswith u p of
                          Some x \<Rightarrow> (Some (if startswith x ''/'' \<noteq> None then x else ''/'' @ x), False)
                        | None \<Rightarrow> (Some s, False))))"

definition path_strv_resolve :: "(string \<Rightarrow> string result) \<Rightarrow> string list \<Rightarrow> string option \<Rightarrow> string list option" where
  "path_strv_resolve canon l prefix =
     (let rs = map (path_resolve_entry canon prefix) l
      in if list_ex snd rs then None else Some (List.map_filter fst rs))"

definition path_strv_resolve_uniq :: "(string \<Rightarrow> string result) \<Rightarrow> string list \<Rightarrow> string option \<Rightarrow> string list option" where
  "path_strv_resolve_uniq canon l prefix = map_option strv_uniq (path_strv_resolve canon l prefix)"

definition prefix_roota :: "string option \<Rightarrow> string \<Rightarrow> string" where
  \<comment> \<open>the macro does on the stack what \<open>prefix_root\<close> does on the heap\<close>
  "prefix_roota root path = prefix_root root path"

section \<open>Collecting the files\<close>

definition gnu_basename :: "string \<Rightarrow> string" where
  "gnu_basename p = (case strrchr p CHR ''/'' of None \<Rightarrow> p | Some (_, n) \<Rightarrow> n)"

definition dirent_is_file :: "dirent \<Rightarrow> bool" where
  "dirent_is_file de \<longleftrightarrow> d_type de \<in> {DT_REG, DT_LNK, DT_UNKNOWN} \<and> \<not> hidden_or_backup_file (d_name de)"

definition dirent_is_file_with_suffix :: "dirent \<Rightarrow> string \<Rightarrow> bool" where
  "dirent_is_file_with_suffix de suffix \<longleftrightarrow>
     d_type de \<in> {DT_REG, DT_LNK, DT_UNKNOWN} \<and> \<not> (d_name de \<noteq> [] \<and> hd (d_name de) = CHR ''.'') \<and>
     endswith (d_name de) suffix \<noteq> None"

text \<open>
  The table of the files found so far, by name.  \<open>hashmap_put\<close> refuses a key that is there
  with another value.
\<close>

type_synonym file_table = "(string \<times> string) list"

definition file_put :: "file_table \<Rightarrow> string \<Rightarrow> string \<Rightarrow> file_table" where
  "file_put h key p = (if map_of h key = None then h @ [(key, p)] else h)"

fun files_add_entries :: "string \<Rightarrow> string \<Rightarrow> dirent list \<Rightarrow> file_table \<Rightarrow> file_table" where
  "files_add_entries dirpath suffix [] h = h"
| "files_add_entries dirpath suffix (de # des) h =
     (if hidden_or_backup_file (d_name de) then files_add_entries dirpath suffix des h
      else if \<not> dirent_is_file_with_suffix de suffix then files_add_entries dirpath suffix des h
      else let p = strjoin [Some dirpath, Some ''/'', Some (d_name de), None]
           in files_add_entries dirpath suffix des (file_put h (gnu_basename p) p))"

definition files_add :: "conf_fs \<Rightarrow> string option \<Rightarrow> string \<Rightarrow> string \<Rightarrow> file_table \<Rightarrow> int \<times> file_table" where
  "files_add fs root path suffix h =
     (let dirpath = prefix_roota root path
      in case fs_opendir fs dirpath of
           Inl r \<Rightarrow> (if r = - ENOENT then 0 else r, h)
         | Inr (des, err) \<Rightarrow> (case err of None \<Rightarrow> 0 | Some e \<Rightarrow> - e, files_add_entries dirpath suffix des h))"

fun files_add_dirs :: "conf_fs \<Rightarrow> string option \<Rightarrow> string \<Rightarrow> string list \<Rightarrow> file_table \<Rightarrow> file_table result" where
  "files_add_dirs fs root suffix [] h = Inr h"
| "files_add_dirs fs root suffix (d # dirs) h =
     (let (r, h) = files_add fs root d suffix h
      in if r = - ENOMEM then Inl r else files_add_dirs fs root suffix dirs h)"

text \<open>\<open>qsort_safe\<close> with \<open>base_cmp\<close>.  The names are distinct, so every sorting method gives the same list.\<close>

definition base_cmp :: "string \<Rightarrow> string \<Rightarrow> int" where
  "base_cmp a b = strcmp (gnu_basename a) (gnu_basename b)"

fun base_insert :: "string \<Rightarrow> string list \<Rightarrow> string list" where
  "base_insert x [] = [x]"
| "base_insert x (y # ys) = (if base_cmp x y \<le> 0 then x # y # ys else y # base_insert x ys)"

definition base_sort :: "string list \<Rightarrow> string list" where
  "base_sort xs = foldr base_insert xs []"

definition conf_files_list_strv_internal :: "conf_fs \<Rightarrow> string \<Rightarrow> string option \<Rightarrow> string list \<Rightarrow> string list result" where
  "conf_files_list_strv_internal fs suffix root dirs =
     (case path_strv_resolve_uniq (fs_canonicalize fs) dirs root of
        None \<Rightarrow> Inl (- ENOMEM)
      | Some dirs \<Rightarrow>
          (case files_add_dirs fs root suffix dirs [] of
             Inl r \<Rightarrow> Inl r
           | Inr h \<Rightarrow> Inr (base_sort (map snd h))))"

definition conf_files_list_strv :: "conf_fs \<Rightarrow> string \<Rightarrow> string option \<Rightarrow> string list \<Rightarrow> string list result" where
  "conf_files_list_strv = conf_files_list_strv_internal"

definition conf_files_list_nulstr :: "conf_fs \<Rightarrow> string \<Rightarrow> string option \<Rightarrow> string \<Rightarrow> string list result" where
  "conf_files_list_nulstr fs suffix root d = conf_files_list_strv_internal fs suffix root (strv_split_nulstr d)"

section \<open>Which file wins\<close>

text \<open>The names a directory offers, and the first directory that offers a name.\<close>

definition offered :: "conf_fs \<Rightarrow> string option \<Rightarrow> string \<Rightarrow> string \<Rightarrow> string set" where
  "offered fs root suffix d =
     (case fs_opendir fs (prefix_roota root d) of
        Inl _ \<Rightarrow> {}
      | Inr (des, _) \<Rightarrow> d_name ` {de \<in> set des. \<not> hidden_or_backup_file (d_name de) \<and> dirent_is_file_with_suffix de suffix})"

definition slash_free :: "conf_fs \<Rightarrow> bool" where
  \<comment> \<open>a directory entry is one path component\<close>
  "slash_free fs \<longleftrightarrow> (\<forall>d des err de. fs_opendir fs d = Inr (des, err) \<longrightarrow> de \<in> set des \<longrightarrow> CHR ''/'' \<notin> set (d_name de))"

definition table_of :: "conf_fs \<Rightarrow> string option \<Rightarrow> string \<Rightarrow> string list \<Rightarrow> string \<rightharpoonup> string" where
  "table_of fs root suffix dirs n =
     map_option (\<lambda>d. prefix_roota root d @ ''/'' @ n) (find (\<lambda>d. n \<in> offered fs root suffix d) dirs)"

lemma gnu_basename_join: "CHR ''/'' \<notin> set n \<Longrightarrow> gnu_basename (d @ ''/'' @ n) = n"
proof -
  assume n: "CHR ''/'' \<notin> set n"
  then have "takeWhile (\<lambda>x. x \<noteq> CHR ''/'') (rev n @ CHR ''/'' # rev d) = rev n"
    by (subst takeWhile_append2) auto
  then show ?thesis by (simp add: gnu_basename_def strrchr_def)
qed

lemma map_of_file_put: "map_of (file_put h k p) x = (if map_of h k = None \<and> x = k then Some p else map_of h x)"
  by (auto simp: file_put_def map_add_def split: option.splits)

lemma map_of_add_entries:
  assumes "\<forall>de\<in>set des. CHR ''/'' \<notin> set (d_name de)"
  shows "map_of (files_add_entries d suffix des h) n =
    (case map_of h n of
       Some p \<Rightarrow> Some p
     | None \<Rightarrow> if n \<in> d_name ` {de \<in> set des. \<not> hidden_or_backup_file (d_name de) \<and> dirent_is_file_with_suffix de suffix}
               then Some (d @ ''/'' @ n) else None)"
  using assms
proof (induction des arbitrary: h)
  case (Cons de des)
  then show ?case
    by (auto simp: map_of_file_put gnu_basename_join [simplified] image_iff split: option.splits)
qed (simp split: option.splits)

lemma map_of_files_add:
  assumes "slash_free fs" "files_add fs root d suffix h = (r, h')"
  shows "map_of h' n = (case map_of h n of Some p \<Rightarrow> Some p
    | None \<Rightarrow> if n \<in> offered fs root suffix d then Some (prefix_roota root d @ ''/'' @ n) else None)"
proof (cases "fs_opendir fs (prefix_roota root d)")
  case (Inl e)
  then show ?thesis using assms(2) by (auto simp: files_add_def offered_def Let_def split: option.splits)
next
  case (Inr v)
  obtain des err where v: "v = (des, err)" by fastforce
  have "\<forall>de\<in>set des. CHR ''/'' \<notin> set (d_name de)" using assms(1) Inr v by (auto simp: slash_free_def)
  from map_of_add_entries [OF this, of "prefix_roota root d" suffix h n] show ?thesis
    using assms(2) Inr v by (auto simp: files_add_def offered_def Let_def)
qed

lemma map_of_add_dirs:
  assumes "slash_free fs"
  shows "files_add_dirs fs root suffix dirs h = Inr h' \<Longrightarrow>
    map_of h' n = (case map_of h n of Some p \<Rightarrow> Some p | None \<Rightarrow> table_of fs root suffix dirs n)"
proof (induction dirs arbitrary: h)
  case (Cons d dirs)
  obtain r h1 where a: "files_add fs root d suffix h = (r, h1)" by fastforce
  with Cons.prems have "files_add_dirs fs root suffix dirs h1 = Inr h'" by (simp split: if_splits)
  from Cons.IH [OF this] show ?case
    using map_of_files_add [OF assms a, of n] by (auto simp: table_of_def split: option.splits if_splits)
qed (simp add: table_of_def split: option.splits)

lemma file_put_distinct: "distinct (map fst h) \<Longrightarrow> distinct (map fst (file_put h k p))"
  by (auto simp: file_put_def map_of_eq_None_iff)

lemma add_entries_distinct: "distinct (map fst h) \<Longrightarrow> distinct (map fst (files_add_entries d suffix des h))"
  by (induction des arbitrary: h) (simp_all add: file_put_distinct Let_def)

lemma add_dirs_distinct:
  "files_add_dirs fs root suffix dirs h = Inr h' \<Longrightarrow> distinct (map fst h) \<Longrightarrow> distinct (map fst h')"
proof (induction dirs arbitrary: h)
  case (Cons d dirs)
  obtain r h1 where a: "files_add fs root d suffix h = (r, h1)" by fastforce
  then have "distinct (map fst h1)"
    using Cons.prems(2) add_entries_distinct by (auto simp: files_add_def Let_def split: sum.splits prod.splits)
  then show ?case using Cons a by (simp split: if_splits)
qed simp

lemma set_base_insert: "set (base_insert x xs) = insert x (set xs)"
  by (induction xs) auto

lemma set_base_sort: "set (base_sort xs) = set xs"
  by (induction xs) (simp_all add: base_sort_def set_base_insert)

lemma strcmp_trans: "strcmp a b < 0 \<Longrightarrow> strcmp b c < 0 \<Longrightarrow> strcmp a c < 0"
proof (induction a b arbitrary: c rule: strcmp.induct)
  case (2 y ys)
  then show ?case by (cases c) auto
next
  case (4 x xs y ys)
  then obtain z zs where c: "c = z # zs" by (cases c) auto
  have "char_code x \<le> char_code y" "char_code y \<le> char_code z" using "4.prems" c by (auto split: if_splits)
  moreover have "strcmp xs zs < 0" if "char_code x = char_code y" "char_code y = char_code z"
    using "4.IH" [of zs] "4.prems" that c by simp
  ultimately show ?case unfolding c by (cases "char_code x < char_code z") simp_all
qed simp_all

lemma base_insert_sorted:
  "sorted_wrt (\<lambda>a b. base_cmp a b < 0) xs \<Longrightarrow> gnu_basename x \<notin> gnu_basename ` set xs \<Longrightarrow>
     sorted_wrt (\<lambda>a b. base_cmp a b < 0) (base_insert x xs)"
proof (induction xs)
  case (Cons y ys)
  have ne: "base_cmp x y \<noteq> 0" using Cons.prems(2) by (simp add: base_cmp_def)
  have tr: "base_cmp x y < 0 \<Longrightarrow> base_cmp y z < 0 \<Longrightarrow> base_cmp x z < 0" for z
    using strcmp_trans by (simp add: base_cmp_def)
  have sw: "\<not> base_cmp x y \<le> 0 \<Longrightarrow> base_cmp y x < 0"
    using strcmp_antisym [of "gnu_basename x" "gnu_basename y"] by (simp add: base_cmp_def)
  show ?case using Cons ne tr sw by (auto simp: set_base_insert)
qed simp

lemma base_sort_sorted: "distinct (map gnu_basename xs) \<Longrightarrow> sorted_wrt (\<lambda>a b. base_cmp a b < 0) (base_sort xs)"
proof (induction xs)
  case (Cons x xs)
  then have "gnu_basename x \<notin> gnu_basename ` set (base_sort xs)" by (simp add: set_base_sort)
  from base_insert_sorted [OF _ this] show ?case using Cons by (simp add: base_sort_def)
qed (simp add: base_sort_def)

lemma table_basename:
  assumes "slash_free fs" "table_of fs root suffix dirs n = Some p"
  shows "gnu_basename p = n"
proof -
  obtain d where "find (\<lambda>d. n \<in> offered fs root suffix d) dirs = Some d" "p = prefix_roota root d @ ''/'' @ n"
    using assms(2) by (auto simp: table_of_def)
  then have "n \<in> offered fs root suffix d" by (auto simp: find_Some_iff)
  then have "CHR ''/'' \<notin> set n" using assms(1) by (auto simp: offered_def slash_free_def split: sum.splits)
  then show ?thesis using gnu_basename_join \<open>p = _\<close> by simp
qed

lemma conf_files_list_result:
  assumes "slash_free fs" "path_strv_resolve_uniq (fs_canonicalize fs) dirs root = Some ds"
    and "conf_files_list_strv_internal fs suffix root dirs = Inr files"
  shows "sorted_wrt (\<lambda>a b. base_cmp a b < 0) files" "set files = ran (table_of fs root suffix ds)"
proof -
  obtain h where h: "files_add_dirs fs root suffix ds [] = Inr h" "files = base_sort (map snd h)"
    using assms by (auto simp: conf_files_list_strv_internal_def split: sum.splits)
  have m: "map_of h = table_of fs root suffix ds"
    using map_of_add_dirs [OF assms(1) h(1)] by auto
  have d: "distinct (map fst h)" using add_dirs_distinct [OF h(1)] by simp
  have "gnu_basename p = n" if "(n, p) \<in> set h" for n p
    using table_basename [OF assms(1), of root suffix ds n p] m map_of_is_SomeI [OF d that] by simp
  then have "map gnu_basename (map snd h) = map fst h" by auto
  then show "sorted_wrt (\<lambda>a b. base_cmp a b < 0) files"
    using base_sort_sorted [of "map snd h"] d unfolding h(2) by metis
  show "set files = ran (table_of fs root suffix ds)"
    using ran_distinct [OF d] m by (simp add: h(2) set_base_sort)
qed

text \<open>
  C11.  Of the files with the wanted suffix in the directories, the list holds for every name the file of the first directory that has it, and no other; it is sorted by name, without repetition.
\<close>

theorem conf_files_override:
  assumes "slash_free fs" "path_strv_resolve_uniq (fs_canonicalize fs) dirs root = Some ds"
    and "conf_files_list_strv_internal fs suffix root dirs = Inr files"
  shows "sorted_wrt (\<lambda>a b. strcmp (gnu_basename a) (gnu_basename b) < 0) files \<and>
    set files = {prefix_roota root d @ ''/'' @ n | d n. find (\<lambda>d. n \<in> offered fs root suffix d) ds = Some d}"
  using conf_files_list_result [OF assms] by (auto simp: base_cmp_def ran_def table_of_def)

definition demo_dirs :: conf_fs where
  "demo_dirs = \<lparr>fs_open = (\<lambda>f. Inl (- ENOENT)),
     fs_opendir = (\<lambda>d. if d = ''/etc/c'' then Inr ([\<lparr>d_type = DT_REG, d_name = ''b.conf''\<rparr>], None)
        else if d = ''/usr/c'' then Inr ([\<lparr>d_type = DT_REG, d_name = ''b.conf''\<rparr>, \<lparr>d_type = DT_REG, d_name = ''a.conf''\<rparr>], None) else Inl (- ENOENT)),
     fs_canonicalize = (\<lambda>p. Inr p)\<rparr>"

theorem conf_files_override_witness:
  "conf_files_list_strv_internal demo_dirs ''.conf'' None [''/etc/c'', ''/usr/c''] = Inr [''/usr/c/a.conf'', ''/etc/c/b.conf''] \<and>
   set [''/usr/c/a.conf'', ''/etc/c/b.conf''] =
     {prefix_roota None d @ ''/'' @ n | d n. find (\<lambda>d. n \<in> offered demo_dirs None ''.conf'' d) [''/etc/c'', ''/usr/c''] = Some d}"
proof -
  have s: "slash_free demo_dirs" by (auto simp: slash_free_def demo_dirs_def split: if_splits)
  have r: "path_strv_resolve_uniq (fs_canonicalize demo_dirs) [''/etc/c'', ''/usr/c''] None = Some [''/etc/c'', ''/usr/c'']" by code_simp
  have l: "conf_files_list_strv_internal demo_dirs ''.conf'' None [''/etc/c'', ''/usr/c''] = Inr [''/usr/c/a.conf'', ''/etc/c/b.conf'']" by code_simp
  from conf_files_override [OF s r l] l show ?thesis by blast
qed

end
