(* ===== verification/Socket_Addr.thy ===== *)
theory Socket_Addr
  imports Parse_Util
begin

text \<open>
  \<open>src/share/socket-util.c\<close>, the textual form of socket addresses.  \<open>union
  sockaddr_union\<close> is a record of the members the program uses: \<open>sin_port\<close> and
  \<open>sin6_port\<close> share their bytes and are one field, port and IPv4 address are kept in
  host byte order (every access converts), an IPv6 address is its 16 bytes, and
  \<open>sun_path\<close> has a field of its own: no code reads a member of another family than the
  one stored.  Interface names, the presence of IPv6 and the textual form of IPv6
  addresses belong to the C library and the kernel and are parameters.
\<close>

unbundle bit_operations_syntax

section \<open>Addresses\<close>

abbreviation (input) AF_UNSPEC :: int where "AF_UNSPEC \<equiv> 0"
abbreviation (input) AF_UNIX :: int where "AF_UNIX \<equiv> 1"
abbreviation (input) AF_INET :: int where "AF_INET \<equiv> 2"
abbreviation (input) AF_INET6 :: int where "AF_INET6 \<equiv> 10"
abbreviation (input) SOCK_STREAM :: int where "SOCK_STREAM \<equiv> 1"
abbreviation (input) SOCK_DGRAM :: int where "SOCK_DGRAM \<equiv> 2"

record sockaddr =
  sa_family :: int
  sa_port :: u16
  sin_addr :: u32
  sin6_addr :: "u8 list"
  sin6_scope_id :: u32
  sun_path :: string

record SocketAddress =
  sockaddr :: sockaddr
  sa_size :: nat
  sa_type :: int
  sa_protocol :: int

definition zero_sockaddr :: sockaddr where
  "zero_sockaddr = \<lparr>sa_family = AF_UNSPEC, sa_port = 0, sin_addr = 0, sin6_addr = replicate 16 0,
     sin6_scope_id = 0, sun_path = []\<rparr>"

definition SIZEOF_SOCKADDR_IN :: nat where "SIZEOF_SOCKADDR_IN = 16"
definition SIZEOF_SOCKADDR_IN6 :: nat where "SIZEOF_SOCKADDR_IN6 = 28"
definition SUN_PATH_SIZE :: nat where "SUN_PATH_SIZE = 108"
definition IF_NAMESIZE :: nat where "IF_NAMESIZE = 16"

text \<open>The \<open>switch\<close> over the address family that precedes each use of an Internet address.\<close>

definition inet_family :: "int \<Rightarrow> bool" where
  "inet_family family \<longleftrightarrow> family = AF_INET \<or> family = AF_INET6"

definition inet_salen :: "int \<Rightarrow> nat" where
  "inet_salen family = (if family = AF_INET then SIZEOF_SOCKADDR_IN else SIZEOF_SOCKADDR_IN6)"

text \<open>What the C library and the kernel answer.\<close>

record net_names =
  inet_pton6 :: "string \<Rightarrow> u8 list option"
  inet_ntop6 :: "u8 list \<Rightarrow> string"
  if_nametoindex :: "string \<Rightarrow> u32"
  have_sockstat6 :: bool

section \<open>Dotted quads\<close>

text \<open>
  \<open>inet_pton(AF_INET, ...)\<close>: \<open>octets\<close> are the finished ones, \<open>cur\<close> the one being read
  (\<open>None\<close>: no digit of it was seen); leading zeros and octets above 255 are refused.
\<close>

fun inet_pton4_loop :: "string \<Rightarrow> nat list \<Rightarrow> nat option \<Rightarrow> nat list option" where
  "inet_pton4_loop [] octets cur =
     (case cur of None \<Rightarrow> None
      | Some v \<Rightarrow> if length octets = 3 then Some (octets @ [v]) else None)"
| "inet_pton4_loop (c # s) octets cur =
     (if ascii_isdigit c then
        (let d = char_code c - 48
         in case cur of
              None \<Rightarrow> inet_pton4_loop s octets (Some d)
            | Some v \<Rightarrow> if v = 0 then None
                else if 255 < v * 10 + d then None
                else inet_pton4_loop s octets (Some (v * 10 + d)))
      else if c = CHR ''.'' then
        (case cur of
           None \<Rightarrow> None
         | Some v \<Rightarrow> if length octets = 3 then None else inet_pton4_loop s (octets @ [v]) None)
      else None)"

definition octets_value :: "nat list \<Rightarrow> nat" where
  "octets_value os = foldl (\<lambda>acc b. acc * 256 + b) 0 os"

definition inet_pton4 :: "string \<Rightarrow> u32 option" where
  "inet_pton4 s = map_option (\<lambda>os. of_nat (octets_value os)) (inet_pton4_loop s [] None)"

definition dotted_quad :: "nat \<Rightarrow> nat \<Rightarrow> nat \<Rightarrow> nat \<Rightarrow> string" where
  "dotted_quad a b c d =
     dec_of_nat a @ ''.'' @ dec_of_nat b @ ''.'' @ dec_of_nat c @ ''.'' @ dec_of_nat d"

section \<open>Parsing\<close>

definition parse_port :: "string \<Rightarrow> u16 result" where
  \<comment> \<open>\<open>safe_atou\<close> and the range check that each branch of the source makes\<close>
  "parse_port s =
     (case safe_atou s of
        Inl r \<Rightarrow> Inl r
      | Inr u \<Rightarrow> if u = 0 \<or> 0xFFFF < u then Inl (- EINVAL) else Inr (ucast u))"

definition socket_ipv6_is_supported :: "net_names \<Rightarrow> bool" where
  "socket_ipv6_is_supported ns \<longleftrightarrow> have_sockstat6 ns"

definition stream_address :: SocketAddress where
  \<comment> \<open>\<open>zero(*a); a->type = SOCK_STREAM;\<close>\<close>
  "stream_address = \<lparr>sockaddr = zero_sockaddr, sa_size = 0, sa_type = SOCK_STREAM, sa_protocol = 0\<rparr>"

definition socket_address_parse_in6 :: "net_names \<Rightarrow> string \<Rightarrow> int \<times> SocketAddress" where
  \<comment> \<open>the branch for \<open>[x:.....:z]:p\<close>, from the character after the bracket\<close>
  "socket_address_parse_in6 ns s =
     (case strchr s CHR '']'' of
        None \<Rightarrow> (- EINVAL, stream_address)
      | Some e \<Rightarrow>
          (case inet_pton6 ns (take (length s - length e) s) of
             None \<Rightarrow> (- EINVAL, stream_address)
           | Some addr \<Rightarrow>
               let a = stream_address\<lparr>sockaddr := zero_sockaddr\<lparr>sin6_addr := addr\<rparr>\<rparr>
               in case tl e of
                    [] \<Rightarrow> (- EINVAL, a)
                  | c # e' \<Rightarrow>
                      if c \<noteq> CHR '':'' then (- EINVAL, a)
                      else case parse_port e' of
                             Inl r \<Rightarrow> (r, a)
                           | Inr u \<Rightarrow> (0, a\<lparr>sockaddr := (sockaddr a)\<lparr>sa_family := AF_INET6, sa_port := u\<rparr>,
                                             sa_size := SIZEOF_SOCKADDR_IN6\<rparr>)))"

definition socket_address_parse_unix :: "bool \<Rightarrow> string \<Rightarrow> int \<times> SocketAddress" where
  \<comment> \<open>a path, or the name after \<open>@\<close> of an abstract socket\<close>
  "socket_address_parse_unix abstract s =
     (if (if abstract then SUN_PATH_SIZE - 1 \<le> length s else SUN_PATH_SIZE \<le> length s)
      then (- EINVAL, stream_address)
      else (0, stream_address\<lparr>sockaddr := zero_sockaddr\<lparr>sa_family := AF_UNIX,
                 sun_path := (if abstract then CHR 0x00 # s else s)\<rparr>,
                 sa_size := 2 + length s + 1\<rparr>))"

definition socket_address_parse_host :: "net_names \<Rightarrow> string \<Rightarrow> string \<Rightarrow> int \<times> SocketAddress" where
  \<comment> \<open>\<open>w.x.y.z:p\<close> or \<open>ifname:p\<close>, split at the first colon\<close>
  "socket_address_parse_host ns n p =
     (case parse_port p of
        Inl r \<Rightarrow> (r, stream_address)
      | Inr u \<Rightarrow>
          case inet_pton4 n of
            Some v4 \<Rightarrow> (0, stream_address\<lparr>sockaddr := zero_sockaddr\<lparr>sa_family := AF_INET, sa_port := u,
                            sin_addr := v4\<rparr>, sa_size := SIZEOF_SOCKADDR_IN\<rparr>)
          | None \<Rightarrow>
              if IF_NAMESIZE - 1 < length n then (- EINVAL, stream_address)
              else let idx = if_nametoindex ns n
                   in if idx = 0 then (- EINVAL, stream_address)
                      else (0, stream_address\<lparr>sockaddr := zero_sockaddr\<lparr>sa_family := AF_INET6, sa_port := u,
                                 sin6_scope_id := idx\<rparr>, sa_size := SIZEOF_SOCKADDR_IN6\<rparr>))"

definition socket_address_parse_port :: "net_names \<Rightarrow> string \<Rightarrow> int \<times> SocketAddress" where
  "socket_address_parse_port ns s =
     (case parse_port s of
        Inl r \<Rightarrow> (r, stream_address)
      | Inr u \<Rightarrow>
          if socket_ipv6_is_supported ns
          then (0, stream_address\<lparr>sockaddr := zero_sockaddr\<lparr>sa_family := AF_INET6, sa_port := u\<rparr>,
                     sa_size := SIZEOF_SOCKADDR_IN6\<rparr>)
          else (0, stream_address\<lparr>sockaddr := zero_sockaddr\<lparr>sa_family := AF_INET, sa_port := u\<rparr>,
                     sa_size := SIZEOF_SOCKADDR_IN\<rparr>))"

definition socket_address_parse :: "net_names \<Rightarrow> string \<Rightarrow> int \<times> SocketAddress" where
  "socket_address_parse ns s =
     (case s of
        [] \<Rightarrow> socket_address_parse_port ns s
      | c # r \<Rightarrow>
          if c = CHR ''['' then socket_address_parse_in6 ns r
          else if c = CHR ''/'' then socket_address_parse_unix False s
          else if c = CHR ''@'' then socket_address_parse_unix True r
          else case strchr s CHR '':'' of
                 Some e \<Rightarrow> socket_address_parse_host ns (take (length s - length e) s) (tl e)
               | None \<Rightarrow> socket_address_parse_port ns s)"

section \<open>Printing\<close>

definition ipv4_mapped :: "u8 list \<Rightarrow> bool" where
  "ipv4_mapped a \<longleftrightarrow> take 12 a = replicate 10 0 @ [0xFF, 0xFF]"

definition port_suffix :: "bool \<Rightarrow> sockaddr \<Rightarrow> string" where
  "port_suffix include_port sa = (if include_port then '':'' @ dec_of_nat (unat (sa_port sa)) else [])"

definition sockaddr_pretty :: "net_names \<Rightarrow> sockaddr \<Rightarrow> nat \<Rightarrow> bool \<Rightarrow> bool \<Rightarrow> string result outcome" where
  "sockaddr_pretty ns sa salen translate_ipv6 include_port =
     c_assert (2 \<le> salen)
      (if sa_family sa = AF_INET then
         (let a = sin_addr sa
          in Ret (Inr (dotted_quad (unat (drop_bit 24 a)) (unat (drop_bit 16 a AND 0xFF))
                         (unat (drop_bit 8 a AND 0xFF)) (unat (a AND 0xFF)) @ port_suffix include_port sa)))
       else if sa_family sa = AF_INET6 then
         (if translate_ipv6 \<and> ipv4_mapped (sin6_addr sa) then
            (let a = drop 12 (sin6_addr sa)
             in Ret (Inr (dotted_quad (unat (a ! 0)) (unat (a ! 1)) (unat (a ! 2)) (unat (a ! 3)) @
                          port_suffix include_port sa)))
          else let a = inet_ntop6 ns (sin6_addr sa)
               in Ret (Inr (if include_port then ''['' @ a @ '']'' @ port_suffix include_port sa else a)))
       else Ret (Inl (- EOPNOTSUPP)))"

section \<open>Facts\<close>

lemma sockaddr_pretty_ok:
  "sa_family sa = AF_INET \<or> sa_family sa = AF_INET6 \<Longrightarrow> 2 \<le> salen \<Longrightarrow>
     \<exists>p. sockaddr_pretty ns sa salen t i = Ret (Inr p)"
  by (auto simp: sockaddr_pretty_def Let_def)

lemma sockaddr_pretty_inet:
  "inet_family (sa_family sa) \<Longrightarrow> \<exists>p. sockaddr_pretty ns sa (inet_salen (sa_family sa)) t i = Ret (Inr p)"
  by (rule sockaddr_pretty_ok) (simp_all add: inet_family_def inet_salen_def SIZEOF_SOCKADDR_IN_def SIZEOF_SOCKADDR_IN6_def)

lemma sockaddr_pretty_inet_sizes:
  "\<exists>x. sockaddr_pretty ns sa SIZEOF_SOCKADDR_IN t i = Ret x"
  "\<exists>x. sockaddr_pretty ns sa SIZEOF_SOCKADDR_IN6 t i = Ret x"
  by (auto simp: sockaddr_pretty_def Let_def SIZEOF_SOCKADDR_IN_def SIZEOF_SOCKADDR_IN6_def)

lemma dec_small:
  "n < 10 \<Longrightarrow> dec_of_nat n = [digit_char n]"
  "10 \<le> n \<Longrightarrow> n < 100 \<Longrightarrow> dec_of_nat n = [digit_char (n div 10), digit_char (n mod 10)]"
  "100 \<le> n \<Longrightarrow> n < 1000 \<Longrightarrow>
     dec_of_nat n = [digit_char (n div 100), digit_char (n div 10 mod 10), digit_char (n mod 10)]"
proof -
  show one: "dec_of_nat n = [digit_char n]" if "n < 10" for n
    using that by (subst dec_of_nat.simps) simp
  show two: "dec_of_nat n = [digit_char (n div 10), digit_char (n mod 10)]" if "10 \<le> n" "n < 100" for n
    using that by (subst dec_of_nat.simps) (simp add: one)
  show "dec_of_nat n = [digit_char (n div 100), digit_char (n div 10 mod 10), digit_char (n mod 10)]"
    if "100 \<le> n" "n < 1000"
  proof -
    have "n div 10 div 10 = n div 100" by (simp add: div_mult2_eq [symmetric])
    with that show ?thesis by (subst dec_of_nat.simps) (simp add: two)
  qed
qed

lemma digit_char_isdigit: "d < 10 \<Longrightarrow> ascii_isdigit (digit_char d) \<and> char_code (digit_char d) - 48 = d"
  by (simp add: ascii_isdigit_def char_code_digit_char)

lemma inet_pton4_octet:
  assumes "n < 256"
  shows "inet_pton4_loop (dec_of_nat n @ rest) os None = inet_pton4_loop rest os (Some n)"
proof -
  consider "n < 10" | "10 \<le> n" "n < 100" | "100 \<le> n" by linarith
  then show ?thesis
  proof cases
    case 1
    then show ?thesis by (simp add: dec_small digit_char_isdigit)
  next
    case 2
    then have "0 < n div 10" "n div 10 < 10" by auto
    with 2 show ?thesis using assms by (simp add: dec_small digit_char_isdigit Let_def)
  next
    case 3
    have d: "0 < n div 100" "n div 100 < 10" using 3 assms by auto
    have e: "n div 100 * 10 + n div 10 mod 10 = n div 10"
      using div_mult_mod_eq [of "n div 10" 10] by (simp add: div_mult2_eq [symmetric])
    have "n div 10 \<noteq> 0" "n div 10 \<le> 255" using 3 assms by auto
    with d e 3 assms show ?thesis by (simp add: dec_small digit_char_isdigit Let_def)
  qed
qed

lemma inet_pton4_dot: "length os < 3 \<Longrightarrow> inet_pton4_loop (CHR ''.'' # s) os (Some v) = inet_pton4_loop s (os @ [v]) None"
  by (simp add: ascii_isdigit_def char_code_def)

lemma inet_pton4_dotted_quad:
  assumes "a < 256" "b < 256" "c < 256" "d < 256"
  shows "inet_pton4_loop (dotted_quad a b c d) [] None = Some [a, b, c, d]"
  using assms inet_pton4_octet [of d "[]" "[a, b, c]"]
  by (simp add: dotted_quad_def inet_pton4_octet inet_pton4_dot del: inet_pton4_loop.simps(2))

lemma octets_of_word:
  fixes a :: u32
  shows "unat (drop_bit 24 a) < 256" "unat (drop_bit 16 a AND 0xFF) < 256"
    "unat (drop_bit 8 a AND 0xFF) < 256" "unat (a AND 0xFF) < 256"
    "octets_value [unat (drop_bit 24 a), unat (drop_bit 16 a AND 0xFF), unat (drop_bit 8 a AND 0xFF), unat (a AND 0xFF)] = unat a"
proof -
  have m: "x AND 0xFF = take_bit 8 x" for x :: u32
    by (simp add: take_bit_eq_mask mask_eq_exp_minus_1)
  have low: "unat (x AND 0xFF) = unat x mod 256" for x :: u32
    unfolding m unsigned_take_bit_eq by (simp add: take_bit_eq_mod)
  have shift: "unat (drop_bit k a) = unat a div 2 ^ k" for k
    unfolding unat_drop_bit_eq by (simp add: drop_bit_eq_div)
  have bound: "unat a < 256 * 2 ^ 24" using unsigned_less [of a] by simp
  show "unat (drop_bit 24 a) < 256" using bound by (simp add: shift less_mult_imp_div_less)
  show "unat (drop_bit 16 a AND 0xFF) < 256" "unat (drop_bit 8 a AND 0xFF) < 256" "unat (a AND 0xFF) < 256"
    by (simp_all add: low)
  have "((unat a div 2 ^ 24 * 256 + unat a div 2 ^ 16 mod 256) * 256 + unat a div 2 ^ 8 mod 256) * 256 +
      unat a mod 256 = unat a"
  proof -
    have "unat a div 2 ^ 24 = unat a div 2 ^ 16 div 256" "unat a div 2 ^ 16 = unat a div 2 ^ 8 div 256"
      "unat a div 2 ^ 8 = unat a div 256" by (simp_all add: div_mult2_eq [symmetric])
    then show ?thesis by (metis div_mult_mod_eq)
  qed
  then show "octets_value [unat (drop_bit 24 a), unat (drop_bit 16 a AND 0xFF), unat (drop_bit 8 a AND 0xFF), unat (a AND 0xFF)] = unat a"
    by (simp only: octets_value_def foldl.simps shift low) simp
qed

lemma inet_pton4_quad:
  "inet_pton4 (dotted_quad (unat (drop_bit 24 a)) (unat (drop_bit 16 a AND 0xFF))
     (unat (drop_bit 8 a AND 0xFF)) (unat (a AND 0xFF))) = Some a"
  by (simp only: inet_pton4_def inet_pton4_dotted_quad [OF octets_of_word(1-4)] octets_of_word(5)
      option.map of_nat_unat ucast_id)

lemma parse_port_dec: "0 < n \<Longrightarrow> n < 2 ^ 16 \<Longrightarrow> parse_port (dec_of_nat n) = Inr (of_nat n)"
  by (simp add: parse_port_def safe_atou_dec word_less_nat_alt unat_of_nat word_of_nat_eq_0_iff
      nat_dvd_not_less unsigned_of_nat take_bit_nat_eq_self)

text \<open>The addresses \<open>sockaddr_pretty\<close> prints and \<open>socket_address_parse\<close> reads back.\<close>

definition inet_address :: "u32 \<Rightarrow> u16 \<Rightarrow> SocketAddress" where
  "inet_address a p = stream_address\<lparr>sockaddr := zero_sockaddr\<lparr>sa_family := AF_INET, sa_port := p,
     sin_addr := a\<rparr>, sa_size := SIZEOF_SOCKADDR_IN\<rparr>"

definition inet6_address :: "u8 list \<Rightarrow> u16 \<Rightarrow> SocketAddress" where
  "inet6_address a p = stream_address\<lparr>sockaddr := zero_sockaddr\<lparr>sa_family := AF_INET6, sa_port := p,
     sin6_addr := a\<rparr>, sa_size := SIZEOF_SOCKADDR_IN6\<rparr>"

lemma dec_of_nat_no_char: "\<not> ascii_isdigit c \<Longrightarrow> c \<notin> set (dec_of_nat n)"
  using dec_of_nat_ascii_isdigit by blast

lemma dotted_quad_chars: "c \<in> set (dotted_quad a b x d) \<Longrightarrow> ascii_isdigit c \<or> c = CHR ''.''"
  by (auto simp: dotted_quad_def dest: dec_of_nat_ascii_isdigit)

lemma not_digits [simp]:
  "\<not> ascii_isdigit CHR '':''" "\<not> ascii_isdigit CHR ''[''" "\<not> ascii_isdigit CHR ''/''" "\<not> ascii_isdigit CHR ''@''"
  by (simp_all add: ascii_isdigit_def char_code_def)

lemma socket_address_parse_quad:
  assumes "q = dotted_quad a b c d"
  shows "socket_address_parse ns (q @ '':'' @ p) = socket_address_parse_host ns q p"
proof -
  obtain x xs where q: "q = x # xs"
    using assms dec_of_nat_nonempty [of a] by (cases "dec_of_nat a") (auto simp: dotted_quad_def)
  have x: "x \<notin> {CHR ''['', CHR ''/'', CHR ''@''}"
    using dotted_quad_chars [of x a b c d] q assms by auto
  have "CHR '':'' \<notin> set q" using dotted_quad_chars [of "CHR '':''" a b c d] assms by auto
  then have "strchr (q @ '':'' @ p) CHR '':'' = Some ('':'' @ p)" using strchr_append by simp
  with q x show ?thesis by (simp add: socket_address_parse_def)
qed

lemma port_word: "0 < (p :: u16) \<Longrightarrow> parse_port (dec_of_nat (unat p)) = Inr p"
  using parse_port_dec [of "unat p"] unsigned_less [of p] by (simp add: word_less_nat_alt)

lemma socket_address_parse_pretty4:
  assumes "0 < p"
  shows "obind (sockaddr_pretty ns (sockaddr (inet_address a p)) SIZEOF_SOCKADDR_IN tr True)
           (case_sum (\<lambda>r. Abort) (\<lambda>s. Ret (socket_address_parse ns s))) = Ret (0, inet_address a p)"
proof -
  let ?q = "dotted_quad (unat (drop_bit 24 a)) (unat (drop_bit 16 a AND 0xFF)) (unat (drop_bit 8 a AND 0xFF)) (unat (a AND 0xFF))"
  have "sockaddr_pretty ns (sockaddr (inet_address a p)) SIZEOF_SOCKADDR_IN tr True =
      Ret (Inr (?q @ '':'' @ dec_of_nat (unat p)))"
    by (simp add: sockaddr_pretty_def inet_address_def port_suffix_def SIZEOF_SOCKADDR_IN_def Let_def)
  then show ?thesis
    using assms by (simp only: obind.simps sum.case socket_address_parse_quad [OF refl])
      (simp add: socket_address_parse_host_def port_word inet_pton4_quad inet_address_def)
qed

text \<open>
  An IPv6 address that is not an IPv4-mapped one is read back as the same address, for every pair of library functions that print and read addresses consistently.
\<close>

theorem socket_address_parse_pretty6:
  assumes "0 < p" and "inet_pton6 ns (inet_ntop6 ns a) = Some a" and "CHR '']'' \<notin> set (inet_ntop6 ns a)"
    and "\<not> ipv4_mapped a"
  shows "obind (sockaddr_pretty ns (sockaddr (inet6_address a p)) SIZEOF_SOCKADDR_IN6 tr True)
           (case_sum (\<lambda>r. Abort) (\<lambda>s. Ret (socket_address_parse ns s))) = Ret (0, inet6_address a p)"
proof -
  let ?t = "inet_ntop6 ns a"
  have "strchr (?t @ CHR '']'' # '':'' @ dec_of_nat (unat p)) CHR '']'' = Some (CHR '']'' # '':'' @ dec_of_nat (unat p))"
    by (rule strchr_append) (rule assms(3))
  with assms show ?thesis
    by (simp add: sockaddr_pretty_def inet6_address_def port_suffix_def SIZEOF_SOCKADDR_IN6_def Let_def
        socket_address_parse_def socket_address_parse_in6_def port_word)
qed

definition loopback_names :: net_names where
  "loopback_names = \<lparr>inet_pton6 = \<lambda>s. Some [0, 0, 0, 0, 0, 0, 0, 0, 0, 0, 0, 0, 0, 0, 0, 1], inet_ntop6 = \<lambda>a. ''::1'', if_nametoindex = \<lambda>s. 0, have_sockstat6 = True\<rparr>"

theorem socket_address_parse_pretty6_witness:
  "obind (sockaddr_pretty loopback_names (sockaddr (inet6_address [0, 0, 0, 0, 0, 0, 0, 0, 0, 0, 0, 0, 0, 0, 0, 1] 514)) SIZEOF_SOCKADDR_IN6 True True)
     (case_sum (\<lambda>r. Abort) (\<lambda>s. Ret (socket_address_parse loopback_names s))) =
   Ret (0, inet6_address [0, 0, 0, 0, 0, 0, 0, 0, 0, 0, 0, 0, 0, 0, 0, 1] 514)"
  by (rule socket_address_parse_pretty6) (simp_all add: loopback_names_def ipv4_mapped_def)

text \<open>
  When parsing an address fails, the address it was to fill is left without a family, so the address that was configured before is lost.
\<close>

theorem socket_address_parse_error_family:
  "socket_address_parse ns s = (r, a) \<Longrightarrow> r \<noteq> 0 \<Longrightarrow> sa_family (sockaddr a) = AF_UNSPEC"
  by (auto simp: socket_address_parse_def socket_address_parse_in6_def socket_address_parse_unix_def
      socket_address_parse_host_def socket_address_parse_port_def stream_address_def zero_sockaddr_def Let_def
      split: list.splits option.splits if_splits sum.splits)

theorem socket_address_parse_error_family_witness:
  "fst (socket_address_parse loopback_names ''['') \<noteq> 0 \<and>
   sa_family (sockaddr (snd (socket_address_parse loopback_names ''[''))) = AF_UNSPEC"
proof -
  have "fst (socket_address_parse loopback_names ''['') \<noteq> 0"
    by (simp add: socket_address_parse_def socket_address_parse_in6_def)
  then show ?thesis using socket_address_parse_error_family [of loopback_names "''[''"] by (metis prod.collapse)
qed

lemma parse_port_error: "parse_port s = Inl r \<Longrightarrow> r < 0"
  by (auto simp: parse_port_def safe_atou_def Let_def split: sum.splits if_splits option.splits prod.splits)

lemma socket_address_parse_code: "socket_address_parse ns s = (r, a) \<Longrightarrow> r \<le> 0"
  by (auto simp: socket_address_parse_def socket_address_parse_in6_def socket_address_parse_unix_def
      socket_address_parse_host_def socket_address_parse_port_def Let_def
      split: list.splits option.splits if_splits sum.splits dest: parse_port_error)

text \<open>
  C29.  An IPv4 address with a port that is printed for the log is read back as the same address.
\<close>

theorem socket_address_roundtrip:
  assumes "0 < p"
  shows "obind (sockaddr_pretty ns (sockaddr (inet_address a p)) SIZEOF_SOCKADDR_IN tr True)
           (case_sum (\<lambda>r. Abort) (\<lambda>s. Ret (socket_address_parse ns s))) = Ret (0, inet_address a p)"
  using assms by (rule socket_address_parse_pretty4)

theorem socket_address_roundtrip_witness:
  "obind (sockaddr_pretty loopback_names (sockaddr (inet_address 0x7F000001 514)) SIZEOF_SOCKADDR_IN True True)
     (case_sum (\<lambda>r. Abort) (\<lambda>s. Ret (socket_address_parse loopback_names s))) = Ret (0, inet_address 0x7F000001 514)"
  by (rule socket_address_roundtrip) simp

end
