(* ===== verification/String_Table.thy ===== *)
theory String_Table
  imports Parse_Util
begin

text \<open>
  The lookup tables generated by \<open>src/share/string-table.h\<close> and their instances:
  protocols, log formats, facilities, levels (\<open>netlog-manager.c\<close>), certificate
  modes and transport types (\<open>netlog-ssl-common.c\<close>), and the syslog tables and the
  priority parser of \<open>syslog-util.c\<close>.  A C array with designated initialisers is a
  list of \<open>string option\<close>; the gaps are \<open>None\<close>.
\<close>

unbundle bit_operations_syntax

section \<open>Generic lookup\<close>

fun string_table_scan :: "string option list \<Rightarrow> string \<Rightarrow> int \<Rightarrow> int" where
  "string_table_scan [] key i = - 1"
| "string_table_scan (t # table) key i =
     (if streq_ptr t (Some key) then i else string_table_scan table key (i + 1))"

definition string_table_lookup :: "string option list \<Rightarrow> string option \<Rightarrow> int" where
  "string_table_lookup table key =
     (case key of None \<Rightarrow> - 1 | Some k \<Rightarrow> string_table_scan table k 0)"

definition table_to_string :: "string option list \<Rightarrow> int \<Rightarrow> string option" where
  \<comment> \<open>\<open>_DEFINE_STRING_TABLE_LOOKUP_TO_STRING\<close>\<close>
  "table_to_string table i =
     (if i < 0 \<or> int (length table) \<le> i then None else table ! nat i)"

definition table_from_string_fallback :: "string option list \<Rightarrow> u32 \<Rightarrow> string option \<Rightarrow> int" where
  \<comment> \<open>\<open>_DEFINE_STRING_TABLE_LOOKUP_FROM_STRING_FALLBACK\<close>\<close>
  "table_from_string_fallback table maxv s =
     (case s of
        None \<Rightarrow> - 1
      | Some k \<Rightarrow>
          (let i = string_table_scan table k 0
           in if 0 \<le> i then i
              else case safe_atou k of
                     Inr u \<Rightarrow> if u \<le> maxv then uint u else - 1
                   | Inl _ \<Rightarrow> - 1))"

definition table_to_string_alloc :: "string option list \<Rightarrow> int \<Rightarrow> int \<Rightarrow> string result outcome" where
  \<comment> \<open>\<open>_DEFINE_STRING_TABLE_LOOKUP_TO_STRING_FALLBACK\<close>; \<open>strdup(NULL)\<close> is a \<open>NULL\<close> access\<close>
  "table_to_string_alloc table maxv i =
     (if i < 0 \<or> maxv < i then Ret (Inl (- ERANGE))
      else if i < int (length table) then
        (case table ! nat i of None \<Rightarrow> Abort | Some s \<Rightarrow> Ret (Inr s))
      else Ret (Inr (dec_of_nat (nat i))))"

locale string_table =
  fixes table :: "string option list"
  assumes entries_distinct: "distinct (filter (\<lambda>e. e \<noteq> None) table)"
begin

lemma scan_found:
  "string_table_scan xs k i = j \<Longrightarrow> j \<noteq> - 1 \<Longrightarrow> 0 \<le> i \<Longrightarrow>
     i \<le> j \<and> nat (j - i) < length xs \<and> xs ! nat (j - i) = Some k"
proof (induction xs k i rule: string_table_scan.induct)
  case (1 k i)
  then show ?case by simp
next
  case (2 t xs k i)
  show ?case
  proof (cases "t = Some k")
    case True
    with 2 show ?thesis by auto
  next
    case False
    with 2 have IH: "i + 1 \<le> j \<and> nat (j - (i + 1)) < length xs \<and> xs ! nat (j - (i + 1)) = Some k"
      by simp
    then have "nat (j - i) = Suc (nat (j - (i + 1)))" by linarith
    with IH show ?thesis by auto
  qed
qed

lemma scan_hit:
  "distinct (filter (\<lambda>e. e \<noteq> None) xs) \<Longrightarrow> n < length xs \<Longrightarrow> xs ! n = Some k \<Longrightarrow>
     string_table_scan xs k i = i + int n"
proof (induction xs arbitrary: n i)
  case Nil
  then show ?case by simp
next
  case (Cons t xs)
  show ?case
  proof (cases n)
    case 0
    with Cons.prems show ?thesis by simp
  next
    case (Suc m)
    with Cons.prems have m: "m < length xs" "xs ! m = Some k" by auto
    then have "Some k \<in> set (filter (\<lambda>e. e \<noteq> None) xs)" by (auto simp: in_set_conv_nth)
    with Cons.prems(1) have "t \<noteq> Some k" by (cases t) auto
    moreover have "distinct (filter (\<lambda>e. e \<noteq> None) xs)" using Cons.prems(1) by (cases t) auto
    ultimately show ?thesis using Cons.IH [of m "i + 1"] m Suc by simp
  qed
qed

lemma from_to_string:
  "table_to_string table i = Some s \<Longrightarrow> string_table_lookup table (Some s) = i"
  using scan_hit [OF entries_distinct, of "nat i" s 0]
  by (auto simp: table_to_string_def string_table_lookup_def split: if_splits)

lemma to_from_string:
  "string_table_lookup table (Some s) = i \<Longrightarrow> 0 \<le> i \<Longrightarrow> table_to_string table i = Some s"
  using scan_found [of table s 0 i]
  by (auto simp: table_to_string_def string_table_lookup_def)

lemma lookup_range:
  "string_table_lookup table key = - 1 \<or>
   0 \<le> string_table_lookup table key \<and> string_table_lookup table key < int (length table)"
proof (cases key)
  case None
  then show ?thesis by (simp add: string_table_lookup_def)
next
  case (Some k)
  then show ?thesis using scan_found [of table k 0] by (fastforce simp: string_table_lookup_def)
qed

lemma lookup_iff:
  "string_table_lookup table (Some s) = i \<and> 0 \<le> i \<longleftrightarrow> table_to_string table i = Some s \<and> 0 \<le> i"
  using from_to_string to_from_string by blast

end

section \<open>Enumerations and tables of the daemon\<close>

datatype SysLogTransmissionProtocol =
    SYSLOG_TRANSMISSION_PROTOCOL_UDP
  | SYSLOG_TRANSMISSION_PROTOCOL_TCP
  | SYSLOG_TRANSMISSION_PROTOCOL_DTLS
  | SYSLOG_TRANSMISSION_PROTOCOL_TLS

datatype SysLogTransmissionLogFormat =
    SYSLOG_TRANSMISSION_LOG_FORMAT_RFC_5424
  | SYSLOG_TRANSMISSION_LOG_FORMAT_RFC_3164
  | SYSLOG_TRANSMISSION_LOG_FORMAT_RFC_5425

datatype OpenSSLCertificateAuthMode =
    OPEN_SSL_CERTIFICATE_AUTH_MODE_NONE
  | OPEN_SSL_CERTIFICATE_AUTH_MODE_ALLOW
  | OPEN_SSL_CERTIFICATE_AUTH_MODE_DENY
  | OPEN_SSL_CERTIFICATE_AUTH_MODE_WARN

text \<open>The values the enumerators have in C, and the cast of a value to the enumeration.\<close>

fun protocol_value :: "SysLogTransmissionProtocol \<Rightarrow> int" where
  "protocol_value SYSLOG_TRANSMISSION_PROTOCOL_UDP = 1"
| "protocol_value SYSLOG_TRANSMISSION_PROTOCOL_TCP = 2"
| "protocol_value SYSLOG_TRANSMISSION_PROTOCOL_DTLS = 4"
| "protocol_value SYSLOG_TRANSMISSION_PROTOCOL_TLS = 8"

definition protocol_of_value :: "int \<Rightarrow> SysLogTransmissionProtocol option" where
  "protocol_of_value v =
     (if v = 1 then Some SYSLOG_TRANSMISSION_PROTOCOL_UDP
      else if v = 2 then Some SYSLOG_TRANSMISSION_PROTOCOL_TCP
      else if v = 4 then Some SYSLOG_TRANSMISSION_PROTOCOL_DTLS
      else if v = 8 then Some SYSLOG_TRANSMISSION_PROTOCOL_TLS else None)"

fun log_format_value :: "SysLogTransmissionLogFormat \<Rightarrow> int" where
  "log_format_value SYSLOG_TRANSMISSION_LOG_FORMAT_RFC_5424 = 1"
| "log_format_value SYSLOG_TRANSMISSION_LOG_FORMAT_RFC_3164 = 2"
| "log_format_value SYSLOG_TRANSMISSION_LOG_FORMAT_RFC_5425 = 4"

definition log_format_of_value :: "int \<Rightarrow> SysLogTransmissionLogFormat option" where
  "log_format_of_value v =
     (if v = 1 then Some SYSLOG_TRANSMISSION_LOG_FORMAT_RFC_5424
      else if v = 2 then Some SYSLOG_TRANSMISSION_LOG_FORMAT_RFC_3164
      else if v = 4 then Some SYSLOG_TRANSMISSION_LOG_FORMAT_RFC_5425 else None)"

fun auth_mode_value :: "OpenSSLCertificateAuthMode \<Rightarrow> int" where
  "auth_mode_value OPEN_SSL_CERTIFICATE_AUTH_MODE_NONE = 0"
| "auth_mode_value OPEN_SSL_CERTIFICATE_AUTH_MODE_ALLOW = 1"
| "auth_mode_value OPEN_SSL_CERTIFICATE_AUTH_MODE_DENY = 2"
| "auth_mode_value OPEN_SSL_CERTIFICATE_AUTH_MODE_WARN = 3"

definition auth_mode_of_value :: "int \<Rightarrow> OpenSSLCertificateAuthMode option" where
  "auth_mode_of_value v =
     (if v = 0 then Some OPEN_SSL_CERTIFICATE_AUTH_MODE_NONE
      else if v = 1 then Some OPEN_SSL_CERTIFICATE_AUTH_MODE_ALLOW
      else if v = 2 then Some OPEN_SSL_CERTIFICATE_AUTH_MODE_DENY
      else if v = 3 then Some OPEN_SSL_CERTIFICATE_AUTH_MODE_WARN else None)"

definition protocol_table :: "string option list" where
  "protocol_table =
     [None, Some ''udp'', Some ''tcp'', None, Some ''dtls'', None, None, None, Some ''tls'']"

definition log_format_table :: "string option list" where
  "log_format_table = [None, Some ''rfc5424'', Some ''rfc3164'', None, Some ''rfc5425'']"

definition syslog_facility_table :: "string option list" where
  "syslog_facility_table = map Some
     [''kern'', ''user'', ''mail'', ''daemon'', ''auth'', ''syslog'', ''lpr'', ''news'', ''uucp'',
      ''cron'', ''authpriv'', ''ftp'', ''ntp'', ''security'', ''console'', ''solaris-cron'',
      ''local0'', ''local1'', ''local2'', ''local3'', ''local4'', ''local5'', ''local6'', ''local7'']"

definition syslog_level_table :: "string option list" where
  "syslog_level_table = map Some
     [''emerg'', ''alert'', ''crit'', ''err'', ''warning'', ''notice'', ''info'', ''debug'']"

definition certificate_auth_mode_table :: "string option list" where
  "certificate_auth_mode_table = map Some [''no'', ''allow'', ''deny'', ''warn'']"

definition log_facility_unshifted_table :: "string option list" where
  "log_facility_unshifted_table =
     map Some [''kern'', ''user'', ''mail'', ''daemon'', ''auth'', ''syslog'', ''lpr'', ''news'',
               ''uucp'', ''cron'', ''authpriv'', ''ftp''] @
     [None, None, None, None] @
     map Some [''local0'', ''local1'', ''local2'', ''local3'', ''local4'', ''local5'', ''local6'',
               ''local7'']"

definition log_level_table :: "string option list" where
  "log_level_table = map Some
     [''emerg'', ''alert'', ''crit'', ''err'', ''warning'', ''notice'', ''info'', ''debug'']"

lemmas table_defs = protocol_table_def log_format_table_def syslog_facility_table_def
  syslog_level_table_def certificate_auth_mode_table_def log_facility_unshifted_table_def
  log_level_table_def

interpretation protocol_tab: string_table protocol_table
  by unfold_locales (simp add: protocol_table_def)

interpretation log_format_tab: string_table log_format_table
  by unfold_locales (simp add: log_format_table_def)

interpretation facility_tab: string_table syslog_facility_table
  by unfold_locales (simp add: syslog_facility_table_def)

interpretation level_tab: string_table syslog_level_table
  by unfold_locales (simp add: syslog_level_table_def)

interpretation auth_mode_tab: string_table certificate_auth_mode_table
  by unfold_locales (simp add: certificate_auth_mode_table_def)

interpretation unshifted_tab: string_table log_facility_unshifted_table
  by unfold_locales (simp add: log_facility_unshifted_table_def)

interpretation log_level_tab: string_table log_level_table
  by unfold_locales (simp add: log_level_table_def)

definition protocol_to_string :: "SysLogTransmissionProtocol \<Rightarrow> string option" where
  "protocol_to_string v = table_to_string protocol_table (protocol_value v)"

text \<open>The result of \<open>protocol_from_string\<close>; \<open>None\<close> is the negative value of a failed lookup.\<close>

definition protocol_from_string :: "string option \<Rightarrow> SysLogTransmissionProtocol option" where
  "protocol_from_string s = protocol_of_value (string_table_lookup protocol_table s)"

definition log_format_to_string :: "SysLogTransmissionLogFormat \<Rightarrow> string option" where
  "log_format_to_string v = table_to_string log_format_table (log_format_value v)"

definition log_format_from_string :: "string option \<Rightarrow> SysLogTransmissionLogFormat option" where
  "log_format_from_string s = log_format_of_value (string_table_lookup log_format_table s)"

definition certificate_auth_mode_to_string :: "OpenSSLCertificateAuthMode \<Rightarrow> string option" where
  "certificate_auth_mode_to_string v =
     table_to_string certificate_auth_mode_table (auth_mode_value v)"

definition certificate_auth_mode_from_string :: "string option \<Rightarrow> OpenSSLCertificateAuthMode option" where
  "certificate_auth_mode_from_string s =
     auth_mode_of_value (string_table_lookup certificate_auth_mode_table s)"

definition syslog_facility_to_string :: "int \<Rightarrow> string option" where
  "syslog_facility_to_string v = table_to_string syslog_facility_table v"

definition syslog_facility_from_string :: "string option \<Rightarrow> int" where
  "syslog_facility_from_string s = string_table_lookup syslog_facility_table s"

definition syslog_level_to_string :: "int \<Rightarrow> string option" where
  "syslog_level_to_string v = table_to_string syslog_level_table v"

definition syslog_level_from_string :: "string option \<Rightarrow> int" where
  "syslog_level_from_string s = string_table_lookup syslog_level_table s"

section \<open>The syslog tables and the priority prefix\<close>

definition log_facility_unshifted_to_string_alloc :: "int \<Rightarrow> string result outcome" where
  "log_facility_unshifted_to_string_alloc i =
     table_to_string_alloc log_facility_unshifted_table 127 i"

definition log_facility_unshifted_from_string :: "string option \<Rightarrow> int" where
  "log_facility_unshifted_from_string s =
     table_from_string_fallback log_facility_unshifted_table 127 s"

definition log_facility_unshifted_is_valid :: "int \<Rightarrow> bool" where
  "log_facility_unshifted_is_valid facility \<longleftrightarrow> 0 \<le> facility \<and> facility \<le> 127"

definition log_level_to_string_alloc :: "int \<Rightarrow> string result outcome" where
  "log_level_to_string_alloc i = table_to_string_alloc log_level_table 7 i"

definition log_level_from_string :: "string option \<Rightarrow> int" where
  "log_level_from_string s = table_from_string_fallback log_level_table 7 s"

definition log_level_is_valid :: "int \<Rightarrow> bool" where
  "log_level_is_valid level \<longleftrightarrow> 0 \<le> level \<and> level \<le> 7"

text \<open>
  \<open>p[i]\<close>: a character, the terminator (\<open>CHR 0x00\<close>), or an access past the terminator.
\<close>

definition c_index :: "string \<Rightarrow> nat \<Rightarrow> char outcome" where
  "c_index p i =
     (if i < length p then Ret (p ! i) else if i = length p then Ret (CHR 0x00) else Abort)"

text \<open>
  The digits \<open>a\<close>, \<open>b\<close>, \<open>c\<close> and the length \<open>k\<close> of the prefix; \<open>None\<close> where no
  closing bracket stands at index 2, 3 or 4.
\<close>

definition priority_digits :: "string \<Rightarrow> (int \<times> int \<times> int \<times> nat) option outcome" where
  "priority_digits p =
     obind (c_index p 2) (\<lambda>c2.
       if c2 = CHR ''>'' then Ret (Some (0, 0, undecchar (p ! 1), 3))
       else obind (c_index p 3) (\<lambda>c3.
         if c3 = CHR ''>'' then Ret (Some (0, undecchar (p ! 1), undecchar (p ! 2), 4))
         else obind (c_index p 4) (\<lambda>c4.
           if c4 = CHR ''>''
           then Ret (Some (undecchar (p ! 1), undecchar (p ! 2), undecchar (p ! 3), 5))
           else Ret None)))"

text \<open>\<open>LOG_FACMASK\<close> is \<open>0x03f8\<close>; \<open>priority\<close> is a non-negative \<open>int\<close> in every caller.\<close>

definition syslog_parse_priority :: "string \<Rightarrow> u32 \<Rightarrow> bool \<Rightarrow> (int \<times> string \<times> u32) outcome" where
  "syslog_parse_priority p priority with_facility =
     (if p = [] \<or> hd p \<noteq> CHR ''<'' then Ret (0, p, priority)
      else if strchr p (CHR ''>'') = None then Ret (0, p, priority)
      else obind (priority_digits p) (\<lambda>d.
        case d of
          None \<Rightarrow> Ret (0, p, priority)
        | Some (a, b, c, k) \<Rightarrow>
            if a < 0 \<or> b < 0 \<or> c < 0 \<or>
               (\<not> with_facility \<and> (a \<noteq> 0 \<or> b \<noteq> 0 \<or> 7 < c))
            then Ret (0, p, priority)
            else Ret (1, drop k p,
              if with_facility then word_of_int (a * 100 + b * 10 + c)
              else (priority AND 0x03f8) OR word_of_int c)))"

section \<open>Facts\<close>

lemma protocol_roundtrip: "protocol_from_string (protocol_to_string v) = Some v"
  by (cases v) (simp_all add: protocol_from_string_def protocol_to_string_def protocol_table_def
      table_to_string_def string_table_lookup_def protocol_of_value_def)

lemma log_format_roundtrip: "log_format_from_string (log_format_to_string v) = Some v"
  by (cases v) (simp_all add: log_format_from_string_def log_format_to_string_def
      log_format_table_def table_to_string_def string_table_lookup_def log_format_of_value_def)

lemma auth_mode_roundtrip:
  "certificate_auth_mode_from_string (certificate_auth_mode_to_string v) = Some v"
  by (cases v) (simp_all add: certificate_auth_mode_from_string_def
      certificate_auth_mode_to_string_def certificate_auth_mode_table_def table_to_string_def
      string_table_lookup_def auth_mode_of_value_def)

text \<open>A failed cast is a failed lookup: no table entry lies outside the enumeration.\<close>

lemma protocol_from_string_None:
  "protocol_from_string s = None \<longleftrightarrow> string_table_lookup protocol_table s = - 1"
  by (cases s) (auto simp: protocol_from_string_def protocol_table_def string_table_lookup_def
      protocol_of_value_def)

lemma log_format_from_string_None:
  "log_format_from_string s = None \<longleftrightarrow> string_table_lookup log_format_table s = - 1"
  by (cases s) (auto simp: log_format_from_string_def log_format_table_def string_table_lookup_def
      log_format_of_value_def)

lemma auth_mode_from_string_None:
  "certificate_auth_mode_from_string s = None \<longleftrightarrow>
   string_table_lookup certificate_auth_mode_table s = - 1"
  by (cases s) (auto simp: certificate_auth_mode_from_string_def certificate_auth_mode_table_def
      string_table_lookup_def auth_mode_of_value_def)

lemma syslog_facility_from_string_range:
  "syslog_facility_from_string s = - 1 \<or>
   0 \<le> syslog_facility_from_string s \<and> syslog_facility_from_string s < 24"
  using facility_tab.lookup_range [of s]
  by (simp add: syslog_facility_from_string_def syslog_facility_table_def)

lemma syslog_level_from_string_range:
  "syslog_level_from_string s = - 1 \<or>
   0 \<le> syslog_level_from_string s \<and> syslog_level_from_string s < 8"
  using level_tab.lookup_range [of s]
  by (simp add: syslog_level_from_string_def syslog_level_table_def)

text \<open>
  The names of syslog facilities and levels are one to one: a name is found at a value exactly when that value prints as the name.
\<close>

theorem syslog_names_inverse:
  "(syslog_facility_from_string (Some s) = i \<and> 0 \<le> i \<longleftrightarrow> syslog_facility_to_string i = Some s \<and> 0 \<le> i) \<and>
   (syslog_level_from_string (Some s) = i \<and> 0 \<le> i \<longleftrightarrow> syslog_level_to_string i = Some s \<and> 0 \<le> i)"
  using facility_tab.lookup_iff [of s i] level_tab.lookup_iff [of s i]
  by (simp add: syslog_facility_from_string_def syslog_facility_to_string_def syslog_level_from_string_def syslog_level_to_string_def)

end
