(* ===== verification/Sys.thy ===== *)
theory Sys
  imports Time_Util Socket_Addr String_Table
begin

text \<open>
  The world outside the program and the thin wrappers around it
  (\<open>src/share/fd-util.c\<close>, \<open>src/share/io-util.c\<close>, the socket options of
  \<open>src/share/socket-util.[ch]\<close>).

  A run of the program is the list of the calls it made to the kernel, OpenSSL, sd-journal,
  sd-event and the other libraries, newest first.  The answers come from an environment
  that may depend on the whole history: every theorem holds for every environment, so
  for every behaviour of the kernel and the libraries that a hypothesis does not exclude.
\<close>

section \<open>Calls and answers\<close>

datatype SSLTransportType = SSL_TRANSPORT_TLS | SSL_TRANSPORT_DTLS

datatype journal_source = Journal_directory string | Journal_namespace string int | Journal_local

datatype net_call =
    Socket int int int
  | Connect int sockaddr nat
  | Sendmsg int "string list" sockaddr nat
  | Ppoll int int "timespec option"
  | Setsockopt int int int int
  | Getsockopt int int int
  | Shutdown int
  | Close int
  | Fcntl int int int
  | Read int nat

datatype ssl_call =
    CTX_new SSLTransportType | CTX_load_verify_file string | CTX_set_default_verify_paths
  | CTX_set_verify_depth int | CTX_free
  | Ssl_new | Ssl_set_fd int | Ssl_set_verify bool | Ssl_set_mode | Ssl_connect
  | Ssl_write string | Ssl_get_error int | Ssl_shutdown | Ssl_free
  | Bio_new_dgram int | Bio_set_connected sockaddr | Bio_set_recv_timeout nat | Bio_free

datatype journal_call =
    Journal_open journal_source | Journal_set_data_threshold | Journal_get_fd | Journal_get_events
  | Journal_seek_cursor string | Journal_next | Journal_previous | Journal_get_cursor
  | Journal_restart_data | Journal_enumerate_data | Journal_get_realtime | Journal_process | Journal_close

datatype event_call =
    Event_default | Event_add_io int int | Event_add_time u64 | Event_add_signal int
  | Event_source_unref | Event_set_watchdog | Event_exit int | Event_unref
  | Resolve_default | Resolve_attach_event | Resolve_getaddrinfo string int
  | Resolve_query_unref | Resolve_unref

datatype other_call =
    Notify string | Sigprocmask | Localtime int | Debug_enabled | Res_init

datatype file_call =
    Mkostemp string | Fdopen | Fchmod nat | Fputs string | Fflush | Fclose
  | Rename string string | Unlink string | Open_read string
  | Inotify_init | Inotify_add_watch int string u32 | Inotify_rm_watch int int

datatype cap_flag = CAP_EFFECTIVE | CAP_PERMITTED | CAP_INHERITABLE

text \<open>A \<open>cap_t\<close>: whether it started as the capabilities of the process or empty, and the changes made to it.\<close>

type_synonym cap_t = "bool \<times> (cap_flag \<times> nat list \<times> bool) list"

datatype proc_call =
    Umask nat | Mkdir string nat | Stat string bool | Chmod string nat | Chown string u32 u32
  | Open string int nat | Fd_chmod int nat | Fd_chown int u32 u32 | Futimens int "timespec option"
  | Getpwnam string | Getpwuid u32
  | Setresgid u32 | Setgroups | Setresuid u32 | Prctl int int
  | Cap_get_proc | Cap_get_flag nat cap_flag | Cap_dup | Cap_init | Cap_set_flag cap_flag "nat list" bool | Cap_set_proc cap_t

datatype call = Clock | Realtime_clock | Net net_call | Ssl ssl_call | Journal journal_call
  | Event event_call | Other other_call | File file_call | Proc proc_call

type_synonym world = "call list"

text \<open>
  \<open>ans\<close>: the integer a call returns, where a failing system call that sets \<open>errno\<close> is the
  negative \<open>errno\<close>.  \<open>val\<close>: the integer it stores through a pointer; \<open>len\<close>: the length it
  stores; \<open>out\<close>: the string; \<open>time\<close>: the time in microseconds; \<open>localtime\<close>: the broken-down
  local time that \<open>localtime_r\<close> computes from the time zone database.
\<close>

record tm =
  tm_year :: int
  tm_mon :: nat
  tm_mday :: nat
  tm_hour :: nat
  tm_min :: nat
  tm_sec :: nat
  tm_gmtoff :: int

record env =
  ans :: "world \<Rightarrow> call \<Rightarrow> int"
  val :: "world \<Rightarrow> call \<Rightarrow> int"
  len :: "world \<Rightarrow> call \<Rightarrow> nat"
  out :: "world \<Rightarrow> call \<Rightarrow> string"
  time :: "world \<Rightarrow> call \<Rightarrow> u64"
  names :: net_names
  localtime :: "int \<Rightarrow> tm"

definition sys :: "env \<Rightarrow> call \<Rightarrow> world \<Rightarrow> int \<times> world" where
  "sys e c w = (ans e w c, c # w)"

lemma sys_simps [simp]: "fst (sys e c w) = ans e w c" "snd (sys e c w) = c # w"
  by (simp_all add: sys_def)

text \<open>The calls of a run only grow; \<open>grows P w w'\<close>: each call made since \<open>w\<close> satisfies \<open>P\<close>.\<close>

definition grows :: "(call \<Rightarrow> bool) \<Rightarrow> world \<Rightarrow> world \<Rightarrow> bool" where
  "grows P w w' \<longleftrightarrow> (\<exists>l. w' = l @ w \<and> (\<forall>c\<in>set l. P c))"

lemma grows_refl [simp, intro]: "grows P w w"
  by (simp add: grows_def)

lemma grows_Cons [intro]: "grows P w w' \<Longrightarrow> P c \<Longrightarrow> grows P w (c # w')"
  unfolding grows_def by (metis append_Cons set_ConsD)

lemma grows_trans: "grows P w w' \<Longrightarrow> grows P w' w'' \<Longrightarrow> grows P w w''"
  by (fastforce simp: grows_def)

lemma grows_mono: "grows P w w' \<Longrightarrow> (\<And>c. P c \<Longrightarrow> Q c) \<Longrightarrow> grows Q w w'"
  by (auto simp: grows_def)

lemma grows_append: "grows P w w' \<Longrightarrow> \<exists>l. w' = l @ w"
  by (auto simp: grows_def)

section \<open>Error values of the log functions\<close>

text \<open>
  \<open>SYNTHETIC_ERRNO\<close> of \<open>src/share/log.h\<close> marks a made-up error with bit 30, and
  \<open>log_full_errno\<close> returns the negative of whatever it was given: the mark stays in the
  result.
\<close>

definition SYNTHETIC_ERRNO :: "int \<Rightarrow> int" where
  "SYNTHETIC_ERRNO num = (1073741824 OR num)"

definition log_full_errno :: "int \<Rightarrow> int" where
  "log_full_errno error = - \<bar>error\<bar>"

lemma log_full_errno_neg [simp]: "r < 0 \<Longrightarrow> log_full_errno r = r"
  by (simp add: log_full_errno_def)

section \<open>File descriptors\<close>

abbreviation (input) F_GETFD :: int where "F_GETFD \<equiv> 1"
abbreviation (input) F_SETFD :: int where "F_SETFD \<equiv> 2"
abbreviation (input) F_GETFL :: int where "F_GETFL \<equiv> 3"
abbreviation (input) F_SETFL :: int where "F_SETFL \<equiv> 4"
abbreviation (input) F_DUPFD :: int where "F_DUPFD \<equiv> 0"
abbreviation (input) F_DUPFD_CLOEXEC :: int where "F_DUPFD_CLOEXEC \<equiv> 1030"
abbreviation (input) FD_CLOEXEC :: int where "FD_CLOEXEC \<equiv> 1"
abbreviation (input) O_NONBLOCK :: int where "O_NONBLOCK \<equiv> 2048"

definition close_nointr :: "env \<Rightarrow> int \<Rightarrow> world \<Rightarrow> (int \<times> world) outcome" where
  "close_nointr e fd w =
     c_assert (0 \<le> fd)
      (let (r, w) = sys e (Net (Close fd)) w
       in if 0 \<le> r then Ret (0, w)
          else if r = - EINTR then Ret (0, w)
          else Ret (r, w))"

definition safe_close :: "env \<Rightarrow> int \<Rightarrow> world \<Rightarrow> (int \<times> world) outcome" where
  "safe_close e fd w =
     (if 0 \<le> fd
      then obind (close_nointr e fd w) (\<lambda>(r, w). c_assert (r \<noteq> - EBADF) (Ret (-1, w)))
      else Ret (-1, w))"

fun close_many :: "env \<Rightarrow> int list \<Rightarrow> world \<Rightarrow> (unit \<times> world) outcome" where
  "close_many e [] w = Ret ((), w)"
| "close_many e (fd # fds) w = obind (safe_close e fd w) (\<lambda>(_, w). close_many e fds w)"

definition fd_cloexec :: "env \<Rightarrow> int \<Rightarrow> bool \<Rightarrow> world \<Rightarrow> (int \<times> world) outcome" where
  "fd_cloexec e fd cloexec w =
     c_assert (0 \<le> fd)
      (let (flags, w) = sys e (Net (Fcntl fd F_GETFD 0)) w
       in if flags < 0 then Ret (flags, w)
          else let nflags = (if cloexec then flags OR FD_CLOEXEC else flags AND NOT FD_CLOEXEC)
               in if nflags = flags then Ret (0, w)
                  else let (r, w) = sys e (Net (Fcntl fd F_SETFD nflags)) w
                       in if r < 0 then Ret (r, w) else Ret (0, w))"

definition fd_nonblock :: "env \<Rightarrow> int \<Rightarrow> bool \<Rightarrow> world \<Rightarrow> (int \<times> world) outcome" where
  "fd_nonblock e fd nonblock w =
     c_assert (0 \<le> fd)
      (let (flags, w) = sys e (Net (Fcntl fd F_GETFL 0)) w
       in if flags < 0 then Ret (flags, w)
          else let nflags = (if nonblock then flags OR O_NONBLOCK else flags AND NOT O_NONBLOCK)
               in if nflags = flags then Ret (0, w)
                  else Ret (sys e (Net (Fcntl fd F_SETFL nflags)) w))"

definition stdio_unset_cloexec :: "env \<Rightarrow> world \<Rightarrow> (unit \<times> world) outcome" where
  "stdio_unset_cloexec e w =
     obind (fd_cloexec e 0 False w) (\<lambda>(_, w).
     obind (fd_cloexec e 1 False w) (\<lambda>(_, w).
     obind (fd_cloexec e 2 False w) (\<lambda>(_, w). Ret ((), w))))"

definition fd_move_above_stdio :: "env \<Rightarrow> int \<Rightarrow> world \<Rightarrow> (int \<times> world) outcome" where
  "fd_move_above_stdio e fd w =
     (if fd < 0 \<or> 2 < fd then Ret (fd, w)
      else let (flags, w) = sys e (Net (Fcntl fd F_GETFD 0)) w
           in if flags < 0 then Ret (fd, w)
              else let (copy, w) = sys e (Net (Fcntl fd (if flags AND FD_CLOEXEC \<noteq> 0 then F_DUPFD_CLOEXEC else F_DUPFD) 3)) w
                   in if copy < 0 then Ret (fd, w)
                      else c_assert (2 < copy) (let (_, w) = sys e (Net (Close fd)) w in Ret (copy, w)))"

section \<open>Waiting and reading\<close>

abbreviation (input) POLLIN :: int where "POLLIN \<equiv> 1"
abbreviation (input) POLLOUT :: int where "POLLOUT \<equiv> 4"

definition fd_wait_for_event :: "env \<Rightarrow> int \<Rightarrow> int \<Rightarrow> u64 \<Rightarrow> world \<Rightarrow> int \<times> world" where
  "fd_wait_for_event e fd event t w =
     (let c = Net (Ppoll fd event (if t = USEC_INFINITY then None else Some (timespec_store t)));
          (r, w') = sys e c w
      in if r < 0 then (r, w') else if r = 0 then (0, w') else (val e w c, w'))"

text \<open>
  The loop of \<open>loop_read\<close>: \<open>buf\<close> is what was read, \<open>nbytes\<close> what is still wanted.  A
  \<open>continue\<close> in a \<open>do ... while\<close> goes to the condition, so it ends the loop when no byte
  is wanted.
\<close>

fun loop_read_loop :: "nat \<Rightarrow> env \<Rightarrow> int \<Rightarrow> nat \<Rightarrow> bool \<Rightarrow> string \<Rightarrow> world \<Rightarrow> (int \<times> string \<times> world) outcome" where
  "loop_read_loop 0 e fd nbytes do_poll buf w = Diverge"
| "loop_read_loop (Suc fuel) e fd nbytes do_poll buf w =
     (let (k, w') = sys e (Net (Read fd nbytes)) w
      in if k < 0 then
           (if k = - EINTR \<or> k = - EAGAIN \<and> do_poll then
              (let w'' = (if k = - EINTR then w' else snd (fd_wait_for_event e fd POLLIN USEC_INFINITY w'))
               in if 0 < nbytes then loop_read_loop fuel e fd nbytes do_poll buf w''
                  else Ret (int (length buf), buf, w''))
            else Ret (if buf \<noteq> [] then int (length buf) else k, buf, w'))
         else if k = 0 then Ret (int (length buf), buf, w')
         else c_assert (nat k \<le> nbytes)
           (let buf = buf @ take (nat k) (out e w (Net (Read fd nbytes))); nbytes = nbytes - nat k
            in if 0 < nbytes then loop_read_loop fuel e fd nbytes do_poll buf w'
               else Ret (int (length buf), buf, w')))"

definition SSIZE_MAX :: nat where "SSIZE_MAX = 2 ^ 63 - 1"

definition loop_read :: "nat \<Rightarrow> env \<Rightarrow> int \<Rightarrow> nat \<Rightarrow> bool \<Rightarrow> world \<Rightarrow> (int \<times> string \<times> world) outcome" where
  "loop_read fuel e fd nbytes do_poll w =
     c_assert (0 \<le> fd)
      (if SSIZE_MAX < nbytes then Ret (- EINVAL, [], w)
       else loop_read_loop fuel e fd nbytes do_poll [] w)"

definition loop_read_exact :: "nat \<Rightarrow> env \<Rightarrow> int \<Rightarrow> nat \<Rightarrow> bool \<Rightarrow> world \<Rightarrow> (int \<times> string \<times> world) outcome" where
  "loop_read_exact fuel e fd nbytes do_poll w =
     obind (loop_read fuel e fd nbytes do_poll w) (\<lambda>(n, buf, w).
       if n < 0 then Ret (n, buf, w)
       else if nat n \<noteq> nbytes then Ret (- EIO, buf, w)
       else Ret (0, buf, w))"

section \<open>Socket options\<close>

abbreviation (input) SOL_SOCKET :: int where "SOL_SOCKET \<equiv> 1"
abbreviation (input) SO_SNDBUF :: int where "SO_SNDBUF \<equiv> 7"
abbreviation (input) SO_RCVBUF :: int where "SO_RCVBUF \<equiv> 8"
abbreviation (input) SO_KEEPALIVE :: int where "SO_KEEPALIVE \<equiv> 9"
abbreviation (input) SO_SNDBUFFORCE :: int where "SO_SNDBUFFORCE \<equiv> 32"
abbreviation (input) SO_RCVBUFFORCE :: int where "SO_RCVBUFFORCE \<equiv> 33"
abbreviation (input) IPPROTO_IP :: int where "IPPROTO_IP \<equiv> 0"
abbreviation (input) IPPROTO_TCP :: int where "IPPROTO_TCP \<equiv> 6"
abbreviation (input) IP_MULTICAST_LOOP :: int where "IP_MULTICAST_LOOP \<equiv> 34"
abbreviation (input) TCP_NODELAY :: int where "TCP_NODELAY \<equiv> 1"
abbreviation (input) TCP_KEEPIDLE :: int where "TCP_KEEPIDLE \<equiv> 4"
abbreviation (input) TCP_KEEPINTVL :: int where "TCP_KEEPINTVL \<equiv> 5"
abbreviation (input) TCP_KEEPCNT :: int where "TCP_KEEPCNT \<equiv> 6"

definition INT_MAX :: nat where "INT_MAX = 2 ^ 31 - 1"

text \<open>Conversion of a 64-bit unsigned value to \<open>int\<close>.\<close>

definition to_int :: "u64 \<Rightarrow> int" where
  "to_int v = sint (ucast v :: u32)"

definition setsockopt_int :: "env \<Rightarrow> int \<Rightarrow> int \<Rightarrow> int \<Rightarrow> int \<Rightarrow> world \<Rightarrow> int \<times> world" where
  "setsockopt_int e fd level optname v w =
     (let (r, w) = sys e (Net (Setsockopt fd level optname v)) w in if r < 0 then (r, w) else (0, w))"

definition getsockopt_int :: "env \<Rightarrow> int \<Rightarrow> int \<Rightarrow> int \<Rightarrow> world \<Rightarrow> int result \<times> world" where
  "getsockopt_int e fd level optname w =
     (let c = Net (Getsockopt fd level optname); (r, w') = sys e c w
      in if r < 0 then (Inl r, w')
         else if len e w c \<noteq> 4 then (Inl (- EIO), w')
         else (Inr (val e w c), w'))"

definition fd_inc_buf :: "int \<Rightarrow> int \<Rightarrow> env \<Rightarrow> int \<Rightarrow> u64 \<Rightarrow> world \<Rightarrow> int \<times> world" where
  "fd_inc_buf opt force e fd n w =
     (let c = Net (Getsockopt fd SOL_SOCKET opt); (r, w') = sys e c w
      in if 0 \<le> r \<and> len e w c = 4 \<and> n * 2 \<le> word_of_int (val e w c) then (0, w')
         else let (r, w') = sys e (Net (Setsockopt fd SOL_SOCKET force (to_int n))) w'
              in if r < 0
                 then let (r, w') = sys e (Net (Setsockopt fd SOL_SOCKET opt (to_int n))) w'
                      in if r < 0 then (r, w') else (1, w')
                 else (1, w'))"

definition fd_inc_sndbuf :: "env \<Rightarrow> int \<Rightarrow> u64 \<Rightarrow> world \<Rightarrow> int \<times> world" where
  "fd_inc_sndbuf = fd_inc_buf SO_SNDBUF SO_SNDBUFFORCE"

definition fd_inc_rcvbuf :: "env \<Rightarrow> int \<Rightarrow> u64 \<Rightarrow> world \<Rightarrow> int \<times> world" where
  "fd_inc_rcvbuf = fd_inc_buf SO_RCVBUF SO_RCVBUFFORCE"

text \<open>
  The test of \<open>fd_set_sndbuf\<close>.  The conditional operator binds weaker than \<open>&&\<close>, so a
  call with \<open>increase\<close> false compares \<open>value\<close> whatever \<open>getsockopt\<close> returned; \<open>val\<close> is
  what the variable holds after the call.
\<close>

definition sndbuf_matches :: "env \<Rightarrow> world \<Rightarrow> call \<Rightarrow> int \<Rightarrow> u64 \<Rightarrow> bool \<Rightarrow> bool" where
  "sndbuf_matches e w c r n increase \<longleftrightarrow>
     (if 0 \<le> r \<and> len e w c = 4 \<and> increase then n * 2 \<le> word_of_int (val e w c)
      else word_of_int (val e w c) = n * 2)"

definition fd_set_sndbuf :: "env \<Rightarrow> int \<Rightarrow> u64 \<Rightarrow> bool \<Rightarrow> world \<Rightarrow> int \<times> world" where
  "fd_set_sndbuf e fd n increase w =
     (if of_nat INT_MAX < n then (- ERANGE, w)
      else let c = Net (Getsockopt fd SOL_SOCKET SO_SNDBUF); (r, w1) = sys e c w
           in if sndbuf_matches e w c r n increase then (0, w1)
              else let (r, w2) = setsockopt_int e fd SOL_SOCKET SO_SNDBUF (to_int n) w1
                   in if r < 0 then (r, w2)
                      else let (r, w3) = sys e c w2
                           in if sndbuf_matches e w2 c r n increase then (1, w3)
                              else let (r, w4) = setsockopt_int e fd SOL_SOCKET SO_SNDBUFFORCE (to_int n) w3
                                   in if r < 0 then (r, w4) else (1, w4))"

section \<open>Facts\<close>

definition close_ok :: "env \<Rightarrow> bool" where
  \<comment> \<open>the kernel never reports that a descriptor being closed was not open\<close>
  "close_ok e \<longleftrightarrow> (\<forall>w fd. ans e w (Net (Close fd)) \<noteq> - EBADF)"

lemma safe_close_ok:
  "close_ok e \<Longrightarrow> safe_close e fd w = Ret (-1, if 0 \<le> fd then Net (Close fd) # w else w)"
  by (auto simp: safe_close_def close_nointr_def close_ok_def sys_def)

text \<open>Whatever the kernel answers, \<open>safe_close\<close> leaves the invalid descriptor behind.\<close>

lemma safe_close_value: "safe_close e fd w = Ret (r, w') \<Longrightarrow> r = -1"
  by (auto simp: safe_close_def c_assert_def obind_eq_Ret split: if_splits)

lemma setsockopt_int_le0: "fst (setsockopt_int e fd level optname v w) \<le> 0"
  by (simp add: setsockopt_int_def sys_def)

lemma setsockopt_int_world: "snd (setsockopt_int e fd level optname v w) = Net (Setsockopt fd level optname v) # w"
  by (simp add: setsockopt_int_def sys_def)

text \<open>A send buffer that is requested and granted is reported as granted.\<close>

lemma fd_set_sndbuf_range: "of_nat INT_MAX < n \<Longrightarrow> fd_set_sndbuf e fd n inc w = (- ERANGE, w)"
  by (simp add: fd_set_sndbuf_def)

definition sockopt_call :: "int \<Rightarrow> call \<Rightarrow> bool" where
  "sockopt_call fd c \<longleftrightarrow> (\<exists>l p. c = Net (Getsockopt fd l p)) \<or> (\<exists>l p v. c = Net (Setsockopt fd l p v))"

lemma fd_set_sndbuf_calls: "grows (sockopt_call fd) w (snd (fd_set_sndbuf e fd n inc w))"
  by (auto simp: fd_set_sndbuf_def sys_def setsockopt_int_def Let_def sockopt_call_def
      intro!: grows_Cons split: prod.splits)

end
