(* ===== verification/Iovec.thy ===== *)
theory Iovec
  imports Prelude
begin

text \<open>
  \<open>src/share/iovec-util.c\<close> and the inline functions of \<open>src/share/io-util.h\<close>.  A
  \<open>struct iovec\<close> is the list of the bytes it points at, so \<open>iov_len\<close> is its length.
\<close>

type_synonym iovec = "string list"

definition iovec_total_size :: "iovec \<Rightarrow> u64" where
  "iovec_total_size iov = foldl (\<lambda>sum j. sum + of_nat (length j)) 0 iov"

definition IOVEC_TOTAL_SIZE :: "iovec \<Rightarrow> u64" where
  "IOVEC_TOTAL_SIZE iov = iovec_total_size iov"

text \<open>\<open>iovec_increment\<close>: the answer and the vector that is left.\<close>

fun iovec_increment :: "iovec \<Rightarrow> nat \<Rightarrow> (bool \<times> iovec) outcome" where
  "iovec_increment [] k = c_assert (k = 0) (Ret (True, []))"
| "iovec_increment (j # iov) k =
     (if j = [] then obind (iovec_increment iov k) (\<lambda>(b, iov'). Ret (b, j # iov'))
      else if k = 0 then Ret (False, j # iov)
      else let sub = min (length j) k
           in obind (iovec_increment iov (k - sub)) (\<lambda>(b, iov'). Ret (b, drop sub j # iov')))"

fun IOVEC_INCREMENT :: "iovec \<Rightarrow> nat \<Rightarrow> nat \<times> iovec" where
  "IOVEC_INCREMENT [] k = (k, [])"
| "IOVEC_INCREMENT (j # iov) k =
     (if k = 0 then (k, j # iov)
      else let sub = min (length j) k; (k', iov') = IOVEC_INCREMENT iov (k - sub)
           in (k', drop sub j # iov'))"

lemma foldl_sum_word:
  "foldl (\<lambda>sum j. sum + of_nat (length j)) (s :: u64) iov = s + of_nat (length (concat iov))"
  by (induction iov arbitrary: s) auto

lemma iovec_total_size_concat: "iovec_total_size iov = of_nat (length (concat iov))"
  by (simp add: iovec_total_size_def foldl_sum_word)

lemma unat_iovec_total_size:
  "length (concat iov) < 2 ^ 64 \<Longrightarrow> unat (iovec_total_size iov) = length (concat iov)"
  by (simp add: iovec_total_size_concat unat_of_nat)

text \<open>
  Both functions drop exactly the bytes that were written.  When all of them were
  written, \<open>iovec_increment\<close> answers true; it also does when a write ended inside the last
  nonempty element.
\<close>

lemma iovec_increment_partial: "iovec_increment [''ab''] 1 = Ret (True, [''b''])"
  by simp

text \<open>
  Advancing a vector by what was written leaves exactly the unwritten bytes, in as many elements, and reports completion when nothing is left.
\<close>

theorem iovec_increment_drop:
  "k \<le> length (concat iov) \<Longrightarrow>
     \<exists>b iov'. iovec_increment iov k = Ret (b, iov') \<and> concat iov' = drop k (concat iov) \<and>
       (k = length (concat iov) \<longrightarrow> b) \<and> length iov' = length iov"
proof (induction iov arbitrary: k)
  case Nil
  then show ?case by auto
next
  case (Cons j iov)
  show ?case
  proof (cases "j = [] \<or> k = 0")
    case True
    then show ?thesis
    proof (cases "j = []")
      case True
      with Cons.IH [of k] Cons.prems obtain b iov' where
        "iovec_increment iov k = Ret (b, iov')" "concat iov' = drop k (concat iov)"
        "k = length (concat iov) \<longrightarrow> b" "length iov' = length iov" by auto
      with True show ?thesis by simp
    next
      case False
      with True show ?thesis by auto
    qed
  next
    case False
    from Cons.prems have "k - min (length j) k \<le> length (concat iov)" by auto
    from Cons.IH [OF this] obtain b iov' where
      "iovec_increment iov (k - min (length j) k) = Ret (b, iov')"
      "concat iov' = drop (k - min (length j) k) (concat iov)"
      "k - min (length j) k = length (concat iov) \<longrightarrow> b" "length iov' = length iov" by blast
    with False show ?thesis by (auto simp: Let_def min_def)
  qed
qed

theorem iovec_increment_drop_witness:
  "\<exists>b iov'. iovec_increment [''ab'', ''c''] 2 = Ret (b, iov') \<and> concat iov' = ''c''"
  using iovec_increment_drop [of 2 "[''ab'', ''c'']"] by auto

lemma IOVEC_INCREMENT_drop:
  "IOVEC_INCREMENT iov k = (k', iov') \<Longrightarrow>
     concat iov' = drop k (concat iov) \<and> k' = k - length (concat iov)"
proof (induction iov arbitrary: k k' iov')
  case Nil
  then show ?case by simp
next
  case (Cons j iov)
  obtain k1 iov1 where r: "IOVEC_INCREMENT iov (k - min (length j) k) = (k1, iov1)" by fastforce
  with Cons.IH [OF r] Cons.prems show ?case by (auto simp: Let_def min_def split: if_splits)
qed

end
