(* ===== verification/Ssl.thy ===== *)
theory Ssl
  imports Sys Iovec
begin

text \<open>
  \<open>src/netlog/netlog-ssl-common.c\<close>, \<open>netlog-ssl.c\<close> and the wrappers of \<open>netlog-tls.h\<close> and
  \<open>netlog-dtls.h\<close>: TLS and DTLS connections.  The OpenSSL objects are represented by
  whether the pointer is set; OpenSSL itself is part of the environment.
\<close>

section \<open>State\<close>

record SSLManager =
  ssl_ctx :: bool
  ssl_ssl :: bool
  ssl_pretty_address :: "string option"
  ssl_fd :: int
  ssl_connected :: bool
  ssl_auth_mode :: OpenSSLCertificateAuthMode
  ssl_transport_type :: SSLTransportType

fun ssl_transport_type_to_string :: "SSLTransportType \<Rightarrow> string" where
  "ssl_transport_type_to_string SSL_TRANSPORT_TLS = ''TLS''"
| "ssl_transport_type_to_string SSL_TRANSPORT_DTLS = ''DTLS''"

section \<open>Writing\<close>

abbreviation (input) SSL_ERROR_WANT_READ :: int where "SSL_ERROR_WANT_READ \<equiv> 2"
abbreviation (input) SSL_ERROR_WANT_WRITE :: int where "SSL_ERROR_WANT_WRITE \<equiv> 3"

definition ssl_write :: "env \<Rightarrow> SSLManager \<Rightarrow> string \<Rightarrow> u64 \<Rightarrow> world \<Rightarrow> (int \<times> world) outcome" where
  "ssl_write e m buf count w =
     c_assert (ssl_ssl m) (c_assert (ssl_pretty_address m \<noteq> None) (c_assert (0 < count)
      (c_assert (count < of_nat INT_MAX)
       (let (r, w) = sys e (Ssl (Ssl_write buf)) w
        in if r \<le> 0
           then let (err, w) = sys e (Ssl (Ssl_get_error r)) w
                in if err = SSL_ERROR_WANT_READ \<or> err = SSL_ERROR_WANT_WRITE
                   then Ret (log_full_errno (SYNTHETIC_ERRNO EAGAIN), w)
                   else Ret (log_full_errno (SYNTHETIC_ERRNO EPIPE), w)
           else Ret (0, w)))))"

definition ssl_writev :: "env \<Rightarrow> SSLManager \<Rightarrow> iovec \<Rightarrow> world \<Rightarrow> (int \<times> world) outcome" where
  "ssl_writev e m iov w =
     (let count = iovec_total_size iov
      in c_assert (0 < count) (ssl_write e m (concat iov) count w))"

section \<open>Connecting\<close>

definition ssl_setup_certificate_verification :: "SSLManager \<Rightarrow> world \<Rightarrow> world" where
  \<comment> \<open>\<open>Ssl_set_verify True\<close>: \<open>SSL_VERIFY_PEER | SSL_VERIFY_FAIL_IF_NO_PEER_CERT\<close> with the callback\<close>
  "ssl_setup_certificate_verification m w =
     (if ssl_auth_mode m \<noteq> OPEN_SSL_CERTIFICATE_AUTH_MODE_NONE then Ssl (Ssl_set_verify True) # w
      else Ssl (Ssl_set_verify False) # w)"

definition ssl_connect_tls :: "env \<Rightarrow> SSLManager \<Rightarrow> sockaddr \<Rightarrow> int \<Rightarrow> world \<Rightarrow> (int \<times> SSLManager \<times> world) outcome" where
  "ssl_connect_tls e m address fd w =
     c_assert (ssl_ctx m) (c_assert (0 \<le> fd)
      (let (ssl, w) = sys e (Ssl Ssl_new) w
       in if ssl = 0 then Ret (log_full_errno (SYNTHETIC_ERRNO ENOMEM), m, w)
          else let (r, w) = sys e (Ssl (Ssl_set_fd fd)) w
               in if r \<le> 0 then Ret (log_full_errno (SYNTHETIC_ERRNO EIO), m, Ssl Ssl_free # w)
                  else let w = ssl_setup_certificate_verification m w;
                           w = Ssl Ssl_set_mode # w;
                           (r, w) = sys e (Ssl Ssl_connect) w
                       in if r \<le> 0 then Ret (log_full_errno (SYNTHETIC_ERRNO ENOMEM), m, Ssl Ssl_free # w)
                          else Ret (0, m\<lparr>ssl_ssl := True\<rparr>, w)))"

definition ssl_connect_dtls :: "env \<Rightarrow> SSLManager \<Rightarrow> sockaddr \<Rightarrow> int \<Rightarrow> world \<Rightarrow> (int \<times> SSLManager \<times> world) outcome" where
  "ssl_connect_dtls e m address fd w =
     c_assert (ssl_ctx m) (c_assert (0 \<le> fd)
      (let (bio, w) = sys e (Ssl (Bio_new_dgram fd)) w
       in if bio = 0 then Ret (log_full_errno (SYNTHETIC_ERRNO ENOMEM), m, w)
          else let w = Ssl (Bio_set_connected address) # w;
                   w = Ssl (Bio_set_recv_timeout 3) # w;
                   (ssl, w) = sys e (Ssl Ssl_new) w
               in if ssl = 0 then Ret (log_full_errno (SYNTHETIC_ERRNO ENOMEM), m, Ssl Bio_free # w)
                  else let w = ssl_setup_certificate_verification m w;
                           (r, w) = sys e (Ssl Ssl_connect) w
                       in if r \<le> 0 then Ret (log_full_errno (SYNTHETIC_ERRNO ENOMEM), m, Ssl Ssl_free # w)
                          else Ret (0, m\<lparr>ssl_ssl := True\<rparr>, w)))"

text \<open>Leaving \<open>ssl_connect\<close> with an error closes the socket (\<open>_cleanup_close_\<close>).\<close>

definition ssl_connect_fail :: "env \<Rightarrow> int \<Rightarrow> int \<Rightarrow> SSLManager \<Rightarrow> world \<Rightarrow> (int \<times> SSLManager \<times> world) outcome" where
  "ssl_connect_fail e r fd m w = obind (safe_close e fd w) (\<lambda>(_, w). Ret (r, m, w))"

definition ssl_connect_handshake ::
  "env \<Rightarrow> SSLManager \<Rightarrow> sockaddr \<Rightarrow> string \<Rightarrow> int \<Rightarrow> world \<Rightarrow> (int \<times> SSLManager \<times> world) outcome" where
  "ssl_connect_handshake e m sa pretty fd w =
     obind (if ssl_transport_type m = SSL_TRANSPORT_TLS then ssl_connect_tls e m sa fd w
            else ssl_connect_dtls e m sa fd w) (\<lambda>(r, m, w).
       if r < 0 then ssl_connect_fail e r fd m w
       else Ret (0, m\<lparr>ssl_fd := fd, ssl_pretty_address := Some pretty, ssl_connected := True\<rparr>, w))"

definition ssl_connect :: "env \<Rightarrow> SSLManager \<Rightarrow> SocketAddress \<Rightarrow> world \<Rightarrow> (int \<times> SSLManager \<times> world) outcome" where
  "ssl_connect e m address w =
     c_assert (ssl_ctx m)
      (let sa = sockaddr address
       in if sa_family sa \<noteq> AF_INET \<and> sa_family sa \<noteq> AF_INET6 then Ret (- EAFNOSUPPORT, m, w)
          else let salen = (if sa_family sa = AF_INET then SIZEOF_SOCKADDR_IN else SIZEOF_SOCKADDR_IN6);
                   sock_type = (if ssl_transport_type m = SSL_TRANSPORT_TLS then SOCK_STREAM else SOCK_DGRAM);
                   (fd, w) = sys e (Net (Socket AF_INET sock_type
                     (if ssl_transport_type m = SSL_TRANSPORT_TLS then IPPROTO_TCP else 0))) w
               in if fd < 0 then Ret (log_full_errno fd, m, w)
                  else obind (sockaddr_pretty (names e) sa salen True True) (\<lambda>p.
                    case p of
                      Inl r \<Rightarrow> ssl_connect_fail e r fd m w
                    | Inr pretty \<Rightarrow>
                        let (r, w) = sys e (Net (Connect fd sa salen)) w
                        in if r < 0 \<and> r \<noteq> - EINPROGRESS then ssl_connect_fail e (log_full_errno r) fd m w
                           else ssl_connect_handshake e m sa pretty fd w))"

definition ssl_disconnect :: "env \<Rightarrow> SSLManager option \<Rightarrow> world \<Rightarrow> (SSLManager option \<times> world) outcome" where
  "ssl_disconnect e mo w =
     (case mo of
        None \<Rightarrow> Ret (None, w)
      | Some m \<Rightarrow>
          let w = (if ssl_ssl m then Ssl Ssl_free # Ssl Ssl_shutdown # w else w)
          in obind (safe_close e (ssl_fd m) w) (\<lambda>(fd, w).
               Ret (Some (m\<lparr>ssl_ssl := False, ssl_pretty_address := None, ssl_fd := fd, ssl_connected := False\<rparr>), w)))"

section \<open>Creation\<close>

definition VERIFICATION_DEPTH :: int where "VERIFICATION_DEPTH = 20"

definition ssl_manager_init ::
  "env \<Rightarrow> SSLTransportType \<Rightarrow> OpenSSLCertificateAuthMode \<Rightarrow> string option \<Rightarrow> world \<Rightarrow> int \<times> SSLManager option \<times> world" where
  "ssl_manager_init e type auth server_cert w =
     (let (ctx, w) = sys e (Ssl (CTX_new type)) w
      in if ctx = 0 then (log_full_errno (SYNTHETIC_ERRNO ENOMEM), None, w)
         else let (r, w) = (case server_cert of
                    Some f \<Rightarrow> sys e (Ssl (CTX_load_verify_file f)) w
                  | None \<Rightarrow> sys e (Ssl CTX_set_default_verify_paths) w)
              in if r \<noteq> 1 then (log_full_errno (SYNTHETIC_ERRNO ENOTRECOVERABLE), None, Ssl CTX_free # w)
                 else let w = Ssl (CTX_set_verify_depth (VERIFICATION_DEPTH + 1)) # w
                      in (0, Some \<lparr>ssl_ctx = True, ssl_ssl = False, ssl_pretty_address = None, ssl_fd = -1,
                                   ssl_connected = False, ssl_auth_mode = auth, ssl_transport_type = type\<rparr>, w))"

definition ssl_manager_free :: "SSLManager option \<Rightarrow> world \<Rightarrow> world" where
  "ssl_manager_free mo w =
     (case mo of None \<Rightarrow> w | Some m \<Rightarrow> if ssl_ctx m then Ssl CTX_free # w else w)"

text \<open>The wrappers of \<open>netlog-tls.h\<close> and \<open>netlog-dtls.h\<close>.\<close>

definition tls_manager_init :: "env \<Rightarrow> OpenSSLCertificateAuthMode \<Rightarrow> string option \<Rightarrow> world \<Rightarrow> int \<times> SSLManager option \<times> world" where
  "tls_manager_init e = ssl_manager_init e SSL_TRANSPORT_TLS"

definition dtls_manager_init :: "env \<Rightarrow> OpenSSLCertificateAuthMode \<Rightarrow> string option \<Rightarrow> world \<Rightarrow> int \<times> SSLManager option \<times> world" where
  "dtls_manager_init e = ssl_manager_init e SSL_TRANSPORT_DTLS"

section \<open>Certificate verification\<close>

definition X509_V_ERR_CERT_CHAIN_TOO_LONG :: int where "X509_V_ERR_CERT_CHAIN_TOO_LONG = 22"

definition check_certificate_chain_depth :: "int \<Rightarrow> int \<Rightarrow> int \<times> int option" where
  \<comment> \<open>the answer, and the error stored in the verification context\<close>
  "check_certificate_chain_depth depth preverify_ok =
     (if depth \<le> VERIFICATION_DEPTH then (preverify_ok, None)
      else (0, Some X509_V_ERR_CERT_CHAIN_TOO_LONG))"

fun determine_verification_log_level :: "OpenSSLCertificateAuthMode \<Rightarrow> int \<Rightarrow> (int \<times> int) outcome" where
  \<comment> \<open>the log level and the new \<open>preverify_ok\<close>\<close>
  "determine_verification_log_level OPEN_SSL_CERTIFICATE_AUTH_MODE_DENY ok = Ret (3, ok)"
| "determine_verification_log_level OPEN_SSL_CERTIFICATE_AUTH_MODE_WARN ok = Ret (4, 1)"
| "determine_verification_log_level OPEN_SSL_CERTIFICATE_AUTH_MODE_ALLOW ok = Ret (7, 1)"
| "determine_verification_log_level OPEN_SSL_CERTIFICATE_AUTH_MODE_NONE ok = Abort"

definition ssl_verify_certificate_validity :: "SSLManager \<Rightarrow> int \<Rightarrow> int \<Rightarrow> int outcome" where
  "ssl_verify_certificate_validity m depth preverify_ok =
     (let (ok, err) = check_certificate_chain_depth depth preverify_ok
      in if ok \<noteq> 0 then Ret ok
         else obind (determine_verification_log_level (ssl_auth_mode m) ok) (\<lambda>(log_level, ok). Ret ok))"

section \<open>Invariant\<close>

text \<open>A connection has all its parts or none.\<close>

definition ssl_wf :: "SSLManager \<Rightarrow> bool" where
  "ssl_wf m \<longleftrightarrow> ssl_ctx m \<and> (ssl_ssl m \<longleftrightarrow> ssl_connected m) \<and> (0 \<le> ssl_fd m \<longleftrightarrow> ssl_connected m) \<and>
     (ssl_pretty_address m \<noteq> None \<longleftrightarrow> ssl_connected m)"

lemma synthetic_negative: "log_full_errno (SYNTHETIC_ERRNO ENOMEM) < 0" "log_full_errno (SYNTHETIC_ERRNO EIO) < 0"
  "log_full_errno (SYNTHETIC_ERRNO EAGAIN) < 0" "log_full_errno (SYNTHETIC_ERRNO EPIPE) < 0"
  "log_full_errno (SYNTHETIC_ERRNO ENOTRECOVERABLE) < 0"
  by (simp_all add: log_full_errno_def SYNTHETIC_ERRNO_def)

lemma ssl_manager_init_wf:
  "ssl_manager_init e t a c w = (r, mo, w') \<Longrightarrow>
     r \<le> 0 \<and> (r = 0 \<longleftrightarrow> mo \<noteq> None) \<and> (\<forall>m. mo = Some m \<longrightarrow> ssl_wf m \<and> \<not> ssl_connected m \<and>
       ssl_auth_mode m = a \<and> ssl_transport_type m = t)"
  using synthetic_negative
  by (auto simp: ssl_manager_init_def sys_def Let_def ssl_wf_def split: if_splits option.splits prod.splits)

lemma ssl_handshake_result:
  assumes "ssl_connect_tls e m sa fd w = Ret (r, m', w') \<or> ssl_connect_dtls e m sa fd w = Ret (r, m', w')"
  shows "r < 0 \<and> m' = m \<or> r = 0 \<and> m' = m\<lparr>ssl_ssl := True\<rparr>"
  using assms synthetic_negative
  by (auto simp: ssl_connect_tls_def ssl_connect_dtls_def c_assert_def sys_def Let_def split: if_splits)

lemma ssl_handshake_returns:
  "ssl_ctx m \<Longrightarrow> 0 \<le> fd \<Longrightarrow> \<exists>r m' w'. ssl_connect_tls e m sa fd w = Ret (r, m', w')"
  "ssl_ctx m \<Longrightarrow> 0 \<le> fd \<Longrightarrow> \<exists>r m' w'. ssl_connect_dtls e m sa fd w = Ret (r, m', w')"
  by (auto simp: ssl_connect_tls_def ssl_connect_dtls_def sys_def Let_def)

definition ssl_connect_post :: "SSLManager \<Rightarrow> int \<times> SSLManager \<times> world \<Rightarrow> bool" where
  "ssl_connect_post m = (\<lambda>(r, m', w). r < 0 \<and> m' = m \<or> r = 0 \<and> ssl_wf m' \<and> ssl_connected m' \<and>
     ssl_auth_mode m' = ssl_auth_mode m \<and> ssl_transport_type m' = ssl_transport_type m)"

lemma ssl_connect_fail_post:
  "close_ok e \<Longrightarrow> r < 0 \<Longrightarrow> all_ret (ssl_connect_post m) (ssl_connect_fail e r fd m w) \<and>
     ssl_connect_fail e r fd m w \<noteq> Diverge"
  by (simp add: ssl_connect_fail_def safe_close_ok ssl_connect_post_def)

lemma ssl_connect_handshake_post:
  assumes "close_ok e" "ssl_wf m" "\<not> ssl_connected m" "0 \<le> fd"
  shows "all_ret (ssl_connect_post m) (ssl_connect_handshake e m sa pretty fd w) \<and>
    ssl_connect_handshake e m sa pretty fd w \<noteq> Diverge"
proof -
  let ?h = "if ssl_transport_type m = SSL_TRANSPORT_TLS then ssl_connect_tls e m sa fd w
            else ssl_connect_dtls e m sa fd w"
  obtain r m' w' where h: "?h = Ret (r, m', w')"
    using ssl_handshake_returns [of m fd e sa w] assms
    by (cases "ssl_transport_type m = SSL_TRANSPORT_TLS") (auto simp: ssl_wf_def)
  then have "r < 0 \<and> m' = m \<or> r = 0 \<and> m' = m\<lparr>ssl_ssl := True\<rparr>"
    using ssl_handshake_result by (metis (full_types))
  then show ?thesis
  proof
    assume "r < 0 \<and> m' = m"
    then show ?thesis using ssl_connect_fail_post [OF assms(1)] unfolding ssl_connect_handshake_def h by simp
  next
    assume "r = 0 \<and> m' = m\<lparr>ssl_ssl := True\<rparr>"
    then show ?thesis using assms
      unfolding ssl_connect_handshake_def h by (simp add: ssl_connect_post_def ssl_wf_def)
  qed
qed

text \<open>Connecting a disconnected manager returns, and either changes nothing or connects fully.\<close>

lemma ssl_connect_connects:
  assumes "close_ok e" "ssl_wf m" "\<not> ssl_connected m"
  shows "all_ret (ssl_connect_post m) (ssl_connect e m a w) \<and> ssl_connect e m a w \<noteq> Diverge"
proof (cases "sa_family (sockaddr a) \<noteq> AF_INET \<and> sa_family (sockaddr a) \<noteq> AF_INET6")
  case True
  then show ?thesis using assms by (simp add: ssl_connect_def ssl_wf_def ssl_connect_post_def Let_def)
next
  case False
  let ?salen = "if sa_family (sockaddr a) = AF_INET then SIZEOF_SOCKADDR_IN else SIZEOF_SOCKADDR_IN6"
  have "2 \<le> ?salen" by (simp add: SIZEOF_SOCKADDR_IN_def SIZEOF_SOCKADDR_IN6_def)
  then obtain p where p: "sockaddr_pretty (names e) (sockaddr a) ?salen True True = Ret (Inr p)"
    using sockaddr_pretty_ok [of "sockaddr a" ?salen] False by blast
  show ?thesis
    using assms False ssl_connect_handshake_post [OF assms] ssl_connect_fail_post [OF assms(1)]
    unfolding ssl_connect_def Let_def p by (auto simp: sys_def ssl_connect_post_def ssl_wf_def)
qed

definition ssl_down :: "SSLManager \<Rightarrow> SSLManager" where
  "ssl_down s = s\<lparr>ssl_ssl := False, ssl_pretty_address := None, ssl_fd := -1, ssl_connected := False\<rparr>"

definition ssl_down_world :: "SSLManager option \<Rightarrow> world \<Rightarrow> world" where
  "ssl_down_world mo w =
     (case mo of None \<Rightarrow> w
      | Some s \<Rightarrow> (if 0 \<le> ssl_fd s then [Net (Close (ssl_fd s))] else []) @
          (if ssl_ssl s then [Ssl Ssl_free, Ssl Ssl_shutdown] else []) @ w)"

lemma ssl_disconnect_ok:
  "close_ok e \<Longrightarrow> ssl_disconnect e mo w = Ret (map_option ssl_down mo, ssl_down_world mo w)"
  by (cases mo) (simp_all add: ssl_disconnect_def safe_close_ok Let_def ssl_down_def ssl_down_world_def)

lemma ssl_down_wf: "ssl_wf s \<Longrightarrow> ssl_wf (ssl_down s) \<and> \<not> ssl_connected (ssl_down s)"
  by (simp add: ssl_wf_def ssl_down_def)

lemma ssl_writev_returns:
  assumes "ssl_wf m" "ssl_connected m" "0 < length (concat iov)" "length (concat iov) < INT_MAX"
  shows "\<exists>r w'. ssl_writev e m iov w = Ret (r, w') \<and>
    r \<in> {0, log_full_errno (SYNTHETIC_ERRNO EAGAIN), log_full_errno (SYNTHETIC_ERRNO EPIPE)} \<and>
    (r = 0 \<longleftrightarrow> 0 < ans e w (Ssl (Ssl_write (concat iov)))) \<and>
    Ssl (Ssl_write (concat iov)) \<in> set w'"
proof -
  have u: "unat (iovec_total_size iov) = length (concat iov)"
    using assms by (intro unat_iovec_total_size) (simp add: INT_MAX_def)
  have "0 < iovec_total_size iov" "iovec_total_size iov < of_nat INT_MAX"
    using assms(3,4) u by (simp_all add: word_less_nat_alt unat_of_nat INT_MAX_def)
  with assms(1,2) synthetic_negative show ?thesis
    by (auto simp: ssl_writev_def ssl_write_def ssl_wf_def sys_def Let_def)
qed

end
