(* ===== verification/Rate_Limit.thy ===== *)
theory Rate_Limit
  imports Time_Util
begin

text \<open>
  The rate limiter of \<open>src/share/ratelimit.c\<close>.  The monotonic clock reading that
  \<open>now(CLOCK_MONOTONIC)\<close> returns is an argument.  The locale \<open>bounded_retry\<close>
  is the contract that the reconnect logic relies on: inside one window every grant uses
  up budget, so only finitely many attempts are granted.
\<close>

record RateLimit =
  rl_interval :: usec
  rl_burst :: u32
  rl_num :: u32
  rl_begin :: usec

definition ratelimit_reset :: "RateLimit \<Rightarrow> RateLimit" where
  "ratelimit_reset rl = rl\<lparr>rl_num := 0, rl_begin := 0\<rparr>"

definition ratelimit_configured :: "RateLimit \<Rightarrow> bool" where
  "ratelimit_configured rl \<longleftrightarrow> 0 < rl_interval rl \<and> 0 < rl_burst rl"

definition ratelimit_below :: "usec \<Rightarrow> RateLimit \<Rightarrow> bool \<times> RateLimit" where
  "ratelimit_below ts r =
     (if \<not> ratelimit_configured r then (True, r)
      else if rl_begin r \<le> 0 \<or> rl_interval r < usec_sub_unsigned ts (rl_begin r)
      then (True, r\<lparr>rl_begin := ts, rl_num := 1\<rparr>)
      else if rl_num r = - 1 then (False, r)
      else (rl_num r + 1 \<le> rl_burst r, r\<lparr>rl_num := rl_num r + 1\<rparr>))"

definition ratelimit_num_dropped :: "RateLimit \<Rightarrow> u32" where
  "ratelimit_num_dropped r =
     (if rl_num r = - 1 then - 1
      else if rl_burst r < rl_num r then rl_num r - rl_burst r else 0)"

definition ratelimit_end :: "RateLimit \<Rightarrow> usec" where
  "ratelimit_end rl = (if rl_begin rl = 0 then 0 else usec_add (rl_begin rl) (rl_interval rl))"

definition ratelimit_left :: "usec \<Rightarrow> RateLimit \<Rightarrow> usec" where
  "ratelimit_left ts rl =
     (if rl_begin rl = 0 then 0 else usec_sub_unsigned (ratelimit_end rl) ts)"

text \<open>A sequence of calls, with the answers in order.\<close>

fun ratelimit_run :: "usec list \<Rightarrow> RateLimit \<Rightarrow> bool list \<times> RateLimit" where
  "ratelimit_run [] rl = ([], rl)"
| "ratelimit_run (t # ts) rl =
     (case ratelimit_below t rl of (b, rl') \<Rightarrow>
        case ratelimit_run ts rl' of (bs, rl'') \<Rightarrow> (b # bs, rl''))"

text \<open>The clock reading lies in the current window.\<close>

definition in_window :: "usec \<Rightarrow> RateLimit \<Rightarrow> bool" where
  "in_window ts rl \<longleftrightarrow>
     ratelimit_configured rl \<and> rl_begin rl \<noteq> 0 \<and>
     usec_sub_unsigned ts (rl_begin rl) \<le> rl_interval rl"

definition grants_left :: "RateLimit \<Rightarrow> nat" where
  "grants_left rl = unat (rl_burst rl) - unat (rl_num rl)"

section \<open>The contract of a retry limiter\<close>

locale bounded_retry =
  fixes allow :: "'t \<Rightarrow> 's \<Rightarrow> bool \<times> 's"
    and budget :: "'s \<Rightarrow> nat"
    and within :: "'t \<Rightarrow> 's \<Rightarrow> bool"
  assumes grant_spends: "within t s \<Longrightarrow> allow t s = (True, s') \<Longrightarrow> budget s' < budget s"
    and refusal_keeps: "within t s \<Longrightarrow> allow t s = (False, s') \<Longrightarrow> budget s' \<le> budget s"
    and window_kept: "within t s \<Longrightarrow> allow t s = (b, s') \<Longrightarrow> within t' s' = within t' s"
begin

fun attempts :: "'t list \<Rightarrow> 's \<Rightarrow> bool list" where
  "attempts [] s = []"
| "attempts (t # ts) s = (case allow t s of (b, s') \<Rightarrow> b # attempts ts s')"

lemma budget_step: "within t s \<Longrightarrow> allow t s = (b, s') \<Longrightarrow> (if b then 1 else 0) + budget s' \<le> budget s"
  using grant_spends [of t s s'] refusal_keeps [of t s s'] by (cases b) auto

lemma grants_bounded:
  "\<forall>t\<in>set ts. within t s \<Longrightarrow> length (filter (\<lambda>b. b) (attempts ts s)) \<le> budget s"
proof (induction ts arbitrary: s)
  case Nil
  then show ?case by simp
next
  case (Cons t ts)
  obtain b s' where al: "allow t s = (b, s')" by force
  from Cons.prems have w: "within t s" by simp
  have "\<forall>t'\<in>set ts. within t' s'" using Cons.prems window_kept [OF w al] by simp
  then have "length (filter (\<lambda>b. b) (attempts ts s')) \<le> budget s'" by (rule Cons.IH)
  with budget_step [OF w al] show ?case by (cases b) (auto simp: al)
qed

lemma eventually_refused:
  assumes "\<forall>t\<in>set ts. within t s" and "budget s < length ts"
  shows "False \<in> set (attempts ts s)"
proof (rule ccontr)
  assume "False \<notin> set (attempts ts s)"
  then have "\<forall>b\<in>set (attempts ts s). b" by (metis (full_types))
  then have "filter (\<lambda>b. b) (attempts ts s) = attempts ts s" by (simp add: filter_id_conv)
  moreover have "length (attempts ts s) = length ts"
    by (induction ts arbitrary: s) (auto split: prod.splits)
  ultimately show False using grants_bounded [OF assms(1)] assms(2) by simp
qed

end

section \<open>Facts\<close>

lemma in_window_begin: "in_window ts rl \<Longrightarrow> \<not> rl_begin rl \<le> 0"
  by (simp add: in_window_def)

lemma ratelimit_below_window:
  "in_window ts rl \<Longrightarrow> ratelimit_below ts rl =
     (if rl_num rl = - 1 then (False, rl)
      else (rl_num rl + 1 \<le> rl_burst rl, rl\<lparr>rl_num := rl_num rl + 1\<rparr>))"
  by (auto simp: ratelimit_below_def in_window_def)

lemma unat_max_u32 [simp]: "unat (- 1 :: u32) = 4294967295"
  by (simp add: unsigned_minus_1_eq_mask mask_eq_exp_minus_1)

lemma unat_u32_le: "unat (w :: u32) \<le> 4294967295"
proof -
  have "unat w < 2 ^ LENGTH(32)" by (rule unsigned_less)
  then show ?thesis by simp
qed

lemma unat_Suc_u32: "n \<noteq> - 1 \<Longrightarrow> unat (n + 1 :: u32) = Suc (unat n)"
proof -
  assume "n \<noteq> - 1"
  moreover have "unat n \<le> 4294967295" by (rule unat_u32_le)
  ultimately have "unat n < 4294967295"
    using word_unat_eq_iff [of n "- 1"] by simp
  then show ?thesis by (simp add: unat_plus_if')
qed

lemma ratelimit_below_answer:
  assumes "in_window ts rl" and "ratelimit_below ts rl = (b, rl')"
  shows "b \<longleftrightarrow> Suc (unat (rl_num rl)) \<le> unat (rl_burst rl)"
    and "unat (rl_num rl') = min (Suc (unat (rl_num rl))) 4294967295"
    and "rl' = rl\<lparr>rl_num := rl_num rl'\<rparr>"
proof -
  have burst: "unat (rl_burst rl) \<le> 4294967295"
    by (rule unat_u32_le)
  have num: "unat (rl_num rl) \<le> 4294967295"
    by (rule unat_u32_le)
  show "b \<longleftrightarrow> Suc (unat (rl_num rl)) \<le> unat (rl_burst rl)"
    using assms burst
    by (auto simp: ratelimit_below_window unat_Suc_u32 word_le_nat_alt split: if_splits)
  show "unat (rl_num rl') = min (Suc (unat (rl_num rl))) 4294967295"
  proof (cases "rl_num rl = - 1")
    case True
    with assms show ?thesis by (simp add: ratelimit_below_window)
  next
    case False
    then have "unat (rl_num rl) \<noteq> 4294967295" using word_unat_eq_iff [of "rl_num rl" "- 1"] by simp
    with num False assms show ?thesis by (auto simp: ratelimit_below_window unat_Suc_u32)
  qed
  show "rl' = rl\<lparr>rl_num := rl_num rl'\<rparr>"
    using assms by (auto simp: ratelimit_below_window split: if_splits)
qed

lemma ratelimit_below_burst:
  "ratelimit_below ts rl = (b, rl') \<Longrightarrow> rl_burst rl' = rl_burst rl \<and> rl_interval rl' = rl_interval rl"
  by (auto simp: ratelimit_below_def split: if_splits)

lemma in_window_num [simp]: "in_window t (rl\<lparr>rl_num := n\<rparr>) = in_window t rl"
  by (simp add: in_window_def ratelimit_configured_def)

text \<open>
  C26.  Within one interval the rate limiter lets exactly the first \<open>burst\<close> attempts through, counting those made before, and refuses all others: the counter never wraps around.
\<close>

theorem ratelimit_run_window:
  assumes "\<forall>t\<in>set ts. in_window t rl"
  shows "fst (ratelimit_run ts rl) =
    map (\<lambda>i. unat (rl_num rl) + Suc i \<le> unat (rl_burst rl)) [0..<length ts]"
  using assms
proof (induction ts arbitrary: rl)
  case Nil
  then show ?case by simp
next
  case (Cons t ts)
  obtain b rl' where step: "ratelimit_below t rl = (b, rl')" by force
  have w: "in_window t rl" using Cons.prems by simp
  note answer = ratelimit_below_answer [OF w step]
  have eq: "rl_burst rl' = rl_burst rl" "\<And>t'. in_window t' rl' = in_window t' rl"
    using ratelimit_below_burst [OF step] by simp (metis answer(3) in_window_num)
  have burst: "unat (rl_burst rl) \<le> 4294967295"
    by (rule unat_u32_le)
  have tail: "fst (ratelimit_run ts rl') =
      map (\<lambda>i. unat (rl_num rl') + Suc i \<le> unat (rl_burst rl)) [0..<length ts]"
    using Cons.IH [of rl'] Cons.prems eq by simp
  have shift: "(unat (rl_num rl') + Suc i \<le> unat (rl_burst rl)) =
      (unat (rl_num rl) + Suc (Suc i) \<le> unat (rl_burst rl))" for i
    using answer(2) burst by auto
  have "fst (ratelimit_run (t # ts) rl) = b # fst (ratelimit_run ts rl')"
    by (simp add: step split: prod.splits)
  also have "\<dots> = (unat (rl_num rl) + Suc 0 \<le> unat (rl_burst rl)) #
      map (\<lambda>i. unat (rl_num rl) + Suc (Suc i) \<le> unat (rl_burst rl)) [0..<length ts]"
    using answer(1) tail shift by simp
  also have "\<dots> = map (\<lambda>i. unat (rl_num rl) + Suc i \<le> unat (rl_burst rl)) [0..<length (t # ts)]"
    by (simp add: upt_conv_Cons map_Suc_upt [symmetric] del: upt_Suc)
  finally show ?case .
qed

theorem ratelimit_run_window_witness:
  "fst (ratelimit_run [1, 2, 3] \<lparr>rl_interval = 10, rl_burst = 2, rl_num = 0, rl_begin = 1\<rparr>) = [True, True, False]"
  using ratelimit_run_window [of "[1, 2, 3]" "\<lparr>rl_interval = 10, rl_burst = 2, rl_num = 0, rl_begin = 1\<rparr>"]
  by (simp add: in_window_def ratelimit_configured_def usec_sub_unsigned_def upt_rec)

interpretation rl: bounded_retry ratelimit_below grants_left in_window
proof (unfold_locales, goal_cases)
  case (1 t s s')
  have "Suc (unat (rl_num s)) \<le> unat (rl_burst s)"
    using ratelimit_below_answer(1) [OF 1] by simp
  moreover have "unat (rl_num s') = min (Suc (unat (rl_num s))) 4294967295"
    using ratelimit_below_answer(2) [OF 1] .
  moreover have "rl_burst s' = rl_burst s" using ratelimit_below_burst [OF 1(2)] by simp
  moreover have "unat (rl_burst s) \<le> 4294967295" by (rule unat_u32_le)
  ultimately show ?case by (simp add: grants_left_def)
next
  case (2 t s s')
  have "\<not> Suc (unat (rl_num s)) \<le> unat (rl_burst s)"
    using ratelimit_below_answer(1) [OF 2] by simp
  moreover have "unat (rl_num s') = min (Suc (unat (rl_num s))) 4294967295"
    using ratelimit_below_answer(2) [OF 2] .
  moreover have "rl_burst s' = rl_burst s" using ratelimit_below_burst [OF 2(2)] by simp
  moreover have "unat (rl_burst s) \<le> 4294967295" by (rule unat_u32_le)
  ultimately show ?case by (simp add: grants_left_def)
next
  case (3 t s b s' t')
  then show ?case using ratelimit_below_answer(3) in_window_num by metis
qed

end
