(* ===== verification/Manager_State.thy ===== *)
theory Manager_State
  imports Ssl Rate_Limit
begin

text \<open>
  \<open>struct Manager\<close> of \<open>src/netlog/netlog-manager.h\<close>.  A field \<open>m_x\<close> is the member \<open>x\<close>;
  a pointer to an object of another library is whether it is set.  The extra field
  \<open>world\<close> is the history of calls, so a function of the program maps a manager to an
  outcome with the returned value and the manager after it.
\<close>

record Manager =
  m_resolve :: bool
  m_event :: bool
  m_event_journal_input :: bool
  m_connection_retry_usec :: u64
  m_network_event_source :: bool
  m_network_monitor :: "int option"
  m_event_retry :: bool
  m_ratelimit :: RateLimit
  m_resolve_query :: bool
  m_socket :: int
  m_address :: SocketAddress
  m_port :: u32
  m_server_name :: "string option"
  m_excluded_syslog_facilities :: u32
  m_excluded_syslog_levels :: u8
  m_journal_watch_fd :: int
  m_namespace_flags :: int
  m_journal :: bool
  m_state_file :: "string option"
  m_last_cursor :: "string option"
  m_structured_data :: "string option"
  m_dir :: "string option"
  m_namespace :: "string option"
  m_protocol :: SysLogTransmissionProtocol
  m_log_format :: SysLogTransmissionLogFormat
  m_auth_mode :: OpenSSLCertificateAuthMode
  m_server_cert :: "string option"
  m_syslog_structured_data :: bool
  m_syslog_msgid :: bool
  m_dtls :: "SSLManager option"
  m_tls :: "SSLManager option"
  m_keep_alive :: bool
  m_no_delay :: bool
  m_connected :: bool
  m_resolving :: bool
  m_keep_alive_cnt :: u32
  m_send_buffer :: u64
  m_keep_alive_time :: u64
  m_keep_alive_interval :: u64
  world :: world

section \<open>Calls from the manager\<close>

definition m_sys :: "env \<Rightarrow> call \<Rightarrow> Manager \<Rightarrow> int \<times> Manager" where
  "m_sys e c m = (ans e (world m) c, m\<lparr>world := c # world m\<rparr>)"

definition m_call :: "call \<Rightarrow> Manager \<Rightarrow> Manager" where
  \<comment> \<open>a call whose answer is ignored\<close>
  "m_call c m = m\<lparr>world := c # world m\<rparr>"

definition m_io :: "(world \<Rightarrow> ('a \<times> world) outcome) \<Rightarrow> Manager \<Rightarrow> ('a \<times> Manager) outcome" where
  "m_io f m = obind (f (world m)) (\<lambda>(v, w). Ret (v, m\<lparr>world := w\<rparr>))"

definition m_pure :: "(world \<Rightarrow> 'a \<times> world) \<Rightarrow> Manager \<Rightarrow> 'a \<times> Manager" where
  "m_pure f m = (let (v, w) = f (world m) in (v, m\<lparr>world := w\<rparr>))"

lemma m_call_simps [simp]: "world (m_call c m) = c # world m"
  by (simp add: m_call_def)

section \<open>Which transport is in use\<close>

fun transport_connected :: "Manager \<Rightarrow> bool" where
  \<comment> \<open>the flag that \<open>manager_push_to_network\<close> tests\<close>
  "transport_connected m =
     (case m_protocol m of
        SYSLOG_TRANSMISSION_PROTOCOL_DTLS \<Rightarrow> (case m_dtls m of None \<Rightarrow> False | Some s \<Rightarrow> ssl_connected s)
      | SYSLOG_TRANSMISSION_PROTOCOL_TLS \<Rightarrow> (case m_tls m of None \<Rightarrow> False | Some s \<Rightarrow> ssl_connected s)
      | _ \<Rightarrow> m_connected m)"

text \<open>
  The invariant of the daemon's main object.  It holds from \<open>manager_new\<close> and the
  configuration on, and each event handler keeps it: the socket is open exactly when the
  plain transport is connected, an SSL connection is whole or absent, the SSL manager the
  protocol needs exists, and the journal is listened to only over a connected transport.
\<close>

definition ssl_opt_wf :: "SSLManager option \<Rightarrow> bool" where
  "ssl_opt_wf mo \<longleftrightarrow> (case mo of None \<Rightarrow> True | Some s \<Rightarrow> ssl_wf s)"

definition monitor_ok :: "Manager \<Rightarrow> bool" where
  \<comment> \<open>the network monitor is a pointer made from its descriptor\<close>
  "monitor_ok m \<longleftrightarrow> (case m_network_monitor m of None \<Rightarrow> True | Some fd \<Rightarrow> 0 \<le> fd)"

definition manager_wf :: "Manager \<Rightarrow> bool" where
  "manager_wf m \<longleftrightarrow>
     (m_connected m \<longleftrightarrow> 0 \<le> m_socket m) \<and>
     ssl_opt_wf (m_dtls m) \<and> ssl_opt_wf (m_tls m) \<and>
     (m_protocol m = SYSLOG_TRANSMISSION_PROTOCOL_DTLS \<longrightarrow> m_dtls m \<noteq> None) \<and>
     (m_protocol m = SYSLOG_TRANSMISSION_PROTOCOL_TLS \<longrightarrow> m_tls m \<noteq> None) \<and>
     (m_journal m \<longrightarrow> transport_connected m) \<and>
     (m_event_journal_input m \<longrightarrow> m_journal m \<and> 0 \<le> m_journal_watch_fd m)"

definition disconnected :: "Manager \<Rightarrow> bool" where
  "disconnected m \<longleftrightarrow>
     \<not> m_connected m \<and> m_socket m = -1 \<and> \<not> m_journal m \<and> \<not> m_event_journal_input m \<and> \<not> m_resolve_query m \<and>
     (\<forall>s. m_dtls m = Some s \<longrightarrow> \<not> ssl_connected s) \<and> (\<forall>s. m_tls m = Some s \<longrightarrow> \<not> ssl_connected s)"

text \<open>What no operation of the connection machinery changes: the configuration.  A pending name
  query may only go away.\<close>

definition same_config :: "Manager \<Rightarrow> Manager \<Rightarrow> bool" where
  "same_config m m' \<longleftrightarrow>
     m_protocol m' = m_protocol m \<and> m_log_format m' = m_log_format m \<and> m_address m' = m_address m \<and>
     m_resolving m' = m_resolving m \<and> m_server_name m' = m_server_name m \<and>
     (m_dtls m' = None \<longleftrightarrow> m_dtls m = None) \<and> (m_tls m' = None \<longleftrightarrow> m_tls m = None) \<and>
     m_connection_retry_usec m' = m_connection_retry_usec m \<and> m_state_file m' = m_state_file m \<and>
     m_structured_data m' = m_structured_data m \<and> m_network_event_source m' = m_network_event_source m \<and>
     m_excluded_syslog_facilities m' = m_excluded_syslog_facilities m \<and>
     m_excluded_syslog_levels m' = m_excluded_syslog_levels m \<and>
     (m_resolve_query m' \<longrightarrow> m_resolve_query m)"

lemma same_config_refl [simp, intro]: "same_config m m"
  by (simp add: same_config_def)

lemma same_config_trans: "same_config m m' \<Longrightarrow> same_config m' m'' \<Longrightarrow> same_config m m''"
  by (simp add: same_config_def)

end
