(* ===== verification/Syslog_Format.thy ===== *)
theory Syslog_Format
  imports Manager_State
begin

text \<open>
  The message texts of \<open>src/netlog/netlog-protocol.c\<close>: priority, RFC 3339 time stamp, the
  fields of RFC 5424 and RFC 3164 and the octet count of RFC 5425 framing.  The fixed
  buffers and the fixed \<open>iovec\<close> arrays of the source are modelled with their sizes: a text
  that does not fit fails the \<open>assert\<close> of the source, and storing past the array aborts.
\<close>

section \<open>Buffers\<close>

definition iov_add :: "nat \<Rightarrow> string \<Rightarrow> iovec \<Rightarrow> iovec outcome" where
  \<comment> \<open>\<open>IOVEC_SET_STRING(iov[n++], s)\<close> on an array with \<open>cap\<close> elements\<close>
  "iov_add cap s iov = (if length iov < cap then Ret (iov @ [s]) else Abort)"

definition snprintf_checked :: "nat \<Rightarrow> string \<Rightarrow> string outcome" where
  \<comment> \<open>\<open>r = snprintf(buf, size, ...); assert(r > 0 && (size_t) r < size);\<close>\<close>
  "snprintf_checked bufsize s = c_assert (0 < length s \<and> length s < bufsize) (Ret s)"

definition strftime_checked :: "nat \<Rightarrow> string \<Rightarrow> string outcome" where
  \<comment> \<open>\<open>strftime\<close> returns 0 when the text and its NUL do not fit\<close>
  "strftime_checked bufsize s = c_assert (s \<noteq> [] \<and> length s < bufsize) (Ret s)"

definition dec_of_int :: "int \<Rightarrow> string" where
  "dec_of_int i = (if i < 0 then CHR ''-'' # dec_of_nat (nat (- i)) else dec_of_nat (nat i))"

definition zero_pad :: "nat \<Rightarrow> nat \<Rightarrow> string" where
  "zero_pad width n = replicate (width - length (dec_of_nat n)) CHR ''0'' @ dec_of_nat n"

section \<open>Time stamps\<close>

definition FORMAT_TIMESTAMP_MAX :: nat where "FORMAT_TIMESTAMP_MAX = (4 * 4 + 1) + 11 + 9 + 4 + 1"

definition strftime_date_time :: "tm \<Rightarrow> string" where \<comment> \<open>\<open>%Y-%m-%dT%T\<close>\<close>
  "strftime_date_time tm =
     dec_of_int (tm_year tm + 1900) @ ''-'' @ zero_pad 2 (tm_mon tm + 1) @ ''-'' @ zero_pad 2 (tm_mday tm) @
     ''T'' @ zero_pad 2 (tm_hour tm) @ '':'' @ zero_pad 2 (tm_min tm) @ '':'' @ zero_pad 2 (tm_sec tm)"

definition strftime_zone :: "tm \<Rightarrow> string" where \<comment> \<open>\<open>%z\<close>\<close>
  "strftime_zone tm =
     (if tm_gmtoff tm < 0 then ''-'' else ''+'') @
     zero_pad 2 (nat \<bar>tm_gmtoff tm\<bar> div 3600) @ zero_pad 2 (nat \<bar>tm_gmtoff tm\<bar> div 60 mod 60)"

definition format_rfc3339_timestamp :: "env \<Rightarrow> timeval option \<Rightarrow> nat \<Rightarrow> world \<Rightarrow> (string \<times> world) outcome" where
  "format_rfc3339_timestamp e tv header_size w =
     (let (t, w) = (case tv of
            Some v \<Rightarrow> (sint (tv_sec v), w)
          | None \<Rightarrow> (uint (time e w Realtime_clock div USEC_PER_SEC), Realtime_clock # w));
          tm = localtime e t
      in obind (strftime_checked header_size (strftime_date_time tm)) (\<lambda>s1.
         obind (case tv of
                  None \<Rightarrow> Ret []
                | Some v \<Rightarrow> snprintf_checked (header_size - length s1) (''.'' @
                    (if sint (tv_usec v) < 0 then dec_of_int (sint (tv_usec v))
                     else zero_pad 6 (nat (sint (tv_usec v)))))) (\<lambda>s2.
         obind (strftime_checked 7 (strftime_zone tm)) (\<lambda>gm_buf.
         obind (snprintf_checked (header_size - length s1 - length s2)
                  (take 3 gm_buf @ '':'' @ take 2 (drop 3 gm_buf) @ '' '')) (\<lambda>s3.
           Ret (s1 @ s2 @ s3, w))))))"

section \<open>Fields\<close>

definition makepri :: "int \<Rightarrow> int \<Rightarrow> u8" where
  \<comment> \<open>\<open>uint8_t makepri = (facility << 3) + severity\<close>\<close>
  "makepri severity facility = word_of_int (facility * 8 + severity)"

definition set_priority_version_field :: "nat \<Rightarrow> int \<Rightarrow> int \<Rightarrow> iovec \<Rightarrow> iovec outcome" where
  "set_priority_version_field cap severity facility iov =
     obind (snprintf_checked 8 (''<'' @ dec_of_nat (unat (makepri severity facility)) @ ''>1 ''))
       (\<lambda>s. iov_add cap s iov)"

definition set_priority_field :: "nat \<Rightarrow> int \<Rightarrow> int \<Rightarrow> iovec \<Rightarrow> iovec outcome" where
  "set_priority_field cap severity facility iov =
     obind (snprintf_checked 8 (''<'' @ dec_of_nat (unat (makepri severity facility)) @ ''>''))
       (\<lambda>s. iov_add cap s iov)"

definition set_timestamp_field :: "env \<Rightarrow> nat \<Rightarrow> timeval option \<Rightarrow> iovec \<Rightarrow> world \<Rightarrow> (iovec \<times> world) outcome" where
  "set_timestamp_field e cap tv iov w =
     obind (format_rfc3339_timestamp e tv FORMAT_TIMESTAMP_MAX w) (\<lambda>(s, w).
     obind (iov_add cap s iov) (\<lambda>iov. Ret (iov, w)))"

definition nil_default :: "string option \<Rightarrow> string" where
  "nil_default v = (case v of Some s \<Rightarrow> s | None \<Rightarrow> ''-'')"

definition set_string_field_with_separator :: "nat \<Rightarrow> string option \<Rightarrow> iovec \<Rightarrow> iovec outcome" where
  "set_string_field_with_separator cap v iov =
     obind (iov_add cap (nil_default v) iov) (\<lambda>iov. iov_add cap '' '' iov)"

definition structured_data_text :: "Manager \<Rightarrow> string option \<Rightarrow> string" where
  "structured_data_text m syslog_structured_data =
     (case m_structured_data m of
        Some s \<Rightarrow> s
      | None \<Rightarrow> (case (m_syslog_structured_data m, syslog_structured_data) of
                  (True, Some s) \<Rightarrow> s
                | _ \<Rightarrow> ''-''))"

definition set_structured_data_field :: "nat \<Rightarrow> Manager \<Rightarrow> string option \<Rightarrow> iovec \<Rightarrow> iovec outcome" where
  "set_structured_data_field cap m syslog_structured_data iov =
     obind (iov_add cap (structured_data_text m syslog_structured_data) iov) (\<lambda>iov. iov_add cap '' '' iov)"

definition set_message_length_field :: "Manager \<Rightarrow> iovec \<Rightarrow> nat \<Rightarrow> iovec result" where
  \<comment> \<open>\<open>header_msglen\<close> has \<open>1 + sizeof("99999 ")\<close> = 8 bytes\<close>
  "set_message_length_field m iov msglen_idx =
     (if m_log_format m \<noteq> SYSLOG_TRANSMISSION_LOG_FORMAT_RFC_5425 then Inr iov
      else let s = dec_of_int (sint (IOVEC_TOTAL_SIZE iov)) @ '' ''
           in if 8 \<le> length s then Inl (- EMSGSIZE) else Inr (iov[msglen_idx := s]))"

definition stream_protocol :: "SysLogTransmissionProtocol \<Rightarrow> bool" where
  "stream_protocol p \<longleftrightarrow> p = SYSLOG_TRANSMISSION_PROTOCOL_TCP \<or> p = SYSLOG_TRANSMISSION_PROTOCOL_TLS"

section \<open>Messages\<close>

definition rfc5424_iov ::
  "env \<Rightarrow> Manager \<Rightarrow> int \<Rightarrow> int \<Rightarrow> string option \<Rightarrow> string \<Rightarrow> string option \<Rightarrow> string option \<Rightarrow> timeval option \<Rightarrow>
     string option \<Rightarrow> string option \<Rightarrow> world \<Rightarrow> (iovec result \<times> world) outcome" where
  \<comment> \<open>\<open>format_rfc5424\<close> up to the call of \<open>protocol_send\<close>; \<open>struct iovec iov[15]\<close>\<close>
  "rfc5424_iov e m severity facility identifier message hostname pid tv syslog_structured_data syslog_msgid w =
     (let framed = m_log_format m = SYSLOG_TRANSMISSION_LOG_FORMAT_RFC_5425
      in obind (if framed then iov_add 15 '''' [] else Ret []) (\<lambda>iov.
         obind (set_priority_version_field 15 severity facility iov) (\<lambda>iov.
         obind (set_timestamp_field e 15 tv iov w) (\<lambda>(iov, w).
         obind (set_string_field_with_separator 15 hostname iov) (\<lambda>iov.
         obind (set_string_field_with_separator 15 identifier iov) (\<lambda>iov.
         obind (set_string_field_with_separator 15 pid iov) (\<lambda>iov.
         obind (set_string_field_with_separator 15 syslog_msgid iov) (\<lambda>iov.
         obind (set_structured_data_field 15 m syslog_structured_data iov) (\<lambda>iov.
         obind (iov_add 15 message iov) (\<lambda>iov.
         obind (if m_log_format m = SYSLOG_TRANSMISSION_LOG_FORMAT_RFC_5424 \<and> stream_protocol (m_protocol m)
                then iov_add 15 ''\<newline>'' iov else Ret iov) (\<lambda>iov.
           Ret (set_message_length_field m iov 0, w))))))))))))"

definition rfc3164_iov ::
  "env \<Rightarrow> Manager \<Rightarrow> int \<Rightarrow> int \<Rightarrow> string option \<Rightarrow> string \<Rightarrow> string option \<Rightarrow> string option \<Rightarrow> timeval option \<Rightarrow>
     world \<Rightarrow> (iovec \<times> world) outcome" where
  \<comment> \<open>\<open>format_rfc3164\<close> up to the call of \<open>protocol_send\<close>; \<open>struct iovec iov[14]\<close>\<close>
  "rfc3164_iov e m severity facility identifier message hostname pid tv w =
     obind (set_priority_field 14 severity facility []) (\<lambda>iov.
     obind (set_timestamp_field e 14 tv iov w) (\<lambda>(iov, w).
     obind (iov_add 14 (nil_default hostname) iov) (\<lambda>iov.
     obind (iov_add 14 '' '' iov) (\<lambda>iov.
     obind (iov_add 14 (nil_default identifier) iov) (\<lambda>iov.
     obind (iov_add 14 ''['' iov) (\<lambda>iov.
     obind (iov_add 14 (nil_default pid) iov) (\<lambda>iov.
     obind (iov_add 14 '']: '' iov) (\<lambda>iov.
     obind (iov_add 14 message iov) (\<lambda>iov.
     obind (if stream_protocol (m_protocol m) then iov_add 14 ''\<newline>'' iov else Ret iov) (\<lambda>iov.
       Ret (iov, w)))))))))))"

section \<open>Facts about the fields\<close>

lemma dec_of_nat_byte_length: "n < 256 \<Longrightarrow> length (dec_of_nat n) \<le> 3"
  using dec_of_nat_length [of n 2] by simp

lemma priority_text_fits:
  "length (dec_of_nat (unat (makepri s f))) \<le> 3"
proof -
  have "unat (makepri s f) < 2 ^ LENGTH(8)" by (rule unsigned_less)
  then show ?thesis by (intro dec_of_nat_byte_length) simp
qed

lemma zero_pad_length: "n < 10 ^ Suc k \<Longrightarrow> length (zero_pad (Suc k) n) = Suc k"
  using dec_of_nat_length [of n k] by (simp add: zero_pad_def)

lemma set_priority_version_field_ok:
  "length iov < cap \<Longrightarrow> set_priority_version_field cap s f iov =
     Ret (iov @ [''<'' @ dec_of_nat (unat (makepri s f)) @ ''>1 ''])"
  using priority_text_fits [of s f] by (simp add: set_priority_version_field_def snprintf_checked_def iov_add_def)

lemma set_priority_field_ok:
  "length iov < cap \<Longrightarrow> set_priority_field cap s f iov =
     Ret (iov @ [''<'' @ dec_of_nat (unat (makepri s f)) @ ''>''])"
  using priority_text_fits [of s f] by (simp add: set_priority_field_def snprintf_checked_def iov_add_def)

text \<open>Calendar fields in the ranges \<open>localtime_r\<close> documents, for years with four digits.\<close>

definition tm_ok :: "tm \<Rightarrow> bool" where
  "tm_ok tm \<longleftrightarrow> - 900 \<le> tm_year tm \<and> tm_year tm < 8100 \<and> tm_mon tm < 12 \<and> tm_mday tm < 32 \<and> tm_hour tm < 24 \<and>
     tm_min tm < 60 \<and> tm_sec tm \<le> 60 \<and> \<bar>tm_gmtoff tm\<bar> < 86400"

definition calendar_ok :: "env \<Rightarrow> bool" where
  "calendar_ok e \<longleftrightarrow> (\<forall>t. tm_ok (localtime e t))"

lemma year_length:
  assumes "- 900 \<le> y" "y < 8100"
  shows "length (dec_of_int (y + 1900)) = 4"
proof -
  have n: "1000 \<le> nat (y + 1900)" "nat (y + 1900) < 10000" using assms by auto
  then have "length (dec_of_nat (nat (y + 1900))) = 4"
    using dec_of_nat_length [of "nat (y + 1900)" 3] dec_of_nat_length_ge [of 3 "nat (y + 1900)"] by simp
  then show ?thesis using assms by (simp add: dec_of_int_def)
qed

lemma date_time_length: "tm_ok tm \<Longrightarrow> length (strftime_date_time tm) = 19"
  by (simp add: strftime_date_time_def tm_ok_def year_length zero_pad_length [of _ 1, simplified, folded numeral_2_eq_2])

lemma zone_length:
  assumes "tm_ok tm"
  shows "length (strftime_zone tm) = 5"
proof -
  have "nat \<bar>tm_gmtoff tm\<bar> < 86400" using assms by (auto simp: tm_ok_def)
  then have "nat \<bar>tm_gmtoff tm\<bar> div 3600 < 100" by (simp add: less_mult_imp_div_less)
  moreover have "nat \<bar>tm_gmtoff tm\<bar> div 60 mod 60 < 100" by (rule less_trans [of _ 60]) simp_all
  ultimately show ?thesis by (simp add: strftime_zone_def zero_pad_length [of _ 1, simplified, folded numeral_2_eq_2])
qed

text \<open>The text of the time stamp, as the source lays it out.\<close>

definition rfc3339_text :: "tm \<Rightarrow> nat option \<Rightarrow> string" where
  "rfc3339_text tm usec =
     strftime_date_time tm @ (case usec of None \<Rightarrow> [] | Some u \<Rightarrow> ''.'' @ zero_pad 6 u) @
     take 3 (strftime_zone tm) @ '':'' @ drop 3 (strftime_zone tm) @ '' ''"

lemma sint_small:
  fixes x :: u64
  assumes "unat x < 2 ^ 63"
  shows "sint x = int (unat x)"
proof -
  have u: "uint x < 2 ^ 63" using assms by (metis of_nat_less_iff of_nat_numeral of_nat_power of_nat_unat)
  have s: "sint x = signed_take_bit 63 (uint x)" using sint_uint [of x] by simp
  have "- (2 ^ 63) \<le> uint x" by (rule order_trans [of _ 0]) simp_all
  then have "signed_take_bit 63 (uint x) = uint x" using u by (rule signed_take_bit_int_eq_self)
  then show ?thesis using s by simp
qed

definition stamp_text :: "env \<Rightarrow> timeval option \<Rightarrow> world \<Rightarrow> string" where
  "stamp_text e tv w =
     (case tv of
        Some v \<Rightarrow> rfc3339_text (localtime e (sint (tv_sec v))) (Some (unat (tv_usec v)))
      | None \<Rightarrow> rfc3339_text (localtime e (uint (time e w Realtime_clock div USEC_PER_SEC))) None)"

definition stamp_world :: "timeval option \<Rightarrow> world \<Rightarrow> world" where
  "stamp_world tv w = (case tv of Some v \<Rightarrow> w | None \<Rightarrow> Realtime_clock # w)"

definition tv_ok :: "timeval option \<Rightarrow> bool" where
  "tv_ok tv \<longleftrightarrow> (case tv of Some v \<Rightarrow> unat (tv_usec v) < 1000000 | None \<Rightarrow> True)"

lemma format_rfc3339_timestamp_ok:
  assumes "calendar_ok e" "tv_ok tv"
  shows "format_rfc3339_timestamp e tv FORMAT_TIMESTAMP_MAX w = Ret (stamp_text e tv w, stamp_world tv w)"
proof -
  have tm: "length (strftime_date_time (localtime e t)) = 19" "length (strftime_zone (localtime e t)) = 5" for t
    using assms(1) date_time_length zone_length by (auto simp: calendar_ok_def)
  have tm': "strftime_date_time (localtime e t) \<noteq> []" "strftime_zone (localtime e t) \<noteq> []" for t
    using tm [of t] by auto
  show ?thesis
  proof (cases tv)
    case None
    then show ?thesis
      by (simp add: format_rfc3339_timestamp_def strftime_checked_def snprintf_checked_def tm tm'
          FORMAT_TIMESTAMP_MAX_def stamp_text_def stamp_world_def rfc3339_text_def Let_def)
  next
    case (Some v)
    with assms(2) have u: "unat (tv_usec v) < 10 ^ 6" by (simp add: tv_ok_def)
    then have s: "sint (tv_usec v) = int (unat (tv_usec v))" by (intro sint_small) simp
    have "length (zero_pad 6 (unat (tv_usec v))) = 6"
      using zero_pad_length [of "unat (tv_usec v)" 5] u by simp
    with Some show ?thesis
      by (simp add: format_rfc3339_timestamp_def strftime_checked_def snprintf_checked_def tm tm' s
          FORMAT_TIMESTAMP_MAX_def stamp_text_def stamp_world_def rfc3339_text_def Let_def)
  qed
qed

lemma set_timestamp_field_ok:
  assumes "calendar_ok e" "tv_ok tv" "length iov < cap"
  shows "set_timestamp_field e cap tv iov w = Ret (iov @ [stamp_text e tv w], stamp_world tv w)"
  using assms by (simp add: set_timestamp_field_def format_rfc3339_timestamp_ok iov_add_def)

lemma set_string_field_ok:
  "Suc (length iov) < cap \<Longrightarrow> set_string_field_with_separator cap v iov = Ret (iov @ [nil_default v, '' ''])"
  by (simp add: set_string_field_with_separator_def iov_add_def)

lemma set_structured_data_field_ok:
  "Suc (length iov) < cap \<Longrightarrow> set_structured_data_field cap m sd iov = Ret (iov @ [structured_data_text m sd, '' ''])"
  by (simp add: set_structured_data_field_def iov_add_def)

section \<open>The texts of whole messages\<close>

text \<open>\<open>SYSLOG-MSG\<close> of RFC 5424, and the line of RFC 3164.\<close>

definition rfc5424_text ::
  "env \<Rightarrow> Manager \<Rightarrow> int \<Rightarrow> int \<Rightarrow> string option \<Rightarrow> string \<Rightarrow> string option \<Rightarrow> string option \<Rightarrow> timeval option \<Rightarrow>
     string option \<Rightarrow> string option \<Rightarrow> world \<Rightarrow> string" where
  "rfc5424_text e m severity facility identifier message hostname pid tv sd msgid w =
     ''<'' @ dec_of_nat (unat (makepri severity facility)) @ ''>1 '' @ stamp_text e tv w @
     nil_default hostname @ '' '' @ nil_default identifier @ '' '' @ nil_default pid @ '' '' @
     nil_default msgid @ '' '' @ structured_data_text m sd @ '' '' @ message"

definition rfc3164_text ::
  "env \<Rightarrow> int \<Rightarrow> int \<Rightarrow> string option \<Rightarrow> string \<Rightarrow> string option \<Rightarrow> string option \<Rightarrow> timeval option \<Rightarrow> world \<Rightarrow> string" where
  "rfc3164_text e severity facility identifier message hostname pid tv w =
     ''<'' @ dec_of_nat (unat (makepri severity facility)) @ ''>'' @ stamp_text e tv w @
     nil_default hostname @ '' '' @ nil_default identifier @ ''['' @ nil_default pid @ '']: '' @ message"

text \<open>Octet counting: the length in decimal, a space, and the message (RFC 5425, RFC 6587).\<close>

definition octet_count :: "string \<Rightarrow> string" where
  "octet_count body = dec_of_nat (length body) @ '' '' @ body"

text \<open>What a receiver does with a counted frame.\<close>

definition octet_uncount :: "string \<Rightarrow> string option" where
  "octet_uncount frame =
     (let digits = takeWhile ascii_isdigit frame; rest = dropWhile ascii_isdigit frame
      in case rest of
           [] \<Rightarrow> None
         | c # body \<Rightarrow>
             if digits \<noteq> [] \<and> c = CHR '' '' \<and> digits_value 10 digits = length body then Some body else None)"

lemma octet_uncount_count: "octet_uncount (octet_count body) = Some body"
proof -
  have d: "\<forall>c\<in>set (dec_of_nat (length body)). ascii_isdigit c" using dec_of_nat_ascii_isdigit by blast
  have s: "\<not> ascii_isdigit CHR '' ''" by (simp add: ascii_isdigit_def char_code_def)
  have "takeWhile ascii_isdigit (octet_count body) = dec_of_nat (length body)"
    "dropWhile ascii_isdigit (octet_count body) = CHR '' '' # body"
    using takeWhile_stop [OF d s] dropWhile_stop [OF d s] by (simp_all add: octet_count_def)
  then show ?thesis by (simp add: octet_uncount_def dec_of_nat_nonempty digits_value_dec_of_nat)
qed

interpretation octet_codec: codec octet_count octet_uncount "\<lambda>_. True"
  by unfold_locales (rule octet_uncount_count)

definition rfc5424_parts ::
  "env \<Rightarrow> Manager \<Rightarrow> int \<Rightarrow> int \<Rightarrow> string option \<Rightarrow> string \<Rightarrow> string option \<Rightarrow> string option \<Rightarrow> timeval option \<Rightarrow>
     string option \<Rightarrow> string option \<Rightarrow> world \<Rightarrow> iovec" where
  "rfc5424_parts e m severity facility identifier message hostname pid tv sd msgid w =
     [''<'' @ dec_of_nat (unat (makepri severity facility)) @ ''>1 '', stamp_text e tv w,
      nil_default hostname, '' '', nil_default identifier, '' '', nil_default pid, '' '',
      nil_default msgid, '' '', structured_data_text m sd, '' '', message]"

lemma concat_rfc5424_parts:
  "concat (rfc5424_parts e m s f i msg h p tv sd mid w) = rfc5424_text e m s f i msg h p tv sd mid w"
  by (simp add: rfc5424_parts_def rfc5424_text_def)

lemma rfc5424_iov_eq:
  assumes "calendar_ok e" "tv_ok tv"
  shows "rfc5424_iov e m s f i msg h p tv sd mid w =
    Ret (set_message_length_field m
      ((if m_log_format m = SYSLOG_TRANSMISSION_LOG_FORMAT_RFC_5425 then [''''] else []) @
       rfc5424_parts e m s f i msg h p tv sd mid w @
       (if m_log_format m = SYSLOG_TRANSMISSION_LOG_FORMAT_RFC_5424 \<and> stream_protocol (m_protocol m) then [''\<newline>''] else [])) 0,
      stamp_world tv w)"
  using assms
  by (simp add: rfc5424_iov_def Let_def iov_add_def set_priority_version_field_ok set_timestamp_field_ok
      set_string_field_ok set_structured_data_field_ok rfc5424_parts_def)

lemma decimal_7:
  "length (dec_of_nat n @ '' '') < 8 \<longleftrightarrow> n < 1000000"
  using dec_of_nat_length [of n 5] dec_of_nat_length_ge [of 6 n] by (cases "n < 1000000") auto

lemma rfc3164_iov_eq:
  assumes "calendar_ok e" "tv_ok tv"
  shows "rfc3164_iov e m s f i msg h p tv w =
    Ret ([''<'' @ dec_of_nat (unat (makepri s f)) @ ''>'', stamp_text e tv w, nil_default h, '' '',
          nil_default i, ''['', nil_default p, '']: '', msg] @
         (if stream_protocol (m_protocol m) then [''\<newline>''] else []), stamp_world tv w)"
  using assms by (simp add: rfc3164_iov_def iov_add_def set_priority_field_ok set_timestamp_field_ok)

text \<open>The wire format: what the vector handed to the transport spells out.\<close>

definition wire_text ::
  "env \<Rightarrow> Manager \<Rightarrow> int \<Rightarrow> int \<Rightarrow> string option \<Rightarrow> string \<Rightarrow> string option \<Rightarrow> string option \<Rightarrow> timeval option \<Rightarrow>
     string option \<Rightarrow> string option \<Rightarrow> world \<Rightarrow> string" where
  "wire_text e m s f i msg h p tv sd mid w =
     (case m_log_format m of
        SYSLOG_TRANSMISSION_LOG_FORMAT_RFC_5424 \<Rightarrow>
          rfc5424_text e m s f i msg h p tv sd mid w @ (if stream_protocol (m_protocol m) then ''\<newline>'' else [])
      | SYSLOG_TRANSMISSION_LOG_FORMAT_RFC_5425 \<Rightarrow> octet_count (rfc5424_text e m s f i msg h p tv sd mid w)
      | SYSLOG_TRANSMISSION_LOG_FORMAT_RFC_3164 \<Rightarrow>
          rfc3164_text e s f i msg h p tv w @ (if stream_protocol (m_protocol m) then ''\<newline>'' else []))"

lemma rfc5424_iov_wire:
  assumes "calendar_ok e" "tv_ok tv" "m_log_format m = SYSLOG_TRANSMISSION_LOG_FORMAT_RFC_5424"
  shows "\<exists>iov. rfc5424_iov e m s f i msg h p tv sd mid w = Ret (Inr iov, stamp_world tv w) \<and>
    concat iov = wire_text e m s f i msg h p tv sd mid w \<and> iov \<noteq> [] \<and> length iov \<le> 15"
  using assms concat_rfc5424_parts [of e m s f i msg h p tv sd mid w]
  by (simp add: rfc5424_iov_eq set_message_length_field_def wire_text_def)
    (simp add: rfc5424_parts_def)

lemma rfc5425_iov_wire:
  assumes "calendar_ok e" "tv_ok tv" "m_log_format m = SYSLOG_TRANSMISSION_LOG_FORMAT_RFC_5425"
    and small: "length (rfc5424_text e m s f i msg h p tv sd mid w) < 2 ^ 63"
  shows "rfc5424_iov e m s f i msg h p tv sd mid w =
    (if length (rfc5424_text e m s f i msg h p tv sd mid w) < 1000000
     then Ret (Inr ((dec_of_nat (length (rfc5424_text e m s f i msg h p tv sd mid w)) @ '' '') #
            rfc5424_parts e m s f i msg h p tv sd mid w), stamp_world tv w)
     else Ret (Inl (- EMSGSIZE), stamp_world tv w))"
proof -
  let ?p = "rfc5424_parts e m s f i msg h p tv sd mid w"
  let ?n = "length (rfc5424_text e m s f i msg h p tv sd mid w)"
  have n: "length (concat ('''' # ?p)) = ?n" using concat_rfc5424_parts [of e m s f i msg h p tv sd mid w] by simp
  have u: "unat (IOVEC_TOTAL_SIZE ('''' # ?p)) = ?n"
    unfolding IOVEC_TOTAL_SIZE_def n [symmetric] by (rule unat_iovec_total_size) (use small n in simp)
  then have "dec_of_int (sint (IOVEC_TOTAL_SIZE ('''' # ?p))) = dec_of_nat ?n"
    using sint_small [of "IOVEC_TOTAL_SIZE ('''' # ?p)"] small by (simp add: dec_of_int_def)
  then show ?thesis
    using assms(1-3) decimal_7 [of ?n]
    by (auto simp: rfc5424_iov_eq set_message_length_field_def Let_def not_le)
qed

lemma rfc3164_iov_wire:
  assumes "calendar_ok e" "tv_ok tv" "m_log_format m = SYSLOG_TRANSMISSION_LOG_FORMAT_RFC_3164"
  shows "\<exists>iov. rfc3164_iov e m s f i msg h p tv w = Ret (iov, stamp_world tv w) \<and>
    concat iov = wire_text e m s f i msg h p tv sd mid w \<and> iov \<noteq> [] \<and> length iov \<le> 14"
  using assms by (simp add: rfc3164_iov_eq wire_text_def rfc3164_text_def)

end
