(* ===== verification/Network.thy ===== *)
theory Network
  imports Manager_State
begin

text \<open>
  \<open>src/netlog/netlog-network.c\<close>, the plain UDP and TCP transport: opening, connecting and
  closing the socket and sending a message.  Failures that the source only logs
  are followed by the next statement, as there.
\<close>

section \<open>Sending\<close>

definition SEND_TIMEOUT_USEC :: u64 where "SEND_TIMEOUT_USEC = 200000"

text \<open>
  The \<open>for (;;)\<close> of \<open>sendmsg_loop\<close>; the fuel bounds the number of \<open>sendmsg\<close> calls.
\<close>

fun sendmsg_loop :: "nat \<Rightarrow> env \<Rightarrow> iovec \<Rightarrow> nat \<Rightarrow> Manager \<Rightarrow> (int \<times> Manager) outcome" where
  "sendmsg_loop 0 e iov namelen m = Diverge"
| "sendmsg_loop (Suc fuel) e iov namelen m =
     c_assert (0 \<le> m_socket m)
      (let (n, m) = m_sys e (Net (Sendmsg (m_socket m) iov (sockaddr (m_address m)) namelen)) m
       in if 0 \<le> n then Ret (0, m)
          else if n = - EINTR then sendmsg_loop fuel e iov namelen m
          else if n \<noteq> - EAGAIN then Ret (n, m)
          else let (r, m) = m_pure (fd_wait_for_event e (m_socket m) POLLOUT SEND_TIMEOUT_USEC) m
               in if r < 0 then Ret (r, m)
                  else if r = 0 then Ret (- ETIMEDOUT, m)
                  else sendmsg_loop fuel e iov namelen m)"

definition network_send :: "nat \<Rightarrow> env \<Rightarrow> iovec \<Rightarrow> Manager \<Rightarrow> (int \<times> Manager) outcome" where
  "network_send fuel e iov m =
     c_assert (0 < length iov)
      (if sa_family (sockaddr (m_address m)) = AF_INET
       then sendmsg_loop fuel e iov SIZEOF_SOCKADDR_IN m
       else if sa_family (sockaddr (m_address m)) = AF_INET6
       then sendmsg_loop fuel e iov SIZEOF_SOCKADDR_IN6 m
       else Ret (- EAFNOSUPPORT, m))"

section \<open>Closing\<close>

definition manager_close_network_socket :: "env \<Rightarrow> Manager \<Rightarrow> (unit \<times> Manager) outcome" where
  "manager_close_network_socket e m =
     (let m = (if m_protocol m = SYSLOG_TRANSMISSION_PROTOCOL_TCP \<and> 0 \<le> m_socket m
               then m_call (Net (Shutdown (m_socket m))) m else m);
          m = m\<lparr>m_connected := False\<rparr>
      in obind (m_io (safe_close e (m_socket m)) m) (\<lambda>(fd, m). Ret ((), m\<lparr>m_socket := fd\<rparr>)))"

section \<open>Opening\<close>

definition manager_network_connect_socket :: "env \<Rightarrow> Manager \<Rightarrow> (int \<times> Manager) outcome" where
  "manager_network_connect_socket e m =
     c_assert (0 \<le> m_socket m)
      (let sa = sockaddr (m_address m); salen = inet_salen (sa_family sa)
       in if \<not> inet_family (sa_family sa) then Ret (- EAFNOSUPPORT, m)
          else obind (sockaddr_pretty (names e) sa salen True True) (\<lambda>p.
                 case p of
                   Inl r \<Rightarrow> Ret (r, m)
                 | Inr pretty \<Rightarrow>
                     let (r, m) = m_sys e (Net (Connect (m_socket m) sa salen)) m
                     in if r < 0 \<and> r \<noteq> - EINPROGRESS then Ret (log_full_errno r, m)
                        else Ret (0, m)))"

text \<open>A socket option whose failure is only logged.\<close>

definition set_option :: "env \<Rightarrow> bool \<Rightarrow> int \<Rightarrow> int \<Rightarrow> int \<Rightarrow> Manager \<Rightarrow> Manager" where
  "set_option e wanted level optname v m =
     (if wanted then snd (m_pure (setsockopt_int e (m_socket m) level optname v) m) else m)"

definition set_send_buffer :: "env \<Rightarrow> Manager \<Rightarrow> Manager" where
  "set_send_buffer e m =
     (if 0 < m_send_buffer m then snd (m_pure (fd_set_sndbuf e (m_socket m) (m_send_buffer m) False) m) else m)"

definition apply_tcp_socket_options :: "env \<Rightarrow> Manager \<Rightarrow> (int \<times> Manager) outcome" where
  "apply_tcp_socket_options e m =
     c_assert (0 \<le> m_socket m)
      (let m = set_option e (m_no_delay m) IPPROTO_TCP TCP_NODELAY 1 m;
           m = set_send_buffer e m;
           m = set_option e (m_keep_alive m) SOL_SOCKET SO_KEEPALIVE 1 m;
           m = set_option e (timestamp_is_set (m_keep_alive_time m)) IPPROTO_TCP TCP_KEEPIDLE
                 (to_int (m_keep_alive_time m div USEC_PER_SEC)) m;
           m = set_option e (0 < m_keep_alive_interval m) IPPROTO_TCP TCP_KEEPINTVL
                 (to_int (m_keep_alive_interval m div USEC_PER_SEC)) m;
           m = set_option e (0 < m_keep_alive_cnt m) IPPROTO_TCP TCP_KEEPCNT (sint (m_keep_alive_cnt m)) m
       in Ret (0, m))"

abbreviation (input) SOCK_FLAGS :: int where \<comment> \<open>\<open>SOCK_CLOEXEC|SOCK_NONBLOCK\<close>\<close>
  "SOCK_FLAGS \<equiv> 526336"

definition manager_socket_options :: "env \<Rightarrow> Manager \<Rightarrow> (int \<times> Manager) outcome" where
  \<comment> \<open>the second \<open>switch\<close> of \<open>manager_open_network_socket\<close>\<close>
  "manager_socket_options e m =
     (if m_protocol m = SYSLOG_TRANSMISSION_PROTOCOL_UDP
      then Ret (0, set_send_buffer e (set_option e True IPPROTO_IP IP_MULTICAST_LOOP 1 m))
      else apply_tcp_socket_options e m)"

definition manager_setup_socket :: "env \<Rightarrow> Manager \<Rightarrow> (int \<times> Manager) outcome" where
  \<comment> \<open>\<open>manager_open_network_socket\<close> from the created socket on\<close>
  "manager_setup_socket e m =
     obind (manager_socket_options e m) (\<lambda>(r, m).
       if r < 0 then Ret (r, m)
       else obind (m_io (fd_nonblock e (m_socket m) True) m) (\<lambda>(_, m).
       obind (manager_network_connect_socket e m) (\<lambda>(r, m).
         if r < 0
         then obind (m_io (safe_close e (m_socket m)) m) (\<lambda>(fd, m). Ret (r, m\<lparr>m_socket := fd\<rparr>))
         else Ret (0, m\<lparr>m_connected := True\<rparr>))))"

definition plain_sock_type :: "SysLogTransmissionProtocol \<Rightarrow> int option" where
  \<comment> \<open>the first \<open>switch\<close>\<close>
  "plain_sock_type p =
     (case p of
        SYSLOG_TRANSMISSION_PROTOCOL_UDP \<Rightarrow> Some (SOCK_DGRAM + SOCK_FLAGS)
      | SYSLOG_TRANSMISSION_PROTOCOL_TCP \<Rightarrow> Some (SOCK_STREAM + SOCK_FLAGS)
      | _ \<Rightarrow> None)"

definition manager_open_network_socket :: "env \<Rightarrow> Manager \<Rightarrow> (int \<times> Manager) outcome" where
  "manager_open_network_socket e m =
     (let family = sa_family (sockaddr (m_address m))
      in if \<not> inet_family family then Ret (- EAFNOSUPPORT, m)
         else case plain_sock_type (m_protocol m) of
                None \<Rightarrow> Ret (- EPROTONOSUPPORT, m)
              | Some sock_type \<Rightarrow>
                  let (fd, m) = m_sys e (Net (Socket family sock_type 0)) m
                  in if fd < 0 then Ret (log_full_errno fd, m\<lparr>m_socket := -1\<rparr>)
                     else manager_setup_socket e (m\<lparr>m_socket := fd\<rparr>))"

section \<open>Facts\<close>

text \<open>An operation that changes nothing but the history.\<close>

definition only_world :: "Manager \<Rightarrow> Manager \<Rightarrow> bool" where
  "only_world m m' \<longleftrightarrow> m' = m\<lparr>world := world m'\<rparr>"

lemma only_world_update [simp, intro]: "only_world m (m\<lparr>world := w\<rparr>)"
  by (simp add: only_world_def)

lemma only_world_refl [simp, intro]: "only_world m m"
  by (simp add: only_world_def)

lemma only_world_trans: "only_world m m' \<Longrightarrow> only_world m' m'' \<Longrightarrow> only_world m m''"
  unfolding only_world_def by (metis Manager.update_convs(40) Manager.surjective)

lemma only_world_calls [simp]:
  "only_world m (m_call c m)" "only_world m (snd (m_sys e c m))" "only_world m (snd (m_pure f m))"
  by (simp_all add: m_call_def m_sys_def m_pure_def split: prod.splits)

lemma only_world_options [simp]:
  "only_world m (set_option e b l p v m)" "only_world m (set_send_buffer e m)"
  by (simp_all add: set_option_def set_send_buffer_def)

lemma only_world_options_trans:
  "only_world m m' \<Longrightarrow> only_world m (set_option e b l p v m')"
  "only_world m m' \<Longrightarrow> only_world m (set_send_buffer e m')"
  using only_world_options only_world_trans by blast+

definition closed_world :: "Manager \<Rightarrow> world" where
  "closed_world m =
     (if 0 \<le> m_socket m
      then Net (Close (m_socket m)) #
        (if m_protocol m = SYSLOG_TRANSMISSION_PROTOCOL_TCP then [Net (Shutdown (m_socket m))] else []) @ world m
      else world m)"

lemma manager_close_network_socket_ok:
  assumes "close_ok e"
  shows "manager_close_network_socket e m =
    Ret ((), m\<lparr>m_connected := False, m_socket := -1, world := closed_world m\<rparr>)"
  using assms by (simp add: manager_close_network_socket_def m_io_def safe_close_ok m_call_def Let_def closed_world_def)

lemma manager_socket_options_ok:
  assumes "0 \<le> m_socket m"
  obtains m' where "manager_socket_options e m = Ret (0, m')" "only_world m m'"
proof (cases "m_protocol m = SYSLOG_TRANSMISSION_PROTOCOL_UDP")
  case True
  then show ?thesis
    by (intro that) (simp add: manager_socket_options_def, intro only_world_options_trans only_world_refl)
next
  case False
  with assms show ?thesis
    by (intro that) (simp add: manager_socket_options_def apply_tcp_socket_options_def Let_def,
        intro only_world_options_trans only_world_refl)
qed

lemma fd_nonblock_ok: "0 \<le> fd \<Longrightarrow> \<exists>r w'. fd_nonblock e fd b w = Ret (r, w')"
  by (auto simp: fd_nonblock_def sys_def Let_def)

lemma manager_network_connect_socket_ok:
  assumes "0 \<le> m_socket m"
  shows "\<exists>r m'. manager_network_connect_socket e m = Ret (r, m') \<and> r \<le> 0 \<and> only_world m m'"
proof (cases "inet_family (sa_family (sockaddr (m_address m)))")
  case False
  then show ?thesis using assms
    by (intro exI [of _ "- EAFNOSUPPORT"] exI [of _ m]) (simp add: manager_network_connect_socket_def Let_def)
next
  case True
  let ?sa = "sockaddr (m_address m)"
  let ?c = "Net (Connect (m_socket m) ?sa (inet_salen (sa_family ?sa)))"
  let ?r = "ans e (world m) ?c"
  obtain p where p: "sockaddr_pretty (names e) ?sa (inet_salen (sa_family ?sa)) True True = Ret (Inr p)"
    using sockaddr_pretty_inet [OF True] by blast
  have "manager_network_connect_socket e m =
      Ret (if ?r < 0 \<and> ?r \<noteq> - EINPROGRESS then ?r else 0, m\<lparr>world := ?c # world m\<rparr>)"
    using assms True unfolding manager_network_connect_socket_def Let_def p by (simp add: m_sys_def)
  then show ?thesis by (intro exI conjI) (assumption, simp_all)
qed

text \<open>The possible results of opening the socket of a disconnected manager.\<close>

definition opened :: "Manager \<Rightarrow> int \<Rightarrow> Manager \<Rightarrow> bool" where
  "opened m r m' \<longleftrightarrow> r \<le> 0 \<and> (0 \<le> m_socket m' \<longleftrightarrow> r = 0) \<and> -1 \<le> m_socket m' \<and>
     m' = m\<lparr>m_socket := m_socket m', m_connected := (r = 0), world := world m'\<rparr>"

lemma opened_unchanged: "\<not> m_connected m \<Longrightarrow> m_socket m = -1 \<Longrightarrow> r < 0 \<Longrightarrow> opened m r m"
  by (cases m) (simp add: opened_def)

lemma manager_setup_socket_ok:
  assumes "close_ok e" and "\<not> m_connected m" and "0 \<le> m_socket m"
  shows "\<exists>r m'. manager_setup_socket e m = Ret (r, m') \<and> opened m r m'"
proof -
  obtain m1 where opt: "manager_socket_options e m = Ret (0, m1)" and m1: "m1 = m\<lparr>world := world m1\<rparr>"
    using manager_socket_options_ok [OF assms(3), of e] unfolding only_world_def by blast
  have s1: "m_socket m1 = m_socket m" by (subst m1) simp
  obtain r2 w2 where nb: "fd_nonblock e (m_socket m1) True (world m1) = Ret (r2, w2)"
    using fd_nonblock_ok [of "m_socket m1" e True "world m1"] assms(3) s1 by auto
  let ?m2 = "m1\<lparr>world := w2\<rparr>"
  have "0 \<le> m_socket ?m2" using assms(3) s1 by simp
  from manager_network_connect_socket_ok [OF this, of e] obtain r3 m3
    where con: "manager_network_connect_socket e ?m2 = Ret (r3, m3)"
      and r3: "r3 \<le> 0" and m3: "m3 = ?m2\<lparr>world := world m3\<rparr>" unfolding only_world_def by blast
  define w3 where "w3 = world m3"
  have m3': "m3 = m\<lparr>world := w3\<rparr>" by (subst m3, subst m1) (simp add: w3_def)
  have res: "manager_setup_socket e m =
      (if r3 < 0 then Ret (r3, m\<lparr>world := Net (Close (m_socket m)) # w3, m_socket := -1\<rparr>)
       else Ret (0, m\<lparr>world := w3, m_connected := True\<rparr>))"
    by (simp add: manager_setup_socket_def opt m_io_def nb con m3' safe_close_ok [OF assms(1)] assms(3))
  show ?thesis
  proof (cases "r3 < 0")
    case True
    with res assms(2) show ?thesis
      by (intro exI [of _ r3] exI [of _ "m\<lparr>world := Net (Close (m_socket m)) # w3, m_socket := -1\<rparr>"])
        (cases m; simp add: opened_def)
  next
    case False
    with res assms(3) show ?thesis
      by (intro exI [of _ 0] exI [of _ "m\<lparr>world := w3, m_connected := True\<rparr>"]) (cases m; simp add: opened_def)
  qed
qed

text \<open>Opening returns, and the socket is open exactly when it succeeded.\<close>

lemma manager_open_network_socket_ok:
  assumes "close_ok e" and "\<not> m_connected m" and "m_socket m = -1"
  shows "\<exists>r m'. manager_open_network_socket e m = Ret (r, m') \<and> opened m r m'"
proof (cases "inet_family (sa_family (sockaddr (m_address m))) \<and> plain_sock_type (m_protocol m) \<noteq> None")
  case False
  then have "\<exists>r<0. manager_open_network_socket e m = Ret (r, m)"
    by (auto simp: manager_open_network_socket_def Let_def)
  then show ?thesis using opened_unchanged [OF assms(2,3)] by blast
next
  case True
  then obtain t where t: "plain_sock_type (m_protocol m) = Some t" by blast
  let ?c = "Net (Socket (sa_family (sockaddr (m_address m))) t 0)"
  let ?fd = "ans e (world m) ?c"
  let ?m = "m\<lparr>world := ?c # world m, m_socket := ?fd\<rparr>"
  show ?thesis
  proof (cases "?fd < 0")
    case bad: True
    have "manager_open_network_socket e m = Ret (?fd, m\<lparr>world := ?c # world m, m_socket := -1\<rparr>)"
      using True t bad by (simp add: manager_open_network_socket_def m_sys_def Let_def)
    moreover have "opened m ?fd (m\<lparr>world := ?c # world m, m_socket := -1\<rparr>)"
      using bad assms by (cases m) (simp add: opened_def)
    ultimately show ?thesis by blast
  next
    case False
    have eq: "manager_open_network_socket e m = manager_setup_socket e ?m"
      using True t False by (simp add: manager_open_network_socket_def m_sys_def Let_def)
    have "\<not> m_connected ?m" "0 \<le> m_socket ?m" using assms False by simp_all
    from manager_setup_socket_ok [OF assms(1) this] obtain r m'
      where "manager_setup_socket e ?m = Ret (r, m')" and o: "opened ?m r m'" by blast
    moreover have "opened m r m'" using o unfolding opened_def by simp
    ultimately show ?thesis using eq by auto
  qed
qed

section \<open>Sending returns\<close>

text \<open>
  \<open>sendmsg_loop\<close> has no bound of its own: it goes on as long as the kernel answers
  \<open>EINTR\<close>, or \<open>EAGAIN\<close> and then reports the socket writable.  Once \<open>k\<close> calls of
  \<open>sendmsg\<close> were made, the kernel gives another answer.
\<close>

fun is_sendmsg :: "call \<Rightarrow> bool" where
  "is_sendmsg (Net (Sendmsg fd iov sa l)) = True"
| "is_sendmsg c = False"

definition sends_settle :: "env \<Rightarrow> nat \<Rightarrow> bool" where
  "sends_settle e k \<longleftrightarrow>
     (\<forall>w fd iov sa l. k \<le> length (filter is_sendmsg w) \<longrightarrow>
        ans e w (Net (Sendmsg fd iov sa l)) \<noteq> - EINTR \<and> ans e w (Net (Sendmsg fd iov sa l)) \<noteq> - EAGAIN)"

lemma fd_wait_for_event_world:
  "\<exists>r c. fd_wait_for_event e fd ev t w = (r, c # w) \<and> \<not> is_sendmsg c"
  by (auto simp: fd_wait_for_event_def sys_def Let_def)

lemma sendmsg_loop_returns:
  assumes "sends_settle e k" and "0 \<le> m_socket m" and "k < fuel + length (filter is_sendmsg (world m))" "0 < fuel"
  shows "\<exists>r m'. sendmsg_loop fuel e iov l m = Ret (r, m') \<and> only_world m m' \<and> r \<le> 0"
  using assms(2-)
proof (induction fuel arbitrary: m)
  case 0
  then show ?case by simp
next
  case (Suc fuel)
  define c where "c = Net (Sendmsg (m_socket m) iov (sockaddr (m_address m)) l)"
  define n where "n = ans e (world m) c"
  define m1 where "m1 = m\<lparr>world := c # world m\<rparr>"
  obtain r d where wait: "fd_wait_for_event e (m_socket m) POLLOUT SEND_TIMEOUT_USEC (c # world m) = (r, d # c # world m)"
    and d: "\<not> is_sendmsg d" using fd_wait_for_event_world by blast
  define m2 where "m2 = m\<lparr>world := d # c # world m\<rparr>"
  have unf: "sendmsg_loop (Suc fuel) e iov l m =
      (if 0 \<le> n then Ret (0, m1) else if n = - EINTR then sendmsg_loop fuel e iov l m1
       else if n \<noteq> - EAGAIN then Ret (n, m1)
       else if r < 0 then Ret (r, m2) else if r = 0 then Ret (- ETIMEDOUT, m2) else sendmsg_loop fuel e iov l m2)"
    using Suc.prems(1) wait by (simp add: m_sys_def m_pure_def Let_def c_def n_def m1_def m2_def)
  have ow: "only_world m m1" "only_world m m2" by (simp_all add: m1_def m2_def)
  have more: "0 < fuel" if "n = - EINTR \<or> n = - EAGAIN"
  proof (rule ccontr)
    assume "\<not> 0 < fuel"
    then have "k \<le> length (filter is_sendmsg (world m))" using Suc.prems(2) by simp
    then show False using assms(1) that unfolding sends_settle_def n_def c_def by blast
  qed
  have cnt: "length (filter is_sendmsg (world m1)) = Suc (length (filter is_sendmsg (world m)))"
    "length (filter is_sendmsg (world m2)) = Suc (length (filter is_sendmsg (world m)))"
    using d by (simp_all add: m1_def m2_def c_def)
  have rec: "\<exists>r m'. sendmsg_loop fuel e iov l mi = Ret (r, m') \<and> only_world m m' \<and> r \<le> 0"
    if "mi = m1 \<or> mi = m2" "0 < fuel" for mi
  proof -
    have "0 \<le> m_socket mi" "k < fuel + length (filter is_sendmsg (world mi))" "only_world m mi"
      using that cnt Suc.prems ow by (auto simp: m1_def m2_def)
    then show ?thesis using Suc.IH [of mi] that(2) only_world_trans by blast
  qed
  consider "0 \<le> n" | "n = - EINTR" | "n < 0" "n \<noteq> - EINTR" "n \<noteq> - EAGAIN" | "n = - EAGAIN" by linarith
  then show ?case
  proof cases
    case 1
    then show ?thesis unfolding unf using ow by simp
  next
    case 2
    then show ?thesis unfolding unf using rec [of m1] more by simp
  next
    case 3
    then show ?thesis unfolding unf using ow by simp
  next
    case 4
    then show ?thesis unfolding unf using ow rec [of m2] more by simp
  qed
qed

lemma network_send_returns:
  assumes "sends_settle e k" "0 \<le> m_socket m" "k < fuel" "iov \<noteq> []"
  shows "\<exists>r m'. network_send fuel e iov m = Ret (r, m') \<and> only_world m m' \<and> r \<le> 0"
  using sendmsg_loop_returns [OF assms(1,2), of fuel] assms(3,4)
  by (auto simp: network_send_def)

end
