(* ===== verification/State_File.thy ===== *)
theory State_File
  imports Manager_State File_IO
begin

text \<open>
  \<open>src/netlog/netlog-state.c\<close>: the cursor of the last forwarded journal entry is kept in
  a state file, written to a temporary file that is renamed over it, and read back with
  the environment file parser.
\<close>

section \<open>Temporary files\<close>

definition mkostemp_safe :: "env \<Rightarrow> string \<Rightarrow> world \<Rightarrow> int \<times> string \<times> world" where
  \<comment> \<open>the descriptor or the error, and the name the template was turned into\<close>
  "mkostemp_safe e pattern w =
     (let c = File (Mkostemp pattern); (fd, w') = sys e c w in (fd, out e w c, w'))"

definition fopen_temporary :: "env \<Rightarrow> string \<Rightarrow> world \<Rightarrow> (string result \<times> world) outcome" where
  "fopen_temporary e path w =
     (case tempfn_xxxxxx path None of
        Inl r \<Rightarrow> Ret (Inl r, w)
      | Inr t \<Rightarrow>
          let (fd, temp_path, w) = mkostemp_safe e t w
          in if fd < 0 then Ret (Inl fd, w)
             else let (f, w) = sys e (File Fdopen) w
                  in if f < 0
                     then obind (safe_close e fd (File (Unlink temp_path) # w)) (\<lambda>(_, w). Ret (Inl f, w))
                     else Ret (Inr temp_path, w))"

section \<open>Saving and loading the cursor\<close>

definition state_file_text :: "string \<Rightarrow> string" where
  "state_file_text cursor =
     ''# This is private data. Do not parse.'' @ ''\<newline>'' @ ''LAST_CURSOR='' @ cursor @ ''\<newline>''"

definition state_update_cursor :: "env \<Rightarrow> Manager \<Rightarrow> (int \<times> Manager) outcome" where
  "state_update_cursor e m =
     (case (m_state_file m, m_last_cursor m) of
        (Some state_file, Some cursor) \<Rightarrow>
          obind (m_io (fopen_temporary e state_file) m) (\<lambda>(t, m).
            case t of
              Inl r \<Rightarrow> Ret (r, m)
            | Inr temp_path \<Rightarrow>
                let m = m_call (File (Fchmod 420)) m;
                    m = m_call (File (Fputs (state_file_text cursor))) m;
                    (r, m) = m_sys e (File Fflush) m
                in if r < 0 then Ret (r, m_call (File Fclose) (m_call (File (Unlink temp_path)) m))
                   else let (r, m) = m_sys e (File (Rename temp_path state_file)) m
                        in Ret (if r < 0 then r else 0,
                                m_call (File Fclose) (m_call (File (Unlink temp_path)) m)))
      | _ \<Rightarrow> Ret (0, m))"

definition open_state_file :: "env \<Rightarrow> string \<Rightarrow> world \<Rightarrow> (nat option \<times> string) result" where
  \<comment> \<open>what \<open>fopen\<close>, \<open>fstat\<close> and \<open>fread\<close> deliver for a regular file\<close>
  "open_state_file e path w =
     (let c = File (Open_read path)
      in if ans e w c < 0 then Inl (ans e w c) else Inr (Some (len e w c), out e w c))"

definition state_load_cursor :: "env \<Rightarrow> Manager \<Rightarrow> int \<times> Manager" where
  "state_load_cursor e m =
     (case m_state_file m of
        None \<Rightarrow> (0, m)
      | Some state_file \<Rightarrow>
          let contents = read_full_file (open_state_file e state_file (world m));
              (r, targets) = parse_env_file contents (Some NEWLINE) [(''LAST_CURSOR'', m_last_cursor m)];
              m = (m_call (File (Open_read state_file)) m)\<lparr>m_last_cursor := snd (hd targets)\<rparr>
          in if r < 0 \<and> r \<noteq> - ENOENT then (r, m) else (0, m))"

section \<open>The file is read back as it was written\<close>

definition state_file_cursor :: "string \<Rightarrow> string option" where
  \<comment> \<open>the cursor that loading a file with these bytes yields\<close>
  "state_file_cursor bytes =
     (let (r, targets) = parse_env_file (read_full_file (Inr (Some (length bytes), bytes))) (Some NEWLINE)
        [(''LAST_CURSOR'', None)]
      in if r < 0 then None else snd (hd targets))"

definition cursor_ok :: "string \<Rightarrow> bool" where
  "cursor_ok c \<longleftrightarrow> plain_value c \<and> utf8_is_valid c \<and> CHR 0x00 \<notin> set c \<and> length c < 2000000"

lemma ascii_word_valid: "utf8_is_valid ''LAST_CURSOR''"
  by code_simp

lemma state_file_parse:
  assumes "cursor_ok c"
  shows "parse_env_file (Inr (state_file_text c)) (Some NEWLINE) [(''LAST_CURSOR'', old)] =
    (1, [(''LAST_CURSOR'', Some c)])"
proof -
  let ?u = "([(''LAST_CURSOR'', old)], 0 :: int)"
  let ?p = "env_start ?u"
  let ?head = "CHR ''#'' # '' This is private data. Do not parse.'' @ ''\<newline>''"
  have lines: "state_file_text c = ?head @ env_line ''LAST_CURSOR'' c"
    by (simp add: state_file_text_def env_line_def)
  have nul: "cstr (state_file_text c) = state_file_text c"
    using assms by (auto simp: cstr_def takeWhile_eq_all_conv state_file_text_def cursor_ok_def)
  have ready: "env_ready ?p" "env_ready (?p\<lparr>ep_line := ep_line ?p + 1\<rparr>)"
    by (simp_all add: env_ready_def env_start_def)
  have head: "env_loop parse_env_file_push NEWLINE ?head ?p = Inr (?p\<lparr>ep_line := ep_line ?p + 1\<rparr>)"
    by (rule env_comment_line_run [OF ready(1)]) (simp add: NEWLINE_def)
  have key: "plain_key ''LAST_CURSOR''"
    by (simp add: plain_key_def COMMENTS_def WHITESPACE_def)
  have val: "plain_value c" using assms by (simp add: cursor_ok_def)
  have push: "parse_env_file_push l ''LAST_CURSOR'' (Some c) ?u = (1, ([(''LAST_CURSOR'', Some c)], 1))" for l
    using assms ascii_word_valid by (simp add: parse_env_file_push_def cursor_ok_def)
  have "env_loop parse_env_file_push NEWLINE (state_file_text c) ?p =
      env_loop parse_env_file_push NEWLINE (env_line ''LAST_CURSOR'' c) (?p\<lparr>ep_line := ep_line ?p + 1\<rparr>)"
    unfolding lines env_loop_append head by simp
  also have "\<dots> = Inr (?p\<lparr>ep_lkw := None, ep_lvw := None, ep_line := ep_line ?p + 1 + 1,
      ep_user := ([(''LAST_CURSOR'', Some c)], 1)\<rparr>)"
    unfolding env_line_run [OF key val ready(2)] by (simp add: push env_start_def)
  finally show ?thesis
    by (simp add: parse_env_file_def parse_env_file_internal_def nul env_end_def env_start_def)
qed

lemma state_file_size: "cursor_ok c \<Longrightarrow> length (state_file_text c) * 2 \<le> FILE_LIMIT"
  by (simp add: cursor_ok_def state_file_text_def FILE_LIMIT_def)

lemma state_file_cursor_text: "cursor_ok c \<Longrightarrow> state_file_cursor (state_file_text c) = Some c"
  using state_file_parse [of c None] state_file_size [of c]
  by (simp add: state_file_cursor_def read_full_file_def read_full_stream_regular)

interpretation state_codec: codec state_file_text state_file_cursor cursor_ok
  by unfold_locales (rule state_file_cursor_text)


end
