(* ===== verification/Journal_Input.thy ===== *)
theory Journal_Input
  imports Network State_File
begin

text \<open>
  The journal side of a connection (\<open>src/netlog/netlog-journal.c\<close>): opening the journal,
  watching its descriptor, seeking to the last cursor and closing it.
\<close>

abbreviation (input) SD_JOURNAL_LOCAL_ONLY :: int where "SD_JOURNAL_LOCAL_ONLY \<equiv> 1"

definition journal_close_input :: "Manager \<Rightarrow> Manager" where
  "journal_close_input m =
     (if m_journal m then (m_call (Journal Journal_close) m)\<lparr>m_journal := False, m_journal_watch_fd := -1\<rparr> else m)"

definition journal_source_of :: "Manager \<Rightarrow> journal_source" where
  "journal_source_of m =
     (case m_dir m of
        Some d \<Rightarrow> Journal_directory d
      | None \<Rightarrow> (case m_namespace m of
                  Some n \<Rightarrow> Journal_namespace n (SD_JOURNAL_LOCAL_ONLY OR m_namespace_flags m)
                | None \<Rightarrow> Journal_local))"

definition journal_open :: "env \<Rightarrow> Manager \<Rightarrow> int \<times> Manager" where
  "journal_open e m =
     (let (r, m) = m_sys e (Journal (Journal_open (journal_source_of m))) m
      in if r < 0 then (r, m) else (r, m\<lparr>m_journal := True\<rparr>))"

definition journal_seek :: "env \<Rightarrow> Manager \<Rightarrow> int \<times> Manager" where
  \<comment> \<open>the last part of \<open>journal_monitor_listen\<close>\<close>
  "journal_seek e m =
     (let m = (if m_last_cursor m = None then snd (state_load_cursor e m) else m)
      in case m_last_cursor m of
           None \<Rightarrow> (0, m)
         | Some cursor \<Rightarrow>
             let (r, m) = m_sys e (Journal (Journal_seek_cursor cursor)) m
             in if r < 0 then (log_full_errno r, m) else (0, m))"

definition journal_monitor_listen :: "env \<Rightarrow> Manager \<Rightarrow> int \<times> Manager" where
  "journal_monitor_listen e m =
     (let (r, m) = journal_open e m
      in if r < 0 then (r, m)
         else let m = m_call (Journal Journal_set_data_threshold) m;
                  (fd, m) = m_sys e (Journal Journal_get_fd) m;
                  m = m\<lparr>m_journal_watch_fd := fd\<rparr>
              in if fd < 0 then (log_full_errno fd, m)
                 else let (events, m) = m_sys e (Journal Journal_get_events) m;
                          (r, m) = m_sys e (Event (Event_add_io fd events)) m
                      in if r < 0 then (log_full_errno r, m)
                         else journal_seek e (m\<lparr>m_event_journal_input := True\<rparr>))"

section \<open>Facts\<close>

text \<open>
  Only the journal's own fields and the cursor change, and the event source is there only
  with an open journal and a valid descriptor.
\<close>

definition journal_frame :: "Manager \<Rightarrow> Manager \<Rightarrow> bool" where
  "journal_frame m m' \<longleftrightarrow>
     m' = m\<lparr>m_journal := m_journal m', m_journal_watch_fd := m_journal_watch_fd m',
             m_event_journal_input := m_event_journal_input m', m_last_cursor := m_last_cursor m', world := world m'\<rparr>"

lemma state_load_cursor_frame:
  "snd (state_load_cursor e m) = m\<lparr>m_last_cursor := m_last_cursor (snd (state_load_cursor e m)),
     world := world (snd (state_load_cursor e m))\<rparr>"
  by (cases m) (simp add: state_load_cursor_def m_call_def Let_def split: option.splits prod.splits)

lemma journal_seek_frame:
  assumes "journal_seek e m = (r, m')"
  shows "m' = m\<lparr>m_last_cursor := m_last_cursor m', world := world m'\<rparr> \<and> r \<le> 0"
proof -
  define m1 where "m1 = (if m_last_cursor m = None then snd (state_load_cursor e m) else m)"
  have m1: "m1 = m\<lparr>m_last_cursor := m_last_cursor m1, world := world m1\<rparr>"
  proof (cases "m_last_cursor m = None")
    case True
    then show ?thesis using state_load_cursor_frame [of e m] by (simp add: m1_def)
  next
    case False
    then have "m1 = m" by (simp only: m1_def if_False)
    then show ?thesis by simp
  qed
  from assms have "(r = 0 \<and> m' = m1) \<or> (r \<le> 0 \<and> (\<exists>c. m' = m1\<lparr>world := c # world m1\<rparr>))"
    unfolding journal_seek_def m1_def [symmetric] Let_def m_sys_def
    by (auto split: option.splits if_splits)
  then show ?thesis
  proof (elim disjE conjE exE)
    assume "r = 0" "m' = m1"
    then show ?thesis using m1 by simp
  next
    fix c assume "r \<le> 0" "m' = m1\<lparr>world := c # world m1\<rparr>"
    then show ?thesis by (simp, subst m1, simp)
  qed
qed

lemma journal_monitor_listen_frame:
  assumes "journal_monitor_listen e m = (r, m')" and "\<not> m_event_journal_input m"
  shows "r \<le> 0 \<and> journal_frame m m' \<and> (m_event_journal_input m' \<longrightarrow> m_journal m' \<and> 0 \<le> m_journal_watch_fd m') \<and>
    (r = 0 \<longrightarrow> m_event_journal_input m')"
proof -
  define c0 where "c0 = Journal (Journal_open (journal_source_of m))"
  define w1 where "w1 = Journal Journal_set_data_threshold # c0 # world m"
  define fd where "fd = ans e w1 (Journal Journal_get_fd)"
  define w2 where "w2 = Journal Journal_get_fd # w1"
  define ev where "ev = ans e w2 (Journal Journal_get_events)"
  define w3 where "w3 = Journal Journal_get_events # w2"
  define r3 where "r3 = ans e w3 (Event (Event_add_io fd ev))"
  define w4 where "w4 = Event (Event_add_io fd ev) # w3"
  let ?m4 = "m\<lparr>m_journal := True, m_journal_watch_fd := fd, world := w4, m_event_journal_input := True\<rparr>"
  have unf: "journal_monitor_listen e m =
      (if ans e (world m) c0 < 0 then (ans e (world m) c0, m\<lparr>world := c0 # world m\<rparr>)
       else if fd < 0 then (fd, m\<lparr>world := w2, m_journal := True, m_journal_watch_fd := fd\<rparr>)
       else if r3 < 0 then (r3, m\<lparr>world := w4, m_journal := True, m_journal_watch_fd := fd\<rparr>)
       else journal_seek e ?m4)"
    by (simp add: journal_monitor_listen_def journal_open_def m_sys_def m_call_def Let_def
        c0_def w1_def fd_def w2_def ev_def w3_def r3_def w4_def)
  show ?thesis
  proof (cases "ans e (world m) c0 < 0 \<or> fd < 0 \<or> r3 < 0")
    case True
    then show ?thesis using assms unfolding unf
      by (cases m) (auto simp: journal_frame_def split: if_splits)
  next
    case False
    then have seek: "journal_seek e ?m4 = (r, m')" using assms(1) unfolding unf by simp
    have m': "m' = ?m4\<lparr>m_last_cursor := m_last_cursor m', world := world m'\<rparr>" and "r \<le> 0"
      using journal_seek_frame [OF seek] by simp_all
    have "m_journal m'" "m_journal_watch_fd m' = fd" "m_event_journal_input m'" by (subst m', simp)+
    moreover have "journal_frame m m'" unfolding journal_frame_def
      using calculation by (subst m') simp
    ultimately show ?thesis using False \<open>r \<le> 0\<close> by simp
  qed
qed

end
