(* ===== verification/Connect.thy ===== *)
theory Connect
  imports Journal_Input
begin

text \<open>
  The connection life cycle of \<open>src/netlog/netlog-manager.c\<close>: \<open>manager_disconnect\<close> and the
  rate-limited, self-calling \<open>manager_connect\<close>.  The fuel of \<open>manager_connect\<close> bounds the
  depth of that recursion.
\<close>

section \<open>Operations\<close>

definition unref_source :: "bool \<Rightarrow> call \<Rightarrow> Manager \<Rightarrow> Manager" where
  \<comment> \<open>releasing an object of another library does nothing for a null pointer\<close>
  "unref_source present c m = (if present then m_call c m else m)"

definition manager_disconnect_ssl :: "env \<Rightarrow> Manager \<Rightarrow> (unit \<times> Manager) outcome" where
  "manager_disconnect_ssl e m =
     obind (ssl_disconnect e (m_dtls m) (world m)) (\<lambda>(d, w).
     obind (ssl_disconnect e (m_tls m) w) (\<lambda>(t, w).
       Ret ((), m\<lparr>m_dtls := d, m_tls := t, world := w\<rparr>)))"

definition manager_disconnect :: "env \<Rightarrow> Manager \<Rightarrow> (unit \<times> Manager) outcome" where
  "manager_disconnect e m =
     (let m = (unref_source (m_resolve_query m) (Event Resolve_query_unref) m)\<lparr>m_resolve_query := False\<rparr>
      in obind (manager_close_network_socket e m) (\<lambda>(_, m).
         obind (manager_disconnect_ssl e m) (\<lambda>(_, m).
         let m = (unref_source (m_event_journal_input m) (Event Event_source_unref) m)\<lparr>m_event_journal_input := False\<rparr>;
             m = journal_close_input m
         in Ret ((), m_call (Other (Notify ''STATUS=Idle.'')) m))))"

definition manager_ratelimit_below :: "env \<Rightarrow> Manager \<Rightarrow> bool \<times> Manager" where
  "manager_ratelimit_below e m =
     (if ratelimit_configured (m_ratelimit m)
      then let (b, rl) = ratelimit_below (time e (world m) Clock) (m_ratelimit m)
           in (b, (m_call Clock m)\<lparr>m_ratelimit := rl\<rparr>)
      else (True, m))"

definition manager_open_transport :: "env \<Rightarrow> Manager \<Rightarrow> (int \<times> Manager) outcome" where
  \<comment> \<open>the \<open>switch\<close> over the protocol\<close>
  "manager_open_transport e m =
     (case m_protocol m of
        SYSLOG_TRANSMISSION_PROTOCOL_DTLS \<Rightarrow>
          (case m_dtls m of
             None \<Rightarrow> Abort
           | Some s \<Rightarrow> obind (ssl_connect e s (m_address m) (world m)) (\<lambda>(r, s, w).
               Ret (r, m\<lparr>m_dtls := Some s, world := w\<rparr>)))
      | SYSLOG_TRANSMISSION_PROTOCOL_TLS \<Rightarrow>
          (case m_tls m of
             None \<Rightarrow> Abort
           | Some s \<Rightarrow> obind (ssl_connect e s (m_address m) (world m)) (\<lambda>(r, s, w).
               Ret (r, m\<lparr>m_tls := Some s, world := w\<rparr>)))
      | _ \<Rightarrow> manager_open_network_socket e m)"

definition manager_delay_connect :: "env \<Rightarrow> Manager \<Rightarrow> int \<times> Manager" where
  "manager_delay_connect e m =
     (let (r, m) = m_sys e (Event (Event_add_time (m_connection_retry_usec m))) m
      in if r < 0 then (log_full_errno r, m) else (0, m\<lparr>m_event_retry := True\<rparr>))"

definition manager_begin_connect :: "env \<Rightarrow> Manager \<Rightarrow> (bool \<times> Manager) outcome" where
  \<comment> \<open>from the start of \<open>manager_connect\<close> to the answer of the rate limiter\<close>
  "manager_begin_connect e m =
     obind (manager_disconnect e m) (\<lambda>(_, m).
       Ret (manager_ratelimit_below e ((unref_source (m_event_retry m) (Event Event_source_unref) m)\<lparr>m_event_retry := False\<rparr>)))"

fun manager_connect :: "nat \<Rightarrow> env \<Rightarrow> Manager \<Rightarrow> (int \<times> Manager) outcome" where
  "manager_connect 0 e m = Diverge"
| "manager_connect (Suc fuel) e m =
     (if m_resolving m then Ret (0, m)
      else obind (manager_begin_connect e m) (\<lambda>(below, m).
        if \<not> below then Ret (manager_delay_connect e m)
        else obind (manager_open_transport e m) (\<lambda>(r, m).
          if r < 0 then manager_connect fuel e m
          else let (r, m) = journal_monitor_listen e m
               in if r < 0 then Ret (log_full_errno r, m) else Ret (0, m))))"

definition manager_retry_connect :: "nat \<Rightarrow> env \<Rightarrow> Manager \<Rightarrow> (int \<times> Manager) outcome" where
  "manager_retry_connect fuel e m = manager_connect fuel e m"

section \<open>Disconnecting\<close>

definition manager_down :: "Manager \<Rightarrow> Manager" where
  "manager_down m = m\<lparr>m_resolve_query := False, m_connected := False, m_socket := -1,
     m_dtls := map_option ssl_down (m_dtls m), m_tls := map_option ssl_down (m_tls m),
     m_event_journal_input := False, m_journal := False,
     m_journal_watch_fd := (if m_journal m then -1 else m_journal_watch_fd m)\<rparr>"

lemma unref_source_eq: "unref_source b c m = m\<lparr>world := if b then c # world m else world m\<rparr>"
  by (simp add: unref_source_def m_call_def)

lemma unref_source_world: "\<exists>w. unref_source b c m = m\<lparr>world := w\<rparr>"
  using unref_source_eq by blast

text \<open>
  Every call that a disconnect makes, the first one first: what is released is what the manager
  holds, each connection in turn, then the journal.
\<close>

definition ssl_close_calls :: "SSLManager option \<Rightarrow> call list" where
  "ssl_close_calls mo =
     (case mo of None \<Rightarrow> []
      | Some s \<Rightarrow> (if ssl_ssl s then [Ssl Ssl_shutdown, Ssl Ssl_free] else []) @
          (if 0 \<le> ssl_fd s then [Net (Close (ssl_fd s))] else []))"

definition disconnect_calls :: "Manager \<Rightarrow> call list" where
  "disconnect_calls m =
     (if m_resolve_query m then [Event Resolve_query_unref] else []) @
     (if 0 \<le> m_socket m
      then (if m_protocol m = SYSLOG_TRANSMISSION_PROTOCOL_TCP then [Net (Shutdown (m_socket m))] else []) @
        [Net (Close (m_socket m))]
      else []) @
     ssl_close_calls (m_dtls m) @ ssl_close_calls (m_tls m) @
     (if m_event_journal_input m then [Event Event_source_unref] else []) @
     (if m_journal m then [Journal Journal_close] else []) @
     [Other (Notify ''STATUS=Idle.'')]"

lemma ssl_down_world_calls: "ssl_down_world mo w = rev (ssl_close_calls mo) @ w"
  by (simp add: ssl_down_world_def ssl_close_calls_def split: option.split)

lemma manager_disconnect_ssl_ok:
  assumes "close_ok e"
  shows "manager_disconnect_ssl e m =
    Ret ((), m\<lparr>m_dtls := map_option ssl_down (m_dtls m), m_tls := map_option ssl_down (m_tls m),
      world := rev (ssl_close_calls (m_dtls m) @ ssl_close_calls (m_tls m)) @ world m\<rparr>)"
  by (simp add: manager_disconnect_ssl_def ssl_disconnect_ok [OF assms] ssl_down_world_calls)

lemma journal_close_input_eq:
  "journal_close_input m = m\<lparr>m_journal := False, m_journal_watch_fd := (if m_journal m then -1 else m_journal_watch_fd m),
     world := (if m_journal m then [Journal Journal_close] else []) @ world m\<rparr>"
  by (cases m) (simp add: journal_close_input_def m_call_def)

lemma manager_disconnect_calls:
  assumes "close_ok e"
  shows "manager_disconnect e m = Ret ((), (manager_down m)\<lparr>world := rev (disconnect_calls m) @ world m\<rparr>)"
  by (simp add: manager_disconnect_def Let_def unref_source_eq manager_close_network_socket_ok [OF assms]
      manager_disconnect_ssl_ok [OF assms] journal_close_input_eq manager_down_def disconnect_calls_def closed_world_def m_call_def)

lemma manager_disconnect_ok:
  assumes "close_ok e"
  shows "\<exists>w. manager_disconnect e m = Ret ((), (manager_down m)\<lparr>world := w\<rparr>)"
  using manager_disconnect_calls [OF assms] by blast

lemma manager_down_disconnected: "disconnected (manager_down m)"
  by (auto simp: disconnected_def manager_down_def ssl_down_def)

section \<open>Connecting\<close>

definition transport_wf :: "Manager \<Rightarrow> bool" where
  "transport_wf m \<longleftrightarrow>
     (m_connected m \<longleftrightarrow> 0 \<le> m_socket m) \<and> ssl_opt_wf (m_dtls m) \<and> ssl_opt_wf (m_tls m) \<and>
     (m_protocol m = SYSLOG_TRANSMISSION_PROTOCOL_DTLS \<longrightarrow> m_dtls m \<noteq> None) \<and>
     (m_protocol m = SYSLOG_TRANSMISSION_PROTOCOL_TLS \<longrightarrow> m_tls m \<noteq> None)"

lemma manager_wf_transport: "manager_wf m \<Longrightarrow> transport_wf m"
  by (simp add: manager_wf_def transport_wf_def)

lemma transport_wf_down: "transport_wf m \<Longrightarrow> transport_wf ((manager_down m)\<lparr>m_event_retry := b, m_ratelimit := rl, world := w\<rparr>)"
  using ssl_down_wf by (auto simp: transport_wf_def manager_down_def ssl_opt_wf_def split: option.splits)

lemma down_disconnected: "disconnected ((manager_down m)\<lparr>m_event_retry := b, m_ratelimit := rl, world := w\<rparr>)"
  using manager_down_disconnected by (simp add: disconnected_def)

lemma down_same_config: "same_config m ((manager_down m)\<lparr>m_event_retry := b, m_ratelimit := rl, world := w\<rparr>)"
  by (simp add: same_config_def manager_down_def)

lemma disconnected_wf: "transport_wf m \<Longrightarrow> disconnected m \<Longrightarrow> manager_wf m"
  by (simp add: transport_wf_def disconnected_def manager_wf_def)

text \<open>What the rate limiter did: nothing when it is not configured, else one clock reading.\<close>

definition limiter_step :: "env \<Rightarrow> RateLimit \<Rightarrow> bool \<Rightarrow> RateLimit \<Rightarrow> bool" where
  "limiter_step e rl b rl' \<longleftrightarrow>
     (if ratelimit_configured rl then (\<exists>w. ratelimit_below (time e w Clock) rl = (b, rl')) else b \<and> rl' = rl)"

lemma manager_begin_connect_ok:
  assumes "close_ok e"
  shows "\<exists>b rl w. manager_begin_connect e m =
    Ret (b, (manager_down m)\<lparr>m_event_retry := False, m_ratelimit := rl, world := w\<rparr>) \<and> limiter_step e (m_ratelimit m) b rl"
proof -
  obtain w0 where dis: "manager_disconnect e m = Ret ((), (manager_down m)\<lparr>world := w0\<rparr>)"
    using manager_disconnect_ok [OF assms] by blast
  let ?m0 = "(manager_down m)\<lparr>world := w0\<rparr>"
  obtain w1 where un: "unref_source (m_event_retry ?m0) (Event Event_source_unref) ?m0 = ?m0\<lparr>world := w1\<rparr>"
    using unref_source_world by blast
  let ?m1 = "?m0\<lparr>world := w1, m_event_retry := False\<rparr>"
  have eq: "manager_begin_connect e m = Ret (manager_ratelimit_below e ?m1)"
    unfolding manager_begin_connect_def dis obind.simps prod.case un by (rule refl)
  have rl: "m_ratelimit ?m1 = m_ratelimit m" by (simp add: manager_down_def)
  show ?thesis
  proof (cases "ratelimit_configured (m_ratelimit m)")
    case False
    have "manager_ratelimit_below e ?m1 =
        (True, (manager_down m)\<lparr>m_event_retry := False, m_ratelimit := m_ratelimit m, world := w1\<rparr>)"
      using False by (simp add: manager_ratelimit_below_def manager_down_def)
    with False show ?thesis unfolding eq limiter_step_def
      by (intro exI [of _ True] exI [of _ "m_ratelimit m"] exI [of _ w1]) simp
  next
    case True
    obtain b rl' where below: "ratelimit_below (time e w1 Clock) (m_ratelimit m) = (b, rl')" by fastforce
    have "manager_ratelimit_below e ?m1 =
        (b, (manager_down m)\<lparr>m_event_retry := False, m_ratelimit := rl', world := Clock # w1\<rparr>)"
      using True below by (simp add: manager_ratelimit_below_def manager_down_def m_call_def Let_def)
    with True below show ?thesis unfolding eq limiter_step_def
      by (intro exI [of _ b] exI [of _ rl'] exI [of _ "Clock # w1"]) auto
  qed
qed

text \<open>Opening the transport of a disconnected manager.\<close>

definition transport_frame :: "Manager \<Rightarrow> Manager \<Rightarrow> bool" where
  "transport_frame m m' \<longleftrightarrow>
     (\<exists>s c d t w. m' = m\<lparr>m_socket := s, m_connected := c, m_dtls := d, m_tls := t, world := w\<rparr> \<and>
       (d = None \<longleftrightarrow> m_dtls m = None) \<and> (t = None \<longleftrightarrow> m_tls m = None))"

definition transport_opened :: "Manager \<Rightarrow> int \<Rightarrow> Manager \<Rightarrow> bool" where
  "transport_opened m r m' \<longleftrightarrow> r \<le> 0 \<and> transport_frame m m' \<and> transport_wf m' \<and>
     (r < 0 \<longrightarrow> disconnected m') \<and> (r = 0 \<longrightarrow> transport_connected m')"

lemma ssl_transport_opened:
  assumes wf: "transport_wf m" and dis: "disconnected m" and post: "ssl_connect_post s (r, s', w)"
  shows "m_dtls m = Some s \<Longrightarrow> m_protocol m = SYSLOG_TRANSMISSION_PROTOCOL_DTLS \<Longrightarrow>
      transport_opened m r (m\<lparr>m_dtls := Some s', world := w\<rparr>)"
    and "m_tls m = Some s \<Longrightarrow> m_protocol m = SYSLOG_TRANSMISSION_PROTOCOL_TLS \<Longrightarrow>
      transport_opened m r (m\<lparr>m_tls := Some s', world := w\<rparr>)"
proof -
  assume p: "m_dtls m = Some s" "m_protocol m = SYSLOG_TRANSMISSION_PROTOCOL_DTLS"
  have "transport_frame m (m\<lparr>m_dtls := Some s', world := w\<rparr>)"
    unfolding transport_frame_def using p
    by (intro exI [of _ "m_socket m"] exI [of _ "m_connected m"] exI [of _ "Some s'"] exI [of _ "m_tls m"] exI [of _ w]) simp
  with p wf dis post show "transport_opened m r (m\<lparr>m_dtls := Some s', world := w\<rparr>)"
    by (auto simp: transport_opened_def transport_wf_def ssl_opt_wf_def disconnected_def ssl_connect_post_def)
next
  assume p: "m_tls m = Some s" "m_protocol m = SYSLOG_TRANSMISSION_PROTOCOL_TLS"
  have "transport_frame m (m\<lparr>m_tls := Some s', world := w\<rparr>)"
    unfolding transport_frame_def using p
    by (intro exI [of _ "m_socket m"] exI [of _ "m_connected m"] exI [of _ "m_dtls m"] exI [of _ "Some s'"] exI [of _ w]) simp
  with p wf dis post show "transport_opened m r (m\<lparr>m_tls := Some s', world := w\<rparr>)"
    by (auto simp: transport_opened_def transport_wf_def ssl_opt_wf_def disconnected_def ssl_connect_post_def)
qed

lemma plain_transport_opened:
  assumes wf: "transport_wf m" and dis: "disconnected m" and o: "opened m r m'"
    and p: "m_protocol m = SYSLOG_TRANSMISSION_PROTOCOL_UDP \<or> m_protocol m = SYSLOG_TRANSMISSION_PROTOCOL_TCP"
  shows "transport_opened m r m'"
proof -
  from o obtain fd w where m': "m' = m\<lparr>m_socket := fd, m_connected := (r = 0), world := w\<rparr>"
    and r: "r \<le> 0" "0 \<le> m_socket m' \<longleftrightarrow> r = 0" "-1 \<le> m_socket m'" unfolding opened_def by metis
  have "transport_frame m m'"
    unfolding transport_frame_def m'
    by (intro exI [of _ fd] exI [of _ "r = 0"] exI [of _ "m_dtls m"] exI [of _ "m_tls m"] exI [of _ w]) simp
  with wf dis p r show ?thesis
    by (auto simp: transport_opened_def transport_wf_def disconnected_def m')
qed

lemma all_ret_obtain: "all_ret P x \<Longrightarrow> x \<noteq> Diverge \<Longrightarrow> \<exists>v. x = Ret v \<and> P v"
  by (cases x) auto

lemma manager_open_transport_ok:
  assumes "close_ok e" and wf: "transport_wf m" and dis: "disconnected m"
  shows "\<exists>r m'. manager_open_transport e m = Ret (r, m') \<and> transport_opened m r m'"
proof -
  have ssl: "\<exists>r s' w'. ssl_connect e s (m_address m) (world m) = Ret (r, s', w') \<and> ssl_connect_post s (r, s', w')"
    if "ssl_wf s" "\<not> ssl_connected s" for s
    using all_ret_obtain ssl_connect_connects [OF assms(1) that] by fastforce
  show ?thesis
  proof (cases "m_protocol m")
    case SYSLOG_TRANSMISSION_PROTOCOL_DTLS
    with wf obtain s where s: "m_dtls m = Some s" by (auto simp: transport_wf_def)
    with wf dis have "ssl_wf s" "\<not> ssl_connected s" by (auto simp: transport_wf_def ssl_opt_wf_def disconnected_def)
    with ssl obtain r s' w' where c: "ssl_connect e s (m_address m) (world m) = Ret (r, s', w')" "ssl_connect_post s (r, s', w')"
      by blast
    from ssl_transport_opened(1) [OF wf dis c(2) s SYSLOG_TRANSMISSION_PROTOCOL_DTLS] c(1) s SYSLOG_TRANSMISSION_PROTOCOL_DTLS
    show ?thesis by (simp add: manager_open_transport_def)
  next
    case SYSLOG_TRANSMISSION_PROTOCOL_TLS
    with wf obtain s where s: "m_tls m = Some s" by (auto simp: transport_wf_def)
    with wf dis have "ssl_wf s" "\<not> ssl_connected s" by (auto simp: transport_wf_def ssl_opt_wf_def disconnected_def)
    with ssl obtain r s' w' where c: "ssl_connect e s (m_address m) (world m) = Ret (r, s', w')" "ssl_connect_post s (r, s', w')"
      by blast
    from ssl_transport_opened(2) [OF wf dis c(2) s SYSLOG_TRANSMISSION_PROTOCOL_TLS] c(1) s SYSLOG_TRANSMISSION_PROTOCOL_TLS
    show ?thesis by (simp add: manager_open_transport_def)
  next
    case SYSLOG_TRANSMISSION_PROTOCOL_UDP
    then show ?thesis
      using manager_open_network_socket_ok [OF assms(1), of m] dis plain_transport_opened [OF wf dis]
      by (auto simp: manager_open_transport_def disconnected_def)
  next
    case SYSLOG_TRANSMISSION_PROTOCOL_TCP
    then show ?thesis
      using manager_open_network_socket_ok [OF assms(1), of m] dis plain_transport_opened [OF wf dis]
      by (auto simp: manager_open_transport_def disconnected_def)
  qed
qed

lemma transport_frame_same_config: "transport_frame m m' \<Longrightarrow> same_config m m'"
  by (auto simp: transport_frame_def same_config_def)

lemma journal_frame_facts:
  assumes "journal_frame m m'"
  shows "same_config m m'" "transport_wf m \<Longrightarrow> transport_wf m'" "transport_connected m' = transport_connected m"
    "m_ratelimit m' = m_ratelimit m"
proof -
  from assms obtain j f ev c w where m': "m' = m\<lparr>m_journal := j, m_journal_watch_fd := f, m_event_journal_input := ev,
      m_last_cursor := c, world := w\<rparr>" unfolding journal_frame_def by metis
  show "same_config m m'" "transport_wf m \<Longrightarrow> transport_wf m'" "transport_connected m' = transport_connected m"
    "m_ratelimit m' = m_ratelimit m"
    by (simp_all add: m' same_config_def transport_wf_def split: SysLogTransmissionProtocol.split)
qed

lemma connected_listen_wf:
  assumes "transport_opened m 0 m1" "disconnected m" and listen: "journal_monitor_listen e m1 = (r, m2)"
  shows "manager_wf m2 \<and> same_config m m2 \<and> r \<le> 0 \<and> (r = 0 \<longrightarrow> m_event_journal_input m2 \<and> transport_connected m2)"
proof -
  from assms(1) have f: "transport_frame m m1" and wf: "transport_wf m1" and con: "transport_connected m1"
    by (simp_all add: transport_opened_def)
  have "\<not> m_event_journal_input m1" using f assms(2) by (auto simp: transport_frame_def disconnected_def)
  note l = journal_monitor_listen_frame [OF listen this]
  then have jf: "journal_frame m1 m2" by blast
  have "manager_wf m2"
    using l journal_frame_facts(2,3) [OF jf] wf con unfolding manager_wf_def transport_wf_def by blast
  moreover have "same_config m m2"
    using same_config_trans transport_frame_same_config [OF f] journal_frame_facts(1) [OF jf] by blast
  ultimately show ?thesis using l journal_frame_facts(3) [OF jf] con by blast
qed

lemma manager_delay_connect_wf:
  assumes "transport_wf m" "disconnected m" "manager_delay_connect e m = (r, m')"
  shows "manager_wf m' \<and> same_config m m' \<and> disconnected m' \<and> r \<le> 0 \<and> (r = 0 \<longrightarrow> m_event_retry m')"
proof -
  let ?m' = "m\<lparr>world := Event (Event_add_time (m_connection_retry_usec m)) # world m\<rparr>"
  have "m' = ?m' \<and> r < 0 \<or> m' = ?m'\<lparr>m_event_retry := True\<rparr> \<and> r = 0"
    using assms(3) by (auto simp: manager_delay_connect_def m_sys_def Let_def split: if_splits)
  moreover have "transport_wf ?m'" "transport_wf (?m'\<lparr>m_event_retry := True\<rparr>)" using assms(1) by (simp_all add: transport_wf_def)
  moreover have "disconnected ?m'" "disconnected (?m'\<lparr>m_event_retry := True\<rparr>)" using assms(2) by (simp_all add: disconnected_def)
  moreover have "same_config m ?m'" "same_config m (?m'\<lparr>m_event_retry := True\<rparr>)" by (simp_all add: same_config_def)
  moreover have "m_event_retry (?m'\<lparr>m_event_retry := True\<rparr>)" by simp
  ultimately show ?thesis using disconnected_wf [of m'] by auto
qed

text \<open>
  \<open>manager_connect\<close> keeps the invariant and never aborts.  When it returns 0, either a name
  is still being resolved, or the attempt was put off with a timer set, or the transport
  is up and the journal is listened to.
\<close>

definition connect_post :: "Manager \<Rightarrow> int \<times> Manager \<Rightarrow> bool" where
  "connect_post m = (\<lambda>(r, m'). manager_wf m' \<and> same_config m m' \<and> r \<le> 0 \<and>
     (r = 0 \<longrightarrow> m_resolving m \<and> m' = m \<or> m_event_retry m' \<and> disconnected m' \<or>
        m_event_journal_input m' \<and> transport_connected m'))"

lemma manager_connect_step:
  assumes "close_ok e" and "manager_wf m" and "\<not> m_resolving m"
  shows "\<exists>b rl m1. limiter_step e (m_ratelimit m) b rl \<and> m_ratelimit m1 = rl \<and> transport_wf m1 \<and> disconnected m1 \<and> same_config m m1 \<and>
    (\<forall>fuel. manager_connect (Suc fuel) e m =
       (if \<not> b then Ret (manager_delay_connect e m1)
        else obind (manager_open_transport e m1) (\<lambda>(r, m).
          if r < 0 then manager_connect fuel e m
          else let (r, m) = journal_monitor_listen e m in if r < 0 then Ret (log_full_errno r, m) else Ret (0, m))))"
proof -
  obtain b rl w where beg: "manager_begin_connect e m =
      Ret (b, (manager_down m)\<lparr>m_event_retry := False, m_ratelimit := rl, world := w\<rparr>)"
    and lim: "limiter_step e (m_ratelimit m) b rl" using manager_begin_connect_ok [OF assms(1)] by blast
  let ?m1 = "(manager_down m)\<lparr>m_event_retry := False, m_ratelimit := rl, world := w\<rparr>"
  have "transport_wf ?m1" "disconnected ?m1" "same_config m ?m1" "m_ratelimit ?m1 = rl"
    using transport_wf_down [OF manager_wf_transport [OF assms(2)]] down_disconnected down_same_config by simp_all
  with lim assms(3) beg show ?thesis
    by (intro exI [of _ b] exI [of _ rl] exI [of _ ?m1]) simp
qed

lemma manager_connect_wf:
  assumes "close_ok e" and "manager_wf m"
  shows "all_ret (connect_post m) (manager_connect fuel e m)"
  using assms(2)
proof (induction fuel arbitrary: m)
  case 0
  then show ?case by simp
next
  case (Suc fuel)
  show ?case
  proof (cases "m_resolving m")
    case True
    with Suc.prems show ?thesis by (simp add: connect_post_def)
  next
    case False
    from manager_connect_step [OF assms(1) Suc.prems False] obtain b m1 where
      m1: "transport_wf m1" "disconnected m1" "same_config m m1" and unf: "manager_connect (Suc fuel) e m =
       (if \<not> b then Ret (manager_delay_connect e m1)
        else obind (manager_open_transport e m1) (\<lambda>(r, m).
          if r < 0 then manager_connect fuel e m
          else let (r, m) = journal_monitor_listen e m in if r < 0 then Ret (log_full_errno r, m) else Ret (0, m)))"
      by blast
    show ?thesis
    proof (cases b)
      case b: False
      obtain r m2 where d: "manager_delay_connect e m1 = (r, m2)" by fastforce
      have "connect_post m (r, m2)"
        using manager_delay_connect_wf [OF m1(1,2) d] same_config_trans [OF m1(3)] by (auto simp: connect_post_def)
      then show ?thesis unfolding unf d using b by simp
    next
      case True
      obtain r m2 where o: "manager_open_transport e m1 = Ret (r, m2)" and t: "transport_opened m1 r m2"
        using manager_open_transport_ok [OF assms(1) m1(1,2)] by blast
      have c2: "same_config m m2"
        using t transport_frame_same_config same_config_trans [OF m1(3)] by (auto simp: transport_opened_def)
      show ?thesis
      proof (cases "r < 0")
        case neg: True
        have "manager_wf m2" using t neg disconnected_wf by (auto simp: transport_opened_def)
        from Suc.IH [OF this] have "all_ret (connect_post m) (manager_connect fuel e m2)"
        proof (rule all_ret_mono, clarify)
          fix r' m' assume "connect_post m2 (r', m')"
          moreover have "\<not> m_resolving m2" using c2 False by (simp add: same_config_def)
          ultimately show "connect_post m (r', m')"
            using same_config_trans [OF c2] by (auto simp: connect_post_def)
        qed
        then show ?thesis unfolding unf o using True neg by simp
      next
        case nonneg: False
        with t have t0: "transport_opened m1 0 m2" and "r = 0" by (auto simp: transport_opened_def)
        obtain r3 m3 where l: "journal_monitor_listen e m2 = (r3, m3)" by fastforce
        note listen = connected_listen_wf [OF t0 m1(2) l]
        then have "connect_post m (if r3 < 0 then (r3, m3) else (0, m3))"
          using same_config_trans [OF m1(3)] by (auto simp: connect_post_def)
        then show ?thesis unfolding unf o using True nonneg l by auto
      qed
    qed
  qed
qed

section \<open>Connecting ends\<close>

text \<open>
  All readings of the monotonic clock lie between \<open>t\<close> and \<open>t + d\<close>: no more than \<open>d\<close>
  microseconds pass.
\<close>

definition clock_within :: "env \<Rightarrow> nat \<Rightarrow> nat \<Rightarrow> bool" where
  "clock_within e t d \<longleftrightarrow> 0 < t \<and> t + d < 2 ^ 64 - 1 \<and>
     (\<forall>w. t \<le> unat (time e w Clock) \<and> unat (time e w Clock) \<le> t + d)"

definition attempts_left :: "nat \<Rightarrow> nat \<Rightarrow> RateLimit \<Rightarrow> nat" where
  "attempts_left t d rl =
     (if t \<le> unat (rl_begin rl) \<and> unat (rl_begin rl) \<le> t + d then grants_left rl
      else grants_left rl + unat (rl_burst rl))"

lemma clock_in_window:
  assumes "clock_within e t d" "ratelimit_configured rl" "d \<le> unat (rl_interval rl)"
    "t \<le> unat (rl_begin rl)" "unat (rl_begin rl) \<le> t + d"
  shows "in_window (time e w Clock) rl"
proof -
  let ?ts = "time e w Clock"
  have ts: "t \<le> unat ?ts" "unat ?ts \<le> t + d" "0 < t" "t + d < 2 ^ 64 - 1"
    using assms(1) by (auto simp: clock_within_def)
  have "rl_begin rl \<noteq> 0" using assms(4) ts(3) by auto
  moreover have "unat (usec_sub_unsigned ?ts (rl_begin rl)) \<le> unat (rl_interval rl)"
  proof -
    have "?ts \<noteq> USEC_INFINITY" using ts(2,4) by (auto simp: unsigned_minus_1_eq_mask mask_eq_exp_minus_1)
    then show ?thesis using ts assms(3-5) by (simp add: unat_usec_sub_unsigned)
  qed
  ultimately show ?thesis using assms(2) by (simp add: in_window_def word_le_nat_alt)
qed

lemma limiter_spends:
  assumes "clock_within e t d" "ratelimit_configured rl" "d \<le> unat (rl_interval rl)" "limiter_step e rl True rl'"
  shows "attempts_left t d rl' < attempts_left t d rl" "ratelimit_configured rl'" "rl_interval rl' = rl_interval rl"
proof -
  from assms(2,4) obtain w where below: "ratelimit_below (time e w Clock) rl = (True, rl')"
    by (auto simp: limiter_step_def)
  show "ratelimit_configured rl'" "rl_interval rl' = rl_interval rl"
    using ratelimit_below_burst [OF below] assms(2) by (simp_all add: ratelimit_configured_def)
  have burst: "0 < unat (rl_burst rl)"
    using assms(2) by (simp add: ratelimit_configured_def word_less_nat_alt)
  show "attempts_left t d rl' < attempts_left t d rl"
  proof (cases "in_window (time e w Clock) rl")
    case True
    have "grants_left rl' < grants_left rl" using rl.grant_spends [OF True below] .
    moreover have "rl_begin rl' = rl_begin rl" "rl_burst rl' = rl_burst rl"
      using arg_cong [OF ratelimit_below_answer(3) [OF True below], of rl_begin] ratelimit_below_burst [OF below]
      by simp_all
    ultimately show ?thesis by (simp add: attempts_left_def)
  next
    case False
    then have out: "\<not> (t \<le> unat (rl_begin rl) \<and> unat (rl_begin rl) \<le> t + d)"
      using clock_in_window [OF assms(1-3)] by blast
    from False assms(2) below have rl': "rl' = rl\<lparr>rl_begin := time e w Clock, rl_num := 1\<rparr>"
      by (auto simp: ratelimit_below_def in_window_def split: if_splits)
    have "t \<le> unat (time e w Clock)" "unat (time e w Clock) \<le> t + d"
      using assms(1) by (auto simp: clock_within_def)
    then have "attempts_left t d rl' = unat (rl_burst rl) - 1" by (simp add: attempts_left_def rl' grants_left_def)
    moreover have "attempts_left t d rl = grants_left rl + unat (rl_burst rl)"
      unfolding attempts_left_def using out by (rule if_not_P)
    ultimately show ?thesis using burst by linarith
  qed
qed

lemma transport_opened_ratelimit: "transport_opened m r m' \<Longrightarrow> m_ratelimit m' = m_ratelimit m"
  by (auto simp: transport_opened_def transport_frame_def)

lemma manager_connect_terminates:
  assumes "close_ok e" "clock_within e t d" "manager_wf m" "ratelimit_configured (m_ratelimit m)"
    "d \<le> unat (rl_interval (m_ratelimit m))" "attempts_left t d (m_ratelimit m) < fuel"
  shows "manager_connect fuel e m \<noteq> Diverge"
  using assms(3-)
proof (induction fuel arbitrary: m)
  case 0
  then show ?case by simp
next
  case (Suc fuel)
  show ?case
  proof (cases "m_resolving m")
    case True
    then show ?thesis by simp
  next
    case False
    from manager_connect_step [OF assms(1) Suc.prems(1) False] obtain b m1 where
      lim: "limiter_step e (m_ratelimit m) b (m_ratelimit m1)" and
      m1: "transport_wf m1" "disconnected m1" and unf: "manager_connect (Suc fuel) e m =
       (if \<not> b then Ret (manager_delay_connect e m1)
        else obind (manager_open_transport e m1) (\<lambda>(r, m).
          if r < 0 then manager_connect fuel e m
          else let (r, m) = journal_monitor_listen e m in if r < 0 then Ret (log_full_errno r, m) else Ret (0, m)))"
      by blast
    obtain r m2 where o: "manager_open_transport e m1 = Ret (r, m2)" and t: "transport_opened m1 r m2"
      using manager_open_transport_ok [OF assms(1) m1] by blast
    have rest: "manager_connect fuel e m2 \<noteq> Diverge" if b "r < 0"
    proof -
      have wf: "manager_wf m2" using t that(2) disconnected_wf by (auto simp: transport_opened_def)
      have "limiter_step e (m_ratelimit m) True (m_ratelimit m2)"
        using lim that(1) transport_opened_ratelimit [OF t] by simp
      note spent = limiter_spends [OF assms(2) Suc.prems(2,3) this]
      show ?thesis using Suc.IH [OF wf] spent Suc.prems(3,4) by simp
    qed
    show ?thesis unfolding unf o using rest by (auto split: prod.splits)
  qed
qed

lemma attempts_left_bound: "attempts_left t d rl \<le> 2 * unat (rl_burst rl)"
proof -
  have "grants_left rl \<le> unat (rl_burst rl)" by (simp add: grants_left_def)
  then show ?thesis by (auto simp: attempts_left_def)
qed

end
