(* ===== verification/Protocol.thy ===== *)
theory Protocol
  imports Syslog_Format Connect
begin

text \<open>
  \<open>src/netlog/netlog-protocol.c\<close> and \<open>manager_push_to_network\<close> of \<open>netlog-network.c\<close>:
  formatting a message, handing it to the transport, and reconnecting when the transport
  fails.
\<close>

section \<open>Sending\<close>

definition protocol_result :: "nat \<Rightarrow> env \<Rightarrow> int \<Rightarrow> Manager \<Rightarrow> (int \<times> Manager) outcome" where
  \<comment> \<open>the same three statements in each case of the \<open>switch\<close>\<close>
  "protocol_result fuel e r m =
     (if r < 0 \<and> r \<noteq> - EAGAIN then obind (manager_connect fuel e m) (\<lambda>(_, m). Ret (r, m)) else Ret (0, m))"

definition protocol_send :: "nat \<Rightarrow> env \<Rightarrow> iovec \<Rightarrow> Manager \<Rightarrow> (int \<times> Manager) outcome" where
  "protocol_send fuel e iov m =
     (case m_protocol m of
        SYSLOG_TRANSMISSION_PROTOCOL_DTLS \<Rightarrow>
          (case m_dtls m of
             None \<Rightarrow> Abort
           | Some s \<Rightarrow> obind (ssl_writev e s iov (world m)) (\<lambda>(r, w). protocol_result fuel e r (m\<lparr>world := w\<rparr>)))
      | SYSLOG_TRANSMISSION_PROTOCOL_TLS \<Rightarrow>
          (case m_tls m of
             None \<Rightarrow> Abort
           | Some s \<Rightarrow> obind (ssl_writev e s iov (world m)) (\<lambda>(r, w). protocol_result fuel e r (m\<lparr>world := w\<rparr>)))
      | _ \<Rightarrow> obind (network_send fuel e iov m) (\<lambda>(r, m). protocol_result fuel e r m))"

definition format_rfc5424 ::
  "nat \<Rightarrow> env \<Rightarrow> int \<Rightarrow> int \<Rightarrow> string option \<Rightarrow> string \<Rightarrow> string option \<Rightarrow> string option \<Rightarrow> timeval option \<Rightarrow>
     string option \<Rightarrow> string option \<Rightarrow> Manager \<Rightarrow> (int \<times> Manager) outcome" where
  "format_rfc5424 fuel e severity facility identifier message hostname pid tv sd msgid m =
     obind (rfc5424_iov e m severity facility identifier message hostname pid tv sd msgid (world m)) (\<lambda>(res, w).
       case res of
         Inl r \<Rightarrow> Ret (r, m\<lparr>world := w\<rparr>)
       | Inr iov \<Rightarrow> protocol_send fuel e iov (m\<lparr>world := w\<rparr>))"

definition format_rfc3164 ::
  "nat \<Rightarrow> env \<Rightarrow> int \<Rightarrow> int \<Rightarrow> string option \<Rightarrow> string \<Rightarrow> string option \<Rightarrow> string option \<Rightarrow> timeval option \<Rightarrow>
     Manager \<Rightarrow> (int \<times> Manager) outcome" where
  "format_rfc3164 fuel e severity facility identifier message hostname pid tv m =
     obind (rfc3164_iov e m severity facility identifier message hostname pid tv (world m)) (\<lambda>(iov, w).
       protocol_send fuel e iov (m\<lparr>world := w\<rparr>))"

definition manager_ensure_connected :: "nat \<Rightarrow> env \<Rightarrow> Manager \<Rightarrow> (int \<times> Manager) outcome" where
  \<comment> \<open>the \<open>switch\<close> of \<open>manager_push_to_network\<close>; reading \<open>connected\<close> through a null pointer aborts\<close>
  "manager_ensure_connected fuel e m =
     (if m_protocol m = SYSLOG_TRANSMISSION_PROTOCOL_DTLS \<and> m_dtls m = None \<or>
         m_protocol m = SYSLOG_TRANSMISSION_PROTOCOL_TLS \<and> m_tls m = None then Abort
      else if transport_connected m then Ret (0, m)
      else manager_connect fuel e m)"

definition manager_push_to_network ::
  "nat \<Rightarrow> env \<Rightarrow> int \<Rightarrow> int \<Rightarrow> string option \<Rightarrow> string \<Rightarrow> string option \<Rightarrow> string option \<Rightarrow> timeval option \<Rightarrow>
     string option \<Rightarrow> string option \<Rightarrow> Manager \<Rightarrow> (int \<times> Manager) outcome" where
  "manager_push_to_network fuel e severity facility identifier message hostname pid tv sd msgid m =
     obind (manager_ensure_connected fuel e m) (\<lambda>(r, m).
       if r < 0 then Ret (r, m)
       else obind
         (if m_log_format m = SYSLOG_TRANSMISSION_LOG_FORMAT_RFC_5424 \<or>
             m_log_format m = SYSLOG_TRANSMISSION_LOG_FORMAT_RFC_5425
          then format_rfc5424 fuel e severity facility identifier message hostname pid tv sd msgid m
          else format_rfc3164 fuel e severity facility identifier message hostname pid tv m) (\<lambda>(r, m).
            if r < 0 then Ret (r, m) else Ret (0, m)))"

section \<open>What goes out\<close>

fun sent_text :: "call \<Rightarrow> string option" where
  "sent_text (Net (Sendmsg fd iov sa l)) = Some (concat iov)"
| "sent_text (Ssl (Ssl_write buf)) = Some buf"
| "sent_text c = None"

text \<open>
  \<open>accepted e t n w w'\<close>: since \<open>w\<close> only the text \<open>t\<close> was handed to the transport, and the
  last call handed it over and was answered with \<open>n\<close>, the number of octets that the transport
  took.  On a stream socket \<open>n\<close> may be less than the length of \<open>t\<close>; \<open>network_send\<close> does not
  look at it.
\<close>

definition accepted :: "env \<Rightarrow> string \<Rightarrow> nat \<Rightarrow> world \<Rightarrow> world \<Rightarrow> bool" where
  "accepted e t n w w' \<longleftrightarrow>
     grows (\<lambda>c. sent_text c \<in> {None, Some t}) w w' \<and>
     (\<exists>c w0. w' = c # w0 \<and> grows (\<lambda>_. True) w w0 \<and> sent_text c = Some t \<and> ans e w0 c = int n)"

abbreviation handed :: "env \<Rightarrow> string \<Rightarrow> world \<Rightarrow> world \<Rightarrow> bool" where
  "handed e t w w' \<equiv> \<exists>n. accepted e t n w w'"

definition last_not_sent :: "env \<Rightarrow> world \<Rightarrow> bool" where
  "last_not_sent e w \<longleftrightarrow> (case w of [] \<Rightarrow> True | c # w0 \<Rightarrow> sent_text c = None \<or> ans e w0 c < 0)"

lemma last_not_sent_handed: "last_not_sent e w' \<Longrightarrow> \<not> accepted e t n w w'"
  by (auto simp: last_not_sent_def accepted_def)

lemma not_handed_at_once [simp]: "\<not> accepted e t n w w"
  by (auto simp: accepted_def grows_def)

lemma fd_wait_for_event_silent:
  "fd_wait_for_event e fd ev t w = (r, w') \<Longrightarrow> \<exists>c. w' = c # w \<and> sent_text c = None"
  by (auto simp: fd_wait_for_event_def sys_def Let_def split: if_splits)

lemma sendmsg_loop_accepted:
  assumes "sendmsg_loop fuel e iov l m = Ret (r, m')"
  shows "only_world m m' \<and> grows (\<lambda>c. sent_text c \<in> {None, Some (concat iov)}) (world m) (world m') \<and>
    (if 0 \<le> r then r = 0 \<and> handed e (concat iov) (world m) (world m') else last_not_sent e (world m'))"
  using assms
proof (induction fuel arbitrary: m)
  case 0
  then show ?case by simp
next
  case (Suc fuel)
  let ?P = "\<lambda>c. sent_text c \<in> {None, Some (concat iov)}"
  define c where "c = Net (Sendmsg (m_socket m) iov (sockaddr (m_address m)) l)"
  define n where "n = ans e (world m) c"
  define m1 where "m1 = m\<lparr>world := c # world m\<rparr>"
  obtain r' w' where wait: "fd_wait_for_event e (m_socket m) POLLOUT SEND_TIMEOUT_USEC (c # world m) = (r', w')" by fastforce
  then obtain d where w': "w' = d # c # world m" and d: "sent_text d = None" using fd_wait_for_event_silent by blast
  define m2 where "m2 = m\<lparr>world := w'\<rparr>"
  have sock: "0 \<le> m_socket m" using Suc.prems by (auto simp: c_assert_def split: if_splits)
  have unf: "sendmsg_loop (Suc fuel) e iov l m =
      (if 0 \<le> n then Ret (0, m1) else if n = - EINTR then sendmsg_loop fuel e iov l m1
       else if n \<noteq> - EAGAIN then Ret (n, m1)
       else if r' < 0 then Ret (r', m2) else if r' = 0 then Ret (- ETIMEDOUT, m2) else sendmsg_loop fuel e iov l m2)"
    using sock wait by (simp add: m_sys_def m_pure_def Let_def c_def n_def m1_def m2_def)
  have ct: "sent_text c = Some (concat iov)" by (simp add: c_def)
  have ow: "only_world m m1" "only_world m m2" by (simp_all add: m1_def m2_def)
  have g: "grows ?P (world m) (world m1)" "grows ?P (world m) (world m2)"
    using ct d by (auto simp: m1_def m2_def w')
  have rec: ?case if "sendmsg_loop fuel e iov l mi = Ret (r, m')" "only_world m mi" "grows ?P (world m) (world mi)" for mi
  proof -
    note ih = Suc.IH [OF that(1)]
    have gt: "grows (\<lambda>_. True) (world m) w0" if "grows (\<lambda>_. True) (world mi) w0" for w0
      using grows_trans [OF grows_mono [OF \<open>grows ?P (world m) (world mi)\<close>] that] by simp
    have acc: "handed e (concat iov) (world m) w" if "handed e (concat iov) (world mi) w" for w
      using that gt grows_trans [OF \<open>grows ?P (world m) (world mi)\<close>] unfolding accepted_def by blast
    have "only_world m m'" "grows ?P (world m) (world m')"
      using ih only_world_trans [OF that(2)] grows_trans [OF that(3)] by blast+
    with ih acc show ?thesis by (cases "0 \<le> r") simp_all
  qed
  consider "0 \<le> n" | "n = - EINTR" | "n < 0" "n \<noteq> - EINTR" "n \<noteq> - EAGAIN" | "n = - EAGAIN" by linarith
  then show ?case
  proof cases
    case 1
    then have "r = 0" "m' = m1" using Suc.prems unfolding unf by simp_all
    moreover have "accepted e (concat iov) (nat n) (world m) (world m1)"
      unfolding accepted_def using g(1) ct 1 by (auto simp: m1_def n_def)
    ultimately show ?thesis using ow g by auto
  next
    case 2
    then show ?thesis using Suc.prems rec [OF _ ow(1) g(1)] unfolding unf by simp
  next
    case 3
    then show ?thesis using Suc.prems ow g unfolding unf by (auto simp: last_not_sent_def m1_def n_def)
  next
    case 4
    have "last_not_sent e (world m2)" using d by (simp add: last_not_sent_def m2_def w')
    with 4 show ?thesis using Suc.prems ow g rec [OF _ ow(2) g(2)] unfolding unf
      by (auto split: if_splits)
  qed
qed

definition send_post :: "env \<Rightarrow> string \<Rightarrow> Manager \<Rightarrow> int \<times> Manager \<Rightarrow> bool" where
  "send_post e t m = (\<lambda>(r, m'). manager_wf m' \<and> same_config m m' \<and> r \<le> 0 \<and>
     (r = 0 \<longrightarrow> only_world m m' \<and> handed e t (world m) (world m')))"

lemma only_world_wf: "only_world m m' \<Longrightarrow> manager_wf m' = manager_wf m \<and> transport_connected m' = transport_connected m \<and> same_config m m'"
proof -
  assume "only_world m m'"
  then obtain w where "m' = m\<lparr>world := w\<rparr>" unfolding only_world_def by blast
  then show ?thesis by (simp add: manager_wf_def same_config_def split: SysLogTransmissionProtocol.split)
qed

lemma protocol_result_post:
  assumes "close_ok e" "manager_wf m" "only_world m m1" "r \<le> 0" "r \<noteq> - EAGAIN"
    and "r = 0 \<longrightarrow> handed e t (world m) (world m1)"
  shows "all_ret (send_post e t m) (protocol_result fuel e r m1)"
proof (cases "r < 0")
  case True
  have wf: "manager_wf m1" "same_config m m1" using only_world_wf [OF assms(3)] assms(2) by simp_all
  have "all_ret (send_post e t m) (obind (manager_connect fuel e m1) (\<lambda>(_, m). Ret (r, m)))"
    by (rule all_ret_obind [OF manager_connect_wf [OF assms(1) wf(1)]])
      (use True same_config_trans [OF wf(2)] in \<open>auto simp: connect_post_def send_post_def\<close>)
  then show ?thesis using True assms(5) by (simp add: protocol_result_def)
next
  case False
  then show ?thesis
    using assms only_world_wf [OF assms(3)] by (simp add: protocol_result_def send_post_def)
qed

lemma ssl_writev_world:
  assumes "ssl_wf s" "ssl_connected s" "0 < length (concat iov)" "length (concat iov) < INT_MAX"
  shows "\<exists>r w'. ssl_writev e s iov w = Ret (r, w') \<and> r \<le> 0 \<and> r \<noteq> - EAGAIN \<and> (r = 0 \<longrightarrow> handed e (concat iov) w w')"
proof -
  have u: "unat (iovec_total_size iov) = length (concat iov)"
    using assms by (intro unat_iovec_total_size) (simp add: INT_MAX_def)
  have "0 < iovec_total_size iov" "iovec_total_size iov < of_nat INT_MAX"
    using assms(3,4) u by (simp_all add: word_less_nat_alt unat_of_nat INT_MAX_def)
  moreover have "log_full_errno (SYNTHETIC_ERRNO EAGAIN) \<noteq> - EAGAIN" "log_full_errno (SYNTHETIC_ERRNO EPIPE) \<noteq> - EAGAIN"
    by (simp_all add: log_full_errno_def SYNTHETIC_ERRNO_def)
  moreover have "handed e (concat iov) w (Ssl (Ssl_write (concat iov)) # w)" if "0 < ans e w (Ssl (Ssl_write (concat iov)))"
    unfolding accepted_def using that by (intro exI [of _ "nat (ans e w (Ssl (Ssl_write (concat iov))))"]) auto
  ultimately show ?thesis using assms(1,2) synthetic_negative
    by (auto simp: ssl_writev_def ssl_write_def ssl_wf_def sys_def Let_def simp del: ex_simps)
qed

lemma network_send_post:
  assumes "sends_settle e k" "0 \<le> m_socket m" "k < fuel" "iov \<noteq> []"
  shows "\<exists>r m'. network_send fuel e iov m = Ret (r, m') \<and> only_world m m' \<and> r \<le> 0 \<and>
    (r = 0 \<longleftrightarrow> handed e (concat iov) (world m) (world m'))"
proof -
  obtain r m' where n: "network_send fuel e iov m = Ret (r, m')" "only_world m m'" "r \<le> 0"
    using network_send_returns [OF assms] by blast
  have "r = 0 \<longleftrightarrow> handed e (concat iov) (world m) (world m')"
    using n(1,3) assms(4) sendmsg_loop_accepted [of fuel e iov _ m r m'] last_not_sent_handed [of e "world m'"]
    by (cases "r = 0") (auto simp: network_send_def split: if_splits)
  with n show ?thesis by blast
qed

text \<open>
  The socket loop answers \<open>EAGAIN\<close> only if waiting for the socket itself did, which
  \<open>ppoll\<close> does not.
\<close>

definition poll_ok :: "env \<Rightarrow> bool" where
  "poll_ok e \<longleftrightarrow> (\<forall>w fd ev t. ans e w (Net (Ppoll fd ev t)) \<noteq> - EAGAIN \<and> 0 \<le> val e w (Net (Ppoll fd ev t)))"

lemma sendmsg_loop_not_eagain:
  "poll_ok e \<Longrightarrow> sendmsg_loop fuel e iov l m = Ret (r, m') \<Longrightarrow> r \<noteq> - EAGAIN"
proof (induction fuel arbitrary: m)
  case (Suc fuel)
  have w: "fst (fd_wait_for_event e fd ev t w) \<noteq> - EAGAIN" for fd ev t w
    using Suc.prems(1) unfolding fd_wait_for_event_def poll_ok_def sys_def Let_def
    by (smt (verit) fst_conv prod.case)
  from Suc show ?case
    using w by (auto simp: c_assert_def m_sys_def m_pure_def Let_def split: if_splits prod.splits) (metis fst_conv)+
qed simp

lemma protocol_send_post:
  assumes "close_ok e" "poll_ok e" "manager_wf m" "transport_connected m" "sends_settle e k" "k < fuel"
    "0 < length (concat iov)" "length (concat iov) < INT_MAX"
  shows "all_ret (send_post e (concat iov) m) (protocol_send fuel e iov m)"
proof -
  have ssl: "all_ret (send_post e (concat iov) m)
      (obind (ssl_writev e s iov (world m)) (\<lambda>(r, w). protocol_result fuel e r (m\<lparr>world := w\<rparr>)))"
    if c: "ssl_wf s" "ssl_connected s" for s
  proof -
    obtain r w' where s: "ssl_writev e s iov (world m) = Ret (r, w')" "r \<le> 0" "r \<noteq> - EAGAIN"
      "r = 0 \<longrightarrow> handed e (concat iov) (world m) w'"
      using ssl_writev_world [OF c assms(7,8)] by blast
    show ?thesis unfolding s(1) obind.simps prod.case
      by (rule protocol_result_post [OF assms(1,3)]) (use s in simp_all)
  qed
  have net: "all_ret (send_post e (concat iov) m) (obind (network_send fuel e iov m) (\<lambda>(r, m). protocol_result fuel e r m))"
    if sock: "0 \<le> m_socket m"
  proof -
    have ne: "iov \<noteq> []" using assms(7) by auto
    obtain r m' where n: "network_send fuel e iov m = Ret (r, m')" "only_world m m'" "r \<le> 0"
      "r = 0 \<longrightarrow> handed e (concat iov) (world m) (world m')"
      using network_send_post [OF assms(5) sock assms(6) ne] by blast
    have "r \<noteq> - EAGAIN" using n(1) ne sendmsg_loop_not_eagain [OF assms(2)] by (auto simp: network_send_def split: if_splits)
    then show ?thesis unfolding n(1) obind.simps prod.case
      by (intro protocol_result_post [OF assms(1,3)]) (use n in simp_all)
  qed
  show ?thesis
    using assms(3,4) ssl net
    by (auto simp: protocol_send_def manager_wf_def ssl_opt_wf_def split: SysLogTransmissionProtocol.splits option.splits)
qed

section \<open>Pushing one message\<close>

lemma handed_from:
  assumes "grows (\<lambda>c. sent_text c = None) w w1" "handed e t w1 w'"
  shows "handed e t w w'"
  using assms grows_trans [OF grows_mono [OF assms(1), of "\<lambda>c. sent_text c \<in> {None, Some t}"]]
    grows_trans [OF grows_mono [OF assms(1), of "\<lambda>_. True"]]
  unfolding accepted_def by blast

lemma stamp_world_silent: "grows (\<lambda>c. sent_text c = None) w (stamp_world tv w)"
  by (cases tv) (auto simp: stamp_world_def)

lemma send_post_from:
  assumes "grows (\<lambda>c. sent_text c = None) (world m) w1" "send_post e t (m\<lparr>world := w1\<rparr>) x"
  shows "send_post e t m x"
proof -
  obtain r m' where x: "x = (r, m')" by fastforce
  have o: "only_world m m'" if "only_world (m\<lparr>world := w1\<rparr>) m'"
    using only_world_trans [OF only_world_update that] .
  have c: "same_config m m'" if "same_config (m\<lparr>world := w1\<rparr>) m'" using that by (simp add: same_config_def)
  show ?thesis using assms handed_from [OF assms(1)] o c unfolding send_post_def x by auto
qed

lemma wire_text_nonempty: "wire_text e m s f i msg h p tv sd mid w \<noteq> []"
  by (cases "m_log_format m") (simp_all add: wire_text_def rfc5424_text_def rfc3164_text_def octet_count_def)

lemma format_post:
  assumes "close_ok e" "poll_ok e" "manager_wf m" "transport_connected m" "sends_settle e k" "k < fuel"
    "concat iov = wire_text e m s f i msg h p tv sd mid (world m)"
    "length (wire_text e m s f i msg h p tv sd mid (world m)) < INT_MAX"
  shows "all_ret (send_post e (wire_text e m s f i msg h p tv sd mid (world m)) m)
    (protocol_send fuel e iov (m\<lparr>world := stamp_world tv (world m)\<rparr>))"
proof -
  let ?m = "m\<lparr>world := stamp_world tv (world m)\<rparr>"
  have "manager_wf ?m" "transport_connected ?m"
    using only_world_wf [of m ?m] assms(3,4) by simp_all
  then have "all_ret (send_post e (concat iov) ?m) (protocol_send fuel e iov ?m)"
    by (rule protocol_send_post [OF assms(1,2) _ _ assms(5,6)]) (use assms(7,8) wire_text_nonempty in auto)
  then show ?thesis
    unfolding assms(7) by (rule all_ret_mono) (rule send_post_from [OF stamp_world_silent])
qed

lemma failed_format_post:
  assumes "manager_wf m" "r < 0"
  shows "send_post e t m (r, m\<lparr>world := w\<rparr>)"
  using assms only_world_wf [of m "m\<lparr>world := w\<rparr>"] by (simp add: send_post_def)

lemma format_rfc5424_post:
  assumes "close_ok e" "poll_ok e" "calendar_ok e" "tv_ok tv" "manager_wf m" "transport_connected m" "sends_settle e k" "k < fuel"
    and fmt: "m_log_format m \<noteq> SYSLOG_TRANSMISSION_LOG_FORMAT_RFC_3164"
    and len: "length (wire_text e m s f i msg h p tv sd mid (world m)) < INT_MAX"
  shows "all_ret (send_post e (wire_text e m s f i msg h p tv sd mid (world m)) m)
    (format_rfc5424 fuel e s f i msg h p tv sd mid m)"
proof (cases "m_log_format m = SYSLOG_TRANSMISSION_LOG_FORMAT_RFC_5424")
  case True
  obtain iov where "rfc5424_iov e m s f i msg h p tv sd mid (world m) = Ret (Inr iov, stamp_world tv (world m))"
    "concat iov = wire_text e m s f i msg h p tv sd mid (world m)"
    using rfc5424_iov_wire [OF assms(3,4) True] by blast
  then show ?thesis
    using format_post [OF assms(1,2,5-8)] len by (simp add: format_rfc5424_def)
next
  case False
  with fmt have fr: "m_log_format m = SYSLOG_TRANSMISSION_LOG_FORMAT_RFC_5425" by (cases "m_log_format m") simp_all
  let ?t = "rfc5424_text e m s f i msg h p tv sd mid (world m)"
  have wt: "wire_text e m s f i msg h p tv sd mid (world m) = octet_count ?t" by (simp add: wire_text_def fr)
  have "length ?t < 2 ^ 63" using len unfolding wt by (simp add: octet_count_def INT_MAX_def)
  note iov = rfc5425_iov_wire [OF assms(3,4) fr this]
  show ?thesis
  proof (cases "length ?t < 1000000")
    case True
    let ?iov = "(dec_of_nat (length ?t) @ '' '') # rfc5424_parts e m s f i msg h p tv sd mid (world m)"
    have "concat ?iov = wire_text e m s f i msg h p tv sd mid (world m)"
      unfolding wt octet_count_def by (simp add: concat_rfc5424_parts)
    from format_post [OF assms(1,2,5-8) this len] show ?thesis
      unfolding format_rfc5424_def iov using True by simp
  next
    case False
    then show ?thesis
      unfolding format_rfc5424_def iov using failed_format_post [OF assms(5), of "- EMSGSIZE"] by simp
  qed
qed

lemma format_rfc3164_post:
  assumes "close_ok e" "poll_ok e" "calendar_ok e" "tv_ok tv" "manager_wf m" "transport_connected m" "sends_settle e k" "k < fuel"
    and fmt: "m_log_format m = SYSLOG_TRANSMISSION_LOG_FORMAT_RFC_3164"
    and len: "length (wire_text e m s f i msg h p tv sd mid (world m)) < INT_MAX"
  shows "all_ret (send_post e (wire_text e m s f i msg h p tv sd mid (world m)) m)
    (format_rfc3164 fuel e s f i msg h p tv m)"
proof -
  obtain iov where "rfc3164_iov e m s f i msg h p tv (world m) = Ret (iov, stamp_world tv (world m))"
    "concat iov = wire_text e m s f i msg h p tv sd mid (world m)"
    using rfc3164_iov_wire [OF assms(3,4) fmt] by blast
  then show ?thesis
    using format_post [OF assms(1,2,5-8)] len by (simp add: format_rfc3164_def)
qed

lemma manager_push_to_network_connected:
  assumes "manager_wf m" "transport_connected m"
  shows "manager_push_to_network fuel e s f i msg h p tv sd mid m =
    obind (if m_log_format m = SYSLOG_TRANSMISSION_LOG_FORMAT_RFC_5424 \<or> m_log_format m = SYSLOG_TRANSMISSION_LOG_FORMAT_RFC_5425
           then format_rfc5424 fuel e s f i msg h p tv sd mid m else format_rfc3164 fuel e s f i msg h p tv m)
      (\<lambda>(r, m). if r < 0 then Ret (r, m) else Ret (0, m))"
proof -
  have "manager_ensure_connected fuel e m = Ret (0, m)"
    using assms unfolding manager_ensure_connected_def manager_wf_def by (simp only: if_True) auto
  then show ?thesis by (simp add: manager_push_to_network_def)
qed

lemma push_connected_post:
  assumes "close_ok e" "poll_ok e" "calendar_ok e" "tv_ok tv" "manager_wf m" "transport_connected m" "sends_settle e k" "k < fuel"
    and len: "length (wire_text e m s f i msg h p tv sd mid (world m)) < INT_MAX"
  shows "all_ret (send_post e (wire_text e m s f i msg h p tv sd mid (world m)) m)
    (manager_push_to_network fuel e s f i msg h p tv sd mid m)"
proof -
  have last: "all_ret (send_post e t m) ((\<lambda>(r, m). if r < 0 then Ret (r, m) else Ret (0, m)) x)" if "send_post e t m x" for t x
    using that by (auto simp: send_post_def split: prod.splits)
  show ?thesis
    unfolding manager_push_to_network_connected [OF assms(5,6)]
    by (rule all_ret_obind [OF _ last])
      (use format_rfc5424_post [OF assms(1-8) _ len] format_rfc3164_post [OF assms(1-8) _ len] in
        \<open>cases "m_log_format m"; simp\<close>)
qed

text \<open>
  A message that has to be sent while the reconnect is put off: the function goes on to
  the transport with no connection, and an assertion ends the process.
\<close>

lemma push_rate_limited_aborts:
  assumes "manager_wf m" "\<not> transport_connected m" "manager_connect fuel e m = Ret (0, m1)" "manager_wf m1" "disconnected m1"
    "m_protocol m1 = SYSLOG_TRANSMISSION_PROTOCOL_UDP" "inet_family (sa_family (sockaddr (m_address m1)))"
    "m_log_format m1 = SYSLOG_TRANSMISSION_LOG_FORMAT_RFC_5424" "calendar_ok e" "tv_ok tv" "0 < fuel"
  shows "manager_push_to_network fuel e s f i msg h p tv sd mid m = Abort"
proof -
  obtain iov where iov: "rfc5424_iov e m1 s f i msg h p tv sd mid (world m1) = Ret (Inr iov, stamp_world tv (world m1))" "iov \<noteq> []"
    using rfc5424_iov_wire [OF assms(9,10,8)] by blast
  let ?m = "m1\<lparr>world := stamp_world tv (world m1)\<rparr>"
  have "sendmsg_loop fuel e iov l ?m = Abort" for l
    using assms(5,11) by (cases fuel) (simp_all add: disconnected_def)
  then have "protocol_send fuel e iov ?m = Abort"
    using assms(6,7) iov(2) by (simp add: protocol_send_def network_send_def inet_family_def) auto
  then have "format_rfc5424 fuel e s f i msg h p tv sd mid m1 = Abort"
    using iov(1) by (simp add: format_rfc5424_def)
  moreover have "manager_ensure_connected fuel e m = manager_connect fuel e m"
    using assms(1,2) unfolding manager_ensure_connected_def manager_wf_def by (simp only: if_False) auto
  ultimately show ?thesis
    using assms(3,8) by (simp add: manager_push_to_network_def)
qed

section \<open>Pushing terminates\<close>

text \<open>
  The clock hypotheses of \<open>manager_connect_terminates\<close>, with the fuel in terms of the burst of
  the rate limiter.
\<close>

definition connect_bounded :: "nat \<Rightarrow> env \<Rightarrow> Manager \<Rightarrow> bool" where
  "connect_bounded fuel e m \<longleftrightarrow>
     (\<exists>t d. clock_within e t d \<and> d \<le> unat (rl_interval (m_ratelimit m))) \<and>
     ratelimit_configured (m_ratelimit m) \<and> 2 * unat (rl_burst (m_ratelimit m)) < fuel"

lemma connect_bounded_returns:
  assumes "close_ok e" "manager_wf m" "connect_bounded fuel e m"
  shows "manager_connect fuel e m \<noteq> Diverge"
proof -
  obtain t d where "clock_within e t d" "d \<le> unat (rl_interval (m_ratelimit m))"
    using assms(3) unfolding connect_bounded_def by blast
  then show ?thesis
    using manager_connect_terminates [OF assms(1) _ assms(2), of t d fuel] attempts_left_bound [of t d "m_ratelimit m"] assms(3)
    by (simp add: connect_bounded_def)
qed

lemma connect_bounded_world [simp]: "connect_bounded fuel e (m\<lparr>world := w\<rparr>) = connect_bounded fuel e m"
  by (simp add: connect_bounded_def)

lemma connect_bounded_only_world: "only_world m m' \<Longrightarrow> connect_bounded fuel e m' = connect_bounded fuel e m"
  unfolding only_world_def using connect_bounded_world by metis

lemma obind_not_Diverge: "x \<noteq> Diverge \<Longrightarrow> (\<And>v. x = Ret v \<Longrightarrow> f v \<noteq> Diverge) \<Longrightarrow> obind x f \<noteq> Diverge"
  by (cases x) auto

lemma protocol_result_returns:
  assumes "close_ok e" "manager_wf m" "connect_bounded fuel e m" "only_world m m1"
  shows "protocol_result fuel e r m1 \<noteq> Diverge"
proof -
  have "manager_connect fuel e m1 \<noteq> Diverge"
    using connect_bounded_returns [OF assms(1)] assms only_world_wf connect_bounded_only_world by metis
  then show ?thesis by (cases "manager_connect fuel e m1") (auto simp: protocol_result_def)
qed

lemma protocol_send_returns:
  assumes "close_ok e" "manager_wf m" "transport_connected m" "sends_settle e k" "k < fuel" "connect_bounded fuel e m"
    "0 < length (concat iov)" "length (concat iov) < INT_MAX"
  shows "protocol_send fuel e iov m \<noteq> Diverge"
proof -
  note res = protocol_result_returns [OF assms(1,2,6)]
  have ssl: "obind (ssl_writev e s iov (world m)) (\<lambda>(r, w). protocol_result fuel e r (m\<lparr>world := w\<rparr>)) \<noteq> Diverge"
    if c: "ssl_wf s" "ssl_connected s" for s
    using ssl_writev_world [OF c assms(7,8), of e "world m"] res by auto
  have net: "obind (network_send fuel e iov m) (\<lambda>(r, m). protocol_result fuel e r m) \<noteq> Diverge" if sock: "0 \<le> m_socket m"
  proof -
    have "iov \<noteq> []" using assms(7) by auto
    then obtain r m' where "network_send fuel e iov m = Ret (r, m')" "only_world m m'"
      using network_send_returns [OF assms(4) sock assms(5)] by blast
    then show ?thesis using res by simp
  qed
  show ?thesis
    using assms(2,3) ssl net
    by (auto simp: protocol_send_def manager_wf_def ssl_opt_wf_def split: SysLogTransmissionProtocol.splits option.splits)
qed

lemma format_returns:
  assumes "close_ok e" "manager_wf m" "transport_connected m" "sends_settle e k" "k < fuel" "connect_bounded fuel e m"
    "concat iov = wire_text e m s f i msg h p tv sd mid w"
    "length (wire_text e m s f i msg h p tv sd mid w) < INT_MAX"
  shows "protocol_send fuel e iov (m\<lparr>world := w'\<rparr>) \<noteq> Diverge"
proof -
  have "manager_wf (m\<lparr>world := w'\<rparr>)" "transport_connected (m\<lparr>world := w'\<rparr>)"
    using only_world_wf [of m "m\<lparr>world := w'\<rparr>"] assms(2,3) by simp_all
  then show ?thesis
    by (rule protocol_send_returns [OF assms(1) _ _ assms(4,5)]) (use assms(6-8) wire_text_nonempty in auto)
qed

lemma push_connected_returns:
  assumes "close_ok e" "calendar_ok e" "tv_ok tv" "manager_wf m" "transport_connected m" "sends_settle e k" "k < fuel"
    "connect_bounded fuel e m"
    and len: "length (wire_text e m s f i msg h p tv sd mid (world m)) < INT_MAX"
  shows "manager_push_to_network fuel e s f i msg h p tv sd mid m \<noteq> Diverge"
proof -
  let ?wt = "wire_text e m s f i msg h p tv sd mid (world m)"
  let ?t = "rfc5424_text e m s f i msg h p tv sd mid (world m)"
  note send = format_returns [OF assms(1,4,5,6,7,8) _ len]
  have f3164: "format_rfc3164 fuel e s f i msg h p tv m \<noteq> Diverge"
    if fmt: "m_log_format m = SYSLOG_TRANSMISSION_LOG_FORMAT_RFC_3164"
    using rfc3164_iov_wire [OF assms(2,3) fmt, of s f i msg h p "world m" sd mid] send by (auto simp: format_rfc3164_def)
  have f5424: "format_rfc5424 fuel e s f i msg h p tv sd mid m \<noteq> Diverge"
    if fmt: "m_log_format m = SYSLOG_TRANSMISSION_LOG_FORMAT_RFC_5424"
    using rfc5424_iov_wire [OF assms(2,3) fmt, of s f i msg h p sd mid "world m"] send by (auto simp: format_rfc5424_def)
  have f5425: "format_rfc5424 fuel e s f i msg h p tv sd mid m \<noteq> Diverge"
    if fmt: "m_log_format m = SYSLOG_TRANSMISSION_LOG_FORMAT_RFC_5425"
  proof -
    have wt: "?wt = octet_count ?t" by (simp add: wire_text_def fmt)
    have "length ?t < 2 ^ 63" using len unfolding wt by (simp add: octet_count_def INT_MAX_def)
    note iov = rfc5425_iov_wire [OF assms(2,3) fmt this]
    have "concat ((dec_of_nat (length ?t) @ '' '') # rfc5424_parts e m s f i msg h p tv sd mid (world m)) = ?wt"
      unfolding wt octet_count_def by (simp add: concat_rfc5424_parts)
    from send [OF this] show ?thesis unfolding format_rfc5424_def iov by simp
  qed
  show ?thesis
    unfolding manager_push_to_network_connected [OF assms(4,5)]
    by (rule obind_not_Diverge)
      (cases "m_log_format m"; use f3164 f5424 f5425 in \<open>auto split: if_splits\<close>)+
qed

end
