(* ===== verification/Journal.thy ===== *)
theory Journal
  imports Protocol
begin

text \<open>
  Reading the journal and forwarding its entries (\<open>src/netlog/netlog-journal.c\<close>).  The
  fuel bounds the fields of an entry, the entries of a batch, and what sending an entry
  needs.  A call into sd-journal with a null pointer answers \<open>-EINVAL\<close>.
\<close>

section \<open>Fields of an entry\<close>

record journal_fields =
  jf_message :: "string option"
  jf_identifier :: "string option"
  jf_hostname :: "string option"
  jf_pid :: "string option"
  jf_facility :: "string option"
  jf_priority :: "string option"
  jf_structured_data :: "string option"
  jf_msgid :: "string option"

definition no_fields :: journal_fields where
  "no_fields = \<lparr>jf_message = None, jf_identifier = None, jf_hostname = None, jf_pid = None, jf_facility = None,
     jf_priority = None, jf_structured_data = None, jf_msgid = None\<rparr>"

definition parse_field :: "string \<Rightarrow> string \<Rightarrow> string option" where
  \<comment> \<open>the copy of what follows the field name, as the C string its users read\<close>
  "parse_field data field =
     (if length data < length field then None
      else if take (length field) data \<noteq> field then None
      else Some (cstr (drop (length field) data)))"

definition journal_field_table :: "(string \<times> (string \<Rightarrow> journal_fields \<Rightarrow> journal_fields)) list" where
  "journal_field_table =
     [(''_PID='', \<lambda>v j. j\<lparr>jf_pid := Some v\<rparr>),
      (''MESSAGE='', \<lambda>v j. j\<lparr>jf_message := Some v\<rparr>),
      (''PRIORITY='', \<lambda>v j. j\<lparr>jf_priority := Some v\<rparr>),
      (''_HOSTNAME='', \<lambda>v j. j\<lparr>jf_hostname := Some v\<rparr>),
      (''SYSLOG_FACILITY='', \<lambda>v j. j\<lparr>jf_facility := Some v\<rparr>),
      (''SYSLOG_IDENTIFIER='', \<lambda>v j. j\<lparr>jf_identifier := Some v\<rparr>),
      (''SYSLOG_STRUCTURED_DATA='', \<lambda>v j. j\<lparr>jf_structured_data := Some v\<rparr>),
      (''SYSLOG_MSGID'', \<lambda>v j. j\<lparr>jf_msgid := Some v\<rparr>)]"

fun parse_fieldv :: "string \<Rightarrow> (string \<times> (string \<Rightarrow> journal_fields \<Rightarrow> journal_fields)) list \<Rightarrow> journal_fields \<Rightarrow> journal_fields" where
  "parse_fieldv data [] j = j"
| "parse_fieldv data ((field, target) # fs) j =
     (case parse_field data field of
        Some v \<Rightarrow> target v j
      | None \<Rightarrow> parse_fieldv data fs j)"

text \<open>\<open>JOURNAL_FOREACH_DATA_RETVAL\<close>: the value that ended the loop, and what was collected.\<close>

fun journal_foreach_data :: "nat \<Rightarrow> env \<Rightarrow> journal_fields \<Rightarrow> Manager \<Rightarrow> (int \<times> journal_fields \<times> Manager) outcome" where
  "journal_foreach_data 0 e j m = Diverge"
| "journal_foreach_data (Suc fuel) e j m =
     (let data = out e (world m) (Journal Journal_enumerate_data);
          (r, m) = m_sys e (Journal Journal_enumerate_data) m
      in if 0 < r then journal_foreach_data fuel e (parse_fieldv data journal_field_table j) m
         else Ret (r, j, m))"

definition parse_journal_fields :: "nat \<Rightarrow> env \<Rightarrow> Manager \<Rightarrow> (int \<times> journal_fields \<times> Manager) outcome" where
  "parse_journal_fields fuel e m =
     obind (journal_foreach_data fuel e no_fields (m_call (Journal Journal_restart_data) m)) (\<lambda>(r, j, m).
       if r = - EBADMSG \<or> r = - EADDRNOTAVAIL then Ret (0, j, m) else Ret (r, j, m))"

section \<open>Filters\<close>

abbreviation (input) JOURNAL_DEFAULT_SEVERITY :: u32 where "JOURNAL_DEFAULT_SEVERITY \<equiv> 5"
abbreviation (input) JOURNAL_DEFAULT_FACILITY :: u32 where "JOURNAL_DEFAULT_FACILITY \<equiv> 1"
abbreviation (input) SYSLOG_LEVEL_MAX :: u32 where "SYSLOG_LEVEL_MAX \<equiv> 8"
abbreviation (input) SYSLOG_FACILITY_MAX :: u32 where "SYSLOG_FACILITY_MAX \<equiv> 24"

definition parse_syslog_severity :: "Manager \<Rightarrow> string option \<Rightarrow> u32 \<Rightarrow> int \<times> u32" where
  "parse_syslog_severity m priority sev =
     (case priority of
        None \<Rightarrow> (0, sev)
      | Some s \<Rightarrow>
          case safe_atou s of
            Inl r \<Rightarrow> (r, sev)
          | Inr v \<Rightarrow>
              if v < SYSLOG_LEVEL_MAX \<and> bit (m_excluded_syslog_levels m) (unat v) then (1, v)
              else if 7 < v then (0, JOURNAL_DEFAULT_SEVERITY)
              else (0, v))"

definition parse_syslog_facility :: "Manager \<Rightarrow> string option \<Rightarrow> u32 \<Rightarrow> int \<times> u32" where
  "parse_syslog_facility m facility fac =
     (case facility of
        None \<Rightarrow> (0, fac)
      | Some s \<Rightarrow>
          case safe_atou s of
            Inl r \<Rightarrow> (r, fac)
          | Inr v \<Rightarrow>
              if v < SYSLOG_FACILITY_MAX \<and> bit (m_excluded_syslog_facilities m) (unat v) then (1, v)
              else if 24 \<le> v then (0, JOURNAL_DEFAULT_FACILITY)
              else (0, v))"

section \<open>Forwarding\<close>

definition realtime_timeval :: "u64 \<Rightarrow> timeval" where
  "realtime_timeval realtime = \<lparr>tv_sec = realtime div USEC_PER_SEC, tv_usec = realtime mod USEC_PER_SEC\<rparr>"

definition journal_forward :: "nat \<Rightarrow> env \<Rightarrow> journal_fields \<Rightarrow> Manager \<Rightarrow> (int \<times> Manager) outcome" where
  \<comment> \<open>\<open>journal_read_input\<close> from the test for \<open>MESSAGE=\<close> on\<close>
  "journal_forward fuel e j m =
     (case jf_message j of
        None \<Rightarrow> Ret (0, m)
      | Some message \<Rightarrow>
          let realtime = time e (world m) (Journal Journal_get_realtime);
              (r, m) = m_sys e (Journal Journal_get_realtime) m;
              tvp = (if r < 0 then None else Some (realtime_timeval realtime));
              (r, fac) = parse_syslog_facility m (jf_facility j) JOURNAL_DEFAULT_FACILITY
          in if 0 < r then Ret (0, m)
             else let (r, sev) = parse_syslog_severity m (jf_priority j) JOURNAL_DEFAULT_SEVERITY
                  in if 0 < r then Ret (0, m)
                     else manager_push_to_network fuel e (uint sev) (uint fac) (jf_identifier j) message
                            (jf_hostname j) (jf_pid j) tvp (jf_structured_data j)
                            (if m_syslog_msgid m then jf_msgid j else None) m)"

definition journal_read_input :: "nat \<Rightarrow> env \<Rightarrow> Manager \<Rightarrow> (int \<times> Manager) outcome" where
  "journal_read_input fuel e m =
     c_assert (m_journal m)
      (let (r, m) = m_sys e (Journal Journal_get_cursor) m
       in if r < 0 then Ret (log_full_errno r, m)
          else obind (parse_journal_fields fuel e m) (\<lambda>(r, j, m).
                 if r < 0 then Ret (log_full_errno r, m)
                 else if r = 0 then Ret (0, m)
                 else journal_forward fuel e j m))"

definition j_sys :: "env \<Rightarrow> journal_call \<Rightarrow> Manager \<Rightarrow> int \<times> Manager" where
  "j_sys e c m = (if m_journal m then m_sys e (Journal c) m else (- EINVAL, m))"

fun journal_process_loop :: "nat \<Rightarrow> env \<Rightarrow> Manager \<Rightarrow> (int \<times> Manager) outcome" where
  \<comment> \<open>the \<open>for (;;)\<close> of \<open>journal_process_input\<close>; negative: the function returns at once\<close>
  "journal_process_loop 0 e m = Diverge"
| "journal_process_loop (Suc fuel) e m =
     (let (r, m) = j_sys e Journal_next m
      in if r < 0 then Ret (log_full_errno r, m)
         else if r = 0 then Ret (0, m)
         else obind (journal_read_input fuel e m) (\<lambda>(r, m).
                if r < 0 then Ret (0, snd (j_sys e Journal_previous m))
                else journal_process_loop fuel e m))"

definition journal_save_cursor :: "env \<Rightarrow> Manager \<Rightarrow> (int \<times> Manager) outcome" where
  \<comment> \<open>\<open>journal_process_input\<close> after the loop\<close>
  "journal_save_cursor e m =
     (let cursor = out e (world m) (Journal Journal_get_cursor);
          (r, m) = j_sys e Journal_get_cursor m
      in state_update_cursor e (m\<lparr>m_last_cursor := (if r < 0 then None else Some cursor)\<rparr>))"

definition journal_process_input :: "nat \<Rightarrow> env \<Rightarrow> Manager \<Rightarrow> (int \<times> Manager) outcome" where
  "journal_process_input fuel e m =
     c_assert (m_journal m)
      (obind (journal_process_loop fuel e m) (\<lambda>(r, m).
         if r < 0 then Ret (r, m) else journal_save_cursor e m))"

abbreviation (input) EPOLLIN :: u32 where "EPOLLIN \<equiv> 1"
abbreviation (input) EPOLLHUP :: u32 where "EPOLLHUP \<equiv> 16"
abbreviation (input) SD_JOURNAL_NOP :: int where "SD_JOURNAL_NOP \<equiv> 0"

definition journal_event_handler :: "nat \<Rightarrow> env \<Rightarrow> int \<Rightarrow> u32 \<Rightarrow> Manager \<Rightarrow> (int \<times> Manager) outcome" where
  "journal_event_handler fuel e fd revents m =
     c_assert (m_journal m) (c_assert (m_journal_watch_fd m = fd)
      (if revents AND EPOLLHUP \<noteq> 0 then Ret (0, m)
       else if revents AND EPOLLIN = 0 then Ret (- EINVAL, m)
       else let (r, m) = m_sys e (Journal Journal_process) m
            in if r < 0 then obind (manager_disconnect e m) (\<lambda>(_, m). Ret (r, m))
               else if r = SD_JOURNAL_NOP then Ret (0, m)
               else journal_process_input fuel e m))"

section \<open>Facts about fields and filters\<close>

lemma parse_field_Some: "parse_field data field = Some v \<longleftrightarrow> (\<exists>s. data = field @ s \<and> v = cstr s)"
  by (auto simp: parse_field_def) (metis append_take_drop_id)

lemma parse_syslog_severity_range:
  "parse_syslog_severity m p 5 = (r, v) \<Longrightarrow> r \<le> 0 \<Longrightarrow> v \<le> 7"
  by (auto simp: parse_syslog_severity_def split: option.splits sum.splits if_splits)

lemma parse_syslog_facility_range:
  "parse_syslog_facility m p 1 = (r, v) \<Longrightarrow> r \<le> 0 \<Longrightarrow> v < 24"
  by (auto simp: parse_syslog_facility_def split: option.splits sum.splits if_splits)

text \<open>A level in the set of excluded ones is always dropped, any other one is never.\<close>

lemma parse_syslog_severity_filter:
  assumes "n < 8"
  shows "fst (parse_syslog_severity m (Some (dec_of_nat n)) d) = (if bit (m_excluded_syslog_levels m) n then 1 else 0)"
  using assms by (simp add: parse_syslog_severity_def safe_atou_dec word_less_nat_alt unat_of_nat)

lemma parse_syslog_facility_filter:
  assumes "n < 24"
  shows "fst (parse_syslog_facility m (Some (dec_of_nat n)) d) = (if bit (m_excluded_syslog_facilities m) n then 1 else 0)"
  using assms by (simp add: parse_syslog_facility_def safe_atou_dec word_less_nat_alt word_le_nat_alt unat_of_nat)

lemma realtime_timeval_ok: "tv_ok (Some (realtime_timeval u))"
proof -
  have "unat (u mod USEC_PER_SEC) < unat (USEC_PER_SEC :: u64)"
    by (simp add: unat_mod)
  then show ?thesis by (simp add: tv_ok_def realtime_timeval_def)
qed

section \<open>No entry is ever forwarded\<close>

text \<open>
  The loop over the fields ends with a value that is not positive, and
  \<open>journal_read_input\<close> takes 0 for an entry to be skipped.
\<close>

lemma journal_foreach_data_quiet:
  "journal_foreach_data fuel e j m = Ret (r, j', m') \<Longrightarrow>
     r \<le> 0 \<and> only_world m m' \<and> grows (\<lambda>c. \<exists>x. c = Journal x) (world m) (world m')"
proof (induction fuel arbitrary: j m)
  case 0
  then show ?case by simp
next
  case (Suc fuel)
  let ?c = "Journal Journal_enumerate_data"
  let ?m = "m\<lparr>world := ?c # world m\<rparr>"
  show ?case
  proof (cases "0 < ans e (world m) ?c")
    case True
    with Suc.prems have "journal_foreach_data fuel e (parse_fieldv (out e (world m) ?c) journal_field_table j) ?m = Ret (r, j', m')"
      by (simp add: m_sys_def)
    from Suc.IH [OF this] have "r \<le> 0" "only_world ?m m'" "grows (\<lambda>c. \<exists>x. c = Journal x) (?c # world m) (world m')"
      by simp_all
    moreover have "grows (\<lambda>c. \<exists>x. c = Journal x) (world m) (?c # world m)" by blast
    ultimately show ?thesis using only_world_trans [OF only_world_update] grows_trans by blast
  next
    case False
    with Suc.prems have "r = ans e (world m) ?c" "m' = ?m" by (simp_all add: m_sys_def)
    with False show ?thesis by auto
  qed
qed

lemma journal_read_input_quiet:
  assumes "journal_read_input fuel e m = Ret (r, m')"
  shows "r \<le> 0 \<and> only_world m m' \<and> grows (\<lambda>c. \<exists>x. c = Journal x) (world m) (world m')"
proof -
  let ?P = "\<lambda>c. \<exists>x. c = Journal x"
  let ?c = "Journal Journal_get_cursor"
  let ?m = "m\<lparr>world := ?c # world m\<rparr>"
  let ?n = "m\<lparr>world := Journal Journal_restart_data # ?c # world m\<rparr>"
  have g: "grows ?P (world m) (world ?m)" "grows ?P (world m) (world ?n)" by auto
  show ?thesis
  proof (cases "ans e (world m) ?c < 0")
    case True
    then show ?thesis using assms g by (auto simp: journal_read_input_def c_assert_def m_sys_def split: if_splits)
  next
    case False
    with assms obtain r1 j m1 where p: "parse_journal_fields fuel e ?m = Ret (r1, j, m1)"
      and rest: "(if r1 < 0 then Ret (log_full_errno r1, m1) else if r1 = 0 then Ret (0, m1)
        else journal_forward fuel e j m1) = Ret (r, m')"
      by (auto simp: journal_read_input_def c_assert_def m_sys_def obind_eq_Ret split: if_splits)
    from p obtain r2 where f: "journal_foreach_data fuel e no_fields ?n = Ret (r2, j, m1)" and r1: "r1 = 0 \<or> r1 = r2"
      by (auto simp: parse_journal_fields_def obind_eq_Ret m_call_def split: if_splits)
    note q = journal_foreach_data_quiet [OF f]
    have "only_world m m1" "grows ?P (world m) (world m1)"
      using q only_world_trans [OF only_world_update] grows_trans [OF g(2)] by auto
    moreover have "r \<le> 0" "m' = m1" using rest r1 q by (auto split: if_splits)
    ultimately show ?thesis by simp
  qed
qed

text \<open>
  A message with one of the 24 facilities and 8 levels is dropped exactly when its facility or its level is excluded.
\<close>

theorem syslog_filters:
  assumes "f < 24" "l < 8"
  shows "(0 < fst (parse_syslog_facility m (Some (dec_of_nat f)) d)) = bit (m_excluded_syslog_facilities m) f \<and>
    (0 < fst (parse_syslog_severity m (Some (dec_of_nat l)) d)) = bit (m_excluded_syslog_levels m) l"
  using assms by (simp add: parse_syslog_severity_filter parse_syslog_facility_filter)

theorem syslog_filters_witness:
  "\<forall>m. (0 < fst (parse_syslog_facility m (Some (dec_of_nat 3)) 1)) = bit (m_excluded_syslog_facilities m) 3"
  using syslog_filters [of 3 0 _ 1] by simp

end
