(* ===== verification/Silent.thy ===== *)
theory Silent
  imports Journal
begin

text \<open>
  Which operations put log messages on the wire: none of those that open, close or watch
  connections does.  A call is silent unless it hands a message to a transport.
\<close>

abbreviation (input) silent_call :: "call \<Rightarrow> bool" where
  "silent_call c \<equiv> sent_text c = None"

definition silent :: "world \<Rightarrow> world \<Rightarrow> bool" where
  "silent w w' \<longleftrightarrow> grows silent_call w w'"

lemma silent_refl [simp, intro]: "silent w w"
  by (simp add: silent_def)

lemma silent_Cons: "silent w w' \<Longrightarrow> sent_text c = None \<Longrightarrow> silent w (c # w')"
  unfolding silent_def by blast

lemma silent_trans: "silent w w' \<Longrightarrow> silent w' w'' \<Longrightarrow> silent w w''"
  unfolding silent_def by (rule grows_trans)

text \<open>Silent functions on the history alone, and on the manager.\<close>

definition quiet_io :: "(world \<Rightarrow> ('a \<times> world) outcome) \<Rightarrow> bool" where
  "quiet_io f \<longleftrightarrow> (\<forall>w v w'. f w = Ret (v, w') \<longrightarrow> silent w w')"

definition quiet :: "Manager \<Rightarrow> ('a \<times> Manager) outcome \<Rightarrow> bool" where
  "quiet m x \<longleftrightarrow> (\<forall>v m'. x = Ret (v, m') \<longrightarrow> silent (world m) (world m'))"

lemma quiet_Ret: "quiet m (Ret (v, m')) \<longleftrightarrow> silent (world m) (world m')"
  by (simp add: quiet_def)

lemma quiet_obind:
  assumes "quiet m x" "\<And>v m'. x = Ret (v, m') \<Longrightarrow> quiet m' (f (v, m'))"
  shows "quiet m (obind x f)"
proof (cases x)
  case (Ret vm)
  obtain v m1 where vm: "vm = (v, m1)" by fastforce
  with Ret assms have "silent (world m) (world m1)" "quiet m1 (f (v, m1))" by (auto simp: quiet_def)
  with Ret vm show ?thesis using silent_trans by (auto simp: quiet_def)
qed (simp_all add: quiet_def)

lemma quiet_m_io: "quiet_io f \<Longrightarrow> quiet m (m_io f m)"
  by (auto simp: quiet_def quiet_io_def m_io_def obind_eq_Ret)

lemma quiet_world: "world m = world m1 \<Longrightarrow> quiet m1 x \<Longrightarrow> quiet m x"
  by (simp add: quiet_def)

lemma quiet_after: "silent (world m) (world m1) \<Longrightarrow> quiet m1 x \<Longrightarrow> quiet m x"
  using silent_trans unfolding quiet_def by blast

lemma quiet_safe_close: "quiet_io (safe_close e fd)"
  by (auto simp: quiet_io_def safe_close_def close_nointr_def c_assert_def sys_def obind_eq_Ret
      intro!: silent_Cons split: if_splits)

lemma quiet_fd_nonblock: "quiet_io (fd_nonblock e fd b)"
  by (auto simp: quiet_io_def fd_nonblock_def c_assert_def sys_def Let_def intro!: silent_Cons split: if_splits)

lemma silent_setsockopt: "silent w (snd (setsockopt_int e fd l p v w))"
  by (simp add: setsockopt_int_world silent_Cons)

lemma silent_sndbuf: "silent w (snd (fd_set_sndbuf e fd n b w))"
proof -
  have "sockopt_call fd c \<Longrightarrow> sent_text c = None" for c by (auto simp: sockopt_call_def)
  with fd_set_sndbuf_calls show ?thesis unfolding silent_def by (rule grows_mono)
qed

lemma silent_set_option: "silent (world m) (world (set_option e b l p v m))"
  using silent_setsockopt [of "world m" e "m_socket m" l p v]
  by (auto simp: set_option_def m_pure_def split: prod.splits)

lemma silent_set_send_buffer: "silent (world m) (world (set_send_buffer e m))"
  using silent_sndbuf [of "world m" e "m_socket m" "m_send_buffer m" False]
  by (auto simp: set_send_buffer_def m_pure_def split: prod.splits)

lemma quiet_socket_options: "quiet m (manager_socket_options e m)"
proof -
  have o: "silent (world m) (world m1) \<Longrightarrow> silent (world m) (world (set_option e b l p v m1))"
    "silent (world m) (world m1) \<Longrightarrow> silent (world m) (world (set_send_buffer e m1))" for b l p v m1
    using silent_set_option silent_set_send_buffer silent_trans by blast+
  show ?thesis
    unfolding manager_socket_options_def apply_tcp_socket_options_def c_assert_def Let_def
    by (auto simp: quiet_def intro!: o)
qed

lemma quiet_network_connect_socket: "quiet m (manager_network_connect_socket e m)"
proof -
  have "silent (world m) (world m')" if "manager_network_connect_socket e m = Ret (v, m')" for v m'
  proof (cases "inet_family (sa_family (sockaddr (m_address m)))")
    case True
    obtain p where p: "sockaddr_pretty (names e) (sockaddr (m_address m)) (inet_salen (sa_family (sockaddr (m_address m)))) True True = Ret (Inr p)"
      using sockaddr_pretty_inet [OF True] by blast
    have "\<exists>fd sa l. m' = m\<lparr>world := Net (Connect fd sa l) # world m\<rparr>"
      using that True p unfolding manager_network_connect_socket_def c_assert_def Let_def m_sys_def
      by (auto split: if_splits)
    then show ?thesis by (auto intro!: silent_Cons)
  qed (use that in \<open>auto simp: manager_network_connect_socket_def c_assert_def Let_def split: if_splits\<close>)
  then show ?thesis by (simp add: quiet_def)
qed

lemma quiet_close_socket: "quiet m (manager_close_network_socket e m)"
  unfolding manager_close_network_socket_def Let_def
  by (rule quiet_after [of _ "(if m_protocol m = SYSLOG_TRANSMISSION_PROTOCOL_TCP \<and> 0 \<le> m_socket m
        then m_call (Net (Shutdown (m_socket m))) m else m)\<lparr>m_connected := False\<rparr>"])
    (auto intro!: silent_Cons quiet_obind quiet_m_io quiet_safe_close simp: quiet_Ret)

lemma quiet_setup_socket: "quiet m (manager_setup_socket e m)"
  unfolding manager_setup_socket_def
  by (intro quiet_obind quiet_socket_options)
    (auto intro!: quiet_obind quiet_m_io quiet_safe_close quiet_fd_nonblock quiet_network_connect_socket simp: quiet_Ret)

lemma quiet_open_socket: "quiet m (manager_open_network_socket e m)"
proof -
  let ?c = "\<lambda>t. Net (Socket (sa_family (sockaddr (m_address m))) t 0)"
  have "quiet m (manager_setup_socket e (m\<lparr>world := ?c t # world m, m_socket := fd\<rparr>))" for t fd
    by (rule quiet_after [OF _ quiet_setup_socket]) (simp add: silent_Cons)
  then show ?thesis
    by (auto simp: manager_open_network_socket_def Let_def m_sys_def quiet_Ret intro!: silent_Cons
        split: option.splits)
qed

lemma ssl_handshake_silent:
  "ssl_connect_tls e s sa fd w = Ret (r, s', w') \<Longrightarrow> silent w w'"
  "ssl_connect_dtls e s sa fd w = Ret (r, s', w') \<Longrightarrow> silent w w'"
  by (auto simp: ssl_connect_tls_def ssl_connect_dtls_def c_assert_def sys_def Let_def
      ssl_setup_certificate_verification_def intro!: silent_Cons split: if_splits)

lemma ssl_connect_fail_silent: "ssl_connect_fail e r fd s w = Ret (r', s', w') \<Longrightarrow> silent w w'"
  using quiet_safe_close [of e fd] by (auto simp: ssl_connect_fail_def obind_eq_Ret quiet_io_def)

lemma ssl_connect_handshake_silent:
  assumes "ssl_connect_handshake e s sa p fd w = Ret (r, s', w')"
  shows "silent w w'"
proof -
  from assms obtain r1 s1 w1 where
    h: "(if ssl_transport_type s = SSL_TRANSPORT_TLS then ssl_connect_tls e s sa fd w
         else ssl_connect_dtls e s sa fd w) = Ret (r1, s1, w1)"
    and rest: "(if r1 < 0 then ssl_connect_fail e r1 fd s1 w1 else
      Ret (0, s1\<lparr>ssl_fd := fd, ssl_pretty_address := Some p, ssl_connected := True\<rparr>, w1)) = Ret (r, s', w')"
    unfolding ssl_connect_handshake_def obind_eq_Ret by auto
  have "silent w w1" using h ssl_handshake_silent by (metis (full_types))
  moreover have "silent w1 w'" using rest ssl_connect_fail_silent by (auto split: if_splits)
  ultimately show ?thesis by (rule silent_trans)
qed

lemma ssl_connect_silent: "ssl_connect e s a w = Ret (r, s', w') \<Longrightarrow> silent w w'"
proof -
  assume c: "ssl_connect e s a w = Ret (r, s', w')"
  have f: "silent w w'" if "ssl_connect_fail e r0 fd s (c1 # w) = Ret (r, s', w')" "sent_text c1 = None" for r0 fd c1
    using ssl_connect_fail_silent [OF that(1)] silent_trans silent_Cons [OF silent_refl that(2)] by blast
  have g: "silent w w'" if "ssl_connect_fail e r0 fd s (c2 # c1 # w) = Ret (r, s', w')" "sent_text c1 = None" "sent_text c2 = None" for r0 fd c1 c2
    using ssl_connect_fail_silent [OF that(1)] silent_trans silent_Cons [OF silent_Cons [OF silent_refl that(2)] that(3)] by blast
  have h: "silent w w'" if "ssl_connect_handshake e s sa p fd (c2 # c1 # w) = Ret (r, s', w')" "sent_text c1 = None" "sent_text c2 = None" for sa p fd c1 c2
    using ssl_connect_handshake_silent [OF that(1)] silent_trans silent_Cons [OF silent_Cons [OF silent_refl that(2)] that(3)] by blast
  from c show ?thesis
    unfolding ssl_connect_def c_assert_def Let_def sys_def
    by (auto simp: obind_eq_Ret intro!: silent_Cons split: if_splits sum.splits elim!: f g h)
qed

lemma ssl_disconnect_silent: "ssl_disconnect e mo w = Ret (mo', w') \<Longrightarrow> silent w w'"
proof (cases mo)
  case (Some s)
  assume d: "ssl_disconnect e mo w = Ret (mo', w')"
  let ?w = "if ssl_ssl s then Ssl Ssl_free # Ssl Ssl_shutdown # w else w"
  have "silent w ?w" by (auto intro!: silent_Cons)
  moreover have "silent ?w w'"
    using d Some quiet_safe_close [of e "ssl_fd s"] by (auto simp: ssl_disconnect_def Let_def obind_eq_Ret quiet_io_def)
  ultimately show ?thesis by (rule silent_trans)
qed (simp add: ssl_disconnect_def)

lemma quiet_disconnect_ssl: "quiet m (manager_disconnect_ssl e m)"
  using ssl_disconnect_silent silent_trans
  by (auto simp: manager_disconnect_ssl_def quiet_def obind_eq_Ret) blast

lemma silent_unref: "sent_text c = None \<Longrightarrow> silent (world m) (world (unref_source b c m))"
  by (simp add: unref_source_def silent_Cons)

lemma silent_close_input: "silent (world m) (world (journal_close_input m))"
  by (simp add: journal_close_input_def silent_Cons)

lemma quiet_disconnect: "quiet m (manager_disconnect e m)"
proof -
  have tail: "silent (world m) (world (m_call (Other (Notify s)) (journal_close_input
      ((unref_source b (Event Event_source_unref) m)\<lparr>m_event_journal_input := False\<rparr>))))" for s b m
    using silent_trans [OF silent_unref [of "Event Event_source_unref" m b]
        silent_close_input [of "(unref_source b (Event Event_source_unref) m)\<lparr>m_event_journal_input := False\<rparr>", simplified]]
    by (simp add: silent_Cons)
  have "quiet m0 (obind (manager_close_network_socket e m0) (\<lambda>(_, m). obind (manager_disconnect_ssl e m) (\<lambda>(_, m).
         let m = (unref_source (m_event_journal_input m) (Event Event_source_unref) m)\<lparr>m_event_journal_input := False\<rparr>;
             m = journal_close_input m
         in Ret ((), m_call (Other (Notify ''STATUS=Idle.'')) m))))" for m0
    using tail by (auto intro!: quiet_obind quiet_close_socket quiet_disconnect_ssl simp: quiet_Ret Let_def)
  then show ?thesis
    unfolding manager_disconnect_def
    by (subst Let_def, rule quiet_after [rotated]) (simp add: silent_unref)
qed

section \<open>Connecting is silent\<close>

lemma quiet_begin_connect: "quiet m (manager_begin_connect e m)"
proof -
  have r: "silent (world m) (world m2)" if "manager_ratelimit_below e m = (b, m2)" for m b m2
    using that by (auto simp: manager_ratelimit_below_def Let_def intro!: silent_Cons split: if_splits prod.splits)
  have "silent (world m) (world m2)"
    if "manager_ratelimit_below e ((unref_source c (Event Event_source_unref) m)\<lparr>m_event_retry := False\<rparr>) = (b, m2)" for m b m2 c
    using r [OF that] silent_trans [OF silent_unref [of "Event Event_source_unref" m c]] by simp
  then have q: "quiet m (Ret (manager_ratelimit_below e ((unref_source c (Event Event_source_unref) m)\<lparr>m_event_retry := False\<rparr>)))" for m c
    by (simp add: quiet_def)
  show ?thesis
    unfolding manager_begin_connect_def by (rule quiet_obind [OF quiet_disconnect]) (simp add: q)
qed

lemma quiet_open_transport: "quiet m (manager_open_transport e m)"
  using ssl_connect_silent quiet_open_socket [of m e]
  by (auto simp: manager_open_transport_def quiet_def obind_eq_Ret split: SysLogTransmissionProtocol.splits option.splits)

lemma silent_load_cursor: "silent (world m) (world (snd (state_load_cursor e m)))"
  by (auto simp: state_load_cursor_def Let_def intro!: silent_Cons split: option.splits prod.splits)

lemma silent_journal_seek: "silent (world m) (world (snd (journal_seek e m)))"
proof -
  define m1 where "m1 = (if m_last_cursor m = None then snd (state_load_cursor e m) else m)"
  have "silent (world m) (world m1)" using silent_load_cursor [of m e] by (simp add: m1_def)
  moreover have "silent (world m1) (world (snd (journal_seek e m)))"
    unfolding journal_seek_def m1_def [symmetric] Let_def m_sys_def
    by (auto intro!: silent_Cons split: option.splits)
  ultimately show ?thesis by (rule silent_trans)
qed

lemma silent_listen: "silent (world m) (world (snd (journal_monitor_listen e m)))"
proof -
  have o: "silent (world m) (world (snd (journal_open e m)))"
    by (simp add: journal_open_def m_sys_def Let_def silent_Cons)
  have s: "silent (world m) (world (snd (journal_seek e (m1\<lparr>m_event_journal_input := True\<rparr>))))"
    if "silent (world m) (world m1)" for m1
    using silent_trans [OF that] silent_journal_seek [of "m1\<lparr>m_event_journal_input := True\<rparr>" e] by simp
  obtain r m1 where j: "journal_open e m = (r, m1)" by fastforce
  with o have m1: "silent (world m) (world m1)" by simp
  show ?thesis
    unfolding journal_monitor_listen_def Let_def m_sys_def j
    by (auto intro!: s silent_Cons m1)
qed

lemma quiet_connect: "quiet m (manager_connect fuel e m)"
proof (induction fuel arbitrary: m)
  case 0
  then show ?case by (simp add: quiet_def)
next
  case (Suc fuel)
  have d: "quiet m (Ret (manager_delay_connect e m))" for m
    by (auto simp: manager_delay_connect_def m_sys_def Let_def quiet_Ret intro!: silent_Cons)
  have l: "quiet m (let (r, m) = journal_monitor_listen e m in if r < 0 then Ret (log_full_errno r, m) else Ret (0, m))" for m
    using silent_listen [of m e] by (auto simp: quiet_Ret split: prod.splits)
  have "quiet m (obind (manager_begin_connect e m) (\<lambda>(below, m).
        if \<not> below then Ret (manager_delay_connect e m)
        else obind (manager_open_transport e m) (\<lambda>(r, m).
          if r < 0 then manager_connect fuel e m
          else let (r, m) = journal_monitor_listen e m
               in if r < 0 then Ret (log_full_errno r, m) else Ret (0, m))))"
    using d l Suc.IH
    by (intro quiet_obind quiet_begin_connect) (auto intro!: quiet_obind quiet_open_transport)
  then show ?case by (simp add: quiet_Ret)
qed

section \<open>Reading the journal is silent\<close>

lemma quiet_read_input: "quiet m (journal_read_input fuel e m)"
proof -
  have "silent w w'" if "grows (\<lambda>c. \<exists>x. c = Journal x) w w'" for w w'
    using that unfolding silent_def by (rule grows_mono) auto
  then show ?thesis using journal_read_input_quiet unfolding quiet_def by blast
qed

lemma silent_j_sys: "silent (world m) (world (snd (j_sys e c m)))"
  by (simp add: j_sys_def m_sys_def silent_Cons)

lemma quiet_process_loop: "quiet m (journal_process_loop fuel e m)"
proof (induction fuel arbitrary: m)
  case 0
  then show ?case by (simp add: quiet_def)
next
  case (Suc fuel)
  obtain r m1 where n: "j_sys e Journal_next m = (r, m1)" by fastforce
  then have s: "silent (world m) (world m1)" using silent_j_sys [of m e Journal_next] by simp
  have "quiet m1 (obind (journal_read_input fuel e m1) (\<lambda>(r, m).
      if r < 0 then Ret (0, snd (j_sys e Journal_previous m)) else journal_process_loop fuel e m))"
    using Suc.IH by (intro quiet_obind quiet_read_input) (auto simp: quiet_Ret silent_j_sys)
  from quiet_after [OF s this] show ?case using s by (simp add: n quiet_Ret)
qed

lemma quiet_fopen_temporary: "quiet_io (fopen_temporary e p)"
proof -
  have c: "silent w w'" if "safe_close e fd (c # b # a # w) = Ret (r, w')" "sent_text a = None" "sent_text b = None" "sent_text c = None"
    for w w' a b c r fd
    using quiet_safe_close [of e fd] that silent_trans [of w "c # b # a # w" w']
    by (auto simp: quiet_io_def intro!: silent_Cons)
  show ?thesis
    by (auto simp: quiet_io_def fopen_temporary_def mkostemp_safe_def sys_def Let_def obind_eq_Ret
        intro!: silent_Cons elim!: c split: sum.splits if_splits)
qed

lemma quiet_update_cursor: "quiet m (state_update_cursor e m)"
proof -
  have "quiet m1 (case t of Inl r \<Rightarrow> Ret (r, m1)
      | Inr temp_path \<Rightarrow>
          let m = m_call (File (Fchmod 420)) m1; m = m_call (File (Fputs (state_file_text c))) m; (r, m) = m_sys e (File Fflush) m
          in if r < 0 then Ret (r, m_call (File Fclose) (m_call (File (Unlink temp_path)) m))
             else let (r, m) = m_sys e (File (Rename temp_path f)) m
                  in Ret (if r < 0 then r else 0, m_call (File Fclose) (m_call (File (Unlink temp_path)) m)))" for m1 t c f
    by (auto simp: m_sys_def Let_def quiet_Ret intro!: silent_Cons split: sum.splits)
  then show ?thesis
    by (auto simp: state_update_cursor_def quiet_Ret intro!: quiet_obind quiet_m_io quiet_fopen_temporary split: option.splits)
qed

lemma quiet_process_input: "quiet m (journal_process_input fuel e m)"
proof -
  have "quiet m (journal_save_cursor e m)" for m
  proof -
    obtain r m1 where j: "j_sys e Journal_get_cursor m = (r, m1)" by fastforce
    have s: "silent (world m) (world m1)" using silent_j_sys [of m e Journal_get_cursor] j by simp
    have "quiet m (state_update_cursor e (m1\<lparr>m_last_cursor := c\<rparr>))" for c
      by (rule quiet_after [OF _ quiet_update_cursor]) (simp add: s)
    then show ?thesis by (simp add: journal_save_cursor_def j)
  qed
  then show ?thesis
    by (auto simp: journal_process_input_def c_assert_def quiet_Ret quiet_def [of _ Abort] intro!: quiet_obind quiet_process_loop)
qed

lemma quiet_journal_event_handler: "quiet m (journal_event_handler fuel e fd revents m)"
proof -
  let ?m = "m\<lparr>world := Journal Journal_process # world m\<rparr>"
  have up: "quiet m x" if "quiet ?m x" for x :: "(int \<times> Manager) outcome"
    by (rule quiet_after [OF _ that]) (simp add: silent_Cons)
  have "quiet ?m (obind (manager_disconnect e ?m) (\<lambda>(_, m). Ret (r, m)))" for r :: int
    by (rule quiet_obind [OF quiet_disconnect]) (simp add: quiet_Ret)
  then show ?thesis
    using quiet_process_input [of ?m fuel e]
    by (auto simp: journal_event_handler_def c_assert_def m_sys_def quiet_Ret quiet_def [of _ Abort]
        intro!: up silent_Cons)
qed

end
