(* ===== verification/Event_System.thy ===== *)
theory Event_System
  imports Prelude
begin

text \<open>
  Event-driven programs.  The daemon is a set of handlers that the event loop calls one at
  a time; a run is a sequence of events, each enabled when its handler is called.  The
  locales state what a set of handlers has to guarantee for one call so that a property
  holds along every run.
\<close>

inductive event_run :: "('ev \<Rightarrow> 's \<Rightarrow> bool) \<Rightarrow> ('ev \<Rightarrow> 's \<Rightarrow> (int \<times> 's) outcome) \<Rightarrow> 's \<Rightarrow> 'ev list \<Rightarrow> 's \<Rightarrow> bool"
  for enabled handle where
  run_start: "event_run enabled handle s [] s"
| run_step: "event_run enabled handle s evs s' \<Longrightarrow> enabled ev s' \<Longrightarrow> handle ev s' = Ret (r, s'') \<Longrightarrow>
    event_run enabled handle s (evs @ [ev]) s''"

inductive_cases event_run_snocE: "event_run enabled handle s (evs @ [ev]) s'"

text \<open>The same runs, computed: None when an event is not enabled or its handler does not return.\<close>

fun run_events :: "('ev \<Rightarrow> 's \<Rightarrow> bool) \<Rightarrow> ('ev \<Rightarrow> 's \<Rightarrow> (int \<times> 's) outcome) \<Rightarrow> 'ev list \<Rightarrow> 's \<Rightarrow> 's option" where
  "run_events enabled handle [] s = Some s"
| "run_events enabled handle (ev # evs) s =
     (if enabled ev s
      then (case handle ev s of Ret (r, s') \<Rightarrow> run_events enabled handle evs s' | _ \<Rightarrow> None)
      else None)"

lemma event_run_Cons:
  assumes "event_run enabled handle s1 evs s2" "enabled ev s" "handle ev s = Ret (r, s1)"
  shows "event_run enabled handle s (ev # evs) s2"
  using assms
proof (induction rule: event_run.induct)
  case (run_start s1)
  then show ?case using event_run.run_step [OF event_run.run_start, of enabled ev s handle r s1] by simp
next
  case (run_step s1 evs s' ev' r' s'')
  then show ?case using event_run.run_step [of enabled handle s "ev # evs" s' ev' r' s''] by simp
qed

lemma event_run_ConsD:
  "event_run enabled handle s l s'' \<Longrightarrow> l = ev # evs \<Longrightarrow>
     \<exists>r s'. enabled ev s \<and> handle ev s = Ret (r, s') \<and> event_run enabled handle s' evs s''"
proof (induction arbitrary: evs rule: event_run.induct)
  case (run_step s evs0 s' ev' r s'')
  show ?case
  proof (cases evs0)
    case Nil
    with run_step.prems have e: "ev' = ev" "evs = []" by simp_all
    have "s' = s" using run_step.hyps(1) unfolding Nil by (cases rule: event_run.cases) auto
    with run_step.hyps e show ?thesis using event_run.run_start by metis
  next
    case (Cons ev0 tail)
    with run_step.prems have e: "ev0 = ev" "evs = tail @ [ev']" by simp_all
    obtain r1 s1 where "enabled ev s" "handle ev s = Ret (r1, s1)" "event_run enabled handle s1 tail s'"
      using run_step.IH [of tail] Cons e by auto
    with run_step.hyps e show ?thesis using event_run.run_step by metis
  qed
qed simp

lemma run_events_iff: "run_events enabled handle evs s = Some s' \<longleftrightarrow> event_run enabled handle s evs s'"
proof (induction evs arbitrary: s)
  case Nil
  show ?case by (auto intro: event_run.run_start elim: event_run.cases)
next
  case (Cons ev evs)
  show ?case
    using Cons event_run_Cons [of enabled handle _ evs s' ev s] event_run_ConsD [of enabled handle s "ev # evs" s' ev evs]
    by (auto split: outcome.splits)
qed

text \<open>In a run no handler aborted.\<close>

lemma event_run_returns:
  "event_run enabled handle s evs s' \<Longrightarrow> event_run (\<lambda>ev s. enabled ev s \<and> handle ev s \<noteq> Abort) handle s evs s'"
  by (induction rule: event_run.induct) (auto intro: event_run.intros)

locale event_system =
  fixes enabled :: "'ev \<Rightarrow> 's \<Rightarrow> bool"
    and handle :: "'ev \<Rightarrow> 's \<Rightarrow> (int \<times> 's) outcome"
    and inv :: "'s \<Rightarrow> bool"
  assumes handler_safe: "inv s \<Longrightarrow> enabled ev s \<Longrightarrow> all_ret (\<lambda>(r, s'). inv s') (handle ev s)"
begin

lemma run_inv: "event_run enabled handle s evs s' \<Longrightarrow> inv s \<Longrightarrow> inv s'"
proof (induction rule: event_run.induct)
  case (run_step s evs s' ev r s'')
  then show ?case using handler_safe [of s' ev] by auto
qed

lemma run_no_abort: "event_run enabled handle s evs s' \<Longrightarrow> inv s \<Longrightarrow> enabled ev s' \<Longrightarrow> handle ev s' \<noteq> Abort"
  using run_inv handler_safe all_ret_not_Abort by metis

end

text \<open>A relation between the states before and after that every handler keeps.\<close>

locale monotone_system = event_system +
  fixes rel :: "'s \<Rightarrow> 's \<Rightarrow> bool"
  assumes rel_refl: "rel s s"
    and rel_trans: "rel s s' \<Longrightarrow> rel s' s'' \<Longrightarrow> rel s s''"
    and handler_rel: "inv s \<Longrightarrow> enabled ev s \<Longrightarrow> handle ev s = Ret (r, s') \<Longrightarrow> rel s s'"
begin

lemma run_rel: "event_run enabled handle s evs s' \<Longrightarrow> inv s \<Longrightarrow> rel s s'"
proof (induction rule: event_run.induct)
  case (run_start s)
  then show ?case by (simp add: rel_refl)
next
  case (run_step s evs s' ev r s'')
  then have "inv s'" using run_inv by blast
  with run_step show ?case using handler_rel rel_trans by blast
qed

end

end
