(* ===== verification/Sd_Network.thy ===== *)
theory Sd_Network
  imports State_File Extract_Word
begin

text \<open>
  \<open>src/share/sd-network.c\<close> and \<open>src/share/network-util.c\<close>: the state files of systemd-networkd, and
  the monitor that waits for changes of them.  The functions that read a state file get
  what reading the file gave; a monitor is the inotify descriptor it is made from.
\<close>

unbundle bit_operations_syntax

section \<open>State files\<close>

definition network_value :: "string result \<Rightarrow> string \<Rightarrow> string option result" where
  \<comment> \<open>the common start of the readers: the value of a key, \<open>ENODATA\<close> without a file\<close>
  "network_value contents key =
     (let (r, ts) = parse_env_file contents (Some NEWLINE) [(key, None)]
      in if r = - ENOENT then Inl (- ENODATA) else if r < 0 then Inl r else Inr (snd (hd ts)))"

definition network_string :: "string result \<Rightarrow> string \<Rightarrow> string result" where
  "network_string contents key =
     (case network_value contents key of
        Inl r \<Rightarrow> Inl r
      | Inr s \<Rightarrow> if isempty s then Inl (- ENODATA) else Inr (the s))"

definition network_strv :: "string result \<Rightarrow> string \<Rightarrow> string list result" where
  "network_strv contents key =
     (case network_value contents key of
        Inl r \<Rightarrow> Inl r
      | Inr s \<Rightarrow> if isempty s then Inr [] else Inr (strv_uniq (strv_split (the s) '' '')))"

definition NETIF_STATE :: string where "NETIF_STATE = ''/run/systemd/netif/state''"

definition netif_contents :: "env \<Rightarrow> string \<Rightarrow> world \<Rightarrow> string result" where
  "netif_contents e path w = read_full_file (open_state_file e path w)"

definition sd_network_get_operational_state :: "env \<Rightarrow> world \<Rightarrow> string result" where
  "sd_network_get_operational_state e w = network_string (netif_contents e NETIF_STATE w) ''OPER_STATE''"

definition network_get_strv :: "env \<Rightarrow> string \<Rightarrow> world \<Rightarrow> string list result" where
  "network_get_strv e key w = network_strv (netif_contents e NETIF_STATE w) key"

definition link_path :: "int \<Rightarrow> string" where
  "link_path ifindex = ''/run/systemd/netif/links/'' @ dec_of_nat (nat ifindex)"

definition network_link_get_string :: "env \<Rightarrow> int \<Rightarrow> string \<Rightarrow> world \<Rightarrow> string result" where
  "network_link_get_string e ifindex field w =
     (if \<not> 0 < ifindex then Inl (- EINVAL) else network_string (netif_contents e (link_path ifindex) w) field)"

definition network_link_get_strv :: "env \<Rightarrow> int \<Rightarrow> string \<Rightarrow> world \<Rightarrow> string list result" where
  "network_link_get_strv e ifindex key w =
     (if \<not> 0 < ifindex then Inl (- EINVAL) else network_strv (netif_contents e (link_path ifindex) w) key)"

text \<open>The loop of \<open>network_link_get_ifindexes\<close>; \<open>c\<close> are the interfaces read so far.\<close>

function ifindex_loop :: "string option \<Rightarrow> int list \<Rightarrow> int list result" where
  "ifindex_loop x c =
     (case x of
        None \<Rightarrow> Inr c
      | Some s \<Rightarrow>
          (case extract_first_word (Some s) None 0 of
             (r, w, rest) \<Rightarrow>
               if r < 0 then Inl r
               else if r = 0 then Inr c
               else (case parse_ifindex (the w) of Inl r \<Rightarrow> Inl r | Inr i \<Rightarrow> ifindex_loop rest (c @ [i]))))"
  by pat_completeness auto

termination ifindex_loop
proof (relation "measure (\<lambda>(x, c). case x of None \<Rightarrow> 0 | Some s \<Rightarrow> Suc (length s))", goal_cases)
  case (2 x c s r y w rest i)
  then have "extract_first_word (Some s) None 0 = (r, w, rest)" "0 < r" by simp_all
  then have "length q < length s" if "rest = Some q" for q using that extract_first_word_shorter by blast
  with 2 show ?case by (cases rest) auto
qed simp

declare ifindex_loop.simps [simp del]

definition network_link_get_ifindexes :: "env \<Rightarrow> int \<Rightarrow> string \<Rightarrow> world \<Rightarrow> int list result" where
  "network_link_get_ifindexes e ifindex key w =
     (if \<not> 0 < ifindex then Inl (- EINVAL)
      else case network_value (netif_contents e (link_path ifindex) w) key of
             Inl r \<Rightarrow> Inl r
           | Inr s \<Rightarrow> if isempty s then Inr [] else ifindex_loop s [])"

text \<open>The accessors of the library: one key of the state file or of the file of a link each.\<close>

definition sd_network_get_dns :: "env \<Rightarrow> world \<Rightarrow> string list result" where
  "sd_network_get_dns e = network_get_strv e ''DNS''"
definition sd_network_get_ntp :: "env \<Rightarrow> world \<Rightarrow> string list result" where
  "sd_network_get_ntp e = network_get_strv e ''NTP''"
definition sd_network_get_search_domains :: "env \<Rightarrow> world \<Rightarrow> string list result" where
  "sd_network_get_search_domains e = network_get_strv e ''DOMAINS''"
definition sd_network_get_route_domains :: "env \<Rightarrow> world \<Rightarrow> string list result" where
  "sd_network_get_route_domains e = network_get_strv e ''ROUTE_DOMAINS''"
definition sd_network_link_get_setup_state :: "env \<Rightarrow> int \<Rightarrow> world \<Rightarrow> string result" where
  "sd_network_link_get_setup_state e ifindex = network_link_get_string e ifindex ''ADMIN_STATE''"
definition sd_network_link_get_network_file :: "env \<Rightarrow> int \<Rightarrow> world \<Rightarrow> string result" where
  "sd_network_link_get_network_file e ifindex = network_link_get_string e ifindex ''NETWORK_FILE''"
definition sd_network_link_get_operational_state :: "env \<Rightarrow> int \<Rightarrow> world \<Rightarrow> string result" where
  "sd_network_link_get_operational_state e ifindex = network_link_get_string e ifindex ''OPER_STATE''"
definition sd_network_link_get_llmnr :: "env \<Rightarrow> int \<Rightarrow> world \<Rightarrow> string result" where
  "sd_network_link_get_llmnr e ifindex = network_link_get_string e ifindex ''LLMNR''"
definition sd_network_link_get_mdns :: "env \<Rightarrow> int \<Rightarrow> world \<Rightarrow> string result" where
  "sd_network_link_get_mdns e ifindex = network_link_get_string e ifindex ''MDNS''"
definition sd_network_link_get_dnssec :: "env \<Rightarrow> int \<Rightarrow> world \<Rightarrow> string result" where
  "sd_network_link_get_dnssec e ifindex = network_link_get_string e ifindex ''DNSSEC''"
definition sd_network_link_get_timezone :: "env \<Rightarrow> int \<Rightarrow> world \<Rightarrow> string result" where
  "sd_network_link_get_timezone e ifindex = network_link_get_string e ifindex ''TIMEZONE''"
definition sd_network_link_get_dnssec_negative_trust_anchors :: "env \<Rightarrow> int \<Rightarrow> world \<Rightarrow> string list result" where
  "sd_network_link_get_dnssec_negative_trust_anchors e ifindex = network_link_get_strv e ifindex ''DNSSEC_NTA''"
definition sd_network_link_get_dns :: "env \<Rightarrow> int \<Rightarrow> world \<Rightarrow> string list result" where
  "sd_network_link_get_dns e ifindex = network_link_get_strv e ifindex ''DNS''"
definition sd_network_link_get_ntp :: "env \<Rightarrow> int \<Rightarrow> world \<Rightarrow> string list result" where
  "sd_network_link_get_ntp e ifindex = network_link_get_strv e ifindex ''NTP''"
definition sd_network_link_get_search_domains :: "env \<Rightarrow> int \<Rightarrow> world \<Rightarrow> string list result" where
  "sd_network_link_get_search_domains e ifindex = network_link_get_strv e ifindex ''DOMAINS''"
definition sd_network_link_get_route_domains :: "env \<Rightarrow> int \<Rightarrow> world \<Rightarrow> string list result" where
  "sd_network_link_get_route_domains e ifindex = network_link_get_strv e ifindex ''ROUTE_DOMAINS''"
definition sd_network_link_get_carrier_bound_to :: "env \<Rightarrow> int \<Rightarrow> world \<Rightarrow> int list result" where
  "sd_network_link_get_carrier_bound_to e ifindex = network_link_get_ifindexes e ifindex ''CARRIER_BOUND_TO''"
definition sd_network_link_get_carrier_bound_by :: "env \<Rightarrow> int \<Rightarrow> world \<Rightarrow> int list result" where
  "sd_network_link_get_carrier_bound_by e ifindex = network_link_get_ifindexes e ifindex ''CARRIER_BOUND_BY''"

definition network_is_online :: "env \<Rightarrow> world \<Rightarrow> bool" where
  "network_is_online e w \<longleftrightarrow>
     (case sd_network_get_operational_state e w of
        Inl _ \<Rightarrow> True
      | Inr state \<Rightarrow> state = ''routable'' \<or> state = ''degraded'')"

section \<open>The monitor\<close>

abbreviation (input) IN_MOVED_TO :: u32 where "IN_MOVED_TO \<equiv> 0x80"
abbreviation (input) IN_CREATE :: u32 where "IN_CREATE \<equiv> 0x100"
abbreviation (input) IN_DELETE :: u32 where "IN_DELETE \<equiv> 0x200"
abbreviation (input) IN_ISDIR :: u32 where "IN_ISDIR \<equiv> 0x40000000"

definition monitor_add_inotify_watch :: "env \<Rightarrow> int \<Rightarrow> world \<Rightarrow> int \<times> world" where
  "monitor_add_inotify_watch e fd w =
     (let (k, w) = sys e (File (Inotify_add_watch fd ''/run/systemd/netif/links/'' (IN_MOVED_TO OR IN_DELETE))) w
      in if 0 \<le> k then (0, w)
         else if k \<noteq> - ENOENT then (k, w)
         else let (k, w) = sys e (File (Inotify_add_watch fd ''/run/systemd/netif/'' (IN_CREATE OR IN_ISDIR))) w
              in if 0 \<le> k then (0, w)
                 else if k \<noteq> - ENOENT then (k, w)
                 else let (k, w) = sys e (File (Inotify_add_watch fd ''/run/systemd/'' (IN_CREATE OR IN_ISDIR))) w
                      in if k < 0 then (k, w) else (0, w))"

definition sd_network_monitor_new :: "env \<Rightarrow> string option \<Rightarrow> world \<Rightarrow> (int result \<times> world) outcome" where
  "sd_network_monitor_new e category w =
     (let (fd, w) = sys e (File Inotify_init) w
      in if fd < 0 then Ret (Inl fd, w)
         else if category = None \<or> category = Some ''links'' then
           (let (k, w) = monitor_add_inotify_watch e fd w
            in if k < 0 then obind (safe_close e fd w) (\<lambda>(_, w). Ret (Inl k, w))
               else Ret (Inr fd, w))
         else obind (safe_close e fd w) (\<lambda>(_, w). Ret (Inl (- EINVAL), w)))"

definition sd_network_monitor_unref :: "env \<Rightarrow> int option \<Rightarrow> world \<Rightarrow> (unit \<times> world) outcome" where
  "sd_network_monitor_unref e mon w =
     (case mon of None \<Rightarrow> Ret ((), w) | Some fd \<Rightarrow> obind (close_nointr e fd w) (\<lambda>(_, w). Ret ((), w)))"

text \<open>
  The buffer holds inotify events: descriptor, mask, cookie, length of the name, and the name
  (\<open>FOREACH_INOTIFY_EVENT\<close>).
\<close>

definition le32 :: "string \<Rightarrow> nat \<Rightarrow> u32" where
  "le32 buf i = (\<Sum>j\<leftarrow>[0..<4]. push_bit (8 * j) (utf8_byte (char_at buf (i + j))))"

function monitor_flush_loop :: "env \<Rightarrow> int \<Rightarrow> string \<Rightarrow> world \<Rightarrow> int \<times> world" where
  "monitor_flush_loop e fd buf w =
     (if buf = [] then (0, w)
      else let rest = drop (16 + unat (le32 buf 12)) buf
           in if le32 buf 4 AND IN_ISDIR \<noteq> 0 then
                (let (k, w) = monitor_add_inotify_watch e fd w
                 in if k < 0 then (k, w)
                    else let (k, w) = sys e (File (Inotify_rm_watch fd (sint (le32 buf 0)))) w
                         in if k < 0 then (k, w) else monitor_flush_loop e fd rest w)
              else monitor_flush_loop e fd rest w)"
  by pat_completeness auto

termination monitor_flush_loop
  by (relation "measure (\<lambda>(e, fd, buf, w). length buf)") auto

declare monitor_flush_loop.simps [simp del]

definition INOTIFY_EVENT_MAX :: nat where "INOTIFY_EVENT_MAX = 16 + 255 + 1"

definition sd_network_monitor_flush :: "env \<Rightarrow> int option \<Rightarrow> world \<Rightarrow> int \<times> world" where
  "sd_network_monitor_flush e mon w =
     (case mon of
        None \<Rightarrow> (- EINVAL, w)
      | Some fd \<Rightarrow>
          let c = Net (Read fd INOTIFY_EVENT_MAX); (l, w') = sys e c w
          in if l < 0 then (if l = - EAGAIN \<or> l = - EINTR then 0 else l, w')
             else monitor_flush_loop e fd (take (nat l) (out e w c)) w')"

definition sd_network_monitor_get_fd :: "int option \<Rightarrow> int" where
  "sd_network_monitor_get_fd mon = (case mon of None \<Rightarrow> - EINVAL | Some fd \<Rightarrow> fd)"

definition sd_network_monitor_get_events :: "int option \<Rightarrow> int" where
  "sd_network_monitor_get_events mon = (case mon of None \<Rightarrow> - EINVAL | Some fd \<Rightarrow> POLLIN)"

definition sd_network_monitor_get_timeout :: "int option \<Rightarrow> usec result" where
  "sd_network_monitor_get_timeout mon = (case mon of None \<Rightarrow> Inl (- EINVAL) | Some fd \<Rightarrow> Inr (- 1))"

section \<open>Calls\<close>

definition monitor_call :: "call \<Rightarrow> bool" where
  "monitor_call c \<longleftrightarrow>
     (case c of
        File (Inotify_add_watch _ _ _) \<Rightarrow> True
      | File (Inotify_rm_watch _ _) \<Rightarrow> True
      | File Inotify_init \<Rightarrow> True
      | Net (Read _ _) \<Rightarrow> True
      | Net (Close _) \<Rightarrow> True
      | _ \<Rightarrow> False)"

lemma add_watch_grows: "monitor_add_inotify_watch e fd w = (k, w') \<Longrightarrow> grows monitor_call w w'"
  by (auto simp: monitor_add_inotify_watch_def sys_def monitor_call_def grows_def split: if_splits)

lemma flush_loop_grows: "grows monitor_call w (snd (monitor_flush_loop e fd buf w))"
proof (induction "length buf" arbitrary: buf w rule: less_induct)
  case less
  let ?rest = "drop (16 + unat (le32 buf 12)) buf"
  show ?case
  proof (cases "buf = []")
    case False
    then have IH: "grows monitor_call v (snd (monitor_flush_loop e fd ?rest v))" for v by (intro less) simp
    obtain k v where a: "monitor_add_inotify_watch e fd w = (k, v)" by fastforce
    let ?c = "File (Inotify_rm_watch fd (sint (le32 buf 0)))"
    have v: "grows monitor_call w v" "grows monitor_call w (?c # v)"
      using add_watch_grows [OF a] by (auto simp: monitor_call_def intro!: grows_Cons)
    show ?thesis
      using False v IH [of w] grows_trans [OF v(2) IH]
      by (subst monitor_flush_loop.simps) (simp add: a sys_def Let_def)
  qed (simp add: monitor_flush_loop.simps)
qed

lemma flush_grows: "grows monitor_call w (snd (sd_network_monitor_flush e mon w))"
proof -
  have "grows monitor_call w (Net (Read fd n) # w)" for fd n by (simp add: monitor_call_def grows_Cons)
  then show ?thesis
    using grows_trans [OF _ flush_loop_grows] by (auto simp: sd_network_monitor_flush_def sys_def Let_def split: option.splits)
qed

lemma monitor_new_returns:
  assumes "close_ok e"
  shows "\<exists>r w'. sd_network_monitor_new e category w = Ret (r, w') \<and> (\<forall>fd. r = Inr fd \<longrightarrow> 0 \<le> fd) \<and> (\<forall>k. r = Inl k \<longrightarrow> k < 0)"
  using safe_close_ok [OF assms]
  by (auto simp: sd_network_monitor_new_def sys_def Let_def split: prod.splits)

end
