(* ===== verification/Manager.thy ===== *)
theory Manager
  imports Silent Event_System Sd_Network
begin

text \<open>
  \<open>src/netlog/netlog-manager.c\<close>: creation and release of the manager, and the handlers the
  event loop calls (signals, the retry timer, the resolver, changes of the network and new
  journal entries).
\<close>

section \<open>Handlers\<close>

definition manager_signal_event_handler :: "env \<Rightarrow> Manager \<Rightarrow> (int \<times> Manager) outcome" where
  "manager_signal_event_handler e m =
     obind (manager_disconnect e m) (\<lambda>(_, m). Ret (0, m_call (Event (Event_exit 0)) m))"

text \<open>
  The loop over the addresses of \<open>manager_resolve_handler\<close>: the first IPv4 or IPv6 address
  is copied into the manager and gets the configured port.
\<close>

text \<open>
  The list is the answer of \<open>getaddrinfo\<close>, whose addresses are there and are whole, as the source
  asserts; \<open>sockaddr_pretty\<close> there only prepares a debug message.
\<close>

fun resolve_pick :: "u32 \<Rightarrow> sockaddr list \<Rightarrow> SocketAddress \<Rightarrow> SocketAddress" where
  "resolve_pick port [] a = a"
| "resolve_pick port (ai # ais) a =
     (if inet_family (sa_family ai) then a\<lparr>sockaddr := ai\<lparr>sa_port := ucast port\<rparr>\<rparr> else resolve_pick port ais a)"

definition manager_resolve_handler :: "nat \<Rightarrow> env \<Rightarrow> int \<Rightarrow> sockaddr list \<Rightarrow> Manager \<Rightarrow> (int \<times> Manager) outcome" where
  "manager_resolve_handler fuel e ret ai m =
     c_assert (m_server_name m \<noteq> None)
      (let m = (unref_source (m_resolve_query m) (Event Resolve_query_unref) m)\<lparr>m_resolve_query := False\<rparr>
       in if ret \<noteq> 0 then manager_connect fuel e m
          else let m = m\<lparr>m_address := resolve_pick (m_port m) ai (m_address m)\<rparr>
               in if \<not> inet_family (sa_family (sockaddr (m_address m))) then manager_connect fuel e m
                  else manager_connect fuel e (m\<lparr>m_resolving := False\<rparr>))"

definition manager_network_event_handler :: "nat \<Rightarrow> env \<Rightarrow> Manager \<Rightarrow> (int \<times> Manager) outcome" where
  "manager_network_event_handler fuel e m =
     (let (_, m) = m_pure (sd_network_monitor_flush e (m_network_monitor m)) m;
          online = network_is_online e (world m);
          m = m_call (File (Open_read NETIF_STATE)) m;
          connected = 0 \<le> m_socket m
      in if connected \<and> \<not> online then obind (manager_disconnect e m) (\<lambda>(_, m). Ret (0, m))
         else if \<not> connected \<and> online
         then obind (manager_connect fuel e m) (\<lambda>(r, m). if r < 0 then Ret (r, m) else Ret (0, m))
         else Ret (0, m))"

section \<open>Creation and release\<close>

definition manager_network_monitor_listen :: "env \<Rightarrow> Manager \<Rightarrow> (int \<times> Manager) outcome" where
  "manager_network_monitor_listen e m =
     obind (m_io (sd_network_monitor_new e None) m) (\<lambda>(r, m).
       case r of
         Inl r \<Rightarrow> Ret (r, m)
       | Inr mon \<Rightarrow>
           (let m = m\<lparr>m_network_monitor := Some mon\<rparr>;
                fd = sd_network_monitor_get_fd (m_network_monitor m)
            in if fd < 0 then Ret (fd, m)
               else let events = sd_network_monitor_get_events (m_network_monitor m)
                    in if events < 0 then Ret (events, m)
                       else let (r, m) = m_sys e (Event (Event_add_io fd events)) m
                            in if r < 0 then Ret (r, m) else Ret (0, m\<lparr>m_network_event_source := True\<rparr>)))"

definition manager_free :: "env \<Rightarrow> Manager \<Rightarrow> (unit \<times> Manager) outcome" where
  "manager_free e m =
     obind (manager_disconnect e m) (\<lambda>(_, m).
       let m = unref_source (m_resolve m) (Event Resolve_unref) m;
           m = unref_source (m_network_event_source m) (Event Event_source_unref) m
       in obind (m_io (sd_network_monitor_unref e (m_network_monitor m)) m) (\<lambda>(_, m).
            let m = unref_source (m_event_retry m) (Event Event_source_unref) m
            in Ret ((), unref_source (m_event m) (Event Event_unref) m)))"

definition DEFAULT_CONNECTION_RETRY_USEC :: u64 where "DEFAULT_CONNECTION_RETRY_USEC = 30000000"

definition manager_initial :: "net_names \<Rightarrow> string \<Rightarrow> string option \<Rightarrow> world \<Rightarrow> Manager" where
  \<comment> \<open>the compound literal of \<open>manager_new\<close>, the default address and the cursor\<close>
  "manager_initial ns state_file cursor w =
     \<lparr>m_resolve = False, m_event = False, m_event_journal_input = False,
      m_connection_retry_usec = DEFAULT_CONNECTION_RETRY_USEC, m_network_event_source = False,
      m_network_monitor = None, m_event_retry = False,
      m_ratelimit = \<lparr>rl_interval = 10000000, rl_burst = 10, rl_num = 0, rl_begin = 0\<rparr>,
      m_resolve_query = False, m_socket = -1,
      m_address = snd (socket_address_parse ns ''239.0.0.1:6000''), m_port = 0, m_server_name = None,
      m_excluded_syslog_facilities = 0, m_excluded_syslog_levels = 0, m_journal_watch_fd = -1,
      m_namespace_flags = 0, m_journal = False, m_state_file = Some state_file, m_last_cursor = cursor,
      m_structured_data = None, m_dir = None, m_namespace = None,
      m_protocol = SYSLOG_TRANSMISSION_PROTOCOL_UDP, m_log_format = SYSLOG_TRANSMISSION_LOG_FORMAT_RFC_5424,
      m_auth_mode = OPEN_SSL_CERTIFICATE_AUTH_MODE_DENY, m_server_cert = None,
      m_syslog_structured_data = False, m_syslog_msgid = False, m_dtls = None, m_tls = None,
      m_keep_alive = False, m_no_delay = False, m_connected = False, m_resolving = False,
      m_keep_alive_cnt = 0, m_send_buffer = 0, m_keep_alive_time = 0, m_keep_alive_interval = 0, world = w\<rparr>"

abbreviation (input) SIGINT :: int where "SIGINT \<equiv> 2"
abbreviation (input) SIGTERM :: int where "SIGTERM \<equiv> 15"

definition manager_new_fail :: "env \<Rightarrow> int \<Rightarrow> Manager \<Rightarrow> (int \<times> Manager option \<times> world) outcome" where
  \<comment> \<open>\<open>_cleanup_(manager_freep)\<close>\<close>
  "manager_new_fail e r m = obind (manager_free e m) (\<lambda>(_, m). Ret (r, None, world m))"

definition manager_new :: "env \<Rightarrow> string \<Rightarrow> string option \<Rightarrow> world \<Rightarrow> (int \<times> Manager option \<times> world) outcome" where
  "manager_new e state_file cursor w =
     c_assert (fst (socket_address_parse (names e) ''239.0.0.1:6000'') = 0)
      (let m = manager_initial (names e) state_file cursor w;
           (r, m) = m_sys e (Event Event_default) m
       in if r < 0 then manager_new_fail e (log_full_errno r) m
          else let m = m\<lparr>m_event := True\<rparr>;
                   (r, m) = m_sys e (Other Sigprocmask) m
               in c_assert (0 \<le> r)
                   (let m = m_call (Event (Event_add_signal SIGTERM)) m;
                        m = m_call (Event (Event_add_signal SIGINT)) m;
                        m = m_call (Event Event_set_watchdog) m;
                        (r, m) = m_sys e (Event Resolve_default) m
                    in if r < 0 then manager_new_fail e r m
                       else let m = m\<lparr>m_resolve := True\<rparr>;
                                (r, m) = m_sys e (Event Resolve_attach_event) m
                            in if r < 0 then manager_new_fail e r m
                               else obind (manager_network_monitor_listen e m) (\<lambda>(r, m).
                                      if r < 0 then manager_new_fail e r m
                                      else Ret (0, Some m, world m))))"

section \<open>The event loop\<close>

datatype event = Signal | Retry | Resolved int "sockaddr list" | Network_changed | Journal_ready u32

definition event_enabled :: "event \<Rightarrow> Manager \<Rightarrow> bool" where
  \<comment> \<open>the source of the event is registered, and the loop was not told to exit\<close>
  "event_enabled ev m \<longleftrightarrow>
     Event (Event_exit 0) \<notin> set (world m) \<and>
     (case ev of
        Signal \<Rightarrow> True
      | Retry \<Rightarrow> m_event_retry m
      | Resolved _ _ \<Rightarrow> m_server_name m \<noteq> None \<comment> \<open>queries are only made with a name; each \<open>Address=\<close> with one makes another\<close>
      | Network_changed \<Rightarrow> m_network_event_source m
      | Journal_ready _ \<Rightarrow> m_event_journal_input m)"

definition handle_event :: "nat \<Rightarrow> env \<Rightarrow> event \<Rightarrow> Manager \<Rightarrow> (int \<times> Manager) outcome" where
  "handle_event fuel e ev m =
     (case ev of
        Signal \<Rightarrow> manager_signal_event_handler e m
      | Retry \<Rightarrow> manager_retry_connect fuel e m
      | Resolved ret ai \<Rightarrow> manager_resolve_handler fuel e ret ai m
      | Network_changed \<Rightarrow> manager_network_event_handler fuel e m
      | Journal_ready revents \<Rightarrow> journal_event_handler fuel e (m_journal_watch_fd m) revents m)"

section \<open>The invariant\<close>

definition daemon_wf :: "Manager \<Rightarrow> bool" where
  "daemon_wf m \<longleftrightarrow> manager_wf m \<and> (m_resolve_query m \<longrightarrow> m_server_name m \<noteq> None)"

lemma connect_daemon_wf:
  assumes "close_ok e" "daemon_wf m"
  shows "all_ret (\<lambda>(r, m'). daemon_wf m') (manager_connect fuel e m)"
  by (rule all_ret_mono [OF manager_connect_wf [OF assms(1)]])
    (use assms(2) in \<open>auto simp: daemon_wf_def connect_post_def same_config_def\<close>)

lemma disconnect_daemon_wf:
  assumes "close_ok e" "daemon_wf m"
  shows "\<exists>m'. manager_disconnect e m = Ret ((), m') \<and> daemon_wf m' \<and> disconnected m'"
proof -
  obtain w where d: "manager_disconnect e m = Ret ((), (manager_down m)\<lparr>world := w\<rparr>)"
    using manager_disconnect_ok [OF assms(1)] by blast
  let ?m = "(manager_down m)\<lparr>m_event_retry := m_event_retry m, m_ratelimit := m_ratelimit m, world := w\<rparr>"
  have eq: "?m = (manager_down m)\<lparr>world := w\<rparr>" by (simp add: manager_down_def)
  have "disconnected ?m" "transport_wf ?m"
    using down_disconnected transport_wf_down manager_wf_transport assms(2) by (simp_all add: daemon_wf_def)
  then have "manager_wf ?m" "disconnected ?m" using disconnected_wf by blast+
  then show ?thesis unfolding d eq by (auto simp: daemon_wf_def disconnected_def)
qed

lemma daemon_wf_address [simp]:
  "daemon_wf (m\<lparr>m_address := a\<rparr>) = daemon_wf m" "daemon_wf (m\<lparr>m_resolving := b\<rparr>) = daemon_wf m"
  "daemon_wf (m\<lparr>world := w\<rparr>) = daemon_wf m" "daemon_wf (m\<lparr>m_last_cursor := c\<rparr>) = daemon_wf m"
  by (simp_all add: daemon_wf_def manager_wf_def cong: SysLogTransmissionProtocol.case_cong)

lemma manager_wf_resolve_query: "manager_wf (m\<lparr>m_resolve_query := b\<rparr>) = manager_wf m"
  by (simp add: manager_wf_def cong: SysLogTransmissionProtocol.case_cong)

lemma daemon_wf_resolve_query: "daemon_wf m \<Longrightarrow> daemon_wf (m\<lparr>m_resolve_query := False\<rparr>)"
  by (simp add: daemon_wf_def manager_wf_resolve_query)

lemma resolve_handler_wf:
  assumes "close_ok e" "daemon_wf m" "m_server_name m \<noteq> None"
  shows "all_ret (\<lambda>(r, m'). daemon_wf m') (manager_resolve_handler fuel e ret ai m)"
proof -
  let ?m = "(unref_source (m_resolve_query m) (Event Resolve_query_unref) m)\<lparr>m_resolve_query := False\<rparr>"
  have "daemon_wf ?m" using assms(2) daemon_wf_resolve_query by (simp add: unref_source_eq)
  then show ?thesis
    using assms connect_daemon_wf [OF assms(1)]
    by (auto simp: manager_resolve_handler_def Let_def daemon_wf_def [of m])
qed

lemma network_handler_wf:
  assumes "close_ok e" "daemon_wf m"
  shows "all_ret (\<lambda>(r, m'). daemon_wf m') (manager_network_event_handler fuel e m)"
proof -
  obtain r mf where f: "m_pure (sd_network_monitor_flush e (m_network_monitor m)) m = (r, mf)" by fastforce
  let ?m = "m_call (File (Open_read NETIF_STATE)) mf"
  have wf: "daemon_wf ?m" using assms(2) f by (auto simp: m_call_def m_pure_def split_beta)
  obtain m1 where d: "manager_disconnect e ?m = Ret ((), m1)" "daemon_wf m1"
    using disconnect_daemon_wf [OF assms(1) wf] by blast
  have c: "all_ret (\<lambda>(r, m'). daemon_wf m') (obind (manager_connect fuel e ?m) (\<lambda>(r, m). if r < 0 then Ret (r, m) else Ret (0, m)))"
    by (rule all_ret_obind [OF connect_daemon_wf [OF assms(1) wf]]) auto
  show ?thesis unfolding manager_network_event_handler_def Let_def f prod.case using wf d c by auto
qed

lemma update_cursor_wf:
  assumes "close_ok e"
  shows "\<exists>r m'. state_update_cursor e m = Ret (r, m') \<and> only_world m m'"
proof -
  have f: "\<exists>t w'. fopen_temporary e p w = Ret (t, w')" for p w
    using assms by (auto simp: fopen_temporary_def mkostemp_safe_def safe_close_ok sys_def Let_def split: sum.splits)
  show ?thesis
  proof (cases "m_state_file m = None \<or> m_last_cursor m = None")
    case True
    then show ?thesis by (auto simp: state_update_cursor_def split: option.splits)
  next
    case False
    then obtain p c where pc: "m_state_file m = Some p" "m_last_cursor m = Some c" by auto
    obtain t w' where t: "fopen_temporary e p (world m) = Ret (t, w')" using f by blast
    show ?thesis
      using pc t by (cases t) (simp_all add: state_update_cursor_def m_io_def m_call_def m_sys_def Let_def)
  qed
qed

definition cursor_frame :: "Manager \<Rightarrow> Manager \<Rightarrow> bool" where
  "cursor_frame m m' \<longleftrightarrow> (\<exists>c w. m' = m\<lparr>m_last_cursor := c, world := w\<rparr>)"

lemma foreach_data_no_abort: "journal_foreach_data fuel e j m \<noteq> Abort"
  by (induction fuel arbitrary: j m) (auto simp: m_sys_def)

lemma obind_not_Abort: "x \<noteq> Abort \<Longrightarrow> (\<And>v. x = Ret v \<Longrightarrow> f v \<noteq> Abort) \<Longrightarrow> obind x f \<noteq> Abort"
  by (cases x) auto

lemma parse_journal_fields_no_abort: "parse_journal_fields fuel e m \<noteq> Abort"
  unfolding parse_journal_fields_def by (rule obind_not_Abort) (auto simp: foreach_data_no_abort split: if_splits)

lemma parse_journal_fields_nonpos: "parse_journal_fields fuel e m = Ret (r, f, m') \<Longrightarrow> r \<le> 0"
  using journal_foreach_data_quiet by (auto simp: parse_journal_fields_def obind_eq_Ret split: if_splits)

lemma read_input_no_abort: "m_journal m \<Longrightarrow> journal_read_input fuel e m \<noteq> Abort"
proof -
  assume j: "m_journal m"
  let ?m = "snd (m_sys e (Journal Journal_get_cursor) m)"
  show ?thesis
  proof (cases "parse_journal_fields fuel e ?m")
    case (Ret p)
    obtain r f m' where p: "p = (r, f, m')" by (cases p)
    have "r \<le> 0" using Ret parse_journal_fields_nonpos unfolding p by blast
    then show ?thesis using j Ret by (simp add: p journal_read_input_def c_assert_def m_sys_def)
  qed (use j parse_journal_fields_no_abort in \<open>simp_all add: journal_read_input_def c_assert_def m_sys_def\<close>)
qed

lemma read_input_frame:
  assumes "m_journal m"
  shows "all_ret (\<lambda>(r, m'). only_world m m') (journal_read_input fuel e m)"
  using read_input_no_abort [OF assms, of fuel e] journal_read_input_quiet [of fuel e m]
  by (cases "journal_read_input fuel e m") auto

lemma only_world_journal: "only_world m m' \<Longrightarrow> m_journal m' = m_journal m"
  unfolding only_world_def by (metis Manager.select_convs(18) Manager.surjective Manager.update_convs(40))

lemma process_loop_frame:
  assumes "m_journal m"
  shows "all_ret (\<lambda>(r, m'). only_world m m') (journal_process_loop fuel e m)"
  using assms
proof (induction fuel arbitrary: m)
  case 0
  then show ?case by simp
next
  case (Suc fuel)
  let ?m1 = "m\<lparr>world := Journal Journal_next # world m\<rparr>"
  let ?r = "ans e (world m) (Journal Journal_next)"
  have j: "j_sys e Journal_next m = (?r, ?m1)" using Suc.prems by (simp add: j_sys_def m_sys_def)
  have i: "all_ret (\<lambda>(r, m'). only_world ?m1 m') (journal_read_input fuel e ?m1)"
    by (rule read_input_frame) (simp add: Suc.prems)
  have "all_ret (\<lambda>(r, m'). only_world m m')
    (if r < 0 then Ret (0, snd (j_sys e Journal_previous m2)) else journal_process_loop fuel e m2)"
    if o: "only_world ?m1 m2" for r :: int and m2
  proof -
    have o': "only_world m m2" using only_world_trans [OF only_world_update o] .
    have "m_journal m2" using only_world_journal [OF o'] Suc.prems by simp
    then have l: "all_ret (\<lambda>(r, m'). only_world m2 m') (journal_process_loop fuel e m2)" by (rule Suc.IH)
    have "only_world m2 (snd (j_sys e Journal_previous m2))" by (simp add: j_sys_def)
    then show ?thesis using all_ret_mono [OF l] only_world_trans [OF o'] by auto
  qed
  then have "all_ret (\<lambda>(r, m'). only_world m m') (obind (journal_read_input fuel e ?m1) (\<lambda>(r, m).
      if r < 0 then Ret (0, snd (j_sys e Journal_previous m)) else journal_process_loop fuel e m))"
    by (intro all_ret_obind [OF i]) (simp only: split_beta)
  then show ?case by (simp add: j)
qed

lemma daemon_wf_only_world: "only_world m m' \<Longrightarrow> daemon_wf m \<Longrightarrow> daemon_wf m'"
  unfolding only_world_def by (metis daemon_wf_address(3))

lemma save_cursor_wf:
  assumes "close_ok e" "daemon_wf m"
  shows "all_ret (\<lambda>(r, m'). daemon_wf m') (journal_save_cursor e m)"
proof -
  define m1 where "m1 = snd (j_sys e Journal_get_cursor m)"
  define c where "c = (if fst (j_sys e Journal_get_cursor m) < 0 then None else Some (out e (world m) (Journal Journal_get_cursor)))"
  have "daemon_wf m1" using assms(2) by (simp add: m1_def j_sys_def m_sys_def)
  then have wf: "daemon_wf (m1\<lparr>m_last_cursor := c\<rparr>)" by simp
  obtain r m' where "state_update_cursor e (m1\<lparr>m_last_cursor := c\<rparr>) = Ret (r, m')"
    "only_world (m1\<lparr>m_last_cursor := c\<rparr>) m'"
    using update_cursor_wf [OF assms(1)] by blast
  then show ?thesis using daemon_wf_only_world [OF _ wf]
    by (simp add: journal_save_cursor_def m1_def c_def Let_def split_beta)
qed

lemma process_input_wf:
  assumes "close_ok e" "daemon_wf m" "m_journal m"
  shows "all_ret (\<lambda>(r, m'). daemon_wf m') (journal_process_input fuel e m)"
proof -
  have "all_ret (\<lambda>(r, m'). daemon_wf m') (case v of (r, m) \<Rightarrow> if r < 0 then Ret (r, m) else journal_save_cursor e m)"
    if "(case v of (r, m') \<Rightarrow> only_world m m')" for v
  proof -
    obtain r m1 where v: "v = (r, m1)" by (cases v)
    have "daemon_wf m1" using that v daemon_wf_only_world assms(2) by simp
    then show ?thesis using v save_cursor_wf [OF assms(1)] by simp
  qed
  then have "all_ret (\<lambda>(r, m'). daemon_wf m')
      (obind (journal_process_loop fuel e m) (\<lambda>(r, m). if r < 0 then Ret (r, m) else journal_save_cursor e m))"
    by (rule all_ret_obind [OF process_loop_frame [OF assms(3)]])
  then show ?thesis using assms(3) by (simp add: journal_process_input_def)
qed

lemma journal_handler_wf:
  assumes "close_ok e" "daemon_wf m" "m_journal m"
  shows "all_ret (\<lambda>(r, m'). daemon_wf m') (journal_event_handler fuel e (m_journal_watch_fd m) revents m)"
proof -
  define m1 where "m1 = m\<lparr>world := Journal Journal_process # world m\<rparr>"
  have m1: "daemon_wf m1" "m_journal m1" using assms by (simp_all add: m1_def)
  have s: "m_sys e (Journal Journal_process) m = (ans e (world m) (Journal Journal_process), m1)"
    by (simp add: m_sys_def m1_def)
  obtain m2 where d: "manager_disconnect e m1 = Ret ((), m2)" "daemon_wf m2"
    using disconnect_daemon_wf [OF assms(1) m1(1)] by blast
  show ?thesis
    using assms(2,3) m1(1) d process_input_wf [OF assms(1) m1, of fuel]
    by (simp add: journal_event_handler_def s)
qed

lemma signal_handler_wf:
  assumes "close_ok e" "daemon_wf m"
  shows "all_ret (\<lambda>(r, m'). daemon_wf m') (manager_signal_event_handler e m)"
proof -
  obtain m1 where d: "manager_disconnect e m = Ret ((), m1)" "daemon_wf m1"
    using disconnect_daemon_wf [OF assms] by blast
  then show ?thesis by (simp add: manager_signal_event_handler_def m_call_def)
qed

lemma handle_event_wf:
  assumes "close_ok e" "daemon_wf m" "event_enabled ev m"
  shows "all_ret (\<lambda>(r, m'). daemon_wf m') (handle_event fuel e ev m)"
proof (cases ev)
  case (Journal_ready revents)
  then have "m_journal m" using assms(2,3) by (simp add: event_enabled_def daemon_wf_def manager_wf_def)
  then show ?thesis using Journal_ready journal_handler_wf [OF assms(1,2)] by (simp add: handle_event_def)
next
  case (Resolved ret ai)
  then show ?thesis using assms resolve_handler_wf by (simp add: handle_event_def event_enabled_def)
qed (use assms in \<open>simp_all add: handle_event_def signal_handler_wf network_handler_wf connect_daemon_wf manager_retry_connect_def\<close>)

section \<open>A new manager\<close>

lemma default_address: "socket_address_parse ns ''239.0.0.1:6000'' = (0, inet_address 0xEF000001 6000)"
proof -
  have d: "dotted_quad 239 0 0 (Suc 0) = ''239.0.0.1''" "dec_of_nat 6000 = ''6000''"
    by (simp_all add: dotted_quad_def dec_of_nat.simps digit_chars)
  show ?thesis using socket_address_parse_pretty4 [of 6000 ns "0xEF000001" True]
    by (simp add: sockaddr_pretty_def inet_address_def zero_sockaddr_def stream_address_def SIZEOF_SOCKADDR_IN_def port_suffix_def d)
qed

definition sigmask_ok :: "env \<Rightarrow> bool" where
  \<comment> \<open>\<open>sigprocmask\<close> fails only for a wrong operation or a wrong pointer\<close>
  "sigmask_ok e \<longleftrightarrow> (\<forall>w. 0 \<le> ans e w (Other Sigprocmask))"

lemma manager_new_fail_eq:
  assumes "close_ok e" "monitor_ok m"
  shows "\<exists>w. manager_new_fail e r m = Ret (r, None, w)"
proof -
  obtain w where d: "manager_disconnect e m = Ret ((), (manager_down m)\<lparr>world := w\<rparr>)"
    using manager_disconnect_ok [OF assms(1)] by blast
  define m1 where "m1 = (manager_down m)\<lparr>world := w\<rparr>"
  define m2 where "m2 = unref_source (m_network_event_source (unref_source (m_resolve m1) (Event Resolve_unref) m1))
    (Event Event_source_unref) (unref_source (m_resolve m1) (Event Resolve_unref) m1)"
  have "m_network_monitor m2 = m_network_monitor m"
    by (simp add: m2_def m1_def unref_source_def m_call_def manager_down_def)
  then obtain w' where u: "sd_network_monitor_unref e (m_network_monitor m2) (world m2) = Ret ((), w')"
    using assms(2) by (auto simp: sd_network_monitor_unref_def monitor_ok_def close_nointr_def sys_def split: option.splits)
  have "\<exists>v. manager_free e m = Ret ((), v)"
    using d u unfolding manager_free_def m1_def [symmetric] by (simp add: m1_def [symmetric] m2_def [symmetric] m_io_def Let_def)
  then show ?thesis by (auto simp: manager_new_fail_def)
qed

definition new_manager :: "string \<Rightarrow> string option \<Rightarrow> Manager \<Rightarrow> bool" where
  "new_manager state_file cursor m \<longleftrightarrow>
     daemon_wf m \<and> disconnected m \<and> monitor_ok m \<and> m_event m \<and> m_network_event_source m \<and> \<not> m_event_retry m \<and> \<not> m_resolving m \<and>
     m_dtls m = None \<and> m_tls m = None \<and>
     ratelimit_configured (m_ratelimit m) \<and> m_state_file m = Some state_file \<and> m_last_cursor m = cursor \<and>
     m_address m = inet_address 0xEF000001 6000 \<and> m_protocol m = SYSLOG_TRANSMISSION_PROTOCOL_UDP \<and>
     m_log_format m = SYSLOG_TRANSMISSION_LOG_FORMAT_RFC_5424"

lemma new_manager_initial:
  "0 \<le> fd \<Longrightarrow> new_manager state_file cursor ((manager_initial ns state_file cursor w0)\<lparr>m_event := True, m_resolve := True,
     m_network_monitor := Some fd, m_network_event_source := True, world := w\<rparr>)"
  by (simp add: new_manager_def manager_initial_def default_address daemon_wf_def manager_wf_def disconnected_def
      ssl_opt_wf_def ratelimit_configured_def monitor_ok_def)

lemma monitor_listen_returns:
  assumes "close_ok e" "m_network_monitor m = None"
  shows "\<exists>r m'. manager_network_monitor_listen e m = Ret (r, m') \<and> monitor_ok m' \<and>
    (r < 0 \<or> r = 0 \<and> (\<exists>fd w. 0 \<le> fd \<and> m' = m\<lparr>m_network_monitor := Some fd, m_network_event_source := True, world := w\<rparr>))"
proof -
  obtain r w where n: "sd_network_monitor_new e None (world m) = Ret (r, w)" "\<forall>fd. r = Inr fd \<longrightarrow> 0 \<le> fd" "\<forall>k. r = Inl k \<longrightarrow> k < 0"
    using monitor_new_returns [OF assms(1)] by blast
  show ?thesis
  proof (cases r)
    case (Inl k)
    then show ?thesis
      using n assms(2) by (simp add: manager_network_monitor_listen_def m_io_def monitor_ok_def)
  next
    case (Inr fd)
    let ?c = "Event (Event_add_io fd POLLIN)"
    have "manager_network_monitor_listen e m =
        (if ans e w ?c < 0 then Ret (ans e w ?c, m\<lparr>m_network_monitor := Some fd, world := ?c # w\<rparr>)
         else Ret (0, m\<lparr>m_network_monitor := Some fd, m_network_event_source := True, world := ?c # w\<rparr>))"
      using n Inr by (simp add: manager_network_monitor_listen_def m_io_def sd_network_monitor_get_fd_def
          sd_network_monitor_get_events_def m_sys_def Let_def)
    then show ?thesis using n Inr by (auto simp: monitor_ok_def)
  qed
qed

definition new_post :: "string \<Rightarrow> string option \<Rightarrow> int \<times> Manager option \<times> world \<Rightarrow> bool" where
  "new_post state_file cursor = (\<lambda>(r, mo, w').
     (case mo of None \<Rightarrow> r < 0 | Some m \<Rightarrow> r = 0 \<and> w' = world m \<and> new_manager state_file cursor m))"

lemma new_post_fail:
  "close_ok e \<Longrightarrow> r < 0 \<Longrightarrow> monitor_ok m \<Longrightarrow> gives (new_post state_file cursor) (manager_new_fail e r m)"
  using manager_new_fail_eq [of e m r] by (auto simp: new_post_def)

lemma manager_new_monitored:
  fixes w0 w ns state_file cursor
  assumes "close_ok e"
  defines m: "m \<equiv> (manager_initial ns state_file cursor w0)\<lparr>m_event := True, m_resolve := True, world := w\<rparr>"
  shows "gives (new_post state_file cursor)
    (obind (manager_network_monitor_listen e m) (\<lambda>(r, m). if r < 0 then manager_new_fail e r m else Ret (0, Some m, world m)))"
proof -
  have "m_network_monitor m = None" by (simp add: m manager_initial_def)
  then obtain r m' where l: "manager_network_monitor_listen e m = Ret (r, m')" "monitor_ok m'"
      "r < 0 \<or> r = 0 \<and> (\<exists>fd w. 0 \<le> fd \<and> m' = m\<lparr>m_network_monitor := Some fd, m_network_event_source := True, world := w\<rparr>)"
    using monitor_listen_returns [OF assms(1)] by blast
  show ?thesis
  proof (cases "r < 0")
    case True
    then show ?thesis using new_post_fail [OF assms(1) True l(2)] by (simp add: l(1))
  next
    case False
    then obtain fd w' where "r = 0" "0 \<le> fd" "m' = m\<lparr>m_network_monitor := Some fd, m_network_event_source := True, world := w'\<rparr>"
      using l(3) by blast
    then have "new_manager state_file cursor m'" using new_manager_initial [where fd = fd and ns = ns and w = w'] by (simp add: m)
    then show ?thesis using \<open>r = 0\<close> by (simp add: l(1) new_post_def)
  qed
qed

lemma manager_new_ready:
  assumes "close_ok e" "sigmask_ok e"
  shows "gives (new_post state_file cursor) (manager_new e state_file cursor w)"
proof -
  have mask: "0 \<le> ans e w (Other Sigprocmask)" for w using assms(2) by (simp add: sigmask_ok_def)
  have fail: "gives (new_post state_file cursor) (manager_new_fail e r m)" if "r < 0" "m_network_monitor m = None" for r m
    using new_post_fail [OF assms(1) that(1)] that(2) by (simp add: monitor_ok_def)
  have none: "m_network_monitor (manager_initial ns state_file cursor v) = None" for ns v by (simp add: manager_initial_def)
  show ?thesis
    using mask fail none manager_new_monitored [OF assms(1)]
    by (simp add: manager_new_def default_address m_sys_def m_call_def Let_def)
qed

section \<open>Handlers are silent\<close>

lemma quiet_resolve_handler: "quiet m (manager_resolve_handler fuel e ret ai m)"
proof -
  have u: "silent (world m) (world (unref_source b (Event Resolve_query_unref) m))" for b by (simp add: silent_unref)
  have q: "world m1 = world (unref_source (m_resolve_query m) (Event Resolve_query_unref) m) \<Longrightarrow>
      quiet m (manager_connect fuel e m1)" for m1
    using quiet_after [OF _ quiet_connect] u by metis
  show ?thesis
    by (simp add: manager_resolve_handler_def Let_def c_assert_def q) (simp add: quiet_def)
qed

lemma quiet_network_handler: "quiet m (manager_network_event_handler fuel e m)"
proof -
  obtain r mf where f: "m_pure (sd_network_monitor_flush e (m_network_monitor m)) m = (r, mf)" by fastforce
  let ?m = "m_call (File (Open_read NETIF_STATE)) mf"
  have "silent (world m) (snd (sd_network_monitor_flush e (m_network_monitor m) (world m)))"
    unfolding silent_def
    by (rule grows_mono [OF flush_grows]) (auto simp: monitor_call_def split: call.splits net_call.splits file_call.splits)
  then have s: "silent (world m) (world ?m)" using f by (auto simp: silent_Cons m_pure_def split_beta)
  have d: "quiet ?m (obind (manager_disconnect e ?m) (\<lambda>(_, m). Ret (0 :: int, m)))"
    by (intro quiet_obind quiet_disconnect) (simp add: quiet_Ret)
  have c: "quiet ?m (obind (manager_connect fuel e ?m) (\<lambda>(r, m). if r < 0 then Ret (r, m) else Ret (0, m)))"
    by (intro quiet_obind quiet_connect) (simp add: quiet_Ret)
  show ?thesis
    unfolding manager_network_event_handler_def Let_def f prod.case
    using quiet_after [OF s d] quiet_after [OF s c] s by (simp add: quiet_Ret)
qed

lemma quiet_handle_event: "quiet m (handle_event fuel e ev m)"
proof (cases ev)
  case Signal
  have "quiet m (manager_signal_event_handler e m)"
    unfolding manager_signal_event_handler_def
    by (intro quiet_obind quiet_disconnect) (simp add: quiet_Ret silent_Cons)
  then show ?thesis using Signal by (simp add: handle_event_def)
qed (simp_all add: handle_event_def manager_retry_connect_def quiet_connect quiet_resolve_handler
    quiet_network_handler quiet_journal_event_handler)

section \<open>Runs\<close>

text \<open>The environment of a run closes descriptors the way Linux does; the invariant then holds
  along every run, no handler aborts, and no handler sends a message.\<close>

interpretation daemon: event_system event_enabled "handle_event fuel e" "\<lambda>m. close_ok e \<and> daemon_wf m" for fuel e
proof (unfold_locales, goal_cases)
  case (1 m ev)
  then have "all_ret (\<lambda>(r, m'). daemon_wf m') (handle_event fuel e ev m)" using handle_event_wf by blast
  with 1 show ?case by (auto intro: all_ret_mono)
qed

interpretation daemon_world: monotone_system event_enabled "handle_event fuel e" "\<lambda>m. close_ok e \<and> daemon_wf m"
  "\<lambda>m m'. silent (world m) (world m')" for fuel e
proof (unfold_locales, goal_cases)
  case 1
  then show ?case by simp
next
  case (2 m m' m'')
  then show ?case using silent_trans by blast
next
  case (3 m ev r m')
  then show ?case using quiet_handle_event by (auto simp: quiet_def)
qed

end
