(* ===== verification/Conf.thy ===== *)
theory Conf
  imports Conf_Parser Conf_Files Manager
begin

text \<open>
  \<open>src/netlog/netlog-conf.c\<close> and the table \<open>src/netlog/netlog-gperf.gperf\<close>: the settings of the
  daemon.  Warnings about odd combinations of settings are messages only and are left out.
\<close>

unbundle bit_operations_syntax

section \<open>Parsers of the daemon's settings\<close>

definition config_parse_netlog_remote_address :: "env \<Rightarrow> Manager callback" where
  "config_parse_netlog_remote_address e a m =
     (let (r, addr) = socket_address_parse (names e) (as_rvalue a);
          m = m\<lparr>m_address := addr\<rparr>
      in if r < 0 then
           (case strchr (as_rvalue a) CHR '':'' of
              Some c \<Rightarrow>
                (case safe_atou (tl c) of
                   Inl r \<Rightarrow> Ret (r, m)
                 | Inr u \<Rightarrow>
                     if u = 0 \<or> 0xFFFF < u then Ret (- EINVAL, m)
                     else let name = take (length (as_rvalue a) - length c) (as_rvalue a);
                              m = m_call (Other Res_init) (m\<lparr>m_port := u, m_server_name := Some name\<rparr>);
                              (r, m) = m_sys e (Event (Resolve_getaddrinfo name
                                 (if socket_ipv6_is_supported (names e) then AF_UNSPEC else AF_INET))) m
                          in if r < 0 then Ret (log_full_errno r, m)
                             else Ret (0, m\<lparr>m_resolve_query := True, m_resolving := True\<rparr>))
            | None \<Rightarrow> Ret (0, m))
         else Ret (0, m))"

definition config_parse_protocol :: "Manager callback" where
  "config_parse_protocol a m =
     (case protocol_from_string (Some (as_rvalue a)) of
        None \<Rightarrow> Ret (0, m)
      | Some p \<Rightarrow> Ret (0, m\<lparr>m_protocol := p\<rparr>))"

definition config_parse_log_format :: "Manager callback" where
  "config_parse_log_format a m =
     (case log_format_from_string (Some (as_rvalue a)) of
        None \<Rightarrow> Ret (0, m)
      | Some f \<Rightarrow> Ret (0, m\<lparr>m_log_format := f\<rparr>))"

definition config_parse_tls_certificate_auth_mode :: "Manager callback" where
  "config_parse_tls_certificate_auth_mode a m =
     (case certificate_auth_mode_from_string (Some (as_rvalue a)) of
        None \<Rightarrow> Ret (0, m)
      | Some f \<Rightarrow> Ret (0, m\<lparr>m_auth_mode := f\<rparr>))"

abbreviation (input) SD_JOURNAL_ALL_NAMESPACES :: int where "SD_JOURNAL_ALL_NAMESPACES \<equiv> 32"
abbreviation (input) SD_JOURNAL_INCLUDE_DEFAULT_NAMESPACE :: int where "SD_JOURNAL_INCLUDE_DEFAULT_NAMESPACE \<equiv> 64"

definition config_parse_namespace :: "Manager callback" where
  "config_parse_namespace a m =
     (if as_rvalue a = ''*'' then Ret (0, m\<lparr>m_namespace_flags := SD_JOURNAL_ALL_NAMESPACES\<rparr>)
      else if startswith (as_rvalue a) ''+'' \<noteq> None
      then Ret (0, m\<lparr>m_namespace_flags := SD_JOURNAL_INCLUDE_DEFAULT_NAMESPACE, m_namespace := Some (as_rvalue a)\<rparr>)
      else Ret (0, m\<lparr>m_namespace := Some (as_rvalue a)\<rparr>))"

definition add_bit :: "(string option \<Rightarrow> int) \<Rightarrow> string \<Rightarrow> 'a::len word \<Rightarrow> 'a word" where
  \<comment> \<open>a name that is in no table is ignored\<close>
  "add_bit from_string word v =
     (let r = from_string (Some word) in if r < 0 then v else v OR push_bit (nat r) 1)"

definition config_parse_syslog_facility :: "Manager callback" where
  "config_parse_syslog_facility a m =
     (case extract_words (EXTRACT_QUOTES OR EXTRACT_RELAX) (Some (as_rvalue a)) of
        Inl r \<Rightarrow> Ret (0, m)
      | Inr words \<Rightarrow> Ret (0, m\<lparr>m_excluded_syslog_facilities := fold (add_bit syslog_facility_from_string) words 0\<rparr>))"

definition config_parse_syslog_level :: "Manager callback" where
  "config_parse_syslog_level a m =
     (case extract_words (EXTRACT_QUOTES OR EXTRACT_RELAX) (Some (as_rvalue a)) of
        Inl r \<Rightarrow> Ret (0, m)
      | Inr words \<Rightarrow> Ret (0, m\<lparr>m_excluded_syslog_levels := fold (add_bit syslog_level_from_string) words 0\<rparr>))"

section \<open>The table\<close>

definition netlog_gperf_table :: "env \<Rightarrow> float_ops \<Rightarrow> (string \<times> Manager callback) list" where
  "netlog_gperf_table e ops =
     [(''Network.Address'', config_parse_netlog_remote_address e),
      (''Network.Protocol'', config_parse_protocol),
      (''Network.LogFormat'', config_parse_log_format),
      (''Network.Directory'', config_parse_string (\<lambda>v m. m\<lparr>m_dir := v\<rparr>)),
      (''Network.Namespace'', config_parse_namespace),
      (''Network.StructuredData'', config_parse_string (\<lambda>v m. m\<lparr>m_structured_data := v\<rparr>)),
      (''Network.UseSysLogStructuredData'', config_parse_bool 0 (\<lambda>v m. m\<lparr>m_syslog_structured_data := v\<rparr>)),
      (''Network.UseSysLogMsgId'', config_parse_bool 0 (\<lambda>v m. m\<lparr>m_syslog_msgid := v\<rparr>)),
      (''Network.ConnectionRetrySec'', config_parse_sec (\<lambda>v m. m\<lparr>m_connection_retry_usec := v\<rparr>)),
      (''Network.TLSCertificateAuthMode'', config_parse_tls_certificate_auth_mode),
      (''Network.TLSServerCertificate'', config_parse_string (\<lambda>v m. m\<lparr>m_server_cert := v\<rparr>)),
      (''Network.KeepAlive'', config_parse_bool 0 (\<lambda>v m. m\<lparr>m_keep_alive := v\<rparr>)),
      (''Network.KeepAliveTimeSec'', config_parse_sec (\<lambda>v m. m\<lparr>m_keep_alive_time := v\<rparr>)),
      (''Network.KeepAliveIntervalSec'', config_parse_sec (\<lambda>v m. m\<lparr>m_keep_alive_interval := v\<rparr>)),
      (''Network.KeepAliveProbes'', config_parse_unsigned (\<lambda>v m. m\<lparr>m_keep_alive_cnt := v\<rparr>)),
      (''Network.NoDelay'', config_parse_bool 0 (\<lambda>v m. m\<lparr>m_no_delay := v\<rparr>)),
      (''Network.SendBuffer'', config_parse_iec_size ops (\<lambda>v m. m\<lparr>m_send_buffer := v\<rparr>)),
      (''Network.ExcludeSyslogFacility'', config_parse_syslog_facility),
      (''Network.ExcludeSyslogLevel'', config_parse_syslog_level)]"

definition netlog_gperf_lookup :: "env \<Rightarrow> float_ops \<Rightarrow> string \<Rightarrow> Manager callback option option" where
  "netlog_gperf_lookup e ops key = map_option Some (map_of (netlog_gperf_table e ops) key)"

section \<open>The configuration files\<close>

definition CONF_PATHS_NULSTR :: "string \<Rightarrow> string" where
  "CONF_PATHS_NULSTR n =
     ''/etc/'' @ n @ [CHR 0x00] @ ''/run/'' @ n @ [CHR 0x00] @ ''/usr/local/lib/'' @ n @ [CHR 0x00] @ ''/usr/lib/'' @ n @ [CHR 0x00]"

definition netlog_sections :: string where
  "netlog_sections = ''Network'' @ [CHR 0x00]"

definition conf_fopen :: "conf_fs \<Rightarrow> Manager conf_open" where
  "conf_fopen fs filename m = (fs_open fs filename, m)"

definition netlog_lookup :: "env \<Rightarrow> float_ops \<Rightarrow> Manager config_lookup" where
  "netlog_lookup e ops = config_item_perf_lookup (netlog_gperf_lookup e ops)"

definition manager_parse_config_file :: "env \<Rightarrow> conf_fs \<Rightarrow> float_ops \<Rightarrow> string \<Rightarrow> Manager \<Rightarrow> (int \<times> Manager) outcome" where
  \<comment> \<open>\<open>PKGSYSCONFDIR\<close> is set when the program is built\<close>
  "manager_parse_config_file e fs ops pkgsysconfdir m =
     obind (config_parse_many
         (\<lambda>m. (conf_files_list_nulstr fs ''.conf'' None (CONF_PATHS_NULSTR ''systemd/netlogd.conf.d''), m))
         (conf_fopen fs) (Some (pkgsysconfdir @ ''/netlogd.conf'')) (Some netlog_sections) (netlog_lookup e ops) m)
       (\<lambda>(r, m).
          if r < 0 then Ret (r, m)
          else Ret (0, if m_connection_retry_usec m < 1 * USEC_PER_SEC
                       then m\<lparr>m_connection_retry_usec := DEFAULT_CONNECTION_RETRY_USEC\<rparr> else m))"

section \<open>What the settings do\<close>

lemma bit_add_bits:
  fixes v :: "'a::len word"
  shows "bit (fold (add_bit from_string) ws v) i \<longleftrightarrow> bit v i \<or> i < LENGTH('a) \<and> (\<exists>w\<in>set ws. from_string (Some w) = int i)"
proof (induction ws arbitrary: v)
  case (Cons w ws)
  have "bit (add_bit from_string w v) i \<longleftrightarrow> bit v i \<or> i < LENGTH('a) \<and> from_string (Some w) = int i"
    by (auto simp: add_bit_def Let_def bit_or_iff bit_push_bit_iff bit_1_iff bit_exp_iff)
  then show ?case by (auto simp: Cons)
qed simp

lemma facility_setting:
  assumes "\<forall>w\<in>set ws. plain_word w" "ws \<noteq> []" "as_rvalue a = join_words ws"
  shows "config_parse_syslog_facility a m =
    Ret (0, m\<lparr>m_excluded_syslog_facilities := fold (add_bit syslog_facility_from_string) ws 0\<rparr>)"
  using extract_words_join [OF _ assms(2,1), of "EXTRACT_QUOTES OR EXTRACT_RELAX"] assms(3)
  by (simp add: config_parse_syslog_facility_def extract_flag_defs flag_def)

section \<open>Configuring keeps the manager disconnected\<close>

text \<open>
  The manager between \<open>manager_new\<close> and the event loop: nothing is open, and a pending name
  query has a name.
\<close>

definition booting :: "Manager \<Rightarrow> bool" where
  "booting m \<longleftrightarrow>
     \<not> m_connected m \<and> m_socket m = -1 \<and> \<not> m_journal m \<and> \<not> m_event_journal_input m \<and> m_dtls m = None \<and> m_tls m = None \<and>
     m_event m \<and> m_network_event_source m \<and> \<not> m_event_retry m \<and> ratelimit_configured (m_ratelimit m) \<and> m_state_file m \<noteq> None \<and>
     (m_resolve_query m \<longrightarrow> m_server_name m \<noteq> None \<and> m_resolving m)"

lemma booting_update [simp]:
  "booting (m\<lparr>m_address := a\<rparr>) = booting m" "booting (m\<lparr>m_port := p\<rparr>) = booting m" "booting (m\<lparr>world := w\<rparr>) = booting m"
  "booting (m\<lparr>m_protocol := pr\<rparr>) = booting m" "booting (m\<lparr>m_log_format := lf\<rparr>) = booting m" "booting (m\<lparr>m_auth_mode := am\<rparr>) = booting m"
  "booting (m\<lparr>m_dir := s\<rparr>) = booting m" "booting (m\<lparr>m_namespace := s\<rparr>) = booting m" "booting (m\<lparr>m_namespace_flags := i\<rparr>) = booting m"
  "booting (m\<lparr>m_structured_data := s\<rparr>) = booting m" "booting (m\<lparr>m_syslog_structured_data := b\<rparr>) = booting m"
  "booting (m\<lparr>m_syslog_msgid := b\<rparr>) = booting m" "booting (m\<lparr>m_connection_retry_usec := t\<rparr>) = booting m"
  "booting (m\<lparr>m_server_cert := s\<rparr>) = booting m" "booting (m\<lparr>m_keep_alive := b\<rparr>) = booting m"
  "booting (m\<lparr>m_keep_alive_time := t\<rparr>) = booting m" "booting (m\<lparr>m_keep_alive_interval := t\<rparr>) = booting m"
  "booting (m\<lparr>m_keep_alive_cnt := c\<rparr>) = booting m" "booting (m\<lparr>m_no_delay := b\<rparr>) = booting m"
  "booting (m\<lparr>m_send_buffer := sz\<rparr>) = booting m" "booting (m\<lparr>m_excluded_syslog_facilities := fa\<rparr>) = booting m"
  "booting (m\<lparr>m_excluded_syslog_levels := le\<rparr>) = booting m"
  by (simp_all add: booting_def)

lemma booting_server_name: "booting m \<Longrightarrow> booting (m\<lparr>m_server_name := Some s\<rparr>)"
  "booting m \<Longrightarrow> m_server_name m \<noteq> None \<Longrightarrow> booting (m\<lparr>m_resolve_query := True, m_resolving := True\<rparr>)"
  by (simp_all add: booting_def)

lemma value_parsers_keep:
  assumes "P u" "\<And>v. P (upd v u)"
  shows "gives (\<lambda>(r, u'). P u') (config_parse_string upd a u)"
  using assms by (simp add: config_parse_string_def)

lemma value_parsers_keep':
  "P u \<Longrightarrow> (\<And>v. P (upd v u)) \<Longrightarrow> gives (\<lambda>(r, u'). P u') (config_parse_bool l upd a u)"
  "P u \<Longrightarrow> (\<And>w. P (upd64 w u)) \<Longrightarrow> gives (\<lambda>(r, u'). P u') (config_parse_iec_size ops upd64 a u)"
  "P u \<Longrightarrow> (\<And>w. P (upd64 w u)) \<Longrightarrow> gives (\<lambda>(r, u'). P u') (config_parse_sec upd64 a u)"
  "P u \<Longrightarrow> (\<And>w. P (upd32 w u)) \<Longrightarrow> gives (\<lambda>(r, u'). P u') (config_parse_unsigned upd32 a u)"
  by (simp_all add: config_parse_bool_def config_parse_iec_size_def parse_size_def config_parse_sec_def
      config_parse_unsigned_def config_parse_ptr_def Let_def split: sum.splits)

lemma remote_address_booting:
  assumes "booting m"
  shows "gives (\<lambda>(r, m'). booting m') (config_parse_netlog_remote_address e a m)"
proof -
  have q: "booting (m\<lparr>m_address := ad, m_port := p, m_server_name := Some s, world := w, m_resolve_query := True, m_resolving := True\<rparr>)"
    "booting (m\<lparr>m_address := ad, m_port := p, m_server_name := Some s, world := w\<rparr>)" for ad p s w
    using assms by (simp_all add: booting_def)
  show ?thesis
    using assms q by (simp add: config_parse_netlog_remote_address_def Let_def m_call_def m_sys_def split: prod.splits option.splits sum.splits)
qed

lemma netlog_callback_booting:
  assumes "netlog_lookup e ops s k = Some (Some func)" "booting m"
  shows "gives (\<lambda>(r, m'). booting m') (func a m)"
proof -
  have "func \<in> snd ` set (netlog_gperf_table e ops)"
    using assms(1) by (auto simp: netlog_lookup_def config_item_perf_lookup_def netlog_gperf_lookup_def
        split: option.splits dest: map_of_SomeD intro: rev_image_eqI)
  then show ?thesis
    using assms(2) remote_address_booting [OF assms(2)]
    by (auto simp: netlog_gperf_table_def config_parse_protocol_def config_parse_log_format_def config_parse_tls_certificate_auth_mode_def
        config_parse_namespace_def config_parse_syslog_facility_def config_parse_syslog_level_def
        value_parsers_keep value_parsers_keep' split: option.splits sum.splits)
qed

definition conf_fs_small :: "conf_fs \<Rightarrow> bool" where
  "conf_fs_small fs \<longleftrightarrow> (\<forall>fn bytes err. fs_open fs fn = Inr (bytes, err) \<longrightarrow> length bytes < 2 ^ 32)"

lemma conf_fopen_small: "conf_fs_small fs \<Longrightarrow> files_small (conf_fopen fs)"
  by (fastforce simp: files_small_def conf_fopen_def conf_fs_small_def)

interpretation netlog_conf: config_invariant "netlog_lookup e ops" "conf_fopen fs" booting for e ops fs
  by unfold_locales (auto simp: netlog_callback_booting conf_fopen_def)

lemma manager_parse_config_file_booting:
  assumes "conf_fs_small fs" "booting m"
  shows "gives (\<lambda>(r, m'). booting m' \<and> (r = 0 \<longrightarrow> USEC_PER_SEC \<le> m_connection_retry_usec m')) (manager_parse_config_file e fs ops dir m)"
  unfolding manager_parse_config_file_def
  by (rule gives_obind [OF netlog_conf.parse_many_keeps [OF conf_fopen_small [OF assms(1)] assms(2)]])
    (auto simp: DEFAULT_CONNECTION_RETRY_USEC_def not_less)

section \<open>The ranges of the settings\<close>

text \<open>
  Fields that are wider than what they stand for: a port has 16 bits, and there are 24 facilities.
\<close>

definition settings_typed :: "Manager \<Rightarrow> bool" where
  "settings_typed m \<longleftrightarrow> m_port m \<le> 0xFFFF \<and> (\<forall>i. bit (m_excluded_syslog_facilities m) i \<longrightarrow> i < 24)"

lemma settings_typed_update [simp]:
  "settings_typed (m\<lparr>m_address := a\<rparr>) = settings_typed m" "settings_typed (m\<lparr>m_protocol := pr\<rparr>) = settings_typed m"
  "settings_typed (m\<lparr>m_log_format := lf\<rparr>) = settings_typed m" "settings_typed (m\<lparr>m_auth_mode := am\<rparr>) = settings_typed m"
  "settings_typed (m\<lparr>m_dir := s\<rparr>) = settings_typed m" "settings_typed (m\<lparr>m_namespace := s\<rparr>) = settings_typed m"
  "settings_typed (m\<lparr>m_namespace_flags := i\<rparr>) = settings_typed m" "settings_typed (m\<lparr>m_structured_data := s\<rparr>) = settings_typed m"
  "settings_typed (m\<lparr>m_syslog_structured_data := b\<rparr>) = settings_typed m" "settings_typed (m\<lparr>m_syslog_msgid := b\<rparr>) = settings_typed m"
  "settings_typed (m\<lparr>m_connection_retry_usec := t\<rparr>) = settings_typed m" "settings_typed (m\<lparr>m_server_cert := s\<rparr>) = settings_typed m"
  "settings_typed (m\<lparr>m_keep_alive := b\<rparr>) = settings_typed m" "settings_typed (m\<lparr>m_keep_alive_time := t\<rparr>) = settings_typed m"
  "settings_typed (m\<lparr>m_keep_alive_interval := t\<rparr>) = settings_typed m" "settings_typed (m\<lparr>m_keep_alive_cnt := c\<rparr>) = settings_typed m"
  "settings_typed (m\<lparr>m_no_delay := b\<rparr>) = settings_typed m" "settings_typed (m\<lparr>m_send_buffer := sz\<rparr>) = settings_typed m"
  "settings_typed (m\<lparr>m_excluded_syslog_levels := le\<rparr>) = settings_typed m"
  by (simp_all add: settings_typed_def)

lemma remote_address_typed:
  assumes "settings_typed m"
  shows "gives (\<lambda>(r, m'). settings_typed m') (config_parse_netlog_remote_address e a m)"
proof -
  have q: "settings_typed (m\<lparr>m_address := ad, m_port := p, m_server_name := sn, world := w, m_resolve_query := True, m_resolving := True\<rparr>)"
    "settings_typed (m\<lparr>m_address := ad, m_port := p, m_server_name := sn, world := w\<rparr>)" if "\<not> 0xFFFF < p" for ad p sn w
    using assms that by (simp_all add: settings_typed_def not_less)
  show ?thesis
    using assms q by (auto simp: config_parse_netlog_remote_address_def Let_def m_call_def m_sys_def split: prod.splits option.splits sum.splits)
qed

lemma facility_bits_typed:
  assumes "bit (fold (add_bit syslog_facility_from_string) ws (0 :: u32)) i"
  shows "i < 24"
proof -
  obtain w where "syslog_facility_from_string (Some w) = int i" using assms by (auto simp: bit_add_bits simp del: fold_simps)
  then show ?thesis using syslog_facility_from_string_range [of "Some w"] by auto
qed

lemma netlog_callback_typed:
  assumes "netlog_lookup e ops s k = Some (Some func)" "settings_typed m"
  shows "gives (\<lambda>(r, m'). settings_typed m') (func a m)"
proof -
  have "func \<in> snd ` set (netlog_gperf_table e ops)"
    using assms(1) by (auto simp: netlog_lookup_def config_item_perf_lookup_def netlog_gperf_lookup_def
        split: option.splits dest: map_of_SomeD intro: rev_image_eqI)
  moreover have "settings_typed (m\<lparr>m_excluded_syslog_facilities := fold (add_bit syslog_facility_from_string) ws 0\<rparr>)" for ws
    using assms(2) facility_bits_typed [of ws] by (simp add: settings_typed_def)
  ultimately show ?thesis
    using assms(2) remote_address_typed [OF assms(2)]
    by (auto simp: netlog_gperf_table_def config_parse_protocol_def config_parse_log_format_def config_parse_tls_certificate_auth_mode_def
        config_parse_namespace_def config_parse_syslog_facility_def config_parse_syslog_level_def
        value_parsers_keep value_parsers_keep' split: option.splits sum.splits)
qed

interpretation netlog_types: config_invariant "netlog_lookup e ops" "conf_fopen fs" settings_typed for e ops fs
  by unfold_locales (auto simp: netlog_callback_typed conf_fopen_def)

lemma manager_parse_config_file_typed:
  assumes "conf_fs_small fs" "settings_typed m"
  shows "gives (\<lambda>(r, m'). settings_typed m' \<and> (r = 0 \<longrightarrow> USEC_PER_SEC \<le> m_connection_retry_usec m')) (manager_parse_config_file e fs ops dir m)"
  unfolding manager_parse_config_file_def
  by (rule gives_obind [OF netlog_types.parse_many_keeps [OF conf_fopen_small [OF assms(1)] assms(2)]])
    (auto simp: DEFAULT_CONNECTION_RETRY_USEC_def not_less)

section \<open>A whole file\<close>

lemma words_setting_value:
  assumes "ws \<noteq> []" "\<forall>w\<in>set ws. plain_word w \<and> CHR 0x00 \<notin> set w"
  shows "setting_value (join_words ws)"
proof -
  have p: "\<forall>w\<in>set ws. plain_word w" using assms(2) by blast
  have "strstrip (join_words ws) = join_words ws"
    using join_words_hd [OF assms(1) p] join_words_last [OF assms(1) p] by (intro strstrip_id) blast
  moreover have c: "c \<notin> {CHR ''\<newline>'', CHR 0x0D, CHR 0x00, CHR 0x5C}" if "c \<in> set (join_words ws)" for c
    using that join_words_set [of ws] assms(2) by (fastforce simp: plain_word_def WHITESPACE_def)
  moreover have "\<not> line_escaped False (join_words ws)"
    using line_escaped_plain [of "join_words ws" False] c by blast
  ultimately show ?thesis unfolding setting_value_def by blast
qed

lemma config_file_settings:
  assumes "fs_open fs (dir @ ''/netlogd.conf'') = Inr (conf_text ''Network'' kvs, None)" "list_all setting_ok kvs"
    and "conf_files_list_nulstr fs ''.conf'' None (CONF_PATHS_NULSTR ''systemd/netlogd.conf.d'') = Inr []"
  shows "manager_parse_config_file e fs ops dir m =
    obind (apply_settings (netlog_lookup e ops) (dir @ ''/netlogd.conf'') (in_section ''Network'' 1) 1 kvs m) (\<lambda>(r, m').
      if r < 0 then Ret (r, m')
      else Ret (0, if m_connection_retry_usec m' < 1 * USEC_PER_SEC then m'\<lparr>m_connection_retry_usec := DEFAULT_CONNECTION_RETRY_USEC\<rparr> else m'))"
proof -
  have key: "setting_key ''Network''" by (simp add: setting_key_def ascii_isalpha_def ascii_isdigit_def char_code_def)
  have sec: "nulstr_contains (Some netlog_sections) ''Network''"
    by (simp add: nulstr_contains_def netlog_sections_def nulstr_entries.simps Let_def)
  have open_conf: "conf_fopen fs (dir @ ''/netlogd.conf'') m = (Inr (conf_text ''Network'' kvs, None), m)"
    by (simp add: conf_fopen_def assms(1))
  have len: "length ''Network'' < LINE_MAX - 3" by (simp add: LINE_MAX_def)
  have "config_parse False (conf_fopen fs) (Some netlog_sections) (netlog_lookup e ops) (dir @ ''/netlogd.conf'') m =
      apply_settings (netlog_lookup e ops) (dir @ ''/netlogd.conf'') (in_section ''Network'' 1) 1 kvs m"
    unfolding config_parse_def
    using config_parse_opened_settings [where fopen = "conf_fopen fs" and u = m and u' = m, OF open_conf assms(2) key len] sec by simp
  then show ?thesis
    by (simp add: manager_parse_config_file_def config_parse_many_def assms(3) obind_assoc split_beta)
      (rule obind_cong, auto)
qed


lemma facility_line_ok:
  assumes "ws \<noteq> []" "\<forall>w\<in>set ws. plain_word w \<and> CHR 0x00 \<notin> set w" "length (join_words ws) < 2000"
  shows "setting_ok (''ExcludeSyslogFacility'', join_words ws)"
  using words_setting_value [OF assms(1,2)] assms(3)
  by (simp add: setting_ok_def setting_key_def ascii_isalpha_def ascii_isdigit_def char_code_def setting_line_def LINE_MAX_def)

lemma facility_lookup: "netlog_lookup e ops (Some ''Network'') ''ExcludeSyslogFacility'' = Some (Some config_parse_syslog_facility)"
  by (simp add: netlog_lookup_def config_item_perf_lookup_def netlog_gperf_lookup_def netlog_gperf_table_def)

lemma facilities_configured:
  assumes "fs_open fs (dir @ ''/netlogd.conf'') = Inr (conf_text ''Network'' [(''ExcludeSyslogFacility'', join_words ws)], None)"
    and "conf_files_list_nulstr fs ''.conf'' None (CONF_PATHS_NULSTR ''systemd/netlogd.conf.d'') = Inr []"
    and "ws \<noteq> []" "\<forall>w\<in>set ws. plain_word w \<and> CHR 0x00 \<notin> set w" "length (join_words ws) < 2000"
  shows "\<exists>m'. manager_parse_config_file e fs ops dir m = Ret (0, m') \<and>
    (\<forall>f<24. (0 < fst (parse_syslog_facility m' (Some (dec_of_nat f)) d)) =
       (\<exists>w\<in>set ws. syslog_facility_from_string (Some w) = int f))"
proof -
  let ?m = "m\<lparr>m_excluded_syslog_facilities := fold (add_bit syslog_facility_from_string) ws 0\<rparr>"
  define m' where "m' = (if m_connection_retry_usec ?m < 1 * USEC_PER_SEC then ?m\<lparr>m_connection_retry_usec := DEFAULT_CONNECTION_RETRY_USEC\<rparr> else ?m)"
  have ok: "list_all setting_ok [(''ExcludeSyslogFacility'', join_words ws)]"
    using facility_line_ok [OF assms(3-5)] by simp
  have "\<forall>w\<in>set ws. plain_word w" using assms(4) by blast
  note set = facility_setting [OF this assms(3)]
  have "manager_parse_config_file e fs ops dir m = Ret (0, m')"
    unfolding config_file_settings [OF assms(1) ok assms(2)]
    by (simp add: next_assignment_def in_section_def facility_lookup set m'_def)
  moreover have "m_excluded_syslog_facilities m' = fold (add_bit syslog_facility_from_string) ws 0" by (simp add: m'_def)
  then have "bit (m_excluded_syslog_facilities m') f = (\<exists>w\<in>set ws. syslog_facility_from_string (Some w) = int f)" if "f < 24" for f
    using that by (simp add: bit_add_bits del: fold_simps)
  then have "\<forall>f<24. (0 < fst (parse_syslog_facility m' (Some (dec_of_nat f)) d)) = (\<exists>w\<in>set ws. syslog_facility_from_string (Some w) = int f)"
    using parse_syslog_facility_filter [of _ m' d] by simp
  ultimately show ?thesis by blast
qed

end
