(* ===== verification/Fs_Util.thy ===== *)
theory Fs_Util
  imports Sys Path_Util
begin

text \<open>
  \<open>src/share/mkdir.c\<close>, \<open>src/share/fs-util.c\<close> and \<open>src/share/stat-util.c\<close>: creating directories and
  files and setting their owner and mode.
\<close>

abbreviation (input) EEXIST :: int where "EEXIST \<equiv> 17"
abbreviation (input) ENOTDIR :: int where "ENOTDIR \<equiv> 20"

definition MODE_INVALID :: nat where "MODE_INVALID = 4294967295"
definition UID_INVALID :: u32 where "UID_INVALID = -1"
definition GID_INVALID :: u32 where "GID_INVALID = -1"

section \<open>Directories\<close>

definition S_ISDIR :: "int \<Rightarrow> bool" where
  "S_ISDIR mode \<longleftrightarrow> mode AND 0xF000 = 0x4000"

definition is_dir :: "env \<Rightarrow> string \<Rightarrow> bool \<Rightarrow> world \<Rightarrow> int \<times> world" where
  \<comment> \<open>\<open>val\<close> is the \<open>st_mode\<close> of the file\<close>
  "is_dir e path follow w =
     (let c = Proc (Stat path follow); (r, w') = sys e c w
      in if r < 0 then (r, w') else (if S_ISDIR (val e w c) then 1 else 0, w'))"

definition next_component :: "string \<Rightarrow> string" where
  "next_component p = dropWhile (\<lambda>c. c = CHR ''/'') (dropWhile (\<lambda>c. c \<noteq> CHR ''/'') p)"

lemma next_component_shorter: "next_component p \<noteq> [] \<Longrightarrow> length (next_component p) < length p"
proof -
  assume ne: "next_component p \<noteq> []"
  define q where "q = dropWhile (\<lambda>c. c \<noteq> CHR ''/'') p"
  have "q \<noteq> []" using ne unfolding next_component_def q_def by force
  then have "hd q = CHR ''/''" using hd_dropWhile [of "\<lambda>c. c \<noteq> CHR ''/''" p] unfolding q_def by blast
  then have "length (next_component p) < length q"
    using \<open>q \<noteq> []\<close> by (cases q) (auto simp: next_component_def q_def [symmetric] intro: le_imp_less_Suc length_dropWhile_le)
  also have "\<dots> \<le> length p" by (simp add: q_def length_dropWhile_le)
  finally show ?thesis .
qed

text \<open>
  The loop of \<open>mkdir_parents_internal\<close>: \<open>don\<close> is the part of the path before \<open>p\<close>.
\<close>

function mkdir_parents_loop :: "env \<Rightarrow> string option \<Rightarrow> nat \<Rightarrow> string \<Rightarrow> string \<Rightarrow> world \<Rightarrow> int \<times> world" where
  "mkdir_parents_loop e prefix mode don p w =
     (let comp = takeWhile (\<lambda>c. c \<noteq> CHR ''/'') p; q = next_component p; t = don @ comp;
          don' = don @ take (length p - length q) p
      in if q = [] then (0, w)
         else if (case prefix of None \<Rightarrow> False | Some pre \<Rightarrow> path_startswith pre t \<noteq> None)
         then mkdir_parents_loop e prefix mode don' q w
         else let (r, w) = sys e (Proc (Mkdir t mode)) w
              in if r < 0 \<and> r \<noteq> - EEXIST then (r, w) else mkdir_parents_loop e prefix mode don' q w)"
  by pat_completeness auto

termination mkdir_parents_loop
  by (relation "measure (\<lambda>(e, prefix, mode, don, p, w). length p)") (auto simp: next_component_shorter)

declare mkdir_parents_loop.simps [simp del]

definition mkdir_parents_internal :: "env \<Rightarrow> string option \<Rightarrow> string \<Rightarrow> nat \<Rightarrow> world \<Rightarrow> int \<times> world" where
  "mkdir_parents_internal e prefix path mode w =
     (if (case prefix of None \<Rightarrow> False | Some pre \<Rightarrow> path_startswith path pre = None) then (- ENOTDIR, w)
      else case strrchr path CHR ''/'' of
             None \<Rightarrow> (- EINVAL, w)
           | Some (dir, _) \<Rightarrow>
               if dir = [] then (0, w)
               else let (r, w) = is_dir e dir True w
                    in if 0 < r then (0, w)
                       else if r = 0 then (- ENOTDIR, w)
                       else let p = dropWhile (\<lambda>c. c = CHR ''/'') path
                            in mkdir_parents_loop e prefix mode (take (length path - length p) path) p w)"

definition mkdir_parents :: "env \<Rightarrow> string \<Rightarrow> nat \<Rightarrow> world \<Rightarrow> int \<times> world" where
  "mkdir_parents e path mode w = mkdir_parents_internal e None path mode w"

definition mkdir_p_internal :: "env \<Rightarrow> string option \<Rightarrow> string \<Rightarrow> nat \<Rightarrow> world \<Rightarrow> int \<times> world" where
  "mkdir_p_internal e prefix path mode w =
     (let (r, w) = mkdir_parents_internal e prefix path mode w
      in if r < 0 then (r, w)
         else let (r, w) = sys e (Proc (Mkdir path mode)) w
              in if r < 0 then
                   (if r \<noteq> - EEXIST then (r, w)
                    else let (d, w) = is_dir e path True w
                         in if 0 < d then (0, w) else (if d < 0 then d else r, w))
                 else (0, w))"

definition mkdir_p :: "env \<Rightarrow> string \<Rightarrow> nat \<Rightarrow> world \<Rightarrow> int \<times> world" where
  "mkdir_p e path mode w = mkdir_p_internal e None path mode w"

section \<open>Owner, mode and time of a file\<close>

definition chmod_and_chown :: "env \<Rightarrow> string \<Rightarrow> nat \<Rightarrow> u32 \<Rightarrow> u32 \<Rightarrow> world \<Rightarrow> int \<times> world" where
  "chmod_and_chown e path mode uid gid w =
     (let (r, w) = (if mode \<noteq> MODE_INVALID then sys e (Proc (Chmod path mode)) w else (0, w))
      in if r < 0 then (r, w)
         else let (r, w) = (if uid \<noteq> UID_INVALID \<or> gid \<noteq> GID_INVALID then sys e (Proc (Chown path uid gid)) w else (0, w))
              in if r < 0 then (r, w) else (0, w))"

abbreviation (input) O_CREATE_WRITE :: int where "O_CREATE_WRITE \<equiv> 524609"  \<comment> \<open>\<open>O_WRONLY|O_CREAT|O_CLOEXEC|O_NOCTTY\<close>\<close>
abbreviation (input) O_READ_WRITE :: int where "O_READ_WRITE \<equiv> 524290"  \<comment> \<open>\<open>O_RDWR|O_CLOEXEC\<close>\<close>

definition touch_opened :: "env \<Rightarrow> int \<Rightarrow> usec \<Rightarrow> u32 \<Rightarrow> u32 \<Rightarrow> nat \<Rightarrow> world \<Rightarrow> int \<times> world" where
  \<comment> \<open>the part of \<open>touch_file\<close> after the file was opened\<close>
  "touch_opened e fd stamp uid gid mode w =
     (let (r, w) = (if mode \<noteq> MODE_INVALID then sys e (Proc (Fd_chmod fd mode)) w else (0, w))
      in if r < 0 then (r, w)
         else let (r, w) = (if uid \<noteq> UID_INVALID \<or> gid \<noteq> GID_INVALID then sys e (Proc (Fd_chown fd uid gid)) w else (0, w))
              in if r < 0 then (r, w)
                 else let (r, w) = sys e (Proc (Futimens fd (if stamp \<noteq> USEC_INFINITY then Some (timespec_store stamp) else None))) w
                      in if r < 0 then (r, w) else (0, w))"

definition touch_file :: "env \<Rightarrow> string \<Rightarrow> bool \<Rightarrow> usec \<Rightarrow> u32 \<Rightarrow> u32 \<Rightarrow> nat \<Rightarrow> world \<Rightarrow> (int \<times> world) outcome" where
  "touch_file e path parents stamp uid gid mode w =
     (let w = (if parents then snd (mkdir_parents e path 493 w) else w);
          (fd, w) = sys e (Proc (Open path O_CREATE_WRITE (if mode = 0 \<or> mode = MODE_INVALID then 420 else mode))) w
      in if fd < 0 then Ret (fd, w)
         else let (r, w) = touch_opened e fd stamp uid gid mode w
              in obind (safe_close e fd w) (\<lambda>(_, w). Ret (r, w)))"

definition touch :: "env \<Rightarrow> string \<Rightarrow> world \<Rightarrow> (int \<times> world) outcome" where
  "touch e path w = touch_file e path False USEC_INFINITY UID_INVALID GID_INVALID MODE_INVALID w"

section \<open>Which directories are created\<close>

lemma next_component_suffix: "take (length p - length (next_component p)) p @ next_component p = p"
proof -
  have "p = takeWhile (\<lambda>c. c \<noteq> CHR ''/'') p @ takeWhile (\<lambda>c. c = CHR ''/'') (dropWhile (\<lambda>c. c \<noteq> CHR ''/'') p) @ next_component p"
    by (simp add: next_component_def)
  then obtain u where u: "p = u @ next_component p" by (metis append.assoc)
  then have "take (length p - length (next_component p)) p = u" by (metis append_eq_conv_conj diff_diff_cancel length_append add_diff_cancel_right')
  then show ?thesis using u by simp
qed

lemma component_before_slash:
  assumes "next_component p \<noteq> []"
  shows "\<exists>r. p = takeWhile (\<lambda>c. c \<noteq> CHR ''/'') p @ CHR ''/'' # r"
proof -
  have ne: "dropWhile (\<lambda>c. c \<noteq> CHR ''/'') p \<noteq> []" using assms unfolding next_component_def by force
  have "dropWhile (\<lambda>c. c \<noteq> CHR ''/'') p = CHR ''/'' # tl (dropWhile (\<lambda>c. c \<noteq> CHR ''/'') p)"
    using hd_dropWhile [OF ne] ne by (cases "dropWhile (\<lambda>c. c \<noteq> CHR ''/'') p") simp_all
  then show ?thesis by (metis takeWhile_dropWhile_id)
qed

lemma mkdir_parents_loop_calls:
  "\<exists>l. snd (mkdir_parents_loop e prefix mode don p w) = l @ w \<and>
     (\<forall>c\<in>set l. \<exists>t r. c = Proc (Mkdir t mode) \<and> don @ p = t @ CHR ''/'' # r)"
proof (induction "length p" arbitrary: don p w rule: less_induct)
  case less
  define comp where "comp = takeWhile (\<lambda>c. c \<noteq> CHR ''/'') p"
  define q where "q = next_component p"
  define don' where "don' = don @ take (length p - length q) p"
  have split: "don' @ q = don @ p" using next_component_suffix [of p] by (simp add: don'_def q_def)
  show ?case
  proof (cases "q = []")
    case True
    then show ?thesis by (simp add: mkdir_parents_loop.simps [of _ _ _ _ p] Let_def q_def)
  next
    case False
    then have shorter: "length q < length p" using next_component_shorter by (simp add: q_def)
    note IH = less [OF shorter, of don', unfolded split]
    obtain r where p: "p = comp @ CHR ''/'' # r" using component_before_slash False unfolding q_def comp_def by blast
    let ?c = "Proc (Mkdir (don @ comp) mode)"
    have step: "mkdir_parents_loop e prefix mode don p w =
        (if (case prefix of None \<Rightarrow> False | Some pre \<Rightarrow> path_startswith pre (don @ comp) \<noteq> None) then mkdir_parents_loop e prefix mode don' q w
         else if ans e w ?c < 0 \<and> ans e w ?c \<noteq> - EEXIST then (ans e w ?c, ?c # w)
         else mkdir_parents_loop e prefix mode don' q (?c # w))"
      using False by (subst mkdir_parents_loop.simps) (simp only: Let_def q_def comp_def don'_def sys_def prod.case if_False)
    have c: "\<exists>t r. ?c = Proc (Mkdir t mode) \<and> don @ p = t @ CHR ''/'' # r" using p by force
    obtain l where l: "snd (mkdir_parents_loop e prefix mode don' q (?c # w)) = l @ ?c # w"
        "\<forall>c\<in>set l. \<exists>t r. c = Proc (Mkdir t mode) \<and> don @ p = t @ CHR ''/'' # r"
      using IH [of "?c # w"] by blast
    then have "\<exists>l. snd (mkdir_parents_loop e prefix mode don' q (?c # w)) = l @ w \<and>
        (\<forall>c\<in>set l. \<exists>t r. c = Proc (Mkdir t mode) \<and> don @ p = t @ CHR ''/'' # r)"
      using c by (intro exI [of _ "l @ [?c]"]) simp
    moreover have "\<exists>l. ?c # w = l @ w \<and> (\<forall>c\<in>set l. \<exists>t r. c = Proc (Mkdir t mode) \<and> don @ p = t @ CHR ''/'' # r)"
      using c by (intro exI [of _ "[?c]"]) simp
    ultimately show ?thesis unfolding step using IH [of w] by simp
  qed
qed

end
