(* ===== verification/Privileges.thy ===== *)
theory Privileges
  imports Sys File_IO
begin

text \<open>
  \<open>src/share/user-util.c\<close> and \<open>src/share/capability-util.c\<close>: the user the daemon runs as, and
  giving up the privileges of root except for some capabilities.
\<close>

section \<open>Users\<close>

abbreviation (input) ESRCH :: int where "ESRCH \<equiv> 3"
abbreviation (input) ENXIO :: int where "ENXIO \<equiv> 6"

definition uid_is_valid :: "u32 \<Rightarrow> bool" where
  "uid_is_valid uid \<longleftrightarrow> uid \<noteq> 0xFFFFFFFF \<and> uid \<noteq> 0xFFFF"

definition parse_uid :: "string \<Rightarrow> u32 result" where
  "parse_uid s =
     (case safe_atou s of
        Inl r \<Rightarrow> Inl r
      | Inr uid \<Rightarrow> if \<not> uid_is_valid uid then Inl (- ENXIO) else Inr uid)"

definition get_user_creds :: "env \<Rightarrow> string \<Rightarrow> world \<Rightarrow> (u32 \<times> u32) result \<times> world" where
  \<comment> \<open>the user database: a positive answer is a missing entry, \<open>val\<close> the user and \<open>len\<close> the group of the entry\<close>
  "get_user_creds e username w =
     (if username = ''root'' \<or> username = ''0'' then (Inr (0, 0), w)
      else let c = Proc (case parse_uid username of Inr u \<Rightarrow> Getpwuid u | Inl _ \<Rightarrow> Getpwnam username);
               (r, w') = sys e c w;
               uid = word_of_int (val e w c); gid = word_of_nat (len e w c)
           in if r < 0 then (Inl r, w')
              else if 0 < r then (Inl (- ESRCH), w')
              else if \<not> uid_is_valid uid then (Inl (- EBADMSG), w')
              else if \<not> uid_is_valid gid then (Inl (- EBADMSG), w')
              else (Inr (uid, gid), w'))"

section \<open>Capabilities\<close>

abbreviation (input) PR_SET_KEEPCAPS :: int where "PR_SET_KEEPCAPS \<equiv> 8"
abbreviation (input) PR_CAPBSET_READ :: int where "PR_CAPBSET_READ \<equiv> 23"
abbreviation (input) PR_CAPBSET_DROP :: int where "PR_CAPBSET_DROP \<equiv> 24"
abbreviation (input) CAP_SETPCAP :: nat where "CAP_SETPCAP \<equiv> 8"
abbreviation (input) CAP_LAST_CAP :: nat where "CAP_LAST_CAP \<equiv> 40"
abbreviation (input) CAP_NET_BIND_SERVICE :: nat where "CAP_NET_BIND_SERVICE \<equiv> 10"
abbreviation (input) CAP_NET_BROADCAST :: nat where "CAP_NET_BROADCAST \<equiv> 11"
abbreviation (input) CAP_NET_ADMIN :: nat where "CAP_NET_ADMIN \<equiv> 12"

fun cap_probe_down :: "env \<Rightarrow> nat \<Rightarrow> world \<Rightarrow> nat \<times> world" where
  \<comment> \<open>the loop \<open>for (p--; p > 0; p--)\<close> with \<open>p\<close> already decremented\<close>
  "cap_probe_down e 0 w = (0, w)"
| "cap_probe_down e (Suc p) w =
     (let (r, w) = sys e (Proc (Prctl PR_CAPBSET_READ (int (Suc p)))) w
      in if 0 \<le> r then (Suc p, w) else cap_probe_down e p w)"

fun cap_probe_up :: "nat \<Rightarrow> env \<Rightarrow> nat \<Rightarrow> world \<Rightarrow> (nat \<times> world) outcome" where
  "cap_probe_up 0 e p w = Diverge"
| "cap_probe_up (Suc fuel) e p w =
     (let (r, w) = sys e (Proc (Prctl PR_CAPBSET_READ (int (p + 1)))) w
      in if r < 0 then Ret (p, w) else cap_probe_up fuel e (p + 1) w)"

definition cap_last_cap :: "nat \<Rightarrow> env \<Rightarrow> world \<Rightarrow> (nat \<times> world) outcome" where
  \<comment> \<open>the first call; later ones return the saved value\<close>
  "cap_last_cap fuel e w =
     (let c = File (Open_read ''/proc/sys/kernel/cap_last_cap''); (r, w') = sys e c w
      in case (case read_one_line_file (if r < 0 then Inl r else Inr (out e w c)) of
                 Inl r \<Rightarrow> Inl r
               | Inr content \<Rightarrow> safe_atollu content) of
           Inr p \<Rightarrow> Ret (unat p, w')
         | Inl _ \<Rightarrow>
             (let (r, w') = sys e (Proc (Prctl PR_CAPBSET_READ (int CAP_LAST_CAP))) w'
              in if r < 0 then Ret (cap_probe_down e (CAP_LAST_CAP - 1) w')
                 else cap_probe_up fuel e CAP_LAST_CAP w'))"

text \<open>\<open>set_flag\<close>: \<open>cap_set_flag\<close> on a \<open>cap_t\<close>.\<close>

definition set_flag :: "env \<Rightarrow> cap_flag \<Rightarrow> nat list \<Rightarrow> bool \<Rightarrow> cap_t \<Rightarrow> world \<Rightarrow> int \<times> cap_t \<times> world" where
  "set_flag e f caps v cap w =
     (let (r, w) = sys e (Proc (Cap_set_flag f caps v)) w
      in (r, if r < 0 then cap else (fst cap, snd cap @ [(f, caps, v)]), w))"

definition drop_one :: "env \<Rightarrow> bool \<Rightarrow> nat \<Rightarrow> cap_t \<Rightarrow> world \<Rightarrow> int \<times> cap_t \<times> world" where
  \<comment> \<open>one round of the loop, for a capability that is not kept\<close>
  "drop_one e right_now i cap w =
     (let (r, w) = sys e (Proc (Prctl PR_CAPBSET_DROP (int i))) w
      in if r < 0 then (r, cap, w)
         else let (r, cap, w) = set_flag e CAP_INHERITABLE [i] False cap w
              in if r < 0 then (r, cap, w)
                 else if right_now then
                   (let (r, cap, w) = set_flag e CAP_PERMITTED [i] False cap w
                    in if r < 0 then (r, cap, w)
                       else let (r, cap, w) = set_flag e CAP_EFFECTIVE [i] False cap w
                            in if r < 0 then (r, cap, w) else (0, cap, w))
                 else (0, cap, w))"

fun drop_loop :: "env \<Rightarrow> u64 \<Rightarrow> bool \<Rightarrow> nat list \<Rightarrow> cap_t \<Rightarrow> world \<Rightarrow> int \<times> cap_t \<times> world" where
  "drop_loop e keep right_now [] cap w = (0, cap, w)"
| "drop_loop e keep right_now (i # is) cap w =
     (if keep AND push_bit i 1 \<noteq> 0 then drop_loop e keep right_now is cap w
      else let (r, cap, w) = drop_one e right_now i cap w
           in if r < 0 then (r, cap, w) else drop_loop e keep right_now is cap w)"

definition raise_setpcap :: "env \<Rightarrow> world \<Rightarrow> int \<times> world" where
  \<comment> \<open>the block that gets \<open>CAP_SETPCAP\<close> back for a while\<close>
  "raise_setpcap e w =
     (let (r, w) = sys e (Proc Cap_dup) w
      in if r < 0 then (r, w)
         else let (r, cap, w) = set_flag e CAP_EFFECTIVE [CAP_SETPCAP] True (True, []) w
              in if r < 0 then (r, w)
                 else let (r, w) = sys e (Proc (Cap_set_proc cap)) w in if r < 0 then (r, w) else (0, w))"

definition caps_finish :: "env \<Rightarrow> int \<Rightarrow> cap_t \<Rightarrow> world \<Rightarrow> int \<times> world" where
  \<comment> \<open>what follows the label \<open>finish\<close>\<close>
  "caps_finish e r cap w = (let (s, w) = sys e (Proc (Cap_set_proc cap)) w in if s < 0 then (s, w) else (r, w))"

definition capability_bounding_set_drop :: "nat \<Rightarrow> env \<Rightarrow> u64 \<Rightarrow> bool \<Rightarrow> world \<Rightarrow> (int \<times> world) outcome" where
  "capability_bounding_set_drop fuel e keep right_now w =
     (let (r, w) = sys e (Proc Cap_get_proc) w
      in if r < 0 then Ret (r, w)
         else let c = Proc (Cap_get_flag CAP_SETPCAP CAP_EFFECTIVE); fv = val e w c; (r, w) = sys e c w
              in if r < 0 then Ret (r, w)
                 else let (r, w) = (if fv \<noteq> 1 then raise_setpcap e w else (0, w))
                      in if r < 0 then Ret (caps_finish e r (True, []) w)
                         else obind (cap_last_cap fuel e w) (\<lambda>(last, w).
                                let (r, cap, w) = drop_loop e keep right_now [0..<Suc last] (True, []) w
                                in Ret (caps_finish e r cap w)))"

definition u64log2 :: "u64 \<Rightarrow> nat" where
  "u64log2 n = (if 1 < n then last (filter (bit n) [0..<64]) else 0)"

definition kept_caps :: "u64 \<Rightarrow> nat list" where
  "kept_caps keep = filter (\<lambda>i. keep AND push_bit i 1 \<noteq> 0) [0..<u64log2 keep + 1]"

definition cap_bits_ok :: "u64 \<Rightarrow> bool" where
  \<comment> \<open>the two assertions of \<open>drop_privileges\<close>, after the loop has set \<open>i\<close>\<close>
  "cap_bits_ok keep \<longleftrightarrow>
     (let i = u64log2 keep + 1 in (i = 64 \<or> drop_bit i keep = 0) \<and> keep AND push_bit (i - 1) 1 \<noteq> 0)"

definition switch_user :: "env \<Rightarrow> u32 \<Rightarrow> u32 \<Rightarrow> world \<Rightarrow> int \<times> world" where
  \<comment> \<open>\<open>drop_privileges\<close> up to the call of \<open>capability_bounding_set_drop\<close>\<close>
  "switch_user e uid gid w =
     (let (r, w) = sys e (Proc (Setresgid gid)) w
      in if r < 0 then (log_full_errno r, w)
         else let (r, w) = sys e (Proc Setgroups) w
      in if r < 0 then (log_full_errno r, w)
         else let (r, w) = sys e (Proc (Prctl PR_SET_KEEPCAPS 1)) w
      in if r < 0 then (log_full_errno r, w)
         else let (r, w) = sys e (Proc (Setresuid uid)) w
      in if r < 0 then (log_full_errno r, w)
         else let (r, w) = sys e (Proc (Prctl PR_SET_KEEPCAPS 0)) w
      in if r < 0 then (log_full_errno r, w) else (0, w))"

definition grant_caps :: "env \<Rightarrow> u64 \<Rightarrow> world \<Rightarrow> (int \<times> world) outcome" where
  \<comment> \<open>the rest of \<open>drop_privileges\<close>\<close>
  "grant_caps e keep w =
     (let (r, w) = sys e (Proc Cap_init) w
      in if r < 0 then Ret (log_full_errno (- ENOMEM), w)
         else if keep = 0 then Ret (0, w)
         else c_assert (cap_bits_ok keep)
          (let (r, d, w) = set_flag e CAP_EFFECTIVE (kept_caps keep) True (False, []) w
           in if r < 0 then Ret (log_full_errno r, w)
              else let (r, d, w) = set_flag e CAP_PERMITTED (kept_caps keep) True d w
                   in if r < 0 then Ret (log_full_errno r, w)
                      else let (r, w) = sys e (Proc (Cap_set_proc d)) w
                           in if r < 0 then Ret (log_full_errno r, w) else Ret (0, w)))"

definition drop_privileges :: "nat \<Rightarrow> env \<Rightarrow> u32 \<Rightarrow> u32 \<Rightarrow> u64 \<Rightarrow> world \<Rightarrow> (int \<times> world) outcome" where
  "drop_privileges fuel e uid gid keep w =
     (let (r, w) = switch_user e uid gid w
      in if r < 0 then Ret (r, w)
         else obind (capability_bounding_set_drop fuel e keep True w) (\<lambda>(r, w).
                if r < 0 then Ret (log_full_errno r, w) else grant_caps e keep w))"

section \<open>What is left after dropping privileges\<close>

text \<open>\<open>issued e c w\<close>: the call \<open>c\<close> was made in the history \<open>w\<close>, and it succeeded.\<close>

definition issued :: "env \<Rightarrow> call \<Rightarrow> world \<Rightarrow> bool" where
  "issued e c w \<longleftrightarrow> (\<exists>l1 l2. w = l1 @ c # l2 \<and> 0 \<le> ans e l2 c)"

abbreviation (input) extends :: "world \<Rightarrow> world \<Rightarrow> bool" where
  "extends w w' \<equiv> grows (\<lambda>_. True) w w'"

lemma issued_extends: "issued e c w \<Longrightarrow> extends w w' \<Longrightarrow> issued e c w'"
  unfolding issued_def grows_def by (metis append.assoc)

lemma issued_now: "0 \<le> ans e w c \<Longrightarrow> issued e c (c # w)"
  unfolding issued_def by (metis append_Nil)

lemma extends_Cons [simp]: "extends w (c # w)"
  by (auto intro: grows_Cons)

lemma extends_Cons_trans: "extends w w' \<Longrightarrow> extends w (c # w')" "extends (c # w) w' \<Longrightarrow> extends w w'"
  using grows_trans [OF extends_Cons] by (auto intro: grows_Cons)

lemma set_flag_extends: "set_flag e f caps v cap w = (r, cap', w') \<Longrightarrow> extends w w'"
  by (auto simp: set_flag_def sys_def Let_def)

lemma set_flag_ok: "set_flag e f caps v cap w = (r, cap', w') \<Longrightarrow> 0 \<le> r \<Longrightarrow> cap' = (fst cap, snd cap @ [(f, caps, v)])"
  by (auto simp: set_flag_def sys_def Let_def)

lemma drop_one_ok:
  assumes "drop_one e right_now i cap w = (r, cap', w')"
  shows "extends w w'" "0 \<le> r \<Longrightarrow> issued e (Proc (Prctl PR_CAPBSET_DROP (int i))) w'"
proof -
  let ?c = "Proc (Prctl PR_CAPBSET_DROP (int i))"
  have x: "extends (?c # w) w'"
    using assms by (auto simp: drop_one_def sys_def Let_def set_flag_def grows_def split: if_splits)
  then show "extends w w'" by (rule extends_Cons_trans)
  assume "0 \<le> r"
  then have "0 \<le> ans e w ?c" using assms by (auto simp: drop_one_def sys_def split: if_splits)
  then show "issued e ?c w'" using issued_extends [OF issued_now x] by simp
qed

lemma drop_loop_ok:
  assumes "drop_loop e keep right_now is cap w = (r, cap', w')"
  shows "extends w w' \<and> (0 \<le> r \<longrightarrow>
    (\<forall>i\<in>set is. keep AND push_bit i 1 = 0 \<longrightarrow> issued e (Proc (Prctl PR_CAPBSET_DROP (int i))) w'))"
  using assms
proof (induction "is" arbitrary: cap w)
  case (Cons i "is")
  show ?case
  proof (cases "keep AND push_bit i 1 = 0")
    case False
    then show ?thesis using Cons by simp
  next
    case drop: True
    obtain r1 cap1 w1 where d: "drop_one e right_now i cap w = (r1, cap1, w1)" by (metis prod_cases3)
    show ?thesis
    proof (cases "r1 < 0")
      case True
      then show ?thesis using Cons.prems d drop_one_ok(1) [OF d] drop by simp
    next
      case False
      then have "drop_loop e keep right_now is cap1 w1 = (r, cap', w')" using Cons.prems d drop by simp
      note IH = Cons.IH [OF this]
      have "issued e (Proc (Prctl PR_CAPBSET_DROP (int i))) w'"
        using issued_extends [OF drop_one_ok(2) [OF d]] False IH by simp
      then show ?thesis using IH grows_trans [OF drop_one_ok(1) [OF d]] by auto
    qed
  qed
qed simp

lemma probe_down_extends: "extends w (snd (cap_probe_down e p w))"
proof (induction p arbitrary: w)
  case (Suc p)
  then show ?case using extends_Cons_trans(2) [OF Suc] by (simp add: sys_def)
qed simp

lemma probe_up_extends: "cap_probe_up fuel e p w = Ret (q, w') \<Longrightarrow> extends w w'"
proof (induction fuel arbitrary: p w)
  case (Suc fuel)
  then show ?case using extends_Cons_trans(2) by (fastforce simp: sys_def split: if_splits)
qed simp

lemma cap_last_cap_extends: "cap_last_cap fuel e w = Ret (n, w') \<Longrightarrow> extends w w'"
proof -
  assume a: "cap_last_cap fuel e w = Ret (n, w')"
  let ?f = "File (Open_read ''/proc/sys/kernel/cap_last_cap'')"
  let ?p = "Proc (Prctl PR_CAPBSET_READ (int CAP_LAST_CAP))"
  have "extends (?f # w) w' \<or> extends (?p # ?f # w) w'"
    using a probe_down_extends [of "?p # ?f # w" e "CAP_LAST_CAP - 1"] probe_up_extends [of fuel e CAP_LAST_CAP "?p # ?f # w" n w']
    by (auto simp: cap_last_cap_def sys_def Let_def split: sum.splits if_splits)
  then show ?thesis using extends_Cons_trans(2) by blast
qed

lemma raise_setpcap_extends: "raise_setpcap e w = (r, w') \<Longrightarrow> extends w w'"
  by (auto simp: raise_setpcap_def sys_def Let_def set_flag_def grows_def split: if_splits)

lemma caps_finish_ok: "caps_finish e r cap w = (s, w') \<Longrightarrow> extends w w' \<and> (0 \<le> s \<longrightarrow> s = r) \<and> (r < 0 \<longrightarrow> s < 0)"
  by (auto simp: caps_finish_def sys_def split: if_splits)

text \<open>
  Between \<open>w\<close> and \<open>w'\<close> the last capability was looked up, and every capability up to it that is not kept
  was dropped from the bounding set.
\<close>

definition caps_dropped :: "nat \<Rightarrow> env \<Rightarrow> u64 \<Rightarrow> world \<Rightarrow> world \<Rightarrow> bool" where
  "caps_dropped fuel e keep w w' \<longleftrightarrow>
     (\<exists>w1 last w2. extends w w1 \<and> cap_last_cap fuel e w1 = Ret (last, w2) \<and> extends w2 w' \<and>
       (\<forall>i\<le>last. keep AND push_bit i 1 = 0 \<longrightarrow> issued e (Proc (Prctl PR_CAPBSET_DROP (int i))) w'))"

lemma caps_dropped_extends: "caps_dropped fuel e keep w w' \<Longrightarrow> extends v w \<Longrightarrow> extends w' v' \<Longrightarrow> caps_dropped fuel e keep v v'"
proof -
  assume d: "caps_dropped fuel e keep w w'" and x: "extends v w" "extends w' v'"
  from d obtain w1 last w2 where *: "extends w w1" "cap_last_cap fuel e w1 = Ret (last, w2)" "extends w2 w'"
      "\<forall>i\<le>last. keep AND push_bit i 1 = 0 \<longrightarrow> issued e (Proc (Prctl PR_CAPBSET_DROP (int i))) w'"
    unfolding caps_dropped_def by blast
  have "extends v w1" "extends w2 v'" using grows_trans [OF x(1) *(1)] grows_trans [OF *(3) x(2)] by simp_all
  with * issued_extends [OF _ x(2)] show ?thesis unfolding caps_dropped_def by blast
qed

lemma bounding_set_drop_ok:
  assumes "capability_bounding_set_drop fuel e keep right_now w = Ret (r, w')"
  shows "extends w w' \<and> (0 \<le> r \<longrightarrow> caps_dropped fuel e keep w w')"
proof -
  let ?g = "Proc Cap_get_proc"
  let ?f = "Proc (Cap_get_flag CAP_SETPCAP CAP_EFFECTIVE)"
  let ?w = "?f # ?g # w"
  obtain s1 w1 where s1: "(if val e (?g # w) ?f \<noteq> 1 then raise_setpcap e ?w else (0, ?w)) = (s1, w1)" by fastforce
  then have "extends ?w w1" using raise_setpcap_extends by (auto split: if_splits)
  moreover have "extends w ?w" by (simp add: grows_def)
  ultimately have w1: "extends w w1" by (metis grows_trans)
  show ?thesis
  proof (cases "ans e w ?g < 0 \<or> ans e (?g # w) ?f < 0")
    case True
    then have "r < 0 \<and> (w' = ?g # w \<or> w' = ?w)"
      using assms by (cases "ans e w ?g < 0") (auto simp: capability_bounding_set_drop_def sys_def Let_def)
    then show ?thesis by (auto simp: grows_def)
  next
    case False
    then have body: "(if s1 < 0 then Ret (caps_finish e s1 (True, []) w1)
        else obind (cap_last_cap fuel e w1) (\<lambda>(last, w).
          let (r, cap, w) = drop_loop e keep right_now [0..<Suc last] (True, []) w in Ret (caps_finish e r cap w))) = Ret (r, w')"
      using assms s1 by (simp add: capability_bounding_set_drop_def sys_def Let_def)
    show ?thesis
    proof (cases "s1 < 0")
      case True
      then have "caps_finish e s1 (True, []) w1 = (r, w')" using body by simp
      from caps_finish_ok [OF this] True show ?thesis using grows_trans [OF w1] by auto
    next
      case False
      then obtain n w2 where n: "cap_last_cap fuel e w1 = Ret (n, w2)"
        using body by (auto simp: obind_eq_Ret)
      obtain s cap w3 where d: "drop_loop e keep right_now [0..<Suc n] (True, []) w2 = (s, cap, w3)" by (metis prod_cases3)
      have f: "caps_finish e s cap w3 = (r, w')" using body False n d by (simp del: upt_Suc)
      note x = drop_loop_ok [OF d] caps_finish_ok [OF f]
      have "extends w w'" using grows_trans [OF grows_trans [OF w1 cap_last_cap_extends [OF n]]] x grows_trans by blast
      moreover have "\<forall>i\<le>n. keep AND push_bit i 1 = 0 \<longrightarrow> issued e (Proc (Prctl PR_CAPBSET_DROP (int i))) w'" if "0 \<le> r"
        using x that issued_extends by fastforce
      moreover have "extends w2 w'" using x grows_trans by blast
      ultimately show ?thesis using w1 n unfolding caps_dropped_def by blast
    qed
  qed
qed

lemma switch_user_ok:
  assumes "switch_user e uid gid w = (r, w')"
  shows "r \<le> 0 \<and> extends w w' \<and> (r = 0 \<longrightarrow>
    issued e (Proc (Setresgid gid)) w' \<and> issued e (Proc Setgroups) w' \<and> issued e (Proc (Setresuid uid)) w')"
proof -
  let ?c1 = "Proc (Setresgid gid)" and ?c2 = "Proc Setgroups" and ?c3 = "Proc (Prctl PR_SET_KEEPCAPS 1)"
  let ?c4 = "Proc (Setresuid uid)" and ?c5 = "Proc (Prctl PR_SET_KEEPCAPS 0)"
  have "r \<le> 0 \<and> extends w w'"
    using assms by (auto simp: switch_user_def sys_def grows_def split: if_splits)
  moreover have "w' = ?c5 # ?c4 # ?c3 # ?c2 # ?c1 # w" "0 \<le> ans e w ?c1" "0 \<le> ans e (?c1 # w) ?c2"
      "0 \<le> ans e (?c3 # ?c2 # ?c1 # w) ?c4" if "r = 0"
    using assms that by (auto simp: switch_user_def sys_def split: if_splits)
  ultimately show ?thesis
    using issued_now issued_extends extends_Cons by metis
qed

text \<open>The last call set the capabilities of the process to exactly the ones to keep, and the kernel accepted it.\<close>

definition caps_granted :: "env \<Rightarrow> u64 \<Rightarrow> world \<Rightarrow> bool" where
  "caps_granted e keep w \<longleftrightarrow>
     (let c = Proc (Cap_set_proc (False, [(CAP_EFFECTIVE, kept_caps keep, True), (CAP_PERMITTED, kept_caps keep, True)]))
      in \<exists>l. w = c # l \<and> 0 \<le> ans e l c)"

lemma grant_caps_ok:
  assumes "grant_caps e keep w = Ret (r, w')" "keep \<noteq> 0"
  shows "r \<le> 0 \<and> extends w w' \<and> (r = 0 \<longrightarrow> caps_granted e keep w')"
  using assms by (auto simp: grant_caps_def caps_granted_def c_assert_def sys_def set_flag_def Let_def grows_def split: if_splits)

definition netlogd_caps :: u64 where
  "netlogd_caps = push_bit CAP_NET_ADMIN 1 OR push_bit CAP_NET_BIND_SERVICE 1 OR push_bit CAP_NET_BROADCAST 1"

lemma netlogd_caps_kept:
  "kept_caps netlogd_caps = [CAP_NET_BIND_SERVICE, CAP_NET_BROADCAST, CAP_NET_ADMIN]" "cap_bits_ok netlogd_caps" "netlogd_caps \<noteq> 0"
  by code_simp+

definition privileges_dropped :: "nat \<Rightarrow> env \<Rightarrow> u32 \<Rightarrow> u32 \<Rightarrow> u64 \<Rightarrow> world \<Rightarrow> world \<Rightarrow> bool" where
  \<comment> \<open>user and groups were changed, the other capabilities are gone from the bounding set, and the last
     call gave the process exactly the ones to keep, and succeeded\<close>
  "privileges_dropped fuel e uid gid keep w0 w \<longleftrightarrow>
     issued e (Proc (Setresgid gid)) w \<and> issued e (Proc Setgroups) w \<and> issued e (Proc (Setresuid uid)) w \<and>
     caps_dropped fuel e keep w0 w \<and>
     caps_granted e keep w"

lemma drop_privileges_ok:
  assumes "drop_privileges fuel e uid gid keep w = Ret (r, w')" "keep \<noteq> 0"
  shows "r \<le> 0 \<and> extends w w' \<and> (r = 0 \<longrightarrow> privileges_dropped fuel e uid gid keep w w')"
proof -
  obtain r1 w1 where u: "switch_user e uid gid w = (r1, w1)" by fastforce
  note s = switch_user_ok [OF u]
  show ?thesis
  proof (cases "r1 < 0")
    case True
    then show ?thesis using assms(1) u s by (simp add: drop_privileges_def)
  next
    case False
    then obtain r2 w2 where b: "capability_bounding_set_drop fuel e keep True w1 = Ret (r2, w2)"
        "(if r2 < 0 then Ret (log_full_errno r2, w2) else grant_caps e keep w2) = Ret (r, w')"
      using assms(1) u by (auto simp: drop_privileges_def obind_eq_Ret)
    note d = bounding_set_drop_ok [OF b(1)]
    show ?thesis
    proof (cases "r2 < 0")
      case True
      then show ?thesis using b(2) s d grows_trans by auto
    next
      case False
      then have g: "grant_caps e keep w2 = Ret (r, w')" using b(2) by simp
      note g = grant_caps_ok [OF g assms(2)]
      have x: "extends w1 w'" using d g grows_trans by blast
      have "extends w w'" using s x grows_trans by blast
      moreover have "privileges_dropped fuel e uid gid keep w w'" if "r = 0"
      proof -
        have "r1 = 0" using s \<open>\<not> r1 < 0\<close> by simp
        then have user: "issued e (Proc (Setresgid gid)) w'" "issued e (Proc Setgroups) w'" "issued e (Proc (Setresuid uid)) w'"
          using s issued_extends [OF _ x] by blast+
        have "caps_dropped fuel e keep w1 w2" using d \<open>\<not> r2 < 0\<close> by (meson not_less)
        then have "caps_dropped fuel e keep w w'" using s g caps_dropped_extends by blast
        then show ?thesis using user g that unfolding privileges_dropped_def by blast
      qed
      ultimately show ?thesis using g by blast
    qed
  qed
qed

end
