(* ===== verification/Startup.thy ===== *)
theory Startup
  imports Conf Fs_Util Privileges
begin

text \<open>
  \<open>src/netlog/systemd-netlogd.c\<close>: the command line, start-up and the end of the program.  What
  \<open>getopt_long\<close> makes of the command line is an argument, as is the sequence of events that
  \<open>sd_event_loop\<close> dispatches.
\<close>

section \<open>The command line\<close>

datatype option_code = Opt_help | Opt_version | Opt_cursor string | Opt_save_state "string option" | Opt_unknown | Opt_missing

definition STATE_FILE :: string where "STATE_FILE = ''/var/lib/systemd/journal-netlogd/state''"

record arguments =
  arg_cursor :: "string option"
  arg_save_state :: string

fun parse_options :: "option_code list \<Rightarrow> arguments \<Rightarrow> int option \<times> arguments" where
  \<comment> \<open>\<open>None\<close>: the loop came to the end of the options\<close>
  "parse_options [] a = (None, a)"
| "parse_options (c # cs) a =
     (case c of
        Opt_help \<Rightarrow> (Some 0, a)
      | Opt_version \<Rightarrow> (Some 0, a)
      | Opt_cursor s \<Rightarrow>
          if arg_cursor a \<noteq> None then (Some (- EINVAL), a) else parse_options cs (a\<lparr>arg_cursor := Some s\<rparr>)
      | Opt_save_state f \<Rightarrow> parse_options cs (a\<lparr>arg_save_state := (case f of None \<Rightarrow> STATE_FILE | Some f \<Rightarrow> f)\<rparr>)
      | Opt_unknown \<Rightarrow> (Some (- EINVAL), a)
      | Opt_missing \<Rightarrow> (Some (- EINVAL), a))"

definition parse_argv :: "option_code list \<Rightarrow> bool \<Rightarrow> int \<times> arguments" where
  \<comment> \<open>\<open>extra\<close>: arguments are left after the options\<close>
  "parse_argv opts extra =
     (case parse_options opts \<lparr>arg_cursor = None, arg_save_state = STATE_FILE\<rparr> of
        (Some r, a) \<Rightarrow> (r, a)
      | (None, a) \<Rightarrow> (if extra then - EINVAL else 1, a))"

section \<open>Start-up\<close>

definition NETLOG_USER :: string where "NETLOG_USER = ''systemd-journal-netlog''"

definition resolve_user_credentials :: "env \<Rightarrow> world \<Rightarrow> (u32 \<times> u32) result \<times> world" where
  "resolve_user_credentials e w =
     (case get_user_creds e NETLOG_USER w of
        (Inl r, w) \<Rightarrow> (Inl (log_full_errno r), w)
      | (Inr c, w) \<Rightarrow> (Inr c, w))"

definition initialize_ssl_manager :: "env \<Rightarrow> Manager \<Rightarrow> int \<times> Manager" where
  "initialize_ssl_manager e m =
     (case m_protocol m of
        SYSLOG_TRANSMISSION_PROTOCOL_DTLS \<Rightarrow>
          (let ((r, d), m) = m_pure (\<lambda>w. let (r, d, w) = dtls_manager_init e (m_auth_mode m) (m_server_cert m) w in ((r, d), w)) m
           in (r, case d of None \<Rightarrow> m | Some d \<Rightarrow> m\<lparr>m_dtls := Some d\<rparr>))
      | SYSLOG_TRANSMISSION_PROTOCOL_TLS \<Rightarrow>
          (let ((r, d), m) = m_pure (\<lambda>w. let (r, d, w) = tls_manager_init e (m_auth_mode m) (m_server_cert m) w in ((r, d), w)) m
           in (r, case d of None \<Rightarrow> m | Some d \<Rightarrow> m\<lparr>m_tls := Some d\<rparr>))
      | _ \<Rightarrow> (0, m))"

definition setup_cursor_state_file :: "env \<Rightarrow> Manager \<Rightarrow> u32 \<Rightarrow> u32 \<Rightarrow> (int \<times> Manager) outcome" where
  "setup_cursor_state_file e m uid gid =
     (case m_state_file m of
        None \<Rightarrow> Abort
      | Some f \<Rightarrow>
          (let (r, m) = m_pure (mkdir_parents e f 493) m
           in if r < 0 then Ret (log_full_errno r, m)
              else let (r, m) = m_pure (chmod_and_chown e ''/var/lib/systemd/journal-netlogd'' 484 uid gid) m
                   in if r < 0 then Ret (log_full_errno r, m)
                      else let (fd, m) = m_sys e (Proc (Open f O_READ_WRITE 420)) m
                           in if 0 \<le> fd
                              then let m = m_call (Proc (Fd_chown fd uid gid)) (m_call (Proc (Fd_chmod fd 420)) m)
                                   in obind (m_io (safe_close e fd) m) (\<lambda>(_, m). Ret (0, m))
                              else m_io (touch_file e f True USEC_INFINITY uid gid 420) m))"

definition STOPPING :: string where "STOPPING = ''STOPPING=1'' @ ''\<newline>'' @ ''STATUS=Shutting down...''"

text \<open>
  \<open>main\<close> up to the event loop: \<open>Exit\<close> with the value of \<open>r\<close> (the manager, if there is one, is freed
  by the cleanup handler), or a manager that goes into the loop.
\<close>

datatype started = Exit int "Manager option" world | Loop Manager

definition main_start :: "nat \<Rightarrow> env \<Rightarrow> conf_fs \<Rightarrow> float_ops \<Rightarrow> string \<Rightarrow> option_code list \<Rightarrow> bool \<Rightarrow> world \<Rightarrow> started outcome" where
  "main_start fuel e fs ops pkgsysconfdir opts extra w =
     (let (r, a) = parse_argv opts extra
      in if r \<le> 0 then Ret (Exit r None w)
         else let w = Proc (Umask 18) # w
      in case resolve_user_credentials e w of
           (Inl r, w) \<Rightarrow> Ret (Exit r None w)
         | (Inr (uid, gid), w) \<Rightarrow>
             obind (manager_new e (arg_save_state a) (arg_cursor a) w) (\<lambda>(r, mo, w).
               case mo of
                 None \<Rightarrow> Ret (Exit r None w)
               | Some m \<Rightarrow>
                   obind (manager_parse_config_file e fs ops pkgsysconfdir m) (\<lambda>(r, m).
                     if r < 0 then Ret (Exit r (Some m) (world m))
                     else let (r, m) = initialize_ssl_manager e m
                          in if r < 0 then Ret (Exit r (Some m) (world m))
                             else obind (setup_cursor_state_file e m uid gid) (\<lambda>(r, m).
                               if r < 0 then (let m = m_call (Other (Notify STOPPING)) m
                                              in Ret (Exit r (Some m) (world m)))
                               else obind (m_io (drop_privileges fuel e uid gid netlogd_caps) m) (\<lambda>(r, m).
                                 if r < 0 then Ret (Exit r (Some m) (world m)) else Ret (Loop m))))))"

definition run_event_loop_begin :: "nat \<Rightarrow> env \<Rightarrow> Manager \<Rightarrow> Manager outcome" where
  \<comment> \<open>\<open>run_event_loop\<close> before \<open>sd_event_loop\<close> is called\<close>
  "run_event_loop_begin fuel e m =
     (let m = m_call (Other (Notify (''READY=1'' @ ''\<newline>'' @ ''STATUS=Processing input...''))) m;
          online = network_is_online e (world m);
          m = m_call (File (Open_read NETIF_STATE)) m
      in if online then obind (manager_connect fuel e m) (\<lambda>(r, m). Ret m) else Ret m)"

text \<open>The end of \<open>main\<close>: the manager is freed, and a negative \<open>r\<close> is a failure.\<close>

definition main_exit :: "env \<Rightarrow> int \<Rightarrow> Manager option \<Rightarrow> int outcome" where
  "main_exit e r mo =
     (case mo of
        None \<Rightarrow> Ret (if 0 \<le> r then 0 else 1)
      | Some m \<Rightarrow> obind (manager_free e m) (\<lambda>_. Ret (if 0 \<le> r then 0 else 1)))"

section \<open>What start-up establishes\<close>

definition ready :: "Manager \<Rightarrow> bool" where
  "ready m \<longleftrightarrow>
     daemon_wf m \<and> m_socket m = -1 \<and> \<not> m_connected m \<and> \<not> m_journal m \<and> \<not> m_event_journal_input m \<and>
     (\<forall>s. m_dtls m = Some s \<longrightarrow> \<not> ssl_connected s) \<and> (\<forall>s. m_tls m = Some s \<longrightarrow> \<not> ssl_connected s) \<and>
     m_event m \<and> m_network_event_source m \<and> ratelimit_configured (m_ratelimit m) \<and> m_state_file m \<noteq> None \<and>
     USEC_PER_SEC \<le> m_connection_retry_usec m"

lemma ready_world [simp]: "ready (m\<lparr>world := w\<rparr>) = ready m"
  by (simp add: ready_def)

lemma new_manager_booting: "new_manager state_file cursor m \<Longrightarrow> booting m"
  by (simp add: new_manager_def booting_def disconnected_def)

lemma initialize_ssl_ready:
  assumes "booting m" "USEC_PER_SEC \<le> m_connection_retry_usec m" "initialize_ssl_manager e m = (r, m')"
  shows "r < 0 \<or> r = 0 \<and> ready m'"
proof -
  have d: "r1 < 0 \<or> r1 = 0 \<and> (\<exists>d. mo = Some d \<and> ssl_wf d \<and> \<not> ssl_connected d)"
    if "ssl_manager_init e t a c w = (r1, mo, w')" for t a c w r1 mo w'
    using ssl_manager_init_wf [OF that] by (cases mo) auto
  have wf: "ready m" if "m_protocol m \<noteq> SYSLOG_TRANSMISSION_PROTOCOL_DTLS" "m_protocol m \<noteq> SYSLOG_TRANSMISSION_PROTOCOL_TLS"
    using assms(1,2) that by (auto simp: ready_def booting_def daemon_wf_def manager_wf_def ssl_opt_wf_def)
  have dtls: "ready (m\<lparr>world := w, m_dtls := Some d\<rparr>)" if "m_protocol m = SYSLOG_TRANSMISSION_PROTOCOL_DTLS" "ssl_wf d" "\<not> ssl_connected d" for d w
    using assms(1,2) that by (auto simp: ready_def booting_def daemon_wf_def manager_wf_def ssl_opt_wf_def)
  have tls: "ready (m\<lparr>world := w, m_tls := Some d\<rparr>)" if "m_protocol m = SYSLOG_TRANSMISSION_PROTOCOL_TLS" "ssl_wf d" "\<not> ssl_connected d" for d w
    using assms(1,2) that by (auto simp: ready_def booting_def daemon_wf_def manager_wf_def ssl_opt_wf_def)
  obtain r1 mo w' where i1: "dtls_manager_init e (m_auth_mode m) (m_server_cert m) (world m) = (r1, mo, w')" by (metis prod_cases3)
  obtain r2 mo2 w2 where i2: "tls_manager_init e (m_auth_mode m) (m_server_cert m) (world m) = (r2, mo2, w2)" by (metis prod_cases3)
  show ?thesis
    using assms(3) d [OF i1 [unfolded dtls_manager_init_def]] d [OF i2 [unfolded tls_manager_init_def]] dtls tls wf
    by (cases "m_protocol m") (auto simp: initialize_ssl_manager_def m_pure_def i1 i2)
qed

lemma mkdir_loop_nonpos: "fst (mkdir_parents_loop e prefix mode don p w) \<le> 0"
proof (induction "length p" arbitrary: don p w rule: less_induct)
  case less
  show ?case
  proof (cases "next_component p = []")
    case False
    then have "fst (mkdir_parents_loop e prefix mode d (next_component p) v) \<le> 0" for d v
      by (intro less next_component_shorter)
    then show ?thesis
      using False by (subst mkdir_parents_loop.simps) (simp add: Let_def sys_def)
  qed (simp add: mkdir_parents_loop.simps [of _ _ _ _ p] Let_def)
qed

lemma mkdir_parents_nonpos: "mkdir_parents e path mode w = (r, w') \<Longrightarrow> r \<le> 0"
  using mkdir_loop_nonpos by (auto simp: mkdir_parents_def mkdir_parents_internal_def Let_def split: option.splits prod.splits if_splits)
    (metis fst_conv)+

lemma touch_file_returns:
  assumes "close_ok e"
  shows "\<exists>r w'. touch_file e path parents stamp uid gid mode w = Ret (r, w') \<and> r \<le> 0"
proof -
  have "fst (touch_opened e fd stamp uid gid mode v) \<le> 0" for fd v
    by (simp add: touch_opened_def sys_def Let_def)
  then show ?thesis
    by (simp add: touch_file_def sys_def Let_def safe_close_ok [OF assms] split_beta)
qed

lemma setup_state_file_returns:
  assumes "close_ok e" "m_state_file m \<noteq> None"
  shows "\<exists>r w. setup_cursor_state_file e m uid gid = Ret (r, m\<lparr>world := w\<rparr>) \<and> r \<le> 0"
proof -
  obtain f where f: "m_state_file m = Some f" using assms(2) by blast
  obtain r1 w1 where r1: "mkdir_parents e f 493 (world m) = (r1, w1)" by fastforce
  obtain r2 w2 where r2: "chmod_and_chown e ''/var/lib/systemd/journal-netlogd'' 484 uid gid w1 = (r2, w2)" by fastforce
  let ?c = "Proc (Open f O_READ_WRITE 420)"
  obtain r3 w3 where r3: "touch_file e f True USEC_INFINITY uid gid 420 (?c # w2) = Ret (r3, w3)" "r3 \<le> 0"
    using touch_file_returns [OF assms(1)] by blast
  show ?thesis
    using f r1 r2 r3
    by (simp add: setup_cursor_state_file_def m_pure_def m_sys_def m_call_def m_io_def safe_close_ok [OF assms(1)] Let_def) blast
qed

text \<open>
  The kernel has a last capability, so the search for it ends: \<open>caps_bounded e n\<close> says that no
  capability from \<open>n\<close> on can be read.
\<close>

definition caps_bounded :: "env \<Rightarrow> nat \<Rightarrow> bool" where
  "caps_bounded e n \<longleftrightarrow> (\<forall>w p. n \<le> p \<longrightarrow> ans e w (Proc (Prctl PR_CAPBSET_READ (int p))) < 0)"

lemma probe_up_returns: "caps_bounded e n \<Longrightarrow> n \<le> p + fuel \<Longrightarrow> 0 < fuel \<Longrightarrow> \<exists>q w'. cap_probe_up fuel e p w = Ret (q, w')"
proof (induction fuel arbitrary: p w)
  case (Suc fuel)
  show ?case
  proof (cases "ans e w (Proc (Prctl PR_CAPBSET_READ (int (p + 1)))) < 0")
    case False
    then have "p + 1 < n" using Suc.prems(1) unfolding caps_bounded_def by (meson not_le)
    then have "n \<le> (p + 1) + fuel" "0 < fuel" using Suc.prems(2) by simp_all
    from Suc.IH [OF Suc.prems(1) this] False show ?thesis by (simp add: sys_def)
  qed (simp add: sys_def)
qed simp

lemma cap_last_cap_returns:
  assumes "caps_bounded e n" "n \<le> fuel" "0 < fuel"
  shows "\<exists>q w'. cap_last_cap fuel e w = Ret (q, w')"
proof -
  have "\<exists>q w'. cap_probe_up fuel e CAP_LAST_CAP v = Ret (q, w')" for v
    using probe_up_returns [OF assms(1), of CAP_LAST_CAP fuel] assms(2,3) by simp
  then show ?thesis by (auto simp: cap_last_cap_def Let_def split: sum.splits prod.splits)
qed

lemma drop_privileges_returns:
  assumes "caps_bounded e n" "n \<le> fuel" "0 < fuel"
  shows "\<exists>r w'. drop_privileges fuel e uid gid netlogd_caps w = Ret (r, w') \<and> r \<le> 0"
proof -
  have "\<exists>r w'. grant_caps e netlogd_caps v = Ret (r, w')" for v
    using netlogd_caps_kept by (simp add: grant_caps_def Let_def split: prod.splits)
  moreover have "\<exists>r w'. capability_bounding_set_drop fuel e keep right_now v = Ret (r, w')" for keep right_now v
  proof -
    have "\<exists>x. obind (cap_last_cap fuel e u) (\<lambda>(last, w).
        let (r, cap, w) = drop_loop e keep right_now [0..<Suc last] (True, []) w in Ret (caps_finish e r cap w)) = Ret x" for u
      using cap_last_cap_returns [OF assms, of u] by (auto simp: split_beta)
    then show ?thesis by (simp add: capability_bounding_set_drop_def Let_def split: prod.splits)
  qed
  moreover obtain r1 w1 where u: "switch_user e uid gid w = (r1, w1)" by fastforce
  ultimately obtain r2 w2 r3 w3 where "capability_bounding_set_drop fuel e netlogd_caps True w1 = Ret (r2, w2)"
      "grant_caps e netlogd_caps w2 = Ret (r3, w3)" by metis
  with u have "\<exists>r w'. drop_privileges fuel e uid gid netlogd_caps w = Ret (r, w')"
    by (simp add: drop_privileges_def)
  then show ?thesis using drop_privileges_ok netlogd_caps_kept(3) by blast
qed

text \<open>
  What start-up with the calls \<open>w0\<close> behind it gives: the user of the daemon is looked up after
  \<open>umask\<close>, and from there on privileges were dropped to it.
\<close>

definition start_post :: "nat \<Rightarrow> env \<Rightarrow> world \<Rightarrow> started \<Rightarrow> bool" where
  "start_post fuel e w0 s \<longleftrightarrow>
     (case s of
        Exit r mo w \<Rightarrow> r \<le> 0
      | Loop m \<Rightarrow> ready m \<and> (\<exists>uid gid w1 w2. resolve_user_credentials e (Proc (Umask 18) # w0) = (Inr (uid, gid), w1) \<and>
          privileges_dropped fuel e uid gid netlogd_caps w2 (world m)))"

lemma credentials_negative: "resolve_user_credentials e w = (Inl r, w') \<Longrightarrow> r < 0"
  by (auto simp: resolve_user_credentials_def get_user_creds_def NETLOG_USER_def Let_def log_full_errno_def
      split: prod.splits sum.splits if_splits)

lemma config_nonpos:
  assumes "conf_fs_small fs" "booting m"
  shows "\<exists>r m'. manager_parse_config_file e fs ops dir m = Ret (r, m') \<and> booting m' \<and> (r < 0 \<or> r = 0 \<and> USEC_PER_SEC \<le> m_connection_retry_usec m')"
proof -
  obtain r m' where c: "manager_parse_config_file e fs ops dir m = Ret (r, m')" "booting m'" "r = 0 \<longrightarrow> USEC_PER_SEC \<le> m_connection_retry_usec m'"
    using manager_parse_config_file_booting [OF assms, of e ops dir] by (auto simp: gives_iff)
  have "r \<le> 0" using c(1) by (auto simp: manager_parse_config_file_def obind_eq_Ret split: if_splits)
  then show ?thesis using c by auto
qed

lemma boot_ready:
  assumes "close_ok e" "caps_bounded e n" "n \<le> fuel" "0 < fuel" "ready m"
    and "resolve_user_credentials e (Proc (Umask 18) # w0) = (Inr (uid, gid), w')"
  shows "gives (start_post fuel e w0) (obind (setup_cursor_state_file e m uid gid) (\<lambda>(r, m).
    if r < 0 then (let m = m_call (Other (Notify STOPPING)) m in Ret (Exit r (Some m) (world m)))
    else obind (m_io (drop_privileges fuel e uid gid netlogd_caps) m) (\<lambda>(r, m).
      if r < 0 then Ret (Exit r (Some m) (world m)) else Ret (Loop m))))"
proof -
  obtain r1 w1 where s: "setup_cursor_state_file e m uid gid = Ret (r1, m\<lparr>world := w1\<rparr>)" "r1 \<le> 0"
    using setup_state_file_returns [OF assms(1)] assms(5) unfolding ready_def by blast
  obtain r2 w2 where d: "drop_privileges fuel e uid gid netlogd_caps w1 = Ret (r2, w2)" "r2 \<le> 0"
    using drop_privileges_returns [OF assms(2-4)] by blast
  have "r2 = 0 \<Longrightarrow> privileges_dropped fuel e uid gid netlogd_caps w1 w2"
    using drop_privileges_ok [OF d(1) netlogd_caps_kept(3)] by blast
  then show ?thesis
    using s d assms(5,6) by (auto simp: m_io_def start_post_def)
qed

lemma main_start_post:
  assumes "close_ok e" "sigmask_ok e" "caps_bounded e n" "n \<le> fuel" "0 < fuel" "conf_fs_small fs"
  shows "gives (start_post fuel e w) (main_start fuel e fs ops dir opts extra w)"
proof (cases "fst (parse_argv opts extra) \<le> 0")
  case True
  then show ?thesis by (cases "parse_argv opts extra") (simp add: main_start_def start_post_def)
next
  case False
  obtain r a where a: "parse_argv opts extra = (r, a)" by fastforce
  obtain c w1 where c: "resolve_user_credentials e (Proc (Umask 18) # w) = (c, w1)" by fastforce
  show ?thesis
  proof (cases c)
    case (Inl r)
    then have "r < 0" using c credentials_negative by blast
    then show ?thesis using Inl c a False by (simp add: main_start_def start_post_def)
  next
    case (Inr ug)
    obtain uid gid where ug: "ug = (uid, gid)" by fastforce
    then have uid: "resolve_user_credentials e (Proc (Umask 18) # w) = (Inr (uid, gid), w1)" using c Inr by simp
    obtain r2 mo w2 where n: "manager_new e (arg_save_state a) (arg_cursor a) w1 = Ret (r2, mo, w2)"
        "new_post (arg_save_state a) (arg_cursor a) (r2, mo, w2)"
      using manager_new_ready [OF assms(1,2), of "arg_save_state a" "arg_cursor a" w1] by (auto simp: gives_iff)
    show ?thesis
    proof (cases mo)
      case None
      then show ?thesis using n a c Inr ug False by (simp add: main_start_def start_post_def new_post_def)
    next
      case (Some m)
      then have "booting m" using n(2) new_manager_booting by (auto simp: new_post_def)
      then obtain r3 m3 where p: "manager_parse_config_file e fs ops dir m = Ret (r3, m3)" "booting m3"
          "r3 < 0 \<or> r3 = 0 \<and> USEC_PER_SEC \<le> m_connection_retry_usec m3"
        using config_nonpos [OF assms(6)] by blast
      obtain r4 m4 where i: "initialize_ssl_manager e m3 = (r4, m4)" by fastforce
      have "r3 = 0 \<Longrightarrow> r4 < 0 \<or> r4 = 0 \<and> ready m4" using initialize_ssl_ready [OF p(2) _ i] p(3) by auto
      then show ?thesis
        using n(1) a c Inr ug False Some p(1,3) i boot_ready [OF assms(1,3,4,5) _ uid, of m4]
        by (auto simp: main_start_def start_post_def Let_def)
    qed
  qed
qed

lemma run_event_loop_begin_wf:
  assumes "close_ok e" "daemon_wf m"
  shows "all_ret daemon_wf (run_event_loop_begin fuel e m)"
proof -
  let ?m = "m_call (File (Open_read NETIF_STATE)) (m_call (Other (Notify (''READY=1'' @ ''\<newline>'' @ ''STATUS=Processing input...''))) m)"
  have wf: "daemon_wf ?m" using assms(2) by (simp add: m_call_def)
  have "all_ret daemon_wf (obind (manager_connect fuel e ?m) (\<lambda>(r, m). Ret m))"
    by (rule all_ret_obind [OF connect_daemon_wf [OF assms(1) wf]]) auto
  then show ?thesis using wf by (simp add: run_event_loop_begin_def Let_def)
qed

end
