(* ===== verification/Scenario.thy ===== *)
theory Scenario
  imports Startup
begin

text \<open>
  A concrete environment and concrete managers: a machine that is online, a kernel that
  grants what it is asked for, OpenSSL handshakes that succeed, and an empty journal.  The
  theorems about the daemon are applied to them, which shows that their hypotheses can
  hold together.
\<close>

definition demo_names :: net_names where
  "demo_names = \<lparr>inet_pton6 = (\<lambda>s. if s = ''::1'' then Some [0,0,0,0,0,0,0,0,0,0,0,0,0,0,0,1] else None),
     inet_ntop6 = (\<lambda>a. ''::1''), if_nametoindex = (\<lambda>s. if s = ''lo'' then 1 else 0), have_sockstat6 = True\<rparr>"

fun demo_ans :: "call \<Rightarrow> int" where
  "demo_ans (Net (Socket f t p)) = 7"
| "demo_ans (Net (Sendmsg fd iov sa l)) = int (length (concat iov))"
| "demo_ans (Ssl c) = 1"
| "demo_ans (Journal Journal_get_fd) = 5"
| "demo_ans (Journal Journal_get_events) = 1"
| "demo_ans (Journal Journal_process) = 1"
| "demo_ans (File Inotify_init) = 6"
| "demo_ans (Net (Read f n)) = - EAGAIN"
| "demo_ans (File (Open_read f)) = - ENOENT"
| "demo_ans (Proc (Prctl op p)) = (if op = 23 \<and> 40 < p then - EINVAL else 0)"
| "demo_ans c = 0"

definition demo_val :: "call \<Rightarrow> int" where
  \<comment> \<open>every path that is looked up is a directory\<close>
  "demo_val c = (case c of Proc (Stat _ _) \<Rightarrow> 0x41ED | _ \<Rightarrow> 0)"

definition demo_out :: "call \<Rightarrow> string" where
  "demo_out c = []"

definition demo_env :: env where
  "demo_env = \<lparr>ans = (\<lambda>w. demo_ans), val = (\<lambda>w. demo_val), len = (\<lambda>w c. 0), out = (\<lambda>w. demo_out),
     time = (\<lambda>w c. 1000000), names = demo_names,
     localtime = (\<lambda>t. \<lparr>tm_year = 124, tm_mon = 1, tm_mday = 29, tm_hour = 12, tm_min = 30, tm_sec = 5, tm_gmtoff = 19800\<rparr>)\<rparr>"

lemma demo_env_simps [simp]:
  "ans demo_env w c = demo_ans c" "val demo_env w c = demo_val c" "time demo_env w c = 1000000" "out demo_env w c = demo_out c"
  "names demo_env = demo_names"
  by (simp_all add: demo_env_def)

lemma demo_val_Net [simp]: "demo_val (Net c) = 0" "demo_val (Proc (Stat p b)) = 0x41ED" "demo_val (Proc (Getpwnam s)) = 0"
  "demo_val (Proc (Cap_get_flag n f)) = 0"
  by (simp_all add: demo_val_def)

text \<open>The manager after \<open>manager_new\<close>, and one with a connected UDP socket.\<close>

definition demo_manager :: Manager where
  "demo_manager = (manager_initial demo_names ''/var/lib/state'' None [])\<lparr>m_event := True, m_resolve := True,
     m_network_monitor := Some 6, m_network_event_source := True\<rparr>"

definition demo_connected :: Manager where
  "demo_connected = demo_manager\<lparr>m_socket := 7, m_connected := True\<rparr>"

lemma demo_env_ok: "close_ok demo_env" "poll_ok demo_env" "sends_settle demo_env 0" "clock_within demo_env 1000000 0"
  "calendar_ok demo_env"
  by (auto simp: close_ok_def poll_ok_def sends_settle_def clock_within_def calendar_ok_def tm_ok_def demo_env_def)

lemma demo_wf: "daemon_wf demo_manager" "disconnected demo_manager" "manager_wf demo_connected" "transport_connected demo_connected"
  by (simp_all add: daemon_wf_def manager_wf_def disconnected_def ssl_opt_wf_def demo_manager_def demo_connected_def manager_initial_def)




lemma demo_manager_simps [simp]: "world demo_manager = []" "m_socket demo_manager = -1" "m_resolving demo_manager = False"
 "m_protocol demo_manager = SYSLOG_TRANSMISSION_PROTOCOL_UDP" "m_resolve_query demo_manager = False"
 "m_dtls demo_manager = None" "m_tls demo_manager = None" "m_journal demo_manager = False" "m_event_journal_input demo_manager = False"
 "m_event_retry demo_manager = False" "m_connected demo_manager = False" "m_network_event_source demo_manager"
 "m_send_buffer demo_manager = 0" "m_address demo_manager = inet_address 0xEF000001 6000" "m_dir demo_manager = None" "m_namespace demo_manager = None"
 "m_last_cursor demo_manager = None" "m_state_file demo_manager = Some ''/var/lib/state''"
 "m_ratelimit demo_manager = \<lparr>rl_interval = 10000000, rl_burst = 10, rl_num = 0, rl_begin = 0\<rparr>"
  by (simp_all add: demo_manager_def manager_initial_def default_address)

lemmas disconnect_defs = manager_disconnect_def unref_source_def manager_close_network_socket_def m_io_def safe_close_def
  close_nointr_def sys_def
  manager_disconnect_ssl_def ssl_disconnect_def journal_close_input_def m_call_def m_sys_def m_pure_def
lemmas connect_defs = manager_begin_connect_def manager_ratelimit_below_def ratelimit_below_def ratelimit_configured_def
  manager_open_transport_def manager_open_network_socket_def plain_sock_type_def manager_setup_socket_def manager_socket_options_def
  set_option_def set_send_buffer_def setsockopt_int_def fd_nonblock_def manager_network_connect_socket_def inet_salen_def
  sockaddr_pretty_def SIZEOF_SOCKADDR_IN_def inet_address_def stream_address_def zero_sockaddr_def port_suffix_def
  journal_monitor_listen_def journal_open_def journal_source_of_def 

lemma demo_address [simp]: "sa_family (sockaddr (inet_address a p)) = AF_INET"
  by (simp add: inet_address_def)


lemma demo_seek: "m_last_cursor m = None \<Longrightarrow> m_state_file m = Some f \<Longrightarrow>
    journal_seek demo_env m = (0, m\<lparr>world := File (Open_read f) # world m, m_last_cursor := None\<rparr>)"
  by (simp add: journal_seek_def state_load_cursor_def read_full_file_def open_state_file_def
   parse_env_file_def parse_env_file_internal_def m_call_def)


lemma demo_online: "network_is_online demo_env w"
  by (simp add: network_is_online_def sd_network_get_operational_state_def network_string_def network_value_def netif_contents_def
      read_full_file_def open_state_file_def parse_env_file_def parse_env_file_internal_def)

lemma demo_flush: "sd_network_monitor_flush demo_env (m_network_monitor demo_manager) w = (0, Net (Read 6 INOTIFY_EVENT_MAX) # w)"
  by (simp add: sd_network_monitor_flush_def demo_manager_def sys_def)

lemma demo_tempfn: "tempfn_xxxxxx ''/var/lib/state'' None = Inr ''/var/lib/.#stateXXXXXX''"
  by code_simp

text \<open>Becoming online connects and opens the journal, a wakeup of the journal saves the cursor, and a
  signal disconnects and leaves the loop.\<close>

lemma demo_run:
  "\<exists>m'. run_events event_enabled (handle_event (Suc (Suc 0)) demo_env) [Network_changed, Journal_ready 1, Signal] demo_manager = Some m'"
  by (simp add: event_enabled_def handle_event_def manager_network_event_handler_def demo_online demo_flush disconnect_defs connect_defs demo_seek 
     journal_event_handler_def journal_process_input_def j_sys_def journal_save_cursor_def manager_signal_event_handler_def Let_def
     state_update_cursor_def fopen_temporary_def mkostemp_safe_def demo_tempfn inet_family_def)

lemma demo_text: "wire_text demo_env demo_connected 6 3 (Some ''sshd'') ''hello'' (Some ''web'') None None None None w =
  ''<30>1 2024-02-29T12:30:05+05:30 web sshd - - - hello''"
  by (simp add: wire_text_def rfc5424_text_def stamp_text_def rfc3339_text_def makepri_def nil_default_def structured_data_text_def
      stream_protocol_def strftime_date_time_def strftime_zone_def demo_connected_def demo_manager_def manager_initial_def
      demo_env_def dec_of_nat.simps digit_chars zero_pad_def dec_of_int_def)

lemma demo_bounded: "connect_bounded 21 demo_env demo_connected" "connect_bounded 21 demo_env demo_manager"
proof -
  have "clock_within demo_env 1000000 0" by (rule demo_env_ok)
  then show "connect_bounded 21 demo_env demo_connected" "connect_bounded 21 demo_env demo_manager"
    by (auto simp: connect_bounded_def demo_connected_def ratelimit_configured_def)
qed

definition demo_limited :: Manager where
  "demo_limited = demo_manager\<lparr>m_ratelimit := \<lparr>rl_interval = 10000000, rl_burst = 10, rl_num = 10, rl_begin = 1000000\<rparr>\<rparr>"

lemma demo_limited_delayed:
  "\<exists>m1. manager_connect (Suc 0) demo_env demo_limited = Ret (0, m1) \<and> disconnected m1"
  by (simp add: demo_limited_def disconnect_defs connect_defs manager_delay_connect_def disconnected_def usec_sub_unsigned_def)

definition demo_framed :: Manager where
  "demo_framed = demo_connected\<lparr>m_log_format := SYSLOG_TRANSMISSION_LOG_FORMAT_RFC_5425\<rparr>"

lemma demo_framed_text: "rfc5424_text demo_env demo_framed 6 3 (Some ''sshd'') ''hello'' None None None None None w =
  ''<30>1 2024-02-29T12:30:05+05:30 - sshd - - - hello''"
  by (simp add: demo_framed_def rfc5424_text_def stamp_text_def rfc3339_text_def makepri_def nil_default_def structured_data_text_def
      strftime_date_time_def strftime_zone_def demo_connected_def demo_manager_def manager_initial_def
      demo_env_def dec_of_nat.simps digit_chars zero_pad_def dec_of_int_def)

lemma demo_cursor_ok: "cursor_ok ''s=1''"
proof -
  have "utf8_is_valid ''s=1''" by code_simp
  then show ?thesis by (simp add: cursor_ok_def plain_value_def char_class_defs)
qed

definition demo_ssl :: SSLManager where
  "demo_ssl = \<lparr>ssl_ctx = True, ssl_ssl = False, ssl_pretty_address = None, ssl_fd = -1, ssl_connected = False,
       ssl_auth_mode = OPEN_SSL_CERTIFICATE_AUTH_MODE_DENY, ssl_transport_type = SSL_TRANSPORT_TLS\<rparr>"

text \<open>Start-up with an empty command line and no configuration ends in the event loop.\<close>

definition demo_fs :: conf_fs where
  "demo_fs = \<lparr>fs_open = (\<lambda>fn. if fn = ''/etc/netlogd.conf'' then Inr (conf_text ''Network'' [(''ExcludeSyslogFacility'', join_words [''auth'', ''cron''])], None)
       else Inl (- ENOENT)), fs_opendir = (\<lambda>d. Inl (- ENOENT)), fs_canonicalize = (\<lambda>p. Inl (- ENOENT))\<rparr>"

lemma demo_fs_open: "fs_open demo_fs fn = (if fn = ''/etc/netlogd.conf''
    then Inr (conf_text ''Network'' [(''ExcludeSyslogFacility'', join_words [''auth'', ''cron''])], None) else Inl (- ENOENT))"
  by (simp add: demo_fs_def)

lemma demo_fs_files: "conf_files_list_nulstr demo_fs ''.conf'' None d = Inr []"
proof -
  have r: "path_resolve_entry (fs_canonicalize demo_fs) None s = (if path_is_absolute s then Some s else None, False)" for s
    by (simp add: path_resolve_entry_def demo_fs_def)
  have "path_strv_resolve (fs_canonicalize demo_fs) l None \<noteq> None" for l
    by (simp add: path_strv_resolve_def r Let_def list_ex_iff)
  then obtain ds where "path_strv_resolve (fs_canonicalize demo_fs) (strv_split_nulstr d) None = Some ds" by blast
  then have "path_strv_resolve_uniq (fs_canonicalize demo_fs) (strv_split_nulstr d) None = Some (strv_uniq ds)"
    by (simp add: path_strv_resolve_uniq_def)
  moreover have "files_add_dirs demo_fs None suffix ds [] = Inr []" for suffix ds
    by (induction ds) (simp_all add: files_add_def demo_fs_def)
  ultimately show ?thesis by (simp add: conf_files_list_nulstr_def conf_files_list_strv_internal_def base_sort_def)
qed


lemma demo_caps: "caps_bounded demo_env 41" "sigmask_ok demo_env" "conf_fs_small demo_fs"
  by (auto simp: caps_bounded_def sigmask_ok_def conf_fs_small_def demo_fs_def conf_text_def setting_line_def)

definition demo_booted :: "string \<Rightarrow> world \<Rightarrow> Manager" where
  "demo_booted f w = (manager_initial demo_names f None [])\<lparr>m_event := True, m_resolve := True,
     m_network_monitor := Some 6, m_network_event_source := True, world := w\<rparr>"

lemma demo_new: "\<exists>w'. manager_new demo_env f None w = Ret (0, Some (demo_booted f w'), w')"
proof -
  have m: "monitor_add_inotify_watch demo_env 6 v = (0, File (Inotify_add_watch 6 ''/run/systemd/netif/links/'' 0x280) # v)" for v
    by (simp add: monitor_add_inotify_watch_def sys_def)
  show ?thesis
    by (simp add: manager_new_def default_address m_sys_def m_call_def manager_network_monitor_listen_def m_io_def sd_network_monitor_new_def
       sys_def m sd_network_monitor_get_fd_def sd_network_monitor_get_events_def demo_booted_def manager_initial_def)
qed

lemma demo_config: "\<exists>m'. manager_parse_config_file demo_env demo_fs ops ''/run'' (demo_booted f w) = Ret (0, m') \<and> m' = demo_booted f w"
  by (simp add: manager_parse_config_file_def config_parse_many_def demo_fs_files config_parse_def config_parse_opened_def conf_fopen_def
     demo_fs_open demo_booted_def manager_initial_def DEFAULT_CONNECTION_RETRY_USEC_def)

lemma demo_setup: "\<exists>w'. setup_cursor_state_file demo_env (demo_booted STATE_FILE w) uid gid = Ret (0, demo_booted STATE_FILE w')"
proof -
  have "strrchr STATE_FILE CHR ''/'' = Some (''/var/lib/systemd/journal-netlogd'', ''state'')"
    by (simp add: STATE_FILE_def strrchr_def)
  then have "mkdir_parents demo_env STATE_FILE 493 v = (0, Proc (Stat ''/var/lib/systemd/journal-netlogd'' True) # v)" for v
    by (simp add: mkdir_parents_def mkdir_parents_internal_def is_dir_def sys_def S_ISDIR_def)
  moreover have "\<exists>w'. chmod_and_chown demo_env p 484 uid gid v = (0, w')" for p v
    by (simp add: chmod_and_chown_def sys_def MODE_INVALID_def)
  then obtain w2 where "chmod_and_chown demo_env ''/var/lib/systemd/journal-netlogd'' 484 uid gid (Proc (Stat ''/var/lib/systemd/journal-netlogd'' True) # w) = (0, w2)"
    by blast
  ultimately show ?thesis
    by (simp add: setup_cursor_state_file_def demo_booted_def manager_initial_def m_pure_def m_sys_def m_call_def m_io_def
       safe_close_ok [OF demo_env_ok(1)])
qed


lemma demo_credentials: "\<exists>w'. resolve_user_credentials demo_env w = (Inr (0, 0), w')"
proof -
  have "isl (parse_uid NETLOG_USER)" by code_simp
  then obtain r where "parse_uid NETLOG_USER = Inl r" by (cases "parse_uid NETLOG_USER") auto
  moreover have "len demo_env v c = 0" for v c by (simp add: demo_env_def)
  ultimately show ?thesis
    by (auto simp: resolve_user_credentials_def get_user_creds_def NETLOG_USER_def sys_def Let_def uid_is_valid_def)
qed

lemma demo_drop: "\<exists>w'. drop_privileges 41 demo_env 0 0 netlogd_caps w = Ret (0, w')"
proof -
  have one: "\<exists>c w. drop_one demo_env rn i cap v = (0, c, w)" for rn i cap v
    by (simp add: drop_one_def set_flag_def sys_def Let_def)
  have loop: "\<exists>c w. drop_loop demo_env keep rn is cap v = (0, c, w)" for keep rn "is" cap v
  proof (induction "is" arbitrary: cap v)
    case (Cons i "is")
    obtain c u where "drop_one demo_env rn i cap v = (0, c, u)" using one by blast
    then show ?case using Cons by simp
  qed simp
  have bound: "\<exists>w. capability_bounding_set_drop 41 demo_env netlogd_caps True v = Ret (0, w)" for v
  proof -
    have "\<exists>w. raise_setpcap demo_env u = (0, w)" for u
      by (simp add: raise_setpcap_def set_flag_def sys_def)
    then obtain u where u: "raise_setpcap demo_env (Proc (Cap_get_flag CAP_SETPCAP CAP_EFFECTIVE) # Proc Cap_get_proc # v) = (0, u)" by blast
    obtain q u2 where q: "cap_last_cap 41 demo_env u = Ret (q, u2)" using cap_last_cap_returns [OF demo_caps(1), of 41] by force
    obtain c u3 where "drop_loop demo_env netlogd_caps True [0..<Suc q] (True, []) u2 = (0, c, u3)" using loop by blast
    with u q show ?thesis
      by (simp add: capability_bounding_set_drop_def sys_def Let_def caps_finish_def del: upt_Suc)
  qed
  have grant: "\<exists>w. grant_caps demo_env netlogd_caps v = Ret (0, w)" for v
    using netlogd_caps_kept by (simp add: grant_caps_def set_flag_def sys_def)
  obtain u where u: "switch_user demo_env 0 0 w = (0, u)" by (simp add: switch_user_def sys_def)
  obtain u2 where "capability_bounding_set_drop 41 demo_env netlogd_caps True u = Ret (0, u2)" using bound by blast
  then show ?thesis using u grant [of u2] by (simp add: drop_privileges_def)
qed

lemma demo_start: "\<exists>w. main_start 41 demo_env demo_fs ops ''/run'' [] False [] = Ret (Loop (demo_booted STATE_FILE w))"
proof -
  have a: "parse_argv [] False = (1, \<lparr>arg_cursor = None, arg_save_state = STATE_FILE\<rparr>)" by (simp add: parse_argv_def)
  obtain w1 where c: "resolve_user_credentials demo_env [Proc (Umask 18)] = (Inr (0, 0), w1)" using demo_credentials by blast
  obtain w2 where n: "manager_new demo_env STATE_FILE None w1 = Ret (0, Some (demo_booted STATE_FILE w2), w2)" using demo_new by blast
  have p: "manager_parse_config_file demo_env demo_fs ops ''/run'' (demo_booted STATE_FILE w2) = Ret (0, demo_booted STATE_FILE w2)"
    using demo_config by blast
  have i: "initialize_ssl_manager demo_env (demo_booted STATE_FILE w2) = (0, demo_booted STATE_FILE w2)"
    by (simp add: initialize_ssl_manager_def demo_booted_def manager_initial_def)
  obtain w3 where s: "setup_cursor_state_file demo_env (demo_booted STATE_FILE w2) 0 0 = Ret (0, demo_booted STATE_FILE w3)"
    using demo_setup by blast
  obtain w4 where "drop_privileges 41 demo_env 0 0 netlogd_caps w3 = Ret (0, w4)" using demo_drop by blast
  then have d: "m_io (drop_privileges 41 demo_env 0 0 netlogd_caps) (demo_booted STATE_FILE w3) = Ret (0, demo_booted STATE_FILE w4)"
    by (simp add: m_io_def demo_booted_def)
  show ?thesis by (simp add: main_start_def a c n p i s d) blast
qed

lemma demo_begin: "\<exists>m1. run_event_loop_begin 41 demo_env (demo_booted f w) = Ret m1"
proof -
  have wf: "daemon_wf (demo_booted f w)"
    by (simp add: demo_booted_def daemon_wf_def manager_wf_def ssl_opt_wf_def manager_initial_def)
  have "connect_bounded 41 demo_env (demo_booted f w)"
    using demo_env_ok(4) by (auto simp: connect_bounded_def demo_booted_def manager_initial_def ratelimit_configured_def)
  then have b: "connect_bounded 41 demo_env ((demo_booted f w)\<lparr>world := v\<rparr>)" for v by simp
  have "daemon_wf ((demo_booted f w)\<lparr>world := v\<rparr>)" for v using wf by simp
  then have "manager_wf ((demo_booted f w)\<lparr>world := v\<rparr>)" for v unfolding daemon_wf_def by blast
  then have "manager_connect 41 demo_env ((demo_booted f w)\<lparr>world := v\<rparr>) \<noteq> Diverge" for v
    using connect_bounded_returns [OF demo_env_ok(1) _ b] by blast
  then have "obind (manager_connect 41 demo_env ((demo_booted f w)\<lparr>world := v\<rparr>)) (\<lambda>(r, m). Ret m) \<noteq> Diverge" for v
    by (rule obind_not_Diverge) auto
  then have "run_event_loop_begin 41 demo_env (demo_booted f w) \<noteq> Diverge"
    by (simp add: run_event_loop_begin_def Let_def m_call_def)
  with run_event_loop_begin_wf [OF demo_env_ok(1) wf, of 41] show ?thesis
    by (cases "run_event_loop_begin 41 demo_env (demo_booted f w)") auto
qed

end
