(* ===== verification/Siphash.thy ===== *)
theory Siphash
  imports String_Util
begin

text \<open>
  \<open>src/share/unaligned.h\<close>, \<open>src/share/siphash24.c\<close> and \<open>src/share/hash-funcs.c\<close>: integers in
  memory, the keyed hash function SipHash-2-4 on input that comes in pieces, and the
  hash and comparison functions of the hash tables.  Memory is a list of bytes.
\<close>

unbundle bit_operations_syntax

section \<open>Integers in memory\<close>

definition unaligned_read_le16 :: "u8 list \<Rightarrow> u16" where
  "unaligned_read_le16 u = push_bit 8 (ucast (u ! 1)) OR ucast (u ! 0)"

definition unaligned_read_le32 :: "u8 list \<Rightarrow> u32" where
  "unaligned_read_le32 u = push_bit 16 (ucast (unaligned_read_le16 (drop 2 u))) OR ucast (unaligned_read_le16 u)"

definition unaligned_read_le64 :: "u8 list \<Rightarrow> u64" where
  "unaligned_read_le64 u = push_bit 32 (ucast (unaligned_read_le32 (drop 4 u))) OR ucast (unaligned_read_le32 u)"

definition unaligned_read_be16 :: "u8 list \<Rightarrow> u16" where
  "unaligned_read_be16 u = push_bit 8 (ucast (u ! 0)) OR ucast (u ! 1)"

definition unaligned_read_be32 :: "u8 list \<Rightarrow> u32" where
  "unaligned_read_be32 u = push_bit 16 (ucast (unaligned_read_be16 u)) OR ucast (unaligned_read_be16 (drop 2 u))"

definition unaligned_read_be64 :: "u8 list \<Rightarrow> u64" where
  "unaligned_read_be64 u = push_bit 32 (ucast (unaligned_read_be32 u)) OR ucast (unaligned_read_be32 (drop 4 u))"

text \<open>The writers give the bytes that are stored.\<close>

definition unaligned_write_le16 :: "u16 \<Rightarrow> u8 list" where
  "unaligned_write_le16 a = [ucast a, ucast (drop_bit 8 a)]"

definition unaligned_write_le32 :: "u32 \<Rightarrow> u8 list" where
  "unaligned_write_le32 a = unaligned_write_le16 (ucast a) @ unaligned_write_le16 (ucast (drop_bit 16 a))"

definition unaligned_write_le64 :: "u64 \<Rightarrow> u8 list" where
  "unaligned_write_le64 a = unaligned_write_le32 (ucast a) @ unaligned_write_le32 (ucast (drop_bit 32 a))"

definition unaligned_write_be16 :: "u16 \<Rightarrow> u8 list" where
  "unaligned_write_be16 a = [ucast (drop_bit 8 a), ucast a]"

definition unaligned_write_be32 :: "u32 \<Rightarrow> u8 list" where
  "unaligned_write_be32 a = unaligned_write_be16 (ucast (drop_bit 16 a)) @ unaligned_write_be16 (ucast a)"

definition unaligned_write_be64 :: "u64 \<Rightarrow> u8 list" where
  "unaligned_write_be64 a = unaligned_write_be32 (ucast (drop_bit 32 a)) @ unaligned_write_be32 (ucast a)"

lemmas unaligned_defs =
  unaligned_read_le16_def unaligned_read_le32_def unaligned_read_le64_def
  unaligned_read_be16_def unaligned_read_be32_def unaligned_read_be64_def
  unaligned_write_le16_def unaligned_write_le32_def unaligned_write_le64_def
  unaligned_write_be16_def unaligned_write_be32_def unaligned_write_be64_def

section \<open>SipHash\<close>

record siphash =
  sip_v0 :: u64
  sip_v1 :: u64
  sip_v2 :: u64
  sip_v3 :: u64
  sip_padding :: u64
  sip_inlen :: u64

definition rotate_left :: "u64 \<Rightarrow> nat \<Rightarrow> u64" where
  "rotate_left x b = push_bit b x OR drop_bit (64 - b) x"

definition sipround :: "siphash \<Rightarrow> siphash" where
  "sipround s =
     (let v0 = sip_v0 s + sip_v1 s;
          v1 = rotate_left (sip_v1 s) 13;
          v1 = v1 XOR v0;
          v0 = rotate_left v0 32;
          v2 = sip_v2 s + sip_v3 s;
          v3 = rotate_left (sip_v3 s) 16;
          v3 = v3 XOR v2;
          v0 = v0 + v3;
          v3 = rotate_left v3 21;
          v3 = v3 XOR v0;
          v2 = v2 + v1;
          v1 = rotate_left v1 17;
          v1 = v1 XOR v2;
          v2 = rotate_left v2 32
      in s\<lparr>sip_v0 := v0, sip_v1 := v1, sip_v2 := v2, sip_v3 := v3\<rparr>)"

definition siphash24_init :: "u8 list \<Rightarrow> siphash" where
  "siphash24_init k =
     (let k0 = unaligned_read_le64 k; k1 = unaligned_read_le64 (drop 8 k)
      in \<lparr>sip_v0 = 0x736f6d6570736575 XOR k0, sip_v1 = 0x646f72616e646f6d XOR k1,
          sip_v2 = 0x6c7967656e657261 XOR k0, sip_v3 = 0x7465646279746573 XOR k1,
          sip_padding = 0, sip_inlen = 0\<rparr>)"

text \<open>Mixing a word of the input into the state.\<close>

definition sip_mix :: "u64 \<Rightarrow> siphash \<Rightarrow> siphash" where
  "sip_mix m s =
     (let s = s\<lparr>sip_v3 := sip_v3 s XOR m\<rparr>;
          s = sipround (sipround s)
      in s\<lparr>sip_v0 := sip_v0 s XOR m\<rparr>)"

fun fill_padding :: "u8 list \<Rightarrow> nat \<Rightarrow> u64 \<Rightarrow> u8 list \<times> nat \<times> u64" where
  \<comment> \<open>the loop that fills out the padding\<close>
  "fill_padding [] left padding = ([], left, padding)"
| "fill_padding (b # bs) left padding =
     (if left < 8 then fill_padding bs (Suc left) (padding OR push_bit (left * 8) (ucast b)) else (b # bs, left, padding))"

function sip_words :: "nat \<Rightarrow> u8 list \<Rightarrow> siphash \<Rightarrow> u8 list \<times> siphash" where
  \<comment> \<open>the loop over the whole words: \<open>todo\<close> is \<open>end - in\<close>\<close>
  "sip_words todo bytes s =
     (if todo = 0 then (bytes, s) else sip_words (todo - 8) (drop 8 bytes) (sip_mix (unaligned_read_le64 bytes) s))"
  by pat_completeness auto
termination by (relation "measure fst") auto

declare sip_words.simps [simp del]

fun tail_padding :: "nat \<Rightarrow> u8 list \<Rightarrow> u64 \<Rightarrow> u64" where
  \<comment> \<open>the \<open>switch\<close> that falls through, from \<open>in[left - 1]\<close> down\<close>
  "tail_padding 0 bytes padding = padding"
| "tail_padding (Suc left) bytes padding = tail_padding left bytes (padding OR push_bit (left * 8) (ucast (bytes ! left)))"

definition siphash24_compress :: "u8 list \<Rightarrow> siphash \<Rightarrow> siphash" where
  "siphash24_compress bytes s =
     (let left = unat (sip_inlen s AND 7);
          s = s\<lparr>sip_inlen := sip_inlen s + of_nat (length bytes)\<rparr>;
          (bytes, left, padding) = (if 0 < left then fill_padding bytes left (sip_padding s) else (bytes, left, sip_padding s))
      in if 0 < left \<and> bytes = [] \<and> left < 8 then s\<lparr>sip_padding := padding\<rparr>
         else let s = (if 0 < left then (sip_mix padding s)\<lparr>sip_padding := 0\<rparr> else s);
                  (bytes, s) = sip_words (length bytes - unat (sip_inlen s mod 8)) bytes s
              in s\<lparr>sip_padding := tail_padding (unat (sip_inlen s AND 7)) bytes (sip_padding s)\<rparr>)"

definition siphash24_finalize :: "siphash \<Rightarrow> u64" where
  "siphash24_finalize s =
     (let b = sip_padding s OR push_bit 56 (sip_inlen s);
          s = sip_mix b s;
          s = s\<lparr>sip_v2 := sip_v2 s XOR 0xff\<rparr>;
          s = sipround (sipround (sipround (sipround s)))
      in sip_v0 s XOR sip_v1 s XOR sip_v2 s XOR sip_v3 s)"

definition siphash24 :: "u8 list \<Rightarrow> u8 list \<Rightarrow> u64" where
  "siphash24 bytes k = siphash24_finalize (siphash24_compress bytes (siphash24_init k))"

section \<open>One byte at a time\<close>

text \<open>
  The reference: a byte is put behind the ones that wait for a whole word, and a word is mixed in
  as soon as it is complete.
\<close>

definition absorb_byte :: "u8 \<Rightarrow> siphash \<Rightarrow> siphash" where
  "absorb_byte b s =
     (let left = unat (sip_inlen s mod 8);
          p = sip_padding s OR push_bit (left * 8) (ucast b);
          s = s\<lparr>sip_inlen := sip_inlen s + 1\<rparr>
      in if left = 7 then (sip_mix p s)\<lparr>sip_padding := 0\<rparr> else s\<lparr>sip_padding := p\<rparr>)"

definition sip_wf :: "siphash \<Rightarrow> bool" where
  "sip_wf s \<longleftrightarrow> (sip_inlen s mod 8 = 0 \<longrightarrow> sip_padding s = 0)"

lemma inlen_and7: "(n :: u64) AND 7 = n mod 8"
  using take_bit_eq_mask [of 3 n] by (simp add: take_bit_eq_mod mask_eq_exp_minus_1)

lemma inlen_mod8: "unat ((n :: u64) mod 8) = unat n mod 8"
  by (simp add: unat_mod)

lemma inlen_step: "unat ((n + 1 :: u64) mod 8) = Suc (unat (n mod 8)) mod 8"
proof -
  have "unat (n + 1) mod 8 = (unat n + 1) mod 2 ^ 64 mod 8" by (simp add: unat_word_ariths)
  also have "\<dots> = (unat n + 1) mod 8" by (rule mod_mod_cancel) simp
  finally show ?thesis by (simp add: inlen_mod8 mod_Suc_eq)
qed

lemma sip_mix_inlen [simp]: "sip_inlen (sip_mix m s) = sip_inlen s" "sip_padding (sip_mix m s) = sip_padding s"
  by (simp_all add: sip_mix_def sipround_def Let_def)

lemma sip_mix_update [simp]:
  "sip_mix m (s\<lparr>sip_inlen := n\<rparr>) = (sip_mix m s)\<lparr>sip_inlen := n\<rparr>"
  "sip_mix m (s\<lparr>sip_padding := p\<rparr>) = (sip_mix m s)\<lparr>sip_padding := p\<rparr>"
  by (simp_all add: sip_mix_def sipround_def Let_def)

lemma inlen_full: "(n + 1 :: u64) mod 8 = 0 \<longleftrightarrow> unat (n mod 8) = 7"
proof -
  have "(n + 1) mod 8 = 0 \<longleftrightarrow> Suc (unat (n mod 8)) mod 8 = 0"
    unfolding inlen_step [symmetric] by (simp add: unat_eq_zero)
  moreover have "unat (n mod 8) < 8" by (simp add: inlen_mod8)
  ultimately show ?thesis by (auto simp: mod_Suc split: if_splits)
qed

lemma absorb_byte_wf: "sip_wf s \<Longrightarrow> sip_wf (absorb_byte b s)"
  by (simp add: absorb_byte_def sip_wf_def Let_def inlen_full)

lemma absorb_bytes_wf: "sip_wf s \<Longrightarrow> sip_wf (fold absorb_byte bs s)"
  by (induction bs arbitrary: s) (simp_all add: absorb_byte_wf)

lemma absorb_inlen: "sip_inlen (fold absorb_byte bs s) = sip_inlen s + of_nat (length bs)"
  by (induction bs arbitrary: s) (simp_all add: absorb_byte_def Let_def)



lemma ucast_push8:
  "(ucast (push_bit 8 (ucast (b :: u8) :: u16)) :: u32) = push_bit 8 (ucast b)"
  "(ucast (push_bit 8 (ucast (b :: u8) :: u32)) :: u64) = push_bit 8 (ucast b)"
  "(ucast (push_bit 16 (ucast (b :: u8) :: u32)) :: u64) = push_bit 16 (ucast b)"
  "(ucast (push_bit 24 (ucast (b :: u8) :: u32)) :: u64) = push_bit 24 (ucast b)"
  "(ucast (ucast (b :: u8) :: u16) :: u32) = ucast b" "(ucast (ucast (b :: u8) :: u32) :: u64) = ucast b"
  by (rule bit_word_eqI; auto simp: bit_simps dest: bit_imp_le_length)+

lemma read_le64_bytes:
  "unaligned_read_le64 (b0 # b1 # b2 # b3 # b4 # b5 # b6 # b7 # bs) =
     ucast b0 OR push_bit 8 (ucast b1) OR push_bit 16 (ucast b2) OR push_bit 24 (ucast b3) OR
     push_bit 32 (ucast b4) OR push_bit 40 (ucast b5) OR push_bit 48 (ucast b6) OR push_bit 56 (ucast b7)"
proof -
  have r16: "unaligned_read_le16 (x # y # zs) = push_bit 8 (ucast y) OR ucast x" for x y zs
    by (simp add: unaligned_read_le16_def)
  have r32: "unaligned_read_le32 (x # y # z # t # zs) =
      push_bit 24 (ucast t) OR push_bit 16 (ucast z) OR push_bit 8 (ucast y) OR ucast x" for x y z t zs
    by (simp add: unaligned_read_le32_def r16 unsigned_or_eq ucast_push8 push_bit_or or.assoc)
  show ?thesis
    by (simp add: unaligned_read_le64_def r32 unsigned_or_eq ucast_push8 push_bit_or or.assoc or.commute or.left_commute)
qed

lemma fill_padding_step:
  assumes "unat (sip_inlen s mod 8) < 7"
  shows "unat (sip_inlen (absorb_byte b s) mod 8) = Suc (unat (sip_inlen s mod 8))"
    "absorb_byte b s = s\<lparr>sip_padding := sip_padding s OR push_bit (unat (sip_inlen s mod 8) * 8) (ucast b), sip_inlen := sip_inlen s + 1\<rparr>"
  using assms inlen_step [of "sip_inlen s"] by (simp_all add: absorb_byte_def Let_def)

text \<open>Filling the padding without completing it.\<close>

lemma absorb_partial:
  "unat (sip_inlen s mod 8) + length bs < 8 \<Longrightarrow>
     fill_padding bs (unat (sip_inlen s mod 8)) (sip_padding s) =
       ([], unat (sip_inlen s mod 8) + length bs, sip_padding (fold absorb_byte bs s)) \<and>
     fold absorb_byte bs s = s\<lparr>sip_padding := sip_padding (fold absorb_byte bs s), sip_inlen := sip_inlen s + of_nat (length bs)\<rparr>"
proof (induction bs arbitrary: s)
  case (Cons b bs)
  then have lt: "unat (sip_inlen s mod 8) < 7" by simp
  note st = fill_padding_step [OF lt, of b]
  have IH: "fill_padding bs (Suc (unat (sip_inlen s mod 8))) (sip_padding (absorb_byte b s)) =
      ([], Suc (unat (sip_inlen s mod 8)) + length bs, sip_padding (fold absorb_byte bs (absorb_byte b s)))"
    "fold absorb_byte bs (absorb_byte b s) = (absorb_byte b s)\<lparr>sip_padding := sip_padding (fold absorb_byte bs (absorb_byte b s)),
       sip_inlen := sip_inlen (absorb_byte b s) + of_nat (length bs)\<rparr>"
    using Cons.IH [of "absorb_byte b s"] Cons.prems st(1) by simp_all
  have p: "sip_padding (absorb_byte b s) = sip_padding s OR push_bit (unat (sip_inlen s mod 8) * 8) (ucast b)"
      "sip_inlen (absorb_byte b s) = sip_inlen s + 1"
    by (simp_all add: st(2))
  show ?case using lt IH(1) by (simp add: p) (subst IH(2), simp add: st(2) add.assoc)
qed simp

lemma absorb_complete:
  assumes "unat (sip_inlen s mod 8) + length bs = 8" "bs \<noteq> []"
  shows "fill_padding bs (unat (sip_inlen s mod 8)) (sip_padding s) =
      ([], 8, snd (snd (fill_padding bs (unat (sip_inlen s mod 8)) (sip_padding s))))"
    "fold absorb_byte bs s = (sip_mix (snd (snd (fill_padding bs (unat (sip_inlen s mod 8)) (sip_padding s)))) s)
       \<lparr>sip_padding := 0, sip_inlen := sip_inlen s + of_nat (length bs)\<rparr>"
proof -
  obtain cs b where bs: "bs = cs @ [b]" using assms(2) by (cases bs rule: rev_cases) auto
  have lt: "unat (sip_inlen s mod 8) + length cs < 8" using assms(1) bs by simp
  let ?t = "fold absorb_byte cs s"
  note part = absorb_partial [OF lt]
  have app: "left + length cs < 8 \<Longrightarrow> fill_padding (cs @ [b]) left p = (let (r, l, q) = fill_padding cs left p in fill_padding [b] l q)" for left p
    by (induction cs arbitrary: left p) simp_all
  have l7: "unat (sip_inlen s mod 8) + length cs = 7" using assms(1) bs by simp
  have fp: "fill_padding bs (unat (sip_inlen s mod 8)) (sip_padding s) = ([], 8, sip_padding ?t OR push_bit 56 (ucast b))"
    using app [OF lt, of "sip_padding s"] part l7 by (simp add: bs)
  then show "fill_padding bs (unat (sip_inlen s mod 8)) (sip_padding s) =
      ([], 8, snd (snd (fill_padding bs (unat (sip_inlen s mod 8)) (sip_padding s))))" by simp
  have "sip_inlen ?t = sip_inlen s + of_nat (length cs)" by (rule absorb_inlen)
  moreover have "unat ((sip_inlen s + of_nat (length cs)) mod 8) = 7"
  proof -
    have "unat (sip_inlen s + of_nat (length cs)) mod 8 = (unat (sip_inlen s) + length cs) mod 8"
    proof -
      have "unat (sip_inlen s + of_nat (length cs)) = (unat (sip_inlen s) + length cs) mod 2 ^ 64"
        using l7 by (simp add: unat_word_ariths unat_of_nat)
      then show ?thesis by (simp add: mod_mod_cancel)
    qed
    also have "\<dots> = (unat (sip_inlen s) mod 8 + length cs) mod 8" by (simp add: mod_add_left_eq)
    also have "\<dots> = 7" using l7 by (simp add: inlen_mod8)
    finally show ?thesis by (simp add: inlen_mod8)
  qed
  ultimately have "absorb_byte b ?t = (sip_mix (sip_padding ?t OR push_bit 56 (ucast b)) ?t)\<lparr>sip_padding := 0, sip_inlen := sip_inlen ?t + 1\<rparr>"
    by (simp add: absorb_byte_def Let_def)
  then show "fold absorb_byte bs s = (sip_mix (snd (snd (fill_padding bs (unat (sip_inlen s mod 8)) (sip_padding s)))) s)
       \<lparr>sip_padding := 0, sip_inlen := sip_inlen s + of_nat (length bs)\<rparr>"
    unfolding fp by (simp add: bs) (subst (1 2) conjunct2 [OF part], simp add: add.assoc)
qed

lemma eight_bytes: "8 \<le> length bs \<Longrightarrow> \<exists>b0 b1 b2 b3 b4 b5 b6 b7 r. bs = b0 # b1 # b2 # b3 # b4 # b5 # b6 # b7 # r"
  by (auto simp: eval_nat_numeral Suc_le_length_iff)

lemma absorb_word:
  assumes "8 \<le> length bs" "sip_inlen s mod 8 = 0" "sip_padding s = 0"
  shows "fold absorb_byte (take 8 bs) s = (sip_mix (unaligned_read_le64 bs) s)\<lparr>sip_inlen := sip_inlen s + 8\<rparr>"
proof -
  obtain b0 b1 b2 b3 b4 b5 b6 b7 r where bs: "bs = b0 # b1 # b2 # b3 # b4 # b5 # b6 # b7 # r"
    using eight_bytes [OF assms(1)] by blast
  have "snd (snd (fill_padding (take 8 bs) 0 0)) = unaligned_read_le64 bs"
    by (simp add: bs read_le64_bytes or.assoc)
  with absorb_complete(2) [of s "take 8 bs"] show ?thesis
    using assms by (simp add: bs)
qed

lemma absorb_words:
  assumes "todo \<le> length bs" "todo mod 8 = 0" "sip_inlen s mod 8 = 0" "sip_padding s = 0"
  shows "sip_words todo bs s =
    (drop todo bs, (fold absorb_byte (take todo bs) s)\<lparr>sip_inlen := sip_inlen s\<rparr>) \<and>
    sip_padding (fold absorb_byte (take todo bs) s) = 0"
  using assms
proof (induction todo bs s rule: sip_words.induct)
  case (1 todo bs s)
  show ?case
  proof (cases "todo = 0")
    case False
    then have t8: "8 \<le> todo" "(todo - 8) mod 8 = 0" using 1 by (cases "todo < 8"; simp add: le_mod_geq)+
    have len: "8 \<le> length bs" using t8 1 by simp
    let ?m = "sip_mix (unaligned_read_le64 bs) s"
    note w = absorb_word [OF len 1(4,5)]
    have IH: "sip_words (todo - 8) (drop 8 bs) ?m =
        (drop (todo - 8) (drop 8 bs), (fold absorb_byte (take (todo - 8) (drop 8 bs)) ?m)\<lparr>sip_inlen := sip_inlen ?m\<rparr>)"
      "sip_padding (fold absorb_byte (take (todo - 8) (drop 8 bs)) ?m) = 0"
      using 1(1) [OF False] 1(2-5) t8 by simp_all
    have shift: "fold absorb_byte xs (s'\<lparr>sip_inlen := n + 8\<rparr>) =
        (fold absorb_byte xs (s'\<lparr>sip_inlen := n\<rparr>))\<lparr>sip_inlen := n + 8 + of_nat (length xs)\<rparr>" for xs s' n
    proof (induction xs arbitrary: s' n)
      case (Cons x xs)
      have "(n + 8) mod 8 = n mod (8 :: u64)"
      proof -
        have "unat (n + 8) mod 8 = (unat n + 8) mod 2 ^ 64 mod 8" by (simp add: unat_word_ariths)
        also have "\<dots> = (unat n + 8) mod 8" by (rule mod_mod_cancel) simp
        finally show ?thesis by (simp add: word_unat_eq_iff unat_mod)
      qed
      then have "absorb_byte x (s'\<lparr>sip_inlen := n + 8\<rparr>) = (absorb_byte x (s'\<lparr>sip_inlen := n\<rparr>))\<lparr>sip_inlen := (n + 1) + 8\<rparr>"
        by (simp add: absorb_byte_def Let_def)
      moreover have "(absorb_byte x (s'\<lparr>sip_inlen := n\<rparr>))\<lparr>sip_inlen := n + 1\<rparr> = absorb_byte x (s'\<lparr>sip_inlen := n\<rparr>)"
        by (simp add: absorb_byte_def Let_def)
      ultimately show ?case using Cons.IH [of "n + 1" "absorb_byte x (s'\<lparr>sip_inlen := n\<rparr>)"] by (simp add: add.assoc)
    qed simp
    have "take todo bs = take 8 bs @ take (todo - 8) (drop 8 bs)" using t8 by (metis add_diff_inverse_nat not_less take_add)
    then have "fold absorb_byte (take todo bs) s = fold absorb_byte (take (todo - 8) (drop 8 bs)) (?m\<lparr>sip_inlen := sip_inlen s + 8\<rparr>)"
      using w by simp
    also have "\<dots> = (fold absorb_byte (take (todo - 8) (drop 8 bs)) (?m\<lparr>sip_inlen := sip_inlen s\<rparr>))
        \<lparr>sip_inlen := sip_inlen s + 8 + of_nat (length (take (todo - 8) (drop 8 bs)))\<rparr>" by (rule shift)
    also have "?m\<lparr>sip_inlen := sip_inlen s\<rparr> = ?m" by simp
    finally show ?thesis using False IH t8 by (subst sip_words.simps) simp
  qed (simp add: sip_words.simps 1)
qed

lemma tail_fill: "n \<le> length bs \<Longrightarrow> n \<le> 8 \<Longrightarrow> tail_padding n bs p = p OR snd (snd (fill_padding (take n bs) 0 0))"
proof (induction n arbitrary: p)
  case (Suc n)
  have app: "left + length cs < 8 \<Longrightarrow> snd (snd (fill_padding (cs @ [b]) left q)) =
      snd (snd (fill_padding cs left q)) OR push_bit ((left + length cs) * 8) (ucast b)" for cs b left q
    by (induction cs arbitrary: left q) (simp_all add: add.assoc)
  from Suc show ?case by (simp add: take_Suc_conv_app_nth app or.assoc or.commute or.left_commute)
qed simp

lemma inlen_add: "unat ((n + of_nat l :: u64) mod 8) = (unat (n mod 8) + l) mod 8"
proof -
  have m: "l mod 2 ^ 64 mod 8 = l mod 8" by (rule mod_mod_cancel) simp
  have "unat (n + of_nat l) = (unat n + l mod 2 ^ 64) mod 2 ^ 64" by (simp add: unat_word_ariths unat_of_nat)
  then have "unat (n + of_nat l) mod 8 = (unat n + l mod 2 ^ 64) mod 8" by (simp add: mod_mod_cancel)
  also have "\<dots> = (unat n + l) mod 8" by (metis m mod_add_right_eq)
  finally show ?thesis by (simp add: inlen_mod8 mod_add_left_eq)
qed

lemma sip_words_inlen:
  "sip_words todo bs (s\<lparr>sip_inlen := n\<rparr>) = (fst (sip_words todo bs s), (snd (sip_words todo bs s))\<lparr>sip_inlen := n\<rparr>)"
proof (induction todo bs s rule: sip_words.induct)
  case (1 todo bs s)
  then show ?case
    by (cases "todo = 0") (simp_all add: sip_words.simps [of todo] sip_words.simps [of 0])
qed

lemma sip_words_inlen_padding:
  "sip_words todo bs (s\<lparr>sip_inlen := n, sip_padding := p\<rparr>) =
     (fst (sip_words todo bs (s\<lparr>sip_padding := p\<rparr>)), (snd (sip_words todo bs (s\<lparr>sip_padding := p\<rparr>)))\<lparr>sip_inlen := n\<rparr>)"
  using sip_words_inlen [of todo bs n "s\<lparr>sip_padding := p\<rparr>"] by (cases s) simp

text \<open>Words and tail of the input, once no byte is waiting.\<close>

lemma compress_words:
  fixes t bs
  defines "n \<equiv> sip_inlen t + of_nat (length bs)"
  assumes "sip_inlen t mod 8 = 0" "sip_padding t = 0"
  shows "(let (bytes, s) = sip_words (length bs - unat (n mod 8)) bs (t\<lparr>sip_inlen := n\<rparr>)
    in s\<lparr>sip_padding := tail_padding (unat (n mod 8)) bytes (sip_padding s)\<rparr>) = fold absorb_byte bs t"
proof -
  have n: "unat (n mod 8) = length bs mod 8" using assms(2) inlen_add [of "sip_inlen t" "length bs"] by (simp add: n_def)
  let ?todo = "length bs - length bs mod 8"
  let ?t = "fold absorb_byte (take ?todo bs) t" and ?r = "drop ?todo bs"
  have td: "?todo \<le> length bs" "?todo mod 8 = 0" by (simp_all add: minus_mod_eq_mult_div)
  note w = absorb_words [OF td assms(2,3)]
  have r: "length ?r = length bs mod 8" by simp
  have inl: "unat (sip_inlen ?t mod 8) = 0"
    using assms(2) td(2) inlen_add [of "sip_inlen t" ?todo] by (simp add: absorb_inlen)
  then have part: "fold absorb_byte ?r ?t = ?t\<lparr>sip_padding := snd (snd (fill_padding ?r 0 0)), sip_inlen := sip_inlen ?t + of_nat (length ?r)\<rparr>"
    using absorb_partial [of ?t ?r] w r by simp
  have "sip_inlen ?t + of_nat (length ?r) = n"
    unfolding n_def absorb_inlen r by (simp flip: of_nat_add)
  moreover have "fold absorb_byte bs t = fold absorb_byte ?r ?t"
    by (metis append_take_drop_id fold_append o_apply)
  moreover have "tail_padding (length bs mod 8) ?r 0 = snd (snd (fill_padding ?r 0 0))"
    using tail_fill [of "length bs mod 8" ?r 0] r by simp
  ultimately show ?thesis
    using w part by (simp add: n sip_words_inlen)
qed

lemma fill_padding_split:
  "left + length cs = 8 \<Longrightarrow> fill_padding (cs @ ds) left p = (ds, 8, snd (snd (fill_padding cs left p)))"
proof (induction cs arbitrary: left p)
  case Nil
  then show ?case by (cases ds) simp_all
qed simp

lemma siphash24_compress_bytes:
  assumes "sip_wf s"
  shows "siphash24_compress bs s = fold absorb_byte bs s"
proof (cases "sip_inlen s mod 8 = 0")
  case True
  then show ?thesis
    using assms compress_words [OF True, of bs]
    by (simp add: siphash24_compress_def sip_wf_def inlen_and7 Let_def sip_words_inlen)
next
  case False
  define left where "left = unat (sip_inlen s mod 8)"
  have "left \<noteq> 0" using False by (simp only: left_def unat_eq_zero not_False_eq_True)
  moreover have "left < 8" by (simp add: left_def inlen_mod8)
  ultimately have left: "0 < left" "left < 8" by simp_all
  show ?thesis
  proof (cases "left + length bs < 8")
    case True
    have part: "fill_padding bs left (sip_padding s) = ([], left + length bs, sip_padding (fold absorb_byte bs s))"
      "fold absorb_byte bs s = s\<lparr>sip_padding := sip_padding (fold absorb_byte bs s), sip_inlen := sip_inlen s + of_nat (length bs)\<rparr>"
      using absorb_partial [of s bs] True unfolding left_def by blast+
    show ?thesis
      by (subst part(2)) (simp add: siphash24_compress_def inlen_and7 Let_def part(1) True left flip: left_def)
  next
    case over: False
    define cs where "cs = take (8 - left) bs"
    define ds where "ds = drop (8 - left) bs"
    have bs: "bs = cs @ ds" and cs: "left + length cs = 8" "cs \<noteq> []" using left over by (auto simp: cs_def ds_def)
    define p where "p = snd (snd (fill_padding cs left (sip_padding s)))"
    let ?t = "(sip_mix p s)\<lparr>sip_padding := 0, sip_inlen := sip_inlen s + of_nat (length cs)\<rparr>"
    have t: "fold absorb_byte cs s = ?t" unfolding p_def left_def by (rule absorb_complete(2)) (use cs in \<open>simp_all add: left_def\<close>)
    have t0: "sip_inlen ?t mod 8 = 0"
      using inlen_add [of "sip_inlen s" "length cs"] cs by (simp add: left_def flip: unat_eq_zero)
    have fp: "fill_padding bs left (sip_padding s) = (ds, 8, p)"
      unfolding bs p_def by (rule fill_padding_split [OF cs(1)])
    have n: "sip_inlen s + of_nat (length bs) = sip_inlen ?t + of_nat (length ds)" by (simp add: bs)
    have "siphash24_compress bs s =
        (let (bytes, s) = sip_words (length ds - unat ((sip_inlen ?t + of_nat (length ds)) mod 8)) ds (?t\<lparr>sip_inlen := sip_inlen ?t + of_nat (length ds)\<rparr>)
         in s\<lparr>sip_padding := tail_padding (unat ((sip_inlen ?t + of_nat (length ds)) mod 8)) bytes (sip_padding s)\<rparr>)"
      using left fp unfolding siphash24_compress_def Let_def n
      by (simp add: inlen_and7 flip: left_def) (simp add: sip_words_inlen sip_words_inlen_padding)
    also have "\<dots> = fold absorb_byte ds ?t" by (rule compress_words [OF t0]) simp
    finally show ?thesis by (simp add: bs t)
  qed
qed

lemma siphash24_init_wf: "sip_wf (siphash24_init k)"
  by (simp add: siphash24_init_def sip_wf_def Let_def)

lemma siphash24_compress_wf: "sip_wf s \<Longrightarrow> sip_wf (siphash24_compress bs s)"
  by (simp add: siphash24_compress_bytes absorb_bytes_wf)

section \<open>Hash and comparison functions\<close>

text \<open>A key is hashed into the state; \<open>compare\<close> is 0 for equal keys.\<close>

record 'k hash_ops =
  hash :: "'k \<Rightarrow> siphash \<Rightarrow> siphash"
  compare :: "'k \<Rightarrow> 'k \<Rightarrow> int"

definition string_bytes :: "string \<Rightarrow> u8 list" where
  "string_bytes s = map (\<lambda>c. of_nat (char_code c)) s @ [0]"

definition string_hash_func :: "string \<Rightarrow> siphash \<Rightarrow> siphash" where
  "string_hash_func p state = siphash24_compress (string_bytes p) state"

definition string_hash_ops :: "string hash_ops" where
  "string_hash_ops = \<lparr>hash = string_hash_func, compare = strcmp\<rparr>"

definition trivial_hash_func :: "u64 \<Rightarrow> siphash \<Rightarrow> siphash" where
  \<comment> \<open>the bytes of the pointer itself\<close>
  "trivial_hash_func p state = siphash24_compress (unaligned_write_le64 p) state"

definition trivial_compare_func :: "u64 \<Rightarrow> u64 \<Rightarrow> int" where
  "trivial_compare_func a b = (if a < b then -1 else if b < a then 1 else 0)"

definition trivial_hash_ops :: "u64 hash_ops" where
  "trivial_hash_ops = \<lparr>hash = trivial_hash_func, compare = trivial_compare_func\<rparr>"

definition uint64_hash_func :: "u64 \<Rightarrow> siphash \<Rightarrow> siphash" where
  \<comment> \<open>the key is the integer that the pointer points to\<close>
  "uint64_hash_func p state = siphash24_compress (unaligned_write_le64 p) state"

definition uint64_compare_func :: "u64 \<Rightarrow> u64 \<Rightarrow> int" where
  "uint64_compare_func a b = (if a < b then -1 else if b < a then 1 else 0)"

definition uint64_hash_ops :: "u64 hash_ops" where
  "uint64_hash_ops = \<lparr>hash = uint64_hash_func, compare = uint64_compare_func\<rparr>"

text \<open>What the tables rely on: comparing is an equivalence, and equal keys have equal hashes.\<close>

definition hash_ops_ok :: "'k hash_ops \<Rightarrow> bool" where
  "hash_ops_ok ops \<longleftrightarrow>
     (\<forall>a b. (compare ops a b = 0) = (compare ops b a = 0)) \<and> (\<forall>a. compare ops a a = 0) \<and>
     (\<forall>a b c. compare ops a b = 0 \<longrightarrow> compare ops b c = 0 \<longrightarrow> compare ops a c = 0) \<and>
     (\<forall>a b s. compare ops a b = 0 \<longrightarrow> hash ops a s = hash ops b s)"

lemma hash_ops_exact: "(\<And>a b. (compare ops a b = 0) = (a = b)) \<Longrightarrow> hash_ops_ok ops"
  by (auto simp: hash_ops_ok_def)

lemma trivial_hash_ops_ok: "hash_ops_ok trivial_hash_ops" and uint64_hash_ops_ok: "hash_ops_ok uint64_hash_ops"
  by (rule hash_ops_exact; auto simp: trivial_hash_ops_def trivial_compare_func_def uint64_hash_ops_def uint64_compare_func_def)+

text \<open>
  C40.  The hash of an input does not depend on the pieces in which it is fed to the state: compressing pieces of any lengths one after the other, with the bytes that do not fill a word carried over in the padding, gives the hash of the whole input.
\<close>

theorem siphash24_chunks:
  "siphash24_finalize (fold siphash24_compress chunks (siphash24_init k)) = siphash24 (concat chunks) k"
proof -
  have "sip_wf s \<Longrightarrow> fold siphash24_compress chunks s = fold absorb_byte (concat chunks) s" for s
    by (induction chunks arbitrary: s) (simp_all add: siphash24_compress_bytes absorb_bytes_wf)
  then show ?thesis by (simp add: siphash24_def siphash24_compress_bytes siphash24_init_wf)
qed

end
