(* ===== verification/Hashmap.thy ===== *)
theory Hashmap
  imports Siphash Extract_Word
begin

text \<open>
  \<open>src/share/hashmap.c\<close>: hash tables with open addressing, linear probing and Robin Hood
  displacement.  Keys and values are pointers of the type \<open>'p\<close>; equality on \<open>'p\<close> is equality of
  pointers, while the \<open>compare\<close> operation of a table looks at what keys point to.  Ordered
  hash maps, which link their entries in a list, have no user and are left out, as is the debugging code.
\<close>

unbundle bit_operations_syntax

abbreviation (input) EEXIST :: int where "EEXIST \<equiv> 17"

section \<open>The table\<close>

datatype HashmapType = HASHMAP_TYPE_PLAIN | HASHMAP_TYPE_SET

record 'p hashmap_entry =
  he_key :: 'p
  he_value :: 'p

text \<open>
  The buckets of the storage, where \<open>None\<close> is a bucket that was zeroed, and the array of raw
  distances behind them.  The size and the hash key of the indirect storage are only valid with
  \<open>hb_has_indirect\<close>; the shared key is the same in every table.
\<close>

record 'p HashmapBase =
  hb_hash_ops :: "'p hash_ops"
  hb_type :: HashmapType
  hb_has_indirect :: bool
  hb_buckets :: "'p hashmap_entry option list"
  hb_dibs :: "u8 list"
  hb_n_entries :: nat
  hb_indirect_n_buckets :: nat
  hb_indirect_hash_key :: "u8 list"
  hb_shared_hash_key :: "u8 list"
  hb_idx_lowest_entry :: nat

definition DIB_RAW_OVERFLOW :: u8 where "DIB_RAW_OVERFLOW = 0xfd"
definition DIB_RAW_REHASH :: u8 where "DIB_RAW_REHASH = 0xfe"
definition DIB_RAW_FREE :: u8 where "DIB_RAW_FREE = 0xff"
definition DIB_FREE :: nat where "DIB_FREE = 4294967295"
definition IDX_NIL :: nat where "IDX_NIL = 4294967295"

definition entry_size :: "HashmapType \<Rightarrow> nat" where
  "entry_size t = (case t of HASHMAP_TYPE_PLAIN \<Rightarrow> 16 | HASHMAP_TYPE_SET \<Rightarrow> 8)"

definition n_direct_buckets :: "HashmapType \<Rightarrow> nat" where
  \<comment> \<open>\<open>struct direct_storage\<close> has 39 bytes\<close>
  "n_direct_buckets t = 39 div (entry_size t + 1)"

definition n_buckets :: "'p HashmapBase \<Rightarrow> nat" where
  "n_buckets h = (if hb_has_indirect h then hb_indirect_n_buckets h else n_direct_buckets (hb_type h))"

definition n_entries :: "'p HashmapBase \<Rightarrow> nat" where
  "n_entries h = hb_n_entries h"

definition n_entries_inc :: "'p HashmapBase \<Rightarrow> 'p HashmapBase" where
  "n_entries_inc h = h\<lparr>hb_n_entries := hb_n_entries h + 1\<rparr>"

definition n_entries_dec :: "'p HashmapBase \<Rightarrow> 'p HashmapBase" where
  "n_entries_dec h = h\<lparr>hb_n_entries := hb_n_entries h - 1\<rparr>"

definition hash_key :: "'p HashmapBase \<Rightarrow> u8 list" where
  "hash_key h = (if hb_has_indirect h then hb_indirect_hash_key h else hb_shared_hash_key h)"

definition base_bucket_hash :: "'p HashmapBase \<Rightarrow> 'p \<Rightarrow> nat" where
  "base_bucket_hash h p =
     unat (siphash24_finalize (hash (hb_hash_ops h) p (siphash24_init (hash_key h)))) mod n_buckets h"

definition key_at :: "'p HashmapBase \<Rightarrow> nat \<Rightarrow> 'p" where
  "key_at h idx = he_key (the (hb_buckets h ! idx))"

definition bucket_distance :: "'p HashmapBase \<Rightarrow> nat \<Rightarrow> nat \<Rightarrow> nat" where
  "bucket_distance h idx from = (if from \<le> idx then idx - from else n_buckets h + idx - from)"

definition bucket_calculate_dib :: "'p HashmapBase \<Rightarrow> nat \<Rightarrow> u8 \<Rightarrow> nat" where
  "bucket_calculate_dib h idx raw_dib =
     (if raw_dib = DIB_RAW_FREE then DIB_FREE
      else if raw_dib < DIB_RAW_OVERFLOW then unat raw_dib
      else bucket_distance h idx (base_bucket_hash h (key_at h idx)))"

definition bucket_set_dib :: "'p HashmapBase \<Rightarrow> nat \<Rightarrow> nat \<Rightarrow> 'p HashmapBase" where
  "bucket_set_dib h idx dib =
     h\<lparr>hb_dibs := (hb_dibs h)[idx := if dib \<noteq> DIB_FREE then of_nat (min dib (unat DIB_RAW_OVERFLOW)) else DIB_RAW_FREE]\<rparr>"

definition skip_free_buckets :: "'p HashmapBase \<Rightarrow> nat \<Rightarrow> nat option" where
  \<comment> \<open>\<open>None\<close> is \<open>IDX_NIL\<close>\<close>
  "skip_free_buckets h idx = find (\<lambda>i. hb_dibs h ! i \<noteq> DIB_RAW_FREE) [idx..<n_buckets h]"

definition bucket_mark_free :: "'p HashmapBase \<Rightarrow> nat \<Rightarrow> 'p HashmapBase" where
  "bucket_mark_free h idx = bucket_set_dib (h\<lparr>hb_buckets := (hb_buckets h)[idx := None]\<rparr>) idx DIB_FREE"

text \<open>The swap buckets, and an index that may mean one of them.\<close>

record 'p swap_entries =
  sw_put :: "'p hashmap_entry option"
  sw_tmp :: "'p hashmap_entry option"

datatype virtual_idx = IDX nat | IDX_PUT | IDX_TMP

definition bucket_at_virtual :: "'p HashmapBase \<Rightarrow> 'p swap_entries \<Rightarrow> virtual_idx \<Rightarrow> 'p hashmap_entry option" where
  "bucket_at_virtual h swap idx = (case idx of IDX i \<Rightarrow> hb_buckets h ! i | IDX_PUT \<Rightarrow> sw_put swap | IDX_TMP \<Rightarrow> sw_tmp swap)"

definition bucket_move_entry :: "'p HashmapBase \<Rightarrow> 'p swap_entries \<Rightarrow> virtual_idx \<Rightarrow> virtual_idx \<Rightarrow>
    ('p HashmapBase \<times> 'p swap_entries) outcome" where
  "bucket_move_entry h swap from to =
     c_assert (from \<noteq> to)
      (let e = bucket_at_virtual h swap from
       in Ret (case to of
                 IDX i \<Rightarrow> (h\<lparr>hb_buckets := (hb_buckets h)[i := e]\<rparr>, swap)
               | IDX_PUT \<Rightarrow> (h, swap\<lparr>sw_put := e\<rparr>)
               | IDX_TMP \<Rightarrow> (h, swap\<lparr>sw_tmp := e\<rparr>)))"

definition next_idx :: "'p HashmapBase \<Rightarrow> nat \<Rightarrow> nat" where
  "next_idx h idx = (idx + 1) mod n_buckets h"

definition prev_idx :: "'p HashmapBase \<Rightarrow> nat \<Rightarrow> nat" where
  "prev_idx h idx = (n_buckets h + idx - 1) mod n_buckets h"

definition entry_value :: "'p HashmapBase \<Rightarrow> 'p hashmap_entry \<Rightarrow> 'p" where
  "entry_value h e = (case hb_type h of HASHMAP_TYPE_PLAIN \<Rightarrow> he_value e | HASHMAP_TYPE_SET \<Rightarrow> he_key e)"

section \<open>Looking up\<close>

text \<open>The loops over the buckets have as much fuel as there are buckets, and one more.\<close>

fun base_bucket_scan_loop :: "nat \<Rightarrow> 'p HashmapBase \<Rightarrow> nat \<Rightarrow> nat \<Rightarrow> 'p \<Rightarrow> nat option outcome" where
  "base_bucket_scan_loop 0 h idx distance key = Diverge"
| "base_bucket_scan_loop (Suc fuel) h idx distance key =
     (if hb_dibs h ! idx = DIB_RAW_FREE then Ret None
      else let dib = bucket_calculate_dib h idx (hb_dibs h ! idx)
           in if dib < distance then Ret None
              else if dib = distance \<and> compare (hb_hash_ops h) (key_at h idx) key = 0 then Ret (Some idx)
              else base_bucket_scan_loop fuel h (next_idx h idx) (distance + 1) key)"

definition base_bucket_scan :: "'p HashmapBase \<Rightarrow> nat \<Rightarrow> 'p \<Rightarrow> nat option outcome" where
  "base_bucket_scan h idx key = c_assert (idx < n_buckets h) (base_bucket_scan_loop (Suc (n_buckets h)) h idx 0 key)"

section \<open>Removing\<close>

fun find_stop_bucket :: "nat \<Rightarrow> 'p HashmapBase \<Rightarrow> nat \<Rightarrow> nat \<Rightarrow> nat outcome" where
  \<comment> \<open>the loop that finds the bucket \<open>right\<close>\<close>
  "find_stop_bucket 0 h left right = Diverge"
| "find_stop_bucket (Suc fuel) h left right =
     (let raw_dib = hb_dibs h ! right
      in if raw_dib = 0 \<or> raw_dib = DIB_RAW_FREE then Ret right
         else c_assert (left \<noteq> right) (find_stop_bucket fuel h left (next_idx h right)))"

fun shift_buckets :: "nat \<Rightarrow> 'p HashmapBase \<Rightarrow> nat \<Rightarrow> nat \<Rightarrow> nat \<Rightarrow> (nat \<times> 'p HashmapBase) outcome" where
  \<comment> \<open>the loop that shifts the buckets between \<open>left\<close> and \<open>right\<close>; the result is the last value of \<open>prev\<close>\<close>
  "shift_buckets 0 h prev left right = Diverge"
| "shift_buckets (Suc fuel) h prev left right =
     (if left = right then Ret (prev, h)
      else let dib = bucket_calculate_dib h left (hb_dibs h ! left)
           in c_assert (dib \<noteq> 0)
               (obind (bucket_move_entry h \<lparr>sw_put = None, sw_tmp = None\<rparr> (IDX left) (IDX prev)) (\<lambda>(h, _).
                  shift_buckets fuel (bucket_set_dib h prev (dib - 1)) left (next_idx h left) right)))"

definition base_remove_entry :: "'p HashmapBase \<Rightarrow> nat \<Rightarrow> 'p HashmapBase outcome" where
  "base_remove_entry h idx =
     c_assert (hb_dibs h ! idx \<noteq> DIB_RAW_FREE)
      (obind (find_stop_bucket (n_buckets h) h idx (next_idx h idx)) (\<lambda>right.
       obind (shift_buckets (n_buckets h) h idx (next_idx h idx) right) (\<lambda>(prev, h).
         Ret (n_entries_dec (bucket_mark_free h prev)))))"

section \<open>Inserting\<close>

definition lower_lowest :: "'p HashmapBase \<Rightarrow> nat \<Rightarrow> 'p HashmapBase" where
  "lower_lowest h idx =
     (if hb_has_indirect h \<and> idx < hb_idx_lowest_entry h then h\<lparr>hb_idx_lowest_entry := idx\<rparr> else h)"

fun hashmap_put_robin_hood_loop :: "nat \<Rightarrow> 'p HashmapBase \<Rightarrow> nat \<Rightarrow> nat \<Rightarrow> 'p swap_entries \<Rightarrow>
    (bool \<times> 'p HashmapBase \<times> 'p swap_entries) outcome" where
  "hashmap_put_robin_hood_loop 0 h idx distance swap = Diverge"
| "hashmap_put_robin_hood_loop (Suc fuel) h idx distance swap =
     (let raw_dib = hb_dibs h ! idx
      in if raw_dib = DIB_RAW_FREE \<or> raw_dib = DIB_RAW_REHASH then
           obind (if raw_dib = DIB_RAW_REHASH then bucket_move_entry h swap (IDX idx) IDX_TMP else Ret (h, swap)) (\<lambda>(h, swap).
             let h = bucket_set_dib (lower_lowest h idx) idx distance
             in obind (bucket_move_entry h swap IDX_PUT (IDX idx)) (\<lambda>(h, swap).
                  if raw_dib = DIB_RAW_REHASH
                  then obind (bucket_move_entry h swap IDX_TMP IDX_PUT) (\<lambda>(h, swap). Ret (True, h, swap))
                  else Ret (False, h, swap)))
         else
           let dib = bucket_calculate_dib h idx raw_dib
           in if dib < distance then
                obind (bucket_move_entry (bucket_set_dib h idx distance) swap (IDX idx) IDX_TMP) (\<lambda>(h, swap).
                obind (bucket_move_entry h swap IDX_PUT (IDX idx)) (\<lambda>(h, swap).
                obind (bucket_move_entry h swap IDX_TMP IDX_PUT) (\<lambda>(h, swap).
                  hashmap_put_robin_hood_loop fuel h (next_idx h idx) (dib + 1) swap)))
              else hashmap_put_robin_hood_loop fuel h (next_idx h idx) (distance + 1) swap)"

definition hashmap_put_robin_hood :: "'p HashmapBase \<Rightarrow> nat \<Rightarrow> 'p swap_entries \<Rightarrow> (bool \<times> 'p HashmapBase \<times> 'p swap_entries) outcome" where
  "hashmap_put_robin_hood h idx swap = hashmap_put_robin_hood_loop (n_buckets h) h idx 0 swap"

section \<open>Resizing\<close>

text \<open>
  Whether an allocation of so many bytes succeeds, and the hash key that \<open>get_hash_key\<close> gives:
  16 random bytes, the ones given last when reuse is allowed.
\<close>

record hashmap_env =
  alloc_ok :: "nat \<Rightarrow> bool"
  get_hash_key :: "bool \<Rightarrow> u8 list"

definition UINT_MAX :: nat where "UINT_MAX = 4294967295"

fun log2u :: "nat \<Rightarrow> nat" where
  \<comment> \<open>of a positive number, as the assertion demands\<close>
  "log2u x = (if x < 2 then 0 else Suc (log2u (x div 2)))"

declare log2u.simps [simp del]

definition log2u_round_up :: "nat \<Rightarrow> nat" where
  "log2u_round_up x = (if x = 1 then 0 else log2u (x - 1) + 1)"

definition new_bucket_count :: "'p HashmapBase \<Rightarrow> nat \<Rightarrow> int + nat" where
  \<comment> \<open>\<open>resize_buckets\<close> up to the allocation: what is returned without one, or the number of buckets wanted\<close>
  "new_bucket_count h entries_add =
     (let new_n_entries = (n_entries h + entries_add) mod 2 ^ 32
      in if new_n_entries < entries_add then Inl (- ENOMEM)
         else if \<not> hb_has_indirect h \<and> new_n_entries \<le> n_direct_buckets (hb_type h) then Inl 0
         else let new_n_buckets = (new_n_entries + new_n_entries div 4) mod 2 ^ 32
              in if new_n_buckets < new_n_entries then Inl (- ENOMEM)
                 else if UINT_MAX div (entry_size (hb_type h) + 1) < new_n_buckets then Inl (- ENOMEM)
                 else if new_n_buckets \<le> n_buckets h then Inl 0
                 else Inr new_n_buckets)"

definition new_storage :: "hashmap_env \<Rightarrow> 'p HashmapBase \<Rightarrow> nat \<Rightarrow> 'p HashmapBase" where
  \<comment> \<open>the table in a storage of \<open>2 ^ new_shift\<close> bytes, with every entry marked for rehashing\<close>
  "new_storage e h new_shift =
     (let old_n_buckets = n_buckets h;
          n = 2 ^ new_shift div (entry_size (hb_type h) + 1);
          lowest = (if hb_has_indirect h then hb_idx_lowest_entry h else 0)
      in h\<lparr>hb_indirect_hash_key := get_hash_key e (\<not> hb_has_indirect h),
           hb_has_indirect := True,
           hb_idx_lowest_entry := lowest,
           hb_indirect_n_buckets := n,
           hb_buckets := hb_buckets h @ replicate (n - old_n_buckets) None,
           hb_dibs := map (\<lambda>d. if d = DIB_RAW_FREE then DIB_RAW_FREE else DIB_RAW_REHASH) (hb_dibs h)
                      @ replicate (n - old_n_buckets) DIB_RAW_FREE\<rparr>)"

fun rehash_entry :: "nat \<Rightarrow> 'p HashmapBase \<Rightarrow> nat \<Rightarrow> 'p swap_entries \<Rightarrow> nat \<Rightarrow> ('p HashmapBase \<times> 'p swap_entries \<times> nat) outcome" where
  \<comment> \<open>the loop \<open>do ... while (rehash_next)\<close>\<close>
  "rehash_entry 0 h optimal_idx swap n_rehashed = Diverge"
| "rehash_entry (Suc fuel) h optimal_idx swap n_rehashed =
     obind (hashmap_put_robin_hood h optimal_idx swap) (\<lambda>(rehash_next, h, swap).
       if rehash_next then rehash_entry fuel h (base_bucket_hash h (he_key (the (sw_put swap)))) swap (n_rehashed + 1)
       else Ret (h, swap, n_rehashed + 1))"

fun rehash_loop :: "nat list \<Rightarrow> 'p HashmapBase \<Rightarrow> 'p swap_entries \<Rightarrow> nat \<Rightarrow> ('p HashmapBase \<times> nat) outcome" where
  "rehash_loop [] h swap n_rehashed = Ret (h, n_rehashed)"
| "rehash_loop (idx # idxs) h swap n_rehashed =
     (if hb_dibs h ! idx \<noteq> DIB_RAW_REHASH then rehash_loop idxs h swap n_rehashed
      else let optimal_idx = base_bucket_hash h (key_at h idx)
           in if optimal_idx = idx
              then rehash_loop idxs (h\<lparr>hb_dibs := (hb_dibs h)[idx := 0]\<rparr>) swap (n_rehashed + 1)
              else obind (bucket_move_entry (h\<lparr>hb_dibs := (hb_dibs h)[idx := DIB_RAW_FREE]\<rparr>) swap (IDX idx) IDX_PUT) (\<lambda>(h, swap).
                   let h = h\<lparr>hb_buckets := (hb_buckets h)[idx := None]\<rparr>
                   in obind (rehash_entry (n_buckets h) h optimal_idx swap n_rehashed) (\<lambda>(h, swap, n_rehashed).
                        rehash_loop idxs h swap n_rehashed)))"

definition resize_buckets :: "hashmap_env \<Rightarrow> 'p HashmapBase \<Rightarrow> nat \<Rightarrow> (int \<times> 'p HashmapBase) outcome" where
  \<comment> \<open>shifting by 32 is undefined\<close>
  "resize_buckets e h entries_add =
     (case new_bucket_count h entries_add of
        Inl r \<Rightarrow> Ret (r, h)
      | Inr new_n_buckets \<Rightarrow>
          let new_shift = log2u_round_up (max (new_n_buckets * (entry_size (hb_type h) + 1)) (2 * 39))
          in c_assert (new_shift < 32)
              (if \<not> alloc_ok e (2 ^ new_shift) then Ret (- ENOMEM, h)
               else c_assert (list_all (\<lambda>d. d \<noteq> DIB_RAW_REHASH) (hb_dibs h))
                (obind (rehash_loop [0..<n_buckets h] (new_storage e h new_shift) \<lparr>sw_put = None, sw_tmp = None\<rparr> 0) (\<lambda>(h, n_rehashed).
                   c_assert (n_rehashed = n_entries h) (Ret (1, h))))))"

definition hashmap_base_put_boldly :: "hashmap_env \<Rightarrow> 'p HashmapBase \<Rightarrow> nat \<Rightarrow> 'p swap_entries \<Rightarrow> bool \<Rightarrow> (int \<times> 'p HashmapBase) outcome" where
  "hashmap_base_put_boldly e h idx swap may_resize =
     c_assert (idx < n_buckets h)
      (obind (if may_resize then resize_buckets e h 1 else Ret (0, h)) (\<lambda>(r, h).
         if r < 0 then Ret (r, h)
         else let idx = (if 0 < r then base_bucket_hash h (he_key (the (sw_put swap))) else idx)
              in c_assert (n_entries h < n_buckets h)
                  (obind (hashmap_put_robin_hood h idx swap) (\<lambda>(b, h, swap).
                     c_assert (\<not> b) (Ret (1, n_entries_inc h))))))"

section \<open>Operations\<close>

definition put_swap :: "'p \<Rightarrow> 'p \<Rightarrow> 'p swap_entries" where
  \<comment> \<open>the entry to put in its swap bucket; entries of a set have no value, for which the key stands\<close>
  "put_swap key value = \<lparr>sw_put = Some \<lparr>he_key = key, he_value = value\<rparr>, sw_tmp = None\<rparr>"

definition hashmap_put :: "hashmap_env \<Rightarrow> 'p HashmapBase \<Rightarrow> 'p \<Rightarrow> 'p \<Rightarrow> (int \<times> 'p HashmapBase) outcome" where
  "hashmap_put e h key value =
     (let hash = base_bucket_hash h key
      in obind (base_bucket_scan h hash key) (\<lambda>idx.
           case idx of
             Some i \<Rightarrow> Ret (if he_value (the (hb_buckets h ! i)) = value then 0 else - EEXIST, h)
           | None \<Rightarrow> hashmap_base_put_boldly e h hash (put_swap key value) True))"

definition set_put :: "hashmap_env \<Rightarrow> 'p HashmapBase \<Rightarrow> 'p \<Rightarrow> (int \<times> 'p HashmapBase) outcome" where
  "set_put e h key =
     (let hash = base_bucket_hash h key
      in obind (base_bucket_scan h hash key) (\<lambda>idx.
           case idx of
             Some i \<Rightarrow> Ret (0, h)
           | None \<Rightarrow> hashmap_base_put_boldly e h hash (put_swap key key) True))"

definition hashmap_replace :: "hashmap_env \<Rightarrow> 'p HashmapBase \<Rightarrow> 'p \<Rightarrow> 'p \<Rightarrow> (int \<times> 'p HashmapBase) outcome" where
  "hashmap_replace e h key value =
     (let hash = base_bucket_hash h key
      in obind (base_bucket_scan h hash key) (\<lambda>idx.
           case idx of
             Some i \<Rightarrow> Ret (0, h\<lparr>hb_buckets := (hb_buckets h)[i := Some \<lparr>he_key = key, he_value = value\<rparr>]\<rparr>)
           | None \<Rightarrow> hashmap_base_put_boldly e h hash (put_swap key value) True))"

definition hashmap_update :: "'p HashmapBase \<Rightarrow> 'p \<Rightarrow> 'p \<Rightarrow> (int \<times> 'p HashmapBase) outcome" where
  "hashmap_update h key value =
     obind (base_bucket_scan h (base_bucket_hash h key) key) (\<lambda>idx.
       case idx of
         None \<Rightarrow> Ret (- ENOENT, h)
       | Some i \<Rightarrow> Ret (0, h\<lparr>hb_buckets := (hb_buckets h)[i := map_option (\<lambda>e. e\<lparr>he_value := value\<rparr>) (hb_buckets h ! i)]\<rparr>))"

text \<open>The null pointer is \<open>None\<close>, as a table and as a result.\<close>

definition internal_hashmap_get :: "'p HashmapBase option \<Rightarrow> 'p \<Rightarrow> 'p option outcome" where
  "internal_hashmap_get ho key =
     (case ho of
        None \<Rightarrow> Ret None
      | Some h \<Rightarrow>
          obind (base_bucket_scan h (base_bucket_hash h key) key) (\<lambda>idx.
            Ret (map_option (\<lambda>i. entry_value h (the (hb_buckets h ! i))) idx)))"

definition hashmap_get2 :: "'p HashmapBase option \<Rightarrow> 'p \<Rightarrow> ('p \<times> 'p) option outcome" where
  \<comment> \<open>the key of the entry and the value\<close>
  "hashmap_get2 ho key =
     (case ho of
        None \<Rightarrow> Ret None
      | Some h \<Rightarrow>
          obind (base_bucket_scan h (base_bucket_hash h key) key) (\<lambda>idx.
            Ret (map_option (\<lambda>i. let e = the (hb_buckets h ! i) in (he_key e, he_value e)) idx)))"

definition internal_hashmap_contains :: "'p HashmapBase option \<Rightarrow> 'p \<Rightarrow> bool outcome" where
  "internal_hashmap_contains ho key =
     (case ho of
        None \<Rightarrow> Ret False
      | Some h \<Rightarrow> obind (base_bucket_scan h (base_bucket_hash h key) key) (\<lambda>idx. Ret (idx \<noteq> None)))"

definition internal_hashmap_remove :: "'p HashmapBase option \<Rightarrow> 'p \<Rightarrow> ('p option \<times> 'p HashmapBase option) outcome" where
  "internal_hashmap_remove ho key =
     (case ho of
        None \<Rightarrow> Ret (None, None)
      | Some h \<Rightarrow>
          obind (base_bucket_scan h (base_bucket_hash h key) key) (\<lambda>idx.
            case idx of
              None \<Rightarrow> Ret (None, Some h)
            | Some i \<Rightarrow>
                let data = entry_value h (the (hb_buckets h ! i))
                in obind (base_remove_entry h i) (\<lambda>h. Ret (Some data, Some h))))"

definition hashmap_remove2 :: "'p HashmapBase option \<Rightarrow> 'p \<Rightarrow> (('p \<times> 'p) option \<times> 'p HashmapBase option) outcome" where
  "hashmap_remove2 ho key =
     (case ho of
        None \<Rightarrow> Ret (None, None)
      | Some h \<Rightarrow>
          obind (base_bucket_scan h (base_bucket_hash h key) key) (\<lambda>idx.
            case idx of
              None \<Rightarrow> Ret (None, Some h)
            | Some i \<Rightarrow>
                let e = the (hb_buckets h ! i)
                in obind (base_remove_entry h i) (\<lambda>h. Ret (Some (he_key e, he_value e), Some h))))"

definition hashmap_remove_value :: "'p HashmapBase option \<Rightarrow> 'p \<Rightarrow> 'p \<Rightarrow> ('p option \<times> 'p HashmapBase option) outcome" where
  "hashmap_remove_value ho key value =
     (case ho of
        None \<Rightarrow> Ret (None, None)
      | Some h \<Rightarrow>
          obind (base_bucket_scan h (base_bucket_hash h key) key) (\<lambda>idx.
            case idx of
              None \<Rightarrow> Ret (None, Some h)
            | Some i \<Rightarrow>
                if he_value (the (hb_buckets h ! i)) \<noteq> value then Ret (None, Some h)
                else obind (base_remove_entry h i) (\<lambda>h. Ret (Some value, Some h))))"

definition remove_and_put :: "hashmap_env \<Rightarrow> 'p HashmapBase option \<Rightarrow> 'p \<Rightarrow> 'p \<Rightarrow> 'p \<Rightarrow> (int \<times> 'p HashmapBase option) outcome" where
  "remove_and_put e ho old_key new_key value =
     (case ho of
        None \<Rightarrow> Ret (- ENOENT, None)
      | Some h \<Rightarrow>
          obind (base_bucket_scan h (base_bucket_hash h old_key) old_key) (\<lambda>idx.
            case idx of
              None \<Rightarrow> Ret (- ENOENT, Some h)
            | Some i \<Rightarrow>
                let new_hash = base_bucket_hash h new_key
                in obind (base_bucket_scan h new_hash new_key) (\<lambda>j.
                     if j \<noteq> None then Ret (- EEXIST, Some h)
                     else obind (base_remove_entry h i) (\<lambda>h.
                          obind (hashmap_base_put_boldly e h new_hash (put_swap new_key value) False) (\<lambda>(r, h).
                            c_assert (r = 1) (Ret (0, Some h)))))))"

definition hashmap_remove_and_put :: "hashmap_env \<Rightarrow> 'p HashmapBase option \<Rightarrow> 'p \<Rightarrow> 'p \<Rightarrow> 'p \<Rightarrow> (int \<times> 'p HashmapBase option) outcome" where
  "hashmap_remove_and_put = remove_and_put"

definition set_remove_and_put :: "hashmap_env \<Rightarrow> 'p HashmapBase option \<Rightarrow> 'p \<Rightarrow> 'p \<Rightarrow> (int \<times> 'p HashmapBase option) outcome" where
  "set_remove_and_put e s old_key new_key = remove_and_put e s old_key new_key new_key"

definition hashmap_remove_and_replace :: "hashmap_env \<Rightarrow> 'p HashmapBase option \<Rightarrow> 'p \<Rightarrow> 'p \<Rightarrow> 'p \<Rightarrow> (int \<times> 'p HashmapBase option) outcome" where
  "hashmap_remove_and_replace e ho old_key new_key value =
     (case ho of
        None \<Rightarrow> Ret (- ENOENT, None)
      | Some h \<Rightarrow>
          obind (base_bucket_scan h (base_bucket_hash h old_key) old_key) (\<lambda>idx.
            case idx of
              None \<Rightarrow> Ret (- ENOENT, Some h)
            | Some idx_old \<Rightarrow>
                let old_key = key_at h idx_old; new_hash = base_bucket_hash h new_key
                in obind (base_bucket_scan h new_hash new_key) (\<lambda>idx_new.
                   obind (case idx_new of
                            Some i \<Rightarrow>
                              if idx_old \<noteq> i then
                                obind (base_remove_entry h i) (\<lambda>h.
                                  let k = (if map_option he_key (hb_buckets h ! idx_old) \<noteq> Some old_key then prev_idx h idx_old else idx_old)
                                  in c_assert (map_option he_key (hb_buckets h ! k) = Some old_key) (Ret (h, k)))
                              else Ret (h, idx_old)
                          | None \<Rightarrow> Ret (h, idx_old)) (\<lambda>(h, idx_old).
                   obind (base_remove_entry h idx_old) (\<lambda>h.
                   obind (hashmap_base_put_boldly e h new_hash (put_swap new_key value) False) (\<lambda>(r, h).
                     c_assert (r = 1) (Ret (0, Some h))))))))"

section \<open>Iterating\<close>

datatype 'p iterator_idx = IDX_FIRST | IDX_END | IDX_AT nat 'p  \<comment> \<open>\<open>idx\<close> and \<open>next_key\<close>; \<open>IDX_END\<close> is \<open>IDX_NIL\<close>\<close>

definition iterator_at :: "'p HashmapBase \<Rightarrow> nat option \<Rightarrow> 'p iterator_idx" where
  "iterator_at h idx = (case idx of None \<Rightarrow> IDX_END | Some i \<Rightarrow> IDX_AT i (key_at h i))"

definition hashmap_iterate_in_internal_order :: "'p HashmapBase \<Rightarrow> 'p iterator_idx \<Rightarrow>
    (nat option \<times> 'p iterator_idx \<times> 'p HashmapBase) outcome" where
  "hashmap_iterate_in_internal_order h i =
     (case i of
        IDX_END \<Rightarrow> Ret (None, IDX_END, h)
      | IDX_FIRST \<Rightarrow>
          (let idx = skip_free_buckets h (if hb_has_indirect h then hb_idx_lowest_entry h else 0);
               h = (if hb_has_indirect h then h\<lparr>hb_idx_lowest_entry := (case idx of None \<Rightarrow> IDX_NIL | Some j \<Rightarrow> j)\<rparr> else h)
           in case idx of
                None \<Rightarrow> Ret (None, IDX_END, h)
              | Some j \<Rightarrow> Ret (Some j, iterator_at h (skip_free_buckets h (j + 1)), h))
      | IDX_AT j next_key \<Rightarrow>
          c_assert (0 < j)
           (let j = (if map_option he_key (hb_buckets h ! j) \<noteq> Some next_key then j - 1 else j)
            in c_assert (map_option he_key (hb_buckets h ! j) = Some next_key)
                (Ret (Some j, iterator_at h (skip_free_buckets h (j + 1)), h))))"

definition hashmap_iterate_entry :: "'p HashmapBase option \<Rightarrow> 'p iterator_idx \<Rightarrow>
    (nat option \<times> 'p iterator_idx \<times> 'p HashmapBase option) outcome" where
  "hashmap_iterate_entry ho i =
     (case ho of
        None \<Rightarrow> Ret (None, IDX_END, None)
      | Some h \<Rightarrow> obind (hashmap_iterate_in_internal_order h i) (\<lambda>(idx, i, h). Ret (idx, i, Some h)))"

definition internal_hashmap_iterate :: "'p HashmapBase option \<Rightarrow> 'p iterator_idx \<Rightarrow>
    (('p \<times> 'p) option \<times> 'p iterator_idx \<times> 'p HashmapBase option) outcome" where
  \<comment> \<open>the value and the key, or \<open>false\<close>\<close>
  "internal_hashmap_iterate ho i =
     obind (hashmap_iterate_entry ho i) (\<lambda>(idx, i, ho).
       case (idx, ho) of
         (Some j, Some h) \<Rightarrow> (let e = the (hb_buckets h ! j) in Ret (Some (entry_value h e, he_key e), i, ho))
       | _ \<Rightarrow> Ret (None, i, ho))"

text \<open>\<open>HASHMAP_FOREACH_IDX\<close> with a body that changes a state \<open>s\<close> and may leave the loop with a result.\<close>

fun hashmap_foreach_loop :: "nat \<Rightarrow> (nat \<Rightarrow> 'p HashmapBase \<Rightarrow> 's \<Rightarrow> ('r option \<times> 'p HashmapBase \<times> 's) outcome) \<Rightarrow>
    'p HashmapBase \<Rightarrow> 'p iterator_idx \<Rightarrow> 's \<Rightarrow> ('r option \<times> 'p HashmapBase \<times> 's) outcome" where
  "hashmap_foreach_loop 0 body h i s = Diverge"
| "hashmap_foreach_loop (Suc fuel) body h i s =
     obind (hashmap_iterate_in_internal_order h i) (\<lambda>(idx, i, h).
       case idx of
         None \<Rightarrow> Ret (None, h, s)
       | Some j \<Rightarrow>
           obind (body j h s) (\<lambda>(r, h, s).
             case r of Some r \<Rightarrow> Ret (Some r, h, s) | None \<Rightarrow> hashmap_foreach_loop fuel body h i s))"

definition hashmap_foreach :: "(nat \<Rightarrow> 'p HashmapBase \<Rightarrow> 's \<Rightarrow> ('r option \<times> 'p HashmapBase \<times> 's) outcome) \<Rightarrow>
    'p HashmapBase \<Rightarrow> 's \<Rightarrow> ('r option \<times> 'p HashmapBase \<times> 's) outcome" where
  "hashmap_foreach body h s = hashmap_foreach_loop (Suc (n_buckets h)) body h IDX_FIRST s"

definition find_first_entry :: "'p HashmapBase option \<Rightarrow> (nat option \<times> 'p HashmapBase option) outcome" where
  "find_first_entry ho =
     (case ho of
        None \<Rightarrow> Ret (None, None)
      | Some h \<Rightarrow>
          if n_entries h = 0 then Ret (None, Some h)
          else obind (hashmap_iterate_entry (Some h) IDX_FIRST) (\<lambda>(idx, i, ho). Ret (idx, ho)))"

definition first_of :: "('p HashmapBase \<Rightarrow> 'p hashmap_entry \<Rightarrow> 'p) \<Rightarrow> 'p HashmapBase option \<Rightarrow> ('p option \<times> 'p HashmapBase option) outcome" where
  "first_of sel ho =
     obind (find_first_entry ho) (\<lambda>(idx, ho).
       Ret (case (idx, ho) of (Some j, Some h) \<Rightarrow> Some (sel h (the (hb_buckets h ! j))) | _ \<Rightarrow> None, ho))"

definition internal_hashmap_first :: "'p HashmapBase option \<Rightarrow> ('p option \<times> 'p HashmapBase option) outcome" where
  "internal_hashmap_first = first_of entry_value"

definition internal_hashmap_first_key :: "'p HashmapBase option \<Rightarrow> ('p option \<times> 'p HashmapBase option) outcome" where
  "internal_hashmap_first_key = first_of (\<lambda>_. he_key)"

definition steal_first_of :: "('p HashmapBase \<Rightarrow> 'p hashmap_entry \<Rightarrow> 'p) \<Rightarrow> 'p HashmapBase option \<Rightarrow> ('p option \<times> 'p HashmapBase option) outcome" where
  "steal_first_of sel ho =
     obind (find_first_entry ho) (\<lambda>(idx, ho).
       case (idx, ho) of
         (Some j, Some h) \<Rightarrow>
           let data = sel h (the (hb_buckets h ! j))
           in obind (base_remove_entry h j) (\<lambda>h. Ret (Some data, Some h))
       | _ \<Rightarrow> Ret (None, ho))"

definition internal_hashmap_steal_first :: "'p HashmapBase option \<Rightarrow> ('p option \<times> 'p HashmapBase option) outcome" where
  "internal_hashmap_steal_first = steal_first_of entry_value"

definition internal_hashmap_steal_first_key :: "'p HashmapBase option \<Rightarrow> ('p option \<times> 'p HashmapBase option) outcome" where
  "internal_hashmap_steal_first_key = steal_first_of (\<lambda>_. he_key)"

definition internal_hashmap_size :: "'p HashmapBase option \<Rightarrow> nat" where
  "internal_hashmap_size ho = (case ho of None \<Rightarrow> 0 | Some h \<Rightarrow> n_entries h)"

definition internal_hashmap_buckets :: "'p HashmapBase option \<Rightarrow> nat" where
  "internal_hashmap_buckets ho = (case ho of None \<Rightarrow> 0 | Some h \<Rightarrow> n_buckets h)"

definition internal_hashmap_get_strv :: "'p HashmapBase \<Rightarrow> ('p list \<times> 'p HashmapBase) outcome" where
  "internal_hashmap_get_strv h =
     obind (hashmap_foreach (\<lambda>j h sv. Ret (None :: unit option, h, sv @ [entry_value h (the (hb_buckets h ! j))])) h [])
       (\<lambda>(_, h, sv). Ret (sv, h))"

section \<open>Tables as wholes\<close>

definition reset_direct_storage :: "'p HashmapBase \<Rightarrow> 'p HashmapBase outcome" where
  "reset_direct_storage h =
     c_assert (\<not> hb_has_indirect h)
      (Ret (h\<lparr>hb_buckets := replicate (n_direct_buckets (hb_type h)) None,
              hb_dibs := replicate (n_direct_buckets (hb_type h)) DIB_RAW_FREE\<rparr>))"

definition hashmap_base_new :: "u8 list \<Rightarrow> 'p hash_ops \<Rightarrow> HashmapType \<Rightarrow> 'p HashmapBase outcome" where
  \<comment> \<open>the first argument is the shared hash key; memory allocation succeeds\<close>
  "hashmap_base_new shared ops type =
     reset_direct_storage
       \<lparr>hb_hash_ops = ops, hb_type = type, hb_has_indirect = False, hb_buckets = [], hb_dibs = [], hb_n_entries = 0,
        hb_indirect_n_buckets = 0, hb_indirect_hash_key = [], hb_shared_hash_key = shared, hb_idx_lowest_entry = 0\<rparr>"

definition internal_hashmap_new :: "u8 list \<Rightarrow> 'p hash_ops \<Rightarrow> 'p HashmapBase outcome" where
  "internal_hashmap_new shared ops = hashmap_base_new shared ops HASHMAP_TYPE_PLAIN"

definition internal_set_new :: "u8 list \<Rightarrow> 'p hash_ops \<Rightarrow> 'p HashmapBase outcome" where
  "internal_set_new shared ops = hashmap_base_new shared ops HASHMAP_TYPE_SET"

definition hashmap_base_ensure_allocated :: "u8 list \<Rightarrow> 'p HashmapBase option \<Rightarrow> 'p hash_ops \<Rightarrow> HashmapType \<Rightarrow> (int \<times> 'p HashmapBase option) outcome" where
  "hashmap_base_ensure_allocated shared ho ops type =
     (case ho of
        Some h \<Rightarrow> Ret (0, Some h)
      | None \<Rightarrow> obind (hashmap_base_new shared ops type) (\<lambda>q. Ret (0, Some q)))"

definition internal_hashmap_clear :: "'p HashmapBase option \<Rightarrow> 'p HashmapBase option outcome" where
  "internal_hashmap_clear ho =
     (case ho of
        None \<Rightarrow> Ret None
      | Some h \<Rightarrow> obind (reset_direct_storage (h\<lparr>hb_has_indirect := False, hb_n_entries := 0\<rparr>)) (\<lambda>h. Ret (Some h)))"

text \<open>The loops that free what the entries point to; the result lists the pointers given to \<open>free\<close>.\<close>

lemma skip_free_buckets_bounds: "skip_free_buckets h idx = Some i \<Longrightarrow> idx \<le> i \<and> i < n_buckets h"
  by (auto simp: skip_free_buckets_def find_Some_iff nth_append)

function clear_free_loop :: "('p hashmap_entry \<Rightarrow> 'p list) \<Rightarrow> 'p HashmapBase \<Rightarrow> nat \<Rightarrow> 'p list" where
  "clear_free_loop frees h idx =
     (case skip_free_buckets h idx of
        None \<Rightarrow> []
      | Some i \<Rightarrow> frees (the (hb_buckets h ! i)) @ clear_free_loop frees h (i + 1))"
  by pat_completeness auto
termination
  by (relation "measure (\<lambda>(_, h, idx). n_buckets h - idx)") (auto dest: skip_free_buckets_bounds)

declare clear_free_loop.simps [simp del]

definition internal_hashmap_clear_free :: "'p HashmapBase option \<Rightarrow> ('p list \<times> 'p HashmapBase option) outcome" where
  "internal_hashmap_clear_free ho =
     (case ho of
        None \<Rightarrow> Ret ([], None)
      | Some h \<Rightarrow> obind (internal_hashmap_clear ho) (\<lambda>h'. Ret (clear_free_loop (\<lambda>e. [entry_value h e]) h 0, h')))"

definition hashmap_clear_free_free :: "'p HashmapBase option \<Rightarrow> ('p list \<times> 'p HashmapBase option) outcome" where
  "hashmap_clear_free_free ho =
     (case ho of
        None \<Rightarrow> Ret ([], None)
      | Some h \<Rightarrow> obind (internal_hashmap_clear ho) (\<lambda>h'. Ret (clear_free_loop (\<lambda>e. [he_key e, he_value e]) h 0, h')))"

definition hashmap_free_no_clear :: "'p HashmapBase \<Rightarrow> unit outcome" where
  "hashmap_free_no_clear h = c_assert (\<not> hb_has_indirect h) (c_assert (hb_n_entries h = 0) (Ret ()))"

definition free_with :: "('p HashmapBase option \<Rightarrow> ('p list \<times> 'p HashmapBase option) outcome) \<Rightarrow> 'p HashmapBase option \<Rightarrow> 'p list outcome" where
  "free_with clear ho =
     (case ho of
        None \<Rightarrow> Ret []
      | Some h \<Rightarrow> obind (clear ho) (\<lambda>(freed, h'). obind (hashmap_free_no_clear (the h')) (\<lambda>_. Ret freed)))"

definition internal_hashmap_free :: "'p HashmapBase option \<Rightarrow> 'p list outcome" where
  "internal_hashmap_free = free_with (\<lambda>ho. obind (internal_hashmap_clear ho) (\<lambda>h. Ret ([], h)))"

definition internal_hashmap_free_free :: "'p HashmapBase option \<Rightarrow> 'p list outcome" where
  "internal_hashmap_free_free = free_with internal_hashmap_clear_free"

definition hashmap_free_free_free :: "'p HashmapBase option \<Rightarrow> 'p list outcome" where
  "hashmap_free_free_free = free_with hashmap_clear_free_free"

definition hashmap_merge_body :: "hashmap_env \<Rightarrow> nat \<Rightarrow> 'p HashmapBase \<Rightarrow> 'p HashmapBase \<Rightarrow> (int option \<times> 'p HashmapBase \<times> 'p HashmapBase) outcome" where
  "hashmap_merge_body e idx other h =
     (let pe = the (hb_buckets other ! idx)
      in obind (hashmap_put e h (he_key pe) (he_value pe)) (\<lambda>(r, h).
           Ret (if r < 0 \<and> r \<noteq> - EEXIST then Some r else None, other, h)))"

definition internal_hashmap_merge :: "hashmap_env \<Rightarrow> 'p HashmapBase \<Rightarrow> 'p HashmapBase option \<Rightarrow> (int \<times> 'p HashmapBase \<times> 'p HashmapBase option) outcome" where
  "internal_hashmap_merge e h other =
     (case other of
        None \<Rightarrow> Ret (0, h, None)
      | Some other \<Rightarrow>
          obind (hashmap_foreach (hashmap_merge_body e) other h) (\<lambda>(r, other, h).
            Ret (case r of None \<Rightarrow> 0 | Some r \<Rightarrow> r, h, Some other)))"

definition set_merge :: "hashmap_env \<Rightarrow> 'p HashmapBase \<Rightarrow> 'p HashmapBase option \<Rightarrow> (int \<times> 'p HashmapBase \<times> 'p HashmapBase option) outcome" where
  "set_merge e s other =
     (case other of
        None \<Rightarrow> Ret (0, s, None)
      | Some other \<Rightarrow>
          obind (hashmap_foreach (\<lambda>idx other s.
              obind (set_put e s (key_at other idx)) (\<lambda>(r, s). Ret (if r < 0 then Some r else None, other, s))) other s) (\<lambda>(r, other, s).
            Ret (case r of None \<Rightarrow> 0 | Some r \<Rightarrow> r, s, Some other)))"

definition internal_hashmap_reserve :: "hashmap_env \<Rightarrow> 'p HashmapBase \<Rightarrow> nat \<Rightarrow> (int \<times> 'p HashmapBase) outcome" where
  "internal_hashmap_reserve e h entries_add =
     obind (resize_buckets e h entries_add) (\<lambda>(r, h). Ret (if r < 0 then r else 0, h))"

definition hashmap_move_body :: "hashmap_env \<Rightarrow> nat \<Rightarrow> 'p HashmapBase \<Rightarrow> 'p HashmapBase \<Rightarrow> (unit option \<times> 'p HashmapBase \<times> 'p HashmapBase) outcome" where
  "hashmap_move_body e idx other h =
     (let n = the (hb_buckets other ! idx); h_hash = base_bucket_hash h (he_key n)
      in obind (base_bucket_scan h h_hash (he_key n)) (\<lambda>i.
           if i \<noteq> None then Ret (None, other, h)
           else obind (hashmap_base_put_boldly e h h_hash (put_swap (he_key n) (he_value n)) False) (\<lambda>(r, h).
                c_assert (r = 1) (obind (base_remove_entry other idx) (\<lambda>other. Ret (None, other, h))))))"

definition internal_hashmap_move :: "hashmap_env \<Rightarrow> 'p HashmapBase \<Rightarrow> 'p HashmapBase option \<Rightarrow> (int \<times> 'p HashmapBase \<times> 'p HashmapBase option) outcome" where
  "internal_hashmap_move e h other =
     (case other of
        None \<Rightarrow> Ret (0, h, None)
      | Some other \<Rightarrow>
          c_assert (hb_type other = hb_type h)
           (obind (resize_buckets e h (n_entries other)) (\<lambda>(r, h).
              if r < 0 then Ret (r, h, Some other)
              else obind (hashmap_foreach (hashmap_move_body e) other h) (\<lambda>(_, other, h). Ret (0, h, Some other)))))"

definition internal_hashmap_move_one :: "hashmap_env \<Rightarrow> 'p HashmapBase \<Rightarrow> 'p HashmapBase option \<Rightarrow> 'p \<Rightarrow> (int \<times> 'p HashmapBase \<times> 'p HashmapBase option) outcome" where
  "internal_hashmap_move_one e h other key =
     (let h_hash = base_bucket_hash h key
      in obind (base_bucket_scan h h_hash key) (\<lambda>i.
           if i \<noteq> None then Ret (- EEXIST, h, other)
           else case other of
                  None \<Rightarrow> Ret (- ENOENT, h, None)
                | Some other \<Rightarrow>
                    c_assert (hb_type other = hb_type h)
                     (obind (base_bucket_scan other (base_bucket_hash other key) key) (\<lambda>idx.
                        case idx of
                          None \<Rightarrow> Ret (- ENOENT, h, Some other)
                        | Some idx \<Rightarrow>
                            let n = the (hb_buckets other ! idx)
                            in obind (hashmap_base_put_boldly e h h_hash (put_swap (he_key n) (he_value n)) True) (\<lambda>(r, h).
                                 if r < 0 then Ret (r, h, Some other)
                                 else obind (base_remove_entry other idx) (\<lambda>other. Ret (0, h, Some other)))))))"

definition internal_hashmap_copy :: "hashmap_env \<Rightarrow> 'p HashmapBase \<Rightarrow> ('p HashmapBase option \<times> 'p HashmapBase) outcome" where
  "internal_hashmap_copy e h =
     obind (hashmap_base_new (hb_shared_hash_key h) (hb_hash_ops h) (hb_type h)) (\<lambda>copy.
     obind (case hb_type h of
              HASHMAP_TYPE_PLAIN \<Rightarrow> internal_hashmap_merge e copy (Some h)
            | HASHMAP_TYPE_SET \<Rightarrow> set_merge e copy (Some h)) (\<lambda>(r, copy, h').
       Ret (if r < 0 then None else Some copy, the h')))"

text \<open>Sets of strings: a string stands for a copy of itself.\<close>

definition set_consume :: "hashmap_env \<Rightarrow> 'p HashmapBase \<Rightarrow> 'p \<Rightarrow> (int \<times> 'p HashmapBase) outcome" where
  "set_consume e s value = set_put e s value"

definition set_put_strdup :: "hashmap_env \<Rightarrow> string HashmapBase \<Rightarrow> string \<Rightarrow> (int \<times> string HashmapBase) outcome" where
  "set_put_strdup e s p =
     obind (internal_hashmap_contains (Some s) p) (\<lambda>b. if b then Ret (0, s) else set_consume e s p)"

fun set_put_strdupv_loop :: "hashmap_env \<Rightarrow> string HashmapBase \<Rightarrow> string list \<Rightarrow> int \<Rightarrow> (int \<times> string HashmapBase) outcome" where
  "set_put_strdupv_loop e s [] n = Ret (n, s)"
| "set_put_strdupv_loop e s (p # l) n =
     obind (set_put_strdup e s p) (\<lambda>(r, s). if r < 0 then Ret (r, s) else set_put_strdupv_loop e s l (n + r))"

definition set_put_strdupv :: "hashmap_env \<Rightarrow> string HashmapBase \<Rightarrow> string list \<Rightarrow> (int \<times> string HashmapBase) outcome" where
  "set_put_strdupv e s l = set_put_strdupv_loop e s l 0"

fun set_put_strsplit_loop :: "nat \<Rightarrow> hashmap_env \<Rightarrow> string HashmapBase \<Rightarrow> string option \<Rightarrow> string option \<Rightarrow> u32 \<Rightarrow>
    (int \<times> string HashmapBase) outcome" where
  "set_put_strsplit_loop 0 e s p separators flags = Diverge"
| "set_put_strsplit_loop (Suc fuel) e s p separators flags =
     (let (r, word, p) = extract_first_word p separators flags
      in if r \<le> 0 then Ret (r, s)
         else obind (set_consume e s (the word)) (\<lambda>(r, s).
                if r < 0 then Ret (r, s) else set_put_strsplit_loop fuel e s p separators flags))"

definition set_put_strsplit :: "hashmap_env \<Rightarrow> string HashmapBase \<Rightarrow> string \<Rightarrow> string option \<Rightarrow> u32 \<Rightarrow> (int \<times> string HashmapBase) outcome" where
  \<comment> \<open>every round reads at least one character\<close>
  "set_put_strsplit e s v separators flags = set_put_strsplit_loop (length v + 2) e s (Some v) separators flags"

end
