(* ===== verification/Hashmap_Inv.thy ===== *)
theory Hashmap_Inv
  imports Hashmap "HOL-Library.Multiset"
begin

text \<open>
  The invariant of the hash tables.  The rank of a bucket is 0 when it is free (or waits for
  rehashing) and its entry's distance from home plus one otherwise; a table is in Robin Hood
  order when the rank grows by at most one from a bucket to the next, around the table.
\<close>

section \<open>Distances\<close>

lemma next_idx_if: "i < n_buckets h \<Longrightarrow> next_idx h i = (if i + 1 = n_buckets h then 0 else i + 1)"
  by (simp add: next_idx_def)

lemma next_idx_less: "i < n_buckets h \<Longrightarrow> next_idx h i < n_buckets h"
  by (simp add: next_idx_def)

lemma next_idx_inj: "i < n_buckets h \<Longrightarrow> j < n_buckets h \<Longrightarrow> next_idx h i = next_idx h j \<longleftrightarrow> i = j"
  by (auto simp: next_idx_if split: if_splits)

lemma next_idx_surj: "i < n_buckets h \<Longrightarrow> \<exists>j<n_buckets h. next_idx h j = i"
  by (cases i) (auto simp: next_idx_if intro: exI [of _ "n_buckets h - 1"] exI [of _ "i - 1"])

lemma bucket_distance_less: "i < n_buckets h \<Longrightarrow> p < n_buckets h \<Longrightarrow> bucket_distance h i p < n_buckets h"
  by (auto simp: bucket_distance_def)

lemma bucket_distance_0: "i < n_buckets h \<Longrightarrow> p < n_buckets h \<Longrightarrow> bucket_distance h i p = 0 \<longleftrightarrow> i = p"
  by (auto simp: bucket_distance_def)

lemma bucket_distance_next:
  "i < n_buckets h \<Longrightarrow> p < n_buckets h \<Longrightarrow>
     bucket_distance h (next_idx h i) p = (if bucket_distance h i p + 1 = n_buckets h then 0 else bucket_distance h i p + 1)"
  by (auto simp: bucket_distance_def next_idx_if)

lemma bucket_distance_from_next:
  "i < n_buckets h \<Longrightarrow> p < n_buckets h \<Longrightarrow> i \<noteq> p \<Longrightarrow> bucket_distance h i p = Suc (bucket_distance h i (next_idx h p))"
  by (auto simp: bucket_distance_def next_idx_if)

lemma next_induct [consumes 2, case_names start step]:
  \<comment> \<open>walking around the table from \<open>p\<close>\<close>
  assumes "i < n_buckets h" "p < n_buckets h" "P p"
    and step: "\<And>j. j < n_buckets h \<Longrightarrow> P j \<Longrightarrow> next_idx h j \<noteq> p \<Longrightarrow> P (next_idx h j)"
  shows "P i"
  using assms(1)
proof (induction "bucket_distance h i p" arbitrary: i)
  case 0
  then show ?case using assms(2,3) bucket_distance_0 by metis
next
  case (Suc d)
  obtain j where j: "j < n_buckets h" "next_idx h j = i" using next_idx_surj [OF Suc.prems] by blast
  have "d = bucket_distance h j p"
    using Suc.hyps(2) bucket_distance_next [OF j(1) assms(2)] j(2) by (auto split: if_splits)
  moreover have "next_idx h j \<noteq> p" using Suc.hyps(2) j(2) bucket_distance_0 [OF assms(2,2)] by auto
  ultimately show ?case using Suc.hyps(1) j step by metis
qed

section \<open>Ranks and order\<close>

definition home :: "'p HashmapBase \<Rightarrow> 'p hashmap_entry \<Rightarrow> nat" where
  "home h e = base_bucket_hash h (he_key e)"

definition raw_dib :: "nat \<Rightarrow> u8" where
  "raw_dib d = of_nat (min d (unat DIB_RAW_OVERFLOW))"

definition settled :: "'p HashmapBase \<Rightarrow> nat \<Rightarrow> bool" where
  "settled h i \<longleftrightarrow> hb_dibs h ! i \<noteq> DIB_RAW_FREE \<and> hb_dibs h ! i \<noteq> DIB_RAW_REHASH"

definition rank :: "'p HashmapBase \<Rightarrow> nat \<Rightarrow> nat" where
  "rank h i = (if settled h i then Suc (bucket_distance h i (home h (the (hb_buckets h ! i)))) else 0)"

definition bucket_ok :: "'p HashmapBase \<Rightarrow> nat \<Rightarrow> bool" where
  "bucket_ok h i \<longleftrightarrow>
     (hb_dibs h ! i = DIB_RAW_FREE \<longleftrightarrow> hb_buckets h ! i = None) \<and>
     (settled h i \<longrightarrow> hb_dibs h ! i = raw_dib (rank h i - 1)) \<and>
     (hb_has_indirect h \<and> i < hb_idx_lowest_entry h \<longrightarrow> hb_buckets h ! i = None)"

definition sized :: "'p HashmapBase \<Rightarrow> bool" where
  "sized h \<longleftrightarrow> 0 < n_buckets h \<and> n_buckets h < DIB_FREE \<and> length (hb_buckets h) = n_buckets h \<and> length (hb_dibs h) = n_buckets h"

definition table_ok :: "'p HashmapBase \<Rightarrow> bool" where
  "table_ok h \<longleftrightarrow> sized h \<and> (\<forall>i<n_buckets h. bucket_ok h i) \<and> (\<forall>i<n_buckets h. rank h (next_idx h i) \<le> Suc (rank h i))"

lemma home_less: "0 < n_buckets h \<Longrightarrow> home h e < n_buckets h"
  by (simp add: home_def base_bucket_hash_def)

lemma raw_dib_unat: "unat (raw_dib d) = min d 253"
  by (simp add: raw_dib_def DIB_RAW_OVERFLOW_def unat_of_nat)

lemma raw_dib_settled: "raw_dib d \<noteq> DIB_RAW_FREE" "raw_dib d \<noteq> DIB_RAW_REHASH"
  using raw_dib_unat [of d] by (auto simp: DIB_RAW_FREE_def DIB_RAW_REHASH_def)

lemma raw_dib_0: "raw_dib d = 0 \<longleftrightarrow> d = 0"
  using raw_dib_unat [of d] by (auto simp flip: unat_eq_zero)

lemma set_dib_raw: "d < DIB_FREE \<Longrightarrow> bucket_set_dib h i d = h\<lparr>hb_dibs := (hb_dibs h)[i := raw_dib d]\<rparr>"
  by (simp add: bucket_set_dib_def raw_dib_def)

lemma rank_le: "sized h \<Longrightarrow> i < n_buckets h \<Longrightarrow> rank h i \<le> n_buckets h"
  by (simp add: rank_def sized_def Suc_le_eq bucket_distance_less home_less)

lemma calculate_dib:
  assumes "bucket_ok h i" "settled h i"
  shows "bucket_calculate_dib h i (hb_dibs h ! i) = rank h i - 1"
proof -
  have r: "hb_dibs h ! i = raw_dib (rank h i - 1)" using assms by (simp add: bucket_ok_def)
  have d: "rank h i - 1 = bucket_distance h i (base_bucket_hash h (key_at h i))"
    using assms(2) by (simp add: rank_def home_def key_at_def)
  have "hb_dibs h ! i < DIB_RAW_OVERFLOW \<longleftrightarrow> rank h i - 1 < 253"
    unfolding r by (simp add: word_less_nat_alt raw_dib_unat DIB_RAW_OVERFLOW_def min_less_iff_disj)
  then show ?thesis
    using assms(2) r d raw_dib_unat by (auto simp: bucket_calculate_dib_def settled_def)
qed

lemma rank_pos: "0 < rank h i \<longleftrightarrow> settled h i"
  by (simp add: rank_def)

lemma table_okD:
  assumes "table_ok h" "i < n_buckets h"
  shows "bucket_ok h i" "rank h (next_idx h i) \<le> Suc (rank h i)"
  using assms by (auto simp: table_ok_def)

lemma table_ok_sized: "table_ok h \<Longrightarrow> sized h"
  by (simp add: table_ok_def)

text \<open>The rank of a bucket is at most its distance from a free one.\<close>

lemma rank_le_distance:
  assumes "table_ok h" "i < n_buckets h" "f < n_buckets h" "rank h f = 0"
  shows "rank h i \<le> bucket_distance h i f"
  using assms(2,3)
proof (induction rule: next_induct)
  case start
  then show ?case using assms(4) by simp
next
  case (step j)
  have "bucket_distance h (next_idx h j) f = bucket_distance h j f + 1"
    using bucket_distance_next [OF step.hyps(1) assms(3)] bucket_distance_0 [OF next_idx_less [OF step.hyps(1)] assms(3)] step.hyps(2)
    by (auto split: if_splits)
  then show ?case using table_okD(2) [OF assms(1) step.hyps(1)] step.IH by simp
qed

section \<open>Content\<close>

definition live :: "'p HashmapBase \<Rightarrow> 'p hashmap_entry multiset" where
  "live h = image_mset the {#x \<in># mset (hb_buckets h). x \<noteq> None#}"

definition opt_mset :: "'a option \<Rightarrow> 'a multiset" where
  "opt_mset x = (case x of None \<Rightarrow> {#} | Some e \<Rightarrow> {#e#})"

lemma opt_mset_simps [simp]: "opt_mset None = {#}" "opt_mset (Some e) = {#e#}"
  by (simp_all add: opt_mset_def)

lemma live_update:
  assumes "i < length (hb_buckets h)"
  shows "live (h\<lparr>hb_buckets := (hb_buckets h)[i := x]\<rparr>) + opt_mset (hb_buckets h ! i) = live h + opt_mset x"
proof -
  let ?f = "\<lambda>M :: 'a hashmap_entry option multiset. image_mset the {#x \<in># M. x \<noteq> None#}"
  have f1: "?f {#y#} = opt_mset y" for y by (cases y) simp_all
  have fp: "?f (M + N) = ?f M + ?f N" for M N by simp
  have "mset ((hb_buckets h)[i := x]) + {#hb_buckets h ! i#} = mset (hb_buckets h) + {#x#}"
    using assms by (simp add: mset_update)
  then have "?f (mset ((hb_buckets h)[i := x]) + {#hb_buckets h ! i#}) = ?f (mset (hb_buckets h) + {#x#})"
    by (rule arg_cong)
  then show ?thesis unfolding fp f1 live_def by simp
qed

lemma live_set: "e \<in># live h \<longleftrightarrow> (\<exists>i<length (hb_buckets h). hb_buckets h ! i = Some e)"
  by (force simp: live_def in_set_conv_nth)

end
