(* ===== verification/Hashmap_Put.thy ===== *)
theory Hashmap_Put
  imports Hashmap_Inv
begin

section \<open>Tables of the same shape\<close>

definition same_shape :: "'p HashmapBase \<Rightarrow> 'p HashmapBase \<Rightarrow> bool" where
  "same_shape h h' \<longleftrightarrow>
     hb_hash_ops h' = hb_hash_ops h \<and> hb_type h' = hb_type h \<and> hb_has_indirect h' = hb_has_indirect h \<and>
     hb_n_entries h' = hb_n_entries h \<and> hb_indirect_n_buckets h' = hb_indirect_n_buckets h \<and>
     hb_indirect_hash_key h' = hb_indirect_hash_key h \<and> hb_shared_hash_key h' = hb_shared_hash_key h \<and>
     length (hb_buckets h') = length (hb_buckets h) \<and> length (hb_dibs h') = length (hb_dibs h)"

lemma same_shape_refl [simp]: "same_shape h h"
  by (simp add: same_shape_def)

lemma same_shape_trans: "same_shape h h' \<Longrightarrow> same_shape h' h'' \<Longrightarrow> same_shape h h''"
  by (simp add: same_shape_def)

lemma same_shape_eqs:
  assumes "same_shape h h'"
  shows "n_buckets h' = n_buckets h" "base_bucket_hash h' = base_bucket_hash h" "next_idx h' = next_idx h"
    "bucket_distance h' = bucket_distance h" "home h' = home h" "entry_value h' = entry_value h" "sized h' = sized h"
  using assms
  by (simp_all add: same_shape_def n_buckets_def base_bucket_hash_def hash_key_def next_idx_def bucket_distance_def home_def
      entry_value_def sized_def fun_eq_iff)

definition n_marked :: "'p HashmapBase \<Rightarrow> nat" where
  "n_marked h = count (mset (hb_dibs h)) DIB_RAW_REHASH"

section \<open>Placing an entry\<close>

definition place :: "'p HashmapBase \<Rightarrow> nat \<Rightarrow> 'p hashmap_entry \<Rightarrow> nat \<Rightarrow> 'p HashmapBase" where
  "place h i e d = (lower_lowest h i)\<lparr>hb_buckets := (hb_buckets h)[i := Some e], hb_dibs := (hb_dibs h)[i := raw_dib d]\<rparr>"

lemma place_shape: "same_shape h (place h i e d)"
  by (simp add: same_shape_def place_def lower_lowest_def)

lemmas place_eqs = same_shape_eqs [OF place_shape]

lemma place_rank:
  assumes "sized h" "i < n_buckets h"
  shows "rank (place h i e d) j = (if j = i then Suc (bucket_distance h i (home h e)) else rank h j)"
proof (cases "j = i")
  case True
  then show ?thesis using assms raw_dib_settled [of d] by (simp add: rank_def settled_def place_eqs sized_def) (simp add: place_def)
next
  case False
  then show ?thesis by (simp add: rank_def settled_def place_eqs) (simp add: place_def)
qed

lemma place_live:
  "sized h \<Longrightarrow> i < n_buckets h \<Longrightarrow> live (place h i e d) + opt_mset (hb_buckets h ! i) = add_mset e (live h)"
  using live_update [of i h "Some e"] by (simp add: place_def live_def sized_def)

lemma place_marked:
  assumes "sized h" "i < n_buckets h"
  shows "n_marked (place h i e d) + (if hb_dibs h ! i = DIB_RAW_REHASH then 1 else 0) = n_marked h"
proof -
  have i: "i < length (hb_dibs h)" using assms by (simp add: sized_def)
  then have "hb_dibs h ! i = DIB_RAW_REHASH \<Longrightarrow> count (mset (hb_dibs h)) DIB_RAW_REHASH > 0" by (metis count_greater_zero_iff nth_mem_mset)
  then show ?thesis
    using i raw_dib_settled(2) [of d] by (auto simp: n_marked_def place_def mset_update)
qed

lemma place_ok:
  assumes ok: "table_ok h" and i: "i < n_buckets h" and d: "d = bucket_distance h i (home h e)"
    and prev: "\<And>j. j < n_buckets h \<Longrightarrow> j \<noteq> i \<Longrightarrow> next_idx h j = i \<Longrightarrow> d \<le> rank h j" and le: "rank h i \<le> Suc d"
  shows "table_ok (place h i e d)"
proof -
  have sz: "sized h" using ok by (rule table_ok_sized)
  have "bucket_ok (place h i e d) j" if j: "j < n_buckets h" for j
  proof (cases "j = i")
    case True
    have "raw_dib d \<noteq> DIB_RAW_FREE" by (rule raw_dib_settled)
    then show ?thesis
      unfolding bucket_ok_def place_rank [OF sz i] using True i d sz
      by (auto simp: place_def sized_def lower_lowest_def)
  next
    case False
    then show ?thesis
      using table_okD(1) [OF ok j] unfolding bucket_ok_def place_rank [OF sz i]
      by (auto simp: place_def settled_def lower_lowest_def)
  qed
  moreover have "rank (place h i e d) (next_idx h j) \<le> Suc (rank (place h i e d) j)" if j: "j < n_buckets h" for j
    using table_okD(2) [OF ok j] prev [OF j] le d by (auto simp: place_rank [OF sz i])
  ultimately show ?thesis using sz by (simp add: table_ok_def place_eqs)
qed

section \<open>The loop of Robin Hood\<close>

lemma lower_lowest_occupied: "table_ok h \<Longrightarrow> i < n_buckets h \<Longrightarrow> hb_buckets h ! i \<noteq> None \<Longrightarrow> lower_lowest h i = h"
  using table_okD(1) by (fastforce simp: bucket_ok_def lower_lowest_def)

definition marks_within :: "'p HashmapBase \<Rightarrow> 'p HashmapBase \<Rightarrow> bool" where
  "marks_within h h' \<longleftrightarrow> (\<forall>i<n_buckets h. hb_dibs h' ! i = DIB_RAW_REHASH \<longrightarrow> hb_dibs h ! i = DIB_RAW_REHASH)"

lemma marks_within_trans: "marks_within h h' \<Longrightarrow> marks_within h' h'' \<Longrightarrow> n_buckets h' = n_buckets h \<Longrightarrow> marks_within h h''"
  by (simp add: marks_within_def)

lemma place_marks_within: "sized h \<Longrightarrow> marks_within h (place h i e d)"
  unfolding marks_within_def
proof (intro allI impI)
  fix j assume "sized h" "j < n_buckets h" "hb_dibs (place h i e d) ! j = DIB_RAW_REHASH"
  then show "hb_dibs h ! j = DIB_RAW_REHASH"
    using raw_dib_settled(2) [of d] by (cases "j = i") (simp_all add: place_def sized_def)
qed

definition put_post :: "'p HashmapBase \<Rightarrow> 'p hashmap_entry \<Rightarrow> (bool \<times> 'p HashmapBase \<times> 'p swap_entries) outcome \<Rightarrow> bool" where
  "put_post h e x \<longleftrightarrow>
     (\<exists>b h' swap'. x = Ret (b, h', swap') \<and> table_ok h' \<and> same_shape h h' \<and> marks_within h h' \<and> (\<exists>i<n_buckets h. rank h' i \<le> 1) \<and>
        (if b then \<exists>e'. sw_put swap' = Some e' \<and> add_mset e' (live h') = add_mset e (live h) \<and> n_marked h = Suc (n_marked h')
         else live h' = add_mset e (live h) \<and> n_marked h' = n_marked h))"

lemma put_postI:
  "table_ok h' \<Longrightarrow> same_shape h h' \<Longrightarrow> marks_within h h' \<Longrightarrow> \<exists>i<n_buckets h. rank h' i \<le> 1 \<Longrightarrow> live h' = add_mset e (live h) \<Longrightarrow> n_marked h' = n_marked h \<Longrightarrow>
     put_post h e (Ret (False, h', swap'))"
  "table_ok h' \<Longrightarrow> same_shape h h' \<Longrightarrow> marks_within h h' \<Longrightarrow> \<exists>i<n_buckets h. rank h' i \<le> 1 \<Longrightarrow> sw_put swap' = Some e' \<Longrightarrow>
     add_mset e' (live h') = add_mset e (live h) \<Longrightarrow> n_marked h = Suc (n_marked h') \<Longrightarrow> put_post h e (Ret (True, h', swap'))"
  unfolding put_post_def by (simp_all add: exI [of "\<lambda>b. b" True] exI [of "\<lambda>b. \<not> b" False])

lemma put_post_trans:
  assumes "put_post h1 e1 x" "same_shape h h1" "marks_within h h1" "add_mset e1 (live h1) = add_mset e (live h)" "n_marked h1 = n_marked h"
  shows "put_post h e x"
proof -
  obtain b h' swap' where x: "x = Ret (b, h', swap')" "table_ok h'" "same_shape h1 h'" "marks_within h1 h'" "\<exists>i<n_buckets h1. rank h' i \<le> 1"
      "if b then \<exists>e'. sw_put swap' = Some e' \<and> add_mset e' (live h') = add_mset e1 (live h1) \<and> n_marked h1 = Suc (n_marked h')
         else live h' = add_mset e1 (live h1) \<and> n_marked h' = n_marked h1"
    using assms(1) unfolding put_post_def by blast
  have "same_shape h h'" "marks_within h h'" "\<exists>i<n_buckets h. rank h' i \<le> 1"
    using same_shape_trans [OF assms(2) x(3)] marks_within_trans [OF assms(3) x(4)] same_shape_eqs(1) [OF assms(2)] x(5) by simp_all
  then show ?thesis using x(1,2,6) assms(4,5) unfolding put_post_def by (cases b) auto
qed

lemma robin_hood_settle:
  \<comment> \<open>the last round of the loop\<close>
  assumes ok: "table_ok h" and i: "idx < n_buckets h" and put: "sw_put swap = Some e" and d: "d = bucket_distance h idx (home h e)"
    and prev: "\<And>j. j < n_buckets h \<Longrightarrow> next_idx h j = idx \<Longrightarrow> d \<le> rank h j" and free: "rank h idx = 0"
    and f: "f < n_buckets h" "rank h f = 0" "next_idx h f = idx \<Longrightarrow> d = 0"
  shows "put_post h e (hashmap_put_robin_hood_loop (Suc fuel) h idx d swap)"
proof -
  have sz: "sized h" using ok by (rule table_ok_sized)
  have dl: "d < DIB_FREE" using bucket_distance_less [OF i home_less, of e] d sz by (simp add: sized_def)
  let ?h = "place h idx e d"
  have k: "table_ok ?h" using place_ok [OF ok i d] prev free by simp
  have low: "\<exists>j<n_buckets h. rank ?h j \<le> 1"
  proof (cases "f = idx")
    case False
    then have "rank ?h f \<le> 1" using f by (simp add: place_rank [OF sz i])
    then show ?thesis using f(1) by blast
  next
    case True
    have "rank ?h (next_idx h f) \<le> 1"
      using table_okD(2) [OF ok f(1)] f d unfolding place_rank [OF sz i] by (cases "next_idx h f = idx") simp_all
    then show ?thesis using next_idx_less [OF f(1)] by blast
  qed
  have b: "hb_dibs h ! idx = DIB_RAW_FREE \<and> hb_buckets h ! idx = None \<or>
      (\<exists>e'. hb_dibs h ! idx = DIB_RAW_REHASH \<and> hb_buckets h ! idx = Some e')"
    using free table_okD(1) [OF ok i] by (auto simp: rank_def settled_def bucket_ok_def split: if_splits)
  have len: "idx < length (hb_buckets h)" using i sz by (simp add: sized_def)
  have fr: "DIB_RAW_FREE \<noteq> DIB_RAW_REHASH" by (simp add: DIB_RAW_FREE_def DIB_RAW_REHASH_def)
  have m: "hb_buckets (lower_lowest h idx) = hb_buckets h" "hb_dibs (lower_lowest h idx) = hb_dibs h"
    by (simp_all add: lower_lowest_def)
  have c: "h\<lparr>hb_dibs := x, hb_buckets := y\<rparr> = h\<lparr>hb_buckets := y, hb_dibs := x\<rparr>"
    "swap\<lparr>sw_tmp := z, sw_put := z\<rparr> = swap\<lparr>sw_put := z, sw_tmp := z\<rparr>" for h :: "'a HashmapBase" and x y z by simp_all
  from b show ?thesis
  proof (elim disjE exE conjE)
    assume a: "hb_dibs h ! idx = DIB_RAW_FREE" "hb_buckets h ! idx = None"
    have "hashmap_put_robin_hood_loop (Suc fuel) h idx d swap = Ret (False, ?h, swap)"
      using a fr put dl m by (simp add: bucket_move_entry_def c_assert_def bucket_at_virtual_def set_dib_raw place_def c)
    moreover have "live ?h = add_mset e (live h)" "n_marked ?h = n_marked h"
      using place_live [OF sz i, of e d] place_marked [OF sz i, of e d] a fr by simp_all
    ultimately show ?thesis using put_postI(1) [OF k place_shape place_marks_within [OF sz] low] by simp
  next
    fix e' assume a: "hb_dibs h ! idx = DIB_RAW_REHASH" "hb_buckets h ! idx = Some e'"
    have "hashmap_put_robin_hood_loop (Suc fuel) h idx d swap = Ret (True, ?h, swap\<lparr>sw_put := Some e', sw_tmp := Some e'\<rparr>)"
      using a fr put dl m by (simp add: bucket_move_entry_def c_assert_def bucket_at_virtual_def set_dib_raw place_def c)
    moreover have "add_mset e' (live ?h) = add_mset e (live h)" "n_marked h = Suc (n_marked ?h)"
      using place_live [OF sz i, of e d] place_marked [OF sz i, of e d] a by simp_all
    ultimately show ?thesis
      using put_postI(2) [OF k place_shape place_marks_within [OF sz] low, of "swap\<lparr>sw_put := Some e', sw_tmp := Some e'\<rparr>"] by simp
  qed
qed

lemma robin_hood_swap:
  \<comment> \<open>a round that takes the bucket of an entry closer to its home\<close>
  assumes ok: "table_ok h" and i: "idx < n_buckets h" and s: "settled h idx" and put: "sw_put swap = Some e" and lt: "rank h idx \<le> d"
    and dl: "d < DIB_FREE"
  shows "hashmap_put_robin_hood_loop (Suc fuel) h idx d swap =
     hashmap_put_robin_hood_loop fuel (place h idx e d) (next_idx h idx) (rank h idx) (swap\<lparr>sw_put := hb_buckets h ! idx, sw_tmp := hb_buckets h ! idx\<rparr>)"
proof -
  have b: "bucket_ok h idx" using ok i by (rule table_okD)
  have l: "lower_lowest h idx = h" using lower_lowest_occupied [OF ok i] b s by (auto simp: bucket_ok_def settled_def)
  have r: "bucket_calculate_dib h idx (hb_dibs h ! idx) = rank h idx - 1" "0 < rank h idx" using calculate_dib b s rank_pos by blast+
  have n: "next_idx (place h idx e d) = next_idx h" by (rule place_eqs)
  have c: "h\<lparr>hb_dibs := x, hb_buckets := y\<rparr> = h\<lparr>hb_buckets := y, hb_dibs := x\<rparr>"
    "swap\<lparr>sw_tmp := z, sw_put := z\<rparr> = swap\<lparr>sw_put := z, sw_tmp := z\<rparr>" for x y z by simp_all
  have "rank h idx - 1 < d" using r(2) lt by arith
  then show ?thesis
    using s r put dl n
    by (simp add: c settled_def bucket_move_entry_def c_assert_def bucket_at_virtual_def set_dib_raw place_def l Let_def)
qed

lemma robin_hood_loop:
  assumes "table_ok h" "idx < n_buckets h" "sw_put swap = Some e" "d = bucket_distance h idx (home h e)"
    and "\<And>j. j < n_buckets h \<Longrightarrow> next_idx h j = idx \<Longrightarrow> d \<le> rank h j"
    and "f < n_buckets h" "rank h f = 0" "next_idx h f = idx \<Longrightarrow> d = 0" "bucket_distance h f idx < fuel"
  shows "put_post h e (hashmap_put_robin_hood_loop fuel h idx d swap)"
  using assms
proof (induction fuel arbitrary: h idx d swap e)
  case (Suc fuel)
  note ok = Suc.prems(1) and i = Suc.prems(2) and put = Suc.prems(3) and d = Suc.prems(4) and prev = Suc.prems(5) and f = Suc.prems(6-8)
  have sz: "sized h" using ok by (rule table_ok_sized)
  have hl: "home h e' < n_buckets h" for e' using sz by (simp add: home_less sized_def)
  have dl: "d < n_buckets h" "n_buckets h < DIB_FREE" using bucket_distance_less [OF i hl] d sz by (simp_all add: sized_def)
  show ?case
  proof (cases "rank h idx = 0")
    case True
    show ?thesis by (rule robin_hood_settle [OF ok i put d prev True f])
  next
    case False
    then have s: "settled h idx" by (simp add: rank_def split: if_splits)
    then obtain e1 where e1: "hb_buckets h ! idx = Some e1" using table_okD(1) [OF ok i] by (auto simp: bucket_ok_def settled_def)
    have r1: "rank h idx = Suc (bucket_distance h idx (home h e1))" using s e1 by (simp add: rank_def)
    let ?n = "next_idx h idx"
    have nl: "?n < n_buckets h" using i by (rule next_idx_less)
    have nf: "idx \<noteq> f" using False f(2) by auto
    have rd: "rank h idx \<le> bucket_distance h idx f" by (rule rank_le_distance [OF ok i f(1,2)])
    have far: "bucket_distance h f ?n < fuel" using Suc.prems(9) bucket_distance_from_next [OF f(1) i] nf by simp
    have wrap: "bucket_distance h idx f + 1 < n_buckets h \<or> ?n = f"
      using bucket_distance_next [OF i f(1)] bucket_distance_0 [OF nl f(1)] bucket_distance_less [OF i f(1)] by (auto split: if_splits)
    show ?thesis
    proof (cases "rank h idx \<le> d")
      case True
      let ?h = "place h idx e d"
      have k: "table_ok ?h" using place_ok [OF ok i d] prev True by simp
      have dn: "rank h idx = bucket_distance h ?n (home h e1)"
        using bucket_distance_next [OF i hl [of e1]] r1 True dl by (auto split: if_splits)
      have "put_post ?h e1 (hashmap_put_robin_hood_loop fuel ?h ?n (rank h idx) (swap\<lparr>sw_put := hb_buckets h ! idx, sw_tmp := hb_buckets h ! idx\<rparr>))"
      proof (rule Suc.IH)
        show "rank h idx \<le> rank ?h j" if "j < n_buckets ?h" "next_idx ?h j = ?n" for j
        proof -
          have "j = idx" using that i by (simp add: place_eqs next_idx_inj)
          then show ?thesis using True d by (simp add: place_rank [OF sz i])
        qed
        show "rank h idx = 0" if "next_idx ?h f = ?n" using that nf i f(1) by (simp add: place_eqs next_idx_inj)
      qed (use k nl e1 dn f nf far in \<open>simp_all add: place_eqs place_rank [OF sz i]\<close>)
      moreover have "n_marked ?h = n_marked h" using place_marked [OF sz i, of e d] s by (simp add: settled_def)
      moreover have "add_mset e1 (live ?h) = add_mset e (live h)" using place_live [OF sz i, of e d] e1 by simp
      ultimately have "put_post h e (hashmap_put_robin_hood_loop fuel ?h ?n (rank h idx) (swap\<lparr>sw_put := hb_buckets h ! idx, sw_tmp := hb_buckets h ! idx\<rparr>))"
        using put_post_trans [OF _ place_shape place_marks_within [OF sz]] by blast
      then show ?thesis using robin_hood_swap [OF ok i s put True] dl by simp
    next
      case False
      have dn: "Suc d = bucket_distance h ?n (home h e)"
        using bucket_distance_next [OF i hl [of e]] d rd False bucket_distance_less [OF i f(1)] by (auto split: if_splits)
      have "put_post h e (hashmap_put_robin_hood_loop fuel h ?n (Suc d) swap)"
      proof (rule Suc.IH)
        show "Suc d \<le> rank h j" if "j < n_buckets h" "next_idx h j = ?n" for j
          using that i False by (simp add: next_idx_inj)
        show "Suc d = 0" if "next_idx h f = ?n" using that nf i f(1) by (simp add: next_idx_inj)
      qed (use ok nl put dn f far in simp_all)
      moreover have "\<not> rank h idx - 1 < d" using False by arith
      ultimately show ?thesis
        using s calculate_dib [OF table_okD(1) [OF ok i] s] by (simp add: settled_def Let_def)
    qed
  qed
qed simp

lemma robin_hood_put:
  assumes ok: "table_ok h" and put: "sw_put swap = Some e" and f: "f < n_buckets h" "rank h f = 0"
  shows "put_post h e (hashmap_put_robin_hood h (home h e) swap)"
proof -
  have hl: "home h e < n_buckets h" using f by (intro home_less) simp
  show ?thesis
    unfolding hashmap_put_robin_hood_def
    by (rule robin_hood_loop [OF ok hl put _ _ f]) (use hl f in \<open>simp_all add: bucket_distance_0 bucket_distance_less\<close>)
qed

end
