(* ===== verification/Hashmap_Get.thy ===== *)
theory Hashmap_Get
  imports Hashmap_Put
begin

section \<open>Looking up\<close>

definition matches :: "'p HashmapBase \<Rightarrow> 'p \<Rightarrow> nat \<Rightarrow> bool" where
  "matches h key i \<longleftrightarrow> settled h i \<and> compare (hb_hash_ops h) (key_at h i) key = 0"

definition table_clean :: "'p HashmapBase \<Rightarrow> bool" where
  "table_clean h \<longleftrightarrow> DIB_RAW_REHASH \<notin> set (hb_dibs h)"

lemma n_marked_0: "n_marked h = 0 \<longleftrightarrow> table_clean h"
  by (simp add: n_marked_def table_clean_def count_eq_zero_iff)

lemma table_clean_settled:
  "sized h \<Longrightarrow> table_clean h \<Longrightarrow> i < n_buckets h \<Longrightarrow> settled h i \<longleftrightarrow> hb_dibs h ! i \<noteq> DIB_RAW_FREE"
  by (metis nth_mem settled_def sized_def table_clean_def)

lemma matches_home:
  assumes "hash_ops_ok (hb_hash_ops h)" "matches h key i"
  shows "rank h i = Suc (bucket_distance h i (base_bucket_hash h key))"
proof -
  have "hash (hb_hash_ops h) (key_at h i) s = hash (hb_hash_ops h) key s" for s
    using assms unfolding matches_def hash_ops_ok_def by blast
  then show ?thesis using assms(2) by (simp add: matches_def rank_def home_def key_at_def base_bucket_hash_def)
qed

lemma bucket_distance_inj:
  "i < n_buckets h \<Longrightarrow> j < n_buckets h \<Longrightarrow> p < n_buckets h \<Longrightarrow> bucket_distance h i p = bucket_distance h j p \<longleftrightarrow> i = j"
  unfolding bucket_distance_def by (split if_split, split if_split) arith

text \<open>On the way from the home of an entry to its bucket, no rank is smaller than the distance walked.\<close>

lemma rank_on_the_way:
  assumes ok: "table_ok h" and j: "j < n_buckets h" and p: "p < n_buckets h" and t: "t < n_buckets h"
    and r: "rank h t = Suc (bucket_distance h t p)"
    and "bucket_distance h j p \<le> bucket_distance h t p"
  shows "bucket_distance h j p < rank h j"
  using j assms(6)
proof (induction "bucket_distance h t p - bucket_distance h j p" arbitrary: j)
  case 0
  then have "bucket_distance h j p = bucket_distance h t p" by simp
  then have "j = t" using bucket_distance_inj [OF 0(2) t p] by simp
  then show ?case using r by simp
next
  case (Suc x)
  have jl: "j < n_buckets h" by (rule Suc.prems(1))
  have n: "bucket_distance h (next_idx h j) p = Suc (bucket_distance h j p)"
    using bucket_distance_next [OF jl p] bucket_distance_less [OF t p] Suc.hyps(2) by (auto split: if_splits)
  have "bucket_distance h (next_idx h j) p < rank h (next_idx h j)"
  proof (rule Suc.hyps(1))
    show "x = bucket_distance h t p - bucket_distance h (next_idx h j) p" using Suc.hyps(2) n by arith
    show "bucket_distance h (next_idx h j) p \<le> bucket_distance h t p" using Suc.hyps(2) n by arith
  qed (rule next_idx_less [OF jl])
  then show ?case using table_okD(2) [OF ok jl] n by simp
qed

lemma scan_step:
  assumes ok: "table_ok h" and cl: "table_clean h" and i: "idx < n_buckets h"
  shows "base_bucket_scan_loop (Suc fuel) h idx d key =
    (if rank h idx \<le> d then Ret None
     else if rank h idx = Suc d \<and> compare (hb_hash_ops h) (key_at h idx) key = 0 then Ret (Some idx)
     else base_bucket_scan_loop fuel h (next_idx h idx) (Suc d) key)"
proof (cases "settled h idx")
  case False
  then show ?thesis using table_clean_settled [OF table_ok_sized [OF ok] cl i] by (simp add: rank_def)
next
  case True
  then have "bucket_calculate_dib h idx (hb_dibs h ! idx) = rank h idx - 1" "0 < rank h idx"
    using calculate_dib [OF table_okD(1) [OF ok i]] rank_pos by blast+
  moreover have "x - 1 < d \<longleftrightarrow> x \<le> d" "x - 1 = d \<longleftrightarrow> x = Suc d" if "0 < x" for x :: nat using that by arith+
  ultimately show ?thesis using True by (simp add: settled_def Let_def)
qed

declare base_bucket_scan_loop.simps(2) [simp del]

lemma scan_loop_found:
  assumes "table_ok h" "table_clean h" "idx < n_buckets h" "base_bucket_scan_loop fuel h idx d key = Ret (Some i)"
  shows "i < n_buckets h \<and> matches h key i"
  using assms(3,4)
proof (induction fuel arbitrary: idx d)
  case (Suc fuel)
  then show ?case
    using scan_step [OF assms(1,2) Suc.prems(1), of fuel d key] next_idx_less [OF Suc.prems(1)] rank_pos [of h idx]
    by (auto simp: matches_def split: if_splits)
qed simp

lemma scan_loop_ends:
  assumes "table_ok h" "table_clean h" "idx < n_buckets h" "d \<le> n_buckets h" "n_buckets h < fuel + d"
  shows "\<exists>r. base_bucket_scan_loop fuel h idx d key = Ret r"
  using assms(3-5)
proof (induction fuel arbitrary: idx d)
  case (Suc fuel)
  have "Suc d \<le> n_buckets h" if "\<not> rank h idx \<le> d"
    using rank_le [OF table_ok_sized [OF assms(1)] Suc.prems(1)] that by simp
  then show ?case
    using scan_step [OF assms(1,2) Suc.prems(1), of fuel d key] Suc.IH [OF next_idx_less [OF Suc.prems(1)], of "Suc d"] Suc.prems(3)
    by auto
qed simp

lemma scan_loop_reaches:
  assumes "table_ok h" "table_clean h" "hash_ops_ok (hb_hash_ops h)" and t: "t < n_buckets h" "matches h key t"
    and "idx < n_buckets h" "d = bucket_distance h idx (base_bucket_hash h key)"
    "d \<le> bucket_distance h t (base_bucket_hash h key)"
  shows "base_bucket_scan_loop fuel h idx d key \<noteq> Ret None"
  using assms(6-8)
proof (induction fuel arbitrary: idx d)
  case (Suc fuel)
  let ?p = "base_bucket_hash h key"
  have p: "?p < n_buckets h" using t(1) by (simp add: base_bucket_hash_def)
  have "\<not> rank h idx \<le> d"
    using rank_on_the_way [OF assms(1) Suc.prems(1) p t(1) matches_home [OF assms(3) t(2)]] Suc.prems by simp
  moreover have "base_bucket_scan_loop fuel h (next_idx h idx) (Suc d) key \<noteq> Ret None"
    if "\<not> (rank h idx = Suc d \<and> compare (hb_hash_ops h) (key_at h idx) key = 0)"
  proof (rule Suc.IH)
    have "idx \<noteq> t" using that t(2) matches_home [OF assms(3) t(2)] Suc.prems(2) by (auto simp: matches_def)
    then have "d \<noteq> bucket_distance h t ?p" using bucket_distance_inj [OF Suc.prems(1) t(1) p] Suc.prems(2) by simp
    then show le: "Suc d \<le> bucket_distance h t ?p" using Suc.prems(3) by simp
    show "Suc d = bucket_distance h (next_idx h idx) ?p"
      using le bucket_distance_next [OF Suc.prems(1) p] bucket_distance_less [OF t(1) p] Suc.prems(2) by auto
  qed (rule next_idx_less [OF Suc.prems(1)])
  ultimately show ?case using scan_step [OF assms(1,2) Suc.prems(1), of fuel d key] by auto
qed simp

definition scan_post :: "'p HashmapBase \<Rightarrow> 'p \<Rightarrow> nat option \<Rightarrow> bool" where
  "scan_post h key r \<longleftrightarrow> (case r of None \<Rightarrow> \<forall>i<n_buckets h. \<not> matches h key i | Some i \<Rightarrow> i < n_buckets h \<and> matches h key i)"

lemma scan_result:
  assumes "table_ok h" "table_clean h" "hash_ops_ok (hb_hash_ops h)"
  shows "\<exists>r. base_bucket_scan h (base_bucket_hash h key) key = Ret r \<and> scan_post h key r"
proof -
  let ?p = "base_bucket_hash h key"
  have p: "?p < n_buckets h" using table_ok_sized [OF assms(1)] by (simp add: base_bucket_hash_def sized_def)
  obtain r where r: "base_bucket_scan_loop (Suc (n_buckets h)) h ?p 0 key = Ret r"
    using scan_loop_ends [OF assms(1,2) p, of 0 "Suc (n_buckets h)" key] by auto
  have "\<forall>t<n_buckets h. \<not> matches h key t" if "r = None"
  proof (intro allI impI notI)
    fix t assume "t < n_buckets h" "matches h key t"
    then have "base_bucket_scan_loop (Suc (n_buckets h)) h ?p 0 key \<noteq> Ret None"
      using bucket_distance_0 [OF p p] by (intro scan_loop_reaches [OF assms _ _ p]) simp_all
    then show False using r that by simp
  qed
  moreover have "i < n_buckets h \<and> matches h key i" if "r = Some i" for i
    using scan_loop_found [OF assms(1,2) p] r that by blast
  ultimately show ?thesis using r p by (auto simp: base_bucket_scan_def c_assert_def scan_post_def split: option.split)
qed

end
