(* ===== verification/Hashmap_Remove.thy ===== *)
theory Hashmap_Remove
  imports Hashmap_Get
begin

section \<open>Overwriting a bucket\<close>

definition overwrite :: "'p HashmapBase \<Rightarrow> nat \<Rightarrow> 'p hashmap_entry option \<Rightarrow> u8 \<Rightarrow> 'p HashmapBase" where
  "overwrite h i b r = h\<lparr>hb_buckets := (hb_buckets h)[i := b], hb_dibs := (hb_dibs h)[i := r]\<rparr>"

abbreviation vacate :: "'p HashmapBase \<Rightarrow> nat \<Rightarrow> 'p HashmapBase" where
  "vacate h i \<equiv> overwrite h i None DIB_RAW_FREE"

lemma mark_free_vacate: "bucket_mark_free h i = vacate h i"
  by (simp add: bucket_mark_free_def bucket_set_dib_def overwrite_def)

lemma overwrite_shape: "same_shape h (overwrite h i b r)"
  by (simp add: same_shape_def overwrite_def)

lemmas overwrite_eqs = same_shape_eqs [OF overwrite_shape]

lemma overwrite_rank:
  assumes "sized h" "i < n_buckets h"
  shows "rank (overwrite h i b r) j =
    (if j = i then if r = DIB_RAW_FREE \<or> r = DIB_RAW_REHASH then 0 else Suc (bucket_distance h i (home h (the b))) else rank h j)"
proof (cases "j = i")
  case True
  then show ?thesis using assms by (simp add: rank_def settled_def overwrite_eqs sized_def) (simp add: overwrite_def)
next
  case False
  then show ?thesis by (simp add: rank_def settled_def overwrite_eqs) (simp add: overwrite_def)
qed

lemma overwrite_ok_other:
  assumes "sized h" "i < n_buckets h" "bucket_ok h j" "j \<noteq> i"
  shows "bucket_ok (overwrite h i b r) j"
  using assms(3,4) unfolding bucket_ok_def overwrite_rank [OF assms(1,2)] by (simp add: overwrite_def settled_def)

lemma vacate_ok: "sized h \<Longrightarrow> i < n_buckets h \<Longrightarrow> bucket_ok (vacate h i) i"
  by (simp add: bucket_ok_def settled_def overwrite_def sized_def)

lemma overwrite_ok:
  assumes "sized h" "i < n_buckets h" "\<not> (hb_has_indirect h \<and> i < hb_idx_lowest_entry h)" "d = bucket_distance h i (home h e)"
  shows "bucket_ok (overwrite h i (Some e) (raw_dib d)) i"
  unfolding bucket_ok_def overwrite_rank [OF assms(1,2)] using assms raw_dib_settled [of d]
  by (simp add: overwrite_def sized_def)

lemma overwrite_live:
  "sized h \<Longrightarrow> i < n_buckets h \<Longrightarrow> live (overwrite h i b r) + opt_mset (hb_buckets h ! i) = live h + opt_mset b"
  using live_update [of i h b] by (simp add: overwrite_def live_def sized_def)

lemma overwrite_clean: "table_clean h \<Longrightarrow> r \<noteq> DIB_RAW_REHASH \<Longrightarrow> table_clean (overwrite h i b r)"
  using set_update_subset_insert [of "hb_dibs h" i r] by (auto simp: table_clean_def overwrite_def)

section \<open>A table with a hole\<close>

text \<open>
  While entries are shifted, bucket \<open>p\<close> holds an entry that was moved or removed.  Without it the
  table is in order, except that the rank after the hole may be larger than the one before it by two.
\<close>

definition holed :: "'p HashmapBase \<Rightarrow> nat \<Rightarrow> bool" where
  "holed h p \<longleftrightarrow>
     sized h \<and> p < n_buckets h \<and> table_clean h \<and> \<not> (hb_has_indirect h \<and> p < hb_idx_lowest_entry h) \<and>
     (\<forall>i<n_buckets h. i \<noteq> p \<longrightarrow> bucket_ok h i \<and> rank (vacate h p) (next_idx h i) \<le> Suc (rank h i)) \<and>
     (\<forall>i<n_buckets h. next_idx h i = p \<longrightarrow> rank (vacate h p) (next_idx h p) \<le> rank (vacate h p) i + 2)"

lemma holed_start:
  assumes ok: "table_ok h" and cl: "table_clean h" and i: "i < n_buckets h" and s: "settled h i"
  shows "holed h i"
proof -
  note sz = table_ok_sized [OF ok]
  have r: "rank (vacate h i) j = (if j = i then 0 else rank h j)" for j using overwrite_rank [OF sz i] by simp
  have "rank (vacate h i) (next_idx h i) \<le> rank (vacate h i) j + 2" if "j < n_buckets h" "next_idx h j = i" for j
    using table_okD(2) [OF ok i] table_okD(2) [OF ok that(1)] that(2) by (cases "j = i") (auto simp: r)
  moreover have "rank (vacate h i) (next_idx h j) \<le> Suc (rank h j)" if "j < n_buckets h" for j
    using table_okD(2) [OF ok that] by (simp add: r)
  ultimately show ?thesis
    using sz cl i table_okD(1) [OF ok] s by (auto simp: holed_def bucket_ok_def settled_def)
qed

lemma holed_end:
  assumes h: "holed h p" and n: "rank (vacate h p) (next_idx h p) \<le> 1"
  shows "table_ok (vacate h p)" "table_clean (vacate h p)"
proof -
  have sz: "sized h" and p: "p < n_buckets h" and cl: "table_clean h" using h by (auto simp: holed_def)
  have r: "rank (vacate h p) j = (if j = p then 0 else rank h j)" for j using overwrite_rank [OF sz p] by simp
  have "bucket_ok (vacate h p) j" if "j < n_buckets h" for j
    using vacate_ok [OF sz p] overwrite_ok_other [OF sz p] h that by (cases "j = p") (auto simp: holed_def)
  moreover have "rank (vacate h p) (next_idx h j) \<le> Suc (rank (vacate h p) j)" if "j < n_buckets h" for j
    using n h that by (cases "j = p") (auto simp: holed_def r)
  ultimately show "table_ok (vacate h p)" using sz by (simp add: table_ok_def overwrite_eqs)
  have "DIB_RAW_FREE \<noteq> DIB_RAW_REHASH" by (simp add: DIB_RAW_FREE_def DIB_RAW_REHASH_def)
  with cl show "table_clean (vacate h p)" by (rule overwrite_clean)
qed

lemma mset_cancel: "A + E = B \<Longrightarrow> B + U = C + E \<Longrightarrow> V + U = C \<Longrightarrow> A = (V :: 'a multiset)"
  by (auto simp: ac_simps)

text \<open>One round of shifting: the entry of the next bucket moves into the hole.\<close>

lemma holed_step:
  assumes h: "holed h p" and two: "2 \<le> rank h (next_idx h p)" and ne: "next_idx h p \<noteq> p"
    and e: "hb_buckets h ! next_idx h p = Some e"
  defines "h' \<equiv> overwrite h p (Some e) (raw_dib (rank h (next_idx h p) - 2))"
  shows "holed h' (next_idx h p)" "rank h' p = rank h (next_idx h p) - 1"
    "live (vacate h' (next_idx h p)) = live (vacate h p)"
proof -
  let ?q = "next_idx h p" let ?d = "rank h (next_idx h p) - 2"
  have sz: "sized h" and p: "p < n_buckets h" and cl: "table_clean h" using h by (auto simp: holed_def)
  have q: "?q < n_buckets h" using p by (rule next_idx_less)
  have sz': "sized h'" using sz by (simp add: h'_def overwrite_eqs)
  have N: "n_buckets h' = n_buckets h" "next_idx h' = next_idx h" by (simp_all add: h'_def overwrite_eqs)
  have bq: "bucket_ok h ?q" using h q ne by (auto simp: holed_def)
  have s: "settled h ?q" using two rank_pos [of h ?q] by simp
  have rq: "rank h ?q = Suc (bucket_distance h ?q (home h e))" using s e by (simp add: rank_def)
  have hl: "home h e < n_buckets h" using p by (intro home_less) simp
  have d: "?d = bucket_distance h p (home h e)"
    using bucket_distance_next [OF p hl] rq two by (auto split: if_splits)
  have r': "rank h' j = (if j = p then rank h ?q - 1 else rank h j)" for j
    unfolding h'_def overwrite_rank [OF sz p] using raw_dib_settled [of ?d] d two by auto
  then show "rank h' p = rank h ?q - 1" by simp
  have rv: "rank (vacate h p) j = (if j = p then 0 else rank h j)" for j using overwrite_rank [OF sz p] by simp
  have rv': "rank (vacate h' ?q) j = (if j = ?q then 0 else rank h' j)" for j
    using overwrite_rank [OF sz' q [folded N(1)]] by simp
  have ok': "bucket_ok h' j" if "j < n_buckets h" "j \<noteq> ?q" for j
  proof (cases "j = p")
    case True
    then show ?thesis unfolding h'_def using overwrite_ok [OF sz p _ d] h by (simp add: holed_def)
  next
    case False
    then show ?thesis unfolding h'_def using overwrite_ok_other [OF sz p _ False] h that by (simp add: holed_def)
  qed
  have mono: "rank (vacate h' ?q) (next_idx h j) \<le> Suc (rank h' j)" if j: "j < n_buckets h" "j \<noteq> ?q" for j
  proof -
    consider "j = p" | "j \<noteq> p" "next_idx h j = p" | "j \<noteq> p" "next_idx h j \<noteq> p" by blast
    then show ?thesis
    proof cases
      case 2
      then have "rank h ?q \<le> rank h j + 2" using h j ne by (auto simp: holed_def rv split: if_splits)
      then show ?thesis using 2 by (simp add: rv' r') arith
    next
      case 3
      then have "rank h (next_idx h j) \<le> Suc (rank h j)" using h j by (auto simp: holed_def rv)
      then show ?thesis using 3 by (simp add: rv' r')
    qed (simp add: rv')
  qed
  have two': "rank (vacate h' ?q) (next_idx h ?q) \<le> rank (vacate h' ?q) j + 2" if j: "j < n_buckets h" "next_idx h j = ?q" for j
  proof -
    have jp: "j = p" using j p by (simp add: next_idx_inj)
    have "next_idx h ?q \<noteq> p \<Longrightarrow> rank h (next_idx h ?q) \<le> Suc (rank h ?q)" using h q ne by (auto simp: holed_def rv)
    then show ?thesis using jp ne two by (cases "next_idx h ?q = p") (auto simp: rv' r')
  qed
  have low: "\<not> (hb_has_indirect h' \<and> ?q < hb_idx_lowest_entry h')"
    using bq e by (auto simp: bucket_ok_def h'_def overwrite_def)
  have cl': "table_clean h'" unfolding h'_def using cl raw_dib_settled(2) by (rule overwrite_clean)
  show "holed h' ?q"
    unfolding holed_def N using sz' q cl' low ok' mono two' by blast
  have "live (vacate h' ?q) + {#e#} = live h'"
    using overwrite_live [OF sz' q [folded N(1)], of None DIB_RAW_FREE] e ne by (simp add: h'_def overwrite_def)
  moreover have "live h' + opt_mset (hb_buckets h ! p) = live h + {#e#}"
    unfolding h'_def using overwrite_live [OF sz p, of "Some e"] by simp
  moreover have "live (vacate h p) + opt_mset (hb_buckets h ! p) = live h" using overwrite_live [OF sz p, of None] by simp
  ultimately show "live (vacate h' ?q) = live (vacate h p)" by (rule mset_cancel)
qed


section \<open>Removing an entry\<close>

lemma find_stop:
  assumes "table_ok h" "table_clean h" "left < n_buckets h" and g: "g < n_buckets h" "rank h g \<le> 1"
    and "right < n_buckets h" "bucket_distance h g right \<le> bucket_distance h left right" "bucket_distance h g right < fuel"
  shows "\<exists>r. find_stop_bucket fuel h left right = Ret r \<and> r < n_buckets h \<and> rank h r \<le> 1 \<and>
           (\<forall>j<n_buckets h. bucket_distance h j right < bucket_distance h r right \<longrightarrow> 2 \<le> rank h j)"
  using assms(6-8)
proof (induction fuel arbitrary: right)
  case (Suc fuel)
  note i = Suc.prems(1)
  have b: "bucket_ok h right" using assms(1) i by (rule table_okD)
  have stop: "hb_dibs h ! right = 0 \<or> hb_dibs h ! right = DIB_RAW_FREE \<longleftrightarrow> rank h right \<le> 1"
  proof (cases "settled h right")
    case True
    then have "hb_dibs h ! right = raw_dib (rank h right - 1)" using b by (simp add: bucket_ok_def)
    then show ?thesis using raw_dib_settled(1) by (auto simp: raw_dib_0)
  next
    case False
    then show ?thesis using table_clean_settled [OF table_ok_sized [OF assms(1)] assms(2) i] by (simp add: rank_def)
  qed
  show ?case
  proof (cases "rank h right \<le> 1")
    case True
    then show ?thesis using stop i bucket_distance_0 [OF i i] by (auto simp: Let_def)
  next
    case False
    let ?n = "next_idx h right"
    have n: "?n < n_buckets h" using i by (rule next_idx_less)
    have D: "bucket_distance h j right = Suc (bucket_distance h j ?n)" if "j < n_buckets h" "j \<noteq> right" for j
      by (rule bucket_distance_from_next [OF that(1) i that(2)])
    have gr: "g \<noteq> right" using False g(2) by auto
    have lr: "left \<noteq> right" using Suc.prems(2) D [OF g(1) gr] bucket_distance_0 [OF i i] by auto
    have "bucket_distance h g ?n \<le> bucket_distance h left ?n" "bucket_distance h g ?n < fuel"
      using Suc.prems(2,3) D [OF g(1) gr] D [OF assms(3) lr] by simp_all
    then obtain r where r: "find_stop_bucket fuel h left ?n = Ret r" "r < n_buckets h" "rank h r \<le> 1"
        "\<forall>j<n_buckets h. bucket_distance h j ?n < bucket_distance h r ?n \<longrightarrow> 2 \<le> rank h j"
      using Suc.IH [OF n] by blast
    have "2 \<le> rank h j" if j: "j < n_buckets h" "bucket_distance h j right < bucket_distance h r right" for j
    proof (cases "j = right")
      case True
      then show ?thesis using False by simp
    next
      case jr: False
      have "r \<noteq> right" using r(3) False by auto
      then show ?thesis using j D [OF j(1) jr] D [OF r(2)] r(4) by simp
    qed
    then show ?thesis using r False lr stop by (auto simp: Let_def c_assert_def)
  qed
qed simp

lemma shift_step:
  assumes h: "holed h p" and ne: "next_idx h p \<noteq> right" "next_idx h p \<noteq> p" and two: "2 \<le> rank h (next_idx h p)"
    and e: "hb_buckets h ! next_idx h p = Some e"
  shows "shift_buckets (Suc fuel) h p (next_idx h p) right =
     shift_buckets fuel (overwrite h p (Some e) (raw_dib (rank h (next_idx h p) - 2))) (next_idx h p) (next_idx h (next_idx h p)) right"
proof -
  have sz: "sized h" and p: "p < n_buckets h" using h by (auto simp: holed_def)
  have q: "next_idx h p < n_buckets h" using p by (rule next_idx_less)
  have b: "bucket_ok h (next_idx h p)" using h q ne(2) by (auto simp: holed_def)
  have s: "settled h (next_idx h p)" using two rank_pos [of h "next_idx h p"] by simp
  obtain k where k: "rank h (next_idx h p) = Suc (Suc k)" using two by (cases "rank h (next_idx h p)"; cases "rank h (next_idx h p) - 1") auto
  have "k < DIB_FREE" using rank_le [OF sz q] sz unfolding sized_def k by linarith
  then have d: "bucket_set_dib g p k = g\<lparr>hb_dibs := (hb_dibs g)[p := raw_dib k]\<rparr>" for g
    by (rule set_dib_raw)
  have n: "next_idx (h\<lparr>hb_buckets := x\<rparr>) = next_idx h" for x by (simp add: next_idx_def n_buckets_def fun_eq_iff)
  show ?thesis
    using ne e calculate_dib [OF b s]
    by (simp add: Let_def c_assert_def bucket_move_entry_def bucket_at_virtual_def n k d overwrite_def)
qed

lemma shift_loop:
  assumes "holed h p" "right < n_buckets h" "rank (vacate h p) right \<le> 1" "p = right \<Longrightarrow> rank h (next_idx h p) \<le> 2"
    and "\<And>j. j < n_buckets h \<Longrightarrow> bucket_distance h j (next_idx h p) < bucket_distance h right (next_idx h p) \<Longrightarrow> 2 \<le> rank h j"
    and "bucket_distance h right (next_idx h p) < fuel"
  shows "\<exists>p' h'. shift_buckets fuel h p (next_idx h p) right = Ret (p', h') \<and> holed h' p' \<and> same_shape h h' \<and>
           live (vacate h' p') = live (vacate h p) \<and> rank (vacate h' p') (next_idx h' p') \<le> 1"
  using assms
proof (induction fuel arbitrary: h p)
  case (Suc fuel)
  let ?q = "next_idx h p"
  note h = Suc.prems(1) and r = Suc.prems(2)
  have sz: "sized h" and p: "p < n_buckets h" using h by (auto simp: holed_def)
  have q: "?q < n_buckets h" using p by (rule next_idx_less)
  show ?case
  proof (cases "?q = right")
    case True
    then show ?thesis using Suc.prems(1,3) by simp
  next
    case False
    have D: "bucket_distance h j ?q = Suc (bucket_distance h j (next_idx h ?q))" if "j < n_buckets h" "j \<noteq> ?q" for j
      by (rule bucket_distance_from_next [OF that(1) q that(2)])
    have two: "2 \<le> rank h ?q" using Suc.prems(5) [OF q] bucket_distance_0 [OF q q] D [OF r] False by simp
    have ne: "?q \<noteq> p"
    proof
      assume "?q = p"
      then have "n_buckets h = 1" using p by (auto simp: next_idx_if split: if_splits)
      then show False using False r q by simp
    qed
    then obtain e where e: "hb_buckets h ! ?q = Some e"
      using h q two rank_pos [of h ?q] by (auto simp: holed_def bucket_ok_def settled_def)
    let ?h = "overwrite h p (Some e) (raw_dib (rank h ?q - 2))"
    note step = holed_step [OF h two ne e]
    have rk: "rank ?h j = rank h j" if "j \<noteq> p" for j using overwrite_rank [OF sz p] that by simp
    have szh: "sized ?h" using sz by (simp add: overwrite_eqs)
    have far: "bucket_distance h right ?q \<le> bucket_distance h p ?q"
      using bucket_distance_next [OF p p] bucket_distance_less [OF r q] bucket_distance_from_next [OF p p] bucket_distance_next [OF p q]
        bucket_distance_0 [OF q q] by (auto split: if_splits)
    have "\<exists>p' h'. shift_buckets fuel ?h ?q (next_idx ?h ?q) right = Ret (p', h') \<and> holed h' p' \<and> same_shape ?h h' \<and>
           live (vacate h' p') = live (vacate ?h ?q) \<and> rank (vacate h' p') (next_idx h' p') \<le> 1"
    proof (rule Suc.IH [OF step(1)])
      show "rank (vacate ?h ?q) right \<le> 1"
        using overwrite_rank [OF szh, of ?q] q False Suc.prems(3,4) step(2) overwrite_rank [OF sz p, of None DIB_RAW_FREE right]
        by (cases "right = p") (auto simp: overwrite_eqs rk)
      show "2 \<le> rank ?h j" if j: "j < n_buckets ?h" "bucket_distance ?h j (next_idx ?h ?q) < bucket_distance ?h right (next_idx ?h ?q)" for j
      proof -
        have jl: "j < n_buckets h" using j(1) by (simp add: overwrite_eqs)
        have lt: "bucket_distance h j (next_idx h ?q) < bucket_distance h right (next_idx h ?q)" using j(2) by (simp add: overwrite_eqs)
        have jq: "j \<noteq> ?q"
          using lt bucket_distance_less [OF r next_idx_less [OF q]] bucket_distance_next [OF q next_idx_less [OF q]]
            bucket_distance_0 [OF next_idx_less [OF q] next_idx_less [OF q]] by (auto split: if_splits)
        have "bucket_distance h j ?q < bucket_distance h right ?q" using lt D [OF jl jq] D [OF r] False by simp
        then have "2 \<le> rank h j" "j \<noteq> p" using Suc.prems(5) [OF jl] far by auto
        then show ?thesis by (simp add: rk)
      qed
      show "bucket_distance ?h right (next_idx ?h ?q) < fuel" using Suc.prems(6) D [OF r] False by (simp add: overwrite_eqs)
    qed (use r False in \<open>simp_all add: overwrite_eqs\<close>)
    then show ?thesis
      using shift_step [OF h False ne two e, of fuel] step(3) same_shape_trans [OF overwrite_shape] overwrite_eqs(3) [of h p "Some e"] by fastforce
  qed
qed simp

lemma remove_entry:
  assumes ok: "table_ok h" and cl: "table_clean h" and g: "g < n_buckets h" "rank h g \<le> 1" and i: "i < n_buckets h"
    and e: "hb_buckets h ! i = Some e"
  shows "\<exists>h'. base_remove_entry h i = Ret (n_entries_dec h') \<and> table_ok h' \<and> table_clean h' \<and> same_shape h h' \<and>
           add_mset e (live h') = live h \<and> (\<exists>j<n_buckets h. rank h' j \<le> 1)"
proof -
  note sz = table_ok_sized [OF ok]
  have s: "settled h i" using table_okD(1) [OF ok i] e table_clean_settled [OF sz cl i] by (auto simp: bucket_ok_def)
  let ?q = "next_idx h i"
  have q: "?q < n_buckets h" using i by (rule next_idx_less)
  have last: "bucket_distance h i ?q + 1 = n_buckets h"
    using bucket_distance_next [OF i q] bucket_distance_0 [OF q q] by (auto split: if_splits)
  have "bucket_distance h g ?q \<le> bucket_distance h i ?q" "bucket_distance h g ?q < n_buckets h"
    using last bucket_distance_less [OF g(1) q] by simp_all
  then obtain r where r: "find_stop_bucket (n_buckets h) h i ?q = Ret r" "r < n_buckets h" "rank h r \<le> 1"
      "\<forall>j<n_buckets h. bucket_distance h j ?q < bucket_distance h r ?q \<longrightarrow> 2 \<le> rank h j"
    using find_stop [OF ok cl i g q] by blast
  have h: "holed h i" by (rule holed_start [OF ok cl i s])
  have "rank (vacate h i) r \<le> 1" using r(3) overwrite_rank [OF sz i] by simp
  moreover have "rank h ?q \<le> 2" if "i = r" using table_okD(2) [OF ok i] r(3) that by simp
  ultimately obtain p h1 where h1: "shift_buckets (n_buckets h) h i ?q r = Ret (p, h1)" "holed h1 p" "same_shape h h1"
      "live (vacate h1 p) = live (vacate h i)" "rank (vacate h1 p) (next_idx h1 p) \<le> 1"
    using shift_loop [OF h r(2), of "n_buckets h"] r(4) bucket_distance_less [OF r(2) q] by blast
  have p: "p < n_buckets h1" and sz1: "sized h1" using h1(2) by (auto simp: holed_def)
  have "base_remove_entry h i = Ret (n_entries_dec (vacate h1 p))"
    using r(1) h1(1) s by (simp add: base_remove_entry_def c_assert_def settled_def mark_free_vacate)
  moreover have "add_mset e (live (vacate h1 p)) = live h" using h1(4) overwrite_live [OF sz i, of None] e by simp
  moreover have "rank (vacate h1 p) p \<le> 1" using overwrite_rank [OF sz1 p] by simp
  moreover have "p < n_buckets h" using p same_shape_eqs(1) [OF h1(3)] by simp
  ultimately show ?thesis using holed_end [OF h1(2,5)] same_shape_trans [OF h1(3) overwrite_shape] by blast
qed

end
