(* ===== verification/Hashmap_Resize.thy ===== *)
theory Hashmap_Resize
  imports Hashmap_Remove
begin

section \<open>Rehashing\<close>

lemma live_size: "size (live h) = length (filter (\<lambda>x. x \<noteq> None) (hb_buckets h))"
  by (simp add: live_def flip: mset_filter)

lemma has_free_bucket:
  assumes "table_ok h" "size (live h) < n_buckets h"
  shows "\<exists>f<n_buckets h. rank h f = 0"
proof -
  have len: "length (hb_buckets h) = n_buckets h" using table_ok_sized [OF assms(1)] by (simp add: sized_def)
  have "\<exists>x\<in>set (hb_buckets h). x = None"
  proof (rule ccontr)
    assume none: "\<not> (\<exists>x\<in>set (hb_buckets h). x = None)"
    have "filter (\<lambda>x. x \<noteq> None) (hb_buckets h) = hb_buckets h"
      by (rule filter_True, rule ballI) (metis none)
    then show False using assms(2) len by (simp add: live_size)
  qed
  then obtain f where "f < n_buckets h" "hb_buckets h ! f = None" using len by (auto simp: in_set_conv_nth)
  then show ?thesis using table_okD(1) [OF assms(1)] by (fastforce simp: bucket_ok_def rank_def settled_def)
qed

lemma n_marked_le: "sized h \<Longrightarrow> n_marked h \<le> n_buckets h"
  by (metis count_le_size n_marked_def size_mset sized_def)

lemma vacate_unranked:
  assumes ok: "table_ok h" and i: "i < n_buckets h" and r: "rank h i = 0"
  shows "table_ok (vacate h i)"
proof -
  note sz = table_ok_sized [OF ok]
  have k: "rank (vacate h i) j = rank h j" for j using overwrite_rank [OF sz i] r by simp
  have "bucket_ok (vacate h i) j" if "j < n_buckets h" for j
    using vacate_ok [OF sz i] overwrite_ok_other [OF sz i table_okD(1) [OF ok that]] by (cases "j = i") auto
  then show ?thesis using sz table_okD(2) [OF ok] by (simp add: table_ok_def overwrite_eqs k)
qed

lemma vacate_marked:
  assumes "sized h" "i < n_buckets h" "hb_dibs h ! i = DIB_RAW_REHASH"
  shows "n_marked h = Suc (n_marked (vacate h i))" "marks_within h (vacate h i)"
proof -
  have i: "i < length (hb_dibs h)" using assms by (simp add: sized_def)
  have "DIB_RAW_REHASH \<in># mset (hb_dibs h)" using i assms(3) nth_mem_mset by metis
  moreover have fr: "DIB_RAW_FREE \<noteq> DIB_RAW_REHASH" by (simp add: DIB_RAW_FREE_def DIB_RAW_REHASH_def)
  ultimately show "n_marked h = Suc (n_marked (vacate h i))"
    using i assms(3) by (simp add: n_marked_def overwrite_def mset_update Suc_diff_1 count_greater_zero_iff)
  show "marks_within h (vacate h i)"
    unfolding marks_within_def
  proof (intro allI impI)
    fix j assume "hb_dibs (vacate h i) ! j = DIB_RAW_REHASH"
    then show "hb_dibs h ! j = DIB_RAW_REHASH" using i fr by (cases "j = i") (simp_all add: overwrite_def)
  qed
qed

lemma rehash_entry_result:
  assumes "table_ok h" "sw_put swap = Some e" "size (live h) < n_buckets h" "n_marked h < fuel"
  shows "\<exists>h' swap' k. rehash_entry fuel h (home h e) swap c = Ret (h', swap', c + k) \<and> table_ok h' \<and> same_shape h h' \<and>
           marks_within h h' \<and> live h' = add_mset e (live h) \<and> n_marked h' + k = Suc (n_marked h)"
  using assms
proof (induction fuel arbitrary: h e swap c)
  case (Suc fuel)
  obtain f where f: "f < n_buckets h" "rank h f = 0" using has_free_bucket Suc.prems(1,3) by blast
  obtain b h1 swap1 where p: "hashmap_put_robin_hood h (home h e) swap = Ret (b, h1, swap1)" "table_ok h1" "same_shape h h1" "marks_within h h1"
      "if b then \<exists>e'. sw_put swap1 = Some e' \<and> add_mset e' (live h1) = add_mset e (live h) \<and> n_marked h = Suc (n_marked h1)
       else live h1 = add_mset e (live h) \<and> n_marked h1 = n_marked h"
    using robin_hood_put [OF Suc.prems(1,2) f] unfolding put_post_def by blast
  show ?case
  proof (cases b)
    case False
    then have "rehash_entry (Suc fuel) h (home h e) swap c = Ret (h1, swap1, c + 1)" using p(1) by simp
    then show ?thesis using p False by force
  next
    case True
    then obtain e1 where e1: "sw_put swap1 = Some e1" "add_mset e1 (live h1) = add_mset e (live h)" "n_marked h = Suc (n_marked h1)"
      using p(5) by auto
    have "size (live h1) = size (live h)" using arg_cong [OF e1(2), of size] by simp
    then have "size (live h1) < n_buckets h1" "n_marked h1 < fuel"
      using Suc.prems(3,4) same_shape_eqs(1) [OF p(3)] e1(3) by simp_all
    then obtain h2 swap2 k where r: "rehash_entry fuel h1 (home h1 e1) swap1 (c + 1) = Ret (h2, swap2, c + 1 + k)" "table_ok h2"
        "same_shape h1 h2" "marks_within h1 h2" "live h2 = add_mset e1 (live h1)" "n_marked h2 + k = Suc (n_marked h1)"
      using Suc.IH [OF p(2) e1(1), of "c + 1"] by blast
    have "rehash_entry (Suc fuel) h (home h e) swap c = Ret (h2, swap2, c + Suc k)"
      using p(1) True e1(1) r(1) by (simp add: home_def)
    moreover have "same_shape h h2" "marks_within h h2"
      using same_shape_trans [OF p(3) r(3)] marks_within_trans [OF p(4) r(4)] same_shape_eqs(1) [OF p(3)] by simp_all
    moreover have "live h2 = add_mset e (live h)" "n_marked h2 + Suc k = Suc (n_marked h)" using r(5,6) e1(2,3) by simp_all
    ultimately show ?thesis using r(2) by blast
  qed
qed simp

lemma rehash_loop_result:
  assumes "table_ok h" "size (live h) < n_buckets h" "set idxs \<subseteq> {..<n_buckets h}"
    and "\<And>i. i < n_buckets h \<Longrightarrow> hb_dibs h ! i = DIB_RAW_REHASH \<Longrightarrow> i \<in> set idxs"
  shows "\<exists>h'. rehash_loop idxs h swap c = Ret (h', c + n_marked h) \<and> table_ok h' \<and> table_clean h' \<and> same_shape h h' \<and> live h' = live h"
  using assms
proof (induction idxs arbitrary: h swap c)
  case Nil
  have "table_clean h"
    using Nil.prems(4) table_ok_sized [OF Nil.prems(1)] by (auto simp: table_clean_def sized_def in_set_conv_nth)
  then show ?case using Nil.prems(1) n_marked_0 [of h] by simp
next
  case (Cons idx idxs)
  note ok = Cons.prems(1) and sz = table_ok_sized [OF Cons.prems(1)]
  have i: "idx < n_buckets h" using Cons.prems(3) by simp
  have le: "set idxs \<subseteq> {..<n_buckets h}" using Cons.prems(3) by simp
  have marks: "j \<in> set idxs"
    if "same_shape h h'" "marks_within h h'" "hb_dibs h' ! idx \<noteq> DIB_RAW_REHASH" "j < n_buckets h'" "hb_dibs h' ! j = DIB_RAW_REHASH" for h' j
    using Cons.prems(4) [of j] that same_shape_eqs(1) [OF that(1)] by (auto simp: marks_within_def)
  show ?case
  proof (cases "hb_dibs h ! idx = DIB_RAW_REHASH")
    case False
    then show ?thesis using Cons.IH [OF ok Cons.prems(2) le, of swap c] Cons.prems(4) by fastforce
  next
    case m: True
    then have r0: "rank h idx = 0" by (simp add: rank_def settled_def)
    have fr: "DIB_RAW_FREE \<noteq> DIB_RAW_REHASH" by (simp add: DIB_RAW_FREE_def DIB_RAW_REHASH_def)
    obtain e where e: "hb_buckets h ! idx = Some e" using table_okD(1) [OF ok i] m fr by (auto simp: bucket_ok_def)
    have h: "base_bucket_hash h (key_at h idx) = home h e" using e by (simp add: home_def key_at_def)
    show ?thesis
    proof (cases "home h e = idx")
      case True
      let ?h = "place h idx e 0"
      have l: "lower_lowest h idx = h" using lower_lowest_occupied [OF ok i] e by simp
      have "raw_dib 0 = 0" by (simp add: raw_dib_0)
      then have eq: "h\<lparr>hb_dibs := (hb_dibs h)[idx := 0]\<rparr> = ?h" using e list_update_id [of "hb_buckets h" idx] by (simp add: place_def l)
      have k: "table_ok ?h" using place_ok [OF ok i, of 0 e] True r0 i by (simp add: bucket_distance_0)
      have live: "live ?h = live h" using place_live [OF sz i, of e 0] e by simp
      have nm: "n_marked h = Suc (n_marked ?h)" using place_marked [OF sz i, of e 0] m by simp
      have d: "hb_dibs ?h ! idx \<noteq> DIB_RAW_REHASH" using i sz raw_dib_settled(2) by (simp add: place_def sized_def)
      obtain h' where "rehash_loop idxs ?h swap (c + 1) = Ret (h', c + 1 + n_marked ?h)" "table_ok h'" "table_clean h'" "same_shape ?h h'" "live h' = live ?h"
        using Cons.IH [OF k, of swap "c + 1"] marks [OF place_shape place_marks_within [OF sz] d] Cons.prems(2) le live by (auto simp: place_eqs)
      then show ?thesis using m h True eq live nm same_shape_trans [OF place_shape] by (auto simp: Let_def)
    next
      case False
      let ?h = "vacate h idx" let ?s = "swap\<lparr>sw_put := Some e\<rparr>"
      have k: "table_ok ?h" by (rule vacate_unranked [OF ok i r0])
      have live: "add_mset e (live ?h) = live h" using overwrite_live [OF sz i, of None] e by simp
      have nm: "n_marked h = Suc (n_marked ?h)" "marks_within h ?h" by (rule vacate_marked [OF sz i m])+
      have "size (live ?h) < n_buckets ?h" "n_marked ?h < n_buckets h"
        using arg_cong [OF live, of size] Cons.prems(2) nm(1) n_marked_le [OF sz] by (simp_all add: overwrite_eqs)
      then obtain h1 s1 n where r: "rehash_entry (n_buckets h) ?h (home ?h e) ?s c = Ret (h1, s1, c + n)" "table_ok h1" "same_shape ?h h1"
          "marks_within ?h h1" "live h1 = add_mset e (live ?h)" "n_marked h1 + n = Suc (n_marked ?h)"
        using rehash_entry_result [OF k, of ?s e "n_buckets h" c] by auto
      have s1: "same_shape h h1" "marks_within h h1"
        using same_shape_trans [OF overwrite_shape r(3)] marks_within_trans [OF nm(2) r(4)] by (simp_all add: overwrite_eqs)
      have d: "hb_dibs h1 ! idx \<noteq> DIB_RAW_REHASH"
        using r(4) i sz fr by (auto simp: marks_within_def overwrite_eqs) (auto simp: overwrite_def sized_def)
      have "size (live h1) < n_buckets h1" using r(5) live Cons.prems(2) same_shape_eqs(1) [OF s1(1)] by simp
      then obtain h' where h': "rehash_loop idxs h1 s1 (c + n) = Ret (h', c + n + n_marked h1)" "table_ok h'" "table_clean h'" "same_shape h1 h'"
          "live h' = live h1"
        using Cons.IH [OF r(2), of s1 "c + n"] marks [OF s1 d] le same_shape_eqs(1) [OF s1(1)] by auto
      have "rehash_loop (idx # idxs) h swap c = rehash_loop idxs h1 s1 (c + n)"
      proof -
        have v: "h\<lparr>hb_dibs := (hb_dibs h)[idx := DIB_RAW_FREE], hb_buckets := (hb_buckets h)[idx := None]\<rparr> = ?h" by (simp add: overwrite_def)
        have "n_buckets ?h = n_buckets h" "home ?h e = home h e" by (simp_all add: overwrite_eqs)
        then show ?thesis
          using m h False r(1) e v by (simp add: Let_def bucket_move_entry_def c_assert_def bucket_at_virtual_def)
      qed
      then show ?thesis using h' same_shape_trans [OF s1(1) h'(4)] r(5,6) live nm(1) by auto
    qed
  qed
qed


section \<open>Growing\<close>

lemma new_storage_eqs:
  "hb_hash_ops (new_storage e h s) = hb_hash_ops h" "hb_type (new_storage e h s) = hb_type h" "hb_n_entries (new_storage e h s) = hb_n_entries h"
  "n_buckets (new_storage e h s) = 2 ^ s div (entry_size (hb_type h) + 1)" "live (new_storage e h s) = live h"
  by (simp_all add: new_storage_def Let_def n_buckets_def live_def)

lemma new_storage_nth:
  assumes "sized h" "n_buckets h < 2 ^ s div (entry_size (hb_type h) + 1)" "i < 2 ^ s div (entry_size (hb_type h) + 1)"
  shows "hb_buckets (new_storage e h s) ! i = (if i < n_buckets h then hb_buckets h ! i else None)"
    "hb_dibs (new_storage e h s) ! i = (if i < n_buckets h \<and> hb_dibs h ! i \<noteq> DIB_RAW_FREE then DIB_RAW_REHASH else DIB_RAW_FREE)"
  using assms by (simp_all add: new_storage_def Let_def sized_def nth_append)

lemma new_storage_marked: "table_ok h \<Longrightarrow> table_clean h \<Longrightarrow> n_marked (new_storage e h s) = size (live h)"
proof -
  assume ok: "table_ok h" and cl: "table_clean h"
  have sz: "length (hb_dibs h) = n_buckets h" "length (hb_buckets h) = n_buckets h" using table_ok_sized [OF ok] by (simp_all add: sized_def)
  have fr: "DIB_RAW_FREE \<noteq> DIB_RAW_REHASH" by (simp add: DIB_RAW_FREE_def DIB_RAW_REHASH_def)
  have b: "hb_dibs h ! i = DIB_RAW_FREE \<longleftrightarrow> hb_buckets h ! i = None" if "i < n_buckets h" for i
    using table_okD(1) [OF ok that] by (simp add: bucket_ok_def)
  have "map (\<lambda>d. d = DIB_RAW_FREE) (hb_dibs h) = map (\<lambda>x. x = None) (hb_buckets h)"
    by (rule nth_equalityI) (simp_all add: sz b)
  then have "length (filter (\<lambda>d. \<not> d) (map (\<lambda>d. d = DIB_RAW_FREE) (hb_dibs h))) = length (filter (\<lambda>d. \<not> d) (map (\<lambda>x. x = None) (hb_buckets h)))" by simp
  then have len: "length (filter (\<lambda>d. d \<noteq> DIB_RAW_FREE) (hb_dibs h)) = length (filter (\<lambda>x. x \<noteq> None) (hb_buckets h))"
    by (simp add: filter_map comp_def)
  have cnt: "count (mset (map (\<lambda>d. if d = DIB_RAW_FREE then DIB_RAW_FREE else DIB_RAW_REHASH) ds)) DIB_RAW_REHASH = length (filter (\<lambda>d. d \<noteq> DIB_RAW_FREE) ds)" for ds
    by (induction ds) (simp_all add: fr)
  have "n_marked (new_storage e h s) = length (filter (\<lambda>d. d \<noteq> DIB_RAW_FREE) (hb_dibs h))"
    using cnt [of "hb_dibs h"] fr by (simp add: n_marked_def new_storage_def Let_def)
  then show ?thesis using len by (simp add: live_size)
qed

lemma new_storage_ok:
  assumes ok: "table_ok h" and n: "n_buckets h < 2 ^ s div (entry_size (hb_type h) + 1)" "2 ^ s div (entry_size (hb_type h) + 1) < DIB_FREE"
  shows "table_ok (new_storage e h s)"
proof -
  let ?g = "new_storage e h s"
  have sz: "sized h" using ok by (rule table_ok_sized)
  have szg: "sized ?g" using sz n by (simp add: sized_def new_storage_eqs) (simp add: new_storage_def Let_def)
  have fr: "DIB_RAW_FREE \<noteq> DIB_RAW_REHASH" by (simp add: DIB_RAW_FREE_def DIB_RAW_REHASH_def)
  note nth = new_storage_nth [OF sz n(1), of _ e]
  have "\<not> settled ?g i" if "i < n_buckets ?g" for i
    using nth(2) [of i] that by (simp add: settled_def new_storage_eqs)
  moreover have "hb_idx_lowest_entry ?g = (if hb_has_indirect h then hb_idx_lowest_entry h else 0)"
    by (simp add: new_storage_def Let_def)
  ultimately have "bucket_ok ?g i" if "i < n_buckets ?g" for i
    using nth [of i] that fr table_okD(1) [OF ok, of i] by (auto simp: bucket_ok_def new_storage_eqs split: if_splits)
  moreover have "rank ?g (next_idx ?g i) = 0" if "i < n_buckets ?g" for i
    using \<open>\<And>i. i < n_buckets ?g \<Longrightarrow> \<not> settled ?g i\<close> next_idx_less [OF that] by (simp add: rank_def)
  ultimately show ?thesis using szg by (simp add: table_ok_def)
qed

lemma log2u_bounds: "0 < x \<Longrightarrow> x < 2 ^ Suc (log2u x)" "x < 2 ^ k \<Longrightarrow> 0 < k \<Longrightarrow> log2u x < k"
proof -
  show "x < 2 ^ Suc (log2u x)" if "0 < x"
    using that by (induction x rule: log2u.induct) (subst log2u.simps, auto)
  show "x < 2 ^ k \<Longrightarrow> 0 < k \<Longrightarrow> log2u x < k"
  proof (induction x arbitrary: k rule: log2u.induct)
    case (1 x)
    then show ?case
    proof (cases "x < 2")
      case True
      then show ?thesis using 1 by (subst log2u.simps) simp
    next
      case False
      then obtain l where l: "k = Suc l" "0 < l" using 1 by (cases k; cases "k - 1") auto
      then have "log2u (x div 2) < l" using 1 False by simp
      then show ?thesis using False l by (subst log2u.simps) simp
    qed
  qed
qed

lemma log2u_round_up_bounds: "1 < x \<Longrightarrow> x \<le> 2 ^ log2u_round_up x" "1 < x \<Longrightarrow> x \<le> 2 ^ k \<Longrightarrow> log2u_round_up x \<le> k"
proof -
  show "x \<le> 2 ^ log2u_round_up x" if "1 < x" using log2u_bounds(1) [of "x - 1"] that by (simp add: log2u_round_up_def)
  show "log2u_round_up x \<le> k" if "1 < x" "x \<le> 2 ^ k"
  proof -
    have "0 < k" using that by (cases k) auto
    moreover have "x - 1 < 2 ^ k" using that by linarith
    ultimately show ?thesis using log2u_bounds(2) [of "x - 1" k] that by (simp add: log2u_round_up_def)
  qed
qed


lemma new_bucket_count_small:
  assumes ok: "sized h" and le: "n_entries h \<le> n_buckets h" and small: "n_entries h + add < 2 ^ 26"
  shows "case new_bucket_count h add of
      Inl r \<Rightarrow> r = 0 \<and> n_entries h + add \<le> n_buckets h
    | Inr nb \<Rightarrow> n_buckets h < nb \<and> n_entries h + add \<le> nb \<and> nb * (entry_size (hb_type h) + 1) \<le> 2 ^ 31"
proof -
  let ?n = "n_entries h + add" let ?m = "?n + ?n div 4"
  have w: "?n mod 2 ^ 32 = ?n" "?m mod 2 ^ 32 = ?m" using small by simp_all
  have s: "entry_size (hb_type h) \<in> {8, 16}" by (simp add: entry_size_def split: HashmapType.split)
  have "?m * (entry_size (hb_type h) + 1) \<le> ?m * 17" using s by (intro mult_le_mono2) auto
  also have "\<dots> \<le> 2 ^ 31" using small by simp
  finally have b: "?m * (entry_size (hb_type h) + 1) \<le> 2 ^ 31" .
  have "UINT_MAX div (entry_size (hb_type h) + 1) \<ge> ?m" using s small by (auto simp: UINT_MAX_def)
  then show ?thesis
    using b w by (auto simp: new_bucket_count_def Let_def n_buckets_def)
qed

definition resize_post :: "hashmap_env \<Rightarrow> 'p HashmapBase \<Rightarrow> nat \<Rightarrow> int \<times> 'p HashmapBase \<Rightarrow> bool" where
  "resize_post e h add x \<longleftrightarrow> (case x of (r, h') \<Rightarrow>
     (r = - ENOMEM \<and> h' = h \<and> (\<exists>n. \<not> alloc_ok e n)) \<or> (r = 0 \<and> h' = h \<and> n_entries h + add \<le> n_buckets h) \<or>
     (r = 1 \<and> table_ok h' \<and> table_clean h' \<and> hb_hash_ops h' = hb_hash_ops h \<and> hb_type h' = hb_type h \<and> hb_n_entries h' = hb_n_entries h \<and>
      live h' = live h \<and> n_entries h + add \<le> n_buckets h' \<and> n_entries h < n_buckets h'))"

lemma resize_result:
  assumes ok: "table_ok h" and cl: "table_clean h" and n: "n_entries h = size (live h)" and small: "n_entries h + add < 2 ^ 26"
  shows "\<exists>x. resize_buckets e h add = Ret x \<and> resize_post e h add x"
proof -
  have sz: "sized h" using ok by (rule table_ok_sized)
  have "size (live h) \<le> length (hb_buckets h)" by (simp add: live_size)
  then have le: "n_entries h \<le> n_buckets h" using n sz by (simp add: sized_def)
  note c = new_bucket_count_small [OF sz le small]
  show ?thesis
  proof (cases "new_bucket_count h add")
    case (Inl r)
    then show ?thesis using c by (simp add: resize_buckets_def resize_post_def)
  next
    case (Inr nb)
    then have nb: "n_buckets h < nb" "n_entries h + add \<le> nb" "nb * (entry_size (hb_type h) + 1) \<le> 2 ^ 31" using c by simp_all
    let ?b = "max (nb * (entry_size (hb_type h) + 1)) (2 * 39)" let ?s = "log2u_round_up ?b" let ?g = "new_storage e h ?s"
    have s: "?b \<le> 2 ^ ?s" "?s \<le> 31" using log2u_round_up_bounds [of ?b] nb(3) by (simp_all add: max_def)
    have "nb = nb * (entry_size (hb_type h) + 1) div (entry_size (hb_type h) + 1)"
      by (rule nonzero_mult_div_cancel_right [symmetric]) simp
    also have "\<dots> \<le> 2 ^ ?s div (entry_size (hb_type h) + 1)" using s(1) by (intro div_le_mono) simp
    finally have g: "nb \<le> 2 ^ ?s div (entry_size (hb_type h) + 1)" .
    have "(2::nat) ^ ?s \<le> 2 ^ 31" using s(2) by (intro power_increasing) simp_all
    moreover have "(2::nat) ^ 31 < DIB_FREE" by (simp add: DIB_FREE_def)
    ultimately have up: "2 ^ ?s div (entry_size (hb_type h) + 1) < DIB_FREE"
      by (meson div_le_dividend le_less_trans)
    have okg: "table_ok ?g" using new_storage_ok [OF ok _ up] nb(1) g by simp
    have ng: "n_buckets ?g = 2 ^ ?s div (entry_size (hb_type h) + 1)" by (rule new_storage_eqs)
    have fr: "DIB_RAW_FREE \<noteq> DIB_RAW_REHASH" by (simp add: DIB_RAW_FREE_def DIB_RAW_REHASH_def)
    have marks: "i \<in> set [0..<n_buckets h]" if i: "i < n_buckets ?g" "hb_dibs ?g ! i = DIB_RAW_REHASH" for i
    proof -
      have "n_buckets h < 2 ^ ?s div (entry_size (hb_type h) + 1)" using nb(1) g by (rule less_le_trans)
      from new_storage_nth(2) [OF sz this i(1) [unfolded ng], of e] i(2) fr show ?thesis by (simp split: if_splits)
    qed
    have "size (live ?g) < n_buckets ?g" "set [0..<n_buckets h] \<subseteq> {..<n_buckets ?g}"
      using n le nb(1) g by (auto simp: new_storage_eqs)
    then obtain h' where h': "rehash_loop [0..<n_buckets h] ?g \<lparr>sw_put = None, sw_tmp = None\<rparr> 0 = Ret (h', n_marked ?g)" "table_ok h'"
        "table_clean h'" "same_shape ?g h'" "live h' = live ?g"
      using rehash_loop_result [OF okg _ _ marks, of "\<lparr>sw_put = None, sw_tmp = None\<rparr>" 0] by auto
    have l: "list_all (\<lambda>d. d \<noteq> DIB_RAW_REHASH) (hb_dibs h)" using cl by (auto simp: table_clean_def list_all_iff)
    have e: "hb_hash_ops h' = hb_hash_ops h" "hb_type h' = hb_type h" "hb_n_entries h' = hb_n_entries h" "n_buckets h' = n_buckets ?g"
      using h'(4) same_shape_eqs(1) [OF h'(4)] by (auto simp: same_shape_def new_storage_eqs)
    have m: "n_marked ?g = n_entries h'" using new_storage_marked [OF ok cl] n e(3) by (simp add: n_entries_def)
    have "resize_buckets e h add = (if alloc_ok e (2 ^ ?s) then Ret (1, h') else Ret (- ENOMEM, h))"
      using Inr s(2) l h'(1) m by (simp add: resize_buckets_def c_assert_def Let_def)
    moreover have "resize_post e h add (1, h')"
      using h' e nb g le by (simp add: resize_post_def new_storage_eqs)
    ultimately show ?thesis by (auto simp: resize_post_def)
  qed
qed

end
