(* ===== verification/Hashmap_Map.thy ===== *)
theory Hashmap_Map
  imports Hashmap_Resize
begin

section \<open>The invariant and the content\<close>

definition distinct_keys :: "'p hash_ops \<Rightarrow> 'p hashmap_entry multiset \<Rightarrow> bool" where
  "distinct_keys ops M \<longleftrightarrow> (\<forall>x\<in>#M. \<forall>y\<in>#M - {#x#}. compare ops (he_key x) (he_key y) \<noteq> 0)"

definition hm_wf :: "'p HashmapBase \<Rightarrow> bool" where
  "hm_wf h \<longleftrightarrow> table_ok h \<and> table_clean h \<and> hash_ops_ok (hb_hash_ops h) \<and> (\<exists>i<n_buckets h. rank h i \<le> 1) \<and>
     n_entries h = size (live h) \<and> distinct_keys (hb_hash_ops h) (live h)"

definition hm_entries :: "'p HashmapBase \<Rightarrow> 'p hashmap_entry list" where
  "hm_entries h = map the (filter (\<lambda>x. x \<noteq> None) (hb_buckets h))"

definition hm_find :: "'p HashmapBase \<Rightarrow> 'p \<Rightarrow> 'p hashmap_entry option" where
  "hm_find h k = find (\<lambda>x. compare (hb_hash_ops h) (he_key x) k = 0) (hm_entries h)"

definition hm_map :: "'p HashmapBase \<Rightarrow> 'p \<Rightarrow> 'p option" where
  \<comment> \<open>the content of a table as a map\<close>
  "hm_map h k = map_option (entry_value h) (hm_find h k)"

definition same_key :: "'p HashmapBase \<Rightarrow> 'p \<Rightarrow> 'p \<Rightarrow> bool" where
  "same_key h a b \<longleftrightarrow> compare (hb_hash_ops h) a b = 0"

lemma live_entries: "live h = mset (hm_entries h)"
  by (simp add: live_def hm_entries_def)

lemma hash_ops_okD:
  assumes "hash_ops_ok ops"
  shows "compare ops a a = 0" "compare ops a b = 0 \<Longrightarrow> compare ops b a = 0"
    "compare ops a b = 0 \<Longrightarrow> compare ops b c = 0 \<Longrightarrow> compare ops a c = 0"
  using assms unfolding hash_ops_ok_def by blast+

lemma distinct_keys_iff:
  assumes "hash_ops_ok ops"
  shows "distinct_keys ops M \<longleftrightarrow>
    (\<forall>x\<in>#M. count M x = 1) \<and> (\<forall>x\<in>#M. \<forall>y\<in>#M. x \<noteq> y \<longrightarrow> compare ops (he_key x) (he_key y) \<noteq> 0)"
proof -
  have one: "count M x = 1 \<longleftrightarrow> x \<notin># M - {#x#}" if "x \<in># M" for x
    using that by (simp add: in_diff_count) (metis One_nat_def count_greater_zero_iff le_neq_implies_less not_less_eq Suc_leI)
  have other: "y \<in># M - {#x#} \<longleftrightarrow> y \<in># M" if "x \<noteq> y" for x y using that by (simp add: in_diff_count)
  show ?thesis
    using one other hash_ops_okD(1) [OF assms] unfolding distinct_keys_def by (metis (no_types, lifting) in_diffD)
qed

lemma distinct_keys_add:
  assumes "hash_ops_ok ops"
  shows "distinct_keys ops (add_mset e M) \<longleftrightarrow> distinct_keys ops M \<and> (\<forall>x\<in>#M. compare ops (he_key e) (he_key x) \<noteq> 0)"
    (is "?L \<longleftrightarrow> ?R")
proof
  assume l: ?L
  have "count (add_mset e M) e = 1" using l unfolding distinct_keys_iff [OF assms] by simp
  then have "e \<notin># M" by (simp add: not_in_iff)
  then show ?R using l unfolding distinct_keys_iff [OF assms] by (auto split: if_splits)
next
  assume r: ?R
  have "e \<notin># M" using r hash_ops_okD(1) [OF assms] by blast
  then have "count M e = 0" by (simp add: not_in_iff)
  then show ?L using r hash_ops_okD(2) [OF assms] unfolding distinct_keys_iff [OF assms] by auto
qed

lemma hm_find_iff:
  assumes "hash_ops_ok (hb_hash_ops h)" "distinct_keys (hb_hash_ops h) (live h)"
  shows "hm_find h k = Some e \<longleftrightarrow> e \<in># live h \<and> compare (hb_hash_ops h) (he_key e) k = 0"
proof
  assume "hm_find h k = Some e"
  then show "e \<in># live h \<and> compare (hb_hash_ops h) (he_key e) k = 0"
    by (auto simp: hm_find_def find_Some_iff live_entries)
next
  assume e: "e \<in># live h \<and> compare (hb_hash_ops h) (he_key e) k = 0"
  then obtain x where x: "hm_find h k = Some x" by (cases "hm_find h k") (auto simp: hm_find_def find_None_iff live_entries)
  then have x': "x \<in># live h" "compare (hb_hash_ops h) (he_key x) k = 0" by (auto simp: hm_find_def find_Some_iff live_entries)
  have "compare (hb_hash_ops h) (he_key x) (he_key e) = 0"
    using hash_ops_okD [OF assms(1)] e x' by blast
  then have "e = x" using assms(2) e x'(1) unfolding distinct_keys_iff [OF assms(1)] by metis
  then show "hm_find h k = Some e" using x by simp
qed

lemma hm_find_add:
  assumes "hash_ops_ok (hb_hash_ops h')" "distinct_keys (hb_hash_ops h') (live h')"
    and "hb_hash_ops h = hb_hash_ops h'" "live h' = add_mset e (live h)"
  shows "hm_find h' k = (if compare (hb_hash_ops h') (he_key e) k = 0 then Some e else hm_find h k)"
    "compare (hb_hash_ops h') (he_key e) k = 0 \<Longrightarrow> hm_find h k = None"
proof -
  have d: "distinct_keys (hb_hash_ops h) (live h)" and n: "\<forall>x\<in>#live h. compare (hb_hash_ops h) (he_key e) (he_key x) \<noteq> 0"
    using assms(2) unfolding assms(4) distinct_keys_add [OF assms(1)] assms(3) by blast+
  have ok: "hash_ops_ok (hb_hash_ops h)" using assms(1,3) by simp
  show none: "hm_find h k = None" if "compare (hb_hash_ops h') (he_key e) k = 0"
  proof (rule ccontr)
    assume "hm_find h k \<noteq> None"
    then obtain x where "x \<in># live h" "compare (hb_hash_ops h) (he_key x) k = 0" using hm_find_iff [OF ok d] by blast
    then show False using n that hash_ops_okD [OF ok] assms(3) by metis
  qed
  show "hm_find h' k = (if compare (hb_hash_ops h') (he_key e) k = 0 then Some e else hm_find h k)"
  proof (cases "compare (hb_hash_ops h') (he_key e) k = 0")
    case True
    then show ?thesis using hm_find_iff [OF assms(1,2)] assms(4) by simp
  next
    case False
    have "hm_find h' k = Some x \<longleftrightarrow> hm_find h k = Some x" for x
      unfolding hm_find_iff [OF assms(1,2)] hm_find_iff [OF ok d] using False assms(3,4) by auto
    then show ?thesis using False by (metis option.exhaust)
  qed
qed

lemma hm_wf_ops: "hm_wf h \<Longrightarrow> hash_ops_ok (hb_hash_ops h)" "hm_wf h \<Longrightarrow> distinct_keys (hb_hash_ops h) (live h)"
  "hm_wf h \<Longrightarrow> table_ok h" "hm_wf h \<Longrightarrow> table_clean h" "hm_wf h \<Longrightarrow> n_entries h = size (live h)"
  by (simp_all add: hm_wf_def)

lemma hm_find_None: "hm_wf h \<Longrightarrow> hm_find h k = None \<longleftrightarrow> (\<forall>x\<in>#live h. compare (hb_hash_ops h) (he_key x) k \<noteq> 0)"
  using hm_find_iff [OF hm_wf_ops(1,2), of h k] by (metis not_None_eq)

section \<open>Scans find what the map holds\<close>

lemma scan_finds:
  assumes "hm_wf h"
  shows "\<exists>r. base_bucket_scan h (base_bucket_hash h k) k = Ret r \<and>
     (case r of None \<Rightarrow> hm_find h k = None | Some i \<Rightarrow> i < n_buckets h \<and> (\<exists>e. hb_buckets h ! i = Some e \<and> hm_find h k = Some e))"
proof -
  note ok = hm_wf_ops [OF assms]
  have sz: "sized h" using ok(3) by (rule table_ok_sized)
  have occ: "settled h i \<longleftrightarrow> hb_buckets h ! i \<noteq> None" if "i < n_buckets h" for i
    using table_okD(1) [OF ok(3) that] table_clean_settled [OF sz ok(4) that] by (auto simp: bucket_ok_def)
  obtain r where r: "base_bucket_scan h (base_bucket_hash h k) k = Ret r" "scan_post h k r"
    using scan_result [OF ok(3,4,1)] by blast
  have "hm_find h k = None" if "r = None"
    unfolding hm_find_None [OF assms]
  proof (intro ballI notI)
    fix x assume x: "x \<in># live h" "compare (hb_hash_ops h) (he_key x) k = 0"
    then obtain i where "i < n_buckets h" "hb_buckets h ! i = Some x" using sz by (auto simp: live_set sized_def)
    then show False using r(2) x(2) that occ by (auto simp: scan_post_def matches_def key_at_def)
  qed
  moreover have "\<exists>e. hb_buckets h ! i = Some e \<and> hm_find h k = Some e" if i: "r = Some i" for i
  proof -
    have m: "i < n_buckets h" "matches h k i" using r(2) i by (simp_all add: scan_post_def)
    then obtain e where e: "hb_buckets h ! i = Some e" using occ by (auto simp: matches_def)
    then have "e \<in># live h" using m(1) sz by (auto simp: live_set sized_def)
    then show ?thesis using e m(2) hm_find_iff [OF ok(1,2)] by (simp add: matches_def key_at_def)
  qed
  ultimately show ?thesis using r by (auto simp: scan_post_def split: option.split)
qed

end
