(* ===== verification/Hashmap_Spec.thy ===== *)
theory Hashmap_Spec
  imports Hashmap_Map
begin

text \<open>
  What the operations of \<open>hashmap.c\<close> do to the content of a table, seen as a map from keys to
  values up to the equivalence \<open>same_key\<close> of the table.
\<close>

section \<open>Putting and removing entries\<close>

lemma counted_eqs:
  "table_ok (h\<lparr>hb_n_entries := n\<rparr>) = table_ok h" "table_clean (h\<lparr>hb_n_entries := n\<rparr>) = table_clean h" "live (h\<lparr>hb_n_entries := n\<rparr>) = live h"
  "rank (h\<lparr>hb_n_entries := n\<rparr>) = rank h" "n_buckets (h\<lparr>hb_n_entries := n\<rparr>) = n_buckets h"
  by (simp_all add: table_ok_def sized_def bucket_ok_def rank_def settled_def home_def base_bucket_hash_def hash_key_def bucket_distance_def
      next_idx_def n_buckets_def table_clean_def live_def fun_eq_iff)

lemma same_find:
  assumes "hm_wf h" "hm_wf h'" "hb_hash_ops h' = hb_hash_ops h" "live h' = live h"
  shows "hm_find h' k = hm_find h k"
proof -
  have "hm_find h' k = Some x \<longleftrightarrow> hm_find h k = Some x" for x
    using hm_find_iff [OF hm_wf_ops(1,2) [OF assms(1)]] hm_find_iff [OF hm_wf_ops(1,2) [OF assms(2)]] assms(3,4) by simp
  then show ?thesis by (metis option.exhaust)
qed

definition added :: "'p HashmapBase \<Rightarrow> 'p hashmap_entry \<Rightarrow> 'p HashmapBase \<Rightarrow> bool" where
  \<comment> \<open>the second table holds one entry more than the first\<close>
  "added h e h' \<longleftrightarrow> hm_wf h' \<and> hb_hash_ops h' = hb_hash_ops h \<and> hb_type h' = hb_type h \<and> live h' = add_mset e (live h) \<and>
     n_entries h' = Suc (n_entries h)"

lemma put_entry:
  assumes "table_ok h" "table_clean h" "hash_ops_ok (hb_hash_ops h)" "n_entries h = size (live h)" "distinct_keys (hb_hash_ops h) (live h)"
    and room: "n_entries h < n_buckets h" and new: "\<forall>x\<in>#live h. compare (hb_hash_ops h) (he_key x) k \<noteq> 0"
  shows "\<exists>h'. obind (hashmap_put_robin_hood h (base_bucket_hash h k) (put_swap k v)) (\<lambda>(b, h, swap). c_assert (\<not> b) (Ret (1 :: int, n_entries_inc h))) =
      Ret (1, h') \<and> added h \<lparr>he_key = k, he_value = v\<rparr> h'"
proof -
  let ?e = "\<lparr>he_key = k, he_value = v\<rparr>"
  have m: "n_marked h = 0" using assms(2) by (simp add: n_marked_0)
  obtain f where f: "f < n_buckets h" "rank h f = 0" using has_free_bucket [OF assms(1)] room assms(4) by auto
  have swap: "sw_put (put_swap k v) = Some ?e" by (simp add: put_swap_def)
  obtain b h1 swap' where p: "hashmap_put_robin_hood h (home h ?e) (put_swap k v) = Ret (b, h1, swap')" "table_ok h1" "same_shape h h1"
      "\<exists>i<n_buckets h. rank h1 i \<le> 1"
      "if b then \<exists>e'. sw_put swap' = Some e' \<and> add_mset e' (live h1) = add_mset ?e (live h) \<and> n_marked h = Suc (n_marked h1)
       else live h1 = add_mset ?e (live h) \<and> n_marked h1 = n_marked h"
    using robin_hood_put [OF assms(1) swap f] unfolding put_post_def by blast
  have nb: "\<not> b" using p(5) m by (cases b) auto
  then have b: "\<not> b" "live h1 = add_mset ?e (live h)" "table_clean h1" using p(5) m n_marked_0 [of h1] by simp_all
  have eq: "hb_hash_ops h1 = hb_hash_ops h" "hb_type h1 = hb_type h" "hb_n_entries h1 = hb_n_entries h" using p(3) by (auto simp: same_shape_def)
  have "distinct_keys (hb_hash_ops h) (live h1)"
    unfolding b(2) distinct_keys_add [OF assms(3)] using assms(5) new hash_ops_okD(2) [OF assms(3)] by auto
  then have "added h ?e (n_entries_inc h1)"
    using p(2,4) b eq assms(3,4) same_shape_eqs(1) [OF p(3)]
    by (simp add: added_def hm_wf_def n_entries_inc_def counted_eqs) (simp add: n_entries_def)
  moreover have "home h ?e = base_bucket_hash h k" by (simp add: home_def)
  ultimately show ?thesis using p(1) b(1) by (simp add: c_assert_def)
qed

lemma put_boldly:
  assumes wf: "hm_wf h" and new: "hm_find h k = None" and small: "n_entries h + 1 < 2 ^ 26"
  shows "\<exists>r h'. hashmap_base_put_boldly e h (base_bucket_hash h k) (put_swap k v) True = Ret (r, h') \<and>
     (r = - ENOMEM \<and> h' = h \<and> (\<exists>n. \<not> alloc_ok e n) \<or> r = 1 \<and> added h \<lparr>he_key = k, he_value = v\<rparr> h')"
proof -
  note ok = hm_wf_ops [OF wf]
  have i: "base_bucket_hash h k < n_buckets h" using table_ok_sized [OF ok(3)] by (simp add: base_bucket_hash_def sized_def)
  have new': "\<forall>x\<in>#live h. compare (hb_hash_ops h) (he_key x) k \<noteq> 0" using new hm_find_None [OF wf] by simp
  obtain r h1 where r: "resize_buckets e h 1 = Ret (r, h1)" "resize_post e h 1 (r, h1)" using resize_result [OF ok(3,4,5) small, of e] by auto
  then consider "r = - ENOMEM" "h1 = h" "\<exists>n. \<not> alloc_ok e n" | "r = 0" "h1 = h" "n_entries h < n_buckets h"
    | "r = 1" "table_ok h1" "table_clean h1" "hb_hash_ops h1 = hb_hash_ops h" "hb_type h1 = hb_type h" "n_entries h1 = n_entries h" "live h1 = live h"
      "n_entries h < n_buckets h1"
    by (auto simp: resize_post_def n_entries_def)
  then show ?thesis
  proof cases
    case 1
    then show ?thesis using r(1) i by (simp add: hashmap_base_put_boldly_def c_assert_def)
  next
    case 2
    then show ?thesis
      using r(1) i put_entry [OF ok(3,4,1,5,2) 2(3) new', of v] by (auto simp: hashmap_base_put_boldly_def c_assert_def)
  next
    case 3
    then have "\<exists>h'. obind (hashmap_put_robin_hood h1 (base_bucket_hash h1 k) (put_swap k v)) (\<lambda>(b, h, swap). c_assert (\<not> b) (Ret (1 :: int, n_entries_inc h))) =
        Ret (1, h') \<and> added h1 \<lparr>he_key = k, he_value = v\<rparr> h'"
      using ok new' by (intro put_entry) auto
    then show ?thesis
      using r(1) i 3 by (auto simp: hashmap_base_put_boldly_def c_assert_def put_swap_def added_def)
  qed
qed

lemma removed_entry:
  assumes wf: "hm_wf h" and i: "i < n_buckets h" and e: "hb_buckets h ! i = Some e"
  shows "\<exists>h'. base_remove_entry h i = Ret h' \<and> added h' e h \<and> hm_wf h'"
proof -
  note ok = hm_wf_ops [OF wf]
  obtain g where g: "g < n_buckets h" "rank h g \<le> 1" using wf by (auto simp: hm_wf_def)
  obtain h1 where h1: "base_remove_entry h i = Ret (n_entries_dec h1)" "table_ok h1" "table_clean h1" "same_shape h h1"
      "add_mset e (live h1) = live h" "\<exists>j<n_buckets h. rank h1 j \<le> 1"
    using remove_entry [OF ok(3,4) g i e] by blast
  have eq: "hb_hash_ops h1 = hb_hash_ops h" "hb_type h1 = hb_type h" "hb_n_entries h1 = hb_n_entries h" using h1(4) by (auto simp: same_shape_def)
  have sz: "size (live h) = Suc (size (live h1))" using arg_cong [OF h1(5), of size] by simp
  have "distinct_keys (hb_hash_ops h) (live h1)"
    using ok(2) unfolding h1(5) [symmetric] distinct_keys_add [OF ok(1)] by blast
  then have "hm_wf (n_entries_dec h1)"
    using h1(2,3,6) eq ok(1,5) same_shape_eqs(1) [OF h1(4)] sz
    by (simp add: hm_wf_def n_entries_dec_def counted_eqs) (simp add: n_entries_def)
  moreover have "added (n_entries_dec h1) e h"
    using wf eq h1(5) ok(5) sz by (simp add: added_def n_entries_dec_def counted_eqs) (simp add: n_entries_def)
  ultimately show ?thesis using h1(1) by blast
qed

lemma added_find:
  assumes "hm_wf h" "added h e h'"
  shows "hm_find h' k = (if same_key h (he_key e) k then Some e else hm_find h k)" "same_key h (he_key e) k \<Longrightarrow> hm_find h k = None"
proof -
  have w: "hm_wf h'" "hb_hash_ops h' = hb_hash_ops h" "live h' = add_mset e (live h)" using assms(2) by (simp_all add: added_def)
  note f = hm_find_add [OF hm_wf_ops(1,2) [OF w(1)] w(2) [symmetric] w(3), of k]
  show "hm_find h' k = (if same_key h (he_key e) k then Some e else hm_find h k)" using f(1) by (simp add: same_key_def w(2))
  show "same_key h (he_key e) k \<Longrightarrow> hm_find h k = None" using f(2) by (simp add: same_key_def w(2))
qed

lemma entry_value_cong: "hb_type h' = hb_type h \<Longrightarrow> entry_value h' = entry_value h"
  by (simp add: entry_value_def fun_eq_iff)

lemma added_map:
  assumes "hm_wf h" "added h e h'"
  shows "hm_map h' k = (if same_key h (he_key e) k then Some (entry_value h e) else hm_map h k)" "same_key h (he_key e) k \<Longrightarrow> hm_map h k = None"
    "same_key h' = same_key h" "entry_value h' = entry_value h"
proof -
  show v: "entry_value h' = entry_value h" using assms(2) by (intro entry_value_cong) (simp add: added_def)
  show "hm_map h' k = (if same_key h (he_key e) k then Some (entry_value h e) else hm_map h k)"
    "same_key h (he_key e) k \<Longrightarrow> hm_map h k = None"
    using added_find [OF assms, of k] by (simp_all add: hm_map_def v)
  show "same_key h' = same_key h" using assms(2) by (simp add: added_def same_key_def fun_eq_iff)
qed

lemma same_key_equiv:
  assumes "hm_wf h" "same_key h a b"
  shows "same_key h a c = same_key h b c"
  using hash_ops_okD [OF hm_wf_ops(1) [OF assms(1)]] assms(2) unfolding same_key_def by metis

section \<open>The operations refine those of a map\<close>

lemma hashmap_get_refines:
  assumes "hm_wf h"
  shows "internal_hashmap_get (Some h) k = Ret (hm_map h k)"
proof -
  obtain r where r: "base_bucket_scan h (base_bucket_hash h k) k = Ret r"
    "case r of None \<Rightarrow> hm_find h k = None | Some i \<Rightarrow> i < n_buckets h \<and> (\<exists>e. hb_buckets h ! i = Some e \<and> hm_find h k = Some e)"
    using scan_finds [OF assms] by blast
  then show ?thesis by (auto simp: internal_hashmap_get_def hm_map_def split: option.splits)
qed

lemma put_cases:
  assumes "hm_wf h" "n_entries h + 1 < 2 ^ 26"
  shows "\<exists>r h'. hashmap_put e h k v = Ret (r, h') \<and>
     (case hm_find h k of
        Some x \<Rightarrow> h' = h \<and> r = (if he_value x = v then 0 else - EEXIST)
      | None \<Rightarrow> r = - ENOMEM \<and> h' = h \<and> (\<exists>n. \<not> alloc_ok e n) \<or> r = 1 \<and> added h \<lparr>he_key = k, he_value = v\<rparr> h')"
    "\<exists>r h'. set_put e h k = Ret (r, h') \<and>
     (case hm_find h k of
        Some x \<Rightarrow> h' = h \<and> r = 0
      | None \<Rightarrow> r = - ENOMEM \<and> h' = h \<and> (\<exists>n. \<not> alloc_ok e n) \<or> r = 1 \<and> added h \<lparr>he_key = k, he_value = k\<rparr> h')"
proof -
  obtain i where i: "base_bucket_scan h (base_bucket_hash h k) k = Ret i"
    "case i of None \<Rightarrow> hm_find h k = None | Some i \<Rightarrow> i < n_buckets h \<and> (\<exists>e. hb_buckets h ! i = Some e \<and> hm_find h k = Some e)"
    using scan_finds [OF assms(1)] by blast
  show "\<exists>r h'. hashmap_put e h k v = Ret (r, h') \<and>
     (case hm_find h k of
        Some x \<Rightarrow> h' = h \<and> r = (if he_value x = v then 0 else - EEXIST)
      | None \<Rightarrow> r = - ENOMEM \<and> h' = h \<and> (\<exists>n. \<not> alloc_ok e n) \<or> r = 1 \<and> added h \<lparr>he_key = k, he_value = v\<rparr> h')"
    using i put_boldly [OF assms(1) _ assms(2), of k e v] by (auto simp: hashmap_put_def split: option.splits)
  show "\<exists>r h'. set_put e h k = Ret (r, h') \<and>
     (case hm_find h k of
        Some x \<Rightarrow> h' = h \<and> r = 0
      | None \<Rightarrow> r = - ENOMEM \<and> h' = h \<and> (\<exists>n. \<not> alloc_ok e n) \<or> r = 1 \<and> added h \<lparr>he_key = k, he_value = k\<rparr> h')"
    using i put_boldly [OF assms(1) _ assms(2), of k e k] by (auto simp: set_put_def split: option.splits)
qed

lemma hashmap_remove_refines:
  assumes "hm_wf h"
  shows "\<exists>h'. internal_hashmap_remove (Some h) k = Ret (hm_map h k, Some h') \<and> hm_wf h' \<and> hb_hash_ops h' = hb_hash_ops h \<and>
     hb_type h' = hb_type h \<and> n_entries h' \<le> n_entries h \<and> hm_map h' = (\<lambda>k'. if same_key h k k' then None else hm_map h k')"
proof -
  obtain i where i: "base_bucket_scan h (base_bucket_hash h k) k = Ret i"
    "case i of None \<Rightarrow> hm_find h k = None | Some i \<Rightarrow> i < n_buckets h \<and> (\<exists>e. hb_buckets h ! i = Some e \<and> hm_find h k = Some e)"
    using scan_finds [OF assms] by blast
  show ?thesis
  proof (cases i)
    case None
    then have n: "hm_find h k = None" using i by simp
    have "hm_find h k' = None" if "same_key h k k'" for k'
      using n that hash_ops_okD [OF hm_wf_ops(1) [OF assms]] unfolding hm_find_None [OF assms] same_key_def by metis
    then show ?thesis using None n i(1) assms by (auto simp: internal_hashmap_remove_def hm_map_def fun_eq_iff)
  next
    case (Some j)
    then obtain x where x: "j < n_buckets h" "hb_buckets h ! j = Some x" "hm_find h k = Some x" using i(2) by auto
    obtain h' where h': "base_remove_entry h j = Ret h'" "added h' x h" "hm_wf h'" using removed_entry [OF assms x(1,2)] by blast
    have sk: "same_key h' = same_key h" using added_map(3) [OF h'(3,2)] by simp
    have "same_key h (he_key x) k" using x(3) hm_find_iff [OF hm_wf_ops(1,2) [OF assms]] by (simp add: same_key_def)
    then have "same_key h (he_key x) k' = same_key h k k'" for k' by (rule same_key_equiv [OF assms])
    then have "hm_map h' = (\<lambda>k'. if same_key h k k' then None else hm_map h k')"
      using added_map(1,2) [OF h'(3,2)] by (auto simp: sk fun_eq_iff)
    then show ?thesis using Some i(1) x(2,3) h' by (auto simp: internal_hashmap_remove_def hm_map_def added_def)
  qed
qed


section \<open>Replacing a value\<close>

lemma exchanged:
  assumes wf: "hm_wf h" and i: "i < n_buckets h" and x: "hb_buckets h ! i = Some x" and k: "same_key h (he_key x) (he_key y)"
  defines "h' \<equiv> h\<lparr>hb_buckets := (hb_buckets h)[i := Some y]\<rparr>"
  shows "hm_wf h'" "hm_find h' k' = (if same_key h (he_key y) k' then Some y else hm_find h k')"
proof -
  note ok = hm_wf_ops [OF wf] and E = hash_ops_okD [OF hm_wf_ops(1) [OF wf]]
  have sz: "sized h" using ok(3) by (rule table_ok_sized)
  have h': "h' = overwrite h i (Some y) (hb_dibs h ! i)" by (simp add: h'_def overwrite_def)
  have s: "settled h i" using table_okD(1) [OF ok(3) i] x table_clean_settled [OF sz ok(4) i] by (auto simp: bucket_ok_def)
  have "hash (hb_hash_ops h) (he_key x) t = hash (hb_hash_ops h) (he_key y) t" for t
    using ok(1) k unfolding hash_ops_ok_def same_key_def by blast
  then have hm: "home h y = home h x" by (simp add: home_def base_bucket_hash_def)
  have r: "rank h' j = rank h j" for j
  proof -
    have "rank h i = Suc (bucket_distance h i (home h x))" using s x by (simp add: rank_def)
    then show ?thesis unfolding h' overwrite_rank [OF sz i] using s hm by (simp add: settled_def)
  qed
  have bi: "bucket_ok h i" using ok(3) i by (rule table_okD)
  have b: "bucket_ok h' j" if "j < n_buckets h" for j
  proof (cases "j = i")
    case True
    have "hb_dibs h' ! i = hb_dibs h ! i" "hb_buckets h' ! i \<noteq> None" "settled h' i = settled h i" "hb_has_indirect h' = hb_has_indirect h"
      "hb_idx_lowest_entry h' = hb_idx_lowest_entry h"
      using i sz by (simp_all add: h'_def settled_def sized_def)
    then show ?thesis using bi x r [of i] unfolding bucket_ok_def True by auto
  next
    case False
    then show ?thesis unfolding h' using overwrite_ok_other [OF sz i table_okD(1) [OF ok(3) that]] by simp
  qed
  have N: "n_buckets h' = n_buckets h" "next_idx h' = next_idx h" "sized h' = sized h" by (simp_all add: h' overwrite_eqs)
  have t: "table_ok h'" using sz b table_okD(2) [OF ok(3)] by (simp add: table_ok_def N r)
  have "x \<in># live h" using i x sz by (auto simp: live_set sized_def)
  then obtain M where M: "live h = add_mset x M" by (metis multi_member_split)
  then have M': "live h' = add_mset y M" using overwrite_live [OF sz i, of "Some y"] x by (simp add: h')
  have o: "hb_hash_ops h' = hb_hash_ops h" by (simp add: h'_def)
  have d: "distinct_keys (hb_hash_ops h) (live h')"
    using ok(2) k E unfolding M M' distinct_keys_add [OF ok(1)] same_key_def by metis
  have "table_clean h'" using ok(4) by (simp add: h'_def table_clean_def)
  then show wf': "hm_wf h'"
    using t d o ok(1,5) wf M M' by (simp add: hm_wf_def N r) (simp add: h'_def n_entries_def)
  have ne: "compare (hb_hash_ops h) (he_key y) k' = 0 \<longleftrightarrow> compare (hb_hash_ops h) (he_key x) k' = 0" using k E unfolding same_key_def by metis
  note f' = hm_find_iff [OF hm_wf_ops(1,2) [OF wf'], unfolded M' o] and f = hm_find_iff [OF ok(1,2), unfolded M]
  show "hm_find h' k' = (if same_key h (he_key y) k' then Some y else hm_find h k')"
  proof (cases "same_key h (he_key y) k'")
    case True
    then show ?thesis using f' by (simp add: same_key_def)
  next
    case False
    then have "hm_find h' k' = Some z \<longleftrightarrow> hm_find h k' = Some z" for z
      unfolding f f' using ne by (auto simp: same_key_def)
    then show ?thesis using False by (metis option.exhaust)
  qed
qed

lemma hashmap_replace_refines:
  assumes "hm_wf h" "hb_type h = HASHMAP_TYPE_PLAIN" "n_entries h + 1 < 2 ^ 26" "\<And>n. alloc_ok e n"
  shows "\<exists>r h'. hashmap_replace e h k v = Ret (r, h') \<and> r = (if hm_map h k = None then 1 else 0) \<and> hm_wf h' \<and> hb_hash_ops h' = hb_hash_ops h \<and>
     hb_type h' = hb_type h \<and> n_entries h' \<le> n_entries h + 1 \<and> hm_map h' = (\<lambda>k'. if same_key h k k' then Some v else hm_map h k')"
proof -
  have ev: "entry_value h = he_value" using assms(2) by (simp add: entry_value_def fun_eq_iff)
  let ?y = "\<lparr>he_key = k, he_value = v\<rparr>"
  obtain i where i: "base_bucket_scan h (base_bucket_hash h k) k = Ret i"
    "case i of None \<Rightarrow> hm_find h k = None | Some i \<Rightarrow> i < n_buckets h \<and> (\<exists>e. hb_buckets h ! i = Some e \<and> hm_find h k = Some e)"
    using scan_finds [OF assms(1)] by blast
  show ?thesis
  proof (cases i)
    case None
    then have n: "hm_find h k = None" using i by simp
    obtain r h' where r: "hashmap_base_put_boldly e h (base_bucket_hash h k) (put_swap k v) True = Ret (r, h')" "r = 1" "added h ?y h'"
      using put_boldly [OF assms(1) n assms(3)] assms(4) by blast
    then have "hashmap_replace e h k v = Ret (1, h')" using None i(1) by (simp add: hashmap_replace_def)
    moreover have "hm_map h' = (\<lambda>k'. if same_key h k k' then Some v else hm_map h k')" "hm_wf h'"
      using added_map(1) [OF assms(1) r(3)] r(3) by (auto simp: ev added_def fun_eq_iff)
    ultimately show ?thesis using n r(3) by (auto simp: added_def hm_map_def)
  next
    case (Some j)
    then obtain x where x: "j < n_buckets h" "hb_buckets h ! j = Some x" "hm_find h k = Some x" using i(2) by auto
    let ?h = "h\<lparr>hb_buckets := (hb_buckets h)[j := Some ?y]\<rparr>"
    have "same_key h (he_key x) (he_key ?y)" using x(3) hm_find_iff [OF hm_wf_ops(1,2) [OF assms(1)]] by (simp add: same_key_def)
    note e = exchanged [OF assms(1) x(1,2) this]
    have "entry_value ?h = he_value" using ev entry_value_cong [of ?h h] by simp
    then have "hm_map ?h = (\<lambda>k'. if same_key h k k' then Some v else hm_map h k')"
      using e(2) ev by (intro ext) (simp add: hm_map_def)
    moreover have "hashmap_replace e h k v = Ret (0, ?h)" using Some i(1) by (simp add: hashmap_replace_def)
    moreover have "n_entries ?h = n_entries h" by (simp add: n_entries_def)
    ultimately show ?thesis using e(1) x(3) by (auto simp: hm_map_def)
  qed
qed

lemma hashmap_update_refines:
  assumes "hm_wf h" "hb_type h = HASHMAP_TYPE_PLAIN"
  shows "\<exists>h'. hashmap_update h k v = Ret (if hm_map h k = None then - ENOENT else 0, h') \<and> hm_wf h' \<and> hb_hash_ops h' = hb_hash_ops h \<and>
     hb_type h' = hb_type h \<and> n_entries h' = n_entries h \<and>
     hm_map h' = (\<lambda>k'. if hm_map h k \<noteq> None \<and> same_key h k k' then Some v else hm_map h k')"
proof -
  have ev: "entry_value h = he_value" using assms(2) by (simp add: entry_value_def fun_eq_iff)
  obtain i where i: "base_bucket_scan h (base_bucket_hash h k) k = Ret i"
    "case i of None \<Rightarrow> hm_find h k = None | Some i \<Rightarrow> i < n_buckets h \<and> (\<exists>e. hb_buckets h ! i = Some e \<and> hm_find h k = Some e)"
    using scan_finds [OF assms(1)] by blast
  show ?thesis
  proof (cases i)
    case None
    then show ?thesis using i assms(1) by (auto simp: hashmap_update_def hm_map_def)
  next
    case (Some j)
    then obtain x where x: "j < n_buckets h" "hb_buckets h ! j = Some x" "hm_find h k = Some x" using i(2) by auto
    let ?y = "x\<lparr>he_value := v\<rparr>" let ?h = "h\<lparr>hb_buckets := (hb_buckets h)[j := Some ?y]\<rparr>"
    have xk: "same_key h (he_key x) k" using x(3) hm_find_iff [OF hm_wf_ops(1,2) [OF assms(1)]] by (simp add: same_key_def)
    have "same_key h (he_key x) (he_key ?y)" using hash_ops_okD(1) [OF hm_wf_ops(1) [OF assms(1)]] by (simp add: same_key_def)
    note e = exchanged [OF assms(1) x(1,2) this]
    have "same_key h (he_key x) k' = same_key h k k'" for k' using xk by (rule same_key_equiv [OF assms(1)])
    moreover have "entry_value ?h = he_value" using ev entry_value_cong [of ?h h] by simp
    ultimately have "hm_map ?h = (\<lambda>k'. if same_key h k k' then Some v else hm_map h k')"
      using e(2) ev by (intro ext) (simp add: hm_map_def)
    moreover have "hashmap_update h k v = Ret (0, ?h)" using Some i(1) x(2) by (simp add: hashmap_update_def)
    moreover have "n_entries ?h = n_entries h" by (simp add: n_entries_def)
    ultimately show ?thesis using e(1) x(3) by (auto simp: hm_map_def)
  qed
qed

section \<open>Empty tables\<close>

lemma emptied:
  assumes "hash_ops_ok (hb_hash_ops h)" "\<not> hb_has_indirect h" "hb_n_entries h = 0"
    and "hb_buckets h = replicate (n_direct_buckets (hb_type h)) None" "hb_dibs h = replicate (n_direct_buckets (hb_type h)) DIB_RAW_FREE"
  shows "hm_wf h" "hm_map h = (\<lambda>_. None)"
proof -
  let ?n = "n_direct_buckets (hb_type h)"
  have n: "0 < ?n" "?n < DIB_FREE" by (cases "hb_type h"; simp add: n_direct_buckets_def entry_size_def DIB_FREE_def)+
  have nb: "n_buckets h = ?n" using assms(2) by (simp add: n_buckets_def)
  have r: "rank h i = 0" "\<not> settled h i" if "i < ?n" for i using that assms(5) by (simp_all add: rank_def settled_def)
  have "next_idx h i < ?n" if "i < ?n" for i using next_idx_less [of i h] nb that by simp
  then have "table_ok h" using n r assms(2,4,5) by (simp add: table_ok_def sized_def nb bucket_ok_def)
  moreover have "table_clean h" using assms(5) by (auto simp: table_clean_def DIB_RAW_FREE_def DIB_RAW_REHASH_def)
  moreover have e: "hm_entries h = []" using assms(4) by (simp add: hm_entries_def)
  moreover have "\<exists>i<?n. rank h i \<le> 1" using n(1) r(1) by fastforce
  ultimately show "hm_wf h" using assms(1,3) by (simp add: hm_wf_def nb live_entries n_entries_def distinct_keys_def)
  show "hm_map h = (\<lambda>_. None)" by (simp add: hm_map_def hm_find_def e fun_eq_iff)
qed

lemma base_new:
  assumes "hash_ops_ok ops"
  shows "\<exists>h. hashmap_base_new shared ops t = Ret h \<and> hm_wf h \<and> hm_map h = (\<lambda>_. None) \<and> hb_type h = t \<and> hb_hash_ops h = ops \<and> n_entries h = 0"
  using emptied [of "\<lparr>hb_hash_ops = ops, hb_type = t, hb_has_indirect = False, hb_buckets = replicate (n_direct_buckets t) None,
      hb_dibs = replicate (n_direct_buckets t) DIB_RAW_FREE, hb_n_entries = 0, hb_indirect_n_buckets = 0, hb_indirect_hash_key = [],
      hb_shared_hash_key = shared, hb_idx_lowest_entry = 0\<rparr>"] assms
  by (simp add: hashmap_base_new_def reset_direct_storage_def c_assert_def n_entries_def)

lemma clear_refines:
  assumes "hm_wf h"
  shows "\<exists>h'. internal_hashmap_clear (Some h) = Ret (Some h') \<and> hm_wf h' \<and> hb_hash_ops h' = hb_hash_ops h \<and> hb_type h' = hb_type h \<and>
    n_entries h' = 0 \<and> hm_map h' = (\<lambda>_. None)"
  using emptied [of "h\<lparr>hb_has_indirect := False, hb_n_entries := 0, hb_buckets := replicate (n_direct_buckets (hb_type h)) None,
      hb_dibs := replicate (n_direct_buckets (hb_type h)) DIB_RAW_FREE\<rparr>"] hm_wf_ops(1) [OF assms]
  by (simp add: internal_hashmap_clear_def reset_direct_storage_def c_assert_def n_entries_def)

section \<open>A table to try the properties on\<close>

definition demo_hash_env :: hashmap_env where
  "demo_hash_env = \<lparr>alloc_ok = \<lambda>_. True, get_hash_key = \<lambda>_. replicate 16 0\<rparr>"

definition demo_table :: "u64 HashmapBase" where
  \<comment> \<open>the key 1 with the value 2\<close>
  "demo_table = (case internal_hashmap_new (replicate 16 0) trivial_hash_ops of Ret h \<Rightarrow>
     (case hashmap_put demo_hash_env h 1 2 of Ret (r, h) \<Rightarrow> h))"

lemma demo_table_ok:
  "hm_wf demo_table" "hb_type demo_table = HASHMAP_TYPE_PLAIN" "hb_hash_ops demo_table = trivial_hash_ops" "n_entries demo_table = 1"
  "hm_map demo_table = [1 \<mapsto> 2]"
proof -
  obtain h where h: "internal_hashmap_new (replicate 16 0) trivial_hash_ops = Ret h" "hm_wf h" "hm_map h = (\<lambda>_. None)" "hb_type h = HASHMAP_TYPE_PLAIN"
      "hb_hash_ops h = trivial_hash_ops" "n_entries h = 0"
    using base_new [OF trivial_hash_ops_ok, of "replicate 16 0" HASHMAP_TYPE_PLAIN] unfolding internal_hashmap_new_def by blast
  have n: "hm_find h 1 = None" using h(3) by (simp add: hm_map_def fun_eq_iff)
  have small: "n_entries h + 1 < 2 ^ 26" using h(6) by simp
  obtain h' where h': "hashmap_put demo_hash_env h 1 2 = Ret (1, h')" "added h \<lparr>he_key = 1, he_value = 2\<rparr> h'"
    using put_cases(1) [OF h(2) small, of demo_hash_env 1 2] n by (auto simp: demo_hash_env_def)
  have d: "demo_table = h'" using h(1) h'(1) by (simp add: demo_table_def)
  have eq: "same_key h a b \<longleftrightarrow> a = b" for a b by (auto simp: same_key_def h(5) trivial_hash_ops_def trivial_compare_func_def)
  have "hm_map h' = [1 \<mapsto> 2]"
    using added_map(1) [OF h(2) h'(2)] h(3,4) by (auto simp: eq entry_value_def fun_eq_iff)
  then show "hm_wf demo_table" "hb_type demo_table = HASHMAP_TYPE_PLAIN" "hb_hash_ops demo_table = trivial_hash_ops" "n_entries demo_table = 1"
      "hm_map demo_table = [1 \<mapsto> 2]"
    using h'(2) h(4-6) unfolding d by (simp_all add: added_def)
qed

text \<open>
  Putting a value under a key into a hash map keeps the invariant and is an update of the content: a key that is there already keeps its value, and the answer is 0 when it is the value offered and \<open>EEXIST\<close> otherwise; a new key is added and the answer is 1, unless an allocation fails, when the table is unchanged.  This covers the growing of the table with its rehashing, and the displacement of entries.
\<close>

theorem hashmap_put_refines:
  assumes "hm_wf h" "hb_type h = HASHMAP_TYPE_PLAIN" "n_entries h + 1 < 2 ^ 26"
  shows "\<exists>r h'. hashmap_put e h k v = Ret (r, h') \<and> hm_wf h' \<and>
     (case hm_map h k of
        Some w \<Rightarrow> h' = h \<and> r = (if w = v then 0 else - EEXIST)
      | None \<Rightarrow> r = - ENOMEM \<and> h' = h \<and> (\<exists>n. \<not> alloc_ok e n) \<or>
                r = 1 \<and> n_entries h' = n_entries h + 1 \<and> hm_map h' = (\<lambda>k'. if same_key h k k' then Some v else hm_map h k'))"
proof -
  have ev: "entry_value h = he_value" using assms(2) by (simp add: entry_value_def fun_eq_iff)
  have "hm_map h' = (\<lambda>k'. if same_key h k k' then Some v else hm_map h k')" "hm_wf h'" "n_entries h' = n_entries h + 1"
    if "added h \<lparr>he_key = k, he_value = v\<rparr> h'" for h'
    using added_map(1) [OF assms(1) that] that by (auto simp: ev added_def fun_eq_iff)
  moreover obtain r h' where "hashmap_put e h k v = Ret (r, h')"
      "case hm_find h k of
        Some x \<Rightarrow> h' = h \<and> r = (if he_value x = v then 0 else - EEXIST)
      | None \<Rightarrow> r = - ENOMEM \<and> h' = h \<and> (\<exists>n. \<not> alloc_ok e n) \<or> r = 1 \<and> added h \<lparr>he_key = k, he_value = v\<rparr> h'"
    using put_cases(1) [OF assms(1,3), of e k v] by blast
  moreover have "hm_map h k = map_option he_value (hm_find h k)" by (simp add: hm_map_def ev)
  ultimately show ?thesis using assms(1) by (cases "hm_find h k") auto
qed

theorem hashmap_put_refines_witness:
  "\<exists>r h'. hashmap_put demo_hash_env demo_table 1 3 = Ret (r, h') \<and> h' = demo_table \<and> r = - EEXIST"
  using hashmap_put_refines [OF demo_table_ok(1,2), of demo_hash_env 1 3] demo_table_ok(4,5) by auto

end
