(* ===== verification/Hashmap_Loops.thy ===== *)
theory Hashmap_Loops
  imports Hashmap_Spec
begin

text \<open>
  Iterating over a table reads its entries in the order of the buckets.  The locale \<open>dictionary\<close>
  states what a loop that puts entries relies on; hash maps and sets provide it.
\<close>

section \<open>Iterating\<close>

fun each :: "('e \<Rightarrow> 's \<Rightarrow> ('r option \<times> 's) outcome) \<Rightarrow> 'e list \<Rightarrow> 's \<Rightarrow> ('r option \<times> 's) outcome" where
  "each f [] s = Ret (None, s)"
| "each f (x # xs) s = obind (f x s) (\<lambda>(r, s). case r of Some r \<Rightarrow> Ret (Some r, s) | None \<Rightarrow> each f xs s)"

definition at_first :: "'p HashmapBase \<Rightarrow> 'p HashmapBase" where
  \<comment> \<open>the table when an iteration has begun: the lowest entry is known exactly\<close>
  "at_first h =
     (if hb_has_indirect h
      then h\<lparr>hb_idx_lowest_entry := (case skip_free_buckets h (hb_idx_lowest_entry h) of None \<Rightarrow> IDX_NIL | Some j \<Rightarrow> j)\<rparr> else h)"

abbreviation entries_from :: "'p HashmapBase \<Rightarrow> nat \<Rightarrow> 'p hashmap_entry list" where
  "entries_from h j \<equiv> map the (filter (\<lambda>x. x \<noteq> None) (drop j (hb_buckets h)))"

lemma skip_free:
  assumes "hm_wf h"
  shows "case skip_free_buckets h j of
      None \<Rightarrow> entries_from h j = [] \<and> (\<forall>l. j \<le> l \<longrightarrow> l < n_buckets h \<longrightarrow> hb_buckets h ! l = None)
    | Some i \<Rightarrow> j \<le> i \<and> i < n_buckets h \<and> (\<exists>e. hb_buckets h ! i = Some e \<and> entries_from h j = e # entries_from h (Suc i)) \<and>
        (\<forall>l. j \<le> l \<longrightarrow> l < i \<longrightarrow> hb_buckets h ! l = None)"
proof (induction "n_buckets h - j" arbitrary: j)
  case 0
  then have "length (hb_buckets h) \<le> j" using table_ok_sized [OF hm_wf_ops(3) [OF assms(1)]] by (simp add: sized_def)
  then show ?case using 0 by (simp add: skip_free_buckets_def)
next
  case (Suc n)
  have j: "j < n_buckets h" using Suc.hyps(2) by simp
  have len: "j < length (hb_buckets h)" using j table_ok_sized [OF hm_wf_ops(3) [OF assms(1)]] by (simp add: sized_def)
  have b: "hb_dibs h ! j = DIB_RAW_FREE \<longleftrightarrow> hb_buckets h ! j = None"
    using table_okD(1) [OF hm_wf_ops(3) [OF assms(1)] j] by (simp add: bucket_ok_def)
  have d: "entries_from h j = (case hb_buckets h ! j of None \<Rightarrow> entries_from h (Suc j) | Some e \<Rightarrow> e # entries_from h (Suc j))"
    unfolding Cons_nth_drop_Suc [OF len, symmetric] by (cases "hb_buckets h ! j") simp_all
  have s: "skip_free_buckets h j = (if hb_dibs h ! j \<noteq> DIB_RAW_FREE then Some j else skip_free_buckets h (Suc j))"
    using j by (simp add: skip_free_buckets_def upt_conv_Cons)
  show ?case
  proof (cases "hb_buckets h ! j")
    case None
    then have e: "entries_from h j = entries_from h (Suc j)" "skip_free_buckets h j = skip_free_buckets h (Suc j)" using b d s by auto
    have "case skip_free_buckets h (Suc j) of
      None \<Rightarrow> entries_from h (Suc j) = [] \<and> (\<forall>l. Suc j \<le> l \<longrightarrow> l < n_buckets h \<longrightarrow> hb_buckets h ! l = None)
    | Some i \<Rightarrow> Suc j \<le> i \<and> i < n_buckets h \<and> (\<exists>e. hb_buckets h ! i = Some e \<and> entries_from h (Suc j) = e # entries_from h (Suc i)) \<and>
        (\<forall>l. Suc j \<le> l \<longrightarrow> l < i \<longrightarrow> hb_buckets h ! l = None)"
      using Suc.hyps j by (intro Suc.hyps(1)) simp_all
    moreover have "hb_buckets h ! l = None" if "j \<le> l" "Suc j \<le> l \<Longrightarrow> hb_buckets h ! l = None" for l
      using that None by (cases "l = j") auto
    ultimately show ?thesis unfolding e by (auto split: option.splits)
  next
    case (Some e)
    then show ?thesis using b d s j by simp
  qed
qed

lemma at_first_eqs:
  "hb_buckets (at_first h) = hb_buckets h" "hb_dibs (at_first h) = hb_dibs h" "n_buckets (at_first h) = n_buckets h" "rank (at_first h) = rank h"
  "live (at_first h) = live h" "hb_hash_ops (at_first h) = hb_hash_ops h" "hb_type (at_first h) = hb_type h" "next_idx (at_first h) = next_idx h"
  "n_entries (at_first h) = n_entries h" "sized (at_first h) = sized h" "settled (at_first h) = settled h"
  by (simp_all add: at_first_def n_buckets_def rank_def settled_def bucket_distance_def home_def base_bucket_hash_def hash_key_def live_def
      next_idx_def n_entries_def sized_def fun_eq_iff)

lemma at_first_wf:
  assumes "hm_wf h"
  shows "hm_wf (at_first h)" "hm_entries (at_first h) = hm_entries h" "hm_map (at_first h) = hm_map h"
proof -
  have len: "length (hb_buckets h) = n_buckets h" using table_ok_sized [OF hm_wf_ops(3) [OF assms]] by (simp add: sized_def)
  have "bucket_ok (at_first h) i" if i: "i < n_buckets h" for i
  proof -
    have b: "bucket_ok h i" using hm_wf_ops(3) [OF assms] i by (rule table_okD)
    have "hb_buckets h ! i = None" if "hb_has_indirect h" "i < hb_idx_lowest_entry (at_first h)"
    proof (cases "i < hb_idx_lowest_entry h")
      case True
      then show ?thesis using b that(1) by (simp add: bucket_ok_def)
    next
      case False
      then show ?thesis
        using skip_free [OF assms, of "hb_idx_lowest_entry h"] that False i len
        by (auto simp: at_first_def split: option.splits)
    qed
    then show ?thesis using b unfolding bucket_ok_def at_first_eqs by (auto simp: at_first_def)
  qed
  then show "hm_wf (at_first h)"
    using assms by (simp add: hm_wf_def table_ok_def at_first_eqs table_clean_def)
  show "hm_entries (at_first h) = hm_entries h" by (simp add: hm_entries_def at_first_eqs)
  then show "hm_map (at_first h) = hm_map h"
    by (intro ext) (simp add: hm_map_def hm_find_def at_first_eqs entry_value_cong [OF at_first_eqs(7)])
qed

lemma foreach_loop:
  assumes wf: "hm_wf h" and body: "\<And>j s. j < n_buckets h \<Longrightarrow> body j h s = obind (f (the (hb_buckets h ! j)) s) (\<lambda>(r, s). Ret (r, h, s))"
    and "0 < j" "n_buckets h - j < fuel"
  shows "hashmap_foreach_loop fuel body h (iterator_at h (skip_free_buckets h j)) s = obind (each f (entries_from h j) s) (\<lambda>(r, s). Ret (r, h, s))"
  using assms(3,4)
proof (induction fuel arbitrary: j s)
  case (Suc fuel)
  show ?case
  proof (cases "skip_free_buckets h j")
    case None
    then show ?thesis
      using skip_free [OF wf, of j] by (simp add: iterator_at_def hashmap_iterate_in_internal_order_def)
  next
    case (Some i)
    then obtain e where e: "j \<le> i" "i < n_buckets h" "hb_buckets h ! i = Some e" "entries_from h j = e # entries_from h (Suc i)"
      using skip_free [OF wf, of j] by auto
    have it: "hashmap_iterate_in_internal_order h (iterator_at h (Some i)) = Ret (Some i, iterator_at h (skip_free_buckets h (Suc i)), h)"
      using e Suc.prems(1) by (simp add: hashmap_iterate_in_internal_order_def iterator_at_def key_at_def c_assert_def)
    have "hashmap_foreach_loop fuel body h (iterator_at h (skip_free_buckets h (Suc i))) s =
        obind (each f (entries_from h (Suc i)) s) (\<lambda>(r, s). Ret (r, h, s))" for s
      using e(1,2) Suc.prems by (intro Suc.IH) simp_all
    then show ?thesis
      unfolding Some e(4) using it body [OF e(2), of s] e(3) by (cases "f e s") (auto split: option.split)
  qed
qed simp

lemma hm_entries_lowest:
  assumes "hm_wf h" "hb_has_indirect h"
  shows "hm_entries h = entries_from h (hb_idx_lowest_entry h)"
proof -
  let ?lo = "hb_idx_lowest_entry h"
  have len: "length (hb_buckets h) = n_buckets h" using table_ok_sized [OF hm_wf_ops(3) [OF assms(1)]] by (simp add: sized_def)
  have "x = None" if "x \<in> set (take ?lo (hb_buckets h))" for x
    using that len table_okD(1) [OF hm_wf_ops(3) [OF assms(1)]] assms(2) by (auto simp: in_set_conv_nth bucket_ok_def)
  then have "filter (\<lambda>x. x \<noteq> None) (take ?lo (hb_buckets h)) = []" by (auto simp: filter_empty_conv)
  then show ?thesis
    unfolding hm_entries_def by (subst append_take_drop_id [of ?lo "hb_buckets h", symmetric], subst filter_append) simp
qed

lemma foreach_each:
  assumes wf: "hm_wf h"
    and body: "\<And>j s. j < n_buckets h \<Longrightarrow> body j (at_first h) s = obind (f (the (hb_buckets h ! j)) s) (\<lambda>(r, s). Ret (r, at_first h, s))"
  shows "hashmap_foreach body h s = obind (each f (hm_entries h) s) (\<lambda>(r, s). Ret (r, at_first h, s))"
proof -
  let ?j = "if hb_has_indirect h then hb_idx_lowest_entry h else 0" let ?h = "at_first h"
  have entries: "hm_entries h = entries_from h ?j" using hm_entries_lowest [OF wf] by (simp add: hm_entries_def)
  have first: "hashmap_iterate_in_internal_order h IDX_FIRST =
      (case skip_free_buckets h ?j of None \<Rightarrow> Ret (None, IDX_END, ?h) | Some i \<Rightarrow> Ret (Some i, iterator_at ?h (skip_free_buckets ?h (i + 1)), ?h))"
    by (cases "skip_free_buckets h ?j") (simp_all add: hashmap_iterate_in_internal_order_def at_first_def Let_def split: if_splits)
  show ?thesis
  proof (cases "skip_free_buckets h ?j")
    case None
    then show ?thesis using skip_free [OF wf, of ?j] entries first by (simp add: hashmap_foreach_def)
  next
    case (Some i)
    then obtain e where e: "i < n_buckets h" "hb_buckets h ! i = Some e" "hm_entries h = e # entries_from h (Suc i)"
      using skip_free [OF wf, of ?j] entries by auto
    have "hashmap_foreach_loop (n_buckets h) body ?h (iterator_at ?h (skip_free_buckets ?h (Suc i))) s =
        obind (each f (entries_from ?h (Suc i)) s) (\<lambda>(r, s). Ret (r, ?h, s))" for s
      using e(1) body by (intro foreach_loop [OF at_first_wf(1) [OF wf]]) (simp_all add: at_first_eqs)
    then show ?thesis
      unfolding e(3) using Some first body [OF e(1), of s] e(2)
      by (cases "f e s") (auto simp: hashmap_foreach_def at_first_eqs split: option.split)
  qed
qed

lemma entries_values:
  assumes "hm_wf h"
  shows "set (map (entry_value h) (hm_entries h)) = ran (hm_map h)" "length (hm_entries h) = n_entries h"
proof -
  have "hm_find h (he_key x) = Some x" if "x \<in> set (hm_entries h)" for x
    using hm_find_iff [OF hm_wf_ops(1,2) [OF assms]] that hash_ops_okD(1) [OF hm_wf_ops(1) [OF assms]] by (simp add: live_entries)
  moreover have "x \<in> set (hm_entries h)" if "hm_find h k = Some x" for k x
    using hm_find_iff [OF hm_wf_ops(1,2) [OF assms]] that by (simp add: live_entries)
  ultimately show "set (map (entry_value h) (hm_entries h)) = ran (hm_map h)"
    unfolding hm_map_def ran_def by (auto simp: image_iff)
  show "length (hm_entries h) = n_entries h" using hm_wf_ops(5) [OF assms] by (simp add: live_entries)
qed

text \<open>
  Listing the values of a hash table gives one string per entry, and exactly the values that its content has, and it leaves the content as it was.
\<close>

theorem hashmap_get_strv_values:
  assumes "hm_wf h"
  shows "\<exists>sv h'. internal_hashmap_get_strv h = Ret (sv, h') \<and> set sv = ran (hm_map h) \<and> length sv = n_entries h \<and> hm_wf h' \<and> hm_map h' = hm_map h"
proof -
  let ?f = "\<lambda>e sv. Ret (None :: unit option, sv @ [entry_value h e])"
  have each: "each ?f es sv = Ret (None, sv @ map (entry_value h) es)" for es sv by (induction es arbitrary: sv) simp_all
  have "hashmap_foreach (\<lambda>j h sv. Ret (None :: unit option, h, sv @ [entry_value h (the (hb_buckets h ! j))])) h [] =
      obind (each ?f (hm_entries h) []) (\<lambda>(r, s). Ret (r, at_first h, s))"
    by (rule foreach_each [OF assms]) (simp add: at_first_eqs entry_value_cong [OF at_first_eqs(7)])
  then have "internal_hashmap_get_strv h = Ret (map (entry_value h) (hm_entries h), at_first h)"
    by (simp add: internal_hashmap_get_strv_def each)
  then show ?thesis using at_first_wf [OF assms] entries_values [OF assms] by auto
qed

theorem hashmap_get_strv_values_witness:
  "\<exists>sv h'. internal_hashmap_get_strv demo_table = Ret (sv, h') \<and> length sv = 1 \<and> 2 \<in> set sv \<and> hm_map h' 1 = Some 2"
  using hashmap_get_strv_values [OF demo_table_ok(1)] demo_table_ok(4,5) by (auto intro: ranI)

section \<open>Freeing\<close>

lemma clear_free_entries:
  assumes "hm_wf h"
  shows "clear_free_loop frees h j = concat (map frees (entries_from h j))"
proof (induction "n_buckets h - j" arbitrary: j rule: less_induct)
  case less
  show ?case
  proof (cases "skip_free_buckets h j")
    case None
    then show ?thesis using skip_free [OF assms, of j] by (simp add: clear_free_loop.simps)
  next
    case (Some i)
    then obtain e where e: "j \<le> i" "i < n_buckets h" "hb_buckets h ! i = Some e" "entries_from h j = e # entries_from h (Suc i)"
      using skip_free [OF assms, of j] by auto
    then have "clear_free_loop frees h (Suc i) = concat (map frees (entries_from h (Suc i)))" by (intro less) simp
    then show ?thesis using Some e(3,4) by (subst clear_free_loop.simps) simp
  qed
qed

lemma clear_free_all: "hm_wf h \<Longrightarrow> clear_free_loop frees h 0 = concat (map frees (hm_entries h))"
  using clear_free_entries [of h frees 0] by (simp add: hm_entries_def)

lemma hashmap_free_all:
  assumes "hm_wf h"
  shows "internal_hashmap_free_free (Some h) = Ret (map (entry_value h) (hm_entries h)) \<and>
    hashmap_free_free_free (Some h) = Ret (concat (map (\<lambda>e. [he_key e, he_value e]) (hm_entries h))) \<and>
    internal_hashmap_free (Some h) = Ret []"
  by (simp add: internal_hashmap_free_free_def hashmap_free_free_free_def internal_hashmap_free_def free_with_def internal_hashmap_clear_free_def
      hashmap_clear_free_free_def internal_hashmap_clear_def reset_direct_storage_def hashmap_free_no_clear_def c_assert_def clear_free_all [OF assms]
      concat_map_singleton)

end
