(* ===== verification/Hashmap_Merge.thy ===== *)
theory Hashmap_Merge
  imports Hashmap_Loops
begin

text \<open>
  Putting many entries: the locale states what one put does to the content of a dictionary, and
  the loop that puts a list of entries is treated once for hash maps and for sets.
\<close>

section \<open>Dictionaries\<close>

fun put_each :: "(int \<Rightarrow> bool) \<Rightarrow> ('t \<Rightarrow> 'e \<Rightarrow> (int \<times> 't) outcome) \<Rightarrow> 't \<Rightarrow> 'e list \<Rightarrow> (int \<times> 't) outcome" where
  "put_each stop put t [] = Ret (0, t)"
| "put_each stop put t (x # xs) = obind (put t x) (\<lambda>(r, t). if stop r then Ret (r, t) else put_each stop put t xs)"

locale dictionary =
  fixes ok :: "'t \<Rightarrow> bool" and content :: "'t \<Rightarrow> 'k \<Rightarrow> 'v option" and same :: "'t \<Rightarrow> 'k \<Rightarrow> 'k \<Rightarrow> bool" and count :: "'t \<Rightarrow> nat"
    and key :: "'e \<Rightarrow> 'k" and val :: "'e \<Rightarrow> 'v" and put :: "'t \<Rightarrow> 'e \<Rightarrow> (int \<times> 't) outcome" and stop :: "int \<Rightarrow> bool"
    and full :: bool
  assumes content_same: "ok t \<Longrightarrow> same t a b \<Longrightarrow> content t a = content t b"
    and put_known: "ok t \<Longrightarrow> count t + 1 < 2 ^ 26 \<Longrightarrow> content t (key x) \<noteq> None \<Longrightarrow> \<exists>r. put t x = Ret (r, t) \<and> \<not> stop r"
    and put_new: "ok t \<Longrightarrow> count t + 1 < 2 ^ 26 \<Longrightarrow> content t (key x) = None \<Longrightarrow>
      \<exists>r t'. put t x = Ret (r, t') \<and> ok t' \<and> same t' = same t \<and>
        (stop r \<and> r < 0 \<and> full \<or>
         \<not> stop r \<and> count t' = Suc (count t) \<and> content t' = (\<lambda>k. if same t (key x) k then Some (val x) else content t k))"
begin

lemma put_each_content:
  assumes "ok t" "count t + length xs + 1 < 2 ^ 26"
  shows "\<exists>r t'. put_each stop put t xs = Ret (r, t') \<and> ok t' \<and> same t' = same t \<and>
    (r < 0 \<and> full \<or> r = 0 \<and> content t' = (\<lambda>k. case content t k of Some v \<Rightarrow> Some v | None \<Rightarrow> map_option val (find (\<lambda>x. same t (key x) k) xs)))"
  using assms
proof (induction xs arbitrary: t)
  case Nil
  then show ?case by (auto split: option.split)
next
  case (Cons x xs)
  let ?merged = "\<lambda>t xs k. case content t k of Some v \<Rightarrow> Some v | None \<Rightarrow> map_option val (find (\<lambda>x. same t (key x) k) xs)"
  have small: "count t + 1 < 2 ^ 26" using Cons.prems(2) by simp
  show ?case
  proof (cases "content t (key x)")
    case (Some v)
    then obtain r where r: "put t x = Ret (r, t)" "\<not> stop r" using put_known [OF Cons.prems(1) small] by blast
    have "?merged t (x # xs) = ?merged t xs"
    proof (rule ext)
      fix k
      have "content t k = Some v" if "same t (key x) k" using content_same [OF Cons.prems(1) that] Some by simp
      then show "?merged t (x # xs) k = ?merged t xs k" by (auto split: option.split)
    qed
    then show ?thesis using Cons.IH [OF Cons.prems(1)] Cons.prems(2) r by simp
  next
    case None
    then obtain r t' where r: "put t x = Ret (r, t')" "ok t'" "same t' = same t"
        "stop r \<and> r < 0 \<and> full \<or> \<not> stop r \<and> count t' = Suc (count t) \<and> content t' = (\<lambda>k. if same t (key x) k then Some (val x) else content t k)"
      using put_new [OF Cons.prems(1) small, of x] by blast
    show ?thesis
    proof (cases "stop r")
      case True
      then show ?thesis using r by auto
    next
      case False
      then have n: "count t' = Suc (count t)" and c: "content t' = (\<lambda>k. if same t (key x) k then Some (val x) else content t k)" using r(4) by auto
      have "?merged t' xs = ?merged t (x # xs)"
      proof (rule ext)
        fix k
        have "content t k = None" if "same t (key x) k" using content_same [OF Cons.prems(1) that] None by simp
        then show "?merged t' xs k = ?merged t (x # xs) k" by (auto simp: c r(3) split: option.split)
      qed
      moreover have "count t' + length xs + 1 < 2 ^ 26" using Cons.prems(2) n by simp
      ultimately show ?thesis using Cons.IH [OF r(2)] r(1,3) False by simp
    qed
  qed
qed

end

section \<open>Hash maps and sets are dictionaries\<close>

definition map_put :: "hashmap_env \<Rightarrow> 'p HashmapBase \<Rightarrow> 'p hashmap_entry \<Rightarrow> (int \<times> 'p HashmapBase) outcome" where
  "map_put e h x = hashmap_put e h (he_key x) (he_value x)"

definition key_put :: "hashmap_env \<Rightarrow> 'p HashmapBase \<Rightarrow> 'p hashmap_entry \<Rightarrow> (int \<times> 'p HashmapBase) outcome" where
  "key_put e h x = set_put e h (he_key x)"

lemma hm_map_same:
  assumes "hm_wf h" "same_key h a b"
  shows "hm_map h a = hm_map h b"
proof -
  have "hm_find h a = Some x \<longleftrightarrow> hm_find h b = Some x" for x
    using hm_find_iff [OF hm_wf_ops(1,2) [OF assms(1)]] hash_ops_okD [OF hm_wf_ops(1) [OF assms(1)]] assms(2) unfolding same_key_def by metis
  then have "hm_find h a = hm_find h b" by (metis option.exhaust)
  then show ?thesis by (simp add: hm_map_def)
qed

interpretation maps: dictionary "\<lambda>h. hm_wf h \<and> hb_type h = HASHMAP_TYPE_PLAIN" hm_map same_key n_entries he_key he_value "map_put e"
    "\<lambda>r. r < 0 \<and> r \<noteq> - EEXIST" "\<exists>n. \<not> alloc_ok e n" for e
proof (unfold_locales, goal_cases)
  case (1 t a b)
  then show ?case using hm_map_same [of t a b] by simp
next
  case (2 t x)
  then show ?case using put_cases(1) [of t e "he_key x" "he_value x"] by (auto simp: map_put_def hm_map_def split: option.splits)
next
  case (3 t x)
  then have ev: "entry_value t = he_value" by (simp add: entry_value_def fun_eq_iff)
  have "hm_find t (he_key x) = None" using 3 by (simp add: hm_map_def)
  then obtain r t' where r: "hashmap_put e t (he_key x) (he_value x) = Ret (r, t')"
      "r = - ENOMEM \<and> t' = t \<and> (\<exists>n. \<not> alloc_ok e n) \<or> r = 1 \<and> added t x t'"
    using put_cases(1) [of t e "he_key x" "he_value x"] 3 by (cases x) auto
  have "hm_wf t' \<and> hb_type t' = HASHMAP_TYPE_PLAIN \<and> same_key t' = same_key t \<and> n_entries t' = Suc (n_entries t) \<and>
      hm_map t' = (\<lambda>k. if same_key t (he_key x) k then Some (he_value x) else hm_map t k)" if "added t x t'"
    using added_map(1,3) [of t x t'] that 3 by (auto simp: ev added_def fun_eq_iff)
  then show ?case using r 3 by (auto simp: map_put_def)
qed

interpretation sets: dictionary "\<lambda>h. hm_wf h \<and> hb_type h = HASHMAP_TYPE_SET" hm_map same_key n_entries he_key he_key "key_put e"
    "\<lambda>r. r < 0" "\<exists>n. \<not> alloc_ok e n" for e
proof (unfold_locales, goal_cases)
  case (1 t a b)
  then show ?case using hm_map_same [of t a b] by simp
next
  case (2 t x)
  then show ?case using put_cases(2) [of t e "he_key x"] by (auto simp: key_put_def hm_map_def split: option.splits)
next
  case (3 t x)
  then have ev: "entry_value t = he_key" by (simp add: entry_value_def fun_eq_iff)
  have "hm_find t (he_key x) = None" using 3 by (simp add: hm_map_def)
  then obtain r t' where r: "set_put e t (he_key x) = Ret (r, t')"
      "r = - ENOMEM \<and> t' = t \<and> (\<exists>n. \<not> alloc_ok e n) \<or> r = 1 \<and> added t \<lparr>he_key = he_key x, he_value = he_key x\<rparr> t'"
    using put_cases(2) [of t e "he_key x"] 3 by auto
  have "hm_wf t' \<and> hb_type t' = HASHMAP_TYPE_SET \<and> same_key t' = same_key t \<and> n_entries t' = Suc (n_entries t) \<and>
      hm_map t' = (\<lambda>k. if same_key t (he_key x) k then Some (he_key x) else hm_map t k)" if "added t \<lparr>he_key = he_key x, he_value = he_key x\<rparr> t'"
    using added_map(1,3) [of t "\<lparr>he_key = he_key x, he_value = he_key x\<rparr>" t'] that 3 by (auto simp: ev added_def fun_eq_iff)
  then show ?case using r 3 by (auto simp: key_put_def)
qed

section \<open>Merging and copying\<close>

lemma each_put_each:
  assumes "\<And>x s. f x s = obind (put s x) (\<lambda>(r, s). Ret (if stop r then Some r else None, s))"
  shows "obind (each f xs s) (\<lambda>(r, s). Ret (case r of None \<Rightarrow> 0 | Some r \<Rightarrow> r, s)) = put_each stop put s xs"
proof (induction xs arbitrary: s)
  case (Cons x xs)
  then show ?case by (cases "put s x") (auto simp: assms)
qed simp

lemma merge_put_each:
  assumes "hm_wf other"
  shows "internal_hashmap_merge e h (Some other) =
    obind (put_each (\<lambda>r. r < 0 \<and> r \<noteq> - EEXIST) (map_put e) h (hm_entries other)) (\<lambda>(r, h). Ret (r, h, Some (at_first other)))"
    "set_merge e h (Some other) =
    obind (put_each (\<lambda>r. r < 0) (key_put e) h (hm_entries other)) (\<lambda>(r, h). Ret (r, h, Some (at_first other)))"
proof -
  let ?f = "\<lambda>put stop x h. obind (put h x) (\<lambda>(r, h). Ret (if stop r then Some r else None, h))"
  have m: "hashmap_foreach (hashmap_merge_body e) other h =
      obind (each (?f (map_put e) (\<lambda>r. r < 0 \<and> r \<noteq> - EEXIST)) (hm_entries other) h) (\<lambda>(r, s). Ret (r, at_first other, s))"
  proof (rule foreach_each [OF assms])
    show "hashmap_merge_body e j (at_first other) s =
        obind (?f (map_put e) (\<lambda>r. r < 0 \<and> r \<noteq> - EEXIST) (the (hb_buckets other ! j)) s) (\<lambda>(r, s). Ret (r, at_first other, s))" for j s
      by (cases "map_put e s (the (hb_buckets other ! j))") (auto simp: hashmap_merge_body_def map_put_def at_first_eqs Let_def)
  qed
  show "internal_hashmap_merge e h (Some other) =
    obind (put_each (\<lambda>r. r < 0 \<and> r \<noteq> - EEXIST) (map_put e) h (hm_entries other)) (\<lambda>(r, h). Ret (r, h, Some (at_first other)))"
    unfolding each_put_each [where f = "?f (map_put e) (\<lambda>r. r < 0 \<and> r \<noteq> - EEXIST)", symmetric, OF refl]
    by (cases "each (?f (map_put e) (\<lambda>r. r < 0 \<and> r \<noteq> - EEXIST)) (hm_entries other) h") (auto simp: internal_hashmap_merge_def m)
  have s: "hashmap_foreach (\<lambda>idx other s. obind (set_put e s (key_at other idx)) (\<lambda>(r, s). Ret (if r < 0 then Some r else None, other, s))) other h =
      obind (each (?f (key_put e) (\<lambda>r. r < 0)) (hm_entries other) h) (\<lambda>(r, s). Ret (r, at_first other, s))"
  proof (rule foreach_each [OF assms])
    show "obind (set_put e s (key_at (at_first other) j)) (\<lambda>(r, s). Ret (if r < 0 then Some r else None, at_first other, s)) =
        obind (?f (key_put e) (\<lambda>r. r < 0) (the (hb_buckets other ! j)) s) (\<lambda>(r, s). Ret (r, at_first other, s))" for j s
      by (cases "key_put e s (the (hb_buckets other ! j))") (auto simp: key_put_def key_at_def at_first_eqs)
  qed
  show "set_merge e h (Some other) =
    obind (put_each (\<lambda>r. r < 0) (key_put e) h (hm_entries other)) (\<lambda>(r, h). Ret (r, h, Some (at_first other)))"
    unfolding each_put_each [where f = "?f (key_put e) (\<lambda>r. r < 0)", symmetric, OF refl]
    by (cases "each (?f (key_put e) (\<lambda>r. r < 0)) (hm_entries other) h") (auto simp: set_merge_def s)
qed

text \<open>
  Merging one hash map into another adds what the first lacks and overwrites nothing: when it succeeds, the content is the old content, completed by that of the other map; it fails only when an allocation does.  The map that is read keeps its content.
\<close>

theorem hashmap_merge_content:
  assumes "hm_wf h" "hm_wf other" "hb_type h = HASHMAP_TYPE_PLAIN" "hb_type other = HASHMAP_TYPE_PLAIN" "hb_hash_ops other = hb_hash_ops h"
    "n_entries h + n_entries other + 1 < 2 ^ 26"
  shows "\<exists>r h' other'. internal_hashmap_merge e h (Some other) = Ret (r, h', Some other') \<and> hm_wf h' \<and> hm_wf other' \<and> hm_map other' = hm_map other \<and>
    (r < 0 \<and> (\<exists>n. \<not> alloc_ok e n) \<or> r = 0 \<and> hm_map h' = hm_map other ++ hm_map h)"
proof -
  obtain r h' where r: "put_each (\<lambda>r. r < 0 \<and> r \<noteq> - EEXIST) (map_put e) h (hm_entries other) = Ret (r, h')" "hm_wf h'"
      "r < 0 \<and> (\<exists>n. \<not> alloc_ok e n) \<or>
       r = 0 \<and> hm_map h' = (\<lambda>k. case hm_map h k of Some v \<Rightarrow> Some v | None \<Rightarrow> map_option he_value (find (\<lambda>x. same_key h (he_key x) k) (hm_entries other)))"
    using maps.put_each_content [of h "hm_entries other" e] assms entries_values(2) [OF assms(2)] by auto
  have "entry_value other = he_value" using assms(4) by (simp add: entry_value_def fun_eq_iff)
  then have "map_option he_value (find (\<lambda>x. same_key h (he_key x) k) (hm_entries other)) = hm_map other k" for k
    using assms(5) by (simp add: hm_map_def hm_find_def same_key_def)
  then have "hm_map h' = hm_map other ++ hm_map h" if "r = 0" using r(3) that by (auto simp: map_add_def fun_eq_iff split: option.split)
  then show ?thesis using r merge_put_each(1) [OF assms(2), of e h] at_first_wf [OF assms(2)] by auto
qed

theorem hashmap_merge_content_witness:
  "\<exists>r h' other'. internal_hashmap_merge demo_hash_env demo_table (Some demo_table) = Ret (r, h', Some other') \<and> r = 0 \<and> hm_map h' 1 = Some 2"
  using hashmap_merge_content [OF demo_table_ok(1,1,2,2) refl, of demo_hash_env] demo_table_ok(4,5)
  by (auto simp: demo_hash_env_def)

text \<open>
  A copy of a hash map or a set has exactly the content of the original, which keeps its own; there is no copy only when an allocation fails.
\<close>

theorem hashmap_copy_content:
  assumes "hm_wf h" "n_entries h + 1 < 2 ^ 26"
  shows "\<exists>c h'. internal_hashmap_copy e h = Ret (c, h') \<and> hm_wf h' \<and> hm_map h' = hm_map h \<and>
    (case c of None \<Rightarrow> \<exists>n. \<not> alloc_ok e n | Some c \<Rightarrow> hm_wf c \<and> hm_map c = hm_map h)"
proof -
  let ?t = "hb_type h"
  obtain q where q: "hashmap_base_new (hb_shared_hash_key h) (hb_hash_ops h) ?t = Ret q" "hm_wf q" "hm_map q = (\<lambda>_. None)" "hb_type q = ?t"
      "hb_hash_ops q = hb_hash_ops h" "n_entries q = 0"
    using base_new [OF hm_wf_ops(1) [OF assms(1)]] by blast
  have content: "map_option (entry_value h) (find (\<lambda>x. same_key q (he_key x) k) (hm_entries h)) = hm_map h k" for k
    using q(5) by (simp add: hm_map_def hm_find_def same_key_def)
  have small: "n_entries q + length (hm_entries h) + 1 < 2 ^ 26" using assms(2) entries_values(2) [OF assms(1)] q(6) by simp
  obtain r c where r: "(case ?t of HASHMAP_TYPE_PLAIN \<Rightarrow> internal_hashmap_merge e q (Some h) | HASHMAP_TYPE_SET \<Rightarrow> set_merge e q (Some h)) =
        Ret (r, c, Some (at_first h))"
      "hm_wf c" "r < 0 \<and> (\<exists>n. \<not> alloc_ok e n) \<or> r = 0 \<and> hm_map c = hm_map h"
  proof (cases ?t)
    case HASHMAP_TYPE_PLAIN
    then have ev: "entry_value h = he_value" by (simp add: entry_value_def fun_eq_iff)
    show thesis
      using maps.put_each_content [of q "hm_entries h" e] q(2,4) small merge_put_each(1) [OF assms(1), of e q] HASHMAP_TYPE_PLAIN content
      by (auto simp: ev q(3) intro!: that)
  next
    case HASHMAP_TYPE_SET
    then have ev: "entry_value h = he_key" by (simp add: entry_value_def fun_eq_iff)
    show thesis
      using sets.put_each_content [of q "hm_entries h" e] q(2,4) small merge_put_each(2) [OF assms(1), of e q] HASHMAP_TYPE_SET content
      by (auto simp: ev q(3) intro!: that)
  qed
  then show ?thesis using q(1) at_first_wf [OF assms(1)] by (auto simp: internal_hashmap_copy_def)
qed

theorem hashmap_copy_content_witness:
  "\<exists>c h'. internal_hashmap_copy demo_hash_env demo_table = Ret (Some c, h') \<and> hm_wf c \<and> hm_map c 1 = Some 2"
  using hashmap_copy_content [OF demo_table_ok(1), of demo_hash_env] demo_table_ok(4,5)
  by (auto simp: demo_hash_env_def split: option.splits)

end
