(* ===== verification/Hashmap_Trace.thy ===== *)
theory Hashmap_Trace
  imports Hashmap_Merge
begin

text \<open>
  Sequences of operations on a hash map, and the same operations on a map of keys to values: the
  hash map refines the map.
\<close>

datatype 'p hm_op = Op_put 'p 'p | Op_replace 'p 'p | Op_update 'p 'p | Op_get 'p | Op_contains 'p | Op_remove 'p | Op_clear

datatype 'p hm_answer = Code int | Value "'p option" | Found bool

fun hm_step :: "hashmap_env \<Rightarrow> 'p hm_op \<Rightarrow> 'p HashmapBase \<Rightarrow> ('p hm_answer \<times> 'p HashmapBase) outcome" where
  "hm_step e (Op_put k v) h = obind (hashmap_put e h k v) (\<lambda>(r, h). Ret (Code r, h))"
| "hm_step e (Op_replace k v) h = obind (hashmap_replace e h k v) (\<lambda>(r, h). Ret (Code r, h))"
| "hm_step e (Op_update k v) h = obind (hashmap_update h k v) (\<lambda>(r, h). Ret (Code r, h))"
| "hm_step e (Op_get k) h = obind (internal_hashmap_get (Some h) k) (\<lambda>v. Ret (Value v, h))"
| "hm_step e (Op_contains k) h = obind (internal_hashmap_contains (Some h) k) (\<lambda>b. Ret (Found b, h))"
| "hm_step e (Op_remove k) h = obind (internal_hashmap_remove (Some h) k) (\<lambda>(v, h). Ret (Value v, the h))"
| "hm_step e Op_clear h = obind (internal_hashmap_clear (Some h)) (\<lambda>h. Ret (Code 0, the h))"

fun hm_run :: "hashmap_env \<Rightarrow> 'p hm_op list \<Rightarrow> 'p HashmapBase \<Rightarrow> ('p hm_answer list \<times> 'p HashmapBase) outcome" where
  "hm_run e [] h = Ret ([], h)"
| "hm_run e (p # ps) h = obind (hm_step e p h) (\<lambda>(a, h). obind (hm_run e ps h) (\<lambda>(as, h). Ret (a # as, h)))"

text \<open>The operations on a map whose keys are compared with \<open>eq\<close>.\<close>

definition map_upd :: "('p \<Rightarrow> 'p \<Rightarrow> bool) \<Rightarrow> ('p \<Rightarrow> 'p option) \<Rightarrow> 'p \<Rightarrow> 'p option \<Rightarrow> 'p \<Rightarrow> 'p option" where
  "map_upd eq m k v = (\<lambda>k'. if eq k k' then v else m k')"

fun map_step :: "('p \<Rightarrow> 'p \<Rightarrow> bool) \<Rightarrow> 'p hm_op \<Rightarrow> ('p \<Rightarrow> 'p option) \<Rightarrow> 'p hm_answer \<times> ('p \<Rightarrow> 'p option)" where
  "map_step eq (Op_put k v) m =
     (case m k of Some w \<Rightarrow> (Code (if w = v then 0 else - EEXIST), m) | None \<Rightarrow> (Code 1, map_upd eq m k (Some v)))"
| "map_step eq (Op_replace k v) m = (Code (if m k = None then 1 else 0), map_upd eq m k (Some v))"
| "map_step eq (Op_update k v) m = (case m k of None \<Rightarrow> (Code (- ENOENT), m) | Some w \<Rightarrow> (Code 0, map_upd eq m k (Some v)))"
| "map_step eq (Op_get k) m = (Value (m k), m)"
| "map_step eq (Op_contains k) m = (Found (m k \<noteq> None), m)"
| "map_step eq (Op_remove k) m = (Value (m k), map_upd eq m k None)"
| "map_step eq Op_clear m = (Code 0, \<lambda>_. None)"

fun map_run :: "('p \<Rightarrow> 'p \<Rightarrow> bool) \<Rightarrow> 'p hm_op list \<Rightarrow> ('p \<Rightarrow> 'p option) \<Rightarrow> 'p hm_answer list \<times> ('p \<Rightarrow> 'p option)" where
  "map_run eq [] m = ([], m)"
| "map_run eq (p # ps) m = (let (a, m) = map_step eq p m; (as, m) = map_run eq ps m in (a # as, m))"

lemma contains_refines:
  assumes "hm_wf h"
  shows "internal_hashmap_contains (Some h) k = Ret (hm_map h k \<noteq> None)"
  using scan_finds [OF assms, of k] by (auto simp: internal_hashmap_contains_def hm_map_def split: option.splits)

lemma put_refines:
  assumes "hm_wf h" "hb_type h = HASHMAP_TYPE_PLAIN" "n_entries h + 1 < 2 ^ 26" "\<And>n. alloc_ok e n"
  shows "\<exists>h'. hashmap_put e h k v = Ret (case hm_map h k of Some w \<Rightarrow> if w = v then 0 else - EEXIST | None \<Rightarrow> 1, h') \<and> hm_wf h' \<and>
    hb_hash_ops h' = hb_hash_ops h \<and> hb_type h' = hb_type h \<and> n_entries h' \<le> n_entries h + 1 \<and>
    hm_map h' = (if hm_map h k = None then map_upd (same_key h) (hm_map h) k (Some v) else hm_map h)"
proof -
  have ev: "entry_value h = he_value" using assms(2) by (simp add: entry_value_def fun_eq_iff)
  have m: "hm_map h k = map_option he_value (hm_find h k)" by (simp add: hm_map_def ev)
  obtain r h' where r: "hashmap_put e h k v = Ret (r, h')"
      "case hm_find h k of Some x \<Rightarrow> h' = h \<and> r = (if he_value x = v then 0 else - EEXIST)
       | None \<Rightarrow> r = 1 \<and> added h \<lparr>he_key = k, he_value = v\<rparr> h'"
    using put_cases(1) [OF assms(1,3), of e k v] assms(4) by (cases "hm_find h k") auto
  show ?thesis
  proof (cases "hm_find h k")
    case None
    then have a: "r = 1" "added h \<lparr>he_key = k, he_value = v\<rparr> h'" using r(2) by simp_all
    have "hm_map h' = map_upd (same_key h) (hm_map h) k (Some v)"
      using added_map(1) [OF assms(1) a(2)] by (simp add: ev map_upd_def fun_eq_iff)
    then show ?thesis using r(1) a None m by (simp add: added_def)
  next
    case (Some x)
    then show ?thesis using r m assms(1) by auto
  qed
qed

lemma step_refines:
  assumes "hm_wf h" "hb_type h = HASHMAP_TYPE_PLAIN" "n_entries h + 1 < 2 ^ 26" "\<And>n. alloc_ok e n"
  shows "\<exists>h'. hm_step e p h = Ret (fst (map_step (same_key h) p (hm_map h)), h') \<and> hm_wf h' \<and> hb_hash_ops h' = hb_hash_ops h \<and>
    hb_type h' = hb_type h \<and> n_entries h' \<le> n_entries h + 1 \<and> hm_map h' = snd (map_step (same_key h) p (hm_map h))"
proof (cases p)
  case (Op_put k v)
  then show ?thesis using put_refines [OF assms, of k v] by (auto split: option.splits)
next
  case (Op_replace k v)
  then show ?thesis using hashmap_replace_refines [OF assms, of k v] by (auto simp: map_upd_def)
next
  case (Op_update k v)
  then show ?thesis using hashmap_update_refines [OF assms(1,2), of k v] by (auto simp: map_upd_def split: option.splits)
next
  case (Op_get k)
  then show ?thesis using hashmap_get_refines [OF assms(1), of k] assms by simp
next
  case (Op_contains k)
  then show ?thesis using contains_refines [OF assms(1), of k] assms by simp
next
  case (Op_remove k)
  then show ?thesis using hashmap_remove_refines [OF assms(1), of k] by (auto simp: map_upd_def)
next
  case Op_clear
  then show ?thesis using clear_refines [OF assms(1)] by auto
qed

text \<open>
  C12.  The hash map refines a map: any sequence of putting, replacing, updating, looking up, testing, removing and clearing gives, answer by answer, what the same sequence gives on the map that is the table's content, and ends in a well-formed table whose content is the map at the end; growing, rehashing, displacing and shifting entries do not show.  This is for plain maps (not sets), with fewer than \<open>2 ^ 26\<close> entries throughout, and when allocations succeed.
\<close>

theorem hashmap_trace_refines:
  assumes "hm_wf h" "hb_type h = HASHMAP_TYPE_PLAIN" "n_entries h + length ps < 2 ^ 26" "\<And>n. alloc_ok e n"
  shows "\<exists>h'. hm_run e ps h = Ret (fst (map_run (same_key h) ps (hm_map h)), h') \<and> hm_wf h' \<and> hm_map h' = snd (map_run (same_key h) ps (hm_map h))"
  using assms(1-3)
proof (induction ps arbitrary: h)
  case (Cons p ps)
  have "n_entries h + 1 < 2 ^ 26" using Cons.prems(3) by simp
  then obtain h1 where h1: "hm_step e p h = Ret (fst (map_step (same_key h) p (hm_map h)), h1)" "hm_wf h1" "hb_hash_ops h1 = hb_hash_ops h"
      "hb_type h1 = hb_type h" "n_entries h1 \<le> n_entries h + 1" "hm_map h1 = snd (map_step (same_key h) p (hm_map h))"
    using step_refines [OF Cons.prems(1,2) _ assms(4), of p] by blast
  have "same_key h1 = same_key h" using h1(3) by (simp add: same_key_def fun_eq_iff)
  then show ?case using Cons.IH [OF h1(2)] h1 Cons.prems(2,3) by (auto simp: split_beta Let_def)
qed simp

theorem hashmap_trace_refines_witness:
  "\<exists>h'. hm_run demo_hash_env [Op_put 5 6, Op_get 1, Op_remove 1, Op_contains 1] demo_table = Ret ([Code 1, Value (Some 2), Value (Some 2), Found False], h')"
proof -
  have eq: "same_key demo_table a b \<longleftrightarrow> a = b" for a b
    by (auto simp: same_key_def demo_table_ok(3) trivial_hash_ops_def trivial_compare_func_def)
  let ?ps = "[Op_put 5 6, Op_get 1, Op_remove 1, Op_contains (1 :: u64)]"
  have "fst (map_run (same_key demo_table) ?ps (hm_map demo_table)) = [Code 1, Value (Some 2), Value (Some 2), Found False]"
    by (simp add: eq map_upd_def demo_table_ok(5))
  moreover have "alloc_ok demo_hash_env n" "n_entries demo_table + length ?ps < 2 ^ 26" for n by (simp_all add: demo_hash_env_def demo_table_ok(4))
  ultimately show ?thesis
    using hashmap_trace_refines [OF demo_table_ok(1,2), of ?ps demo_hash_env] by auto
qed

end
