(* ===== verification/In_Addr.thy ===== *)
theory In_Addr
  imports Siphash Socket_Addr
begin

text \<open>
  \<open>src/share/in-addr-util.c\<close>: addresses of either family, their networks and their textual form.
  \<open>union in_addr_union\<close> is its 16 bytes, of which an IPv4 address takes the first four, in
  network byte order.  A shift by more than the width of the type, which is undefined in C, and
  \<open>__builtin_ctz(0)\<close> are \<open>Abort\<close>.
\<close>

unbundle bit_operations_syntax

type_synonym in_addr_union = "u8 list"

abbreviation (input) EAFNOSUPPORT :: int where "EAFNOSUPPORT \<equiv> 97"

section \<open>Addresses\<close>

definition FAMILY_ADDRESS_SIZE :: "int \<Rightarrow> nat outcome" where
  "FAMILY_ADDRESS_SIZE family = c_assert (family = AF_INET \<or> family = AF_INET6) (Ret (if family = AF_INET6 then 16 else 4))"

definition s_addr :: "in_addr_union \<Rightarrow> u32" where
  \<comment> \<open>\<open>be32toh(u->in.s_addr)\<close>\<close>
  "s_addr u = unaligned_read_be32 u"

definition set_s_addr :: "u32 \<Rightarrow> in_addr_union \<Rightarrow> in_addr_union" where
  \<comment> \<open>\<open>u->in.s_addr = htobe32(n)\<close>\<close>
  "set_s_addr n u = unaligned_write_be32 n @ drop 4 u"

definition in4_addr_is_null :: "in_addr_union \<Rightarrow> bool" where
  "in4_addr_is_null a \<longleftrightarrow> s_addr a = 0"

definition in6_addr_is_null :: "in_addr_union \<Rightarrow> bool" where
  "in6_addr_is_null a \<longleftrightarrow> list_all (\<lambda>b. b = 0) a"

definition by_family :: "int \<Rightarrow> 'a \<Rightarrow> 'a \<Rightarrow> 'a \<Rightarrow> 'a" where
  \<comment> \<open>the branches that most functions take\<close>
  "by_family family v4 v6 none = (if family = AF_INET then v4 else if family = AF_INET6 then v6 else none)"

definition in_addr_is_null :: "int \<Rightarrow> in_addr_union \<Rightarrow> int" where
  "in_addr_is_null family u = by_family family (of_bool (in4_addr_is_null u)) (of_bool (in6_addr_is_null u)) (- EAFNOSUPPORT)"

definition in_addr_is_link_local :: "int \<Rightarrow> in_addr_union \<Rightarrow> int" where
  \<comment> \<open>\<open>IN6_IS_ADDR_LINKLOCAL\<close>: fe80::/10\<close>
  "in_addr_is_link_local family u =
     by_family family (of_bool (s_addr u AND 0xFFFF0000 = push_bit 24 169 OR push_bit 16 254))
       (of_bool (s_addr u AND 0xffc00000 = 0xfe800000)) (- EAFNOSUPPORT)"

definition in_addr_is_localhost :: "int \<Rightarrow> in_addr_union \<Rightarrow> int" where
  \<comment> \<open>\<open>IN6_IS_ADDR_LOOPBACK\<close>: ::1\<close>
  "in_addr_is_localhost family u =
     by_family family (of_bool (s_addr u AND 0xFF000000 = push_bit 24 127)) (of_bool (u = replicate 15 0 @ [1])) (- EAFNOSUPPORT)"

definition in_addr_equal :: "int \<Rightarrow> in_addr_union \<Rightarrow> in_addr_union \<Rightarrow> int" where
  "in_addr_equal family a b = by_family family (of_bool (s_addr a = s_addr b)) (of_bool (a = b)) (- EAFNOSUPPORT)"

section \<open>Networks\<close>

definition high_bits :: "nat \<Rightarrow> u32" where
  \<comment> \<open>\<open>0xFFFFFFFFUL << (32 - m)\<close>\<close>
  "high_bits m = push_bit (32 - m) 0xFFFFFFFF"

definition high_bits8 :: "nat \<Rightarrow> u8" where
  \<comment> \<open>the mask of a byte of which \<open>m\<close> bits are still in the prefix\<close>
  "high_bits8 m = (if m < 8 then push_bit (8 - m) 0xFF else 0xFF)"

fun prefix_intersect6 :: "nat \<Rightarrow> (u8 \<times> u8) list \<Rightarrow> int" where
  "prefix_intersect6 m [] = 1"
| "prefix_intersect6 m ((a, b) # ps) =
     (if (a XOR b) AND high_bits8 m \<noteq> 0 then 0 else prefix_intersect6 (if 8 < m then m - 8 else 0) ps)"

definition in_addr_prefix_intersect :: "int \<Rightarrow> in_addr_union \<Rightarrow> nat \<Rightarrow> in_addr_union \<Rightarrow> nat \<Rightarrow> int outcome" where
  "in_addr_prefix_intersect family a aprefixlen b bprefixlen =
     (let m = min aprefixlen bprefixlen
      in by_family family
          (c_assert (m \<le> 32) (Ret (of_bool ((s_addr a XOR s_addr b) AND (if m = 0 then 0 else high_bits m) = 0))))
          (Ret (prefix_intersect6 (if 128 < m then 128 else m) (zip a b)))
          (Ret (- EAFNOSUPPORT)))"

fun prefix_next6 :: "(u8 \<times> u8) list \<Rightarrow> u8 \<Rightarrow> u8 list \<times> u8" where
  \<comment> \<open>the bytes from the last to the first, and the overflow\<close>
  "prefix_next6 [] overflow = ([], overflow)"
| "prefix_next6 ((u, a) # ps) overflow =
     (let r = u + a + overflow; (rs, ov) = prefix_next6 ps (if r < u then 1 else 0) in (r # rs, ov))"

definition in_addr_prefix_next :: "int \<Rightarrow> in_addr_union \<Rightarrow> nat \<Rightarrow> int \<times> in_addr_union" where
  "in_addr_prefix_next family u prefixlen =
     (if prefixlen = 0 then (0, u)
      else by_family family
        (let p = (if 32 < prefixlen then 32 else prefixlen); c = s_addr u; n = c + push_bit (32 - p) 1
         in if n < c then (0, u) else (1, set_s_addr (n AND high_bits p) u))
        (let p = (if 128 < prefixlen then 128 else prefixlen);
             add = (replicate 16 0)[(p - 1) div 8 := push_bit (7 - (p - 1) mod 8) 1];
             (result, overflow) = prefix_next6 (rev (zip u add)) 0
         in if overflow \<noteq> 0 then (0, u) else (1, rev result))
        (- EAFNOSUPPORT, u))"

definition u32ctz :: "u32 \<Rightarrow> nat outcome" where
  "u32ctz n = c_assert (n \<noteq> 0) (Ret (length (takeWhile (\<lambda>i. \<not> bit n i) [0..<32])))"

definition in_addr_netmask_to_prefixlen :: "in_addr_union \<Rightarrow> nat outcome" where
  "in_addr_netmask_to_prefixlen addr = obind (u32ctz (s_addr addr)) (\<lambda>z. Ret (32 - z))"

definition in_addr_prefixlen_to_netmask :: "in_addr_union \<Rightarrow> nat \<Rightarrow> in_addr_union outcome" where
  "in_addr_prefixlen_to_netmask addr prefixlen =
     c_assert (prefixlen \<le> 32) (Ret (set_s_addr (if prefixlen = 0 then 0 else high_bits prefixlen) addr))"

definition in_addr_default_prefixlen :: "in_addr_union \<Rightarrow> int + nat" where
  "in_addr_default_prefixlen addr =
     (let msb_octet = hd addr
      in if msb_octet < 128 then Inr 8 else if msb_octet < 192 then Inr 16 else if msb_octet < 224 then Inr 24 else Inl (- ERANGE))"

definition in_addr_default_subnet_mask :: "in_addr_union \<Rightarrow> in_addr_union \<Rightarrow> (int \<times> in_addr_union) outcome" where
  "in_addr_default_subnet_mask addr ret =
     (case in_addr_default_prefixlen addr of
        Inl r \<Rightarrow> Ret (r, ret)
      | Inr p \<Rightarrow> obind (in_addr_prefixlen_to_netmask ret p) (\<lambda>m. Ret (0, m)))"

fun mask6 :: "nat \<Rightarrow> u8 list \<Rightarrow> u8 list" where
  "mask6 p [] = []"
| "mask6 p (b # bs) = (b AND high_bits8 p) # mask6 (if 8 \<le> p then p - 8 else 0) bs"

definition in_addr_mask :: "int \<Rightarrow> in_addr_union \<Rightarrow> nat \<Rightarrow> (int \<times> in_addr_union) outcome" where
  "in_addr_mask family addr prefixlen =
     by_family family
       (obind (in_addr_prefixlen_to_netmask (replicate 16 0) prefixlen) (\<lambda>m. Ret (0, set_s_addr (s_addr addr AND s_addr m) addr)))
       (Ret (0, mask6 prefixlen addr))
       (Ret (- EAFNOSUPPORT, addr))"

section \<open>Text\<close>

definition inet_ntop :: "net_names \<Rightarrow> int \<Rightarrow> in_addr_union \<Rightarrow> string" where
  \<comment> \<open>\<open>inet_ntop\<close> with a buffer that is large enough\<close>
  "inet_ntop ns family u =
     by_family family (dotted_quad (unat (u ! 0)) (unat (u ! 1)) (unat (u ! 2)) (unat (u ! 3))) (inet_ntop6 ns u) []"

definition in_addr_to_string :: "net_names \<Rightarrow> int \<Rightarrow> in_addr_union \<Rightarrow> string result" where
  "in_addr_to_string ns family u = (if inet_family family then Inr (inet_ntop ns family u) else Inl (- EAFNOSUPPORT))"

definition in_addr_ifindex_to_string :: "net_names \<Rightarrow> int \<Rightarrow> in_addr_union \<Rightarrow> int \<Rightarrow> string result" where
  "in_addr_ifindex_to_string ns family u ifindex =
     (if family \<noteq> AF_INET6 \<or> ifindex \<le> 0 then in_addr_to_string ns family u
      else let r = in_addr_is_link_local family u
           in if r < 0 then Inl r
              else if r = 0 then in_addr_to_string ns family u
              else Inr (inet_ntop ns family u @ ''%'' @ dec_of_nat (nat ifindex)))"

definition inet_pton :: "net_names \<Rightarrow> int \<Rightarrow> string \<Rightarrow> in_addr_union option \<Rightarrow> in_addr_union option" where
  \<comment> \<open>\<open>None\<close>: not an address of the family; else the bytes of the address are stored\<close>
  "inet_pton ns family s ret =
     by_family family (map_option (\<lambda>a. set_s_addr a (the ret)) (inet_pton4 s)) (inet_pton6 ns s) None"

text \<open>The pointers that a caller may pass as null are options; the assertions look at them.\<close>

definition in_addr_from_string :: "net_names \<Rightarrow> int \<Rightarrow> string \<Rightarrow> in_addr_union option \<Rightarrow> (int \<times> in_addr_union option) outcome" where
  "in_addr_from_string ns family s ret =
     c_assert (ret \<noteq> None)
      (if \<not> inet_family family then Ret (- EAFNOSUPPORT, ret)
       else case inet_pton ns family s ret of None \<Rightarrow> Ret (- EINVAL, ret) | Some u \<Rightarrow> Ret (0, Some u))"

definition in_addr_from_string_auto :: "net_names \<Rightarrow> string \<Rightarrow> int option \<Rightarrow> in_addr_union option \<Rightarrow> (int \<times> int option \<times> in_addr_union option) outcome" where
  "in_addr_from_string_auto ns s family ret =
     c_assert (family \<noteq> None) (c_assert (ret \<noteq> None)
      (obind (in_addr_from_string ns AF_INET s ret) (\<lambda>(r, ret).
         if 0 \<le> r then Ret (0, Some AF_INET, ret)
         else obind (in_addr_from_string ns AF_INET6 s ret) (\<lambda>(r, ret).
           if 0 \<le> r then Ret (0, Some AF_INET6, ret) else Ret (- EINVAL, family, ret)))))"

definition in_addr_ifindex_from_string_auto :: "net_names \<Rightarrow> int \<Rightarrow> string \<Rightarrow> int option \<Rightarrow> in_addr_union option \<Rightarrow> int option \<Rightarrow>
    (int \<times> int option \<times> in_addr_union option \<times> int option) outcome" where
  \<comment> \<open>the second argument is the \<open>errno\<close> of a failing \<open>if_nametoindex\<close>\<close>
  "in_addr_ifindex_from_string_auto ns err s family ret ifindex =
     c_assert (family \<noteq> None) (c_assert (ret \<noteq> None)
      (let scope = (case strchr s CHR ''%'' of
             None \<Rightarrow> Inr (0, s)
           | Some suffix \<Rightarrow>
               let host = take (length s - length suffix) s
               in if ifindex = None then Inr (0, host)
                  else (case parse_ifindex (tl suffix) of
                          Inr i \<Rightarrow> Inr (i, host)
                        | Inl r \<Rightarrow> (let u = if_nametoindex ns (tl suffix) in if u = 0 then Inl (- err) else Inr (sint u, host))))
       in case scope of
            Inl r \<Rightarrow> Ret (r, family, ret, ifindex)
          | Inr (ifi, host) \<Rightarrow>
              obind (in_addr_from_string_auto ns host family ret) (\<lambda>(r, family, ret).
                Ret (r, family, ret, if r < 0 then ifindex else map_option (\<lambda>_. ifi) ifindex))))"

section \<open>Facts\<close>

lemma bit_read_be32:
  "bit (unaligned_read_be32 (b0 # b1 # b2 # b3 # u)) n \<longleftrightarrow>
     (if n < 8 then bit b3 n else if n < 16 then bit b2 (n - 8) else if n < 24 then bit b1 (n - 16) else n < 32 \<and> bit b0 (n - 24))"
proof -
  have r: "bit b n \<Longrightarrow> n < 8" for b :: u8 and n using bit_imp_le_length by fastforce
  have r16: "bit (unaligned_read_be16 (x # y # zs)) n \<longleftrightarrow> (if n < 8 then bit y n else n < 16 \<and> bit x (n - 8))" for x y zs n
    by (auto simp: unaligned_read_be16_def bit_or_iff bit_push_bit_iff bit_unsigned_iff dest: r)
  have "bit (unaligned_read_be32 (b0 # b1 # b2 # b3 # u)) n \<longleftrightarrow>
      16 \<le> n \<and> n < 32 \<and> bit (unaligned_read_be16 (b0 # b1 # b2 # b3 # u)) (n - 16) \<or> n < 32 \<and> bit (unaligned_read_be16 (b2 # b3 # u)) n"
    by (auto simp: unaligned_read_be32_def bit_or_iff bit_push_bit_iff bit_unsigned_iff numeral_2_eq_2)
  then show ?thesis unfolding r16 by (auto simp: not_less)
qed

lemma be32_write: "unaligned_read_be32 (unaligned_write_be32 a @ u) = a"
proof (rule bit_word_eqI)
  fix n assume "n < LENGTH(32)"
  then have n: "n < 32" by simp
  have "unaligned_write_be32 a @ u = ucast (drop_bit 8 (ucast (drop_bit 16 a) :: u16)) # ucast (ucast (drop_bit 16 a) :: u16) #
      ucast (drop_bit 8 (ucast a :: u16)) # ucast (ucast a :: u16) # u"
    by (simp add: unaligned_defs)
  then show "bit (unaligned_read_be32 (unaligned_write_be32 a @ u)) n = bit a n"
    using n by (simp add: bit_read_be32 bit_unsigned_iff bit_drop_bit_eq) auto
qed

lemma s_addr_set [simp]: "s_addr (set_s_addr n u) = n"
  by (simp add: s_addr_def set_s_addr_def be32_write)

lemma set_s_addr_length [simp]: "4 \<le> length u \<Longrightarrow> length (set_s_addr n u) = length u"
  by (simp add: set_s_addr_def unaligned_defs)

lemma set_s_addr_eq: "set_s_addr a u = set_s_addr b v \<longleftrightarrow> a = b \<and> drop 4 u = drop 4 v"
proof
  assume e: "set_s_addr a u = set_s_addr b v"
  have "a = s_addr (set_s_addr a u)" "b = s_addr (set_s_addr b v)" by simp_all
  then show "a = b \<and> drop 4 u = drop 4 v" using e by (simp add: set_s_addr_def unaligned_defs)
qed (simp add: set_s_addr_def)

lemma bit_high_bits: "m \<le> 32 \<Longrightarrow> bit (high_bits m) i \<longleftrightarrow> 32 - m \<le> i \<and> i < 32"
proof -
  have e: "(0xFFFFFFFF :: u32) = mask 32" by (simp add: mask_eq_exp_minus_1)
  assume "m \<le> 32"
  then show ?thesis unfolding high_bits_def e by (auto simp: bit_push_bit_iff bit_mask_iff)
qed

lemma high_bits_min: "p \<le> 32 \<Longrightarrow> q \<le> 32 \<Longrightarrow> high_bits p AND high_bits q = high_bits (min p q)"
  by (rule bit_eqI) (auto simp: bit_and_iff bit_high_bits min_def)

lemma xor_and_eq_0: "(x XOR y) AND n = 0 \<longleftrightarrow> x AND n = y AND (n :: 'a::len word)"
  by (auto simp: bit_eq_iff bit_simps)

lemma bit_high_bits8: "bit (high_bits8 m) i \<longleftrightarrow> i < 8 \<and> 8 - m \<le> i"
proof -
  have e: "(0xFF :: u8) = mask 8" by (simp add: mask_eq_exp_minus_1)
  show ?thesis unfolding high_bits8_def e by (auto simp: bit_push_bit_iff bit_mask_iff)
qed

lemma high_bits8_min: "high_bits8 p AND high_bits8 q = high_bits8 (min p q)"
  by (rule bit_eqI) (auto simp: bit_and_iff bit_high_bits8 min_def)

lemma mask6_length [simp]: "length (mask6 p u) = length u"
  by (induction p u rule: mask6.induct) simp_all

lemma mask6_min: "mask6 p (mask6 q u) = mask6 (min p q) u"
proof (induction u arbitrary: p q)
  case (Cons b u)
  have "min (if 8 \<le> p then p - 8 else 0) (if 8 \<le> q then q - 8 else 0) = (if 8 \<le> min p q then min p q - 8 else 0)" by (simp add: min_def)
  moreover have "(b AND high_bits8 q) AND high_bits8 p = b AND high_bits8 (min p q)"
    by (simp add: and.assoc high_bits8_min min.commute)
  ultimately show ?case using Cons by simp
qed simp

lemma prefix_intersect6_mask:
  "length a = length b \<Longrightarrow> prefix_intersect6 m (zip a b) = of_bool (mask6 m a = mask6 m b)"
proof (induction a b arbitrary: m rule: list_induct2)
  case (Cons x a y b)
  have "(if 8 < m then m - 8 else 0) = (if 8 \<le> m then m - 8 else 0)" by simp
  then show ?case using Cons by (simp add: xor_and_eq_0)
qed simp

lemma mask6_all: "mask6 p u = mask6 (min p (8 * length u)) u"
proof (induction u arbitrary: p)
  case (Cons b u)
  let ?p = "if 8 \<le> p then p - 8 else 0" let ?q = "min p (8 * length (b # u))"
  have "high_bits8 ?q = high_bits8 p" by (rule bit_eqI) (auto simp: bit_high_bits8 min_def)
  moreover have "(if 8 \<le> ?q then ?q - 8 else 0) = min ?p (8 * length u)" by (auto simp: min_def)
  ultimately show ?case using Cons [of ?p] by (simp only: mask6.simps)
qed simp

text \<open>The network of an address: the bytes of its family, masked.\<close>

definition network :: "int \<Rightarrow> in_addr_union \<Rightarrow> nat \<Rightarrow> u8 list option" where
  "network family u p =
     (case in_addr_mask family u p of Ret (r, v) \<Rightarrow> if r < 0 then None else Some (take (if family = AF_INET then 4 else 16) v) | _ \<Rightarrow> None)"

lemma network4: "p \<le> 32 \<Longrightarrow> network AF_INET u p = Some (unaligned_write_be32 (s_addr u AND high_bits p))"
proof -
  assume p: "p \<le> 32"
  have "high_bits 0 = 0" by (rule bit_eqI) (simp add: bit_high_bits)
  then have "in_addr_mask AF_INET u p = Ret (0, set_s_addr (s_addr u AND high_bits p) u)"
    using p by (cases "p = 0") (simp_all add: in_addr_mask_def by_family_def in_addr_prefixlen_to_netmask_def c_assert_def)
  then show ?thesis by (simp add: network_def set_s_addr_def unaligned_defs)
qed

lemma network6: "length u = 16 \<Longrightarrow> network AF_INET6 u p = Some (mask6 p u)"
  by (simp add: network_def in_addr_mask_def by_family_def)

text \<open>
  C32.  Two networks intersect, by the answer of \<open>in_addr_prefix_intersect\<close>, exactly when some address lies in both of them, for both address families.
\<close>

theorem in_addr_prefix_intersect_iff:
  assumes "inet_family family" "length a = 16" "length b = 16" "family = AF_INET \<longrightarrow> p \<le> 32 \<and> q \<le> 32"
  shows "in_addr_prefix_intersect family a p b q =
    Ret (of_bool (\<exists>c. length c = 16 \<and> network family c p = network family a p \<and> network family c q = network family b q))"
proof (cases "family = AF_INET")
  case True
  then have pq: "p \<le> 32" "q \<le> 32" using assms(4) by simp_all
  have w: "unaligned_write_be32 x = unaligned_write_be32 y \<longleftrightarrow> x = y" for x y using be32_write [of _ "[]"] by (metis)
  have z: "high_bits 0 = 0" by (rule bit_eqI) (simp add: bit_high_bits)
  let ?m = "high_bits (min p q)"
  have andm: "x AND ?m = (x AND high_bits p) AND high_bits q" for x using high_bits_min [OF pq] by (simp add: and.assoc)
  have "(\<exists>c. length c = 16 \<and> s_addr c AND high_bits p = s_addr a AND high_bits p \<and> s_addr c AND high_bits q = s_addr b AND high_bits q) \<longleftrightarrow>
      s_addr a AND ?m = s_addr b AND ?m" (is "?L \<longleftrightarrow> ?R")
  proof
    assume ?L
    then obtain c where c: "s_addr c AND high_bits p = s_addr a AND high_bits p" "s_addr c AND high_bits q = s_addr b AND high_bits q" by blast
    have "s_addr a AND ?m = s_addr c AND ?m" unfolding andm c(1) ..
    also have "\<dots> = (s_addr c AND high_bits q) AND high_bits p" unfolding andm by (simp add: ac_simps)
    also have "\<dots> = s_addr b AND ?m" unfolding c(2) andm by (simp add: ac_simps)
    finally show ?R .
  next
    assume r: ?R
    show ?L
    proof (cases "p \<le> q")
      case True
      then show ?L using r assms(3) by (intro exI [of _ b]) (simp add: min_def)
    next
      case False
      then show ?L using r assms(2) by (intro exI [of _ a]) (simp add: min_def)
    qed
  qed
  moreover have "in_addr_prefix_intersect AF_INET a p b q = Ret (of_bool ((s_addr a XOR s_addr b) AND ?m = 0))"
    using pq z by (auto simp: in_addr_prefix_intersect_def by_family_def c_assert_def Let_def)
  ultimately show ?thesis using True by (simp add: network4 [OF pq(1)] network4 [OF pq(2)] w xor_and_eq_0)
next
  case False
  then have f: "family = AF_INET6" using assms(1) by (simp add: inet_family_def)
  let ?m = "min p q"
  have "(\<exists>c. length c = 16 \<and> mask6 p c = mask6 p a \<and> mask6 q c = mask6 q b) \<longleftrightarrow> mask6 ?m a = mask6 ?m b" (is "?L \<longleftrightarrow> ?R")
  proof
    assume ?L
    then show ?R by (metis mask6_min min.commute)
  next
    assume r: ?R
    show ?L
    proof (cases "p \<le> q")
      case True
      then show ?L using r assms(3) by (intro exI [of _ b]) (simp add: min_def)
    next
      case False
      then show ?L using r assms(2) by (intro exI [of _ a]) (simp add: min_def)
    qed
  qed
  moreover have "(if 128 < ?m then 128 else ?m) = min ?m (8 * 16)" by (simp add: min_def)
  then have "prefix_intersect6 (if 128 < ?m then 128 else ?m) (zip a b) = of_bool (mask6 ?m a = mask6 ?m b)"
    using assms(2,3) prefix_intersect6_mask [of a b "min ?m (8 * 16)"] mask6_all [of ?m a] mask6_all [of ?m b] by simp
  moreover have "(\<exists>c. length c = 16 \<and> network family c p = network family a p \<and> network family c q = network family b q) \<longleftrightarrow>
      (\<exists>c. length c = 16 \<and> mask6 p c = mask6 p a \<and> mask6 q c = mask6 q b)"
    using network6 assms(2,3) unfolding f by (metis option.inject)
  ultimately show ?thesis by (simp add: f in_addr_prefix_intersect_def by_family_def Let_def)
qed

section \<open>Masks and prefixes\<close>

lemma u32ctz_high_bits:
  assumes "0 < p" "p \<le> 32"
  shows "u32ctz (high_bits p) = Ret (32 - p)"
proof -
  have b: "bit (high_bits p) i \<longleftrightarrow> 32 - p \<le> i \<and> i < 32" for i using assms(2) by (rule bit_high_bits)
  have "bit (high_bits p) 31" using assms b by simp
  then have nz: "high_bits p \<noteq> 0" by auto
  have "[0..<32] = [0..<32 - p] @ [32 - p..<32]" using upt_add_eq_append [of 0 "32 - p" p] assms(2) by simp
  moreover have "[32 - p..<32] = (32 - p) # [Suc (32 - p)..<32]" using assms by (intro upt_conv_Cons) simp
  ultimately have "takeWhile (\<lambda>i. \<not> bit (high_bits p) i) [0..<32] = [0..<32 - p]"
    using assms by (simp add: takeWhile_append b del: upt_Suc)
  then show ?thesis using nz by (simp add: u32ctz_def c_assert_def)
qed

lemma netmask_roundtrip:
  assumes "p \<le> 32"
  shows "obind (in_addr_prefixlen_to_netmask u p) in_addr_netmask_to_prefixlen = (if p = 0 then Abort else Ret p)"
proof (cases "p = 0")
  case True
  then show ?thesis by (simp add: in_addr_prefixlen_to_netmask_def in_addr_netmask_to_prefixlen_def c_assert_def u32ctz_def)
next
  case False
  then show ?thesis
    using assms u32ctz_high_bits [of p] by (simp add: in_addr_prefixlen_to_netmask_def in_addr_netmask_to_prefixlen_def c_assert_def)
qed

theorem in_addr_prefix_intersect_iff_witness:
  "(\<exists>c. length c = 16 \<and> network AF_INET c 8 = network AF_INET (10 # replicate 15 0) 8 \<and>
      network AF_INET c 16 = network AF_INET (10 # 1 # replicate 14 0) 16) \<and>
   \<not> (\<exists>c. length c = 16 \<and> network AF_INET c 16 = network AF_INET (10 # replicate 15 0) 16 \<and>
      network AF_INET c 16 = network AF_INET (10 # 1 # replicate 14 0) 16)"
proof -
  have "in_addr_prefix_intersect AF_INET (10 # replicate 15 0) 8 (10 # 1 # replicate 14 0) 16 = Ret 1"
    "in_addr_prefix_intersect AF_INET (10 # replicate 15 0) 16 (10 # 1 # replicate 14 0) 16 = Ret 0"
    by code_simp+
  then show ?thesis
    using in_addr_prefix_intersect_iff [of AF_INET "10 # replicate 15 0" "10 # 1 # replicate 14 0" 8 16]
      in_addr_prefix_intersect_iff [of AF_INET "10 # replicate 15 0" "10 # 1 # replicate 14 0" 16 16]
    by (simp add: inet_family_def of_bool_eq_1_iff)
qed

text \<open>The number that the bytes of an address stand for, the last byte first.\<close>

fun le_value :: "u8 list \<Rightarrow> nat" where
  "le_value [] = 0"
| "le_value (b # bs) = unat b + 256 * le_value bs"

definition addr_value :: "in_addr_union \<Rightarrow> nat" where
  "addr_value u = le_value (rev u)"

lemma unat_byte: "unat (b :: u8) < 256"
  using unsigned_less [of b, where ?'a = nat] by simp

lemma byte_add:
  fixes u a :: u8
  assumes "unat a + unat ov \<le> 255" "ov = 0 \<or> ov = 1"
  shows "unat (u + a + ov) + 256 * (if u + a + ov < u then 1 else 0) = unat u + unat a + unat ov"
proof -
  have u: "unat u < 256" by (rule unat_byte)
  have s: "unat (u + a + ov) = (unat u + unat a + unat ov) mod 256" by (simp add: unat_word_ariths mod_simps)
  show ?thesis
  proof (cases "unat u + unat a + unat ov < 256")
    case True
    then show ?thesis using s by (simp add: word_less_nat_alt)
  next
    case False
    then have "(unat u + unat a + unat ov) mod 256 = unat u + unat a + unat ov - 256" using u assms(1) by (simp add: mod_if)
    then show ?thesis using s False assms(1) by (simp add: word_less_nat_alt)
  qed
qed

lemma prefix_next6_value:
  assumes "prefix_next6 ps ov = (rs, ov')" "\<forall>(u, a)\<in>set ps. unat a \<le> 128" "ov = 0 \<or> ov = 1"
  shows "le_value rs + 256 ^ length ps * unat ov' = le_value (map fst ps) + le_value (map snd ps) + unat ov \<and> length rs = length ps \<and>
    (ov' = 0 \<or> ov' = 1)"
  using assms
proof (induction ps ov arbitrary: rs ov' rule: prefix_next6.induct)
  case (2 u a ps ov)
  let ?r = "u + a + ov" let ?ov = "if ?r < u then 1 else 0 :: u8"
  obtain rs1 ov1 where r: "prefix_next6 ps ?ov = (rs1, ov1)" by fastforce
  then have eq: "rs = ?r # rs1" "ov' = ov1" using 2 by (simp_all add: Let_def)
  have IH: "le_value rs1 + 256 ^ length ps * unat ov1 = le_value (map fst ps) + le_value (map snd ps) + unat ?ov \<and> length rs1 = length ps \<and>
      (ov1 = 0 \<or> ov1 = 1)"
    using 2(1) [OF refl r] 2(3) by simp
  have "unat ov \<le> 1" using 2(4) by auto
  then have "unat ?r + 256 * (if ?r < u then 1 else 0) = unat u + unat a + unat ov" using 2(3,4) by (intro byte_add) auto
  moreover have "unat ?ov = (if ?r < u then 1 else 0)" by simp
  ultimately show ?case using IH by (simp add: eq algebra_simps)
qed simp

lemma le_value_less: "le_value bs < 256 ^ length bs"
proof (induction bs)
  case (Cons b bs)
  have "unat b < 256" by (rule unat_byte)
  then show ?case using Cons by simp
qed simp

lemma le_value_single: "le_value ((replicate n 0)[i := b]) = (if i < n then unat b * 256 ^ i else 0)"
proof (induction n arbitrary: i)
  case (Suc n)
  have "le_value (replicate n 0) = 0" for n by (induction n) simp_all
  then show ?case using Suc by (cases i) simp_all
qed simp

text \<open>
  C33.  The next network of a prefix is the address plus one unit of the prefix, whose host part is cleared for IPv4 and kept for IPv6; when the sum does not fit the address family, the answer is 0 and the address is unchanged.
\<close>

theorem in_addr_prefix_next_value:
  assumes p: "0 < p" "p \<le> 32" and q: "length u = 16" "0 < q" "q \<le> 128"
  shows "in_addr_prefix_next AF_INET u p =
      (if unat (s_addr u) + 2 ^ (32 - p) < 2 ^ 32 then (1, set_s_addr ((s_addr u + 2 ^ (32 - p)) AND high_bits p) u) else (0, u)) \<and>
    (case in_addr_prefix_next AF_INET6 u q of (r, v) \<Rightarrow>
      if addr_value u + 2 ^ (128 - q) < 2 ^ 128 then r = 1 \<and> length v = 16 \<and> addr_value v = addr_value u + 2 ^ (128 - q) else r = 0 \<and> v = u)"
proof
  have pb: "(push_bit (32 - p) 1 :: u32) = 2 ^ (32 - p)" by (simp add: push_bit_eq_mult)
  have "unat (2 ^ (32 - p) :: u32) = 2 ^ (32 - p)" using p by (intro unat_two_power) simp
  then have "s_addr u + 2 ^ (32 - p) < s_addr u \<longleftrightarrow> \<not> unat (s_addr u) + 2 ^ (32 - p) < 2 ^ 32"
    using no_olen_add_nat [of "s_addr u" "2 ^ (32 - p)"] by (simp add: not_le [symmetric])
  then show "in_addr_prefix_next AF_INET u p =
      (if unat (s_addr u) + 2 ^ (32 - p) < 2 ^ 32 then (1, set_s_addr ((s_addr u + 2 ^ (32 - p)) AND high_bits p) u) else (0, u))"
    using p by (simp add: in_addr_prefix_next_def by_family_def Let_def pb)
next
  note a = q
  let ?i = "(q - 1) div 8" let ?b = "push_bit (7 - (q - 1) mod 8) 1 :: u8" let ?add = "(replicate 16 0)[?i := ?b]"
  obtain rs ov where r: "prefix_next6 (rev (zip u ?add)) 0 = (rs, ov)" by fastforce
  have i: "?i < 16" using a by auto
  have b: "unat ?b = 2 ^ (7 - (q - 1) mod 8)"
  proof -
    have "7 - (q - 1) mod 8 < LENGTH(8)" by simp
    from unat_two_power [OF this] show ?thesis unfolding push_bit_eq_mult mult_1_left .
  qed
  then have b128: "unat ?b \<le> 128" using power_increasing [of "7 - (q - 1) mod 8" 7 "2::nat"] by simp
  have "\<forall>(x, y)\<in>set (rev (zip u ?add)). unat y \<le> 128"
    using b128 by (auto dest!: set_zip_rightD set_update_subset_insert [THEN subsetD])
  then have v: "le_value rs + 256 ^ 16 * unat ov = le_value (rev u) + le_value (rev ?add)" "length rs = 16" "ov = 0 \<or> ov = 1"
    using prefix_next6_value [OF r] a by (simp_all add: rev_map [symmetric])
  have "rev ?add = (replicate 16 0)[15 - ?i := ?b]" using i by (simp add: rev_update)
  then have "le_value (rev ?add) = unat ?b * 256 ^ (15 - ?i)" using i by (simp add: le_value_single)
  also have "\<dots> = 2 ^ (7 - (q - 1) mod 8) * 2 ^ (8 * (15 - ?i))" unfolding b by (simp add: power_mult)
  also have "\<dots> = 2 ^ (7 - (q - 1) mod 8 + 8 * (15 - ?i))" by (rule power_add [symmetric])
  also have "7 - (q - 1) mod 8 + 8 * (15 - ?i) = 128 - q"
  proof -
    have "x = 8 * d + m \<Longrightarrow> m < 8 \<Longrightarrow> d < 16 \<Longrightarrow> 7 - m + 8 * (15 - d) = 127 - x" for x d m :: nat by arith
    then have "7 - (q - 1) mod 8 + 8 * (15 - ?i) = 127 - (q - 1)" by this (use i in simp_all)
    also have "127 - (q - 1) = 128 - q" using a by arith
    finally show ?thesis .
  qed
  finally have add: "le_value (rev ?add) = 2 ^ (128 - q)" .
  have "le_value rs < 256 ^ 16" using le_value_less [of rs] v(2) by simp
  moreover have "(256::nat) ^ 16 = 2 ^ 128" by simp
  ultimately have "ov = 0 \<longleftrightarrow> addr_value u + 2 ^ (128 - q) < 2 ^ 128"
    using v add by (auto simp: addr_value_def)
  then show "case in_addr_prefix_next AF_INET6 u q of (r, v) \<Rightarrow>
      if addr_value u + 2 ^ (128 - q) < 2 ^ 128 then r = 1 \<and> length v = 16 \<and> addr_value v = addr_value u + 2 ^ (128 - q) else r = 0 \<and> v = u"
    using a r v add by (auto simp: in_addr_prefix_next_def by_family_def Let_def addr_value_def)
qed

theorem in_addr_prefix_next_value_witness:
  "in_addr_prefix_next AF_INET (9 # 255 # replicate 14 0) 8 = (1, 10 # 0 # replicate 14 0) \<and>
   (case in_addr_prefix_next AF_INET6 (replicate 16 255) 64 of (r, v) \<Rightarrow> r = 0 \<and> v = replicate 16 255)"
proof -
  have "in_addr_prefix_next AF_INET (9 # 255 # replicate 14 0) 8 = (1, 10 # 0 # replicate 14 0)" by code_simp
  moreover have "Suc (le_value (replicate n 255)) = 256 ^ n" for n by (induction n) simp_all
  from this [of 16] have "\<not> addr_value (replicate 16 255) + 2 ^ (128 - 64) < 2 ^ 128" by (simp add: addr_value_def)
  ultimately show ?thesis using in_addr_prefix_next_value [of 8 "replicate 16 255" 64] by simp
qed

end
