(* ===== verification/Hostname.thy ===== *)
theory Hostname
  imports In_Addr Extract_Word
begin

text \<open>
  \<open>src/share/hostname-util.c\<close> and \<open>src/share/dns-domain.c\<close>: host names as the kernel takes
  them, and domain names as sequences of labels in escaped notation.  A name is its bytes; a
  pointer into it is the suffix it addresses.  An output buffer is the bytes written to it.
\<close>

section \<open>Host names\<close>

definition HOST_NAME_MAX :: nat where "HOST_NAME_MAX = 64"
definition VALID_HOSTNAME_TRAILING_DOT :: u32 where "VALID_HOSTNAME_TRAILING_DOT = 1"
definition VALID_HOSTNAME_DOT_HOST :: u32 where "VALID_HOSTNAME_DOT_HOST = 2"

definition valid_ldh_char :: "char \<Rightarrow> bool" where
  "valid_ldh_char c \<longleftrightarrow> ascii_isalpha c \<or> ascii_isdigit c \<or> c = CHR ''-''"

text \<open>
  The loop of \<open>hostname_is_valid\<close>: \<open>None\<close> when it returns false, else its flags and the number
  of dots (a counter that wraps counts more dots than a name of valid length has).
\<close>

fun hostname_scan :: "string \<Rightarrow> bool \<Rightarrow> bool \<Rightarrow> nat \<Rightarrow> (bool \<times> bool \<times> nat) option" where
  "hostname_scan [] dot hyphen n_dots = Some (dot, hyphen, n_dots)"
| "hostname_scan (c # p) dot hyphen n_dots =
     (if c = CHR ''.'' then if dot \<or> hyphen then None else hostname_scan p True False (Suc n_dots)
      else if c = CHR ''-'' then if dot then None else hostname_scan p False True n_dots
      else if \<not> valid_ldh_char c then None else hostname_scan p False False n_dots)"

definition hostname_is_valid :: "string \<Rightarrow> u32 \<Rightarrow> bool" where
  "hostname_is_valid s flags =
     (if s = [] then False
      else if s = ''.host'' then flag flags VALID_HOSTNAME_DOT_HOST
      else case hostname_scan s True True 0 of
             None \<Rightarrow> False
           | Some (dot, hyphen, n_dots) \<Rightarrow>
               if dot \<and> (n_dots < 2 \<or> \<not> flag flags VALID_HOSTNAME_TRAILING_DOT) then False
               else if hyphen then False
               else \<not> HOST_NAME_MAX < length s)"

text \<open>The loop of \<open>hostname_cleanup\<close>; \<open>d\<close> is what has been written in front of the pointer \<open>p\<close>.\<close>

fun hostname_cleanup_loop :: "string \<Rightarrow> bool \<Rightarrow> bool \<Rightarrow> string \<Rightarrow> string" where
  "hostname_cleanup_loop [] dot hyphen d = d"
| "hostname_cleanup_loop (c # p) dot hyphen d =
     (if \<not> length d < HOST_NAME_MAX then d
      else if c = CHR ''.'' then
        if dot \<or> hyphen then hostname_cleanup_loop p dot hyphen d else hostname_cleanup_loop p True False (d @ [c])
      else if c = CHR ''-'' then
        if dot then hostname_cleanup_loop p dot hyphen d else hostname_cleanup_loop p False True (d @ [c])
      else if valid_ldh_char c then hostname_cleanup_loop p False False (d @ [c])
      else hostname_cleanup_loop p dot hyphen d)"

definition hostname_cleanup :: "string \<Rightarrow> string" where
  "hostname_cleanup s =
     (let d = hostname_cleanup_loop s True True []
      in if d \<noteq> [] \<and> (last d = CHR ''-'' \<or> last d = CHR ''.'') then butlast d else d)"

section \<open>Labels of domain names\<close>

definition DNS_LABEL_MAX :: nat where "DNS_LABEL_MAX = 63"
definition DNS_LABEL_ESCAPED_MAX :: nat where "DNS_LABEL_ESCAPED_MAX = DNS_LABEL_MAX * 4 + 1"
definition DNS_HOSTNAME_MAX :: nat where "DNS_HOSTNAME_MAX = 253"
definition DNS_LABEL_LDH :: u32 where "DNS_LABEL_LDH = 1"
definition DNS_LABEL_NO_ESCAPES :: u32 where "DNS_LABEL_NO_ESCAPES = 2"
definition DNS_LABEL_LEAVE_TRAILING_DOT :: u32 where "DNS_LABEL_LEAVE_TRAILING_DOT = 4"

abbreviation (input) ENOBUFS :: int where "ENOBUFS \<equiv> 105"

text \<open>One character of a label: what it stands for and the name behind it.\<close>

definition dns_label_char :: "u32 \<Rightarrow> nat \<Rightarrow> string \<Rightarrow> (char \<times> string) result" where
  "dns_label_char flags r n =
     (case n of
        [] \<Rightarrow> Inl (- EINVAL)
      | c # m \<Rightarrow>
          if c = CHR 0x5C then
            if flag flags DNS_LABEL_NO_ESCAPES then Inl (- EINVAL)
            else (case m of
                    [] \<Rightarrow> Inl (- EINVAL)
                  | e # k \<Rightarrow>
                      if e = CHR 0x5C \<or> e = CHR ''.'' then
                        if flag flags DNS_LABEL_LDH then Inl (- EINVAL) else Inr (e, k)
                      else if ascii_isdigit e then
                        (case k of
                           d1 # d2 # l \<Rightarrow>
                             if \<not> ascii_isdigit d1 \<or> \<not> ascii_isdigit d2 then Inl (- EINVAL)
                             else let v = (char_code e - 48) * 100 + (char_code d1 - 48) * 10 + (char_code d2 - 48)
                                  in if 255 < v then Inl (- EINVAL)
                                     else if flag flags DNS_LABEL_LDH \<and> \<not> valid_ldh_char (char_of v) then Inl (- EINVAL)
                                     else Inr (char_of v, l)
                         | _ \<Rightarrow> Inl (- EINVAL))
                      else Inl (- EINVAL))
          else if 32 \<le> char_code c \<and> char_code c \<noteq> 127 then
            if flag flags DNS_LABEL_LDH \<and> (\<not> valid_ldh_char c \<or> r = 0 \<and> c = CHR ''-'') then Inl (- EINVAL) else Inr (c, m)
          else Inl (- EINVAL))"

lemma dns_label_char_shorter: "dns_label_char flags r n = Inr (c, n') \<Longrightarrow> length n' < length n"
  by (auto simp: dns_label_char_def Let_def split: list.splits if_splits)

text \<open>The loop of \<open>dns_label_unescape\<close>: the end of the label, its length and its characters.\<close>

function dns_label_loop :: "u32 \<Rightarrow> nat \<Rightarrow> nat \<Rightarrow> char \<Rightarrow> string \<Rightarrow> string \<Rightarrow> (string \<times> nat \<times> string) result" where
  "dns_label_loop flags sz r last_char d n =
     (if n = [] \<or> hd n = CHR ''.'' then
        if flag flags DNS_LABEL_LDH \<and> last_char = CHR ''-'' then Inl (- EINVAL)
        else Inr (if n \<noteq> [] \<and> (tl n \<noteq> [] \<or> \<not> flag flags DNS_LABEL_LEAVE_TRAILING_DOT) then tl n else n, r, d)
      else if DNS_LABEL_MAX \<le> r then Inl (- EINVAL)
      else if sz = 0 then Inl (- ENOBUFS)
      else case dns_label_char flags r n of
             Inl e \<Rightarrow> Inl e
           | Inr (c, n') \<Rightarrow> dns_label_loop flags (sz - 1) (Suc r) c (d @ [c]) n')"
  by pat_completeness auto

termination dns_label_loop
  by (relation "measure (\<lambda>(flags, sz, r, last_char, d, n). length n)") (auto dest: dns_label_char_shorter)

declare dns_label_loop.simps [simp del]

text \<open>The result, the bytes of the label (before the NUL) and \<open>*name\<close> afterwards.\<close>

definition dns_label_unescape :: "string \<Rightarrow> nat \<Rightarrow> u32 \<Rightarrow> (nat \<times> string \<times> string) result" where
  "dns_label_unescape name sz flags =
     (case dns_label_loop flags sz 0 CHR 0x00 [] name of
        Inl e \<Rightarrow> Inl e
      | Inr (n, r, d) \<Rightarrow>
          if r = 0 \<and> n \<noteq> [] then Inl (- EINVAL)
          else if n \<noteq> [] \<and> hd n = CHR ''.'' \<and> \<not> flag flags DNS_LABEL_LEAVE_TRAILING_DOT then Inl (- EINVAL)
          else Inr (r, d, n))"

text \<open>How \<open>dns_label_escape\<close> writes a character.\<close>

definition dns_char_escape :: "char \<Rightarrow> string" where
  "dns_char_escape c =
     (if c = CHR ''.'' \<or> c = CHR 0x5C then [CHR 0x5C, c]
      else if c = CHR ''_'' \<or> c = CHR ''-'' \<or> ascii_isdigit c \<or> ascii_isalpha c then [c]
      else [CHR 0x5C, digit_char (char_code c div 100), digit_char (char_code c div 10 mod 10), digit_char (char_code c mod 10)])"

fun dns_escape_loop :: "string \<Rightarrow> nat \<Rightarrow> string \<Rightarrow> string result" where
  "dns_escape_loop [] sz q = Inr q"
| "dns_escape_loop (c # p) sz q =
     (if sz < Suc (length (dns_char_escape c)) then Inl (- ENOBUFS)
      else dns_escape_loop p (sz - length (dns_char_escape c)) (q @ dns_char_escape c))"

definition dns_label_escape :: "string \<Rightarrow> nat \<Rightarrow> string result" where
  \<comment> \<open>\<open>p\<close> stands for the pointer and the length \<open>l\<close>; the value returned is the length of the result\<close>
  "dns_label_escape p sz =
     (if p = [] \<or> DNS_LABEL_MAX < length p then Inl (- EINVAL)
      else if sz < 1 then Inl (- ENOBUFS)
      else dns_escape_loop p sz [])"

lemma dns_label_loop_rest:
  "dns_label_loop flags sz r c d n = Inr (n', r', d') \<Longrightarrow>
     r \<le> DNS_LABEL_MAX \<Longrightarrow> r = length d \<Longrightarrow>
     length n' \<le> length n \<and> (r < r' \<longrightarrow> length n' < length n) \<and> r \<le> r' \<and> r' \<le> DNS_LABEL_MAX \<and> r' = length d'"
proof (induction flags sz r c d n rule: dns_label_loop.induct)
  case (1 flags sz r c d n)
  show ?case
  proof (cases "n = [] \<or> hd n = CHR ''.''")
    case True
    with "1.prems" show ?thesis by (subst (asm) dns_label_loop.simps) (auto split: if_splits)
  next
    case F: False
    with "1.prems" obtain e n1 where e: "r < DNS_LABEL_MAX" "sz \<noteq> 0" "dns_label_char flags r n = Inr (e, n1)"
      and l: "dns_label_loop flags (sz - 1) (Suc r) e (d @ [e]) n1 = Inr (n', r', d')"
      by (subst (asm) dns_label_loop.simps) (auto split: if_splits sum.splits)
    show ?thesis
      using "1.IH" [OF F _ e(2,3) refl l] e "1.prems" dns_label_char_shorter [OF e(3)] by auto
  qed
qed

section \<open>Domain names\<close>

text \<open>
  The loop of \<open>dns_name_concat\<close>: \<open>p\<close> the rest of the name, \<open>b\<close> the second name unless it was
  taken, \<open>ret\<close> the name so far, whose length is \<open>n\<close>.  The same labels are escaped, into a
  scratch buffer, when the caller does not want the name.
\<close>

function dns_concat_loop :: "u32 \<Rightarrow> string \<Rightarrow> string option \<Rightarrow> bool \<Rightarrow> string \<Rightarrow> string result" where
  "dns_concat_loop flags p b first ret =
     (case dns_label_unescape p (DNS_LABEL_MAX + 1) flags of
        Inl e \<Rightarrow> Inl e
      | Inr (r, label, p') \<Rightarrow>
          if r = 0 then
            if p' \<noteq> [] then Inl (- EINVAL)
            else (case b of Some s \<Rightarrow> dns_concat_loop flags s None first ret | None \<Rightarrow> Inr ret)
          else (case dns_label_escape label DNS_LABEL_ESCAPED_MAX of
                  Inl e \<Rightarrow> Inl e
                | Inr l \<Rightarrow> dns_concat_loop flags p' b False (ret @ (if first then [] else ''.'') @ l)))"
  by pat_completeness auto

lemma dns_label_unescape_rest:
  assumes "dns_label_unescape p sz flags = Inr (r, l, p')"
  shows "r = length l" "r \<le> DNS_LABEL_MAX" "r \<noteq> 0 \<Longrightarrow> length p' < length p" "r = 0 \<Longrightarrow> p' = []"
  using assms dns_label_loop_rest [of flags sz 0 "CHR 0x00" "[]" p]
  by (auto simp: dns_label_unescape_def split: sum.splits if_splits)

termination dns_concat_loop
  by (relation "measure (\<lambda>(flags, p, b, first, ret). length p + (case b of None \<Rightarrow> 0 | Some s \<Rightarrow> Suc (length s)))")
    (auto dest: dns_label_unescape_rest)

declare dns_concat_loop.simps [simp del]

definition dns_name_concat :: "string option \<Rightarrow> string option \<Rightarrow> u32 \<Rightarrow> string result" where
  \<comment> \<open>\<open>Inr\<close> for the result 0, with what is stored through \<open>_ret\<close> if that is not null\<close>
  "dns_name_concat a b flags =
     (case (case a of
              Some p \<Rightarrow> dns_concat_loop flags p b True []
            | None \<Rightarrow> (case b of Some p \<Rightarrow> dns_concat_loop flags p None True [] | None \<Rightarrow> Inr [])) of
        Inl e \<Rightarrow> Inl e
      | Inr ret \<Rightarrow>
          if DNS_HOSTNAME_MAX < length ret then Inl (- EINVAL)
          else Inr (if ret = [] then ''.'' else ret))"

definition dns_name_normalize :: "string option \<Rightarrow> u32 \<Rightarrow> string result" where
  "dns_name_normalize s flags = dns_name_concat s None flags"

definition dns_name_is_valid :: "string option \<Rightarrow> int" where
  "dns_name_is_valid s =
     (case dns_name_concat s None 0 of
        Inl r \<Rightarrow> if r = - EINVAL then 0 else r
      | Inr _ \<Rightarrow> 1)"

definition dns_name_is_valid_or_address :: "net_names \<Rightarrow> string option \<Rightarrow> int outcome" where
  "dns_name_is_valid_or_address ns name =
     (case name of
        None \<Rightarrow> Ret 0
      | Some s \<Rightarrow>
          if s = [] then Ret 0
          else obind (in_addr_from_string_auto ns s None None) (\<lambda>(r, family, u).
                 Ret (if 0 \<le> r then 1 else dns_name_is_valid name)))"

section \<open>Escaping\<close>

abbreviation dns_escape :: "string \<Rightarrow> string" where
  "dns_escape l \<equiv> concat (map dns_char_escape l)"

definition label_ok :: "string \<Rightarrow> bool" where
  "label_ok l \<longleftrightarrow> l \<noteq> [] \<and> length l \<le> DNS_LABEL_MAX"

lemma dns_char_escape_Cons: "\<exists>e k. dns_char_escape c = e # k \<and> e \<noteq> CHR ''.'' \<and> length k \<le> 3"
proof -
  have "ascii_isdigit c \<or> ascii_isalpha c \<Longrightarrow> c \<noteq> CHR ''.''"
    by (auto simp: ascii_isdigit_def ascii_isalpha_def char_code_def)
  then show ?thesis by (auto simp: dns_char_escape_def)
qed

lemma dns_label_char_escape:
  assumes "\<not> flag flags DNS_LABEL_LDH" "\<not> flag flags DNS_LABEL_NO_ESCAPES"
  shows "dns_label_char flags r (dns_char_escape c @ k) = Inr (c, k)"
proof -
  have digit: "d < 10 \<Longrightarrow> ascii_isdigit (digit_char d)" for d
    by (simp add: ascii_isdigit_def char_code_digit_char)
  have "char_code c < 256" by (rule char_code_less)
  then have d: "char_code c div 100 < 10" "char_code c div 10 mod 10 < 10" "char_code c mod 10 < 10" by auto
  have sum: "char_code c div 100 * 100 + char_code c div 10 mod 10 * 10 + char_code c mod 10 = char_code c"
    using div_mult_mod_eq [of "char_code c" 10] div_mult_mod_eq [of "char_code c div 10" 10]
      div_mult2_eq [of "char_code c" 10 10, simplified] by linarith
  have c: "char_of (char_code c) = c" by (simp add: char_code_def)
  have no: "digit_char d \<noteq> CHR 0x5C" "digit_char d \<noteq> CHR ''.''" if "d < 10" for d
    using char_code_digit_char [OF that] that by (auto simp: char_code_def)
  consider "c = CHR ''.'' \<or> c = CHR 0x5C"
    | (plain) "\<not> (c = CHR ''.'' \<or> c = CHR 0x5C)" "c = CHR ''_'' \<or> c = CHR ''-'' \<or> ascii_isdigit c \<or> ascii_isalpha c"
    | (digits) "\<not> (c = CHR ''.'' \<or> c = CHR 0x5C)" "\<not> (c = CHR ''_'' \<or> c = CHR ''-'' \<or> ascii_isdigit c \<or> ascii_isalpha c)"
    by blast
  then show ?thesis
  proof cases
    case 1
    then show ?thesis using assms by (auto simp: dns_char_escape_def dns_label_char_def)
  next
    case plain
    then have "32 \<le> char_code c \<and> char_code c \<noteq> 127"
      by (auto simp: ascii_isdigit_def ascii_isalpha_def char_code_def)
    then show ?thesis using plain assms by (simp add: dns_char_escape_def dns_label_char_def)
  next
    case digits
    then show ?thesis
      using assms \<open>char_code c < 256\<close> digit [OF d(1)] digit [OF d(2)] digit [OF d(3)] no [OF d(1)] sum c
      by (simp add: dns_char_escape_def dns_label_char_def Let_def char_code_digit_char d)
  qed
qed

lemma dns_label_loop_escape:
  assumes "\<not> flag flags DNS_LABEL_LDH" "\<not> flag flags DNS_LABEL_NO_ESCAPES" "rest = [] \<or> hd rest = CHR ''.''"
  shows "r + length l \<le> DNS_LABEL_MAX \<Longrightarrow> length l \<le> sz \<Longrightarrow>
     dns_label_loop flags sz r x d (dns_escape l @ rest) =
       Inr (if rest \<noteq> [] \<and> (tl rest \<noteq> [] \<or> \<not> flag flags DNS_LABEL_LEAVE_TRAILING_DOT) then tl rest else rest, r + length l, d @ l)"
proof (induction l arbitrary: sz r x d)
  case Nil
  then show ?case using assms by (subst dns_label_loop.simps) auto
next
  case (Cons c l)
  have "dns_escape (c # l) @ rest = dns_char_escape c @ dns_escape l @ rest" by simp
  moreover have "dns_char_escape c @ k \<noteq> []" "hd (dns_char_escape c @ k) \<noteq> CHR ''.''" for k
    using dns_char_escape_Cons [of c] by auto
  ultimately have "dns_label_loop flags sz r x d (dns_escape (c # l) @ rest) =
      dns_label_loop flags (sz - 1) (Suc r) c (d @ [c]) (dns_escape l @ rest)"
    using Cons.prems dns_label_char_escape [OF assms(1,2), of r c "dns_escape l @ rest"]
    by (subst dns_label_loop.simps) (simp del: append_is_Nil_conv)
  then show ?case using Cons.prems Cons.IH [of "Suc r" "sz - 1" c "d @ [c]"] by simp
qed

lemma dns_escape_loop_fits:
  "4 * length p < sz \<Longrightarrow> dns_escape_loop p sz q = Inr (q @ dns_escape p)"
proof (induction p arbitrary: sz q)
  case (Cons c p)
  have "length (dns_char_escape c) \<le> 4" using dns_char_escape_Cons [of c] by auto
  then show ?case using Cons.prems Cons.IH [of "sz - length (dns_char_escape c)"] by simp
qed simp

lemma dns_label_escape_ok: "label_ok l \<Longrightarrow> DNS_LABEL_ESCAPED_MAX \<le> sz \<Longrightarrow> dns_label_escape l sz = Inr (dns_escape l)"
  using dns_escape_loop_fits [of l sz "[]"]
  by (simp add: dns_label_escape_def label_ok_def DNS_LABEL_ESCAPED_MAX_def)

lemma dns_label_unescape_escape:
  assumes "\<not> flag flags DNS_LABEL_LDH" "\<not> flag flags DNS_LABEL_NO_ESCAPES" "\<not> flag flags DNS_LABEL_LEAVE_TRAILING_DOT"
    "label_ok l" "DNS_LABEL_MAX \<le> sz" "rest = [] \<or> hd rest = CHR ''.''" "\<And>c k. rest = c # CHR ''.'' # k \<Longrightarrow> False"
  shows "dns_label_unescape (dns_escape l @ rest) sz flags = Inr (length l, l, tl rest)"
proof -
  have "\<not> (tl rest \<noteq> [] \<and> hd (tl rest) = CHR ''.'')"
    using assms(7) by (cases rest; cases "tl rest") auto
  then show ?thesis
    using assms(3-6) dns_label_loop_escape [OF assms(1,2,6), of 0 l sz]
    by (auto simp: dns_label_unescape_def label_ok_def)
qed

section \<open>Names as lists of labels\<close>

text \<open>The labels that a name stands for: those that \<open>dns_label_unescape\<close> reads until its end.\<close>

function name_labels :: "u32 \<Rightarrow> string \<Rightarrow> string list option" where
  "name_labels flags p =
     (case dns_label_unescape p (DNS_LABEL_MAX + 1) flags of
        Inl e \<Rightarrow> None
      | Inr (r, l, p') \<Rightarrow> if r = 0 then Some [] else map_option (Cons l) (name_labels flags p'))"
  by pat_completeness auto

termination name_labels
  by (relation "measure (\<lambda>(flags, p). length p)") (auto dest: dns_label_unescape_rest)

declare name_labels.simps [simp del]

fun dotted :: "string list \<Rightarrow> string" where
  "dotted [] = []"
| "dotted [l] = dns_escape l"
| "dotted (l # ls) = dns_escape l @ CHR ''.'' # dotted ls"

definition opt_labels :: "u32 \<Rightarrow> string option \<Rightarrow> string list option" where
  \<comment> \<open>a missing name adds no labels\<close>
  "opt_labels flags b = (case b of None \<Rightarrow> Some [] | Some s \<Rightarrow> name_labels flags s)"

lemma dotted_append:
  "dotted (as @ bs) = dotted as @ (if as = [] \<or> bs = [] then [] else ''.'') @ dotted bs"
proof (induction as rule: dotted.induct)
  case (2 l)
  then show ?case by (cases bs) simp_all
qed simp_all

lemma name_labels_step:
  "dns_label_unescape p (DNS_LABEL_MAX + 1) flags = Inl e \<Longrightarrow> name_labels flags p = None"
  "dns_label_unescape p (DNS_LABEL_MAX + 1) flags = Inr (r, l, p') \<Longrightarrow>
     name_labels flags p = (if r = 0 then Some [] else map_option (Cons l) (name_labels flags p'))"
  by (subst name_labels.simps, simp del: add_Suc_right add_Suc One_nat_def Suc_eq_plus1)+

lemma name_labels_ok: "name_labels flags p = Some ls \<Longrightarrow> list_all label_ok ls"
proof (induction flags p arbitrary: ls rule: name_labels.induct)
  case (1 flags p)
  show ?case
  proof (cases "dns_label_unescape p (DNS_LABEL_MAX + 1) flags")
    case (Inl e)
    then show ?thesis using "1.prems" name_labels_step(1) [OF Inl] by simp
  next
    case (Inr x)
    then obtain r l p' where x: "dns_label_unescape p (DNS_LABEL_MAX + 1) flags = Inr (r, l, p')" by (cases x) auto
    show ?thesis
      using "1.prems" "1.IH" [OF x refl refl] dns_label_unescape_rest (1,2) [OF x] name_labels_step(2) [OF x]
      by (auto simp: label_ok_def split: if_splits)
  qed
qed

lemma dns_label_loop_error:
  "dns_label_loop flags sz r c d n = Inl e \<Longrightarrow> DNS_LABEL_MAX \<le> sz + r \<Longrightarrow> e = - EINVAL"
proof (induction flags sz r c d n rule: dns_label_loop.induct)
  case (1 flags sz r c d n)
  have char: "dns_label_char flags r n = Inl e \<Longrightarrow> e = - EINVAL"
    by (auto simp: dns_label_char_def Let_def split: list.splits if_splits)
  show ?case
  proof (cases "n = [] \<or> hd n = CHR ''.'' \<or> DNS_LABEL_MAX \<le> r")
    case True
    with "1.prems" show ?thesis by (subst (asm) dns_label_loop.simps) (auto split: if_splits)
  next
    case F: False
    then have sz: "sz \<noteq> 0" using "1.prems"(2) by auto
    show ?thesis
    proof (cases "dns_label_char flags r n")
      case (Inl e')
      then show ?thesis using "1.prems" F sz char by (subst (asm) dns_label_loop.simps) auto
    next
      case (Inr x)
      obtain c' n' where x: "x = (c', n')" by fastforce
      have "dns_label_loop flags (sz - 1) (Suc r) c' (d @ [c']) n' = Inl e"
        using "1.prems"(1) F sz Inr x by (subst (asm) dns_label_loop.simps) auto
      then show ?thesis using "1.IH" [OF _ _ sz Inr x [symmetric]] F "1.prems"(2) sz by auto
    qed
  qed
qed

lemma dns_label_unescape_error:
  "dns_label_unescape p sz flags = Inl e \<Longrightarrow> DNS_LABEL_MAX \<le> sz \<Longrightarrow> e = - EINVAL"
  using dns_label_loop_error [of flags sz 0 "CHR 0x00" "[]" p]
  by (auto simp: dns_label_unescape_def split: sum.splits if_splits)

lemma dns_concat_loop_step:
  "dns_label_unescape p (DNS_LABEL_MAX + 1) flags = Inl e \<Longrightarrow> dns_concat_loop flags p b first ret = Inl (- EINVAL)"
  "dns_label_unescape p (DNS_LABEL_MAX + 1) flags = Inr (0, l, p') \<Longrightarrow>
     dns_concat_loop flags p b first ret = (case b of Some s \<Rightarrow> dns_concat_loop flags s None first ret | None \<Rightarrow> Inr ret)"
  "dns_label_unescape p (DNS_LABEL_MAX + 1) flags = Inr (r, l, p') \<Longrightarrow> r \<noteq> 0 \<Longrightarrow>
     dns_concat_loop flags p b first ret = dns_concat_loop flags p' b False (ret @ (if first then [] else ''.'') @ dns_escape l)"
proof -
  assume a: "dns_label_unescape p (DNS_LABEL_MAX + 1) flags = Inl e"
  then have "e = - EINVAL" by (rule dns_label_unescape_error) simp
  with a show "dns_concat_loop flags p b first ret = Inl (- EINVAL)"
    by (subst dns_concat_loop.simps) (simp del: add_Suc_right One_nat_def)
next
  assume a: "dns_label_unescape p (DNS_LABEL_MAX + 1) flags = Inr (0, l, p')"
  then show "dns_concat_loop flags p b first ret = (case b of Some s \<Rightarrow> dns_concat_loop flags s None first ret | None \<Rightarrow> Inr ret)"
    using dns_label_unescape_rest(4) [OF a] by (subst dns_concat_loop.simps) (simp del: add_Suc_right One_nat_def)
next
  assume a: "dns_label_unescape p (DNS_LABEL_MAX + 1) flags = Inr (r, l, p')" and r: "r \<noteq> 0"
  then have "label_ok l" using dns_label_unescape_rest(1,2) [OF a] by (auto simp: label_ok_def)
  from dns_label_escape_ok [OF this order_refl] a r
  show "dns_concat_loop flags p b first ret = dns_concat_loop flags p' b False (ret @ (if first then [] else ''.'') @ dns_escape l)"
    by (subst dns_concat_loop.simps) (simp del: add_Suc_right One_nat_def)
qed

lemma dns_concat_loop_labels:
  "dns_concat_loop flags p b first ret =
     (case (name_labels flags p, opt_labels flags b) of
        (Some as, Some bs) \<Rightarrow> Inr (ret @ (if first \<or> as @ bs = [] then [] else ''.'') @ dotted (as @ bs))
      | _ \<Rightarrow> Inl (- EINVAL))"
proof (induction flags p b first ret rule: dns_concat_loop.induct)
  case (1 flags p b first ret)
  show ?case
  proof (cases "dns_label_unescape p (DNS_LABEL_MAX + 1) flags")
    case (Inl e)
    then show ?thesis using dns_concat_loop_step(1) [OF Inl] name_labels_step(1) [OF Inl] by simp
  next
    case (Inr x)
    then obtain r l p' where x: "dns_label_unescape p (DNS_LABEL_MAX + 1) flags = Inr (r, l, p')" by (cases x) auto
    show ?thesis
    proof (cases "r = 0")
      case True
      with x have x0: "dns_label_unescape p (DNS_LABEL_MAX + 1) flags = Inr (0, l, p')" by simp
      have "p' = []" using dns_label_unescape_rest(4) [OF x0] by simp
      then show ?thesis
        using "1.IH"(1) [OF x refl refl True] name_labels_step(2) [OF x0] dns_concat_loop_step(2) [OF x0]
        by (cases b) (auto simp: opt_labels_def split: option.split)
    next
      case F: False
      then have ok: "label_ok l" using dns_label_unescape_rest(1,2) [OF x] by (auto simp: label_ok_def)
      have "dotted (l # ls) = dns_escape l @ (if ls = [] then [] else ''.'') @ dotted ls" for ls
        by (cases ls) simp_all
      then show ?thesis
        using "1.IH"(2) [OF x refl refl F dns_label_escape_ok [OF ok order_refl]] name_labels_step(2) [OF x] dns_concat_loop_step(3) [OF x F] F
        by (auto split: option.split)
    qed
  qed
qed

lemma name_labels_Nil: "name_labels flags [] = Some []"
  using name_labels_step(2) [of "[]" flags 0 "[]" "[]"]
  by (simp add: dns_label_unescape_def dns_label_loop.simps)

lemma dotted_starts: "list_all label_ok ls \<Longrightarrow> ls \<noteq> [] \<Longrightarrow> \<exists>c k. dotted ls = c # k \<and> c \<noteq> CHR ''.''"
proof -
  assume a: "list_all label_ok ls" "ls \<noteq> []"
  then obtain c l ls' where "ls = (c # l) # ls'" by (cases ls; cases "hd ls") (auto simp: label_ok_def)
  then show ?thesis using dns_char_escape_Cons [of c] by (cases ls') auto
qed

lemma flag_zero [simp]: "\<not> flag 0 f"
  by (simp add: flag_def)

lemma name_labels_dotted: "list_all label_ok ls \<Longrightarrow> name_labels 0 (dotted ls) = Some ls"
proof (induction ls rule: dotted.induct)
  case 1
  then show ?case by (simp add: name_labels_Nil)
next
  case (2 l)
  have "dns_label_unescape (dns_escape l @ []) (DNS_LABEL_MAX + 1) 0 = Inr (length l, l, tl [])"
    by (rule dns_label_unescape_escape) (use 2 in auto)
  from name_labels_step(2) [OF this] 2 show ?case by (simp add: name_labels_Nil label_ok_def)
next
  case (3 l m ls)
  obtain c k where ck: "dotted (m # ls) = c # k" "c \<noteq> CHR ''.''" using dotted_starts [of "m # ls"] "3.prems" by auto
  have "dns_label_unescape (dns_escape l @ CHR ''.'' # dotted (m # ls)) (DNS_LABEL_MAX + 1) 0 =
      Inr (length l, l, tl (CHR ''.'' # dotted (m # ls)))"
    by (rule dns_label_unescape_escape) (use "3.prems" ck in auto)
  from name_labels_step(2) [OF this] 3 show ?case by (auto simp: label_ok_def)
qed

lemma name_labels_root: "name_labels 0 ''.'' = Some []"
proof -
  have "dns_label_unescape ''.'' (DNS_LABEL_MAX + 1) 0 = Inr (0, [], [])"
    by (simp add: dns_label_unescape_def dns_label_loop.simps)
  from name_labels_step(2) [OF this] show ?thesis by simp
qed

lemma dotted_Nil: "list_all label_ok ls \<Longrightarrow> dotted ls = [] \<longleftrightarrow> ls = []"
  by (cases "ls = []") (auto dest: dotted_starts)

lemma dns_name_concat_eq:
  "dns_name_concat (Some a) b flags =
     (case (name_labels flags a, opt_labels flags b) of
        (Some as, Some bs) \<Rightarrow>
          if 253 < length (dotted (as @ bs)) then Inl (- EINVAL)
          else Inr (if as @ bs = [] then ''.'' else dotted (as @ bs))
      | _ \<Rightarrow> Inl (- EINVAL))"
proof -
  have "name_labels flags a = Some as \<Longrightarrow> opt_labels flags b = Some bs \<Longrightarrow> dotted (as @ bs) = [] \<longleftrightarrow> as = [] \<and> bs = []" for as bs
    using name_labels_ok dotted_Nil [of "as @ bs"] by (auto simp: opt_labels_def split: option.splits)
  then show ?thesis
    by (auto simp: dns_name_concat_def dns_concat_loop_labels DNS_HOSTNAME_MAX_def split: option.split)
qed

text \<open>
  C34.  Joining two names stands for joining their labels: the result is the escaped labels of the first name followed by those of the second, separated by dots, or a single dot when there are none; it is -EINVAL when either name has a bad label or the result is longer than 253 bytes, and no other error occurs.
\<close>

theorem dns_name_concat_labels:
  "dns_name_concat (Some a) b flags =
     (case (name_labels flags a, case b of None \<Rightarrow> Some [] | Some s \<Rightarrow> name_labels flags s) of
        (Some as, Some bs) \<Rightarrow>
          if 253 < length (dotted (as @ bs)) then Inl (- EINVAL)
          else Inr (if as @ bs = [] then ''.'' else dotted (as @ bs))
      | _ \<Rightarrow> Inl (- EINVAL))"
  by (simp only: dns_name_concat_eq opt_labels_def)

text \<open>
  C35.  A normalized name is a valid name of at most 253 bytes that stands for the same labels as the name it was made from, and normalizing it again changes nothing.
\<close>

theorem dns_name_normalize_fixpoint:
  assumes "dns_name_normalize (Some a) flags = Inr s"
  shows "dns_name_normalize (Some s) 0 = Inr s \<and> name_labels 0 s = name_labels flags a \<and> length s \<le> 253 \<and> dns_name_is_valid (Some s) = 1"
proof -
  note eq = dns_name_concat_eq [of _ None, folded dns_name_normalize_def, unfolded opt_labels_def]
  from assms obtain ls where ls: "name_labels flags a = Some ls" "length (dotted ls) \<le> 253" "s = (if ls = [] then ''.'' else dotted ls)"
    by (auto simp: eq split: option.splits if_splits)
  have "name_labels 0 s = Some ls"
    using name_labels_dotted [OF name_labels_ok [OF ls(1)]] name_labels_root ls(3) by simp
  with ls have "dns_name_normalize (Some s) 0 = Inr s" by (auto simp: eq)
  then show ?thesis
    using ls \<open>name_labels 0 s = Some ls\<close> by (auto simp: dns_name_is_valid_def dns_name_normalize_def)
qed

theorem dns_name_normalize_fixpoint_witness:
  "dns_name_normalize (Some [CHR 0x5C, CHR ''0'', CHR ''6'', CHR ''5'', CHR ''b'', CHR ''.'', CHR ''c'', CHR ''.'']) 0 = Inr ''Ab.c'' \<and>
   dns_name_normalize (Some ''Ab.c'') 0 = Inr ''Ab.c''"
proof -
  have "dns_name_normalize (Some [CHR 0x5C, CHR ''0'', CHR ''6'', CHR ''5'', CHR ''b'', CHR ''.'', CHR ''c'', CHR ''.'']) 0 = Inr ''Ab.c''"
    by code_simp
  from this dns_name_normalize_fixpoint [OF this] show ?thesis by blast
qed

text \<open>
  A label of 1 to 63 arbitrary bytes is read back from its escaped form, whether it ends the name or a dot and a further label follow.
\<close>

theorem dns_label_roundtrip:
  assumes "l \<noteq> []" "length l \<le> 63" "253 \<le> sz" "rest = [] \<or> (\<exists>k. rest = CHR ''.'' # k \<and> (k = [] \<or> hd k \<noteq> CHR ''.''))"
  shows "\<exists>e. dns_label_escape l sz = Inr e \<and> length e \<le> 4 * length l \<and>
    dns_label_unescape (e @ rest) 64 0 = Inr (length l, l, tl rest)"
proof -
  have ok: "label_ok l" using assms by (simp add: label_ok_def DNS_LABEL_MAX_def)
  have "length (dns_escape l) \<le> 4 * length l"
  proof (induction l)
    case (Cons c l)
    then show ?case using dns_char_escape_Cons [of c] by auto
  qed simp
  moreover have "dns_label_unescape (dns_escape l @ rest) 64 0 = Inr (length l, l, tl rest)"
    by (rule dns_label_unescape_escape) (use assms(4) ok in \<open>auto simp: DNS_LABEL_MAX_def\<close>)
  moreover have "dns_label_escape l sz = Inr (dns_escape l)"
    using dns_label_escape_ok [OF ok] assms(3) by (simp add: DNS_LABEL_ESCAPED_MAX_def DNS_LABEL_MAX_def)
  ultimately show ?thesis by blast
qed

theorem dns_label_roundtrip_witness:
  "\<exists>e. dns_label_escape [CHR 0xFF] 253 = Inr e \<and> length e \<le> 4 \<and> dns_label_unescape (e @ ''.b'') 64 0 = Inr (1, [CHR 0xFF], ''b'')"
  using dns_label_roundtrip [of "[CHR 0xFF]" 253 "''.b''"] by simp

section \<open>Valid host names\<close>

text \<open>The parts of a name between its dots, and what a part has to look like.\<close>

fun host_labels :: "string \<Rightarrow> string list" where
  "host_labels [] = [[]]"
| "host_labels (c # s) =
     (if c = CHR ''.'' then [] # host_labels s
      else (c # hd (host_labels s)) # tl (host_labels s))"

definition host_label_tail :: "bool \<Rightarrow> string \<Rightarrow> bool" where
  \<comment> \<open>the rest of a label behind a character that is a hyphen or not\<close>
  "host_label_tail hyphen l \<longleftrightarrow> list_all valid_ldh_char l \<and> (if l = [] then \<not> hyphen else last l \<noteq> CHR ''-'')"

definition host_label :: "string \<Rightarrow> bool" where
  "host_label l \<longleftrightarrow> l \<noteq> [] \<and> list_all valid_ldh_char l \<and> hd l \<noteq> CHR ''-'' \<and> last l \<noteq> CHR ''-''"

lemma host_labels_Cons: "\<exists>l ls. host_labels s = l # ls"
  by (induction s) auto

lemma dot_not_ldh [simp]: "\<not> valid_ldh_char CHR ''.''" "valid_ldh_char CHR ''-''"
  by (simp_all add: valid_ldh_char_def ascii_isalpha_def ascii_isdigit_def char_code_def)

lemma host_label_tail_Cons:
  "host_label_tail hyphen (c # l) \<longleftrightarrow> valid_ldh_char c \<and> host_label_tail (c = CHR ''-'') l"
  by (auto simp: host_label_tail_def)

lemma host_label_Cons:
  "host_label (c # l) \<longleftrightarrow> valid_ldh_char c \<and> c \<noteq> CHR ''-'' \<and> host_label_tail False l"
  by (auto simp: host_label_def host_label_tail_def)

lemma hostname_scan_labels:
  "(\<exists>n'. hostname_scan s dot hyphen n = Some (False, False, n')) \<longleftrightarrow>
     (if dot then list_all host_label (host_labels s)
      else host_label_tail hyphen (hd (host_labels s)) \<and> list_all host_label (tl (host_labels s)))"
proof (induction s arbitrary: dot hyphen n)
  case Nil
  then show ?case by (auto simp: host_label_def host_label_tail_def)
next
  case (Cons c s)
  obtain l ls where "host_labels s = l # ls" using host_labels_Cons by blast
  then show ?case
    using Cons.IH [of True False] Cons.IH [of False True] Cons.IH [of False False]
    by (auto simp: host_label_tail_Cons host_label_Cons host_label_def [of "[]"] host_label_tail_def [of _ "[]"])
qed

text \<open>
  Without flags, a host name is valid exactly when it has at most 64 bytes and every part between its dots is a non-empty run of letters, digits and hyphens that neither starts nor ends with a hyphen.
\<close>

theorem hostname_is_valid_iff:
  "hostname_is_valid s 0 \<longleftrightarrow> length s \<le> 64 \<and> list_all host_label (host_labels s)"
proof -
  have scan: "(case hostname_scan s True True 0 of None \<Rightarrow> False | Some (d, h, n) \<Rightarrow> \<not> d \<and> \<not> h) \<longleftrightarrow> list_all host_label (host_labels s)"
    using hostname_scan_labels [of s True True 0] by (auto split: option.splits)
  have "list_all host_label (host_labels s) \<Longrightarrow> s \<noteq> [] \<and> s \<noteq> ''.host''"
    by (auto simp: host_label_def)
  then show ?thesis
    using scan by (auto simp: hostname_is_valid_def HOST_NAME_MAX_def split: option.splits if_splits)
qed

lemma hostname_scan_append:
  "hostname_scan (xs @ ys) dot hyphen n =
     (case hostname_scan xs dot hyphen n of None \<Rightarrow> None | Some (dot, hyphen, n) \<Rightarrow> hostname_scan ys dot hyphen n)"
  by (induction xs arbitrary: dot hyphen n) auto

lemma hostname_scan_last:
  "hostname_scan s dot hyphen n = Some (dot', hyphen', n') \<Longrightarrow> s \<noteq> [] \<Longrightarrow>
     (dot' \<longleftrightarrow> last s = CHR ''.'') \<and> (hyphen' \<longleftrightarrow> last s = CHR ''-'')"
proof (induction s arbitrary: dot hyphen n)
  case (Cons c s)
  then show ?case by (cases "s = []") (auto split: if_splits)
qed simp

lemma hostname_scanned_valid:
  assumes "hostname_scan s True True 0 = Some (False, False, n)" "length s \<le> 64"
  shows "hostname_is_valid s 0"
proof -
  have "s \<noteq> []" "s \<noteq> ''.host''" using assms(1) by auto
  with assms show ?thesis by (simp add: hostname_is_valid_def HOST_NAME_MAX_def)
qed

lemma hostname_cleanup_loop_scanned:
  "hostname_scan d True True 0 = Some (dot, hyphen, n) \<Longrightarrow> length d \<le> 64 \<Longrightarrow>
     hostname_scan (hostname_cleanup_loop p dot hyphen d) True True 0 \<noteq> None \<and> length (hostname_cleanup_loop p dot hyphen d) \<le> 64"
proof (induction p arbitrary: dot hyphen d n)
  case (Cons c p)
  show ?case
    using Cons.prems Cons.IH [of d dot hyphen n] Cons.IH [of "d @ [c]" True False "Suc n"]
      Cons.IH [of "d @ [c]" False True n] Cons.IH [of "d @ [c]" False False n]
    by (cases "c = CHR ''.''"; cases "c = CHR ''-''"; cases "valid_ldh_char c"; cases dot; cases hyphen)
      (auto simp: hostname_scan_append HOST_NAME_MAX_def simp del: not_None_eq)
qed simp

lemma hostname_cleanup_loop_append:
  "hostname_scan p dot hyphen n = Some (dot', hyphen', n') \<Longrightarrow> length d + length p \<le> 64 \<Longrightarrow>
     hostname_cleanup_loop (p @ q) dot hyphen d = hostname_cleanup_loop q dot' hyphen' (d @ p)"
  by (induction p dot hyphen d arbitrary: n rule: hostname_cleanup_loop.induct)
    (auto simp: HOST_NAME_MAX_def split: if_splits)

lemma hostname_cleanup_loop_hyphens:
  "length d \<le> 64 \<Longrightarrow>
     hostname_cleanup_loop (replicate k (CHR ''-'')) False hyphen d = d @ replicate (min k (64 - length d)) (CHR ''-'')"
proof (induction k arbitrary: hyphen d)
  case (Suc k)
  show ?case
  proof (cases "length d < 64")
    case True
    then have "64 - length d = Suc (63 - length d)" by simp
    with Suc True show ?thesis by (simp add: HOST_NAME_MAX_def)
  qed (use Suc.prems in \<open>simp add: HOST_NAME_MAX_def\<close>)
qed simp

lemma hostname_cleanup_trailing:
  assumes "hostname_is_valid s 0"
  shows "hostname_cleanup (s @ replicate k (CHR ''-'')) = s @ replicate (min (k - 1) (63 - length s)) (CHR ''-'')"
proof -
  obtain n where s: "s \<noteq> []" "hostname_scan s True True 0 = Some (False, False, n)" "length s \<le> 64"
    using assms by (auto simp: hostname_is_valid_def HOST_NAME_MAX_def split: option.splits if_splits)
  note last = hostname_scan_last [OF s(2,1)]
  have l: "hostname_cleanup_loop (s @ replicate k (CHR ''-'')) True True [] = s @ replicate (min k (64 - length s)) (CHR ''-'')"
    using hostname_cleanup_loop_append [OF s(2), of "[]"] hostname_cleanup_loop_hyphens [OF s(3)] s(3) by simp
  show ?thesis
  proof (cases "min k (64 - length s)")
    case 0
    then have "min (k - 1) (63 - length s) = 0" by auto
    with 0 l last s(1) show ?thesis by (simp add: hostname_cleanup_def)
  next
    case (Suc j)
    then have j: "j = min (k - 1) (63 - length s)" by auto
    have r: "s @ replicate (Suc j) (CHR ''-'') = (s @ replicate j (CHR ''-'')) @ [CHR ''-'']" by (simp add: replicate_append_same)
    have "hostname_cleanup (s @ replicate k (CHR ''-'')) = s @ replicate j (CHR ''-'')"
      unfolding hostname_cleanup_def Let_def l Suc r last_snoc butlast_snoc by simp
    then show ?thesis unfolding j .
  qed
qed

text \<open>
  C36.  Cleaning up leaves the empty name, a valid host name or a name that ends with a hyphen.  A valid host name stays as it is; when hyphens follow it, those that fit into 64 bytes are taken over and then one is removed, so after two or more of them the result may still end with a hyphen (the comment in the code speaks of a loop that removes them all, and there is none).
\<close>

theorem hostname_cleanup_valid:
  "(hostname_cleanup s = [] \<or> hostname_is_valid (hostname_cleanup s) 0 \<or> last (hostname_cleanup s) = CHR ''-'') \<and>
   (hostname_is_valid s 0 \<longrightarrow> (\<forall>k. hostname_cleanup (s @ replicate k (CHR ''-'')) =
      s @ replicate (min (k - 1) (63 - length s)) (CHR ''-'')))"
proof (intro conjI impI allI)
  define e where "e = hostname_cleanup_loop s True True []"
  have "hostname_scan e True True 0 \<noteq> None" and len: "length e \<le> 64"
    using hostname_cleanup_loop_scanned [of "[]" True True 0 s] by (simp_all add: e_def)
  then obtain dot hyphen n where scan: "hostname_scan e True True 0 = Some (dot, hyphen, n)" by auto
  show "hostname_cleanup s = [] \<or> hostname_is_valid (hostname_cleanup s) 0 \<or> last (hostname_cleanup s) = CHR ''-''"
  proof (cases e rule: rev_cases)
    case Nil
    then show ?thesis by (simp add: hostname_cleanup_def e_def [symmetric])
  next
    case (snoc f c)
    have cut: "hostname_cleanup s = (if c = CHR ''-'' \<or> c = CHR ''.'' then f else e)"
      by (simp add: hostname_cleanup_def e_def [symmetric] snoc)
    obtain d h m where f: "hostname_scan f True True 0 = Some (d, h, m)" and c: "hostname_scan [c] d h m = Some (dot, hyphen, n)"
      using scan by (auto simp: snoc hostname_scan_append split: option.splits)
    show ?thesis
    proof (cases "c = CHR ''-'' \<or> c = CHR ''.''")
      case True
      with c have "\<not> d" by (auto split: if_splits)
      then show ?thesis
        using True cut f hostname_scanned_valid [of f m] hostname_scan_last [OF f] len snoc by (cases h; cases "f = []") auto
    next
      case False
      with scan hostname_scan_last [OF scan] snoc have "hostname_scan e True True 0 = Some (False, False, n)" by simp
      with False cut hostname_scanned_valid [OF _ len] show ?thesis by simp
    qed
  qed
next
  fix k assume "hostname_is_valid s 0"
  then show "hostname_cleanup (s @ replicate k (CHR ''-'')) = s @ replicate (min (k - 1) (63 - length s)) (CHR ''-'')"
    by (rule hostname_cleanup_trailing)
qed

theorem hostname_cleanup_valid_witness:
  "hostname_is_valid ''a-b.c'' 0 \<and> hostname_cleanup ''a-b.c'' = ''a-b.c'' \<and> hostname_cleanup ''a-b.c---'' = ''a-b.c--''"
proof -
  have v: "hostname_is_valid ''a-b.c'' 0" by code_simp
  with hostname_cleanup_valid [of "''a-b.c''"]
  have c: "hostname_cleanup (''a-b.c'' @ replicate k (CHR ''-'')) = ''a-b.c'' @ replicate (min (k - 1) (63 - 5)) (CHR ''-'')" for k
    by simp
  show ?thesis using v c [of 0] c [of 3] by (simp add: numeral_3_eq_3)
qed

text \<open>
  \<open>dns_name_is_valid_or_address\<close> returns for the missing and the empty name only: for every other name the null pointers it passes on fail an assertion.
\<close>

theorem dns_name_is_valid_or_address_aborts:
  "dns_name_is_valid_or_address ns name = (if name = None \<or> name = Some [] then Ret 0 else Abort)"
  by (auto simp: dns_name_is_valid_or_address_def in_addr_from_string_auto_def split: option.split)

end
