(* ===== verification/Resolve_Wire.thy ===== *)
theory Resolve_Wire
  imports Siphash
begin

text \<open>
  The messages of \<open>src/share/sd-resolve.c\<close> between the program and its resolver threads: the
  serialization of addresses, the requests and replies, and what a thread does with a request.
  A message is a datagram: its fixed part is a constructor with the fields of the C struct, and
  the bytes behind it are a list; a \<open>memcpy\<close> of \<open>AddrInfoSerialization\<close>, which
  has no padding, is written out for a little-endian LP64 machine.  The fields of
  \<open>struct addrinfo\<close> are kept as the bits of the \<open>int\<close>.
\<close>

unbundle bit_operations_syntax

abbreviation (input) ECONNRESET :: int where "ECONNRESET \<equiv> 104"
abbreviation (input) ENOBUFS :: int where "ENOBUFS \<equiv> 105"

section \<open>Addresses\<close>

definition BUFSIZE :: nat where "BUFSIZE = 10240"

record addrinfo =
  ai_flags :: u32
  ai_family :: u32
  ai_socktype :: u32
  ai_protocol :: u32
  ai_addr :: "u8 list"
  ai_canonname :: "string option"

text \<open>\<open>sizeof\<close> of the structs that precede variable data.\<close>

definition SIZEOF_AddrInfoSerialization :: nat where "SIZEOF_AddrInfoSerialization = 32"
definition SIZEOF_RHeader :: nat where "SIZEOF_RHeader = 16"
definition SIZEOF_AddrInfoRequest :: nat where "SIZEOF_AddrInfoRequest = 56"
definition SIZEOF_AddrInfoResponse :: nat where "SIZEOF_AddrInfoResponse = 32"
definition SIZEOF_NameInfoRequest :: nat where "SIZEOF_NameInfoRequest = 32"
definition SIZEOF_NameInfoResponse :: nat where "SIZEOF_NameInfoResponse = 48"

lemmas sizeof_defs = SIZEOF_AddrInfoSerialization_def SIZEOF_RHeader_def SIZEOF_AddrInfoRequest_def
  SIZEOF_AddrInfoResponse_def SIZEOF_NameInfoRequest_def SIZEOF_NameInfoResponse_def

definition opt_bytes :: "string option \<Rightarrow> u8 list" where
  \<comment> \<open>a string with its NUL, nothing for the null pointer\<close>
  "opt_bytes s = (case s of None \<Rightarrow> [] | Some x \<Rightarrow> string_bytes x)"

definition bytes_string :: "u8 list \<Rightarrow> string" where
  "bytes_string bs = map (\<lambda>b. char_of (unat b)) (takeWhile (\<lambda>b. b \<noteq> 0) bs)"

definition addrinfo_record :: "addrinfo \<Rightarrow> u8 list" where
  \<comment> \<open>the struct \<open>AddrInfoSerialization\<close>, the address and the name\<close>
  "addrinfo_record ai =
     unaligned_write_le32 (ai_flags ai) @ unaligned_write_le32 (ai_family ai) @
     unaligned_write_le32 (ai_socktype ai) @ unaligned_write_le32 (ai_protocol ai) @
     unaligned_write_le64 (of_nat (length (ai_addr ai))) @
     unaligned_write_le64 (of_nat (length (opt_bytes (ai_canonname ai)))) @
     ai_addr ai @ opt_bytes (ai_canonname ai)"

text \<open>The bytes written at \<open>p\<close>, and the new \<open>*length\<close>; \<open>None\<close> is the null pointer.\<close>

definition serialize_addrinfo :: "addrinfo \<Rightarrow> nat \<Rightarrow> nat \<Rightarrow> (u8 list \<times> nat) option outcome" where
  "serialize_addrinfo ai len maxlength =
     c_assert (len \<le> maxlength)
      (let l = SIZEOF_AddrInfoSerialization + length (ai_addr ai) + length (opt_bytes (ai_canonname ai))
       in if maxlength < len + l then Ret None else Ret (Some (addrinfo_record ai, len + l)))"

text \<open>
  The bytes at \<open>*p\<close>, of which there are \<open>*length\<close>.  When the sum of the lengths
  wraps around, one of them is that of a block that cannot be allocated.
\<close>

definition unserialize_addrinfo :: "u8 list \<Rightarrow> (addrinfo \<times> u8 list) result" where
  "unserialize_addrinfo p =
     (if length p < SIZEOF_AddrInfoSerialization then Inl (- EBADMSG)
      else let addrlen = unaligned_read_le64 (drop 16 p); cnl = unaligned_read_le64 (drop 24 p);
               l = unat (of_nat SIZEOF_AddrInfoSerialization + addrlen + cnl)
           in if length p < l then Inl (- EBADMSG)
              else if 2 ^ 64 \<le> SIZEOF_AddrInfoSerialization + unat addrlen + unat cnl then Inl (- ENOMEM)
              else Inr (\<lparr>ai_flags = unaligned_read_le32 p, ai_family = unaligned_read_le32 (drop 4 p),
                     ai_socktype = unaligned_read_le32 (drop 8 p), ai_protocol = unaligned_read_le32 (drop 12 p),
                     ai_addr = take (unat addrlen) (drop 32 p),
                     ai_canonname = (if cnl = 0 then None
                       else Some (bytes_string (take (unat cnl) (drop (32 + unat addrlen) p))))\<rparr>,
                   drop l p))"

section \<open>Messages\<close>

record hints =
  h_flags :: u32
  h_family :: u32
  h_socktype :: u32
  h_protocol :: u32

text \<open>The \<open>id\<close> and \<open>length\<close> of the header, the fields of the struct, and the bytes behind it.\<close>

datatype packet =
    Addrinfo_request u32 (p_length: nat) "hints option" nat nat (p_bytes: "u8 list")
  | Addrinfo_response u32 (p_length: nat) int int int (p_bytes: "u8 list")
  | Nameinfo_request u32 (p_length: nat) u32 nat bool bool (p_bytes: "u8 list")
  | Nameinfo_response u32 (p_length: nat) nat nat int int int (p_bytes: "u8 list")
  | Terminate_request (p_length: nat)
  | Died_response (p_length: nat)

fun packet_id :: "packet \<Rightarrow> u32" where
  \<comment> \<open>the id of the header, which is zero in the messages that need none\<close>
  "packet_id (Addrinfo_request i n h a b bs) = i"
| "packet_id (Addrinfo_response i n r e h bs) = i"
| "packet_id (Nameinfo_request i n f l a b bs) = i"
| "packet_id (Nameinfo_response i n a b r e h bs) = i"
| "packet_id _ = 0"

text \<open>The size of a datagram as it is sent, and what of it is received in a buffer of \<open>BUFSIZE\<close> bytes.\<close>

fun packet_size :: "packet \<Rightarrow> nat" where
  "packet_size (Addrinfo_request i n h a b bs) = SIZEOF_AddrInfoRequest + length bs"
| "packet_size (Addrinfo_response i n r e h bs) = SIZEOF_AddrInfoResponse + length bs"
| "packet_size (Nameinfo_request i n f l a b bs) = SIZEOF_NameInfoRequest + length bs"
| "packet_size (Nameinfo_response i n a b r e h bs) = SIZEOF_NameInfoResponse + length bs"
| "packet_size (Terminate_request n) = SIZEOF_RHeader"
| "packet_size (Died_response n) = SIZEOF_RHeader"

definition received :: "packet \<Rightarrow> nat" where
  "received p = min BUFSIZE (packet_size p)"

definition addrinfo_request :: "u32 \<Rightarrow> string option \<Rightarrow> string option \<Rightarrow> hints option \<Rightarrow> packet" where
  "addrinfo_request i node service h =
     (let node_len = length (opt_bytes node); service_len = length (opt_bytes service)
      in Addrinfo_request i (SIZEOF_AddrInfoRequest + node_len + service_len) h node_len service_len
           (opt_bytes node @ opt_bytes service))"

definition nameinfo_request :: "u32 \<Rightarrow> u8 list \<Rightarrow> u32 \<Rightarrow> u64 \<Rightarrow> packet" where
  "nameinfo_request i sa flags get =
     Nameinfo_request i (SIZEOF_NameInfoRequest + length sa) flags (length sa) (bit get 0) (bit get 1) sa"

section \<open>The threads\<close>

text \<open>
  What the C library answers a thread: \<open>getaddrinfo\<close> and \<open>getnameinfo\<close> with their
  result, what they store, \<open>errno\<close> and \<open>h_errno\<close>; and the \<open>errno\<close> of a failing
  \<open>sendmsg\<close> of the reply and of a failing \<open>send\<close> in \<open>send_died\<close>, 0 if it succeeds.
\<close>

record answers =
  getaddrinfo :: "string option \<Rightarrow> string option \<Rightarrow> hints option \<Rightarrow> int \<times> addrinfo list"
  getnameinfo :: "u8 list \<Rightarrow> bool \<Rightarrow> bool \<Rightarrow> u32 \<Rightarrow> int \<times> string \<times> string"
  ans_errno :: int
  ans_h_errno :: int
  ans_send :: int
  ans_died :: int

text \<open>The loop over the addresses: what has been written to the buffer, and the length of the message.\<close>

fun serialize_addrinfos :: "addrinfo list \<Rightarrow> u8 list \<Rightarrow> nat \<Rightarrow> (u8 list \<times> nat) option outcome" where
  "serialize_addrinfos [] buffer len = Ret (Some (buffer, len))"
| "serialize_addrinfos (k # ks) buffer len =
     obind (serialize_addrinfo k len (BUFSIZE - length buffer)) (\<lambda>p.
       case p of None \<Rightarrow> Ret None
       | Some (bytes, len) \<Rightarrow> serialize_addrinfos ks (buffer @ bytes) len)"

definition send_message :: "int \<Rightarrow> packet \<Rightarrow> packet result" where
  "send_message err p = (if 0 < err then Inl (- err) else Inr p)"

definition send_addrinfo_reply :: "int \<Rightarrow> u32 \<Rightarrow> int \<Rightarrow> addrinfo list \<Rightarrow> int \<Rightarrow> int \<Rightarrow> packet result outcome" where
  "send_addrinfo_reply err i ret ai e h =
     obind (if ret = 0 then serialize_addrinfos ai [] SIZEOF_AddrInfoResponse else Ret (Some ([], SIZEOF_AddrInfoResponse)))
      (\<lambda>p. case p of
         None \<Rightarrow> Ret (Inl (- ENOBUFS))
       | Some (buffer, len) \<Rightarrow>
           Ret (send_message err (Addrinfo_response i len ret e h (take (len - SIZEOF_AddrInfoResponse) buffer))))"

definition send_nameinfo_reply :: "int \<Rightarrow> u32 \<Rightarrow> int \<Rightarrow> string option \<Rightarrow> string option \<Rightarrow> int \<Rightarrow> int \<Rightarrow> packet result" where
  "send_nameinfo_reply err i ret host serv e h =
     (let sl = length (opt_bytes serv); hl = length (opt_bytes host)
      in send_message err (Nameinfo_response i (SIZEOF_NameInfoResponse + hl + sl) hl sl ret e h (opt_bytes host @ opt_bytes serv)))"

definition handle_request :: "answers \<Rightarrow> packet \<Rightarrow> packet result outcome" where
  \<comment> \<open>the reply it sends, or the error that ends the thread\<close>
  "handle_request a req =
     (if received req < SIZEOF_RHeader \<or> received req \<noteq> p_length req then Ret (Inl (- EIO))
      else case req of
        Addrinfo_request i n h node_len service_len bs \<Rightarrow>
          if received req < SIZEOF_AddrInfoRequest then Ret (Inl (- EBADMSG))
          else if received req \<noteq> SIZEOF_AddrInfoRequest + node_len + service_len then Ret (Inl (- EBADMSG))
          else let node = (if node_len = 0 then None else Some (bytes_string bs));
                   service = (if service_len = 0 then None else Some (bytes_string (drop node_len bs)));
                   (ret, result) = getaddrinfo a node service h
               in send_addrinfo_reply (ans_send a) i ret result (ans_errno a) (ans_h_errno a)
      | Nameinfo_request i n flags sockaddr_len gethost getserv bs \<Rightarrow>
          if received req < SIZEOF_NameInfoRequest then Ret (Inl (- EBADMSG))
          else if received req \<noteq> SIZEOF_NameInfoRequest + sockaddr_len then Ret (Inl (- EBADMSG))
          else if 128 < sockaddr_len then Ret (Inl (- EBADMSG))
          else let (ret, hostbuf, servbuf) = getnameinfo a (take sockaddr_len bs) gethost getserv flags
               in Ret (send_nameinfo_reply (ans_send a) i ret (if ret = 0 \<and> gethost then Some hostbuf else None)
                    (if ret = 0 \<and> getserv then Some servbuf else None) (ans_errno a) (ans_h_errno a))
      | Terminate_request n \<Rightarrow> Ret (Inl (- ECONNRESET))
      | _ \<Rightarrow> Abort)"

definition send_died :: "packet" where
  "send_died = Died_response SIZEOF_RHeader"

definition thread_died :: "int \<Rightarrow> packet list" where
  \<comment> \<open>what goes out when a thread ends, which does not look at the result of \<open>send_died\<close>\<close>
  "thread_died err = (case send_message err send_died of Inr p \<Rightarrow> [p] | Inl r \<Rightarrow> [])"

definition worker_handle :: "answers \<Rightarrow> packet \<Rightarrow> packet list outcome" where
  \<comment> \<open>the loop body of \<open>thread_worker\<close>, and the end of the thread when the request fails: what goes out\<close>
  "worker_handle a req =
     obind (handle_request a req) (\<lambda>r. case r of Inr p \<Rightarrow> Ret [p] | Inl e \<Rightarrow> Ret (thread_died (ans_died a)))"

lemma thread_died_cases: "thread_died err = [send_died] \<or> thread_died err = []"
  by (simp add: thread_died_def send_message_def)

end
