(* ===== verification/Resolve.thy ===== *)
theory Resolve
  imports Resolve_Wire
begin

text \<open>
  \<open>src/share/sd-resolve.c\<close>: the resolver that the daemon asks for the addresses of its
  server.  A query is an object of the heap, which maps an address to the struct while it is
  allocated; the session's list and table of queries hold addresses.  The two socket pairs are the
  queues of datagrams they contain, and a request that a thread works on is between them.  An
  access to memory that was released, and a failed assertion, is \<open>Abort\<close>.  Counters that
  count objects in memory or datagrams in a socket are natural numbers; the ids have their 32 bits.
\<close>

section \<open>Sessions and queries\<close>

definition WORKERS_MIN :: nat where "WORKERS_MIN = 1"
definition WORKERS_MAX :: nat where "WORKERS_MAX = 16"
definition QUERIES_MAX :: nat where "QUERIES_MAX = 256"

abbreviation (input) EBUSY :: int where "EBUSY \<equiv> 16"
abbreviation (input) ECHILD :: int where "ECHILD \<equiv> 10"
abbreviation (input) ENXIO :: int where "ENXIO \<equiv> 6"

datatype query_type = REQUEST_ADDRINFO | REQUEST_NAMEINFO

text \<open>
  \<open>q_attached\<close> stands for the pointer \<open>resolve\<close> of a query, which is null or the one
  session; \<open>q_handler\<close> for the address of the callback, 0 the null pointer.
\<close>

record query =
  q_n_ref :: nat
  q_attached :: bool
  q_type :: query_type
  q_done :: bool
  q_floating :: bool
  q_id :: u32
  q_ret :: int
  q_errno :: int
  q_h_errno :: int
  q_addrinfo :: "addrinfo list"
  q_serv :: "string option"
  q_host :: "string option"
  q_handler :: nat
  q_userdata :: nat

text \<open>
  The struct \<open>sd_resolve\<close>.  The last fields are not members: whether the struct has been
  freed, the id of the process, what the pointer to the default session holds, the heap of queries
  with its next free address, and the datagrams under way.
\<close>

record resolve =
  r_n_ref :: nat
  r_dead :: bool
  r_original_pid :: int
  r_fds :: "int list"
  r_n_valid_workers :: nat
  r_current_id :: u32
  r_query_array :: "nat option list"
  r_n_queries :: nat
  r_n_done :: nat
  r_n_outstanding :: nat
  r_event_source :: bool
  r_event :: bool
  r_current :: "nat option"
  r_default_resolve_ptr :: bool
  r_tid :: int
  r_queries :: "nat list"
  r_freed :: bool
  r_getpid :: int
  r_default_set :: bool
  r_heap :: "nat \<Rightarrow> query option"
  r_next :: nat
  r_requests :: "packet list"
  r_working :: "packet list"
  r_responses :: "packet list"

definition with_query :: "nat \<Rightarrow> resolve \<Rightarrow> (query \<Rightarrow> 'a outcome) \<Rightarrow> 'a outcome" where
  \<comment> \<open>a read of the query at an address\<close>
  "with_query q s f = (case r_heap s q of None \<Rightarrow> Abort | Some v \<Rightarrow> f v)"

definition set_query :: "nat \<Rightarrow> query \<Rightarrow> resolve \<Rightarrow> resolve" where
  "set_query q v s = s\<lparr>r_heap := (r_heap s)(q \<mapsto> v)\<rparr>"

definition resolve_pid_changed :: "resolve \<Rightarrow> bool" where
  "resolve_pid_changed s \<longleftrightarrow> r_original_pid s \<noteq> r_getpid s"

definition id_slot :: "u32 \<Rightarrow> nat" where
  "id_slot i = unat i mod QUERIES_MAX"

section \<open>Releasing\<close>

text \<open>\<open>resolve_query_disconnect\<close> of an attached query, up to the last statement.\<close>

definition detach_query :: "nat \<Rightarrow> resolve \<Rightarrow> resolve outcome" where
  "detach_query q s =
     with_query q s (\<lambda>v.
       c_assert (\<not> r_freed s \<and> 0 < r_n_queries s)
        (c_assert (q_done v \<longrightarrow> 0 < r_n_done s)
          (c_assert (r_query_array s ! id_slot (q_id v) = Some q)
            (Ret (set_query q (v\<lparr>q_attached := False\<rparr>)
              (s\<lparr>r_n_done := (if q_done v then r_n_done s - 1 else r_n_done s),
                 r_query_array := (r_query_array s)[id_slot (q_id v) := None],
                 r_queries := remove1 q (r_queries s),
                 r_n_queries := r_n_queries s - 1\<rparr>))))))"

definition sd_resolve_detach_event :: "resolve \<Rightarrow> int \<times> resolve" where
  "sd_resolve_detach_event s = (if \<not> r_event s then (0, s) else (1, s\<lparr>r_event_source := False, r_event := False\<rparr>))"

text \<open>
  A round of the loop of \<open>resolve_free\<close>: the query floats, so that disconnecting it does not
  release the session again, and releasing it afterwards does not disconnect it.
\<close>

definition release_floating :: "nat \<Rightarrow> resolve \<Rightarrow> resolve outcome" where
  "release_floating q s =
     with_query q s (\<lambda>v.
       c_assert (q_floating v)
        (obind (if q_attached v then detach_query q s else Ret s) (\<lambda>s.
          with_query q s (\<lambda>v.
            c_assert (1 \<le> q_n_ref v)
             (let v = v\<lparr>q_n_ref := q_n_ref v - 1\<rparr>
              in Ret (if q_n_ref v = 0 then s\<lparr>r_heap := (r_heap s)(q := None)\<rparr> else set_query q v s))))))"

fun resolve_free_queries :: "nat \<Rightarrow> resolve \<Rightarrow> resolve outcome" where
  "resolve_free_queries 0 s = (if r_queries s = [] then Ret s else Diverge)"
| "resolve_free_queries (Suc n) s =
     (case r_queries s of [] \<Rightarrow> Ret s | q # qs \<Rightarrow> obind (release_floating q s) (resolve_free_queries n))"

definition resolve_free :: "resolve \<Rightarrow> resolve outcome" where
  \<comment> \<open>the threads are gone after the last \<open>pthread_join\<close>, and the sockets with what was in them\<close>
  "resolve_free s =
     obind (resolve_free_queries (length (r_queries s)) s) (\<lambda>s.
       let s = s\<lparr>r_default_set := (if r_default_resolve_ptr s then False else r_default_set s), r_dead := True\<rparr>;
           s = snd (sd_resolve_detach_event s);
           s = (if 0 \<le> r_fds s ! 1
                then s\<lparr>r_requests := r_requests s @ replicate (r_n_valid_workers s) (Terminate_request SIZEOF_RHeader)\<rparr> else s)
       in Ret (s\<lparr>r_requests := [], r_working := [], r_responses := [], r_fds := replicate 4 (-1), r_freed := True\<rparr>))"

definition sd_resolve_ref :: "resolve \<Rightarrow> resolve outcome" where
  "sd_resolve_ref s = c_assert (\<not> r_freed s \<and> 1 \<le> r_n_ref s) (Ret (s\<lparr>r_n_ref := r_n_ref s + 1\<rparr>))"

definition sd_resolve_unref :: "resolve \<Rightarrow> resolve outcome" where
  "sd_resolve_unref s =
     c_assert (\<not> r_freed s \<and> 1 \<le> r_n_ref s)
      (let s = s\<lparr>r_n_ref := r_n_ref s - 1\<rparr> in if r_n_ref s = 0 then resolve_free s else Ret s)"

definition resolve_query_disconnect :: "nat \<Rightarrow> resolve \<Rightarrow> resolve outcome" where
  "resolve_query_disconnect q s =
     with_query q s (\<lambda>v.
       if \<not> q_attached v then Ret s
       else obind (detach_query q s) (\<lambda>s. if \<not> q_floating v then sd_resolve_unref s else Ret s))"

definition resolve_query_free :: "nat \<Rightarrow> resolve \<Rightarrow> resolve outcome" where
  "resolve_query_free q s =
     obind (resolve_query_disconnect q s) (\<lambda>s. Ret (s\<lparr>r_heap := (r_heap s)(q := None)\<rparr>))"

definition sd_resolve_query_ref :: "nat \<Rightarrow> resolve \<Rightarrow> resolve outcome" where
  "sd_resolve_query_ref q s =
     with_query q s (\<lambda>v. c_assert (1 \<le> q_n_ref v) (Ret (set_query q (v\<lparr>q_n_ref := q_n_ref v + 1\<rparr>) s)))"

definition sd_resolve_query_unref :: "nat \<Rightarrow> resolve \<Rightarrow> resolve outcome" where
  "sd_resolve_query_unref q s =
     with_query q s (\<lambda>v.
       c_assert (1 \<le> q_n_ref v)
        (let v = v\<lparr>q_n_ref := q_n_ref v - 1\<rparr>; s = set_query q v s
         in if q_n_ref v = 0 then resolve_query_free q s else Ret s))"

section \<open>Sessions\<close>

definition initial_resolve :: "int \<Rightarrow> resolve" where
  \<comment> \<open>zeroed memory with one reference\<close>
  "initial_resolve pid =
     \<lparr>r_n_ref = 1, r_dead = False, r_original_pid = pid, r_fds = replicate 4 (-1), r_n_valid_workers = 0, r_current_id = 0,
      r_query_array = replicate QUERIES_MAX None, r_n_queries = 0, r_n_done = 0, r_n_outstanding = 0,
      r_event_source = False, r_event = False, r_current = None, r_default_resolve_ptr = False, r_tid = 0, r_queries = [],
      r_freed = False, r_getpid = pid, r_default_set = False, r_heap = Map.empty, r_next = 1,
      r_requests = [], r_working = [], r_responses = []\<rparr>"

text \<open>\<open>pair1\<close> and \<open>pair2\<close> are the answers of \<open>socketpair\<close>, \<open>move\<close> that of \<open>fd_move_above_stdio\<close>.\<close>

definition sd_resolve_new :: "int \<Rightarrow> (int \<times> int) result \<Rightarrow> (int \<times> int) result \<Rightarrow> (int \<Rightarrow> int) \<Rightarrow> (int \<times> resolve option) outcome" where
  "sd_resolve_new pid pair1 pair2 move =
     (let s = initial_resolve pid; failed = (\<lambda>r s. obind (sd_resolve_unref s) (\<lambda>s. Ret (r, None)))
      in case pair1 of
           Inl e \<Rightarrow> failed (- e) s
         | Inr (a, b) \<Rightarrow>
             let s = s\<lparr>r_fds := [a, b, -1, -1]\<rparr>
             in (case pair2 of
                   Inl e \<Rightarrow> failed (- e) s
                 | Inr (c, d) \<Rightarrow> Ret (0, Some (s\<lparr>r_fds := map move [a, b, c, d]\<rparr>))))"

definition sd_resolve_default :: "bool \<Rightarrow> int \<Rightarrow> resolve option \<Rightarrow> (int \<times> resolve option) outcome \<Rightarrow> (int \<times> resolve option) outcome" where
  \<comment> \<open>\<open>ret\<close> is not null; the thread; the session of the pointer; the outcome of \<open>sd_resolve_new\<close>\<close>
  "sd_resolve_default ret tid default_resolve new =
     (if \<not> ret then Ret (of_bool (default_resolve \<noteq> None), default_resolve)
      else case default_resolve of
        Some s \<Rightarrow> obind (sd_resolve_ref s) (\<lambda>s. Ret (0, Some s))
      | None \<Rightarrow> obind new (\<lambda>(r, e).
          if r < 0 then Ret (r, None)
          else case e of None \<Rightarrow> Abort
          | Some s \<Rightarrow> Ret (1, Some (s\<lparr>r_default_resolve_ptr := True, r_tid := tid, r_default_set := True\<rparr>))))"

definition sd_resolve_get_tid :: "resolve \<Rightarrow> int result \<Rightarrow> int result" where
  \<comment> \<open>the second argument is the answer of \<open>sd_event_get_tid\<close>\<close>
  "sd_resolve_get_tid s event_tid =
     (if resolve_pid_changed s then Inl (- ECHILD)
      else if r_tid s \<noteq> 0 then Inr (r_tid s)
      else if r_event s then event_tid else Inl (- ENXIO))"

definition sd_resolve_get_fd :: "resolve \<Rightarrow> int" where
  "sd_resolve_get_fd s = (if resolve_pid_changed s then - ECHILD else r_fds s ! 2)"

definition sd_resolve_get_events :: "resolve \<Rightarrow> int" where
  "sd_resolve_get_events s = (if resolve_pid_changed s then - ECHILD else if r_n_done s < r_n_queries s then 1 else 0)"

definition sd_resolve_get_event :: "resolve \<Rightarrow> bool" where
  \<comment> \<open>whether there is one\<close>
  "sd_resolve_get_event s = r_event s"

definition sd_resolve_get_timeout :: "resolve \<Rightarrow> u64 result" where
  "sd_resolve_get_timeout s = (if resolve_pid_changed s then Inl (- ECHILD) else Inr (-1))"

definition sd_resolve_attach_event :: "bool \<Rightarrow> int \<Rightarrow> int \<Rightarrow> int \<Rightarrow> resolve \<Rightarrow> (int \<times> resolve) outcome" where
  \<comment> \<open>an event loop is given; the answers of \<open>sd_event_default\<close>, \<open>sd_event_add_io\<close> and \<open>sd_event_source_set_priority\<close>\<close>
  "sd_resolve_attach_event event default_r add_r priority_r s =
     (if r_event s then Ret (- EBUSY, s)
      else c_assert (\<not> r_event_source s)
       (if \<not> event \<and> default_r < 0 then Ret (default_r, s)
        else let s = s\<lparr>r_event := True\<rparr>
          in if add_r < 0 then Ret (add_r, snd (sd_resolve_detach_event s))
             else let s = s\<lparr>r_event_source := True\<rparr>
               in if priority_r < 0 then Ret (priority_r, snd (sd_resolve_detach_event s)) else Ret (0, s)))"

section \<open>Queries\<close>

text \<open>Answers of the calls that start a query: a positive \<open>errno\<close> of a failing call, or 0.\<close>

record os =
  os_mask :: int
  os_create :: "nat \<Rightarrow> int"
  os_unmask :: int
  os_sendmsg :: int

fun create_threads :: "(nat \<Rightarrow> int) \<Rightarrow> nat \<Rightarrow> resolve \<Rightarrow> int \<times> resolve" where
  \<comment> \<open>as many as are missing\<close>
  "create_threads create 0 s = (0, s)"
| "create_threads create (Suc k) s =
     (let r = create (r_n_valid_workers s)
      in if 0 < r then (- r, s) else create_threads create k (s\<lparr>r_n_valid_workers := r_n_valid_workers s + 1\<rparr>))"

definition start_threads :: "os \<Rightarrow> nat \<Rightarrow> resolve \<Rightarrow> int \<times> resolve" where
  "start_threads os extra s =
     (if 0 < os_mask os then (- os_mask os, s)
      else let n = max WORKERS_MIN (min WORKERS_MAX (r_n_outstanding s + extra));
               (r, s) = create_threads (os_create os) (n - r_n_valid_workers s) s
           in (if 0 < os_unmask os \<and> 0 \<le> r then - os_unmask os else r, s))"

text \<open>The loop that looks for a free place, of at most \<open>n\<close> rounds.\<close>

fun next_id :: "nat \<Rightarrow> nat option list \<Rightarrow> u32 \<Rightarrow> u32 outcome" where
  "next_id 0 a i = (if a ! id_slot i \<noteq> None then Diverge else Ret i)"
| "next_id (Suc n) a i = (if a ! id_slot i \<noteq> None then next_id n a (i + 1) else Ret i)"

definition new_query :: "bool \<Rightarrow> u32 \<Rightarrow> query" where
  "new_query floating i =
     \<lparr>q_n_ref = 1, q_attached = True, q_type = REQUEST_ADDRINFO, q_done = False, q_floating = floating, q_id = i,
      q_ret = 0, q_errno = 0, q_h_errno = 0, q_addrinfo = [], q_serv = None, q_host = None, q_handler = 0, q_userdata = 0\<rparr>"

definition alloc_query :: "os \<Rightarrow> bool \<Rightarrow> resolve \<Rightarrow> (nat result \<times> resolve) outcome" where
  "alloc_query os floating s =
     (if QUERIES_MAX \<le> r_n_queries s then Ret (Inl (- ENOBUFS), s)
      else case start_threads os 1 s of (r, s) \<Rightarrow>
        if r < 0 then Ret (Inl r, s)
        else obind (next_id QUERIES_MAX (r_query_array s) (r_current_id s)) (\<lambda>i.
          let q = r_next s;
              s = set_query q (new_query floating i)
                (s\<lparr>r_query_array := (r_query_array s)[id_slot i := Some q], r_current_id := i + 1, r_next := q + 1\<rparr>)
          in obind (if floating then Ret s else sd_resolve_ref s) (\<lambda>s.
               Ret (Inr q, s\<lparr>r_queries := q # r_queries s, r_n_queries := r_n_queries s + 1\<rparr>))))"

text \<open>What both kinds of query share: the new query is filled in, and its request sent.\<close>

definition start_query :: "os \<Rightarrow> bool \<Rightarrow> query_type \<Rightarrow> nat \<Rightarrow> nat \<Rightarrow> (u32 \<Rightarrow> packet) \<Rightarrow> resolve \<Rightarrow> (int \<times> nat option \<times> resolve) outcome" where
  "start_query os want ty callback userdata request s =
     obind (alloc_query os (\<not> want) s) (\<lambda>(r, s).
       case r of
         Inl r \<Rightarrow> Ret (r, None, s)
       | Inr q \<Rightarrow> with_query q s (\<lambda>v.
           let s = set_query q (v\<lparr>q_type := ty, q_handler := callback, q_userdata := userdata\<rparr>) s
           in if 0 < os_sendmsg os
              then obind (sd_resolve_query_unref q s) (\<lambda>s. Ret (- os_sendmsg os, None, s))
              else Ret (0, if want then Some q else None,
                     s\<lparr>r_requests := r_requests s @ [request (q_id v)], r_n_outstanding := r_n_outstanding s + 1\<rparr>)))"

definition sd_resolve_getaddrinfo :: "os \<Rightarrow> bool \<Rightarrow> string option \<Rightarrow> string option \<Rightarrow> hints option \<Rightarrow> nat \<Rightarrow> nat \<Rightarrow> resolve \<Rightarrow>
    (int \<times> nat option \<times> resolve) outcome" where
  \<comment> \<open>\<open>want\<close>: the query is returned; without that it floats\<close>
  "sd_resolve_getaddrinfo os want node service h callback userdata s =
     (if node = None \<and> service = None then Ret (- EINVAL, None, s)
      else if callback = 0 then Ret (- EINVAL, None, s)
      else if resolve_pid_changed s then Ret (- ECHILD, None, s)
      else start_query os want REQUEST_ADDRINFO callback userdata (\<lambda>i. addrinfo_request i node service h) s)"

definition sd_resolve_getnameinfo :: "os \<Rightarrow> bool \<Rightarrow> u8 list \<Rightarrow> u32 \<Rightarrow> u64 \<Rightarrow> nat \<Rightarrow> nat \<Rightarrow> resolve \<Rightarrow> (int \<times> nat option \<times> resolve) outcome" where
  \<comment> \<open>a socket address has 16 to 128 bytes\<close>
  "sd_resolve_getnameinfo os want sa flags get callback userdata s =
     (if length sa < 16 then Ret (- EINVAL, None, s)
      else if 128 < length sa then Ret (- EINVAL, None, s)
      else if get AND NOT 3 \<noteq> 0 then Ret (- EINVAL, None, s)
      else if callback = 0 then Ret (- EINVAL, None, s)
      else if resolve_pid_changed s then Ret (- ECHILD, None, s)
      else start_query os want REQUEST_NAMEINFO callback userdata (\<lambda>i. nameinfo_request i sa flags get) s)"

text \<open>The getters of a query look at the session it belongs to.\<close>

definition with_session :: "nat \<Rightarrow> resolve \<Rightarrow> 'a \<Rightarrow> (query \<Rightarrow> 'a outcome) \<Rightarrow> 'a outcome" where
  "with_session q s changed f =
     with_query q s (\<lambda>v. c_assert (q_attached v) (c_assert (\<not> r_freed s) (if resolve_pid_changed s then Ret changed else f v)))"

definition sd_resolve_query_is_done :: "nat \<Rightarrow> resolve \<Rightarrow> int outcome" where
  "sd_resolve_query_is_done q s = with_session q s (- ECHILD) (\<lambda>v. Ret (of_bool (q_done v)))"

definition sd_resolve_query_set_userdata :: "nat \<Rightarrow> nat \<Rightarrow> resolve \<Rightarrow> (nat \<times> resolve) outcome" where
  "sd_resolve_query_set_userdata q userdata s =
     with_session q s (0, s) (\<lambda>v. Ret (q_userdata v, set_query q (v\<lparr>q_userdata := userdata\<rparr>) s))"

definition sd_resolve_query_get_userdata :: "nat \<Rightarrow> resolve \<Rightarrow> nat outcome" where
  "sd_resolve_query_get_userdata q s = with_session q s 0 (\<lambda>v. Ret (q_userdata v))"

definition sd_resolve_query_get_resolve :: "nat \<Rightarrow> resolve \<Rightarrow> bool outcome" where
  \<comment> \<open>whether the answer is the session\<close>
  "sd_resolve_query_get_resolve q s = with_session q s False (\<lambda>v. Ret True)"

end
