(* ===== verification/Resolve_Process.thy ===== *)
theory Resolve_Process
  imports Resolve Event_System Hostname
begin

text \<open>
  The other half of \<open>src/share/sd-resolve.c\<close>: completing queries with the replies of the
  threads, and the program as a whole.  The program that uses the session keeps to the rules for
  references: it gives back only those it has.  What a callback does is a list of calls, and the
  threads take requests and answer them in any order.
\<close>

section \<open>The program that uses a session\<close>

text \<open>
  The references that the program has, what it asked under which id, and what its callbacks were
  told: the query, its id and its answer.
\<close>

record told =
  t_query :: nat
  t_id :: u32
  t_ret :: int
  t_errno :: int
  t_h_errno :: int
  t_addrinfo :: "addrinfo list"
  t_host :: "string option"
  t_serv :: "string option"

datatype question =
    Ask_addrinfo "string option" "string option" "hints option"
  | Ask_nameinfo "u8 list" u32 u64

record client =
  c_queries :: "nat \<Rightarrow> nat"
  c_sessions :: nat
  c_asked :: "u32 \<Rightarrow> question option"
  c_told :: "told list"

type_synonym config = "client \<times> resolve"

datatype client_call =
    Resolve_ref
  | Resolve_unref
  | Query_ref nat
  | Query_unref nat
  | Set_userdata nat nat
  | Attach_event bool int int int
  | Detach_event
  | Start_getaddrinfo os bool "string option" "string option" "hints option" nat nat
  | Start_getnameinfo os bool "u8 list" u32 u64 nat nat

text \<open>
  The calls the rules allow.  Strings end at their NUL.  A callback may use the query it was given.  The ids are not used up:
  after \<open>2 ^ 32\<close> of them, a late reply could be taken for that of another query.
\<close>

definition ids_left :: "resolve \<Rightarrow> bool" where
  "ids_left s \<longleftrightarrow> unat (r_current_id s) + QUERIES_MAX + 1 < 2 ^ 32"

definition c_string :: "string option \<Rightarrow> bool" where
  "c_string s \<longleftrightarrow> (case s of None \<Rightarrow> True | Some x \<Rightarrow> CHR 0x00 \<notin> set x)"

definition may_use :: "nat \<Rightarrow> config \<Rightarrow> bool" where
  "may_use q cs \<longleftrightarrow> 0 < c_queries (fst cs) q \<or> r_current (snd cs) = Some q"

definition attached_in :: "resolve \<Rightarrow> nat \<Rightarrow> bool" where
  "attached_in s q \<longleftrightarrow> (case r_heap s q of None \<Rightarrow> False | Some v \<Rightarrow> q_attached v)"

fun allowed :: "client_call \<Rightarrow> config \<Rightarrow> bool" where
  "allowed Resolve_ref (c, s) \<longleftrightarrow> 0 < c_sessions c"
| "allowed Resolve_unref (c, s) \<longleftrightarrow> 0 < c_sessions c"
| "allowed (Attach_event event d a p) (c, s) \<longleftrightarrow> 0 < c_sessions c"
| "allowed Detach_event (c, s) \<longleftrightarrow> 0 < c_sessions c"
| "allowed (Query_ref q) cs \<longleftrightarrow> may_use q cs"
| "allowed (Query_unref q) (c, s) \<longleftrightarrow> 0 < c_queries c q"
| "allowed (Set_userdata q u) (c, s) \<longleftrightarrow> may_use q (c, s) \<and> attached_in s q"
| "allowed (Start_getaddrinfo os want node service h callback userdata) (c, s) \<longleftrightarrow>
     0 < c_sessions c \<and> ids_left s \<and> c_string node \<and> c_string service"
| "allowed (Start_getnameinfo os want sa flags get callback userdata) (c, s) \<longleftrightarrow> 0 < c_sessions c \<and> ids_left s"

definition own_query :: "nat option \<Rightarrow> client \<Rightarrow> client" where
  \<comment> \<open>a query that was returned comes with a reference\<close>
  "own_query r c = (case r of None \<Rightarrow> c | Some q \<Rightarrow> c\<lparr>c_queries := (c_queries c)(q := Suc (c_queries c q))\<rparr>)"

definition note_asked :: "int \<Rightarrow> resolve \<Rightarrow> question \<Rightarrow> client \<Rightarrow> client" where
  \<comment> \<open>the id of the query that was started is the last one given out\<close>
  "note_asked r s qn c = (if r < 0 then c else c\<lparr>c_asked := (c_asked c)(r_current_id s - 1 \<mapsto> qn)\<rparr>)"

fun client_perform :: "client_call \<Rightarrow> config \<Rightarrow> config outcome" where
  "client_perform Resolve_ref (c, s) = obind (sd_resolve_ref s) (\<lambda>s. Ret (c\<lparr>c_sessions := c_sessions c + 1\<rparr>, s))"
| "client_perform Resolve_unref (c, s) = obind (sd_resolve_unref s) (\<lambda>s. Ret (c\<lparr>c_sessions := c_sessions c - 1\<rparr>, s))"
| "client_perform (Query_ref q) (c, s) = obind (sd_resolve_query_ref q s) (\<lambda>s. Ret (own_query (Some q) c, s))"
| "client_perform (Query_unref q) (c, s) =
     obind (sd_resolve_query_unref q s) (\<lambda>s. Ret (c\<lparr>c_queries := (c_queries c)(q := c_queries c q - 1)\<rparr>, s))"
| "client_perform (Set_userdata q u) (c, s) = obind (sd_resolve_query_set_userdata q u s) (\<lambda>(old, s). Ret (c, s))"
| "client_perform (Start_getaddrinfo os want node service h callback userdata) (c, s) =
     obind (sd_resolve_getaddrinfo os want node service h callback userdata s) (\<lambda>(r, q, s).
       Ret (note_asked r s (Ask_addrinfo node service h) (own_query q c), s))"
| "client_perform (Start_getnameinfo os want sa flags get callback userdata) (c, s) =
     obind (sd_resolve_getnameinfo os want sa flags get callback userdata s) (\<lambda>(r, q, s).
       Ret (note_asked r s (Ask_nameinfo sa flags get) (own_query q c), s))"
| "client_perform (Attach_event event d a p) (c, s) = obind (sd_resolve_attach_event event d a p s) (\<lambda>(r, s). Ret (c, s))"
| "client_perform Detach_event (c, s) = Ret (c, snd (sd_resolve_detach_event s))"

definition client_step :: "client_call \<Rightarrow> config \<Rightarrow> config outcome" where
  "client_step a cs = (if allowed a cs then client_perform a cs else Ret cs)"

fun client_steps :: "client_call list \<Rightarrow> config \<Rightarrow> config outcome" where
  "client_steps [] cs = Ret cs"
| "client_steps (a # as) cs = obind (client_step a cs) (client_steps as)"

section \<open>Replies\<close>

text \<open>
  The call of the handler by \<open>getaddrinfo_done\<close> and \<open>getnameinfo_done\<close>: it is told the
  answer, does the calls of the list, and returns \<open>r\<close>.
\<close>

definition query_done :: "query_type \<Rightarrow> nat \<Rightarrow> client_call list \<Rightarrow> config \<Rightarrow> config outcome" where
  "query_done ty q calls cs =
     (case cs of (c, s) \<Rightarrow>
       with_query q s (\<lambda>v.
         c_assert (q_done v) (c_assert (q_handler v \<noteq> 0)
          (client_steps calls
            (c\<lparr>c_told := \<lparr>t_query = q, t_id = q_id v, t_ret = q_ret v, t_errno = q_errno v, t_h_errno = q_h_errno v,
                 t_addrinfo = (if ty = REQUEST_ADDRINFO then q_addrinfo v else []),
                 t_host = (if ty = REQUEST_NAMEINFO then q_host v else None),
                 t_serv = (if ty = REQUEST_NAMEINFO then q_serv v else None)\<rparr> # c_told c\<rparr>, s)))))"

definition getaddrinfo_done :: "nat \<Rightarrow> client_call list \<Rightarrow> config \<Rightarrow> config outcome" where
  "getaddrinfo_done = query_done REQUEST_ADDRINFO"

definition getnameinfo_done :: "nat \<Rightarrow> client_call list \<Rightarrow> config \<Rightarrow> config outcome" where
  "getnameinfo_done = query_done REQUEST_NAMEINFO"

definition lookup_query :: "resolve \<Rightarrow> u32 \<Rightarrow> nat option outcome" where
  "lookup_query s i =
     (case r_query_array s ! id_slot i of
        None \<Rightarrow> Ret None
      | Some q \<Rightarrow> with_query q s (\<lambda>v. Ret (if q_id v = i then Some q else None)))"

text \<open>The end of \<open>complete_query\<close>, after the handler.\<close>

definition finish_query :: "nat \<Rightarrow> config \<Rightarrow> config outcome" where
  "finish_query q cs =
     (case cs of (c, s) \<Rightarrow>
       let s = s\<lparr>r_current := None\<rparr>
       in with_query q s (\<lambda>v.
            obind (if q_floating v
                   then obind (resolve_query_disconnect q s) (sd_resolve_query_unref q)
                   else Ret s) (\<lambda>s.
            obind (sd_resolve_query_unref q s) (\<lambda>s. Ret (c, s)))))"

definition complete_query :: "client_call list \<Rightarrow> int \<Rightarrow> nat \<Rightarrow> config \<Rightarrow> (int \<times> config) outcome" where
  "complete_query calls r q cs =
     (case cs of (c, s) \<Rightarrow>
       with_query q s (\<lambda>v.
         c_assert (\<not> q_done v) (c_assert (q_attached v)
          (let s = (set_query q (v\<lparr>q_done := True\<rparr>) s)\<lparr>r_n_done := r_n_done s + 1\<rparr>
           in obind (sd_resolve_query_ref q s) (\<lambda>s.
              let s = s\<lparr>r_current := Some q\<rparr>
              in obind (case q_type v of
                          REQUEST_ADDRINFO \<Rightarrow> getaddrinfo_done q calls (c, s)
                        | REQUEST_NAMEINFO \<Rightarrow> getnameinfo_done q calls (c, s)) (\<lambda>cs.
                 obind (finish_query q cs) (\<lambda>cs. Ret (r, cs))))))))"

definition query_assign_errno :: "int \<Rightarrow> int \<Rightarrow> int \<Rightarrow> query \<Rightarrow> query" where
  "query_assign_errno ret error h_error v = v\<lparr>q_ret := ret, q_errno := abs error, q_h_errno := h_error\<rparr>"

abbreviation (input) EAI_SYSTEM :: int where "EAI_SYSTEM \<equiv> -11"

lemma unserialize_addrinfo_shorter: "unserialize_addrinfo p = Inr (ai, p') \<Longrightarrow> length p' < length p"
proof -
  assume u: "unserialize_addrinfo p = Inr (ai, p')"
  let ?a = "unaligned_read_le64 (drop 16 p)" and ?c = "unaligned_read_le64 (drop 24 p)"
  have "p \<noteq> []" "unat ?a + unat ?c + 32 < 2 ^ 64" "p' = drop (unat (32 + ?a + ?c)) p"
    using u by (auto simp: unserialize_addrinfo_def sizeof_defs Let_def split: if_splits)
  moreover from this(2) have "unat (32 + ?a + ?c) = 32 + unat ?a + unat ?c" by (simp add: unat_word_ariths)
  ultimately show ?thesis by simp
qed

text \<open>The loop over the serialized addresses.\<close>

function unserialize_addrinfos :: "u8 list \<Rightarrow> addrinfo list result" where
  "unserialize_addrinfos p =
     (if p = [] then Inr []
      else case unserialize_addrinfo p of
             Inl r \<Rightarrow> Inl r
           | Inr (ai, p') \<Rightarrow> (case unserialize_addrinfos p' of Inl r \<Rightarrow> Inl r | Inr ais \<Rightarrow> Inr (ai # ais)))"
  by pat_completeness auto

termination unserialize_addrinfos
  by (relation "measure length") (auto simp: unserialize_addrinfo_shorter)

declare unserialize_addrinfos.simps [simp del]

text \<open>What the cases of \<open>handle_response\<close> store in the query.\<close>

definition fill_addrinfo :: "int \<Rightarrow> int \<Rightarrow> int \<Rightarrow> u8 list \<Rightarrow> query \<Rightarrow> query" where
  "fill_addrinfo ret e h bs v =
     (case unserialize_addrinfos bs of
        Inl r \<Rightarrow> (query_assign_errno EAI_SYSTEM r 0 v)\<lparr>q_addrinfo := []\<rparr>
      | Inr ais \<Rightarrow> (query_assign_errno ret e h v)\<lparr>q_addrinfo := ais\<rparr>)"

definition fill_nameinfo :: "nat \<Rightarrow> nat \<Rightarrow> int \<Rightarrow> int \<Rightarrow> int \<Rightarrow> nat \<Rightarrow> u8 list \<Rightarrow> query \<Rightarrow> query" where
  "fill_nameinfo hostlen servlen ret e h len bs v =
     (if DNS_HOSTNAME_MAX < hostlen \<or> DNS_HOSTNAME_MAX < servlen \<or> len < SIZEOF_NameInfoResponse + hostlen + servlen
      then query_assign_errno EAI_SYSTEM EIO 0 v
      else let v = query_assign_errno ret e h v;
               v = (if 0 < hostlen then v\<lparr>q_host := Some (bytes_string (take (hostlen - 1) bs))\<rparr> else v)
           in if 0 < servlen then v\<lparr>q_serv := Some (bytes_string (take (servlen - 1) (drop hostlen bs)))\<rparr> else v)"

definition handle_response :: "client_call list \<Rightarrow> int \<Rightarrow> packet \<Rightarrow> config \<Rightarrow> (int \<times> config) outcome" where
  "handle_response calls ret p cs =
     (case cs of (c, s) \<Rightarrow>
       if received p < SIZEOF_RHeader \<or> received p \<noteq> p_length p then Ret (- EIO, (c, s))
       else (case p of
         Died_response n \<Rightarrow> Ret (0, (c, s\<lparr>r_dead := True\<rparr>))
       | _ \<Rightarrow>
         c_assert (0 < r_n_outstanding s)
          (let s = s\<lparr>r_n_outstanding := r_n_outstanding s - 1\<rparr>
           in obind (lookup_query s (packet_id p)) (\<lambda>found.
             case found of
               None \<Rightarrow> Ret (0, (c, s))
             | Some q \<Rightarrow> with_query q s (\<lambda>v.
                 case p of
                   Addrinfo_response i n r e h bs \<Rightarrow>
                     if received p < SIZEOF_AddrInfoResponse \<or> q_type v \<noteq> REQUEST_ADDRINFO then Ret (- EBADMSG, (c, s))
                     else complete_query calls ret q
                            (c, set_query q (fill_addrinfo r e h (take (received p - SIZEOF_AddrInfoResponse) bs) v) s)
                 | Nameinfo_response i n hostlen servlen r e h bs \<Rightarrow>
                     if received p < SIZEOF_NameInfoResponse \<or> q_type v \<noteq> REQUEST_NAMEINFO then Ret (- EBADMSG, (c, s))
                     else complete_query calls ret q (c, set_query q (fill_nameinfo hostlen servlen r e h (received p) bs v) s)
                 | _ \<Rightarrow> Ret (0, (c, s)))))))"

definition process_message :: "int \<Rightarrow> client_call list \<Rightarrow> int \<Rightarrow> config \<Rightarrow> (int \<times> config) outcome" where
  \<comment> \<open>no datagram is empty\<close>
  "process_message err calls ret cs =
     (case cs of (c, s) \<Rightarrow>
       if resolve_pid_changed s then Ret (- ECHILD, (c, s))
       else if r_current s \<noteq> None then Ret (- EBUSY, (c, s))
       else if 0 < err then Ret (if err = EAGAIN then 0 else - err, (c, s))
       else (case r_responses s of
         [] \<Rightarrow> Ret (0, (c, s))
       | p # ps \<Rightarrow> obind (handle_response calls ret p (c, s\<lparr>r_responses := ps\<rparr>)) (\<lambda>(r, cs). Ret (if r < 0 then r else 1, cs))))"

definition sd_resolve_process :: "int \<Rightarrow> client_call list \<Rightarrow> int \<Rightarrow> config \<Rightarrow> (int \<times> config) outcome" where
  \<comment> \<open>the \<open>errno\<close> of a failing \<open>recv\<close>, or 0; the calls of the callback and its result\<close>
  "sd_resolve_process err calls ret cs =
     obind (sd_resolve_ref (snd cs)) (\<lambda>s.
     obind (process_message err calls ret (fst cs, s)) (\<lambda>(r, (c, s)).
     obind (sd_resolve_unref s) (\<lambda>s. Ret (r, (c, s)))))"

fun wait_for_message :: "int list \<Rightarrow> int outcome" where
  \<comment> \<open>the answers of \<open>fd_wait_for_event\<close>\<close>
  "wait_for_message [] = Diverge"
| "wait_for_message (r # rs) = (if r = - EINTR then wait_for_message rs else Ret r)"

definition sd_resolve_wait :: "int list \<Rightarrow> int \<Rightarrow> client_call list \<Rightarrow> int \<Rightarrow> config \<Rightarrow> (int \<times> config) outcome" where
  "sd_resolve_wait polls err calls ret cs =
     (if resolve_pid_changed (snd cs) then Ret (- ECHILD, cs)
      else if r_n_queries (snd cs) \<le> r_n_done (snd cs) then Ret (0, cs)
      else obind (wait_for_message polls) (\<lambda>r.
        if r < 0 then Ret (r, cs) else if r = 0 then Ret (- ETIMEDOUT, cs) else sd_resolve_process err calls ret cs))"

definition io_callback :: "int \<Rightarrow> client_call list \<Rightarrow> int \<Rightarrow> config \<Rightarrow> (int \<times> config) outcome" where
  "io_callback err calls ret cs = obind (sd_resolve_process err calls ret cs) (\<lambda>(r, cs). Ret (if r < 0 then r else 1, cs))"

section \<open>The threads\<close>

definition worker_receive :: "resolve \<Rightarrow> resolve" where
  \<comment> \<open>a thread receives the next request\<close>
  "worker_receive s =
     (case r_requests s of [] \<Rightarrow> s | p # ps \<Rightarrow> s\<lparr>r_requests := ps, r_working := r_working s @ [p]\<rparr>)"

definition worker_reply :: "(u32 \<Rightarrow> answers) \<Rightarrow> nat \<Rightarrow> resolve \<Rightarrow> resolve outcome" where
  \<comment> \<open>the thread that has the \<open>i\<close>-th of the requests in work answers it\<close>
  "worker_reply a i s =
     (let p = r_working s ! i
      in obind (worker_handle (a (packet_id p)) p) (\<lambda>reply.
           Ret (s\<lparr>r_working := take i (r_working s) @ drop (Suc i) (r_working s), r_responses := r_responses s @ reply\<rparr>)))"

definition worker_end :: "int \<Rightarrow> resolve \<Rightarrow> resolve" where
  \<comment> \<open>a thread that cannot receive, or sees that the session is dead, says that it ends, if its \<open>send\<close> does not fail\<close>
  "worker_end err s = s\<lparr>r_responses := r_responses s @ thread_died err\<rparr>"

end
