(* ===== verification/Resolve_Inv.thy ===== *)
theory Resolve_Inv
  imports Resolve_Process
begin

text \<open>
  The invariant of a resolver session.  Every query on the heap has one reference for each one
  that the program and the running callback have, and one more while it floats in the session;
  the session has one for each one of the program and for each query that does not float.
\<close>

section \<open>The list and the table of queries\<close>

text \<open>What the session's members depend on: of every query whether it is attached, whether it floats, its id, and whether it is done.\<close>

type_synonym view = "nat \<Rightarrow> (bool \<times> bool \<times> u32 \<times> bool) option"

definition view_of :: "resolve \<Rightarrow> view" where
  "view_of s q = map_option (\<lambda>v. (q_attached v, q_floating v, q_id v, q_done v)) (r_heap s q)"

fun member_with :: "(bool \<Rightarrow> u32 \<Rightarrow> bool \<Rightarrow> bool) \<Rightarrow> (bool \<times> bool \<times> u32 \<times> bool) option \<Rightarrow> bool" where
  "member_with P (Some (True, f, i, d)) = P f i d"
| "member_with P _ = False"

definition members :: "view \<Rightarrow> nat list \<Rightarrow> nat option list \<Rightarrow> nat \<Rightarrow> nat \<Rightarrow> bool" where
  "members w qs a n d \<longleftrightarrow>
     distinct qs \<and> (\<forall>q. q \<in> set qs \<longleftrightarrow> member_with (\<lambda>f i d. True) (w q)) \<and>
     length a = QUERIES_MAX \<and>
     (\<forall>j<QUERIES_MAX. \<forall>q. a ! j = Some q \<longleftrightarrow> member_with (\<lambda>f i d. id_slot i = j) (w q)) \<and>
     n = length qs \<and> d = length (filter (\<lambda>q. member_with (\<lambda>f i d. d) (w q)) qs)"

definition owners :: "view \<Rightarrow> nat list \<Rightarrow> nat" where
  \<comment> \<open>the queries that do not float\<close>
  "owners w qs = length (filter (\<lambda>q. member_with (\<lambda>f i d. \<not> f) (w q)) qs)"

lemma id_slot_less: "id_slot i < QUERIES_MAX"
  by (simp add: id_slot_def QUERIES_MAX_def)

lemma length_filter_remove1:
  assumes "distinct xs" "q \<in> set xs" "\<And>x. x \<noteq> q \<Longrightarrow> P' x = P x"
  shows "length (filter P xs) = length (filter P' (remove1 q xs)) + of_bool (P q)"
proof -
  obtain ys zs where xs: "xs = ys @ q # zs" using assms(2) by (meson split_list)
  then have q: "q \<notin> set ys" "q \<notin> set zs" using assms(1) by auto
  have "x \<in> set ys \<union> set zs \<Longrightarrow> P' x = P x" for x using q assms(3) [of x] by blast
  then have "filter P' ys = filter P ys" "filter P' zs = filter P zs" by (simp_all cong: filter_cong)
  then show ?thesis using q by (simp add: xs remove1_append)
qed

lemma length_filter_update:
  assumes "distinct xs" "q \<in> set xs" "\<And>x. x \<noteq> q \<Longrightarrow> P' x = P x"
  shows "length (filter P' xs) + of_bool (P q) = length (filter P xs) + of_bool (P' q)"
  using length_filter_remove1 [OF assms(1,2), of P P] length_filter_remove1 [OF assms(1,2), of P P']
    length_filter_remove1 [OF assms(1,2), of P' P'] assms(3) by (auto simp: of_bool_def split: if_splits)

lemma members_slot: "members w qs a n d \<Longrightarrow> w q = Some (True, f, i, e) \<Longrightarrow> a ! id_slot i = Some q"
  using id_slot_less [of i] by (auto simp: members_def)

lemma members_in: "members w qs a n d \<Longrightarrow> w q = Some (True, f, i, e) \<Longrightarrow> q \<in> set qs \<and> distinct qs"
  by (auto simp: members_def)

lemma members_remove:
  assumes "members w qs a n d" "w q = Some (True, f, i, e)"
  shows "members (w(q \<mapsto> (False, f, i, e))) (remove1 q qs) (a[id_slot i := None]) (n - 1) (if e then d - 1 else d)"
    "0 < n" "e \<Longrightarrow> 0 < d" "owners w qs = owners (w(q \<mapsto> (False, f, i, e))) (remove1 q qs) + of_bool (\<not> f)"
proof -
  have q: "q \<in> set qs" "distinct qs" using members_in [OF assms] by auto
  let ?w = "w(q \<mapsto> (False, f, i, e))"
  have d: "d = length (filter (\<lambda>q. member_with (\<lambda>f i d. d) (?w q)) (remove1 q qs)) + of_bool e"
    using length_filter_remove1 [OF q(2,1), of "\<lambda>q. member_with (\<lambda>f i d. d) (?w q)" "\<lambda>q. member_with (\<lambda>f i d. d) (w q)"] assms
    by (auto simp: members_def)
  show "owners w qs = owners ?w (remove1 q qs) + of_bool (\<not> f)"
    using length_filter_remove1 [OF q(2,1), of "\<lambda>q. member_with (\<lambda>f i d. \<not> f) (?w q)" "\<lambda>q. member_with (\<lambda>f i d. \<not> f) (w q)"] assms(2)
    by (auto simp: owners_def)
  show "0 < n" using assms(1) q by (cases qs) (auto simp: members_def)
  show "e \<Longrightarrow> 0 < d" using d by simp
  have slot: "a ! id_slot i = Some q" using members_slot [OF assms] .
  have a: "(a[id_slot i := None]) ! j = Some x \<longleftrightarrow> member_with (\<lambda>f i d. id_slot i = j) (?w x)" if "j < QUERIES_MAX" for j x
  proof -
    have "a ! j = Some x \<longleftrightarrow> member_with (\<lambda>f i d. id_slot i = j) (w x)" "length a = QUERIES_MAX" using assms(1) that by (auto simp: members_def)
    then show ?thesis using assms(2) that slot by (cases "j = id_slot i"; cases "x = q") auto
  qed
  show "members ?w (remove1 q qs) (a[id_slot i := None]) (n - 1) (if e then d - 1 else d)"
  proof -
    have "x \<in> set (remove1 q qs) \<longleftrightarrow> member_with (\<lambda>f i d. True) (?w x)" for x
      using assms(1) q by (auto simp: members_def)
    moreover have "length (remove1 q qs) = n - 1" using assms(1) q by (simp add: members_def length_remove1)
    moreover have "length (filter (\<lambda>q. member_with (\<lambda>f i d. d) (?w q)) (remove1 q qs)) = (if e then d - 1 else d)" using d by simp
    ultimately show ?thesis using assms(1) q a unfolding members_def by (simp del: fun_upd_apply)
  qed
qed

lemma members_add:
  assumes "members w qs a n d" "w q = None" "a ! id_slot i = None"
  shows "members (w(q \<mapsto> (True, f, i, False))) (q # qs) (a[id_slot i := Some q]) (Suc n) d"
    "owners (w(q \<mapsto> (True, f, i, False))) (q # qs) = owners w qs + of_bool (\<not> f)"
proof -
  let ?w = "w(q \<mapsto> (True, f, i, False))"
  have q: "q \<notin> set qs" using assms by (auto simp: members_def)
  then have d: "filter (\<lambda>x. member_with P (?w x)) qs = filter (\<lambda>x. member_with P (w x)) qs" for P
    by (intro filter_cong) auto
  have "?w q = Some (True, f, i, False)" by simp
  then show "owners ?w (q # qs) = owners w qs + of_bool (\<not> f)" unfolding owners_def using d [of "\<lambda>f i d. \<not> f"] by (cases f) (simp_all del: fun_upd_apply)
  have a: "(a[id_slot i := Some q]) ! j = Some x \<longleftrightarrow> member_with (\<lambda>f i d. id_slot i = j) (?w x)" if "j < QUERIES_MAX" for j x
  proof -
    have "a ! j = Some x \<longleftrightarrow> member_with (\<lambda>f i d. id_slot i = j) (w x)" "length a = QUERIES_MAX" using assms(1) that by (auto simp: members_def)
    then show ?thesis using assms(2,3) that by (cases "j = id_slot i"; cases "x = q") auto
  qed
  show "members ?w (q # qs) (a[id_slot i := Some q]) (Suc n) d"
  proof -
    have "length (filter (\<lambda>q. member_with (\<lambda>f i d. d) (?w q)) (q # qs)) = d"
      using d [of "\<lambda>f i d. d"] assms(1) by (simp add: members_def)
    moreover have "x \<in> set (q # qs) \<longleftrightarrow> member_with (\<lambda>f i d. True) (?w x)" for x
      using assms(1) by (auto simp: members_def)
    ultimately show ?thesis using assms(1) q a unfolding members_def by (simp del: fun_upd_apply filter.simps set_simps)
  qed
qed

lemma members_done:
  assumes "members w qs a n d" "w q = Some (True, f, i, False)"
  shows "members (w(q \<mapsto> (True, f, i, True))) qs a n (Suc d)" "owners (w(q \<mapsto> (True, f, i, True))) qs = owners w qs"
proof -
  let ?w = "w(q \<mapsto> (True, f, i, True))"
  have q: "q \<in> set qs" "distinct qs" using members_in [OF assms] by auto
  have "length (filter (\<lambda>q. member_with (\<lambda>f i d. d) (?w q)) qs) = Suc d"
    using length_filter_update [OF q(2,1), of "\<lambda>q. member_with (\<lambda>f i d. d) (?w q)" "\<lambda>q. member_with (\<lambda>f i d. d) (w q)"] assms
    by (auto simp: members_def)
  then show "members ?w qs a n (Suc d)" using assms by (auto simp: members_def)
  have P: "member_with (\<lambda>f i d. \<not> f) (?w x) = member_with (\<lambda>f i d. \<not> f) (w x)" for x using assms(2) by auto
  show "owners ?w qs = owners w qs" unfolding owners_def P ..
qed

lemma members_forget:
  assumes "members w qs a n d" "w q = Some (False, f, i, e)"
  shows "members (w(q := None)) qs a n d" "owners (w(q := None)) qs = owners w qs"
proof -
  have P: "member_with P ((w(q := None)) x) = member_with P (w x)" for P x using assms(2) by auto
  show "members (w(q := None)) qs a n d" using assms(1) unfolding members_def P .
  show "owners (w(q := None)) qs = owners w qs" unfolding owners_def P ..
qed

text \<open>A session that is not full has a free place.\<close>

lemma members_free_slot:
  assumes "members w qs a n d" "n < QUERIES_MAX"
  shows "\<exists>j<QUERIES_MAX. a ! j = None"
proof (rule ccontr)
  assume "\<not> ?thesis"
  then have full: "j < QUERIES_MAX \<Longrightarrow> \<exists>q. a ! j = Some q" for j by auto
  define f where "f j = the (a ! j)" for j
  have f: "j < QUERIES_MAX \<Longrightarrow> member_with (\<lambda>f i d. id_slot i = j) (w (f j))" for j
  proof -
    assume j: "j < QUERIES_MAX"
    with full obtain q where q: "a ! j = Some q" by blast
    with j assms(1) have "member_with (\<lambda>f i d. id_slot i = j) (w q)" by (simp add: members_def)
    with q show ?thesis by (simp add: f_def)
  qed
  have "inj_on f {..<QUERIES_MAX}"
  proof (rule inj_onI)
    fix j k assume jk: "j \<in> {..<QUERIES_MAX}" "k \<in> {..<QUERIES_MAX}" "f j = f k"
    then show "j = k" using f [of j] f [of k] by (cases "w (f j)"; cases "the (w (f j))") (auto elim: member_with.elims)
  qed
  moreover have "f ` {..<QUERIES_MAX} \<subseteq> set qs"
  proof
    fix q assume "q \<in> f ` {..<QUERIES_MAX}"
    then obtain j where "j < QUERIES_MAX" "q = f j" by auto
    with f [of j] have "member_with (\<lambda>f i d. True) (w q)" by (auto elim!: member_with.elims)
    with assms(1) show "q \<in> set qs" by (simp add: members_def)
  qed
  ultimately have "QUERIES_MAX \<le> card (set qs)" using card_inj_on_le [of f "{..<QUERIES_MAX}" "set qs"] by simp
  also have "card (set qs) \<le> n" using assms(1) card_length [of qs] by (simp add: members_def)
  finally show False using assms(2) by simp
qed

section \<open>References\<close>

definition refs_ok :: "(nat \<Rightarrow> nat) \<Rightarrow> resolve \<Rightarrow> bool" where
  "refs_ok refs s \<longleftrightarrow>
     (\<forall>q. case r_heap s q of
        None \<Rightarrow> refs q = 0
      | Some v \<Rightarrow> q < r_next s \<and> q_n_ref v = refs q + of_bool (q_attached v \<and> q_floating v))"

definition session_ok :: "nat \<Rightarrow> resolve \<Rightarrow> bool" where
  "session_ok rr s \<longleftrightarrow>
     (if r_freed s then rr = 0 \<and> r_queries s = [] \<and> \<not> r_event_source s \<and> r_requests s = [] \<and> r_working s = [] \<and> r_responses s = []
      else r_n_ref s = rr + owners (view_of s) (r_queries s)) \<and>
     (r_event_source s \<longrightarrow> r_event s)"

definition res_core :: "(nat \<Rightarrow> nat) \<Rightarrow> nat \<Rightarrow> resolve \<Rightarrow> bool" where
  "res_core refs rr s \<longleftrightarrow>
     refs_ok refs s \<and> session_ok rr s \<and> members (view_of s) (r_queries s) (r_query_array s) (r_n_queries s) (r_n_done s)"

definition res_wf :: "(nat \<Rightarrow> nat) \<Rightarrow> nat \<Rightarrow> resolve \<Rightarrow> bool" where
  "res_wf refs rr s \<longleftrightarrow> res_core refs rr s \<and> (\<not> r_freed s \<longrightarrow> 1 \<le> r_n_ref s)"

text \<open>Queries on the heap that nobody refers to: there are some only while one is being freed.\<close>

definition garbage :: "resolve \<Rightarrow> nat set" where
  "garbage s = {q. \<exists>v. r_heap s q = Some v \<and> q_n_ref v = 0}"

text \<open>The queries that float in the session: only the session itself lets them go.\<close>

definition floats :: "resolve \<Rightarrow> nat set" where
  "floats s = {q. \<exists>v. r_heap s q = Some v \<and> q_attached v \<and> q_floating v}"

text \<open>What releasing leaves alone: no query is new or changes but in its references and its session.\<close>

definition same_query :: "query \<Rightarrow> query \<Rightarrow> bool" where
  "same_query v v' \<longleftrightarrow>
     q_type v' = q_type v \<and> q_done v' = q_done v \<and> q_floating v' = q_floating v \<and> q_id v' = q_id v \<and> q_ret v' = q_ret v \<and>
     q_errno v' = q_errno v \<and> q_h_errno v' = q_h_errno v \<and> q_addrinfo v' = q_addrinfo v \<and> q_serv v' = q_serv v \<and>
     q_host v' = q_host v \<and> q_handler v' = q_handler v \<and> (q_attached v' \<longrightarrow> q_attached v)"

definition shrinks :: "resolve \<Rightarrow> resolve \<Rightarrow> bool" where
  "shrinks s s' \<longleftrightarrow>
     (\<forall>q v'. r_heap s' q = Some v' \<longrightarrow> (\<exists>v. r_heap s q = Some v \<and> same_query v v')) \<and>
     r_current s' = r_current s \<and> r_current_id s \<le> r_current_id s' \<and> r_next s \<le> r_next s' \<and>
     r_n_outstanding s' = r_n_outstanding s \<and> (r_n_valid_workers s \<le> WORKERS_MAX \<longrightarrow> r_n_valid_workers s' \<le> WORKERS_MAX) \<and>
     (r_requests s' = r_requests s \<and> r_working s' = r_working s \<and> r_responses s' = r_responses s \<or>
      r_requests s' = [] \<and> r_working s' = [] \<and> r_responses s' = [])"

lemma same_query_refl: "same_query v v"
  by (simp add: same_query_def)

lemma same_query_trans: "same_query v v' \<Longrightarrow> same_query v' v'' \<Longrightarrow> same_query v v''"
  by (simp add: same_query_def)

lemma shrinks_refl: "shrinks s s"
  using same_query_refl by (auto simp: shrinks_def)

lemma shrinksD: "shrinks s s' \<Longrightarrow> r_heap s' q = Some v' \<Longrightarrow> \<exists>v. r_heap s q = Some v \<and> same_query v v'"
  unfolding shrinks_def by blast

lemma shrinks_trans:
  assumes "shrinks s s'" "shrinks s' s''"
  shows "shrinks s s''"
proof -
  have "\<exists>v. r_heap s q = Some v \<and> same_query v v''" if "r_heap s'' q = Some v''" for q v''
    using shrinksD [OF assms(2) that] shrinksD [OF assms(1), of q] same_query_trans by blast
  moreover note assms [unfolded shrinks_def]
  ultimately show ?thesis unfolding shrinks_def by (intro conjI allI impI) (auto intro: order_trans)
qed

lemma with_query_Some [simp]: "r_heap s q = Some v \<Longrightarrow> with_query q s f = f v"
  by (simp add: with_query_def)

lemma set_query_sel [simp]:
  "r_heap (set_query q v s) = (r_heap s)(q \<mapsto> v)" "r_queries (set_query q v s) = r_queries s" "r_freed (set_query q v s) = r_freed s"
  "r_query_array (set_query q v s) = r_query_array s" "r_n_queries (set_query q v s) = r_n_queries s" "r_n_done (set_query q v s) = r_n_done s"
  "r_n_ref (set_query q v s) = r_n_ref s" "r_next (set_query q v s) = r_next s" "r_current (set_query q v s) = r_current s"
  "r_current_id (set_query q v s) = r_current_id s" "r_n_outstanding (set_query q v s) = r_n_outstanding s"
  "r_n_valid_workers (set_query q v s) = r_n_valid_workers s" "r_requests (set_query q v s) = r_requests s"
  "r_working (set_query q v s) = r_working s" "r_responses (set_query q v s) = r_responses s"
  "r_event_source (set_query q v s) = r_event_source s" "r_event (set_query q v s) = r_event s"
  "r_original_pid (set_query q v s) = r_original_pid s" "r_getpid (set_query q v s) = r_getpid s"
  by (simp_all add: set_query_def)

lemma view_of_Some: "r_heap s q = Some v \<Longrightarrow> view_of s q = Some (q_attached v, q_floating v, q_id v, q_done v)"
  by (simp add: view_of_def)

lemma view_of_heap: "view_of s' = (view_of s)(q := x)"
  if "r_heap s' = (r_heap s)(q := y)" "x = map_option (\<lambda>v. (q_attached v, q_floating v, q_id v, q_done v)) y"
  using that by (auto simp: view_of_def)

lemma refs_okD: "refs_ok refs s \<Longrightarrow> r_heap s q = Some v \<Longrightarrow> q < r_next s \<and> q_n_ref v = refs q + of_bool (q_attached v \<and> q_floating v)"
  by (drule refs_ok_def [THEN iffD1, THEN spec [of _ q]]) simp

lemma refs_ok_update:
  assumes "refs_ok refs s" "r_heap s' = (r_heap s)(q := y)" "r_next s \<le> r_next s'" "\<And>x. x \<noteq> q \<Longrightarrow> refs' x = refs x"
    "y = None \<Longrightarrow> refs' q = 0" "\<And>v. y = Some v \<Longrightarrow> q < r_next s' \<and> q_n_ref v = refs' q + of_bool (q_attached v \<and> q_floating v)"
  shows "refs_ok refs' s'"
  unfolding refs_ok_def
proof
  fix x
  show "case r_heap s' x of None \<Rightarrow> refs' x = 0 | Some v \<Rightarrow> x < r_next s' \<and> q_n_ref v = refs' x + of_bool (q_attached v \<and> q_floating v)"
  proof (cases "x = q")
    case True
    then show ?thesis using assms(2,5,6) by (cases y) simp_all
  next
    case False
    then have "case r_heap s x of None \<Rightarrow> refs x = 0 | Some v \<Rightarrow> x < r_next s \<and> q_n_ref v = refs x + of_bool (q_attached v \<and> q_floating v)"
      using assms(1) by (simp add: refs_ok_def)
    then show ?thesis using False assms(2,3,4) by (cases "r_heap s x") auto
  qed
qed

lemma refs_ok_cong:
  assumes "refs_ok refs s" "r_heap s' = r_heap s" "r_next s' = r_next s"
  shows "refs_ok refs s'"
  using assms(1) unfolding refs_ok_def assms(2,3) .

lemma view_of_cong: "r_heap s' = r_heap s \<Longrightarrow> view_of s' = view_of s"
  by (intro ext) (simp add: view_of_def)

lemma session_ok_cong:
  "session_ok rr s \<Longrightarrow> r_freed s' = r_freed s \<Longrightarrow> owners (view_of s') (r_queries s') = owners (view_of s) (r_queries s) \<Longrightarrow>
     r_queries s' = r_queries s \<Longrightarrow> r_event_source s' = r_event_source s \<Longrightarrow> r_event s' = r_event s \<Longrightarrow> r_n_ref s' = r_n_ref s \<Longrightarrow>
     r_requests s' = r_requests s \<Longrightarrow> r_working s' = r_working s \<Longrightarrow> r_responses s' = r_responses s \<Longrightarrow> session_ok rr s'"
  by (simp add: session_ok_def)

text \<open>A change of a query that keeps its place.\<close>

lemma res_core_set_query:
  assumes "res_core refs rr s" "r_heap s q = Some v"
    "q_attached v' = q_attached v" "q_floating v' = q_floating v" "q_id v' = q_id v" "q_done v' = q_done v"
    "q_n_ref v' = n + of_bool (q_attached v \<and> q_floating v)"
  shows "res_core (refs(q := n)) rr (set_query q v' s)"
proof -
  have w: "view_of (set_query q v' s) = view_of s"
    using assms by (intro ext) (simp add: view_of_def)
  have "refs_ok (refs(q := n)) (set_query q v' s)"
    by (rule refs_ok_update [of refs s _ q "Some v'"]) (use assms refs_okD [of refs s q v] in \<open>auto simp: res_core_def\<close>)
  moreover have "session_ok rr (set_query q v' s)"
    using assms(1) by (auto simp: res_core_def w intro: session_ok_cong)
  ultimately show ?thesis using assms(1) by (simp add: res_core_def w)
qed

lemma res_wf_set_query:
  assumes "res_wf refs rr s" "r_heap s q = Some v"
    "q_attached v' = q_attached v" "q_floating v' = q_floating v" "q_id v' = q_id v" "q_done v' = q_done v"
    "q_n_ref v' = n + of_bool (q_attached v \<and> q_floating v)"
  shows "res_wf (refs(q := n)) rr (set_query q v' s)"
  using assms res_core_set_query by (simp add: res_wf_def)

text \<open>A query that is detached.\<close>

lemma detach_query_core:
  assumes "res_core refs rr s" "r_heap s q = Some v" "q_attached v"
  obtains s' where "detach_query q s = Ret s'"
    "res_core (if q_floating v then refs(q := Suc (refs q)) else refs) (if q_floating v then rr else Suc rr) s'"
    "r_heap s' = (r_heap s)(q \<mapsto> v\<lparr>q_attached := False\<rparr>)" "r_n_ref s' = r_n_ref s" "r_freed s' = r_freed s" "\<not> r_freed s"
    "shrinks s s'" "r_queries s' = remove1 q (r_queries s)"
proof -
  note m = assms(1) [unfolded res_core_def]
  have w: "view_of s q = Some (True, q_floating v, q_id v, q_done v)" using view_of_Some [OF assms(2)] assms(3) by simp
  have mem: "members (view_of s) (r_queries s) (r_query_array s) (r_n_queries s) (r_n_done s)" using m by simp
  have nf: "\<not> r_freed s" using m members_in [OF mem w] by (auto simp: session_ok_def)
  define s' where "s' = set_query q (v\<lparr>q_attached := False\<rparr>)
              (s\<lparr>r_n_done := (if q_done v then r_n_done s - 1 else r_n_done s),
                 r_query_array := (r_query_array s)[id_slot (q_id v) := None],
                 r_queries := remove1 q (r_queries s),
                 r_n_queries := r_n_queries s - 1\<rparr>)"
  have heap: "r_heap s' = (r_heap s)(q \<mapsto> v\<lparr>q_attached := False\<rparr>)" by (simp add: s'_def)
  have w': "view_of s' = (view_of s)(q \<mapsto> (False, q_floating v, q_id v, q_done v))"
    by (rule view_of_heap [OF heap]) simp
  have ret: "detach_query q s = Ret s'"
    using assms(2) nf members_remove(2,3) [OF mem w] members_slot [OF mem w] by (simp add: detach_query_def s'_def c_assert_def)
  have "refs_ok (if q_floating v then refs(q := Suc (refs q)) else refs) s'"
    by (rule refs_ok_update [of refs, OF _ heap]) (use m refs_okD [of refs s q v] assms(2,3) in \<open>auto simp: s'_def\<close>)
  moreover have "session_ok (if q_floating v then rr else Suc rr) s'"
    using m nf members_remove(4) [OF mem w] unfolding session_ok_def w' by (auto simp: s'_def)
  moreover have "members (view_of s') (r_queries s') (r_query_array s') (r_n_queries s') (r_n_done s')"
    using members_remove(1) [OF mem w] unfolding w' by (simp add: s'_def)
  ultimately have core: "res_core (if q_floating v then refs(q := Suc (refs q)) else refs) (if q_floating v then rr else Suc rr) s'"
    by (simp add: res_core_def)
  have "shrinks s s'" using assms(2) same_query_refl by (auto simp: shrinks_def s'_def same_query_def)
  then show thesis using that [OF ret core heap] nf by (simp add: s'_def)
qed

text \<open>A reference to a detached query is given back.\<close>

lemma drop_detached:
  assumes "res_core (refs(q := Suc n)) rr s" "r_heap s q = Some v" "\<not> q_attached v"
  defines "s' \<equiv> (if n = 0 then s\<lparr>r_heap := (r_heap s)(q := None)\<rparr> else set_query q (v\<lparr>q_n_ref := n\<rparr>) s)"
  shows "res_core (refs(q := n)) rr s'" "q_n_ref v = Suc n" "shrinks s s'" "garbage s' \<subseteq> garbage s"
    "r_n_ref s' = r_n_ref s" "r_freed s' = r_freed s" "r_queries s' = r_queries s"
proof -
  note m = assms(1) [unfolded res_core_def]
  show n: "q_n_ref v = Suc n" using refs_okD [of "refs(q := Suc n)" s q v] m assms(2,3) by simp
  show "shrinks s s'" using assms(2,3) same_query_refl by (auto simp: s'_def shrinks_def same_query_def)
  show "garbage s' \<subseteq> garbage s" by (auto simp: s'_def garbage_def split: if_splits)
  show "r_n_ref s' = r_n_ref s" "r_freed s' = r_freed s" "r_queries s' = r_queries s" by (simp_all add: s'_def)
  show "res_core (refs(q := n)) rr s'"
  proof (cases "n = 0")
    case True
    have w: "view_of s q = Some (False, q_floating v, q_id v, q_done v)" using view_of_Some [OF assms(2)] assms(3) by simp
    have heap: "r_heap s' = (r_heap s)(q := None)" using True by (simp add: s'_def)
    have w': "view_of s' = (view_of s)(q := None)" by (rule view_of_heap [OF heap]) simp
    have mem: "members (view_of s) (r_queries s) (r_query_array s) (r_n_queries s) (r_n_done s)" using m by simp
    have "refs_ok (refs(q := n)) s'"
      by (rule refs_ok_update [of "refs(q := Suc n)", OF _ heap]) (use m True in \<open>simp_all add: s'_def\<close>)
    moreover have "session_ok rr s'"
      using m members_forget(2) [OF mem w] True unfolding session_ok_def w' by (simp add: s'_def)
    moreover have "members (view_of s') (r_queries s') (r_query_array s') (r_n_queries s') (r_n_done s')"
      using members_forget(1) [OF mem w] True unfolding w' by (simp add: s'_def)
    ultimately show ?thesis by (simp add: res_core_def)
  next
    case False
    have "res_core ((refs(q := Suc n))(q := n)) rr (set_query q (v\<lparr>q_n_ref := n\<rparr>) s)"
      by (rule res_core_set_query [OF assms(1,2)]) (use assms(3) in simp_all)
    then show ?thesis using False by (simp add: s'_def)
  qed
qed

section \<open>Releasing the session\<close>

lemma release_floating_core:
  assumes "res_core refs 0 s" "r_heap s q = Some v" "q_attached v" "q_floating v"
  obtains s' where "release_floating q s = Ret s'" "res_core refs 0 s'" "shrinks s s'" "garbage s' \<subseteq> garbage s"
    "r_queries s' = remove1 q (r_queries s)" "r_n_ref s' = r_n_ref s" "r_freed s' = r_freed s"
proof -
  obtain s1 where s1: "detach_query q s = Ret s1" "res_core (refs(q := Suc (refs q))) 0 s1"
    "r_heap s1 = (r_heap s)(q \<mapsto> v\<lparr>q_attached := False\<rparr>)" "r_n_ref s1 = r_n_ref s" "r_freed s1 = r_freed s" "shrinks s s1"
    "r_queries s1 = remove1 q (r_queries s)"
    by (rule detach_query_core [OF assms(1,2,3)]) (use assms(4) in auto)
  have v1: "r_heap s1 q = Some (v\<lparr>q_attached := False\<rparr>)" using s1(3) by simp
  note d = drop_detached [OF s1(2) v1, simplified]
  let ?s' = "if refs q = 0 then s1\<lparr>r_heap := (r_heap s1)(q := None)\<rparr> else set_query q (v\<lparr>q_attached := False, q_n_ref := refs q\<rparr>) s1"
  have "release_floating q s = Ret ?s'"
    using assms(2,3,4) s1(1) v1 d(2) by (simp add: release_floating_def)
  moreover have "garbage s1 \<subseteq> garbage s" using s1(3) assms(2) by (auto simp: garbage_def split: if_splits)
  ultimately show thesis
    using that [of ?s'] d s1 shrinks_trans [OF s1(6) d(3)] by auto
qed

lemma owners_pos: "owners w qs = 0 \<Longrightarrow> q \<in> set qs \<Longrightarrow> w q = Some (True, f, i, e) \<Longrightarrow> f"
  by (auto simp: owners_def filter_empty_conv)

lemma resolve_free_queries_core:
  assumes "res_core refs 0 s" "r_n_ref s = 0" "\<not> r_freed s"
  shows "\<exists>s'. resolve_free_queries (length (r_queries s)) s = Ret s' \<and> res_core refs 0 s' \<and> shrinks s s' \<and> garbage s' \<subseteq> garbage s \<and>
    r_queries s' = [] \<and> \<not> r_freed s'"
  using assms
proof (induction "length (r_queries s)" arbitrary: s)
  case 0
  then show ?case using shrinks_refl by auto
next
  case (Suc n)
  obtain q qs where qs: "r_queries s = q # qs" using Suc.hyps(2) by (cases "r_queries s") auto
  note m = Suc.prems(1) [unfolded res_core_def]
  have "member_with (\<lambda>f i d. True) (view_of s q)" using m qs by (auto simp: members_def)
  then obtain v where v: "r_heap s q = Some v" "q_attached v" by (auto simp: view_of_def elim!: member_with.elims)
  have "owners (view_of s) (r_queries s) = 0" using m Suc.prems by (simp add: session_ok_def)
  then have "q_floating v" using owners_pos [of "view_of s" "r_queries s" q "q_floating v"] view_of_Some [OF v(1)] v(2) qs by simp
  then obtain s1 where s1: "release_floating q s = Ret s1" "res_core refs 0 s1" "shrinks s s1" "garbage s1 \<subseteq> garbage s"
    "r_queries s1 = remove1 q (r_queries s)" "r_n_ref s1 = r_n_ref s" "r_freed s1 = r_freed s"
    using release_floating_core [OF Suc.prems(1) v] by blast
  have "r_queries s1 = qs" using s1(5) qs by simp
  then have "n = length (r_queries s1)" using qs Suc.hyps(2) by simp
  from Suc.hyps(1) [OF this s1(2)] obtain s' where s': "resolve_free_queries (length (r_queries s1)) s1 = Ret s'" "res_core refs 0 s'"
    "shrinks s1 s'" "garbage s' \<subseteq> garbage s1" "r_queries s' = []" "\<not> r_freed s'"
    using s1(6,7) Suc.prems(2,3) by auto
  have "resolve_free_queries (length (r_queries s)) s = Ret s'" using qs s1(1) s'(1) \<open>r_queries s1 = qs\<close> by simp
  then show ?case using s' shrinks_trans [OF s1(3) s'(3)] s1(4) by blast
qed

text \<open>A reference to the session is given back.\<close>

lemma sd_resolve_unref_wf:
  assumes "res_wf refs (Suc rr) s"
  obtains s' where "sd_resolve_unref s = Ret s'" "res_wf refs rr s'" "shrinks s s'" "garbage s' \<subseteq> garbage s"
    "\<not> r_freed s' \<longrightarrow> floats s \<subseteq> floats s'"
proof -
  note c = assms [unfolded res_wf_def res_core_def]
  have nf: "\<not> r_freed s" using c by (auto simp: session_ok_def)
  then have n: "r_n_ref s = Suc (rr + owners (view_of s) (r_queries s))" using c by (simp add: session_ok_def)
  define s1 where "s1 = s\<lparr>r_n_ref := r_n_ref s - 1\<rparr>"
  have w: "view_of s1 = view_of s" by (rule view_of_cong) (simp add: s1_def)
  have "refs_ok refs s1" by (rule refs_ok_cong [of refs s]) (use c in \<open>simp_all add: s1_def\<close>)
  then have core: "res_core refs rr s1"
    using c n nf unfolding res_core_def w session_ok_def by (simp add: s1_def)
  have step: "sd_resolve_unref s = (if r_n_ref s1 = 0 then resolve_free s1 else Ret s1)"
    using nf n by (simp add: sd_resolve_unref_def Let_def s1_def)
  have sh: "shrinks s s1" "garbage s1 = garbage s" "floats s1 = floats s"
    using same_query_refl by (auto simp: shrinks_def s1_def garbage_def floats_def)
  show thesis
  proof (cases "r_n_ref s1 = 0")
    case False
    moreover have "res_wf refs rr s1" using core False by (simp add: res_wf_def)
    ultimately show thesis using that [of s1] step sh by simp
  next
    case True
    then have "rr = 0" "\<not> r_freed s1" using n nf by (simp_all add: s1_def)
    with core True obtain s2 where s2: "resolve_free_queries (length (r_queries s1)) s1 = Ret s2" "res_core refs 0 s2"
      "shrinks s1 s2" "garbage s2 \<subseteq> garbage s1" "r_queries s2 = []"
      using resolve_free_queries_core [of refs s1] by auto
    obtain s' where s': "resolve_free s1 = Ret s'" "r_heap s' = r_heap s2" "r_queries s' = []" "r_freed s'" "\<not> r_event_source s'"
      "r_requests s' = []" "r_working s' = []" "r_responses s' = []" "r_next s' = r_next s2" "r_current s' = r_current s2"
      "r_current_id s' = r_current_id s2" "r_n_outstanding s' = r_n_outstanding s2" "r_n_valid_workers s' = r_n_valid_workers s2"
      "r_query_array s' = r_query_array s2" "r_n_queries s' = r_n_queries s2" "r_n_done s' = r_n_done s2"
      using s2(1,2,5) by (auto simp: resolve_free_def Let_def sd_resolve_detach_event_def res_core_def session_ok_def)
    have w': "view_of s' = view_of s2" by (rule view_of_cong) (rule s'(2))
    have "refs_ok refs s'" by (rule refs_ok_cong [of refs s2]) (use s2(2) s' in \<open>simp_all add: res_core_def\<close>)
    then have "res_core refs 0 s'"
      using s2(2,5) unfolding res_core_def w' session_ok_def by (simp add: s')
    then have "res_wf refs rr s'" using s' \<open>rr = 0\<close> by (simp add: res_wf_def)
    moreover have "shrinks s2 s'" using same_query_refl by (auto simp: shrinks_def s')
    moreover have "garbage s' = garbage s2" by (simp add: garbage_def s')
    ultimately show thesis
      using that [of s'] step True s'(1) sh s2(4) shrinks_trans [OF shrinks_trans [OF sh(1) s2(3)]] s'(4) by simp
  qed
qed

section \<open>Releasing a query\<close>

lemma sd_resolve_query_unref_wf:
  assumes "res_wf (refs(q := Suc n)) rr s" "r_heap s q \<noteq> None"
  obtains s' where "sd_resolve_query_unref q s = Ret s'" "res_wf (refs(q := n)) rr s'" "shrinks s s'" "garbage s' \<subseteq> garbage s"
    "\<not> r_freed s' \<longrightarrow> floats s \<subseteq> floats s'"
proof -
  from assms(2) obtain v where v: "r_heap s q = Some v" by auto
  have core: "res_core (refs(q := Suc n)) rr s" using assms(1) by (simp add: res_wf_def)
  have nr: "q_n_ref v = Suc n + of_bool (q_attached v \<and> q_floating v)"
    using refs_okD [of "refs(q := Suc n)" s q v] core v by (simp add: res_core_def)
  define v1 where "v1 = v\<lparr>q_n_ref := q_n_ref v - 1\<rparr>"
  define s1 where "s1 = set_query q v1 s"
  have v1: "r_heap s1 q = Some v1" by (simp add: s1_def)
  have step: "sd_resolve_query_unref q s = (if q_n_ref v1 = 0 then resolve_query_free q s1 else Ret s1)"
    using v nr by (simp add: sd_resolve_query_unref_def Let_def s1_def v1_def)
  have wf1: "res_wf (refs(q := n)) rr s1"
    using res_wf_set_query [OF assms(1) v, of v1 n] nr by (simp add: s1_def v1_def)
  have sh1: "shrinks s s1" using v same_query_refl by (auto simp: shrinks_def s1_def v1_def same_query_def)
  have fl1: "floats s1 = floats s" using v by (auto simp: floats_def s1_def v1_def)
  show thesis
  proof (cases "q_n_ref v1 = 0")
    case False
    then have "garbage s1 \<subseteq> garbage s" by (auto simp: garbage_def s1_def split: if_splits)
    with False show thesis using that [of s1] step wf1 sh1 fl1 by simp
  next
    case True
    then have n: "n = 0" "\<not> (q_attached v \<and> q_floating v)" using nr by (auto simp: v1_def)
    obtain s2 where s2: "resolve_query_disconnect q s1 = Ret s2" "res_wf (refs(q := n)) rr s2" "shrinks s1 s2"
      "garbage s2 \<subseteq> garbage s1" "\<And>w. r_heap s2 q = Some w \<Longrightarrow> \<not> q_attached w \<and> q_n_ref w = 0"
      "\<not> r_freed s2 \<longrightarrow> floats s1 \<subseteq> floats s2"
    proof (cases "q_attached v")
      case False
      show thesis
        by (rule that [of s1])
          (use False v1 wf1 shrinks_refl True in \<open>auto simp: resolve_query_disconnect_def v1_def\<close>)
    next
      case att: True
      then have nf: "\<not> q_floating v" using n by simp
      have core1: "res_core (refs(q := n)) rr s1" using wf1 by (simp add: res_wf_def)
      obtain s3 where s3: "detach_query q s1 = Ret s3" "res_core (refs(q := n)) (Suc rr) s3"
        "r_heap s3 = (r_heap s1)(q \<mapsto> v1\<lparr>q_attached := False\<rparr>)" "r_n_ref s3 = r_n_ref s1" "r_freed s3 = r_freed s1"
        "\<not> r_freed s1" "shrinks s1 s3"
        by (rule detach_query_core [OF core1 v1]) (use att nf in \<open>auto simp: v1_def\<close>)
      have "res_wf (refs(q := n)) (Suc rr) s3" using s3 wf1 by (simp add: res_wf_def)
      from sd_resolve_unref_wf [OF this] obtain s4 where s4: "sd_resolve_unref s3 = Ret s4" "res_wf (refs(q := n)) rr s4"
        "shrinks s3 s4" "garbage s4 \<subseteq> garbage s3" "\<not> r_freed s4 \<longrightarrow> floats s3 \<subseteq> floats s4" .
      have "garbage s3 \<subseteq> garbage s1" using s3(3) v1 by (auto simp: garbage_def split: if_splits)
      moreover have "\<not> q_attached w \<and> q_n_ref w = 0" if w: "r_heap s4 q = Some w" for w
      proof -
        obtain u where "r_heap s3 q = Some u" "same_query u w" using shrinksD [OF s4(3) w] by blast
        then have na: "\<not> q_attached w" using s3(3) by (auto simp: same_query_def)
        moreover have "q_n_ref w = 0" using refs_okD [of "refs(q := n)" s4 q w] s4(2) w na n by (simp add: res_wf_def res_core_def)
        ultimately show ?thesis ..
      qed
      moreover have "floats s3 = floats s1" using s3(3) v1 nf by (auto simp: floats_def v1_def)
      ultimately show thesis
        using that [of s4] s3(1) s4 v1 att nf shrinks_trans [OF s3(7) s4(3)]
        by (simp add: resolve_query_disconnect_def v1_def)
    qed
    define s' where "s' = s2\<lparr>r_heap := (r_heap s2)(q := None)\<rparr>"
    have ret: "sd_resolve_query_unref q s = Ret s'" using step True s2(1) by (simp add: resolve_query_free_def s'_def)
    have core2: "res_core (refs(q := n)) rr s2" using s2(2) by (simp add: res_wf_def)
    have core': "res_core (refs(q := n)) rr s'"
    proof (cases "r_heap s2 q")
      case None
      then have "s' = s2" by (simp add: s'_def fun_upd_idem)
      then show ?thesis using core2 by simp
    next
      case (Some w)
      then have w: "view_of s2 q = Some (False, q_floating w, q_id w, q_done w)" using view_of_Some [OF Some] s2(5) [OF Some] by simp
      have heap: "r_heap s' = (r_heap s2)(q := None)" by (simp add: s'_def)
      have w': "view_of s' = (view_of s2)(q := None)" by (rule view_of_heap [OF heap]) simp
      have mem: "members (view_of s2) (r_queries s2) (r_query_array s2) (r_n_queries s2) (r_n_done s2)" using core2 by (simp add: res_core_def)
      have "refs_ok (refs(q := n)) s'"
        by (rule refs_ok_update [of "refs(q := n)", OF _ heap]) (use core2 n in \<open>simp_all add: res_core_def s'_def\<close>)
      moreover have "session_ok rr s'"
        using core2 members_forget(2) [OF mem w] unfolding res_core_def session_ok_def w' by (simp add: s'_def)
      moreover have "members (view_of s') (r_queries s') (r_query_array s') (r_n_queries s') (r_n_done s')"
        using members_forget(1) [OF mem w] unfolding w' by (simp add: s'_def)
      ultimately show ?thesis by (simp add: res_core_def)
    qed
    then have "res_wf (refs(q := n)) rr s'" using s2(2) by (simp add: res_wf_def s'_def)
    moreover have "shrinks s s'"
    proof -
      have "shrinks s2 s'" using same_query_refl by (auto simp: shrinks_def s'_def)
      then show ?thesis using shrinks_trans sh1 s2(3) by blast
    qed
    moreover have "garbage s' \<subseteq> garbage s"
    proof
      fix x assume "x \<in> garbage s'"
      then have "x \<noteq> q" "x \<in> garbage s2" by (auto simp: garbage_def s'_def split: if_splits)
      then have "x \<in> garbage s1" using s2(4) by blast
      with \<open>x \<noteq> q\<close> show "x \<in> garbage s" by (simp add: garbage_def s1_def)
    qed
    moreover have "\<not> r_freed s' \<longrightarrow> floats s \<subseteq> floats s'"
    proof
      assume "\<not> r_freed s'"
      then have "floats s \<subseteq> floats s2" using s2(6) fl1 by (simp add: s'_def)
      moreover have "q \<notin> floats s2" using s2(5) by (auto simp: floats_def)
      ultimately show "floats s \<subseteq> floats s'" by (auto simp: floats_def s'_def)
    qed
    ultimately show thesis using that ret by blast
  qed
qed

end
