(* ===== verification/Resolve_Start.thy ===== *)
theory Resolve_Start
  imports Resolve_Inv
begin

text \<open>
  Taking references and starting queries keeps the invariant of a session: a place in the table is
  found, the new query owns it, and a query whose request cannot be sent disappears again.
\<close>

section \<open>References\<close>

lemma sd_resolve_ref_wf:
  assumes "res_wf refs rr s" "\<not> r_freed s"
  shows "sd_resolve_ref s = Ret (s\<lparr>r_n_ref := r_n_ref s + 1\<rparr>)" "res_wf refs (Suc rr) (s\<lparr>r_n_ref := r_n_ref s + 1\<rparr>)"
proof -
  let ?s = "s\<lparr>r_n_ref := r_n_ref s + 1\<rparr>"
  note c = assms(1) [unfolded res_wf_def res_core_def]
  note nf = assms(2)
  then show "sd_resolve_ref s = Ret ?s" using c by (simp add: sd_resolve_ref_def)
  have w: "view_of ?s = view_of s" by (rule view_of_cong) simp
  have "refs_ok refs ?s" by (rule refs_ok_cong [of refs s]) (use c in simp_all)
  then show "res_wf refs (Suc rr) ?s"
    using c nf unfolding res_wf_def res_core_def session_ok_def w by simp
qed

lemma sd_resolve_query_ref_wf:
  assumes "res_wf refs rr s" "garbage s = {}" "r_heap s q = Some v"
  shows "sd_resolve_query_ref q s = Ret (set_query q (v\<lparr>q_n_ref := q_n_ref v + 1\<rparr>) s)"
    "res_wf (refs(q := Suc (refs q))) rr (set_query q (v\<lparr>q_n_ref := q_n_ref v + 1\<rparr>) s)"
proof -
  have "q_n_ref v \<noteq> 0" using assms(2,3) by (auto simp: garbage_def)
  then show "sd_resolve_query_ref q s = Ret (set_query q (v\<lparr>q_n_ref := q_n_ref v + 1\<rparr>) s)"
    using assms(3) by (simp add: sd_resolve_query_ref_def)
  have "q_n_ref v = refs q + of_bool (q_attached v \<and> q_floating v)"
    using refs_okD [of refs s q v] assms(1,3) by (simp add: res_wf_def res_core_def)
  then show "res_wf (refs(q := Suc (refs q))) rr (set_query q (v\<lparr>q_n_ref := q_n_ref v + 1\<rparr>) s)"
    by (intro res_wf_set_query [OF assms(1,3)]) simp_all
qed

text \<open>The reference of the session to a floating query is given back while nobody has another one.\<close>

lemma detach_query_set:
  assumes "r_heap s q = Some v" "q_done v' = q_done v" "q_id v' = q_id v" "detach_query q s = Ret s'"
  shows "detach_query q (set_query q v' s) = Ret (set_query q (v'\<lparr>q_attached := False\<rparr>) s')"
  using assms by (auto simp: detach_query_def c_assert_def set_query_def split: if_splits)

lemma drop_floating_wf:
  assumes "res_wf refs rr s" "r_heap s q = Some v" "q_attached v" "q_floating v" "refs q = 0"
  obtains s' where "sd_resolve_query_unref q s = Ret s'" "res_wf refs rr s'" "shrinks s s'" "garbage s' \<subseteq> garbage s" "r_heap s' q = None"
    "floats s \<subseteq> insert q (floats s')"
proof -
  have core: "res_core refs rr s" using assms(1) by (simp add: res_wf_def)
  then have n: "q_n_ref v = 1" using refs_okD [of refs s q v] assms by (simp add: res_core_def)
  obtain s1 where s1: "detach_query q s = Ret s1" "res_core (refs(q := Suc 0)) rr s1"
    "r_heap s1 = (r_heap s)(q \<mapsto> v\<lparr>q_attached := False\<rparr>)" "r_n_ref s1 = r_n_ref s" "r_freed s1 = r_freed s" "shrinks s s1"
    by (rule detach_query_core [OF core assms(2,3)]) (use assms(4,5) in auto)
  have v1: "r_heap s1 q = Some (v\<lparr>q_attached := False\<rparr>)" using s1(3) by simp
  note d = drop_detached [OF s1(2) v1, simplified]
  let ?s' = "s1\<lparr>r_heap := (r_heap s1)(q := None)\<rparr>"
  have "detach_query q (set_query q (v\<lparr>q_n_ref := 0\<rparr>) s) = Ret (set_query q (v\<lparr>q_n_ref := 0, q_attached := False\<rparr>) s1)"
    using detach_query_set [OF assms(2) _ _ s1(1), of "v\<lparr>q_n_ref := 0\<rparr>"] by simp
  then have "sd_resolve_query_unref q s = Ret ?s'"
    using assms(2,3,4) n
    by (simp add: sd_resolve_query_unref_def resolve_query_free_def resolve_query_disconnect_def Let_def) (simp add: set_query_def)
  moreover have "refs(q := 0) = refs" using assms(5) by (simp add: fun_upd_idem)
  then have "res_wf refs rr ?s'" using d(1) s1 assms(1) by (simp add: res_wf_def)
  moreover have "garbage ?s' \<subseteq> garbage s" using s1(3) by (auto simp: garbage_def split: if_splits)
  moreover have "shrinks s ?s'" using shrinks_trans [OF s1(6) d(3)] .
  moreover have "floats s \<subseteq> insert q (floats ?s')" using s1(3) by (auto simp: floats_def)
  ultimately show thesis using that by simp
qed

section \<open>A place in the table\<close>

lemma id_slot_add: "id_slot (i + of_nat k) = (id_slot i + k) mod QUERIES_MAX"
proof -
  have "unat (i + of_nat k) mod 256 = (unat i + k) mod 2 ^ 32 mod 256"
    by (simp add: unat_word_ariths unat_of_nat mod_simps)
  also have "\<dots> = (unat i + k) mod 256" by (rule mod_mod_cancel) simp
  finally show ?thesis by (simp add: id_slot_def QUERIES_MAX_def mod_simps)
qed

lemma next_id_finds:
  "\<exists>k\<le>n. a ! id_slot (i + of_nat k) = None \<Longrightarrow>
     \<exists>k\<le>n. next_id n a i = Ret (i + of_nat k) \<and> a ! id_slot (i + of_nat k) = None"
proof (induction n arbitrary: i)
  case (Suc n)
  show ?case
  proof (cases "a ! id_slot i")
    case None
    then show ?thesis by (intro exI [of _ 0]) simp
  next
    case (Some q)
    obtain k where k: "k \<le> Suc n" "a ! id_slot (i + of_nat k) = None" using Suc.prems by blast
    with Some obtain k' where "k = Suc k'" by (cases k) auto
    with k have "\<exists>k\<le>n. a ! id_slot (i + 1 + of_nat k) = None" by (auto simp: ac_simps)
    from Suc.IH [OF this] obtain m where "m \<le> n" "next_id n a (i + 1) = Ret (i + 1 + of_nat m)" "a ! id_slot (i + 1 + of_nat m) = None"
      by blast
    then show ?thesis using Some by (intro exI [of _ "Suc m"]) (simp add: ac_simps)
  qed
qed simp

lemma next_id_returns:
  assumes "members w qs a n d" "n < QUERIES_MAX"
  obtains k where "k \<le> QUERIES_MAX" "next_id QUERIES_MAX a i = Ret (i + of_nat k)" "a ! id_slot (i + of_nat k) = None"
proof -
  obtain j where j: "j < QUERIES_MAX" "a ! j = None" using members_free_slot [OF assms] by blast
  let ?k = "(j + QUERIES_MAX - id_slot i) mod QUERIES_MAX"
  have "id_slot (i + of_nat ?k) = j"
    using j(1) id_slot_less [of i] by (simp add: id_slot_add mod_simps)
  moreover have "?k \<le> QUERIES_MAX" by (simp add: QUERIES_MAX_def less_imp_le)
  ultimately have "\<exists>k\<le>QUERIES_MAX. a ! id_slot (i + of_nat k) = None" using j by (intro exI [of _ ?k]) simp
  from next_id_finds [OF this] show thesis using that by blast
qed

section \<open>New queries\<close>

lemma create_threads_eq:
  obtains r n where "create_threads create k s = (r, s\<lparr>r_n_valid_workers := n\<rparr>)" "n \<le> r_n_valid_workers s + k"
proof (induction k arbitrary: s thesis)
  case 0
  show ?case by (rule 0 [of 0 "r_n_valid_workers s"]) simp_all
next
  case (Suc k)
  let ?s = "s\<lparr>r_n_valid_workers := r_n_valid_workers s + 1\<rparr>"
  show ?case
  proof (cases "0 < create (r_n_valid_workers s)")
    case True
    show ?thesis by (rule Suc.prems [of "- create (r_n_valid_workers s)" "r_n_valid_workers s"]) (use True in simp_all)
  next
    case False
    obtain r n where n: "create_threads create k ?s = (r, ?s\<lparr>r_n_valid_workers := n\<rparr>)" "n \<le> r_n_valid_workers ?s + k"
      by (rule Suc.IH)
    show ?thesis by (rule Suc.prems [of r n]) (use False n in simp_all)
  qed
qed

lemma start_threads_eq:
  assumes "r_n_valid_workers s \<le> WORKERS_MAX"
  obtains r n where "start_threads os extra s = (r, s\<lparr>r_n_valid_workers := n\<rparr>)" "n \<le> WORKERS_MAX"
proof -
  let ?m = "max WORKERS_MIN (min WORKERS_MAX (r_n_outstanding s + extra)) - r_n_valid_workers s"
  obtain r n where n: "create_threads (os_create os) ?m s = (r, s\<lparr>r_n_valid_workers := n\<rparr>)" "n \<le> r_n_valid_workers s + ?m"
    by (rule create_threads_eq)
  have "r_n_valid_workers s + ?m \<le> WORKERS_MAX" using assms by (auto simp: WORKERS_MIN_def WORKERS_MAX_def)
  then have "n \<le> WORKERS_MAX" using n(2) by linarith
  show thesis
  proof (cases "0 < os_mask os")
    case True
    show thesis by (rule that [of "- os_mask os" "r_n_valid_workers s"]) (use True assms in \<open>simp_all add: start_threads_def\<close>)
  next
    case False
    show thesis
      by (rule that [of "if 0 < os_unmask os \<and> 0 \<le> r then - os_unmask os else r" n])
        (use False n(1) \<open>n \<le> WORKERS_MAX\<close> in \<open>simp_all add: start_threads_def\<close>)
  qed
qed

text \<open>The state with a new query.\<close>

definition with_new_query :: "bool \<Rightarrow> u32 \<Rightarrow> nat \<Rightarrow> resolve \<Rightarrow> resolve" where
  "with_new_query floating i n s =
     set_query (r_next s) (new_query floating i)
       (s\<lparr>r_n_valid_workers := n, r_query_array := (r_query_array s)[id_slot i := Some (r_next s)], r_current_id := i + 1,
          r_next := r_next s + 1, r_n_ref := (if floating then r_n_ref s else r_n_ref s + 1),
          r_queries := r_next s # r_queries s, r_n_queries := r_n_queries s + 1\<rparr>)"

lemma fresh_address: "refs_ok refs s \<Longrightarrow> r_heap s (r_next s) = None \<and> refs (r_next s) = 0"
  unfolding refs_ok_def by (cases "r_heap s (r_next s)") (auto dest!: spec [of _ "r_next s"])

lemma with_new_query_wf:
  assumes "res_wf refs rr s" "\<not> r_freed s" "r_query_array s ! id_slot i = None"
  shows "res_wf (if floating then refs else refs(r_next s := 1)) rr (with_new_query floating i n s)"
proof -
  let ?s = "with_new_query floating i n s" let ?q = "r_next s"
  note c = assms(1) [unfolded res_wf_def res_core_def]
  have fresh: "r_heap s ?q = None" "refs ?q = 0" using fresh_address c by blast+
  have heap: "r_heap ?s = (r_heap s)(?q \<mapsto> new_query floating i)" by (simp add: with_new_query_def)
  have w: "view_of s ?q = None" by (simp add: view_of_def fresh)
  have w': "view_of ?s = (view_of s)(?q \<mapsto> (True, floating, i, False))" by (rule view_of_heap [OF heap]) (simp add: new_query_def)
  have mem: "members (view_of s) (r_queries s) (r_query_array s) (r_n_queries s) (r_n_done s)" using c by simp
  have "refs_ok (if floating then refs else refs(?q := 1)) ?s"
    by (rule refs_ok_update [of refs, OF _ heap]) (use c fresh in \<open>auto simp: with_new_query_def new_query_def\<close>)
  moreover have "session_ok rr ?s"
    using c assms(2) members_add(2) [OF mem w assms(3)] unfolding session_ok_def w' by (auto simp: with_new_query_def)
  moreover have "members (view_of ?s) (r_queries ?s) (r_query_array ?s) (r_n_queries ?s) (r_n_done ?s)"
    using members_add(1) [OF mem w assms(3)] unfolding w' by (simp add: with_new_query_def)
  ultimately show ?thesis using c assms(2) by (simp add: res_wf_def res_core_def with_new_query_def)
qed

lemma alloc_query_wf:
  assumes "res_wf refs rr s" "\<not> r_freed s" "r_n_valid_workers s \<le> WORKERS_MAX"
  shows "(\<exists>e n. alloc_query os floating s = Ret (Inl e, s\<lparr>r_n_valid_workers := n\<rparr>) \<and> e < 0 \<and> n \<le> WORKERS_MAX) \<or>
    (\<exists>k n. k \<le> QUERIES_MAX \<and> n \<le> WORKERS_MAX \<and> r_query_array s ! id_slot (r_current_id s + of_nat k) = None \<and>
       alloc_query os floating s = Ret (Inr (r_next s), with_new_query floating (r_current_id s + of_nat k) n s))"
proof (cases "QUERIES_MAX \<le> r_n_queries s")
  case True
  then have "alloc_query os floating s = Ret (Inl (- ENOBUFS), s\<lparr>r_n_valid_workers := r_n_valid_workers s\<rparr>)" by (simp add: alloc_query_def)
  then show ?thesis using assms(3) by (intro disjI1 exI [of _ "- ENOBUFS"] exI [of _ "r_n_valid_workers s"]) simp
next
  case False
  note c = assms(1) [unfolded res_wf_def res_core_def]
  obtain r n where n: "start_threads os 1 s = (r, s\<lparr>r_n_valid_workers := n\<rparr>)" "n \<le> WORKERS_MAX"
    using start_threads_eq [OF assms(3)] .
  show ?thesis
  proof (cases "r < 0")
    case True
    then show ?thesis using False n by (intro disjI1 exI [of _ r] exI [of _ n]) (simp add: alloc_query_def)
  next
    case r: False
    have mem: "members (view_of s) (r_queries s) (r_query_array s) (r_n_queries s) (r_n_done s)" using c by simp
    obtain k where k: "k \<le> QUERIES_MAX" "next_id QUERIES_MAX (r_query_array s) (r_current_id s) = Ret (r_current_id s + of_nat k)"
      "r_query_array s ! id_slot (r_current_id s + of_nat k) = None"
      using next_id_returns [OF mem, of "r_current_id s"] False by auto
    have "alloc_query os floating s = Ret (Inr (r_next s), with_new_query floating (r_current_id s + of_nat k) n s)"
      using False n r k(2) c assms(2)
      by (cases floating) (simp_all add: alloc_query_def sd_resolve_ref_def with_new_query_def set_query_def Let_def)
    then show ?thesis using k n by blast
  qed
qed

end
