(* ===== verification/Resolve_Codec.thy ===== *)
theory Resolve_Codec
  imports Resolve_Process
begin

text \<open>
  What the program asks arrives at a thread, and what the thread answers arrives at the program:
  requests and replies are read back as they were written, within the bounds that the buffers set.
\<close>

unbundle bit_operations_syntax

section \<open>Integers and strings\<close>

lemma read_write_le16: "unaligned_read_le16 (unaligned_write_le16 x @ bs) = x"
proof (rule bit_word_eqI)
  fix n assume "n < LENGTH(16)"
  then show "bit (unaligned_read_le16 (unaligned_write_le16 x @ bs)) n = bit x n"
    by (auto simp: unaligned_read_le16_def unaligned_write_le16_def bit_simps)
qed

lemma length_write16: "length (unaligned_write_le16 x) = 2"
  by (simp add: unaligned_write_le16_def)

lemma drop_write_le16: "drop 2 (unaligned_write_le16 x @ bs) = bs"
  by (simp add: unaligned_write_le16_def)

lemma read_write_le32: "unaligned_read_le32 (unaligned_write_le32 x @ bs) = x"
proof (rule bit_word_eqI)
  fix n assume "n < LENGTH(32)"
  then show "bit (unaligned_read_le32 (unaligned_write_le32 x @ bs)) n = bit x n"
    by (auto simp: unaligned_read_le32_def unaligned_write_le32_def read_write_le16 drop_write_le16 length_write16 bit_simps)
qed

lemma drop_write_le32: "drop 4 (unaligned_write_le32 x @ bs) = bs"
  by (simp add: unaligned_write_le32_def unaligned_write_le16_def)

lemma length_write: "length (unaligned_write_le32 x) = 4" "length (unaligned_write_le64 y) = 8"
  by (simp_all add: unaligned_write_le64_def unaligned_write_le32_def unaligned_write_le16_def)

lemma read_write_le64: "unaligned_read_le64 (unaligned_write_le64 x @ bs) = x"
proof (rule bit_word_eqI)
  fix n assume "n < LENGTH(64)"
  then show "bit (unaligned_read_le64 (unaligned_write_le64 x @ bs)) n = bit x n"
    by (auto simp: unaligned_read_le64_def unaligned_write_le64_def read_write_le32 drop_write_le32 length_write bit_simps)
qed

lemma byte_of_char: "c \<noteq> CHR 0x00 \<Longrightarrow> (of_nat (char_code c) :: u8) \<noteq> 0 \<and> char_of (unat (of_nat (char_code c) :: u8)) = c"
proof -
  assume c: "c \<noteq> CHR 0x00"
  have u: "unat (of_nat (char_code c) :: u8) = char_code c"
    using char_code_less [of c] by (simp add: unat_of_nat)
  moreover have "char_code c \<noteq> 0"
  proof
    assume "char_code c = 0"
    then have "char_code c = char_code (CHR 0x00)" by (simp add: char_code_def)
    with c show False by (simp only: char_code_inj)
  qed
  ultimately show ?thesis by (auto simp: char_code_def)
qed

lemma bytes_string_bytes: "CHR 0x00 \<notin> set s \<Longrightarrow> bytes_string (string_bytes s @ bs) = s"
  by (induction s) (auto simp: bytes_string_def string_bytes_def byte_of_char)

lemma bytes_string_prefix: "CHR 0x00 \<notin> set s \<Longrightarrow> bytes_string (take (length s) (string_bytes s @ bs)) = s"
proof -
  assume a: "CHR 0x00 \<notin> set s"
  then have "takeWhile (\<lambda>b. b \<noteq> 0) (map (\<lambda>c. of_nat (char_code c) :: u8) s) = map (\<lambda>c. of_nat (char_code c)) s"
    by (induction s) (auto simp: byte_of_char)
  moreover have "map (\<lambda>c. char_of (unat (of_nat (char_code c) :: u8))) s = s"
    using a by (induction s) (auto simp: byte_of_char)
  moreover have "take (length s) (string_bytes s @ bs) = map (\<lambda>c. of_nat (char_code c)) s" by (simp add: string_bytes_def)
  ultimately show ?thesis unfolding bytes_string_def by (simp only: map_map comp_def)
qed

lemma length_string_bytes: "length (string_bytes s) = Suc (length s)"
  by (simp add: string_bytes_def)

section \<open>Addresses\<close>

definition addrinfo_size :: "addrinfo \<Rightarrow> nat" where
  "addrinfo_size ai = SIZEOF_AddrInfoSerialization + length (ai_addr ai) + length (opt_bytes (ai_canonname ai))"

abbreviation addrinfo_sizes :: "addrinfo list \<Rightarrow> nat" where
  "addrinfo_sizes ais \<equiv> sum_list (map addrinfo_size ais)"

abbreviation addrinfo_records :: "addrinfo list \<Rightarrow> u8 list" where
  "addrinfo_records ais \<equiv> concat (map addrinfo_record ais)"

lemma length_addrinfo_record: "length (addrinfo_record ai) = addrinfo_size ai"
  by (simp add: addrinfo_record_def addrinfo_size_def length_write sizeof_defs)

lemma length_addrinfo_records: "length (addrinfo_records ais) = addrinfo_sizes ais"
  by (induction ais) (simp_all add: length_addrinfo_record)

text \<open>
  The check of the loop takes the bytes written off twice, from the length and from what is left
  of the buffer: half of the buffer is sure to be usable.
\<close>

lemma serialize_addrinfo_fits:
  assumes "2 * b + addrinfo_size ai + SIZEOF_AddrInfoResponse \<le> BUFSIZE"
  shows "serialize_addrinfo ai (SIZEOF_AddrInfoResponse + b) (BUFSIZE - b) =
    Ret (Some (addrinfo_record ai, SIZEOF_AddrInfoResponse + b + addrinfo_size ai))"
proof -
  have "SIZEOF_AddrInfoResponse + b \<le> BUFSIZE - b" "\<not> BUFSIZE - b < SIZEOF_AddrInfoResponse + b + addrinfo_size ai"
    using assms by auto
  then show ?thesis unfolding serialize_addrinfo_def Let_def addrinfo_size_def [symmetric] by simp
qed

lemma serialize_addrinfos_fits:
  "2 * (length buffer + addrinfo_sizes ais) + SIZEOF_AddrInfoResponse \<le> BUFSIZE \<Longrightarrow>
     serialize_addrinfos ais buffer (SIZEOF_AddrInfoResponse + length buffer) =
       Ret (Some (buffer @ addrinfo_records ais, SIZEOF_AddrInfoResponse + length buffer + addrinfo_sizes ais))"
proof (induction ais arbitrary: buffer)
  case (Cons ai ais)
  have "serialize_addrinfo ai (SIZEOF_AddrInfoResponse + length buffer) (BUFSIZE - length buffer) =
      Ret (Some (addrinfo_record ai, SIZEOF_AddrInfoResponse + length buffer + addrinfo_size ai))"
    by (rule serialize_addrinfo_fits) (use Cons.prems in simp)
  then show ?case
    using Cons.prems Cons.IH [of "buffer @ addrinfo_record ai"] by (simp add: length_addrinfo_record ac_simps)
qed simp

text \<open>In general the loop gives up, or fails its assertion, or all records and the fixed part fit into the buffer.\<close>

lemma serialize_addrinfos_cases:
  "SIZEOF_AddrInfoResponse + length buffer \<le> BUFSIZE \<Longrightarrow>
     serialize_addrinfos ais buffer (SIZEOF_AddrInfoResponse + length buffer) = Ret None \<or>
     serialize_addrinfos ais buffer (SIZEOF_AddrInfoResponse + length buffer) =
       Ret (Some (buffer @ addrinfo_records ais, SIZEOF_AddrInfoResponse + length buffer + addrinfo_sizes ais)) \<and>
       SIZEOF_AddrInfoResponse + length buffer + addrinfo_sizes ais \<le> BUFSIZE \<or>
     serialize_addrinfos ais buffer (SIZEOF_AddrInfoResponse + length buffer) = Abort \<and>
       BUFSIZE < 2 * (length buffer + addrinfo_sizes ais) + SIZEOF_AddrInfoResponse"
proof (induction ais arbitrary: buffer)
  case (Cons ai ais)
  let ?l = "SIZEOF_AddrInfoResponse + length buffer" let ?m = "BUFSIZE - length buffer"
  show ?case
  proof (cases "?l \<le> ?m \<and> \<not> ?m < ?l + addrinfo_size ai")
    case True
    then have "serialize_addrinfo ai ?l ?m = Ret (Some (addrinfo_record ai, ?l + addrinfo_size ai))"
      unfolding serialize_addrinfo_def Let_def addrinfo_size_def [symmetric] by simp
    moreover have "?l + addrinfo_size ai \<le> BUFSIZE" using le_trans [OF _ diff_le_self, of "?l + addrinfo_size ai" BUFSIZE "length buffer"] True
      by (simp only: not_less)
    then have "SIZEOF_AddrInfoResponse + length (buffer @ addrinfo_record ai) \<le> BUFSIZE" by (simp add: length_addrinfo_record)
    ultimately show ?thesis using Cons.IH [of "buffer @ addrinfo_record ai"] by (simp add: length_addrinfo_record ac_simps)
  next
    case False
    have "serialize_addrinfo ai ?l ?m = (if ?l \<le> ?m then Ret None else Abort)"
      using False unfolding serialize_addrinfo_def Let_def addrinfo_size_def [symmetric] by (auto simp: c_assert_def)
    then show ?thesis using Cons.prems by (cases "?l \<le> ?m") auto
  qed
qed simp

lemma unserialize_record:
  assumes "c_string (ai_canonname ai)" "addrinfo_size ai \<le> BUFSIZE"
  shows "unserialize_addrinfo (addrinfo_record ai @ bs) = Inr (ai, bs)"
proof -
  let ?n = "length (ai_addr ai)" let ?c = "length (opt_bytes (ai_canonname ai))"
  have b: "?n \<le> 10240" "?c \<le> 10240" using assms(2) by (auto simp: addrinfo_size_def BUFSIZE_def)
  then have u: "unat (of_nat ?n :: u64) = ?n" "unat (of_nat ?c :: u64) = ?c"
    "unat (of_nat SIZEOF_AddrInfoSerialization + of_nat ?n + of_nat ?c :: u64) = SIZEOF_AddrInfoSerialization + ?n + ?c"
    by (simp_all add: unat_of_nat unat_word_ariths sizeof_defs mod_simps)
  define p where "p = addrinfo_record ai @ bs"
  define tail where "tail = ai_addr ai @ opt_bytes (ai_canonname ai) @ bs"
  have p: "p = unaligned_write_le32 (ai_flags ai) @ unaligned_write_le32 (ai_family ai) @
     unaligned_write_le32 (ai_socktype ai) @ unaligned_write_le32 (ai_protocol ai) @
     unaligned_write_le64 (of_nat ?n) @ unaligned_write_le64 (of_nat ?c) @ tail"
    by (simp add: p_def tail_def addrinfo_record_def)
  have d: "unaligned_read_le32 p = ai_flags ai" "unaligned_read_le32 (drop 4 p) = ai_family ai"
    "unaligned_read_le32 (drop 8 p) = ai_socktype ai" "unaligned_read_le32 (drop 12 p) = ai_protocol ai"
    "unaligned_read_le64 (drop 16 p) = of_nat ?n" "unaligned_read_le64 (drop 24 p) = of_nat ?c" "drop 32 p = tail"
    unfolding p by (simp_all add: length_write read_write_le32 read_write_le64)
  have len: "length p = SIZEOF_AddrInfoSerialization + ?n + ?c + length bs"
    by (simp add: p_def length_addrinfo_record addrinfo_size_def)
  have "drop (SIZEOF_AddrInfoSerialization + ?n + ?c) p = drop (?n + ?c) (drop 32 p)" by (simp add: sizeof_defs ac_simps)
  also have "\<dots> = bs" by (simp add: d tail_def)
  finally have rest: "drop (SIZEOF_AddrInfoSerialization + ?n + ?c) p = bs" .
  have "drop (32 + ?n) p = drop ?n (drop 32 p)" by (simp add: ac_simps)
  then have canon: "drop (32 + ?n) p = opt_bytes (ai_canonname ai) @ bs" by (simp add: d tail_def)
  have "unat (of_nat ?c :: u64) = 0 \<longleftrightarrow> (of_nat ?c :: u64) = 0" by (rule unsigned_eq_0_iff)
  then have c0: "(of_nat ?c :: u64) = 0 \<longleftrightarrow> ?c = 0" unfolding u(2) by blast
  have name: "(if (of_nat ?c :: u64) = 0 then None else Some (bytes_string (take ?c (drop (32 + ?n) p)))) = ai_canonname ai"
    using assms(1) bytes_string_bytes [where bs = "[]"] unfolding canon c0
    by (cases "ai_canonname ai") (simp_all add: opt_bytes_def c_string_def length_string_bytes)
  show ?thesis
    unfolding p_def [symmetric] unserialize_addrinfo_def Let_def d u name rest
    using b by (simp add: len d(7) tail_def sizeof_defs)
qed

lemma unserialize_records:
  "\<forall>ai\<in>set ais. c_string (ai_canonname ai) \<Longrightarrow> addrinfo_sizes ais \<le> BUFSIZE \<Longrightarrow> unserialize_addrinfos (addrinfo_records ais) = Inr ais"
proof (induction ais)
  case Nil
  then show ?case by (simp add: unserialize_addrinfos.simps)
next
  case (Cons ai ais)
  have "0 < addrinfo_size ai" by (simp add: addrinfo_size_def sizeof_defs)
  moreover have "unserialize_addrinfo (addrinfo_record ai @ addrinfo_records ais) = Inr (ai, addrinfo_records ais)"
    using Cons.prems by (intro unserialize_record) auto
  ultimately show ?case
    using Cons by (subst unserialize_addrinfos.simps) (auto simp: length_addrinfo_record simp flip: length_0_conv)
qed

section \<open>Questions and answers\<close>

fun request_of :: "u32 \<Rightarrow> question \<Rightarrow> packet" where
  "request_of i (Ask_addrinfo node service h) = addrinfo_request i node service h"
| "request_of i (Ask_nameinfo sa flags get) = nameinfo_request i sa flags get"

fun question_type :: "question \<Rightarrow> query_type" where
  "question_type (Ask_addrinfo node service h) = REQUEST_ADDRINFO"
| "question_type (Ask_nameinfo sa flags get) = REQUEST_NAMEINFO"

fun question_ok :: "question \<Rightarrow> bool" where
  "question_ok (Ask_addrinfo node service h) \<longleftrightarrow> c_string node \<and> c_string service"
| "question_ok (Ask_nameinfo sa flags get) \<longleftrightarrow> length sa \<le> 128"

text \<open>
  What the C library documents of its answers: they are strings without a NUL, and those of
  \<open>getnameinfo\<close> fit into the buffers of \<open>NI_MAXHOST\<close> and 32 bytes that it is given.
\<close>

definition answers_ok :: "answers \<Rightarrow> bool" where
  "answers_ok a \<longleftrightarrow>
     (\<forall>node service h. \<forall>ai\<in>set (snd (getaddrinfo a node service h)). c_string (ai_canonname ai)) \<and>
     (\<forall>sa g1 g2 flags. case getnameinfo a sa g1 g2 flags of (r, host, serv) \<Rightarrow>
        CHR 0x00 \<notin> set host \<and> length host < 1025 \<and> CHR 0x00 \<notin> set serv \<and> length serv < 32)"

text \<open>An answer that may fail the assertion of \<open>serialize_addrinfo\<close>: its list takes more than half of the buffer.\<close>

fun long_answer :: "answers \<Rightarrow> question \<Rightarrow> bool" where
  "long_answer a (Ask_addrinfo node service h) \<longleftrightarrow>
     (case getaddrinfo a node service h of (ret, result) \<Rightarrow>
        ret = 0 \<and> BUFSIZE < 2 * addrinfo_sizes result + SIZEOF_AddrInfoResponse)"
| "long_answer a (Ask_nameinfo sa flags get) \<longleftrightarrow> False"

definition name_answer :: "answers \<Rightarrow> u8 list \<Rightarrow> u32 \<Rightarrow> u64 \<Rightarrow> int \<times> string option \<times> string option" where
  "name_answer a sa flags get =
     (case getnameinfo a sa (bit get 0) (bit get 1) flags of (ret, host, serv) \<Rightarrow>
        (ret, if ret = 0 \<and> bit get 0 then Some host else None, if ret = 0 \<and> bit get 1 then Some serv else None))"

fun reply_of :: "answers \<Rightarrow> u32 \<Rightarrow> question \<Rightarrow> packet" where
  "reply_of a i (Ask_addrinfo node service h) =
     (case getaddrinfo a node service h of (ret, result) \<Rightarrow>
        let ais = (if ret = 0 then result else [])
        in Addrinfo_response i (SIZEOF_AddrInfoResponse + addrinfo_sizes ais) ret (ans_errno a) (ans_h_errno a) (addrinfo_records ais))"
| "reply_of a i (Ask_nameinfo sa flags get) =
     (case name_answer a sa flags get of (ret, host, serv) \<Rightarrow>
        Nameinfo_response i (SIZEOF_NameInfoResponse + length (opt_bytes host) + length (opt_bytes serv))
          (length (opt_bytes host)) (length (opt_bytes serv)) ret (ans_errno a) (ans_h_errno a) (opt_bytes host @ opt_bytes serv))"

text \<open>The answer to a question, as the code tells it to the callback.\<close>

type_synonym answer = "int \<times> int \<times> int \<times> addrinfo list \<times> string option \<times> string option"

fun answer_to :: "answers \<Rightarrow> question \<Rightarrow> answer" where
  "answer_to a (Ask_addrinfo node service h) =
     (case getaddrinfo a node service h of (ret, result) \<Rightarrow>
        (ret, abs (ans_errno a), ans_h_errno a, if ret = 0 then result else [], None, None))"
| "answer_to a (Ask_nameinfo sa flags get) =
     (case name_answer a sa flags get of (ret, host, serv) \<Rightarrow>
        if DNS_HOSTNAME_MAX < length (opt_bytes host) \<or> DNS_HOSTNAME_MAX < length (opt_bytes serv) then (EAI_SYSTEM, EIO, 0, [], None, None)
        else (ret, abs (ans_errno a), ans_h_errno a, [], host, serv))"

text \<open>
  What the library itself answered; the code's own limit is a different matter: it stands for
  \<open>EIO\<close> in place of a name of 253 characters or more.
\<close>

fun library_answer :: "answers \<Rightarrow> question \<Rightarrow> answer" where
  "library_answer a (Ask_addrinfo node service h) =
     (case getaddrinfo a node service h of (ret, result) \<Rightarrow>
        (ret, abs (ans_errno a), ans_h_errno a, if ret = 0 then result else [], None, None))"
| "library_answer a (Ask_nameinfo sa flags get) =
     (case name_answer a sa flags get of (ret, host, serv) \<Rightarrow> (ret, abs (ans_errno a), ans_h_errno a, [], host, serv))"

fun name_refused :: "answers \<Rightarrow> question \<Rightarrow> bool" where
  "name_refused a (Ask_addrinfo node service h) \<longleftrightarrow> False"
| "name_refused a (Ask_nameinfo sa flags get) \<longleftrightarrow>
     (case name_answer a sa flags get of (ret, host, serv) \<Rightarrow>
        (case host of None \<Rightarrow> False | Some name \<Rightarrow> DNS_HOSTNAME_MAX \<le> length name))"

definition query_answer :: "query \<Rightarrow> answer" where
  "query_answer v = (q_ret v, q_errno v, q_h_errno v, q_addrinfo v, q_host v, q_serv v)"

definition told_answer :: "told \<Rightarrow> answer" where
  "told_answer t = (t_ret t, t_errno t, t_h_errno t, t_addrinfo t, t_host t, t_serv t)"

lemma opt_string: "c_string s \<Longrightarrow> (if length (opt_bytes s) = 0 then None else Some (bytes_string (opt_bytes s @ bs))) = s"
  by (cases s) (auto simp: opt_bytes_def c_string_def length_string_bytes bytes_string_bytes)

lemma packet_id_request [simp]: "packet_id (request_of i qn) = i"
  by (cases qn) (simp_all add: addrinfo_request_def nameinfo_request_def Let_def)

lemma packet_id_reply [simp]: "packet_id (reply_of a i qn) = i"
  by (cases qn) (simp_all split: prod.split add: Let_def)

lemma handle_addrinfo_eq:
  assumes "question_ok (Ask_addrinfo node service h)" "packet_size (addrinfo_request i node service h) \<le> BUFSIZE"
  shows "handle_request a (addrinfo_request i node service h) =
    (case getaddrinfo a node service h of (ret, result) \<Rightarrow> send_addrinfo_reply (ans_send a) i ret result (ans_errno a) (ans_h_errno a))"
proof -
  let ?p = "addrinfo_request i node service h"
  obtain ret result where g: "getaddrinfo a node service h = (ret, result)" by fastforce
  have c: "c_string node" "c_string service" using assms(1) by simp_all
  have n: "(if length (opt_bytes node) = 0 then None else Some (bytes_string (opt_bytes node @ opt_bytes service))) = node"
    by (rule opt_string [OF c(1)])
  have m: "(if length (opt_bytes service) = 0 then None else Some (bytes_string (drop (length (opt_bytes node)) (opt_bytes node @ opt_bytes service)))) = service"
    using opt_string [OF c(2), of "[]"] by (cases "opt_bytes service = []") simp_all
  have rec: "received ?p = p_length ?p" "received ?p = SIZEOF_AddrInfoRequest + length (opt_bytes node) + length (opt_bytes service)"
    using assms(2) by (simp_all add: received_def addrinfo_request_def Let_def)
  show ?thesis
    unfolding handle_request_def rec(1) [symmetric]
    using rec(2) n m g by (simp add: addrinfo_request_def Let_def sizeof_defs del: length_0_conv)
qed

lemma handle_addrinfo_request:
  assumes "question_ok (Ask_addrinfo node service h)"
  shows "(\<exists>r. handle_request a (addrinfo_request i node service h) = Ret r \<and>
      (\<forall>p. r = Inr p \<longrightarrow> p = reply_of a i (Ask_addrinfo node service h) \<and> packet_size p \<le> BUFSIZE)) \<or>
    handle_request a (addrinfo_request i node service h) = Abort \<and> long_answer a (Ask_addrinfo node service h)"
proof (cases "packet_size (addrinfo_request i node service h) \<le> BUFSIZE")
  case True
  obtain ret result where g: "getaddrinfo a node service h = (ret, result)" by fastforce
  have req: "handle_request a (addrinfo_request i node service h) =
      send_addrinfo_reply (ans_send a) i ret result (ans_errno a) (ans_h_errno a)"
    using handle_addrinfo_eq [OF assms True, of a] g by simp
  have "SIZEOF_AddrInfoResponse + length [] \<le> BUFSIZE" by (simp add: BUFSIZE_def sizeof_defs)
  note s = serialize_addrinfos_cases [OF this, of result]
  show ?thesis
  proof (cases "ret = 0")
    case False
    then show ?thesis using g by (simp add: req send_addrinfo_reply_def send_message_def BUFSIZE_def sizeof_defs)
  next
    case True
    from s show ?thesis
    proof (elim disjE conjE)
      assume "serialize_addrinfos result [] (SIZEOF_AddrInfoResponse + length []) = Ret None"
      then show ?thesis using True by (simp add: req send_addrinfo_reply_def)
    next
      assume "serialize_addrinfos result [] (SIZEOF_AddrInfoResponse + length []) =
          Ret (Some ([] @ addrinfo_records result, SIZEOF_AddrInfoResponse + length [] + addrinfo_sizes result))"
        "SIZEOF_AddrInfoResponse + length [] + addrinfo_sizes result \<le> BUFSIZE"
      then show ?thesis using True g by (simp add: req send_addrinfo_reply_def send_message_def length_addrinfo_records)
    next
      assume "serialize_addrinfos result [] (SIZEOF_AddrInfoResponse + length []) = Abort"
        "BUFSIZE < 2 * (length [] + addrinfo_sizes result) + SIZEOF_AddrInfoResponse"
      then show ?thesis using True g by (simp add: req send_addrinfo_reply_def)
    qed
  qed
next
  case False
  then have "received (addrinfo_request i node service h) \<noteq> p_length (addrinfo_request i node service h)"
    by (simp add: received_def addrinfo_request_def Let_def)
  then show ?thesis by (simp add: handle_request_def)
qed

lemma opt_bytes_name:
  "c_string s \<Longrightarrow> opt_bytes s \<noteq> [] \<Longrightarrow> Some (bytes_string (take (length (opt_bytes s) - Suc 0) (opt_bytes s @ bs))) = s"
  using bytes_string_prefix [of "the s" bs]
  by (cases s) (simp_all add: opt_bytes_def c_string_def length_string_bytes del: take_append)

lemma opt_bytes_None: "opt_bytes s = [] \<longleftrightarrow> s = None"
  by (cases s) (simp_all add: opt_bytes_def string_bytes_def)

lemma name_answer_ok:
  assumes "answers_ok a" "name_answer a sa flags get = (ret, host, serv)"
  shows "c_string host" "c_string serv" "length (opt_bytes host) \<le> 1025" "length (opt_bytes serv) \<le> 32"
proof -
  obtain r h s where g: "getnameinfo a sa (bit get 0) (bit get 1) flags = (r, h, s)" by (metis prod_cases3)
  have "CHR 0x00 \<notin> set h \<and> length h < 1025 \<and> CHR 0x00 \<notin> set s \<and> length s < 32"
    using assms(1) [unfolded answers_ok_def, THEN conjunct2, rule_format, of sa "bit get 0" "bit get 1" flags] g by simp
  then show "c_string host" "c_string serv" "length (opt_bytes host) \<le> 1025" "length (opt_bytes serv) \<le> 32"
    using assms(2) g by (auto simp: name_answer_def c_string_def opt_bytes_def length_string_bytes)
qed

lemma answer_to_library:
  assumes "answers_ok a"
  shows "answer_to a qn = (if name_refused a qn then (EAI_SYSTEM, EIO, 0, [], None, None) else library_answer a qn)"
proof (cases qn)
  case (Ask_nameinfo sa flags get)
  obtain ret host serv where n: "name_answer a sa flags get = (ret, host, serv)" by (metis prod_cases3)
  have "length (opt_bytes serv) \<le> DNS_HOSTNAME_MAX" using name_answer_ok(4) [OF assms n] by (simp add: DNS_HOSTNAME_MAX_def)
  moreover have "DNS_HOSTNAME_MAX < length (opt_bytes host) \<longleftrightarrow> (case host of None \<Rightarrow> False | Some name \<Rightarrow> DNS_HOSTNAME_MAX \<le> length name)"
    by (cases host) (auto simp: opt_bytes_def length_string_bytes)
  ultimately show ?thesis using n by (simp add: Ask_nameinfo)
qed simp

lemma handle_nameinfo_request:
  assumes "question_ok (Ask_nameinfo sa flags get)" "answers_ok a"
  shows "\<exists>r. handle_request a (nameinfo_request i sa flags get) = Ret r \<and>
    (\<forall>p. r = Inr p \<longrightarrow> p = reply_of a i (Ask_nameinfo sa flags get) \<and> packet_size p \<le> BUFSIZE)"
proof -
  obtain ret host serv where g: "getnameinfo a sa (bit get 0) (bit get 1) flags = (ret, host, serv)" by (metis prod_cases3)
  obtain r h s where n: "name_answer a sa flags get = (r, h, s)" by (metis prod_cases3)
  have "length sa \<le> 128" using assms by simp
  then have "\<exists>r. handle_request a (nameinfo_request i sa flags get) = Ret r \<and>
      (\<forall>p. r = Inr p \<longrightarrow> p = reply_of a i (Ask_nameinfo sa flags get))"
    using g by (auto simp: handle_request_def nameinfo_request_def received_def BUFSIZE_def sizeof_defs send_nameinfo_reply_def
        send_message_def name_answer_def Let_def)
  moreover have "packet_size (reply_of a i (Ask_nameinfo sa flags get)) \<le> BUFSIZE"
    using n name_answer_ok(3,4) [OF assms(2) n] by (simp add: BUFSIZE_def sizeof_defs)
  ultimately show ?thesis by blast
qed

lemma worker_handle_request:
  assumes "question_ok qn" "answers_ok a"
  shows "(\<exists>ps. worker_handle a (request_of i qn) = Ret ps \<and>
      (ps = [reply_of a i qn] \<and> packet_size (reply_of a i qn) \<le> BUFSIZE \<or> ps = [send_died] \<or> ps = [])) \<or>
    worker_handle a (request_of i qn) = Abort \<and> long_answer a qn"
proof -
  have "(\<exists>r. handle_request a (request_of i qn) = Ret r \<and> (\<forall>p. r = Inr p \<longrightarrow> p = reply_of a i qn \<and> packet_size p \<le> BUFSIZE)) \<or>
      handle_request a (request_of i qn) = Abort \<and> long_answer a qn"
    using assms handle_addrinfo_request [of _ _ _ a i] handle_nameinfo_request [of _ _ _ a i]
    by (cases qn) (simp_all del: reply_of.simps long_answer.simps)
  then consider p where "handle_request a (request_of i qn) = Ret (Inr p)" "p = reply_of a i qn" "packet_size p \<le> BUFSIZE"
    | e where "handle_request a (request_of i qn) = Ret (Inl e)"
    | "handle_request a (request_of i qn) = Abort" "long_answer a qn"
    by (metis sum.exhaust)
  then show ?thesis using thread_died_cases [of "ans_died a"] by cases (auto simp: worker_handle_def)
qed

lemma reply_received:
  assumes "packet_size (reply_of a i qn) \<le> BUFSIZE"
  shows "received (reply_of a i qn) = p_length (reply_of a i qn)" "SIZEOF_RHeader \<le> received (reply_of a i qn)"
proof -
  have "packet_size (reply_of a i qn) = p_length (reply_of a i qn) \<and> SIZEOF_RHeader \<le> packet_size (reply_of a i qn)"
    by (cases qn) (simp_all add: Let_def length_addrinfo_records sizeof_defs split: prod.split)
  with assms show "received (reply_of a i qn) = p_length (reply_of a i qn)" "SIZEOF_RHeader \<le> received (reply_of a i qn)"
    by (simp_all add: received_def)
qed

definition filled :: "answer \<Rightarrow> query \<Rightarrow> query" where
  "filled x v = (case x of (ret, e, h, ais, host, serv) \<Rightarrow>
     v\<lparr>q_ret := ret, q_errno := e, q_h_errno := h, q_addrinfo := ais, q_host := host, q_serv := serv\<rparr>)"

lemma filled_answer: "query_answer (filled x v) = x"
  by (simp add: filled_def query_answer_def split: prod.split)

lemma filled_sel [simp]:
  "q_n_ref (filled x v) = q_n_ref v" "q_attached (filled x v) = q_attached v" "q_type (filled x v) = q_type v"
  "q_done (filled x v) = q_done v" "q_floating (filled x v) = q_floating v" "q_id (filled x v) = q_id v"
  "q_handler (filled x v) = q_handler v"
  by (simp_all add: filled_def split: prod.split)

lemma fill_addrinfo_reply:
  assumes "answers_ok a" "getaddrinfo a node service h = (ret, result)" "packet_size (reply_of a i (Ask_addrinfo node service h)) \<le> BUFSIZE"
    "q_addrinfo v = []" "q_host v = None" "q_serv v = None"
  shows "fill_addrinfo ret (ans_errno a) (ans_h_errno a) (addrinfo_records (if ret = 0 then result else [])) v =
    filled (answer_to a (Ask_addrinfo node service h)) v"
proof -
  have r: "\<forall>ai\<in>set result. c_string (ai_canonname ai)" using assms(1,2) unfolding answers_ok_def by (metis snd_conv)
  have "addrinfo_sizes (if ret = 0 then result else []) \<le> BUFSIZE" using assms(2,3) by (simp add: Let_def length_addrinfo_records)
  then have "unserialize_addrinfos (addrinfo_records (if ret = 0 then result else [])) = Inr (if ret = 0 then result else [])"
    using r by (intro unserialize_records) simp_all
  then show ?thesis
    using assms(2,4-6) by (cases "ret = 0") (simp_all add: fill_addrinfo_def query_assign_errno_def filled_def)
qed

lemma fill_nameinfo_reply:
  assumes "answers_ok a" "name_answer a sa flags get = (ret, host, serv)" "q_addrinfo v = []" "q_host v = None" "q_serv v = None"
  shows "fill_nameinfo (length (opt_bytes host)) (length (opt_bytes serv)) ret (ans_errno a) (ans_h_errno a)
      (SIZEOF_NameInfoResponse + length (opt_bytes host) + length (opt_bytes serv)) (opt_bytes host @ opt_bytes serv) v =
    filled (answer_to a (Ask_nameinfo sa flags get)) v"
proof -
  note n = name_answer_ok [OF assms(1,2)]
  have h: "opt_bytes host \<noteq> [] \<Longrightarrow> Some (bytes_string (take (length (opt_bytes host) - Suc 0) (opt_bytes host @ opt_bytes serv))) = host"
    by (rule opt_bytes_name [OF n(1)])
  have s: "opt_bytes serv \<noteq> [] \<Longrightarrow> Some (bytes_string (take (length (opt_bytes serv) - Suc 0) (opt_bytes serv))) = serv"
    using opt_bytes_name [OF n(2), of "[]"] by simp
  have w: "v = v\<lparr>q_addrinfo := [], q_host := None, q_serv := None\<rparr>" using assms(3-5) by simp
  show ?thesis
    by (subst w, subst (2) w)
      (use assms(2) h s opt_bytes_None [of host] opt_bytes_None [of serv] in
        \<open>auto simp: fill_nameinfo_def query_assign_errno_def filled_def Let_def simp del: take_append\<close>)
qed

end
