(* ===== verification/Resolve_Run.thy ===== *)
theory Resolve_Run
  imports Resolve_Start Resolve_Codec
begin

text \<open>
  The resolver as it runs: the program and its callbacks, the threads, and the datagrams between
  them.  The invariant says of every datagram which question it carries, and of every callback
  what it was told.
\<close>

section \<open>Starting a query\<close>

text \<open>The session after a request was sent.\<close>

definition started :: "bool \<Rightarrow> query_type \<Rightarrow> nat \<Rightarrow> nat \<Rightarrow> packet \<Rightarrow> u32 \<Rightarrow> nat \<Rightarrow> resolve \<Rightarrow> resolve" where
  "started want ty callback userdata p i n s =
     (set_query (r_next s) ((new_query (\<not> want) i)\<lparr>q_type := ty, q_handler := callback, q_userdata := userdata\<rparr>)
        (with_new_query (\<not> want) i n s))
     \<lparr>r_requests := r_requests s @ [p], r_n_outstanding := r_n_outstanding s + 1\<rparr>"

lemma res_wf_cong:
  assumes "res_wf refs rr s" "\<not> r_freed s" "r_heap s' = r_heap s" "r_next s' = r_next s" "r_queries s' = r_queries s" "r_freed s' = r_freed s"
    "r_query_array s' = r_query_array s" "r_n_queries s' = r_n_queries s" "r_n_done s' = r_n_done s" "r_n_ref s' = r_n_ref s"
    "r_event_source s' = r_event_source s" "r_event s' = r_event s"
  shows "res_wf refs rr s'"
proof -
  note c = assms(1) [unfolded res_wf_def res_core_def]
  have w: "view_of s' = view_of s" by (rule view_of_cong [OF assms(3)])
  have "refs_ok refs s'" by (rule refs_ok_cong [of refs s]) (use c assms in simp_all)
  then show ?thesis using c assms(2) unfolding res_wf_def res_core_def session_ok_def w by (simp add: assms(4-))
qed

lemma garbage_set_query: "garbage s = {} \<Longrightarrow> q_n_ref v \<noteq> 0 \<Longrightarrow> garbage (set_query q v s) = {}"
  by (auto simp: garbage_def)

lemma ids_left_add:
  assumes "ids_left s" "k \<le> QUERIES_MAX"
  shows "unat (r_current_id s + of_nat k) = unat (r_current_id s) + k" "unat (r_current_id s + of_nat k + 1) = unat (r_current_id s) + k + 1"
proof -
  have lt: "unat (r_current_id s) + k + 1 < 2 ^ 32" using assms by (simp add: ids_left_def)
  then show "unat (r_current_id s + of_nat k) = unat (r_current_id s) + k"
    by (simp add: unat_word_ariths unat_of_nat)
  from lt show "unat (r_current_id s + of_nat k + 1) = unat (r_current_id s) + k + 1"
    by (simp add: unat_word_ariths unat_of_nat)
qed

lemma start_query_wf:
  assumes wf: "res_wf refs rr s" "garbage s = {}" "\<not> r_freed s" "r_n_valid_workers s \<le> WORKERS_MAX" "ids_left s"
  shows "(\<exists>e s'. start_query os want ty callback userdata request s = Ret (e, None, s') \<and> e < 0 \<and> res_wf refs rr s' \<and> garbage s' = {} \<and> shrinks s s' \<and>
      (\<not> r_freed s' \<longrightarrow> floats s \<subseteq> floats s')) \<or>
    (\<exists>k n s'. k \<le> QUERIES_MAX \<and> n \<le> WORKERS_MAX \<and>
       s' = started want ty callback userdata (request (r_current_id s + of_nat k)) (r_current_id s + of_nat k) n s \<and>
       start_query os want ty callback userdata request s = Ret (0, if want then Some (r_next s) else None, s') \<and>
       res_wf (if want then refs(r_next s := Suc (refs (r_next s))) else refs) rr s' \<and> garbage s' = {})"
proof -
  consider (no_place) e n where "alloc_query os (\<not> want) s = Ret (Inl e, s\<lparr>r_n_valid_workers := n\<rparr>)" "e < 0" "n \<le> WORKERS_MAX"
    | (place) k n where "k \<le> QUERIES_MAX" "n \<le> WORKERS_MAX" "r_query_array s ! id_slot (r_current_id s + of_nat k) = None"
      "alloc_query os (\<not> want) s = Ret (Inr (r_next s), with_new_query (\<not> want) (r_current_id s + of_nat k) n s)"
    using alloc_query_wf [OF wf(1,3,4), of os "\<not> want"] by blast
  then show ?thesis
  proof cases
    case no_place
    have "res_wf refs rr (s\<lparr>r_n_valid_workers := n\<rparr>)" by (rule res_wf_cong [OF wf(1,3)]) simp_all
    moreover have "shrinks s (s\<lparr>r_n_valid_workers := n\<rparr>)" using no_place(3) same_query_refl by (auto simp: shrinks_def)
    moreover have "garbage (s\<lparr>r_n_valid_workers := n\<rparr>) = {}" "floats (s\<lparr>r_n_valid_workers := n\<rparr>) = floats s"
      using wf(2) by (simp_all add: garbage_def floats_def)
    ultimately show ?thesis using no_place by (intro disjI1) (auto simp: start_query_def)
  next
    case place
    let ?i = "r_current_id s + of_nat k" and ?q = "r_next s"
    let ?v = "(new_query (\<not> want) ?i)\<lparr>q_type := ty, q_handler := callback, q_userdata := userdata\<rparr>"
    define s1 where "s1 = set_query ?q ?v (with_new_query (\<not> want) ?i n s)"
    have fresh: "r_heap s ?q = None" "refs ?q = 0"
      using fresh_address wf(1) by (auto simp: res_wf_def res_core_def)
    let ?refs = "if want then refs(?q := Suc (refs ?q)) else refs"
    have wf0: "res_wf ?refs rr (with_new_query (\<not> want) ?i n s)"
      using with_new_query_wf [OF wf(1,3) place(3), of "\<not> want" n] fresh by (simp split: if_splits)
    have q0: "r_heap (with_new_query (\<not> want) ?i n s) ?q = Some (new_query (\<not> want) ?i)" by (simp add: with_new_query_def)
    have "res_wf (?refs(?q := of_bool want)) rr s1"
      unfolding s1_def by (rule res_wf_set_query [OF wf0 q0]) (simp_all add: new_query_def)
    moreover have "?refs(?q := of_bool want) = ?refs" using fresh by auto
    ultimately have wf1: "res_wf ?refs rr s1" by simp
    have heap1: "r_heap s1 = (r_heap s)(?q \<mapsto> ?v)" by (simp add: s1_def with_new_query_def)
    have g1: "garbage s1 = {}" using wf(2) by (auto simp: garbage_def heap1 new_query_def)
    have step: "start_query os want ty callback userdata request s =
        (if 0 < os_sendmsg os then obind (sd_resolve_query_unref ?q s1) (\<lambda>s. Ret (- os_sendmsg os, None, s))
         else Ret (0, if want then Some ?q else None, started want ty callback userdata (request ?i) ?i n s))"
    proof -
      have "started want ty callback userdata (request ?i) ?i n s =
          s1\<lparr>r_requests := r_requests s1 @ [request ?i], r_n_outstanding := r_n_outstanding s1 + 1\<rparr>"
        by (simp add: started_def s1_def with_new_query_def)
      then show ?thesis using place(4) q0 by (simp add: start_query_def s1_def) (simp add: new_query_def)
    qed
    show ?thesis
    proof (cases "0 < os_sendmsg os")
      case False
      have "res_wf ?refs rr (started want ty callback userdata (request ?i) ?i n s)"
        by (rule res_wf_cong [OF wf1]) (simp_all add: started_def s1_def with_new_query_def wf(3))
      moreover have "garbage (started want ty callback userdata (request ?i) ?i n s) = {}"
        using g1 by (simp add: garbage_def started_def s1_def)
      ultimately show ?thesis using step False place(1,2) by (intro disjI2 exI conjI) (assumption | simp)+
    next
      case True
      have v1: "r_heap s1 ?q = Some ?v" using heap1 by simp
      obtain s' where s': "sd_resolve_query_unref ?q s1 = Ret s'" "res_wf refs rr s'" "shrinks s1 s'" "garbage s' \<subseteq> garbage s1"
        "\<not> r_freed s' \<longrightarrow> floats s1 \<subseteq> insert ?q (floats s')"
      proof (cases want)
        case True
        then have wf2: "res_wf (refs(?q := Suc 0)) rr s1" using wf1 fresh by simp
        have "r_heap s1 ?q \<noteq> None" using v1 by simp
        from sd_resolve_query_unref_wf [OF wf2 this] obtain s' where s': "sd_resolve_query_unref ?q s1 = Ret s'" "res_wf (refs(?q := 0)) rr s'"
          "shrinks s1 s'" "garbage s' \<subseteq> garbage s1" "\<not> r_freed s' \<longrightarrow> floats s1 \<subseteq> floats s'" .
        moreover have "refs(?q := 0) = refs" using fresh by auto
        ultimately show thesis using that [of s'] by auto
      next
        case False
        then have wf2: "res_wf refs rr s1" and fl: "q_attached ?v" "q_floating ?v" using wf1 by (simp_all add: new_query_def)
        obtain s' where "sd_resolve_query_unref ?q s1 = Ret s'" "res_wf refs rr s'" "shrinks s1 s'" "garbage s' \<subseteq> garbage s1"
          "floats s1 \<subseteq> insert ?q (floats s')"
          by (rule drop_floating_wf [OF wf2 v1 fl fresh(2)])
        then show thesis using that by blast
      qed
      have none: "r_heap s' ?q = None"
      proof (rule ccontr)
        assume "r_heap s' ?q \<noteq> None"
        then obtain w where w: "r_heap s' ?q = Some w" by auto
        obtain u where u: "r_heap s1 ?q = Some u" "same_query u w" using shrinksD [OF s'(3) w] by blast
        have n: "q_n_ref w = of_bool (q_attached w \<and> q_floating w)"
          using refs_okD [of refs s' ?q w] s'(2) w fresh by (simp add: res_wf_def res_core_def)
        moreover have "garbage s' = {}" using s'(4) g1 by blast
        then have "q_n_ref w \<noteq> 0" using w by (auto simp: garbage_def)
        ultimately have a: "q_attached w" "q_floating w" by (auto simp: of_bool_def split: if_splits)
        have "u = ?v" using u(1) v1 by simp
        then have "\<not> want" using u(2) a(2) by (auto simp: same_query_def new_query_def)
        then show False
          using drop_floating_wf [of refs rr s1 ?q ?v] wf1 v1 fresh s'(1) w by (auto simp: new_query_def)
      qed
      have "shrinks s s'"
      proof -
        have "\<exists>v. r_heap s x = Some v \<and> same_query v v'" if x: "r_heap s' x = Some v'" for x v'
        proof -
          have "x \<noteq> ?q" using none x by auto
          then show ?thesis using shrinksD [OF s'(3) x] heap1 by auto
        qed
        moreover have "r_current_id s \<le> r_current_id s1"
          using ids_left_add(2) [OF wf(5) place(1)] by (simp add: s1_def with_new_query_def word_le_nat_alt)
        moreover have "r_next s \<le> r_next s1" "r_current s1 = r_current s" "r_n_outstanding s1 = r_n_outstanding s"
          "r_requests s1 = r_requests s" "r_working s1 = r_working s" "r_responses s1 = r_responses s" "r_n_valid_workers s1 = n"
          by (simp_all add: s1_def with_new_query_def)
        ultimately show ?thesis using s'(3) place(2) unfolding shrinks_def by (intro conjI allI impI) (auto intro: order_trans)
      qed
      moreover have "\<not> r_freed s' \<longrightarrow> floats s \<subseteq> floats s'"
      proof
        assume "\<not> r_freed s'"
        with s'(5) have "floats s1 \<subseteq> insert ?q (floats s')" by blast
        moreover have "floats s \<subseteq> floats s1" "?q \<notin> floats s" using fresh by (auto simp: floats_def heap1)
        ultimately show "floats s \<subseteq> floats s'" by blast
      qed
      ultimately show ?thesis using step True s' g1 by (intro disjI1 exI conjI) (assumption | simp | blast)+
    qed
  qed
qed

section \<open>Questions under way\<close>

definition flight_ids :: "resolve \<Rightarrow> u32 list" where
  \<comment> \<open>of the requests and replies, in the sockets and in work\<close>
  "flight_ids s = map packet_id (r_requests s @ r_working s @ filter (\<lambda>p. p \<noteq> send_died) (r_responses s))"

text \<open>An attached query has a handler, nothing is stored in it before its answer, and it is not done while its question is under way.\<close>

definition query_ok :: "(u32 \<Rightarrow> question option) \<Rightarrow> u32 list \<Rightarrow> u32 \<Rightarrow> query \<Rightarrow> bool" where
  "query_ok asked ids next v \<longleftrightarrow>
     q_handler v \<noteq> 0 \<and> q_id v < next \<and>
     (\<not> q_done v \<longrightarrow> q_addrinfo v = [] \<and> q_host v = None \<and> q_serv v = None) \<and>
     (q_id v \<in> set ids \<longrightarrow> \<not> q_done v \<and> (\<exists>qn. asked (q_id v) = Some qn \<and> q_type v = question_type qn))"

definition traffic_ok :: "(u32 \<Rightarrow> answers) \<Rightarrow> (u32 \<Rightarrow> question option) \<Rightarrow> resolve \<Rightarrow> bool" where
  "traffic_ok a asked s \<longleftrightarrow>
     r_n_valid_workers s \<le> WORKERS_MAX \<and>
     (\<forall>q v. r_heap s q = Some v \<longrightarrow> q_attached v \<longrightarrow> query_ok asked (flight_ids s) (r_current_id s) v) \<and>
     (\<forall>i\<in>set (flight_ids s). i < r_current_id s) \<and> distinct (flight_ids s) \<and> length (flight_ids s) \<le> r_n_outstanding s \<and>
     (\<forall>p\<in>set (r_requests s @ r_working s). \<exists>qn. asked (packet_id p) = Some qn \<and> question_ok qn \<and> p = request_of (packet_id p) qn) \<and>
     (\<forall>p\<in>set (r_responses s). p = send_died \<or> (\<exists>qn. asked (packet_id p) = Some qn \<and> p = reply_of (a (packet_id p)) (packet_id p) qn \<and>
        packet_size p \<le> BUFSIZE))"

definition told_ok :: "(u32 \<Rightarrow> answers) \<Rightarrow> (u32 \<Rightarrow> question option) \<Rightarrow> told list \<Rightarrow> resolve \<Rightarrow> bool" where
  "told_ok a asked ts s \<longleftrightarrow>
     distinct (map t_id ts) \<and>
     (\<forall>t\<in>set ts. t_id t < r_current_id s \<and> t_id t \<notin> set (flight_ids s) \<and>
        (\<exists>qn. asked (t_id t) = Some qn \<and> told_answer t = answer_to (a (t_id t)) qn))"

definition client_refs :: "client \<Rightarrow> resolve \<Rightarrow> nat \<Rightarrow> nat" where
  "client_refs c s q = c_queries c q + of_bool (r_current s = Some q)"

text \<open>\<open>pin\<close> is the number of references to the session that \<open>sd_resolve_process\<close> holds.\<close>

definition config_wf :: "(u32 \<Rightarrow> answers) \<Rightarrow> nat \<Rightarrow> config \<Rightarrow> bool" where
  "config_wf a pin cs \<longleftrightarrow>
     (case cs of (c, s) \<Rightarrow>
       res_wf (client_refs c s) (c_sessions c + pin) s \<and> garbage s = {} \<and> traffic_ok a (c_asked c) s \<and> told_ok a (c_asked c) (c_told c) s \<and>
       (\<forall>q. r_current s = Some q \<longrightarrow> (\<exists>v. r_heap s q = Some v \<and> q_done v \<and> (0 < pin \<and> q_floating v \<longrightarrow> q_attached v))))"

lemma query_ok_same: "query_ok asked ids next v \<Longrightarrow> same_query v v' \<Longrightarrow> set ids' \<subseteq> set ids \<Longrightarrow> next \<le> next' \<Longrightarrow> query_ok asked ids' next' v'"
  unfolding query_ok_def same_query_def by (auto intro: order_less_le_trans)

lemma shrinks_flight: "shrinks s s' \<Longrightarrow> flight_ids s' = flight_ids s \<or> flight_ids s' = []"
  by (auto simp: shrinks_def flight_ids_def)

lemma shrinks_traffic:
  assumes "traffic_ok a asked s" "shrinks s s'"
  shows "traffic_ok a asked s'"
proof -
  note t = assms(1) [unfolded traffic_ok_def]
  have f: "set (flight_ids s') \<subseteq> set (flight_ids s)" "distinct (flight_ids s')" "length (flight_ids s') \<le> length (flight_ids s)"
    using shrinks_flight [OF assms(2)] t by auto
  have id: "r_current_id s \<le> r_current_id s'" using assms(2) by (simp add: shrinks_def)
  have "query_ok asked (flight_ids s') (r_current_id s') v'" if v': "r_heap s' q = Some v'" "q_attached v'" for q v'
  proof -
    obtain v where "r_heap s q = Some v" "same_query v v'" using shrinksD [OF assms(2) v'(1)] by blast
    moreover from this v'(2) have "q_attached v" by (simp add: same_query_def)
    ultimately show ?thesis using t query_ok_same [OF _ _ f(1) id] by blast
  qed
  moreover have "\<forall>i\<in>set (flight_ids s'). i < r_current_id s'" using t f(1) id by (meson order_less_le_trans subsetD)
  moreover have "r_requests s' = r_requests s \<and> r_working s' = r_working s \<and> r_responses s' = r_responses s \<or>
      r_requests s' = [] \<and> r_working s' = [] \<and> r_responses s' = []" "r_n_outstanding s' = r_n_outstanding s"
    "r_n_valid_workers s' \<le> WORKERS_MAX"
    using assms(2) t by (auto simp: shrinks_def)
  ultimately show ?thesis using t f(2,3) unfolding traffic_ok_def by (intro conjI) auto
qed

lemma shrinks_told: "told_ok a asked ts s \<Longrightarrow> shrinks s s' \<Longrightarrow> told_ok a asked ts s'"
  using shrinks_flight [of s s'] unfolding told_ok_def shrinks_def by (auto intro: order_less_le_trans)

lemma refs_in_heap: "res_wf refs rr s \<Longrightarrow> 0 < refs q \<Longrightarrow> \<exists>v. r_heap s q = Some v"
  unfolding res_wf_def res_core_def refs_ok_def by (cases "r_heap s q") (auto dest!: spec [of _ q])

lemma refs_not_freed: "res_wf refs rr s \<Longrightarrow> 0 < rr \<Longrightarrow> \<not> r_freed s"
  by (auto simp: res_wf_def res_core_def session_ok_def)

text \<open>A step that only releases keeps what the configuration says besides the references.\<close>

lemma config_wf_shrinks:
  assumes "config_wf a pin (c, s)" "shrinks s s'" "res_wf (client_refs c' s') (c_sessions c' + pin) s'" "garbage s' \<subseteq> garbage s"
    "\<not> r_freed s' \<longrightarrow> floats s \<subseteq> floats s'" "c_asked c' = c_asked c" "c_told c' = c_told c"
  shows "config_wf a pin (c', s')"
proof -
  note w = assms(1) [unfolded config_wf_def prod.case]
  have cur: "r_current s' = r_current s" using assms(2) by (simp add: shrinks_def)
  have "\<exists>v. r_heap s' q = Some v \<and> q_done v \<and> (0 < pin \<and> q_floating v \<longrightarrow> q_attached v)" if q: "r_current s' = Some q" for q
  proof -
    have "0 < client_refs c' s' q" using q by (simp add: client_refs_def)
    then obtain v' where v': "r_heap s' q = Some v'" using refs_in_heap [OF assms(3)] by blast
    then obtain v where v: "r_heap s q = Some v" "same_query v v'" using shrinksD [OF assms(2)] by blast
    then have d: "q_done v" "0 < pin \<and> q_floating v \<longrightarrow> q_attached v" using w q cur by auto
    have "q_attached v'" if f: "0 < pin" "q_floating v'"
    proof -
      have "\<not> r_freed s'" using refs_not_freed [OF assms(3)] f(1) by simp
      moreover have "q \<in> floats s" using v d f by (auto simp: floats_def same_query_def)
      ultimately show ?thesis using assms(5) v' by (auto simp: floats_def)
    qed
    then show ?thesis using v v' d by (auto simp: same_query_def)
  qed
  then show ?thesis
    unfolding config_wf_def prod.case assms(6,7)
    using assms(3,4) w shrinks_traffic [OF _ assms(2)] shrinks_told [OF _ assms(2)] by blast
qed

text \<open>The number of references that are held while a message is processed changes when no callback runs.\<close>

lemma config_wf_pin:
  assumes "config_wf a pin (c, s)" "shrinks s s'" "res_wf (client_refs c s') (c_sessions c + pin') s'" "garbage s' \<subseteq> garbage s" "r_current s = None"
  shows "config_wf a pin' (c, s')"
proof -
  note w = assms(1) [unfolded config_wf_def prod.case]
  have "r_current s' = None" using assms(2,5) by (simp add: shrinks_def)
  then show ?thesis
    unfolding config_wf_def prod.case
    using assms(3,4) w shrinks_traffic [OF _ assms(2)] shrinks_told [OF _ assms(2)] by (metis option.distinct(1) subset_empty)
qed

text \<open>A query that was started is under way, with an id that no other datagram and no answer has.\<close>

lemma config_wf_started:
  assumes wf: "config_wf a pin (c, s)" and ids: "ids_left s" "k \<le> QUERIES_MAX" "n \<le> WORKERS_MAX"
    and i: "i = r_current_id s + of_nat k" and qn: "question_ok qn" "ty = question_type qn" and cb: "callback \<noteq> 0"
    and s': "s' = started want ty callback userdata (request_of i qn) i n s"
    and res: "res_wf (if want then (client_refs c s)(r_next s := Suc (client_refs c s (r_next s))) else client_refs c s) (c_sessions c + pin) s'"
      "garbage s' = {}"
  shows "config_wf a pin (note_asked 0 s' qn (own_query (if want then Some (r_next s) else None) c), s')" "r_current s' = r_current s"
proof -
  note w = wf [unfolded config_wf_def prod.case]
  have t: "traffic_ok a (c_asked c) s" and td: "told_ok a (c_asked c) (c_told c) s" using w by simp_all
  note t' = t [unfolded traffic_ok_def]
  let ?v = "(new_query (\<not> want) i)\<lparr>q_type := ty, q_handler := callback, q_userdata := userdata\<rparr>"
  let ?asked = "(c_asked c)(i \<mapsto> qn)"
  have sel: "r_heap s' = (r_heap s)(r_next s \<mapsto> ?v)" "r_current s' = r_current s" "r_current_id s' = i + 1" "r_n_valid_workers s' = n"
    "r_requests s' = r_requests s @ [request_of i qn]" "r_working s' = r_working s" "r_responses s' = r_responses s"
    "r_n_outstanding s' = r_n_outstanding s + 1"
    by (simp_all add: s' started_def with_new_query_def)
  show "r_current s' = r_current s" by (rule sel(2))
  have le: "r_current_id s \<le> i" "i < i + 1" using ids_left_add [OF ids(1,2)] by (simp_all add: i word_le_nat_alt word_less_nat_alt)
  have lt: "x < r_current_id s \<Longrightarrow> x \<noteq> i \<and> x < i + 1" for x using le by auto
  have fl: "set (flight_ids s') = insert i (set (flight_ids s))" "distinct (flight_ids s')" "length (flight_ids s') = Suc (length (flight_ids s))"
  proof -
    have "i \<notin> set (flight_ids s)" using t' lt by blast
    moreover have "distinct (flight_ids s)" using t' by simp
    ultimately show "set (flight_ids s') = insert i (set (flight_ids s))" "distinct (flight_ids s')"
      "length (flight_ids s') = Suc (length (flight_ids s))"
      by (auto simp: flight_ids_def sel)
  qed
  have asked: "x < r_current_id s \<Longrightarrow> ?asked x = c_asked c x" for x using lt by auto
  have pk: "x \<in> set (flight_ids s) \<Longrightarrow> ?asked x = c_asked c x" for x using t' asked by blast
  have traffic: "traffic_ok a ?asked s'"
    unfolding traffic_ok_def
  proof (intro conjI allI impI ballI)
    show "r_n_valid_workers s' \<le> WORKERS_MAX" using ids(3) sel by simp
    show "distinct (flight_ids s')" by (rule fl)
    show "length (flight_ids s') \<le> r_n_outstanding s'" using fl(3) sel t' by simp
    show "x < r_current_id s'" if "x \<in> set (flight_ids s')" for x using that fl(1) t' lt le(2) sel(3) by auto
    show "query_ok ?asked (flight_ids s') (r_current_id s') v" if v: "r_heap s' q = Some v" "q_attached v" for q v
    proof (cases "q = r_next s")
      case True
      then have "v = ?v" using v sel(1) by simp
      then show ?thesis using cb qn(2) le(2) by (simp add: query_ok_def new_query_def sel)
    next
      case False
      then have "query_ok (c_asked c) (flight_ids s) (r_current_id s) v" using v sel(1) t' by simp
      then show ?thesis using lt [of "q_id v"] asked [of "q_id v"] by (auto simp: query_ok_def fl(1) sel(3))
    qed
    show "\<exists>qn. ?asked (packet_id p) = Some qn \<and> question_ok qn \<and> p = request_of (packet_id p) qn"
      if p: "p \<in> set (r_requests s' @ r_working s')" for p
    proof (cases "p \<in> set (r_requests s @ r_working s)")
      case True
      then have "packet_id p \<in> set (flight_ids s)" by (auto simp: flight_ids_def)
      with True show ?thesis using t' pk by (metis (no_types, lifting))
    next
      case False
      then have "p = request_of i qn" using p sel(5,6) by auto
      then show ?thesis using qn(1) by auto
    qed
    show "p = send_died \<or> (\<exists>qn. ?asked (packet_id p) = Some qn \<and> p = reply_of (a (packet_id p)) (packet_id p) qn \<and> packet_size p \<le> BUFSIZE)"
      if p: "p \<in> set (r_responses s')" for p
    proof (cases "p = send_died")
      case False
      then have "packet_id p \<in> set (flight_ids s)" using p sel(7) by (auto simp: flight_ids_def)
      with p sel(7) show ?thesis using t' pk by (metis (no_types, lifting))
    qed simp
  qed
  have told: "told_ok a ?asked (c_told c) s'"
    unfolding told_ok_def
  proof (intro conjI ballI)
    show "distinct (map t_id (c_told c))" using td by (simp add: told_ok_def)
    fix x assume x: "x \<in> set (c_told c)"
    with td have x': "t_id x < r_current_id s" "t_id x \<notin> set (flight_ids s)"
      "\<exists>qn. c_asked c (t_id x) = Some qn \<and> told_answer x = answer_to (a (t_id x)) qn"
      unfolding told_ok_def by blast+
    show "t_id x < r_current_id s'" using lt [OF x'(1)] sel(3) by simp
    show "t_id x \<notin> set (flight_ids s')" using lt [OF x'(1)] x'(2) fl(1) by simp
    show "\<exists>qn. ?asked (t_id x) = Some qn \<and> told_answer x = answer_to (a (t_id x)) qn" using asked [OF x'(1)] x'(3) by simp
  qed
  let ?c = "note_asked 0 s' qn (own_query (if want then Some (r_next s) else None) c)"
  have c': "c_sessions ?c = c_sessions c" "c_asked ?c = ?asked" "c_told ?c = c_told c"
    by (simp_all add: note_asked_def own_query_def sel(3))
  have refs: "client_refs ?c s' = (if want then (client_refs c s)(r_next s := Suc (client_refs c s (r_next s))) else client_refs c s)"
    by (auto simp: client_refs_def note_asked_def own_query_def sel(2))
  have "\<exists>v. r_heap s' q = Some v \<and> q_done v \<and> (0 < pin \<and> q_floating v \<longrightarrow> q_attached v)" if q: "r_current s' = Some q" for q
  proof -
    obtain v where v: "r_heap s q = Some v" "q_done v" "0 < pin \<and> q_floating v \<longrightarrow> q_attached v" using w q sel(2) by auto
    moreover have "r_heap s (r_next s) = None" using fresh_address w by (auto simp: res_wf_def res_core_def)
    ultimately show ?thesis using sel(1) by auto
  qed
  then show "config_wf a pin (?c, s')"
    unfolding config_wf_def prod.case c' refs using res traffic told by blast
qed

section \<open>The calls of the program\<close>

definition keeps :: "(u32 \<Rightarrow> answers) \<Rightarrow> nat \<Rightarrow> config \<Rightarrow> config outcome \<Rightarrow> bool" where
  \<comment> \<open>a well-formed configuration with the same query in its callback, and all that float unless the session is gone\<close>
  "keeps a pin cs x \<longleftrightarrow>
     gives (\<lambda>cs'. config_wf a pin cs' \<and> r_current (snd cs') = r_current (snd cs) \<and> (0 < pin \<longrightarrow> floats (snd cs) \<subseteq> floats (snd cs'))) x"

lemma keepsI:
  "x = Ret (c', s') \<Longrightarrow> config_wf a pin (c', s') \<Longrightarrow> r_current s' = r_current s \<Longrightarrow> (\<not> r_freed s' \<Longrightarrow> floats s \<subseteq> floats s') \<Longrightarrow> keeps a pin (c, s) x"
  using refs_not_freed [of "client_refs c' s'" "c_sessions c' + pin" s'] by (auto simp: keeps_def config_wf_def)

lemma keeps_same: "config_wf a pin cs \<Longrightarrow> keeps a pin cs (Ret cs)"
  by (simp add: keeps_def)

lemma config_wf_res: "config_wf a pin (c, s) \<Longrightarrow> res_wf (client_refs c s) (c_sessions c + pin) s \<and> garbage s = {}"
  by (simp add: config_wf_def)

lemma client_refs_same: "r_current s' = r_current s \<Longrightarrow> c_queries c' = c_queries c \<Longrightarrow> client_refs c' s' = client_refs c s"
  by (intro ext) (simp add: client_refs_def)

lemma shrinks_current: "shrinks s s' \<Longrightarrow> r_current s' = r_current s"
  by (simp add: shrinks_def)

lemma perform_resolve_ref:
  assumes "config_wf a pin (c, s)" "0 < c_sessions c"
  shows "keeps a pin (c, s) (client_perform Resolve_ref (c, s))"
proof -
  obtain n where n: "c_sessions c = Suc n" using assms(2) by (cases "c_sessions c") auto
  have w: "res_wf (client_refs c s) (Suc (n + pin)) s" using config_wf_res [OF assms(1)] n by simp
  note r = sd_resolve_ref_wf [OF w refs_not_freed [OF w]]
  let ?s = "s\<lparr>r_n_ref := r_n_ref s + 1\<rparr>" let ?c = "c\<lparr>c_sessions := c_sessions c + 1\<rparr>"
  have sh: "shrinks s ?s" using same_query_refl by (auto simp: shrinks_def)
  have "client_refs ?c ?s = client_refs c s" by (rule client_refs_same) simp_all
  then have "res_wf (client_refs ?c ?s) (c_sessions ?c + pin) ?s" using r(2) n by simp
  from config_wf_shrinks [OF assms(1) sh this] show ?thesis
    by (intro keepsI [of _ ?c ?s]) (simp_all add: r(1) garbage_def floats_def)
qed

lemma perform_resolve_unref:
  assumes "config_wf a pin (c, s)" "0 < c_sessions c"
  shows "keeps a pin (c, s) (client_perform Resolve_unref (c, s))"
proof -
  obtain n where n: "c_sessions c = Suc n" using assms(2) by (cases "c_sessions c") auto
  have "res_wf (client_refs c s) (Suc (n + pin)) s" using config_wf_res [OF assms(1)] n by simp
  from sd_resolve_unref_wf [OF this] obtain s' where s': "sd_resolve_unref s = Ret s'" "res_wf (client_refs c s) (n + pin) s'"
    "shrinks s s'" "garbage s' \<subseteq> garbage s" "\<not> r_freed s' \<longrightarrow> floats s \<subseteq> floats s'" .
  let ?c = "c\<lparr>c_sessions := c_sessions c - 1\<rparr>"
  have cur: "r_current s' = r_current s" by (rule shrinks_current [OF s'(3)])
  have "client_refs ?c s' = client_refs c s" by (rule client_refs_same) (simp_all add: cur)
  then have "res_wf (client_refs ?c s') (c_sessions ?c + pin) s'" using s'(2) n by simp
  from config_wf_shrinks [OF assms(1) s'(3) this s'(4,5)] show ?thesis
    by (intro keepsI [of _ ?c s']) (simp_all add: s'(1,5) cur)
qed

lemma may_use_heap:
  assumes "config_wf a pin (c, s)" "may_use q (c, s)"
  obtains v where "r_heap s q = Some v"
proof -
  have "0 < client_refs c s q" using assms(2) by (auto simp: may_use_def client_refs_def)
  then show thesis using refs_in_heap config_wf_res [OF assms(1)] that by blast
qed

lemma perform_query_ref:
  assumes "config_wf a pin (c, s)" "may_use q (c, s)"
  shows "keeps a pin (c, s) (client_perform (Query_ref q) (c, s))"
proof -
  obtain v where v: "r_heap s q = Some v" using may_use_heap [OF assms] .
  note w = config_wf_res [OF assms(1)]
  note r = sd_resolve_query_ref_wf [OF conjunct1 [OF w] conjunct2 [OF w] v]
  let ?s = "set_query q (v\<lparr>q_n_ref := q_n_ref v + 1\<rparr>) s" let ?c = "own_query (Some q) c"
  have sh: "shrinks s ?s" using v same_query_refl by (auto simp: shrinks_def same_query_def)
  have "client_refs ?c ?s = (client_refs c s)(q := Suc (client_refs c s q))"
    by (auto simp: client_refs_def own_query_def)
  then have "res_wf (client_refs ?c ?s) (c_sessions ?c + pin) ?s" using r(2) by (simp add: own_query_def)
  moreover have "garbage ?s = {}" using w by (intro garbage_set_query) simp_all
  moreover have "floats s \<subseteq> floats ?s" using v by (auto simp: floats_def)
  ultimately show ?thesis
    using config_wf_shrinks [OF assms(1) sh, of ?c] by (intro keepsI [of _ ?c ?s]) (auto simp: r(1) own_query_def floats_def v)
qed

lemma perform_query_unref:
  assumes "config_wf a pin (c, s)" "0 < c_queries c q"
  shows "keeps a pin (c, s) (client_perform (Query_unref q) (c, s))"
proof -
  note w = config_wf_res [OF assms(1)]
  let ?n = "client_refs c s q - 1" let ?c = "c\<lparr>c_queries := (c_queries c)(q := c_queries c q - 1)\<rparr>"
  have "0 < client_refs c s q" using assms(2) by (simp add: client_refs_def)
  then have refs: "(client_refs c s)(q := Suc ?n) = client_refs c s" and heap: "r_heap s q \<noteq> None"
    using refs_in_heap [OF conjunct1 [OF w]] by auto
  have "res_wf ((client_refs c s)(q := Suc ?n)) (c_sessions c + pin) s" unfolding refs using w by simp
  from sd_resolve_query_unref_wf [OF this heap] obtain s' where s': "sd_resolve_query_unref q s = Ret s'"
    "res_wf ((client_refs c s)(q := ?n)) (c_sessions c + pin) s'" "shrinks s s'" "garbage s' \<subseteq> garbage s"
    "\<not> r_freed s' \<longrightarrow> floats s \<subseteq> floats s'" .
  have cur: "r_current s' = r_current s" by (rule shrinks_current [OF s'(3)])
  have "client_refs ?c s' = (client_refs c s)(q := ?n)"
    using assms(2) by (auto simp: client_refs_def cur)
  then have "res_wf (client_refs ?c s') (c_sessions ?c + pin) s'" using s'(2) by simp
  from config_wf_shrinks [OF assms(1) s'(3) this s'(4,5)] show ?thesis
    by (intro keepsI [of _ ?c s']) (simp_all add: s'(1,5) cur)
qed

lemma attached_not_freed: "res_wf refs rr s \<Longrightarrow> r_heap s q = Some v \<Longrightarrow> q_attached v \<Longrightarrow> \<not> r_freed s"
  using members_in [of "view_of s" "r_queries s" "r_query_array s" "r_n_queries s" "r_n_done s" q] view_of_Some [of s q v]
  by (auto simp: res_wf_def res_core_def session_ok_def)

lemma perform_set_userdata:
  assumes "config_wf a pin (c, s)" "may_use q (c, s)" "attached_in s q"
  shows "keeps a pin (c, s) (client_perform (Set_userdata q u) (c, s))"
proof -
  obtain v where v: "r_heap s q = Some v" "q_attached v" using assms(3) by (auto simp: attached_in_def split: option.splits)
  note w = config_wf_res [OF assms(1)]
  have nf: "\<not> r_freed s" by (rule attached_not_freed [OF conjunct1 [OF w] v])
  show ?thesis
  proof (cases "resolve_pid_changed s")
    case True
    then show ?thesis using v nf assms(1) by (intro keepsI [of _ c s]) (simp_all add: sd_resolve_query_set_userdata_def with_session_def)
  next
    case False
    let ?s = "set_query q (v\<lparr>q_userdata := u\<rparr>) s"
    have n: "q_n_ref v = client_refs c s q + of_bool (q_attached v \<and> q_floating v)"
      using refs_okD [of "client_refs c s" s q v] w v by (simp add: res_wf_def res_core_def)
    have "res_wf ((client_refs c s)(q := client_refs c s q)) (c_sessions c + pin) ?s"
      by (rule res_wf_set_query [OF conjunct1 [OF w] v(1)]) (use n in simp_all)
    moreover have "client_refs c ?s = client_refs c s" by (rule client_refs_same) simp_all
    moreover have "shrinks s ?s" using v same_query_refl by (auto simp: shrinks_def same_query_def)
    moreover have "garbage ?s = {}" using w v by (intro garbage_set_query) (auto simp: garbage_def)
    moreover have "floats s \<subseteq> floats ?s" using v by (auto simp: floats_def)
    ultimately have "config_wf a pin (c, ?s)" using config_wf_shrinks [OF assms(1), of ?s c] by simp
    then show ?thesis
      using v nf False by (intro keepsI [of _ c ?s]) (auto simp: sd_resolve_query_set_userdata_def with_session_def floats_def)
  qed
qed

lemma config_wf_event:
  assumes "config_wf a pin (c, s)" "0 < c_sessions c + pin" "x \<longrightarrow> y"
  shows "config_wf a pin (c, s\<lparr>r_event_source := x, r_event := y\<rparr>)"
proof -
  let ?s = "s\<lparr>r_event_source := x, r_event := y\<rparr>"
  note w = config_wf_res [OF assms(1)]
  have nf: "\<not> r_freed s" by (rule refs_not_freed [OF conjunct1 [OF w] assms(2)])
  note c = conjunct1 [OF w, unfolded res_wf_def res_core_def]
  have v: "view_of ?s = view_of s" by (rule view_of_cong) simp
  have "refs_ok (client_refs c s) ?s" by (rule refs_ok_cong [of "client_refs c s" s]) (use c in simp_all)
  then have "res_wf (client_refs c s) (c_sessions c + pin) ?s"
    using c nf assms(3) unfolding res_wf_def res_core_def session_ok_def v by simp
  moreover have "client_refs c ?s = client_refs c s" by (rule client_refs_same) simp_all
  moreover have "shrinks s ?s" using same_query_refl by (auto simp: shrinks_def)
  ultimately show ?thesis using config_wf_shrinks [OF assms(1), of ?s c] by (simp add: garbage_def floats_def)
qed

lemma perform_events:
  assumes "config_wf a pin (c, s)" "0 < c_sessions c"
  shows "keeps a pin (c, s) (client_perform Detach_event (c, s))" "keeps a pin (c, s) (client_perform (Attach_event event d r p) (c, s))"
proof -
  have ev: "r_event_source s \<longrightarrow> r_event s"
    using config_wf_res [OF assms(1)] by (simp add: res_wf_def res_core_def session_ok_def)
  have wf: "x \<longrightarrow> y \<Longrightarrow> config_wf a pin (c, s\<lparr>r_event_source := x, r_event := y\<rparr>)" for x y
    using config_wf_event [OF assms(1), of x y] assms(2) by simp
  have s: "s\<lparr>r_event_source := r_event_source s, r_event := r_event s\<rparr> = s" by simp
  have off: "snd (sd_resolve_detach_event s') = (if r_event s' then s'\<lparr>r_event_source := False, r_event := False\<rparr> else s')" for s'
    by (simp add: sd_resolve_detach_event_def)
  show "keeps a pin (c, s) (client_perform Detach_event (c, s))"
    using wf [of False False] assms(1) by (auto simp: keeps_def off floats_def)
  show "keeps a pin (c, s) (client_perform (Attach_event event d r p) (c, s))"
  proof (cases "r_event s")
    case True
    then show ?thesis using assms(1) by (simp add: keeps_def sd_resolve_attach_event_def)
  next
    case False
    with ev have "\<not> r_event_source s" by simp
    moreover have "config_wf a pin (c, s\<lparr>r_event := True, r_event_source := True\<rparr>)"
    proof -
      have swap: "s\<lparr>r_event := True, r_event_source := True\<rparr> = s\<lparr>r_event_source := True, r_event := True\<rparr>" by simp
      show ?thesis unfolding swap by (rule wf) simp
    qed
    ultimately show ?thesis
      using False assms(1) wf [of False False] wf [of True True] by (simp add: keeps_def sd_resolve_attach_event_def off Let_def floats_def)
  qed
qed

lemma perform_start:
  assumes wf: "config_wf a pin (c, s)" "0 < c_sessions c" "ids_left s" "question_ok qn" "ty = question_type qn" "callback \<noteq> 0"
  shows "keeps a pin (c, s)
    (obind (start_query os want ty callback userdata (\<lambda>i. request_of i qn) s) (\<lambda>(r, q, s). Ret (note_asked r s qn (own_query q c), s)))"
proof -
  note w = config_wf_res [OF wf(1)]
  have nf: "\<not> r_freed s" by (rule refs_not_freed [OF conjunct1 [OF w]]) (use wf(2) in simp)
  have workers: "r_n_valid_workers s \<le> WORKERS_MAX" using wf(1) by (simp add: config_wf_def traffic_ok_def)
  let ?out = "start_query os want ty callback userdata (\<lambda>i. request_of i qn) s"
  consider (failed) e s' where "?out = Ret (e, None, s')" "e < 0" "res_wf (client_refs c s) (c_sessions c + pin) s'" "garbage s' = {}" "shrinks s s'"
      "\<not> r_freed s' \<longrightarrow> floats s \<subseteq> floats s'"
    | (sent) k n s' where "k \<le> QUERIES_MAX" "n \<le> WORKERS_MAX"
      "s' = started want ty callback userdata (request_of (r_current_id s + of_nat k) qn) (r_current_id s + of_nat k) n s"
      "?out = Ret (0, if want then Some (r_next s) else None, s')"
      "res_wf (if want then (client_refs c s)(r_next s := Suc (client_refs c s (r_next s))) else client_refs c s) (c_sessions c + pin) s'"
      "garbage s' = {}"
    using start_query_wf [OF conjunct1 [OF w] conjunct2 [OF w] nf workers wf(3), of os want ty callback userdata "\<lambda>i. request_of i qn"]
    by blast
  then show ?thesis
  proof cases
    case failed
    have "client_refs c s' = client_refs c s" by (rule client_refs_same) (simp_all add: shrinks_current [OF failed(5)])
    then have "config_wf a pin (c, s')" using config_wf_shrinks [OF wf(1) failed(5), of c] failed by simp
    then show ?thesis using failed shrinks_current by (intro keepsI [of _ c s']) (simp_all add: note_asked_def own_query_def)
  next
    case sent
    note st = config_wf_started [OF wf(1,3) sent(1,2) refl wf(4,5,6) sent(3,5,6)]
    have "r_heap s (r_next s) = None" using fresh_address w by (auto simp: res_wf_def res_core_def)
    then have "floats s \<subseteq> floats s'" by (auto simp: floats_def sent(3) started_def with_new_query_def)
    then show ?thesis by (intro keepsI [OF _ st]) (simp_all add: sent(4))
  qed
qed

lemma client_perform_keeps:
  assumes "config_wf a pin (c, s)" "allowed call (c, s)"
  shows "keeps a pin (c, s) (client_perform call (c, s))"
proof (cases call)
  case (Start_getaddrinfo os want node service h callback userdata)
  let ?qn = "Ask_addrinfo node service h"
  have "0 < c_sessions c" "ids_left s" "question_ok ?qn" using assms(2) Start_getaddrinfo by simp_all
  note st = perform_start [OF assms(1) this, of REQUEST_ADDRINFO]
  have "keeps a pin (c, s) (obind (Ret (e, None, s)) (\<lambda>(r, q, s). Ret (note_asked r s ?qn (own_query q c), s)))" if "e < 0" for e
    using assms(1) that by (simp add: keeps_def note_asked_def own_query_def)
  then show ?thesis
    using st unfolding Start_getaddrinfo client_perform.simps sd_resolve_getaddrinfo_def
    by (cases node; cases service; cases "callback = 0"; cases "resolve_pid_changed s") (simp_all del: obind.simps)
next
  case (Start_getnameinfo os want sa flags get callback userdata)
  let ?qn = "Ask_nameinfo sa flags get"
  have ok: "0 < c_sessions c" "ids_left s" using assms(2) Start_getnameinfo by simp_all
  note st = perform_start [OF assms(1) ok, of ?qn REQUEST_NAMEINFO]
  have "keeps a pin (c, s) (obind (Ret (e, None, s)) (\<lambda>(r, q, s). Ret (note_asked r s ?qn (own_query q c), s)))" if "e < 0" for e
    using assms(1) that by (simp add: keeps_def note_asked_def own_query_def)
  then show ?thesis
    using st by (simp add: Start_getnameinfo sd_resolve_getnameinfo_def del: obind.simps)
qed (use assms perform_resolve_ref perform_resolve_unref perform_query_ref perform_query_unref perform_set_userdata perform_events
    in \<open>auto simp del: client_perform.simps\<close>)

lemma client_steps_keeps: "config_wf a pin cs \<Longrightarrow> keeps a pin cs (client_steps calls cs)"
proof (induction calls arbitrary: cs)
  case Nil
  then show ?case by (simp add: keeps_same)
next
  case (Cons call calls)
  obtain c s where cs: "cs = (c, s)" by fastforce
  have "keeps a pin cs (client_step call cs)"
    using client_perform_keeps [of a pin c s call] keeps_same [OF Cons.prems] Cons.prems by (simp add: client_step_def cs)
  then obtain cs' where cs': "client_step call cs = Ret cs'" "config_wf a pin cs'" "r_current (snd cs') = r_current (snd cs)"
    "0 < pin \<longrightarrow> floats (snd cs) \<subseteq> floats (snd cs')"
    by (auto simp: keeps_def gives_iff)
  from Cons.IH [OF cs'(2)] show ?case using cs' by (auto simp: keeps_def gives_iff)
qed

end
