(* ===== verification/Resolve_Trace.thy ===== *)
theory Resolve_Trace
  imports Resolve_Run
begin

text \<open>
  Replies and runs: the invariant holds along every interleaving of the program's calls, its
  callbacks and the threads, and the callbacks are told the answers to their questions.
\<close>

section \<open>The end of a callback\<close>

lemma traffic_current: "traffic_ok a asked (s\<lparr>r_current := x\<rparr>) = traffic_ok a asked s"
  by (simp add: traffic_ok_def flight_ids_def)

lemma told_current: "told_ok a asked ts (s\<lparr>r_current := x\<rparr>) = told_ok a asked ts s"
  by (simp add: told_ok_def flight_ids_def)

lemma finish_query_wf:
  assumes "config_wf a pin (c, s)" "0 < pin" "r_current s = Some q"
  obtains s' where "finish_query q (c, s) = Ret (c, s')" "config_wf a pin (c, s')" "r_current s' = None"
proof -
  let ?s = "s\<lparr>r_current := None\<rparr>" let ?refs = "client_refs c ?s" let ?rr = "c_sessions c + pin"
  note w = assms(1) [unfolded config_wf_def prod.case]
  obtain v where v: "r_heap s q = Some v" "q_floating v \<longrightarrow> q_attached v" using w assms(2,3) by auto
  have nf: "\<not> r_freed s" by (rule refs_not_freed [OF conjunct1 [OF w]]) (use assms(2) in simp)
  have refs: "client_refs c s = ?refs(q := Suc (?refs q))" using assms(3) by (auto simp: client_refs_def)
  have wf0: "res_wf (?refs(q := Suc (?refs q))) ?rr ?s"
    by (rule res_wf_cong [of _ _ s]) (use w nf refs in simp_all)
  obtain s1 where s1: "(if q_floating v then obind (resolve_query_disconnect q ?s) (sd_resolve_query_unref q) else Ret ?s) = Ret s1"
    "res_wf (?refs(q := Suc (?refs q))) ?rr s1" "shrinks ?s s1" "garbage s1 \<subseteq> garbage ?s"
  proof (cases "q_floating v")
    case False
    then show thesis using that [of ?s] wf0 shrinks_refl by simp
  next
    case True
    then have att: "q_attached v" using v(2) by simp
    have core: "res_core (?refs(q := Suc (?refs q))) ?rr ?s" using wf0 by (simp add: res_wf_def)
    have hv: "r_heap ?s q = Some v" using v(1) by simp
    obtain s2 where s2: "detach_query q ?s = Ret s2" "res_core (?refs(q := Suc (Suc (?refs q)))) ?rr s2"
      "r_heap s2 = (r_heap ?s)(q \<mapsto> v\<lparr>q_attached := False\<rparr>)" "r_n_ref s2 = r_n_ref ?s" "r_freed s2 = r_freed ?s" "shrinks ?s s2"
      by (rule detach_query_core [OF core hv att]) (use True in auto)
    have wf2: "res_wf (?refs(q := Suc (Suc (?refs q)))) ?rr s2" using s2 wf0 by (simp add: res_wf_def)
    have "r_heap s2 q \<noteq> None" using s2(3) by simp
    from sd_resolve_query_unref_wf [OF wf2 this] obtain s3 where s3: "sd_resolve_query_unref q s2 = Ret s3"
      "res_wf (?refs(q := Suc (?refs q))) ?rr s3" "shrinks s2 s3" "garbage s3 \<subseteq> garbage s2"
      "\<not> r_freed s3 \<longrightarrow> floats s2 \<subseteq> floats s3" .
    have "garbage s2 \<subseteq> garbage ?s" using s2(3) hv by (auto simp: garbage_def split: if_splits)
    moreover have "resolve_query_disconnect q ?s = Ret s2" using hv att True s2(1) by (simp add: resolve_query_disconnect_def)
    ultimately show thesis using that [of s3] True s3 shrinks_trans [OF s2(6) s3(3)] by simp
  qed
  have "r_heap s1 q \<noteq> None" using refs_in_heap [OF s1(2), of q] by auto
  from sd_resolve_query_unref_wf [OF s1(2) this] obtain s' where s': "sd_resolve_query_unref q s1 = Ret s'"
    "res_wf (?refs(q := ?refs q)) ?rr s'" "shrinks s1 s'" "garbage s' \<subseteq> garbage s1"
    "\<not> r_freed s' \<longrightarrow> floats s1 \<subseteq> floats s'" .
  have sh: "shrinks ?s s'" using shrinks_trans [OF s1(3) s'(3)] .
  then have cur: "r_current s' = None" by (simp add: shrinks_def)
  have "client_refs c s' = ?refs" by (intro ext) (simp add: client_refs_def cur)
  then have "res_wf (client_refs c s') ?rr s'" using s'(2) by simp
  moreover have "garbage ?s = garbage s" by (simp add: garbage_def)
  then have "garbage s' = {}" using s'(4) s1(4) w by auto
  moreover have "traffic_ok a (c_asked c) s'" using shrinks_traffic [OF _ sh] w by (simp add: traffic_current)
  moreover have "told_ok a (c_asked c) (c_told c) s'" using shrinks_told [OF _ sh] w by (simp add: told_current)
  ultimately have "config_wf a pin (c, s')" by (simp add: config_wf_def cur)
  moreover have "finish_query q (c, s) = Ret (c, s')"
    using s1(1) s'(1) v(1) unfolding finish_query_def Let_def by simp
  ultimately show thesis using that cur by blast
qed

section \<open>A reply\<close>

text \<open>The session after a reply was taken out of the socket.\<close>

abbreviation without_reply :: "packet list \<Rightarrow> resolve \<Rightarrow> resolve" where
  "without_reply ps s \<equiv> s\<lparr>r_responses := ps, r_n_outstanding := r_n_outstanding s - 1\<rparr>"

lemma flight_reply:
  assumes "traffic_ok a asked s" "r_responses s = p # ps" "p \<noteq> send_died"
  shows "set (flight_ids s) = insert (packet_id p) (set (flight_ids (without_reply ps s)))"
    "packet_id p \<notin> set (flight_ids (without_reply ps s))" "distinct (flight_ids (without_reply ps s))"
    "length (flight_ids (without_reply ps s)) \<le> r_n_outstanding s - 1" "0 < r_n_outstanding s"
proof -
  have d: "distinct (flight_ids s)" "length (flight_ids s) \<le> r_n_outstanding s" using assms(1) by (simp_all add: traffic_ok_def)
  have f: "flight_ids s = map packet_id (r_requests s @ r_working s) @ packet_id p # map packet_id (filter (\<lambda>p. p \<noteq> send_died) ps)"
    "flight_ids (without_reply ps s) = map packet_id (r_requests s @ r_working s) @ map packet_id (filter (\<lambda>p. p \<noteq> send_died) ps)"
    using assms(2,3) by (simp_all add: flight_ids_def)
  show "set (flight_ids s) = insert (packet_id p) (set (flight_ids (without_reply ps s)))" using f by auto
  show "packet_id p \<notin> set (flight_ids (without_reply ps s))" "distinct (flight_ids (without_reply ps s))" using d(1) f by auto
  show "length (flight_ids (without_reply ps s)) \<le> r_n_outstanding s - 1" "0 < r_n_outstanding s" using d(2) f by auto
qed

lemma traffic_reply:
  assumes "traffic_ok a asked s" "r_responses s = p # ps" "p \<noteq> send_died"
  shows "traffic_ok a asked (without_reply ps s)"
proof -
  note f = flight_reply [OF assms]
  have "query_ok asked (flight_ids (without_reply ps s)) (r_current_id s) v" if "query_ok asked (flight_ids s) (r_current_id s) v" for v
    by (rule query_ok_same [OF that same_query_refl]) (use f(1) in auto)
  then show ?thesis using assms(1,2) f unfolding traffic_ok_def by simp
qed

lemma told_reply:
  assumes "traffic_ok a asked s" "told_ok a asked ts s" "r_responses s = p # ps" "p \<noteq> send_died"
  shows "told_ok a asked ts (without_reply ps s)" "packet_id p \<notin> t_id ` set ts"
proof -
  note f = flight_reply [OF assms(1,3,4)]
  have t: "distinct (map t_id ts)" "\<And>t. t \<in> set ts \<Longrightarrow> t_id t < r_current_id s \<and> t_id t \<notin> set (flight_ids s) \<and>
        (\<exists>qn. asked (t_id t) = Some qn \<and> told_answer t = answer_to (a (t_id t)) qn)"
    using assms(2) by (simp_all add: told_ok_def)
  show "packet_id p \<notin> t_id ` set ts"
  proof
    assume "packet_id p \<in> t_id ` set ts"
    then obtain x where x: "x \<in> set ts" "t_id x = packet_id p" by auto
    from t(2) [OF x(1)] have "packet_id p \<notin> set (flight_ids s)" unfolding x(2) by blast
    then show False using f(1) by blast
  qed
  have "t_id t \<notin> set (flight_ids (without_reply ps s))" if "t \<in> set ts" for t using t(2) [OF that] f(1) by blast
  then show "told_ok a asked ts (without_reply ps s)" using t unfolding told_ok_def by simp
qed

text \<open>A query whose answer has come is done, and its callback is told the answer.\<close>

lemma complete_query_wf:
  assumes wf: "config_wf a pin (c, s)" "0 < pin" "r_current s = None"
    and v: "r_heap s q = Some v" "q_attached v" "\<not> q_done v" "q_type v = question_type qn"
    and new: "q_id v \<notin> set (flight_ids s)" "q_id v \<notin> t_id ` set (c_told c)" "c_asked c (q_id v) = Some qn"
    and x: "x = answer_to (a (q_id v)) qn"
  obtains cs' where "complete_query calls ret q (c, set_query q (filled x v) s) = Ret (ret, cs')" "config_wf a pin cs'" "r_current (snd cs') = None"
proof -
  note w = wf(1) [unfolded config_wf_def prod.case]
  note core = conjunct1 [OF w, unfolded res_wf_def res_core_def]
  have nf: "\<not> r_freed s" by (rule refs_not_freed [OF conjunct1 [OF w]]) (use wf(2) in simp)
  have nr: "q < r_next s" "q_n_ref v = client_refs c s q + of_bool (q_floating v)" using refs_okD [of "client_refs c s" s q v] core v by auto
  have ok: "query_ok (c_asked c) (flight_ids s) (r_current_id s) v" using w v(1,2) by (simp add: traffic_ok_def)
  have pos: "q_n_ref v \<noteq> 0" using w v(1) by (auto simp: garbage_def)
  let ?v = "filled x v\<lparr>q_done := True\<rparr>" let ?v' = "?v\<lparr>q_n_ref := q_n_ref v + 1\<rparr>"
  define s1 where "s1 = (set_query q ?v (set_query q (filled x v) s))\<lparr>r_n_done := r_n_done s + 1\<rparr>"
  define s2 where "s2 = (set_query q ?v' s1)\<lparr>r_current := Some q\<rparr>"
  define t where "t = \<lparr>t_query = q, t_id = q_id v, t_ret = q_ret ?v', t_errno = q_errno ?v', t_h_errno = q_h_errno ?v',
      t_addrinfo = (if q_type v = REQUEST_ADDRINFO then q_addrinfo ?v' else []),
      t_host = (if q_type v = REQUEST_NAMEINFO then q_host ?v' else None), t_serv = (if q_type v = REQUEST_NAMEINFO then q_serv ?v' else None)\<rparr>"
  define c' where "c' = c\<lparr>c_told := t # c_told c\<rparr>"
  have heap: "r_heap s2 = (r_heap s)(q \<mapsto> ?v')" by (simp add: s2_def s1_def)
  have sel: "r_current s2 = Some q" "r_current_id s2 = r_current_id s" "flight_ids s2 = flight_ids s" "r_n_outstanding s2 = r_n_outstanding s"
    "r_requests s2 = r_requests s" "r_working s2 = r_working s" "r_responses s2 = r_responses s" "r_n_valid_workers s2 = r_n_valid_workers s"
    "r_next s2 = r_next s" "r_freed s2 = r_freed s" "r_queries s2 = r_queries s" "r_n_done s2 = Suc (r_n_done s)" "r_n_queries s2 = r_n_queries s"
    "r_query_array s2 = r_query_array s" "r_n_ref s2 = r_n_ref s" "r_event_source s2 = r_event_source s" "r_event s2 = r_event s"
    by (simp_all add: s2_def s1_def flight_ids_def)
  have start: "complete_query calls ret q (c, set_query q (filled x v) s) =
      obind (client_steps calls (c', s2)) (\<lambda>cs. obind (finish_query q cs) (\<lambda>cs. Ret (ret, cs)))"
  proof -
    have "r_heap (set_query q (filled x v) s) q = Some (filled x v)" "r_heap s1 q = Some ?v" "r_heap s2 q = Some ?v'"
      by (simp_all add: s1_def s2_def)
    moreover have "sd_resolve_query_ref q s1 = Ret (set_query q ?v' s1)"
      using pos by (simp add: sd_resolve_query_ref_def s1_def)
    moreover have "(set_query q ?v (set_query q (filled x v) s))\<lparr>r_n_done := Suc (r_n_done s)\<rparr> = s1"
      "(set_query q (?v\<lparr>q_n_ref := Suc (q_n_ref v)\<rparr>) s1)\<lparr>r_current := Some q\<rparr> = s2"
      by (simp_all add: s1_def s2_def)
    ultimately show ?thesis
      using v ok by (cases "q_type v")
        (simp_all add: complete_query_def getaddrinfo_done_def getnameinfo_done_def query_done_def query_ok_def c'_def t_def Let_def)
  qed
  have refs: "client_refs c' s2 = (client_refs c s)(q := Suc (client_refs c s q))"
    using wf(3) by (auto simp: client_refs_def c'_def sel)
  have wq: "view_of s q = Some (True, q_floating v, q_id v, False)" using view_of_Some [OF v(1)] v(2,3) by simp
  have view: "view_of s2 = (view_of s)(q \<mapsto> (True, q_floating v, q_id v, True))"
    by (rule view_of_heap [OF heap]) (simp add: v)
  have mem: "members (view_of s) (r_queries s) (r_query_array s) (r_n_queries s) (r_n_done s)" using core by simp
  have "refs_ok (client_refs c' s2) s2"
    unfolding refs by (rule refs_ok_update [of "client_refs c s", OF _ heap]) (use core nr v in \<open>auto simp: sel\<close>)
  moreover have "session_ok (c_sessions c' + pin) s2"
    using core nf members_done(2) [OF mem wq] unfolding session_ok_def view by (simp add: sel c'_def)
  moreover have "members (view_of s2) (r_queries s2) (r_query_array s2) (r_n_queries s2) (r_n_done s2)"
    using members_done(1) [OF mem wq] unfolding view by (simp add: sel)
  ultimately have res: "res_wf (client_refs c' s2) (c_sessions c' + pin) s2" using core nf by (simp add: res_wf_def res_core_def sel)
  have g: "garbage s2 = {}" using w by (auto simp: garbage_def heap)
  have "query_ok (c_asked c) (flight_ids s) (r_current_id s) ?v'" using ok new(1) by (simp add: query_ok_def)
  then have traffic: "traffic_ok a (c_asked c') s2" using w by (simp add: traffic_ok_def sel heap c'_def)
  have "told_answer t = x"
    unfolding x told_answer_def t_def using v(4) x by (cases qn) (auto simp: filled_def split: prod.splits)
  then have told: "told_ok a (c_asked c') (c_told c') s2"
    using w new ok x by (auto simp: told_ok_def sel c'_def t_def query_ok_def)
  have "config_wf a pin (c', s2)" using res g traffic told v(2) by (simp add: config_wf_def sel(1) heap)
  from client_steps_keeps [OF this, of calls] obtain c'' s'' where st: "client_steps calls (c', s2) = Ret (c'', s'')"
    "config_wf a pin (c'', s'')" "r_current s'' = Some q"
    by (auto simp: keeps_def gives_iff sel(1))
  from finish_query_wf [OF st(2) wf(2) st(3)] obtain s3 where "finish_query q (c'', s'') = Ret (c'', s3)" "config_wf a pin (c'', s3)" "r_current s3 = None" .
  then show thesis using that start st(1) by simp
qed

text \<open>Datagrams that move leave the rest of a configuration alone.\<close>

lemma config_wf_datagrams:
  assumes "config_wf a pin (c, s)" "\<not> r_freed s"
    "s' = s\<lparr>r_requests := rq, r_working := wk, r_responses := rs, r_n_outstanding := n, r_dead := d\<rparr>"
    "traffic_ok a (c_asked c) s'" "told_ok a (c_asked c) (c_told c) s'"
  shows "config_wf a pin (c, s')"
proof -
  have "res_wf (client_refs c s) (c_sessions c + pin) s'"
    by (rule res_wf_cong [of _ _ s]) (use assms(1-3) in \<open>simp_all add: config_wf_def\<close>)
  moreover have "client_refs c s' = client_refs c s" by (rule client_refs_same) (simp_all add: assms(3))
  ultimately show ?thesis using assms unfolding config_wf_def by (simp add: garbage_def)
qed

lemma lookup_query_found:
  assumes "config_wf a pin (c, s)"
  shows "\<exists>x. lookup_query s i = Ret x \<and> (\<forall>q. x = Some q \<longrightarrow> (\<exists>v. r_heap s q = Some v \<and> q_attached v \<and> q_id v = i))"
proof (cases "r_query_array s ! id_slot i")
  case None
  then show ?thesis by (simp add: lookup_query_def)
next
  case (Some q)
  have "members (view_of s) (r_queries s) (r_query_array s) (r_n_queries s) (r_n_done s)"
    using assms by (simp add: config_wf_def res_wf_def res_core_def)
  then have "member_with (\<lambda>f i' d. id_slot i' = id_slot i) (view_of s q)" using Some id_slot_less [of i] by (simp add: members_def)
  then obtain v where "r_heap s q = Some v" "q_attached v"
    by (auto simp: view_of_def elim!: member_with.elims)
  with Some show ?thesis by (auto simp: lookup_query_def)
qed

lemma reply_not_died: "reply_of b i qn \<noteq> Died_response n"
  by (cases qn) (simp_all add: Let_def split: prod.split)

text \<open>A reply to a known query is stored in it.\<close>

lemma handle_reply:
  assumes p: "p = reply_of b i qn" "packet_size p \<le> BUFSIZE" and ok: "answers_ok b" and out: "0 < r_n_outstanding s"
    and x: "lookup_query (without_reply ps s) i = Ret (Some q)"
    and v: "r_heap (without_reply ps s) q = Some v" "q_type v = question_type qn" "q_addrinfo v = []" "q_host v = None" "q_serv v = None"
  shows "handle_response calls ret p (c, s\<lparr>r_responses := ps\<rparr>) =
    complete_query calls ret q (c, set_query q (filled (answer_to b qn) v) (without_reply ps s))"
proof -
  note rec = reply_received [of b i qn, folded p(1), OF p(2)]
  show ?thesis
  proof (cases qn)
    case (Ask_addrinfo node service h)
    obtain rr result where g: "getaddrinfo b node service h = (rr, result)" by fastforce
    let ?bs = "addrinfo_records (if rr = 0 then result else [])"
    have q: "p = Addrinfo_response i (SIZEOF_AddrInfoResponse + length ?bs) rr (ans_errno b) (ans_h_errno b) ?bs"
      using p(1) g by (simp add: Ask_addrinfo Let_def length_addrinfo_records)
    have len: "received p = SIZEOF_AddrInfoResponse + length ?bs" using rec(1) q by simp
    note fill = fill_addrinfo_reply [OF ok g p(2) [unfolded p(1) Ask_addrinfo] v(3-5)]
    show ?thesis
      using rec len out x v(1,2) fill unfolding handle_response_def
      by (simp add: q Ask_addrinfo del: answer_to.simps)
  next
    case (Ask_nameinfo sa flags get)
    obtain rr host serv where g: "name_answer b sa flags get = (rr, host, serv)" by (metis prod_cases3)
    let ?h = "opt_bytes host" let ?s = "opt_bytes serv"
    have q: "p = Nameinfo_response i (SIZEOF_NameInfoResponse + length ?h + length ?s) (length ?h) (length ?s) rr
        (ans_errno b) (ans_h_errno b) (?h @ ?s)"
      using p(1) g by (simp add: Ask_nameinfo)
    have len: "received p = SIZEOF_NameInfoResponse + length ?h + length ?s" using rec(1) q by simp
    note fill = fill_nameinfo_reply [OF ok g v(3-5)]
    show ?thesis
      using rec len out x v(1,2) fill unfolding handle_response_def
      by (simp add: q Ask_nameinfo del: answer_to.simps)
  qed
qed

lemma handle_response_wf:
  assumes "config_wf a pin (c, s)" "0 < pin" "r_current s = None" "r_responses s = p # ps" "\<forall>i. answers_ok (a i)"
  shows "gives (\<lambda>(r, cs). config_wf a pin cs \<and> r_current (snd cs) = None) (handle_response calls ret p (c, s\<lparr>r_responses := ps\<rparr>))"
proof -
  note w = assms(1) [unfolded config_wf_def prod.case]
  have t: "traffic_ok a (c_asked c) s" and td: "told_ok a (c_asked c) (c_told c) s" using w by simp_all
  have nf: "\<not> r_freed s" by (rule refs_not_freed [OF conjunct1 [OF w]]) (use assms(2) in simp)
  show ?thesis
  proof (cases "p = send_died")
    case True
    let ?s = "s\<lparr>r_responses := ps, r_dead := True\<rparr>"
    have fl: "flight_ids ?s = flight_ids s" using assms(4) True by (simp add: flight_ids_def)
    have "traffic_ok a (c_asked c) ?s" using t assms(4) by (simp add: traffic_ok_def fl)
    moreover have "told_ok a (c_asked c) (c_told c) ?s" using td by (simp add: told_ok_def fl)
    ultimately have "config_wf a pin (c, ?s)"
      by (intro config_wf_datagrams [OF assms(1) nf, where rq = "r_requests s" and wk = "r_working s" and rs = ps
            and n = "r_n_outstanding s" and d = True]) simp_all
    then show ?thesis
      using True assms(3) by (simp add: handle_response_def send_died_def received_def BUFSIZE_def sizeof_defs)
  next
    case False
    let ?i = "packet_id p" let ?s = "without_reply ps s"
    obtain qn where qn: "c_asked c ?i = Some qn" "p = reply_of (a ?i) ?i qn" "packet_size p \<le> BUFSIZE"
      using t assms(4) False by (auto simp: traffic_ok_def)
    have ok: "answers_ok (a ?i)" using assms(5) by simp
    note f = flight_reply [OF t assms(4) False]
    have wf: "config_wf a pin (c, ?s)"
      by (rule config_wf_datagrams [OF assms(1) nf, where rq = "r_requests s" and wk = "r_working s" and rs = ps
            and n = "r_n_outstanding s - 1" and d = "r_dead s"])
        (use traffic_reply [OF t assms(4) False] told_reply(1) [OF t td assms(4) False] in simp_all)
    obtain x where x: "lookup_query ?s ?i = Ret x" "\<And>q. x = Some q \<Longrightarrow> \<exists>v. r_heap ?s q = Some v \<and> q_attached v \<and> q_id v = ?i"
      using lookup_query_found [OF wf] by blast
    note rec = reply_received [of "a ?i" ?i qn, folded qn(2), OF qn(3)]
    have len: "\<not> (received p < SIZEOF_RHeader \<or> received p \<noteq> p_length p)" using rec by simp
    show ?thesis
    proof (cases x)
      case None
      have "\<forall>n. p \<noteq> Died_response n" using reply_not_died qn(2) by metis
      then have "handle_response calls ret p (c, s\<lparr>r_responses := ps\<rparr>) = Ret (0, (c, ?s))"
        using len f(5) x(1) None by (cases p) (simp_all add: handle_response_def)
      then show ?thesis using wf assms(3) by simp
    next
      case (Some q)
      obtain v where v: "r_heap ?s q = Some v" "q_attached v" "q_id v = ?i" using x(2) Some by blast
      have "query_ok (c_asked c) (flight_ids s) (r_current_id s) v" using t v by (simp add: traffic_ok_def)
      then have o: "\<not> q_done v" "q_type v = question_type qn" "q_addrinfo v = []" "q_host v = None" "q_serv v = None"
        using v(3) f(1) qn(1) by (auto simp: query_ok_def)
      let ?v = "filled (answer_to (a ?i) qn) v"
      have "handle_response calls ret p (c, s\<lparr>r_responses := ps\<rparr>) = complete_query calls ret q (c, set_query q ?v ?s)"
        by (rule handle_reply [OF qn(2,3) ok f(5) x(1) [unfolded Some] v(1) o(2-)])
      moreover obtain cs' where "complete_query calls ret q (c, set_query q ?v ?s) = Ret (ret, cs')" "config_wf a pin cs'" "r_current (snd cs') = None"
        by (rule complete_query_wf [OF wf assms(2) _ v(1,2) o(1,2), of "answer_to (a ?i) qn"])
          (use assms(3) v(3) f(2) told_reply(2) [OF t td assms(4) False] qn(1) in simp_all)
      ultimately show ?thesis by simp
    qed
  qed
qed

section \<open>Processing messages\<close>

lemma shrinks_n_ref: "shrinks s (s\<lparr>r_n_ref := n\<rparr>)"
  using same_query_refl by (auto simp: shrinks_def)

lemma process_message_wf:
  assumes "config_wf a pin (c, s)" "0 < pin" "r_current s = None" "\<forall>i. answers_ok (a i)"
  shows "gives (\<lambda>(r, cs). config_wf a pin cs \<and> r_current (snd cs) = None) (process_message err calls ret (c, s))"
proof (cases "resolve_pid_changed s \<or> 0 < err \<or> r_responses s = []")
  case True
  then show ?thesis using assms by (auto simp: process_message_def)
next
  case False
  then obtain p ps where p: "r_responses s = p # ps" by (cases "r_responses s") auto
  obtain r cs where "handle_response calls ret p (c, s\<lparr>r_responses := ps\<rparr>) = Ret (r, cs)" "config_wf a pin cs" "r_current (snd cs) = None"
    using handle_response_wf [OF assms(1-3) p assms(4), of calls ret] by (auto simp: gives_iff)
  then show ?thesis using False assms(3) p by (simp add: process_message_def)
qed

lemma sd_resolve_process_wf:
  assumes "config_wf a pin (c, s)" "\<not> r_freed s" "r_current s = None" "\<forall>i. answers_ok (a i)"
  shows "gives (\<lambda>(r, cs). config_wf a pin cs \<and> r_current (snd cs) = None) (sd_resolve_process err calls ret (c, s))"
proof -
  let ?s = "s\<lparr>r_n_ref := r_n_ref s + 1\<rparr>"
  note r = sd_resolve_ref_wf [OF conjunct1 [OF config_wf_res [OF assms(1)]] assms(2)]
  have "client_refs c ?s = client_refs c s" by (rule client_refs_same) simp_all
  then have "config_wf a (Suc pin) (c, ?s)"
    using r(2) by (intro config_wf_pin [OF assms(1) shrinks_n_ref _ _ assms(3)]) (simp_all add: garbage_def)
  from process_message_wf [OF this _ _ assms(4), of err calls ret] assms(3)
  obtain e c' s' where m: "process_message err calls ret (c, ?s) = Ret (e, (c', s'))" "config_wf a (Suc pin) (c', s')" "r_current s' = None"
    by (auto simp: gives_iff)
  have "res_wf (client_refs c' s') (Suc (c_sessions c' + pin)) s'" using config_wf_res [OF m(2)] by simp
  from sd_resolve_unref_wf [OF this] obtain s2 where s2: "sd_resolve_unref s' = Ret s2" "res_wf (client_refs c' s') (c_sessions c' + pin) s2"
    "shrinks s' s2" "garbage s2 \<subseteq> garbage s'" "\<not> r_freed s2 \<longrightarrow> floats s' \<subseteq> floats s2" .
  have cur: "r_current s2 = r_current s'" by (rule shrinks_current [OF s2(3)])
  have "client_refs c' s2 = client_refs c' s'" by (rule client_refs_same) (simp_all add: cur)
  then have "config_wf a pin (c', s2)" using s2(2,4) by (intro config_wf_pin [OF m(2) s2(3) _ _ m(3)]) simp_all
  then show ?thesis using r(1) m(1,3) s2(1) cur by (simp add: sd_resolve_process_def)
qed

section \<open>The threads\<close>

text \<open>Datagrams that are handed on, answered or lost.\<close>

lemma traffic_moves:
  assumes "traffic_ok a asked s" "r_heap s' = r_heap s" "r_current_id s' = r_current_id s" "r_n_valid_workers s' = r_n_valid_workers s"
    "r_n_outstanding s' = r_n_outstanding s"
    "set (flight_ids s') \<subseteq> set (flight_ids s)" "distinct (flight_ids s')" "length (flight_ids s') \<le> length (flight_ids s)"
    "\<forall>p\<in>set (r_requests s' @ r_working s'). p \<in> set (r_requests s @ r_working s)"
    "\<forall>p\<in>set (r_responses s'). p \<in> set (r_responses s) \<or> p = send_died \<or>
       (\<exists>qn. asked (packet_id p) = Some qn \<and> p = reply_of (a (packet_id p)) (packet_id p) qn \<and> packet_size p \<le> BUFSIZE)"
  shows "traffic_ok a asked s'"
proof -
  note t = assms(1) [unfolded traffic_ok_def]
  have "query_ok asked (flight_ids s') (r_current_id s') v" if "r_heap s' q = Some v" "q_attached v" for q v
    using query_ok_same [OF _ same_query_refl assms(6) order.refl] t that assms(2,3) by auto
  moreover have "\<forall>i\<in>set (flight_ids s'). i < r_current_id s'" using t assms(3,6) by auto
  moreover have "length (flight_ids s') \<le> r_n_outstanding s'" using t assms(5,8) by simp
  ultimately show ?thesis
    using t assms(4,7,9,10) unfolding traffic_ok_def by (intro conjI) (blast | simp)+
qed

lemma told_moves:
  assumes "told_ok a asked ts s" "r_current_id s' = r_current_id s" "set (flight_ids s') \<subseteq> set (flight_ids s)"
  shows "told_ok a asked ts s'"
  using assms unfolding told_ok_def by auto

lemma worker_receive_wf:
  assumes "config_wf a pin (c, s)" "r_requests s \<noteq> []"
  shows "config_wf a pin (c, worker_receive s)"
proof -
  obtain p ps where p: "r_requests s = p # ps" using assms(2) by (cases "r_requests s") auto
  note w = assms(1) [unfolded config_wf_def prod.case]
  have nf: "\<not> r_freed s" using w p by (auto simp: res_wf_def res_core_def session_ok_def)
  let ?s = "s\<lparr>r_requests := ps, r_working := r_working s @ [p]\<rparr>"
  have t: "traffic_ok a (c_asked c) s" and td: "told_ok a (c_asked c) (c_told c) s" using w by simp_all
  have d: "distinct (flight_ids s)" using t by (simp add: traffic_ok_def)
  have f: "set (flight_ids ?s) = set (flight_ids s)" "distinct (flight_ids ?s)" "length (flight_ids ?s) = length (flight_ids s)"
    using d p by (auto simp: flight_ids_def)
  have "traffic_ok a (c_asked c) ?s" by (rule traffic_moves [OF t]) (use f p in auto)
  moreover have "told_ok a (c_asked c) (c_told c) ?s" by (rule told_moves [OF td]) (use f in simp_all)
  ultimately have "config_wf a pin (c, ?s)"
    by (intro config_wf_datagrams [OF assms(1) nf, where rq = ps and wk = "r_working s @ [p]" and rs = "r_responses s"
          and n = "r_n_outstanding s" and d = "r_dead s"]) simp_all
  then show ?thesis by (simp add: worker_receive_def p)
qed

lemma worker_reply_wf:
  assumes "config_wf a pin (c, s)" "i < length (r_working s)" "\<forall>i. answers_ok (a i)"
  shows "gives (\<lambda>s'. config_wf a pin (c, s') \<and> r_current s' = r_current s) (worker_reply a i s) \<or>
    worker_reply a i s = Abort \<and>
      (\<exists>qn. c_asked c (packet_id (r_working s ! i)) = Some qn \<and> long_answer (a (packet_id (r_working s ! i))) qn)"
proof (cases "worker_handle (a (packet_id (r_working s ! i))) (r_working s ! i) = Abort")
  case True
  have "r_working s ! i \<in> set (r_requests s @ r_working s)" using assms(2) by simp
  moreover have "traffic_ok a (c_asked c) s" using assms(1) by (simp add: config_wf_def)
  ultimately obtain qn where qn: "c_asked c (packet_id (r_working s ! i)) = Some qn" "question_ok qn"
      "r_working s ! i = request_of (packet_id (r_working s ! i)) qn"
    unfolding traffic_ok_def by blast
  from worker_handle_request [OF qn(2), of "a (packet_id (r_working s ! i))" "packet_id (r_working s ! i)"] assms(3)
  have "long_answer (a (packet_id (r_working s ! i))) qn" unfolding qn(3) [symmetric] using True by auto
  with True qn(1) show ?thesis by (simp add: worker_reply_def)
next
  case returns: False
  let ?p = "r_working s ! i" let ?id = "packet_id ?p" let ?xs = "take i (r_working s)" let ?ys = "drop (Suc i) (r_working s)"
  note w = assms(1) [unfolded config_wf_def prod.case]
  have nf: "\<not> r_freed s" using w assms(2) by (auto simp: res_wf_def res_core_def session_ok_def)
  have work: "r_working s = ?xs @ ?p # ?ys" by (rule id_take_nth_drop [OF assms(2)])
  have t: "traffic_ok a (c_asked c) s" and td: "told_ok a (c_asked c) (c_told c) s" using w by simp_all
  have "?p \<in> set (r_requests s @ r_working s)" using assms(2) by simp
  then obtain qn where qn: "c_asked c ?id = Some qn" "question_ok qn" "?p = request_of ?id qn"
    using t unfolding traffic_ok_def by blast
  have "worker_handle (a ?id) (request_of ?id qn) \<noteq> Abort" unfolding qn(3) [symmetric] by (rule returns)
  then obtain ps where p: "worker_handle (a ?id) ?p = Ret ps"
      "ps = [reply_of (a ?id) ?id qn] \<and> packet_size (reply_of (a ?id) ?id qn) \<le> BUFSIZE \<or> ps = [send_died] \<or> ps = []"
    using worker_handle_request [OF qn(2), of "a ?id" ?id] assms(3) unfolding qn(3) [symmetric] by blast
  let ?s = "s\<lparr>r_working := ?xs @ ?ys, r_responses := r_responses s @ ps\<rparr>"
  have fl: "flight_ids s = map packet_id (r_requests s @ ?xs) @ ?id # map packet_id (?ys @ filter (\<lambda>p. p \<noteq> send_died) (r_responses s))"
    unfolding flight_ids_def by (subst work) simp
  define zs where "zs = map packet_id (filter (\<lambda>p. p \<noteq> send_died) ps)"
  have fl': "flight_ids ?s = map packet_id (r_requests s @ ?xs @ ?ys @ filter (\<lambda>p. p \<noteq> send_died) (r_responses s)) @ zs"
    by (simp add: flight_ids_def zs_def)
  have ids: "zs = [] \<or> zs = [?id]"
    using p(2) unfolding zs_def by (cases "reply_of (a ?id) ?id qn = send_died") auto
  have d: "distinct (flight_ids s)" using t by (simp add: traffic_ok_def)
  have f: "set (flight_ids ?s) \<subseteq> set (flight_ids s)" "distinct (flight_ids ?s)" "length (flight_ids ?s) \<le> length (flight_ids s)"
    using ids d unfolding fl fl' by (elim disjE; auto)+
  have sub: "set (?xs @ ?ys) \<subseteq> set (r_working s)" by (subst (3) work) auto
  have "traffic_ok a (c_asked c) ?s"
  proof (rule traffic_moves [OF t _ _ _ _ f])
    show "\<forall>p\<in>set (r_requests ?s @ r_working ?s). p \<in> set (r_requests s @ r_working s)" using sub by auto
    show "\<forall>x\<in>set (r_responses ?s). x \<in> set (r_responses s) \<or> x = send_died \<or>
       (\<exists>qn. c_asked c (packet_id x) = Some qn \<and> x = reply_of (a (packet_id x)) (packet_id x) qn \<and> packet_size x \<le> BUFSIZE)"
      using p(2) qn(1) by auto
  qed simp_all
  moreover have "told_ok a (c_asked c) (c_told c) ?s" by (rule told_moves [OF td]) (use f in simp_all)
  ultimately have "config_wf a pin (c, ?s)"
    by (intro config_wf_datagrams [OF assms(1) nf, where rq = "r_requests s" and wk = "?xs @ ?ys" and rs = "r_responses s @ ps"
          and n = "r_n_outstanding s" and d = "r_dead s"]) simp_all
  then show ?thesis by (simp add: worker_reply_def p(1))
qed

lemma worker_end_wf:
  assumes "config_wf a pin (c, s)" "\<not> r_freed s"
  shows "config_wf a pin (c, worker_end err s)"
proof -
  note w = assms(1) [unfolded config_wf_def prod.case]
  have "filter (\<lambda>p. p \<noteq> send_died) (thread_died err) = []" using thread_died_cases [of err] by auto
  then have fl: "flight_ids (worker_end err s) = flight_ids s" by (simp add: flight_ids_def worker_end_def)
  have t: "traffic_ok a (c_asked c) s" and td: "told_ok a (c_asked c) (c_told c) s" using w by simp_all
  have "traffic_ok a (c_asked c) (worker_end err s)"
    by (rule traffic_moves [OF t]) (use t fl thread_died_cases [of err] in \<open>auto simp: worker_end_def traffic_ok_def\<close>)
  moreover have "told_ok a (c_asked c) (c_told c) (worker_end err s)"
    by (rule told_moves [OF td]) (use fl in \<open>simp_all add: worker_end_def\<close>)
  ultimately show ?thesis
    by (intro config_wf_datagrams [OF assms, where rq = "r_requests s" and wk = "r_working s" and rs = "r_responses s @ thread_died err"
          and n = "r_n_outstanding s" and d = "r_dead s"]) (simp_all add: worker_end_def)
qed

end
