(* ===== verification/Resolve_System.thy ===== *)
theory Resolve_System
  imports Event_System Resolve_Trace
begin

text \<open>
  The resolver as a whole: the program, the threads and the event loop take steps in any order.
  From a new session no step fails but the sending of a long list of addresses, and what the
  callbacks are told is what was asked.
\<close>

section \<open>Runs\<close>

datatype resolver_event =
    Client client_call
  | Receive
  | Reply nat
  | Worker_ends int
  | Readable int "client_call list" int

text \<open>
  The program makes the calls it may, a thread without work receives a request or ends, a thread
  answers, and the event loop, or the program itself, processes a reply.
\<close>

fun resolver_enabled :: "resolver_event \<Rightarrow> config \<Rightarrow> bool" where
  "resolver_enabled (Client call) cs \<longleftrightarrow> allowed call cs"
| "resolver_enabled Receive (c, s) \<longleftrightarrow> r_requests s \<noteq> [] \<and> length (r_working s) < r_n_valid_workers s"
| "resolver_enabled (Reply i) (c, s) \<longleftrightarrow> i < length (r_working s)"
| "resolver_enabled (Worker_ends err) (c, s) \<longleftrightarrow> \<not> r_freed s \<and> length (r_working s) < r_n_valid_workers s"
| "resolver_enabled (Readable err calls ret) (c, s) \<longleftrightarrow> 0 < c_sessions c \<or> r_event_source s"

fun resolver_handle :: "(u32 \<Rightarrow> answers) \<Rightarrow> resolver_event \<Rightarrow> config \<Rightarrow> (int \<times> config) outcome" where
  "resolver_handle a (Client call) cs = obind (client_perform call cs) (\<lambda>cs. Ret (0, cs))"
| "resolver_handle a Receive (c, s) = Ret (0, (c, worker_receive s))"
| "resolver_handle a (Reply i) (c, s) = obind (worker_reply a i s) (\<lambda>s. Ret (0, (c, s)))"
| "resolver_handle a (Worker_ends err) (c, s) = Ret (0, (c, worker_end err s))"
| "resolver_handle a (Readable err calls ret) cs = io_callback err calls ret cs"

definition fresh_client :: client where
  \<comment> \<open>the program after \<open>sd_resolve_new\<close>\<close>
  "fresh_client = \<lparr>c_queries = (\<lambda>_. 0), c_sessions = 1, c_asked = Map.empty, c_told = []\<rparr>"

section \<open>Long replies\<close>

lemma serialize_addrinfos_overrun:
  assumes "2 * (length buffer + addrinfo_sizes xs) + addrinfo_size y + SIZEOF_AddrInfoResponse \<le> BUFSIZE"
    "BUFSIZE < 2 * (length buffer + addrinfo_sizes xs + addrinfo_size y) + SIZEOF_AddrInfoResponse"
  shows "serialize_addrinfos (xs @ y # z # zs) buffer (SIZEOF_AddrInfoResponse + length buffer) = Abort"
  using assms
proof (induction xs arbitrary: buffer)
  case Nil
  have "serialize_addrinfo y (SIZEOF_AddrInfoResponse + length buffer) (BUFSIZE - length buffer) =
      Ret (Some (addrinfo_record y, SIZEOF_AddrInfoResponse + length buffer + addrinfo_size y))"
    by (rule serialize_addrinfo_fits) (use Nil.prems in simp)
  moreover have "serialize_addrinfo z (SIZEOF_AddrInfoResponse + length buffer + addrinfo_size y) (BUFSIZE - length (buffer @ addrinfo_record y)) = Abort"
    using Nil.prems by (simp add: serialize_addrinfo_def c_assert_def length_addrinfo_record)
  ultimately show ?case by simp
next
  case (Cons x xs)
  have "serialize_addrinfo x (SIZEOF_AddrInfoResponse + length buffer) (BUFSIZE - length buffer) =
      Ret (Some (addrinfo_record x, SIZEOF_AddrInfoResponse + length buffer + addrinfo_size x))"
    by (rule serialize_addrinfo_fits) (use Cons.prems in simp)
  then show ?case using Cons.prems Cons.IH [of "buffer @ addrinfo_record x"] by (simp add: length_addrinfo_record ac_simps)
qed

section \<open>The invariant along a run\<close>

definition resolver_ok :: "(u32 \<Rightarrow> answers) \<Rightarrow> config \<Rightarrow> bool" where
  "resolver_ok a cs \<longleftrightarrow> (\<forall>i. answers_ok (a i)) \<and> config_wf a 0 cs \<and> r_current (snd cs) = None"

text \<open>The only step that can fail: a thread answers a question with a long list of addresses.\<close>

fun replies_long :: "(u32 \<Rightarrow> answers) \<Rightarrow> resolver_event \<Rightarrow> config \<Rightarrow> bool" where
  "replies_long a (Reply i) (c, s) \<longleftrightarrow>
     (case c_asked c (packet_id (r_working s ! i)) of None \<Rightarrow> False | Some qn \<Rightarrow> long_answer (a (packet_id (r_working s ! i))) qn)"
| "replies_long a ev cs \<longleftrightarrow> False"

lemma resolver_handle_ok:
  assumes "resolver_ok a cs" "resolver_enabled ev cs"
  shows "gives (\<lambda>(r, cs). resolver_ok a cs) (resolver_handle a ev cs) \<or>
    resolver_handle a ev cs = Abort \<and> replies_long a ev cs"
proof -
  obtain c s where cs: "cs = (c, s)" by fastforce
  have ok: "\<forall>i. answers_ok (a i)" "config_wf a 0 (c, s)" "r_current s = None" using assms(1) by (simp_all add: resolver_ok_def cs)
  note w = config_wf_res [OF ok(2)]
  show ?thesis
  proof (cases ev)
    case (Client call)
    then have "allowed call (c, s)" using assms(2) by (simp add: cs)
    from client_perform_keeps [OF ok(2) this] show ?thesis using Client ok by (auto simp: cs keeps_def gives_iff resolver_ok_def)
  next
    case Receive
    then show ?thesis using worker_receive_wf [OF ok(2)] assms(2) ok
      by (auto simp: cs resolver_ok_def worker_receive_def split: list.splits)
  next
    case (Reply i)
    then have i: "i < length (r_working s)" using assms(2) by (simp add: cs)
    from worker_reply_wf [OF ok(2) this ok(1)] show ?thesis
    proof (elim disjE conjE exE)
      assume "gives (\<lambda>s'. config_wf a 0 (c, s') \<and> r_current s' = r_current s) (worker_reply a i s)"
      then show ?thesis using Reply ok by (auto simp: cs resolver_ok_def gives_iff)
    next
      fix qn assume "worker_reply a i s = Abort" "c_asked c (packet_id (r_working s ! i)) = Some qn"
        "long_answer (a (packet_id (r_working s ! i))) qn"
      then show ?thesis using Reply by (simp add: cs)
    qed
  next
    case (Worker_ends err)
    then show ?thesis using worker_end_wf [OF ok(2), of err] assms(2) ok by (simp add: cs resolver_ok_def worker_end_def)
  next
    case (Readable err calls ret)
    then have "\<not> r_freed s"
      using assms(2) w refs_not_freed [OF conjunct1 [OF w]] by (auto simp: cs res_wf_def res_core_def session_ok_def)
    from sd_resolve_process_wf [OF ok(2) this ok(3,1), of err calls ret] show ?thesis
      using Readable ok by (auto simp: cs io_callback_def gives_iff resolver_ok_def)
  qed
qed

text \<open>The steps that do not fail are an event system that keeps the invariant.\<close>

interpretation resolver: event_system "\<lambda>ev cs. resolver_enabled ev cs \<and> resolver_handle a ev cs \<noteq> Abort" "resolver_handle a" "resolver_ok a" for a
proof (unfold_locales, goal_cases)
  case (1 cs ev)
  then show ?case using resolver_handle_ok [of a cs ev] by (auto simp: gives_iff)
qed

text \<open>A new session has no query, no thread and no datagram.\<close>

lemma new_session:
  assumes "sd_resolve_new pid pair1 pair2 move = Ret (r, Some s)"
  shows "s = (initial_resolve pid)\<lparr>r_fds := r_fds s\<rparr>"
  using assms by (auto simp: sd_resolve_new_def Let_def sd_resolve_unref_def resolve_free_def initial_resolve_def c_assert_def
      split: sum.splits prod.splits if_splits)

lemma new_session_ok:
  assumes "sd_resolve_new pid pair1 pair2 move = Ret (r, Some s)" "\<forall>i. answers_ok (a i)"
  shows "resolver_ok a (fresh_client, s)"
proof -
  note s = new_session [OF assms(1)]
  have heap: "r_heap s = Map.empty" "r_freed s = False" "r_queries s = []" "r_n_ref s = 1" "r_current s = None" "r_event_source s = False"
    "r_requests s = []" "r_working s = []" "r_responses s = []" "r_n_valid_workers s = 0" "r_n_outstanding s = 0"
    "r_query_array s = replicate QUERIES_MAX None" "r_n_queries s = 0" "r_n_done s = 0"
    by (subst s, simp add: initial_resolve_def)+
  have v: "view_of s = (\<lambda>_. None)" by (intro ext) (simp add: view_of_def heap)
  have "members (view_of s) (r_queries s) (r_query_array s) (r_n_queries s) (r_n_done s)" by (simp add: members_def v heap)
  moreover have "session_ok 1 s" by (simp add: session_ok_def owners_def heap)
  moreover have "client_refs fresh_client s = (\<lambda>_. 0)" by (intro ext) (simp add: client_refs_def fresh_client_def heap)
  moreover have "refs_ok (\<lambda>_. 0) s" by (simp add: refs_ok_def heap)
  ultimately have "res_wf (client_refs fresh_client s) 1 s" by (simp add: res_wf_def res_core_def heap)
  then show ?thesis
    using assms(2) by (simp add: resolver_ok_def config_wf_def garbage_def traffic_ok_def told_ok_def flight_ids_def heap fresh_client_def)
qed

lemma resolver_run_ok:
  assumes "sd_resolve_new pid pair1 pair2 move = Ret (r, Some s)" "\<forall>i. answers_ok (a i)"
    "event_run resolver_enabled (resolver_handle a) (fresh_client, s) evs cs"
  shows "resolver_ok a cs"
  by (rule resolver.run_inv [OF event_run_returns [OF assms(3)] new_session_ok [OF assms(1,2)]])

text \<open>\<open>config_wf\<close> says of a session whose references were all given back that it is gone.\<close>

lemma all_given_back:
  assumes "config_wf a 0 (c, s)" "c_sessions c = 0" "c_queries c = (\<lambda>_. 0)" "r_current s = None"
  shows "r_freed s" "r_heap s = Map.empty"
proof -
  have refs: "client_refs c s = (\<lambda>_. 0)" by (intro ext) (simp add: client_refs_def assms)
  have w: "res_wf (\<lambda>_. 0) 0 s" "garbage s = {}" using assms(1,2) by (simp_all add: config_wf_def refs)
  note core = w(1) [unfolded res_wf_def res_core_def]
  have float: "q_attached v \<and> q_floating v" if "r_heap s q = Some v" for q v
  proof (rule ccontr)
    assume "\<not> ?thesis"
    then have "q_n_ref v = 0" using refs_okD [of "\<lambda>_. 0" s q v] core that by simp
    then have "q \<in> garbage s" using that by (simp add: garbage_def)
    then show False using w(2) by simp
  qed
  have "owners (view_of s) (r_queries s) = 0"
    unfolding owners_def length_0_conv filter_empty_conv
  proof (intro ballI notI)
    fix q assume "member_with (\<lambda>f i d. \<not> f) (view_of s q)"
    then obtain v where "r_heap s q = Some v" "\<not> q_floating v" by (auto simp: view_of_def elim!: member_with.elims)
    then show False using float by blast
  qed
  then show freed: "r_freed s" using core by (auto simp: session_ok_def split: if_splits)
  have mem: "members (view_of s) (r_queries s) (r_query_array s) (r_n_queries s) (r_n_done s)" using core by simp
  have "r_heap s q = None" for q
  proof (rule ccontr)
    assume "r_heap s q \<noteq> None"
    then obtain v where v: "r_heap s q = Some v" by auto
    from float [OF v] view_of_Some [OF v] members_in [OF mem, of q] core freed show False by (auto simp: session_ok_def)
  qed
  then show "r_heap s = Map.empty" by (intro ext) simp
qed

section \<open>A run\<close>

text \<open>The program asks for an address, a thread answers, and the event loop calls the callback.\<close>

definition example_address :: addrinfo where
  "example_address = \<lparr>ai_flags = 0, ai_family = 2, ai_socktype = 1, ai_protocol = 6,
     ai_addr = [2, 0, 2, 2, 127, 0, 0, 1, 0, 0, 0, 0, 0, 0, 0, 0], ai_canonname = None\<rparr>"

definition example_answers :: answers where
  "example_answers =
     \<lparr>getaddrinfo = (\<lambda>node service h. (0, [example_address])),
      getnameinfo = (\<lambda>sa host serv flags. (0, ''h'', ''514'')), ans_errno = 0, ans_h_errno = 0, ans_send = 0, ans_died = 0\<rparr>"

definition example_os :: os where
  "example_os = \<lparr>os_mask = 0, os_create = (\<lambda>n. 0), os_unmask = 0, os_sendmsg = 0\<rparr>"

definition example_session :: resolve where
  "example_session = (initial_resolve 1)\<lparr>r_fds := [3, 4, 5, 6]\<rparr>"

lemma example_answers_ok: "answers_ok example_answers"
  by (simp add: answers_ok_def example_answers_def example_address_def c_string_def)

lemma example_new: "sd_resolve_new 1 (Inr (3, 4)) (Inr (5, 6)) id = Ret (0, Some example_session)"
  by (simp add: sd_resolve_new_def example_session_def)

lemma QUERIES_MAX_pos: "0 < QUERIES_MAX"
  by (simp add: QUERIES_MAX_def)

lemma next_id_free: "a ! id_slot i = None \<Longrightarrow> next_id n a i = Ret i"
  by (cases n) simp_all

abbreviation example_question :: question where
  "example_question \<equiv> Ask_addrinfo (Some ''h'') None None"

abbreviation example_start :: client_call where
  "example_start \<equiv> Start_getaddrinfo example_os False (Some ''h'') None None 1 0"

definition example_asked :: resolve where
  "example_asked = started False REQUEST_ADDRINFO 1 0 (request_of 0 example_question) 0 1 example_session"

lemma example_start: "client_perform example_start (fresh_client, example_session) =
    Ret (fresh_client\<lparr>c_asked := [0 \<mapsto> example_question]\<rparr>, example_asked)"
  by (simp add: example_asked_def started_def with_new_query_def sd_resolve_getaddrinfo_def start_query_def alloc_query_def example_session_def initial_resolve_def
      QUERIES_MAX_pos resolve_pid_changed_def next_id_free start_threads_def example_os_def
      WORKERS_MIN_def WORKERS_MAX_def set_query_def id_slot_less note_asked_def own_query_def fresh_client_def new_query_def)


abbreviation example_client :: client where
  "example_client \<equiv> fresh_client\<lparr>c_asked := [0 \<mapsto> example_question]\<rparr>"

definition example_reply :: packet where
  "example_reply = reply_of example_answers 0 example_question"

definition example_answered :: resolve where
  "example_answered = example_asked\<lparr>r_requests := [], r_responses := [example_reply]\<rparr>"

lemma example_asked_sel [simp]:
  "r_requests example_asked = [request_of 0 example_question]" "r_working example_asked = []" "r_responses example_asked = []"
  "r_n_outstanding example_asked = 1" "r_heap example_asked = [1 \<mapsto> (new_query True 0)\<lparr>q_handler := 1\<rparr>]"
  "r_n_ref example_asked = 1" "r_freed example_asked = False" "r_current example_asked = None" "r_queries example_asked = [1]"
  "r_query_array example_asked = (replicate QUERIES_MAX None)[id_slot 0 := Some 1]" "r_n_queries example_asked = 1" "r_n_done example_asked = 0"
  "r_n_valid_workers example_asked = 1" "r_original_pid example_asked = r_getpid example_asked" "r_event_source example_asked = False"
  by (simp_all add: example_asked_def started_def with_new_query_def example_session_def initial_resolve_def new_query_def)

lemma example_worker: "worker_handle example_answers (request_of 0 example_question) = Ret [example_reply]"
proof -
  have "packet_size (addrinfo_request 0 (Some ''h'') None None) \<le> BUFSIZE"
    by (simp add: addrinfo_request_def BUFSIZE_def SIZEOF_AddrInfoRequest_def opt_bytes_def length_string_bytes)
  moreover have "question_ok (Ask_addrinfo (Some ''h'') None None)" by (simp add: c_string_def)
  moreover have "serialize_addrinfos [example_address] [] SIZEOF_AddrInfoResponse =
      Ret (Some (addrinfo_record example_address, SIZEOF_AddrInfoResponse + addrinfo_size example_address))"
    using serialize_addrinfos_fits [of "[]" "[example_address]"]
    by (simp add: BUFSIZE_def sizeof_defs addrinfo_size_def example_address_def opt_bytes_def)
  ultimately show ?thesis
    using handle_addrinfo_eq [of "Some ''h''" None None 0 example_answers]
    by (simp add: example_reply_def worker_handle_def send_addrinfo_reply_def send_message_def example_answers_def length_addrinfo_record)
qed

lemma example_reply_size: "packet_size example_reply \<le> BUFSIZE"
  by (simp add: example_reply_def example_answers_def example_address_def length_addrinfo_record addrinfo_size_def sizeof_defs BUFSIZE_def opt_bytes_def)

lemma example_reply_steps:
  "resolver_handle (\<lambda>i. example_answers) Receive (c, example_asked) = Ret (0, (c, example_asked\<lparr>r_requests := [], r_working := [request_of 0 example_question]\<rparr>))"
  "resolver_handle (\<lambda>i. example_answers) (Reply 0) (c, example_asked\<lparr>r_requests := [], r_working := [request_of 0 example_question]\<rparr>) =
     Ret (0, (c, example_answered))"
  using example_worker by (simp_all add: worker_receive_def worker_reply_def example_answered_def)

lemma example_told:
  "\<exists>t s. t_id t = 0 \<and> resolver_handle (\<lambda>i. example_answers) (Readable 0 [] 0) (example_client, example_answered) =
     Ret (1, (example_client\<lparr>c_told := [t]\<rparr>, s)) \<and> r_n_ref s = 1 \<and> r_queries s = []"
proof -
  define s0 where "s0 = example_answered\<lparr>r_n_ref := Suc (Suc 0)\<rparr>"
  let ?s = "without_reply [] s0" let ?v = "(new_query True 0)\<lparr>q_handler := 1\<rparr>"
  have found: "lookup_query ?s 0 = Ret (Some 1)"
    by (simp add: lookup_query_def s0_def example_answered_def id_slot_less new_query_def with_query_def)
  have v: "r_heap ?s 1 = Some ?v" by (simp add: s0_def example_answered_def)
  have out: "0 < r_n_outstanding s0" by (simp add: s0_def example_answered_def)
  define x where "x = answer_to example_answers example_question"
  have "handle_response [] 0 example_reply (example_client, s0\<lparr>r_responses := []\<rparr>) =
      complete_query [] 0 1 (example_client, set_query 1 (filled x ?v) ?s)"
    unfolding x_def
    by (rule handle_reply [OF example_reply_def example_reply_size example_answers_ok out found v]) (simp_all add: new_query_def)
  moreover have "\<exists>t s. t_id t = 0 \<and> complete_query [] 0 1 (example_client, set_query 1 (filled x ?v) ?s) =
      Ret (0, (example_client\<lparr>c_told := [t]\<rparr>, s)) \<and> r_n_ref s = 2 \<and> r_queries s = [] \<and> \<not> r_freed s"
    by (simp add: s0_def example_answered_def complete_query_def sd_resolve_query_ref_def new_query_def getaddrinfo_done_def query_done_def finish_query_def
      resolve_query_disconnect_def detach_query_def id_slot_less sd_resolve_query_unref_def Let_def resolve_query_free_def fresh_client_def)
  ultimately obtain t s where ts: "t_id t = 0" "r_n_ref s = 2" "r_queries s = []" "\<not> r_freed s"
    "handle_response [] 0 example_reply (example_client, s0\<lparr>r_responses := []\<rparr>) = Ret (0, (example_client\<lparr>c_told := [t]\<rparr>, s))"
    by auto
  have "sd_resolve_ref example_answered = Ret s0" by (simp add: sd_resolve_ref_def s0_def example_answered_def)
  moreover have "r_responses s0 = [example_reply]" "\<not> resolve_pid_changed s0" "r_current s0 = None"
    by (simp_all add: s0_def example_answered_def resolve_pid_changed_def)
  ultimately show ?thesis
    using ts by (intro exI [of _ t] exI [of _ "s\<lparr>r_n_ref := 1\<rparr>"]) (simp add: io_callback_def sd_resolve_process_def process_message_def sd_resolve_unref_def)
qed

lemma example_run:
  "\<exists>t s. t_id t = 0 \<and> r_n_ref s = 1 \<and> r_queries s = [] \<and>
     event_run resolver_enabled (resolver_handle (\<lambda>i. example_answers)) (fresh_client, example_session)
       [Client example_start, Receive, Reply 0, Readable 0 [] 0] (example_client\<lparr>c_told := [t]\<rparr>, s)"
proof -
  obtain t s where t: "t_id t = 0" "resolver_handle (\<lambda>i. example_answers) (Readable 0 [] 0) (example_client, example_answered) =
     Ret (1, (example_client\<lparr>c_told := [t]\<rparr>, s))" "r_n_ref s = 1" "r_queries s = []"
    using example_told by blast
  have "resolver_enabled (Client example_start) (fresh_client, example_session)"
    by (simp add: fresh_client_def example_session_def initial_resolve_def ids_left_def QUERIES_MAX_def c_string_def)
  moreover have "resolver_enabled Receive (example_client, example_asked)" by simp
  moreover have "resolver_enabled (Readable 0 [] 0) (example_client, example_answered)" by (simp add: fresh_client_def)
  ultimately have "run_events resolver_enabled (resolver_handle (\<lambda>i. example_answers)) [Client example_start, Receive, Reply 0, Readable 0 [] 0]
      (fresh_client, example_session) = Some (example_client\<lparr>c_told := [t]\<rparr>, s)"
    using example_start example_reply_steps [of example_client] t(2)
    by (simp del: client_perform.simps resolver_handle.simps(2-) resolver_enabled.simps(1) add: resolver_handle.simps(1))
  with t show ?thesis unfolding run_events_iff by blast
qed


section \<open>Properties\<close>

text \<open>
  C17.  From a new session, however the program's calls, its callbacks, the threads and the event loop take turns, every step returns, with one exception: a thread that answers a question whose list of addresses takes more than half of the buffer for the reply may fail the assertion that C20 describes.  In every other step no assertion fails, no memory is used after it was freed, and the search for a free id and the reading of a reply end.  The program keeps to the rules of \<open>allowed\<close>: it only uses sessions and queries that it holds a reference to, or the query of the callback it is in, it does not set the userdata of a query that is no longer attached (the code has no check there, and the assertion would fail), it passes C strings, and it starts queries only as long as there are ids that were never used.  Of the C library \<open>answers_ok\<close> only assumes that its strings have no NUL and fit into the buffers it is given.
\<close>

theorem resolver_never_stuck:
  assumes "sd_resolve_new pid pair1 pair2 move = Ret (r, Some s)" "\<forall>i. answers_ok (a i)"
    "event_run resolver_enabled (resolver_handle a) (fresh_client, s) evs (c', s')" "resolver_enabled ev (c', s')"
  shows "(\<exists>r' cs'. resolver_handle a ev (c', s') = Ret (r', cs')) \<or>
    (\<exists>i qn. ev = Reply i \<and> c_asked c' (packet_id (r_working s' ! i)) = Some qn \<and> long_answer (a (packet_id (r_working s' ! i))) qn)"
proof -
  have "replies_long a ev (c', s') \<Longrightarrow>
      \<exists>i qn. ev = Reply i \<and> c_asked c' (packet_id (r_working s' ! i)) = Some qn \<and> long_answer (a (packet_id (r_working s' ! i))) qn"
    by (cases ev) (auto split: option.splits)
  with resolver_handle_ok [OF resolver_run_ok [OF assms(1-3)] assms(4)] show ?thesis by (auto simp: gives_iff)
qed

theorem resolver_never_stuck_witness:
  "\<exists>cs r cs'. event_run resolver_enabled (resolver_handle (\<lambda>i. example_answers)) (fresh_client, example_session)
       [Client example_start, Receive, Reply 0, Readable 0 [] 0] cs \<and>
     resolver_handle (\<lambda>i. example_answers) (Client Resolve_unref) cs = Ret (r, cs')"
proof -
  obtain t s where run: "event_run resolver_enabled (resolver_handle (\<lambda>i. example_answers)) (fresh_client, example_session)
       [Client example_start, Receive, Reply 0, Readable 0 [] 0] (example_client\<lparr>c_told := [t]\<rparr>, s)"
    using example_run by blast
  have "resolver_enabled (Client Resolve_unref) (example_client\<lparr>c_told := [t]\<rparr>, s)" by (simp add: fresh_client_def)
  from resolver_never_stuck [OF example_new _ run this] example_answers_ok run show ?thesis by blast
qed

text \<open>
  C18.  What the callbacks are told: along every run, no id is answered twice, and each answer that a callback gets belongs to a question that the program asked under that id, and is the one that the C library gave a thread for it, with \<open>errno\<close> and \<open>h_errno\<close>, and with the list of addresses as the thread got it.  The exception is a host name of 253 characters or more, in place of which the code tells \<open>EAI_SYSTEM\<close> and \<open>EIO\<close>.  Allocations are taken to succeed.
\<close>

theorem resolver_told_answers:
  assumes "sd_resolve_new pid pair1 pair2 move = Ret (r, Some s)" "\<forall>i. answers_ok (a i)"
    "event_run resolver_enabled (resolver_handle a) (fresh_client, s) evs (c', s')"
  shows "distinct (map t_id (c_told c')) \<and>
    (\<forall>t\<in>set (c_told c'). \<exists>qn. c_asked c' (t_id t) = Some qn \<and>
       told_answer t = (if name_refused (a (t_id t)) qn then (EAI_SYSTEM, EIO, 0, [], None, None) else library_answer (a (t_id t)) qn))"
proof -
  have "told_ok a (c_asked c') (c_told c') s'" using resolver_run_ok [OF assms] by (simp add: resolver_ok_def config_wf_def)
  then show ?thesis unfolding told_ok_def using answer_to_library assms(2) by metis
qed

theorem resolver_told_answers_witness:
  "\<exists>t s. event_run resolver_enabled (resolver_handle (\<lambda>i. example_answers)) (fresh_client, example_session)
       [Client example_start, Receive, Reply 0, Readable 0 [] 0] (example_client\<lparr>c_told := [t]\<rparr>, s) \<and>
     told_answer t = (0, 0, 0, [example_address], None, None)"
proof -
  obtain t s where run: "t_id t = 0" "event_run resolver_enabled (resolver_handle (\<lambda>i. example_answers)) (fresh_client, example_session)
       [Client example_start, Receive, Reply 0, Readable 0 [] 0] (example_client\<lparr>c_told := [t]\<rparr>, s)"
    using example_run by blast
  from resolver_told_answers [OF example_new _ run(2)] example_answers_ok run(1)
  have "told_answer t = library_answer example_answers example_question" by simp
  then show ?thesis using run(2) by (auto simp: example_answers_def)
qed

text \<open>
  C19.  No session and no query outlives its references: along every run, once the program has given back all references it holds, the session has been freed and so has every query, those that float with the session included.  (What a query holds is not tracked: the blocks of the addresses in a received list are never released by the code.)
\<close>

theorem resolver_no_leak:
  assumes "sd_resolve_new pid pair1 pair2 move = Ret (r, Some s)" "\<forall>i. answers_ok (a i)"
    "event_run resolver_enabled (resolver_handle a) (fresh_client, s) evs (c', s')"
    "c_sessions c' = 0" "c_queries c' = (\<lambda>_. 0)"
  shows "r_freed s' \<and> r_heap s' = Map.empty"
  using all_given_back [of a c' s'] resolver_run_ok [OF assms(1-3)] assms(4,5) by (simp add: resolver_ok_def)

theorem resolver_no_leak_witness:
  "\<exists>cs. event_run resolver_enabled (resolver_handle (\<lambda>i. example_answers)) (fresh_client, example_session)
       [Client example_start, Receive, Reply 0, Readable 0 [] 0, Client Resolve_unref] cs \<and> r_freed (snd cs) \<and> r_heap (snd cs) = Map.empty"
proof -
  obtain t s where run: "r_n_ref s = 1" "event_run resolver_enabled (resolver_handle (\<lambda>i. example_answers)) (fresh_client, example_session)
       [Client example_start, Receive, Reply 0, Readable 0 [] 0] (example_client\<lparr>c_told := [t]\<rparr>, s)"
    using example_run by blast
  let ?c = "example_client\<lparr>c_told := [t]\<rparr>"
  have en: "resolver_enabled (Client Resolve_unref) (?c, s)" by (simp add: fresh_client_def)
  obtain r cs where h: "resolver_handle (\<lambda>i. example_answers) (Client Resolve_unref) (?c, s) = Ret (r, cs)"
    using resolver_handle_ok [OF resolver_run_ok [OF example_new _ run(2)] en] example_answers_ok by (auto simp: gives_iff)
  then obtain c' s' where cs: "cs = (c', s')" "c_sessions c' = 0" "c_queries c' = (\<lambda>_. 0)"
    by (cases "sd_resolve_unref s") (auto simp: fresh_client_def)
  have run': "event_run resolver_enabled (resolver_handle (\<lambda>i. example_answers)) (fresh_client, example_session)
       [Client example_start, Receive, Reply 0, Readable 0 [] 0, Client Resolve_unref] (c', s')"
    using run_step [OF run(2) en h] cs(1) by simp
  show ?thesis using resolver_no_leak [OF example_new _ run' cs(2,3)] example_answers_ok run' by auto
qed

text \<open>
  C20.  A long list of addresses stops the daemon: the loop of \<open>send_addrinfo_reply\<close> compares
  the length of the message with what is left of the buffer, so that the bytes written count twice; when the
  addresses before the last but one fit and that one passes half of the buffer, the assertion of
  \<open>serialize_addrinfo\<close> fails on the next one.
\<close>

theorem handle_request_long_reply_aborts:
  assumes "getaddrinfo a node service h = (0, xs @ y # z # zs)" "question_ok (Ask_addrinfo node service h)"
    "packet_size (addrinfo_request i node service h) \<le> BUFSIZE"
    "2 * addrinfo_sizes xs + addrinfo_size y + SIZEOF_AddrInfoResponse \<le> BUFSIZE"
    "BUFSIZE < 2 * (addrinfo_sizes xs + addrinfo_size y) + SIZEOF_AddrInfoResponse"
  shows "handle_request a (addrinfo_request i node service h) = Abort"
proof -
  have "serialize_addrinfos (xs @ y # z # zs) [] SIZEOF_AddrInfoResponse = Abort"
    using serialize_addrinfos_overrun [of "[]" xs y z zs] assms(4,5) by simp
  then show ?thesis using handle_addrinfo_eq [OF assms(2,3)] assms(1) by (simp add: send_addrinfo_reply_def)
qed

theorem handle_request_long_reply_aborts_witness:
  "handle_request (example_answers\<lparr>getaddrinfo := (\<lambda>node service h. (0,
       (replicate 103 example_address @ replicate 2 (example_address\<lparr>ai_addr := replicate 28 0\<rparr>)) @ [example_address, example_address]))\<rparr>)
     (addrinfo_request 0 (Some ''h'') None None) = Abort"
proof -
  let ?xs = "replicate 103 example_address @ replicate 2 (example_address\<lparr>ai_addr := replicate 28 0\<rparr>)"
  have "addrinfo_size example_address = 48" "addrinfo_size (example_address\<lparr>ai_addr := replicate 28 0\<rparr>) = 60"
    by (simp_all add: addrinfo_size_def sizeof_defs example_address_def opt_bytes_def del: replicate.simps)
  then have xs: "addrinfo_sizes ?xs = 5064" "addrinfo_size example_address = 48"
    by (simp_all only: map_append sum_list_append map_replicate sum_list_replicate) simp_all
  have req: "packet_size (addrinfo_request 0 (Some ''h'') None None) \<le> BUFSIZE"
    by (simp add: addrinfo_request_def BUFSIZE_def sizeof_defs opt_bytes_def length_string_bytes)
  show ?thesis
    by (rule handle_request_long_reply_aborts [where xs = ?xs and y = example_address and z = example_address and zs = "[]"])
      (simp_all only: answers.simps xs req question_ok.simps, simp_all add: c_string_def BUFSIZE_def sizeof_defs)
qed

end
