(* ===== verification/Spec2Isabelle.thy ===== *)
theory Spec2Isabelle
  imports Scenario Hashmap_Trace Hostname Resolve_System
begin

text \<open>
  This library models systemd-netlogd, a daemon that reads the systemd journal and forwards its
  entries to a syslog server over UDP, TCP, TLS or DTLS, and proves what its parts do.

  \<^bold>\<open>The program.\<close>  \<open>main\<close> (\<open>src/netlog/systemd-netlogd.c\<close>) parses the command line, creates the
  manager (\<open>netlog-manager.c\<close>), reads the configuration (\<open>netlog-conf.c\<close>), prepares TLS
  (\<open>netlog-ssl-common.c\<close>), the state file and the privileges (\<open>src/share/capability-util.c\<close>), and enters the
  event loop.  The loop dispatches changes of the network, answers of the resolver, the retry timer, journal
  entries and signals.  \<open>manager_connect\<close> opens a transport (\<open>netlog-network.c\<close> or SSL) and then
  follows the journal (\<open>netlog-journal.c\<close>); every entry is formatted (\<open>netlog-protocol.c\<close>) and sent, and the
  cursor is kept in a state file (\<open>netlog-state.c\<close>).  \<open>src/share\<close> is the part of systemd's utility library
  that the daemon carries with it.

  \<^bold>\<open>Theories and sources.\<close>  Definitions have the names of the C functions they translate.
  \<^item> \<open>Prelude\<close>: bounded C values, strings as character lists, the type \<open>outcome\<close>, the locale \<open>codec\<close>.
  \<^item> \<open>String_Util\<close>, \<open>Parse_Util\<close>, \<open>Parse_Size\<close>, \<open>Extract_Word\<close>, \<open>String_Table\<close>, \<open>Utf8\<close>, \<open>Path_Util\<close>,
    \<open>Time_Util\<close>, \<open>Rate_Limit\<close>, \<open>Iovec\<close>, \<open>Socket_Addr\<close>, \<open>In_Addr\<close>, \<open>Hostname\<close>, \<open>Siphash\<close>, \<open>Hashmap\<close>: the pure utilities of \<open>src/share\<close> with
    the same file names; the string tables are those of \<open>netlog-manager.c\<close>, \<open>netlog-ssl-common.c\<close> and \<open>syslog-util.c\<close>.
  \<^item> \<open>File_IO\<close> (\<open>fileio.c\<close>), \<open>Fs_Util\<close> (\<open>mkdir.c\<close>, \<open>fs-util.c\<close>, \<open>stat-util.c\<close>), \<open>Privileges\<close> (\<open>user-util.c\<close>,
    \<open>capability-util.c\<close>), \<open>Sd_Network\<close> (\<open>sd-network.c\<close>, \<open>network-util.c\<close>), \<open>Sys\<close> (the calls to the kernel and the libraries,
    \<open>fd-util.c\<close>, \<open>io-util.c\<close>): the utilities with effects.
  \<^item> \<open>Conf_Parser\<close>, \<open>Conf_Files\<close>, \<open>Conf\<close>: \<open>conf-parser.c\<close>, \<open>conf-files.c\<close> and \<open>netlog-conf.c\<close> with the table of settings.
  \<^item> \<open>Manager_State\<close> (the struct \<open>Manager\<close>), \<open>Ssl\<close>, \<open>State_File\<close>, \<open>Network\<close>, \<open>Journal_Input\<close>, \<open>Connect\<close>,
    \<open>Syslog_Format\<close>, \<open>Protocol\<close>, \<open>Journal\<close>, \<open>Manager\<close>: the daemon, in the order in which its parts use each other;
    \<open>Silent\<close>: what a run hands to the transports.
  \<^item> \<open>Hashmap\<close> holds the definitions of \<open>hashmap.c\<close> and \<open>hash-funcs.c\<close>, \<open>Siphash\<close> those of \<open>siphash24.c\<close>; \<open>Hashmap_Inv\<close>, \<open>Hashmap_Put\<close>,
    \<open>Hashmap_Get\<close>, \<open>Hashmap_Remove\<close>, \<open>Hashmap_Resize\<close>, \<open>Hashmap_Map\<close>, \<open>Hashmap_Spec\<close>, \<open>Hashmap_Loops\<close>, \<open>Hashmap_Merge\<close> and
    \<open>Hashmap_Trace\<close> prove its Robin Hood invariant and that it refines a finite map, one operation after the other and along traces.
  \<^item> \<open>Resolve_Wire\<close> (messages, serialization of addresses, what a thread does), \<open>Resolve\<close> (sessions, queries, references) and
    \<open>Resolve_Process\<close> (replies, callbacks, the program that uses a session): \<open>sd-resolve.c\<close>; \<open>Resolve_Inv\<close>, \<open>Resolve_Start\<close>,
    \<open>Resolve_Codec\<close>, \<open>Resolve_Run\<close>, \<open>Resolve_Trace\<close> and \<open>Resolve_System\<close>: its invariant, the datagrams and the runs of
    program, threads and event loop.
  \<^item> \<open>Event_System\<close>: event loops as an inductive relation; \<open>Startup\<close>: \<open>systemd-netlogd.c\<close>; \<open>Scenario\<close>: the concrete
    environment and states on which the properties are tried out.

  \<^bold>\<open>How effects are modelled.\<close>  A function that only computes is a function.  A function that calls the kernel, OpenSSL,
  sd-journal, sd-event or the resolver takes an environment \<open>e :: env\<close> and the history \<open>w :: world\<close> of the calls made so far,
  newest first.  The answer to a call is \<open>ans e w c\<close>, what it stores \<open>val\<close>, \<open>out\<close> and \<open>len\<close>; it may
  depend on the whole history, so the properties hold for every behaviour of the outside.  A failing call answers the negative \<open>errno\<close>.
  Assumptions about the outside are named: \<open>close_ok\<close> (\<open>close\<close> does not report \<open>EBADF\<close>), \<open>poll_ok\<close>,
  \<open>calendar_ok\<close>, \<open>sigmask_ok\<close>, \<open>caps_bounded\<close>, \<open>sends_settle\<close>; each is instantiated in \<open>Scenario\<close>.
  Results are negative \<open>errno\<close> values as in the code, or \<open>Inl\<close> of one where the function also returns a value.
  An \<open>outcome\<close> is \<open>Ret\<close> of a result, \<open>Abort\<close> for a failed assertion or a null pointer, and \<open>Diverge\<close> when the fuel of a loop is used up.

  \<^bold>\<open>Fuel.\<close>  Only loops that the outside can keep running have fuel: the retry of \<open>manager_connect\<close>, whose number of rounds the rate
  limiter bounds (\<open>connect_total\<close>: ten attempts in ten seconds, so the fuel is the number of attempts left in the window),
  \<open>sendmsg_loop\<close> (interrupted calls; \<open>send_settles\<close>), the loops over a journal and the search for the last capability.  For each
  a property or lemma gives the fuel with which it returns.  The scans of the hash map have as much fuel as there are buckets, and
  the map's invariant makes that enough; the search for a free id of a query has as many rounds as the table has places, and
  \<open>resolve_free\<close> one for each query.

  \<^bold>\<open>What the lemmas show.\<close>  Every component has lemmas on its results branch by branch and, where it keeps state, an invariant that its
  operations preserve: \<open>manager_wf\<close> and \<open>daemon_wf\<close> for the manager, \<open>ssl_wf\<close> for an SSL connection,
  \<open>ratelimit_configured\<close>, \<open>booting\<close> and \<open>ready\<close> for start-up, \<open>hm_wf\<close> for hash maps,
  \<open>res_wf\<close> for a resolver session and \<open>config_wf\<close> for a session with its program, threads and datagrams.  The interfaces are locales:
  \<open>event_system\<close> and \<open>monotone_system\<close> (invariants and monotone relations of runs, interpreted by the daemon's handlers and by the resolver),
  \<open>dictionary\<close> (by hash maps and by sets),
  \<open>bounded_retry\<close> (by the rate limiter), \<open>config_invariant\<close> (twice, by the daemon's settings), \<open>string_table\<close> (by every table),
  \<open>codec\<close> (by the state file and the octet counting of RFC 5425).  The properties \<open>C1\<close>, \<open>C2\<close>, ... follow from them; they stand next to the
  component they speak of, and those that span components are in this theory.

  \<^bold>\<open>Left out.\<close>  Log messages and the logger (\<open>log.c\<close>), which have no effect on the program's behaviour but keep the values that
  the log functions return; failures of memory allocation, except in the hash map; ordered hash maps, which nothing uses, the
  debugging code of the hash map and its memory pools (\<open>mempool.c\<close>); wrappers around system calls without a caller in the daemon
  (\<open>process-util.c\<close>, \<open>terminal-util.c\<close>, \<open>virt.c\<close>, \<open>mkdir_safe\<close>, \<open>get_group_creds\<close> and other parts of \<open>user-util.c\<close>).  The daemon's model and the resolver's meet in the event that
  the answer of the resolver is; the threads' \<open>getaddrinfo\<close> and \<open>getnameinfo\<close> are arguments, of which \<open>answers_ok\<close> only assumes
  that their strings have no NUL and fit the buffers; lists of addresses may have any length (\<open>long_answer\<close> are those with which a thread
  may fail an assertion).  The program is assumed to keep to the rules of \<open>allowed\<close>: it uses what it holds references to, does not touch the userdata
  of a detached query, and starts queries as long as there are fresh ids (\<open>ids_left\<close>).
  The floating point steps of \<open>parse_size\<close>, the functions of libc that read the
  time zone or resolve names, OpenSSL, sd-journal and sd-event are parameters.
\<close>

section \<open>The daemon\<close>

text \<open>
  C2.  Every state the daemon reaches from a well-formed one, whatever the kernel and the libraries answer and in whatever order the events arrive, is well-formed: the socket is open exactly while the plain transport is connected, TLS and DTLS connections are whole or absent, and the journal is listened to only over a connected transport.
\<close>

theorem daemon_run_invariant:
  assumes "close_ok e" "daemon_wf m" "event_run event_enabled (handle_event fuel e) m evs m'"
  shows "daemon_wf m'"
  using daemon.run_inv [OF assms(3)] assms(1,2) by blast

theorem daemon_run_invariant_witness:
  "\<exists>m'. event_run event_enabled (handle_event (Suc (Suc 0)) demo_env) demo_manager [Network_changed, Journal_ready 1, Signal] m' \<and>
     daemon_wf m'"
  using demo_run daemon_run_invariant [OF demo_env_ok(1) demo_wf(1)] unfolding run_events_iff by blast

text \<open>
  C3.  No event that the loop dispatches in a reachable state runs into a failed assertion or a null pointer: no handler aborts the process.
\<close>

theorem daemon_never_aborts:
  assumes "close_ok e" "daemon_wf m" "event_run event_enabled (handle_event fuel e) m evs m'" "event_enabled ev m'"
  shows "handle_event fuel e ev m' \<noteq> Abort"
  using daemon.run_no_abort [OF assms(3) _ assms(4)] assms(1,2) by blast

theorem daemon_never_aborts_witness:
  "event_enabled Network_changed demo_manager \<and> handle_event (Suc (Suc 0)) demo_env Network_changed demo_manager \<noteq> Abort"
proof -
  have "event_enabled Network_changed demo_manager" by (simp add: event_enabled_def)
  with daemon_never_aborts [OF demo_env_ok(1) demo_wf(1) event_run.run_start] show ?thesis by blast
qed

text \<open>
  C4.  No run of the daemon ever hands a message to a transport.  The loop over the fields of an entry ends with a return value that is not positive, which \<open>journal_read_input\<close> takes for an entry to be skipped, so nothing read from the journal is forwarded.
\<close>

theorem daemon_run_silent:
  assumes "close_ok e" "daemon_wf m" "event_run event_enabled (handle_event fuel e) m evs m'"
  shows "grows (\<lambda>c. sent_text c = None) (world m) (world m')"
  using daemon_world.run_rel [OF assms(3)] assms(1,2) by (simp add: silent_def)

theorem daemon_run_silent_witness:
  "\<exists>m'. event_run event_enabled (handle_event (Suc (Suc 0)) demo_env) demo_manager [Network_changed, Journal_ready 1, Signal] m' \<and>
     grows (\<lambda>c. sent_text c = None) (world demo_manager) (world m')"
  using demo_run daemon_run_silent [OF demo_env_ok(1) demo_wf(1)] unfolding run_events_iff by blast

text \<open>
  C5.  Pushing a message over a connected transport returns, keeps the manager well-formed and the configuration unchanged, and when it answers 0 the last thing done was one call that handed the transport the text of the configured wire format, nothing else was handed over, and the transport answered that it took \<open>n\<close> octets.  The theorem does not say that \<open>n\<close> is the length of the text: the code does not compare them, and what a short write on a stream socket left is not sent again.
\<close>

theorem push_delivers:
  assumes "close_ok e" "poll_ok e" "calendar_ok e" "tv_ok tv" "manager_wf m" "transport_connected m" "sends_settle e k" "k < fuel"
    "connect_bounded fuel e m"
    "length (wire_text e m s f i msg h p tv sd mid (world m)) < INT_MAX"
  shows "\<exists>r m'. manager_push_to_network fuel e s f i msg h p tv sd mid m = Ret (r, m') \<and>
    manager_wf m' \<and> same_config m m' \<and> r \<le> 0 \<and>
    (r = 0 \<longrightarrow> only_world m m' \<and> (\<exists>n. accepted e (wire_text e m s f i msg h p tv sd mid (world m)) n (world m) (world m')))"
  using all_ret_obtain [OF push_connected_post [OF assms(1-8,10)] push_connected_returns [OF assms(1,3-10)]]
  by (auto simp: send_post_def)

theorem push_delivers_witness:
  "\<exists>r m'. manager_push_to_network 21 demo_env 6 3 (Some ''sshd'') ''hello'' (Some ''web'') None None None None demo_connected = Ret (r, m') \<and>
     (r = 0 \<longrightarrow> (\<exists>n. accepted demo_env ''<30>1 2024-02-29T12:30:05+05:30 web sshd - - - hello'' n (world demo_connected) (world m')))"
proof -
  have "0 < (21 :: nat)" "tv_ok None" by (simp_all add: tv_ok_def)
  with push_delivers [OF demo_env_ok(1,2,5) _ demo_wf(3,4) demo_env_ok(3), of None 21 6 3 "Some ''sshd''" "''hello''" "Some ''web''" None None None]
    demo_bounded(1) demo_text [of "world demo_connected"]
  show ?thesis by (auto simp: INT_MAX_def)
qed

text \<open>
  C6.  With a clock that advances by less than the rate limiter's interval, \<open>manager_connect\<close> returns although it calls itself on every failure: more than twice the burst is enough depth.  When it answers 0 the manager is resolving a name, or disconnected with the retry timer armed, or connected and listening to the journal.
\<close>

theorem connect_total:
  assumes "close_ok e" "manager_wf m" "connect_bounded fuel e m"
  shows "\<exists>r m'. manager_connect fuel e m = Ret (r, m') \<and> manager_wf m' \<and> same_config m m' \<and> r \<le> 0 \<and>
    (r = 0 \<longrightarrow> m_resolving m \<and> m' = m \<or> m_event_retry m' \<and> disconnected m' \<or>
       m_event_journal_input m' \<and> transport_connected m')"
proof -
  obtain r m' where "manager_connect fuel e m = Ret (r, m')" "connect_post m (r, m')"
    using all_ret_obtain [OF manager_connect_wf [OF assms(1,2)] connect_bounded_returns [OF assms]] by (metis surj_pair)
  then show ?thesis by (simp add: connect_post_def)
qed

theorem connect_total_witness:
  "\<exists>r m'. manager_connect 21 demo_env demo_manager = Ret (r, m') \<and> manager_wf m' \<and> same_config demo_manager m' \<and> r \<le> 0"
  using connect_total [OF demo_env_ok(1) _ demo_bounded(2)] demo_wf(1) unfolding daemon_wf_def by blast

text \<open>
  C15.  \<open>manager_disconnect\<close> returns in every state and makes exactly the calls of \<open>disconnect_calls\<close>: it releases a pending name query, shuts down (TCP) and closes the socket if it is open, then for DTLS and TLS shuts down and frees the session and closes its descriptor, releases the journal's event source, closes the journal, and announces that it is idle, each only if the manager holds it.  Afterwards it holds none of them, and the configuration, the retry timer and the rate limiter are as before.
\<close>

theorem disconnect_complete:
  assumes "close_ok e"
  shows "\<exists>m'. manager_disconnect e m = Ret ((), m') \<and> world m' = rev (disconnect_calls m) @ world m \<and>
    disconnected m' \<and> (\<forall>s. m_dtls m' = Some s \<or> m_tls m' = Some s \<longrightarrow> \<not> ssl_ssl s \<and> ssl_fd s = -1) \<and>
    (manager_wf m \<longrightarrow> manager_wf m') \<and> same_config m m' \<and>
    m_event_retry m' = m_event_retry m \<and> m_ratelimit m' = m_ratelimit m"
proof -
  let ?w = "rev (disconnect_calls m) @ world m"
  define m' where "m' = (manager_down m)\<lparr>m_event_retry := m_event_retry m, m_ratelimit := m_ratelimit m, world := ?w\<rparr>"
  have "manager_disconnect e m = Ret ((), m')"
    using manager_disconnect_calls [OF assms, of m] by (simp add: m'_def manager_down_def)
  moreover have dis: "disconnected m'" and "same_config m m'"
    unfolding m'_def by (rule down_disconnected down_same_config)+
  moreover have "manager_wf m \<longrightarrow> manager_wf m'"
    using disconnected_wf [OF transport_wf_down [OF manager_wf_transport]] dis unfolding m'_def by blast
  moreover have "world m' = ?w" "m_event_retry m' = m_event_retry m" "m_ratelimit m' = m_ratelimit m"
      "\<forall>s. m_dtls m' = Some s \<or> m_tls m' = Some s \<longrightarrow> \<not> ssl_ssl s \<and> ssl_fd s = -1"
    by (auto simp: m'_def manager_down_def ssl_down_def)
  ultimately show ?thesis by blast
qed

theorem disconnect_complete_witness:
  "\<exists>m'. manager_disconnect demo_env demo_connected = Ret ((), m') \<and> disconnected m' \<and> m_connected demo_connected \<and>
     Net (Close (m_socket demo_connected)) \<in> set (world m')"
  using disconnect_complete [OF demo_env_ok(1), of demo_connected] by (force simp: demo_connected_def disconnect_calls_def)

text \<open>
  C14.  \<open>manager_new\<close> either reports an error and leaves no manager, or gives a well-formed, disconnected one with the default multicast address 239.0.0.1:6000, UDP, and the network monitor attached.
\<close>

theorem manager_new_ready_or_error:
  assumes "close_ok e" "sigmask_ok e"
  shows "(\<exists>r w'. manager_new e state_file cursor w = Ret (r, None, w') \<and> r < 0) \<or>
    (\<exists>m. manager_new e state_file cursor w = Ret (0, Some m, world m) \<and> daemon_wf m \<and> disconnected m \<and>
       m_network_event_source m \<and> \<not> m_resolving m \<and> ratelimit_configured (m_ratelimit m) \<and>
       m_state_file m = Some state_file \<and> m_last_cursor m = cursor \<and> m_address m = inet_address 0xEF000001 6000 \<and>
       m_protocol m = SYSLOG_TRANSMISSION_PROTOCOL_UDP)"
  using manager_new_ready [OF assms, of state_file cursor w]
  by (cases "manager_new e state_file cursor w") (auto simp: new_post_def new_manager_def split: option.splits)

theorem manager_new_ready_or_error_witness:
  "(\<exists>r w'. manager_new demo_env ''/s'' None [] = Ret (r, None, w') \<and> r < 0) \<or>
   (\<exists>m. manager_new demo_env ''/s'' None [] = Ret (0, Some m, world m) \<and> daemon_wf m)"
proof -
  have "sigmask_ok demo_env" by (simp add: sigmask_ok_def)
  from manager_new_ready_or_error [OF demo_env_ok(1) this] show ?thesis by blast
qed



text \<open>
  C16.  Octet counting: a receiver that reads the decimal length, the space and that many octets gets back exactly the RFC 5424 message, and a message of a million octets or more is never framed.
\<close>

theorem rfc5425_frame:
  assumes "calendar_ok e" "tv_ok tv" "m_log_format m = SYSLOG_TRANSMISSION_LOG_FORMAT_RFC_5425"
    "rfc5424_iov e m s f i msg h p tv sd mid w = Ret (Inr iov, w')"
    "length (rfc5424_text e m s f i msg h p tv sd mid w) < 2 ^ 63"
  shows "octet_uncount (concat iov) = Some (rfc5424_text e m s f i msg h p tv sd mid w) \<and>
    length (rfc5424_text e m s f i msg h p tv sd mid w) < 1000000"
  using assms(4) octet_codec.decode_encode [of "rfc5424_text e m s f i msg h p tv sd mid w"]
  unfolding rfc5425_iov_wire [OF assms(1-3,5)]
  by (auto simp: octet_count_def concat_rfc5424_parts split: if_splits)

theorem rfc5425_frame_witness:
  "\<exists>iov w'. rfc5424_iov demo_env demo_framed 6 3 (Some ''sshd'') ''hello'' None None None None None [] = Ret (Inr iov, w') \<and>
     octet_uncount (concat iov) = Some ''<30>1 2024-02-29T12:30:05+05:30 - sshd - - - hello''"
proof -
  let ?t = "rfc5424_text demo_env demo_framed 6 3 (Some ''sshd'') ''hello'' None None None None None []"
  have tv: "tv_ok None" by (simp add: tv_ok_def)
  have fmt: "m_log_format demo_framed = SYSLOG_TRANSMISSION_LOG_FORMAT_RFC_5425" by (simp add: demo_framed_def)
  have small: "length ?t < 2 ^ 63" "length ?t < 1000000" by (simp_all add: demo_framed_text)
  then obtain iov w' where iov: "rfc5424_iov demo_env demo_framed 6 3 (Some ''sshd'') ''hello'' None None None None None [] = Ret (Inr iov, w')"
    using rfc5425_iov_wire [OF demo_env_ok(5) tv fmt small(1)] by auto
  from rfc5425_frame [OF demo_env_ok(5) tv fmt iov small(1)] iov show ?thesis by (auto simp: demo_framed_text)
qed

text \<open>
  The RFC 3339 timestamp is formatted without an assertion failing and always fits its buffer: 26 characters, or 33 with the fraction.
\<close>

theorem timestamp_layout:
  assumes "calendar_ok e" "tv_ok tv"
  shows "format_rfc3339_timestamp e tv FORMAT_TIMESTAMP_MAX w = Ret (stamp_text e tv w, stamp_world tv w) \<and>
    length (stamp_text e tv w) = (case tv of None \<Rightarrow> 26 | Some _ \<Rightarrow> 33) \<and> length (stamp_text e tv w) < FORMAT_TIMESTAMP_MAX"
proof -
  have "length (strftime_date_time (localtime e t)) = 19" "length (strftime_zone (localtime e t)) = 5" for t
    using assms(1) date_time_length zone_length by (auto simp: calendar_ok_def)
  then show ?thesis
    using format_rfc3339_timestamp_ok [OF assms] assms(2) zero_pad_length [of _ 5]
    by (auto simp: stamp_text_def rfc3339_text_def tv_ok_def FORMAT_TIMESTAMP_MAX_def split: option.splits)
qed

theorem timestamp_layout_witness:
  "length (stamp_text demo_env (Some \<lparr>tv_sec = 1, tv_usec = 999999\<rparr>) []) = 33 \<and>
   format_rfc3339_timestamp demo_env (Some \<lparr>tv_sec = 1, tv_usec = 999999\<rparr>) FORMAT_TIMESTAMP_MAX [] =
     Ret (stamp_text demo_env (Some \<lparr>tv_sec = 1, tv_usec = 999999\<rparr>) [], stamp_world (Some \<lparr>tv_sec = 1, tv_usec = 999999\<rparr>) [])"
  using timestamp_layout [OF demo_env_ok(5), of "Some \<lparr>tv_sec = 1, tv_usec = 999999\<rparr>" "[]"] by (simp add: tv_ok_def)

text \<open>
  C23.  \<open>network_send\<close> returns once the kernel stops answering \<open>EINTR\<close> and \<open>EAGAIN\<close>, only ever hands over the gathered text, and changes nothing else.  It answers 0 exactly when the last call handed over the text and the kernel answered with a number of octets, whichever number: a short write on a stream socket counts as a success, and the rest of the text is dropped.
\<close>

theorem send_settles:
  assumes "sends_settle e k" "0 \<le> m_socket m" "k < fuel" "iov \<noteq> []"
  shows "\<exists>r m'. network_send fuel e iov m = Ret (r, m') \<and> only_world m m' \<and> r \<le> 0 \<and>
    grows (\<lambda>c. sent_text c \<in> {None, Some (concat iov)}) (world m) (world m') \<and>
    (r = 0 \<longleftrightarrow> (\<exists>n. accepted e (concat iov) n (world m) (world m')))"
proof -
  obtain r m' where n: "network_send fuel e iov m = Ret (r, m')" "only_world m m'" "r \<le> 0"
      "r = 0 \<longleftrightarrow> (\<exists>n. accepted e (concat iov) n (world m) (world m'))"
    using network_send_post [OF assms] by blast
  moreover have "grows (\<lambda>c. sent_text c \<in> {None, Some (concat iov)}) (world m) (world m')"
    using n(1) assms(4) sendmsg_loop_accepted by (auto simp: network_send_def split: if_splits)
  ultimately show ?thesis by blast
qed

theorem send_settles_witness:
  "\<exists>r m'. network_send 1 demo_env [''a'', ''b''] demo_connected = Ret (r, m') \<and> only_world demo_connected m' \<and>
     grows (\<lambda>c. sent_text c \<in> {None, Some ''ab''}) (world demo_connected) (world m')"
  using send_settles [OF demo_env_ok(3), of demo_connected 1 "[''a'', ''b'']"] by (auto simp: demo_connected_def)

text \<open>
  C22.  \<open>ssl_connect\<close> returns, and either the connection is whole or the SSL manager is as it was before.
\<close>

theorem ssl_connect_whole_or_nothing:
  assumes "close_ok e" "ssl_wf s" "\<not> ssl_connected s"
  shows "\<exists>r s' w'. ssl_connect e s a w = Ret (r, s', w') \<and> ssl_wf s' \<and> (r = 0 \<longleftrightarrow> ssl_connected s') \<and>
    (r < 0 \<longrightarrow> s' = s)"
proof -
  obtain r s' w' where "ssl_connect e s a w = Ret (r, s', w')" "ssl_connect_post s (r, s', w')"
    using ssl_connect_connects [OF assms, of a w] all_ret_obtain by (metis prod_cases3)
  then show ?thesis using assms by (auto simp: ssl_connect_post_def)
qed

theorem ssl_connect_whole_or_nothing_witness:
  "\<exists>r s' w'. ssl_connect demo_env demo_ssl (inet_address 1 514) [] = Ret (r, s', w') \<and>
     ssl_wf s' \<and> (r = 0 \<longleftrightarrow> ssl_connected s')"
proof -
  have "ssl_wf demo_ssl" "\<not> ssl_connected demo_ssl" by (simp_all add: ssl_wf_def demo_ssl_def)
  from ssl_connect_whole_or_nothing [OF demo_env_ok(1) this] show ?thesis by blast
qed

text \<open>
  C24.  Loading the state file that saving a cursor wrote restores the cursor.
\<close>

theorem state_cursor_roundtrip:
  assumes "cursor_ok c" "m_state_file m = Some f" "0 \<le> ans e (world m) (File (Open_read f))"
    "out e (world m) (File (Open_read f)) = state_file_text c"
    "len e (world m) (File (Open_read f)) = length (state_file_text c)"
  shows "state_load_cursor e m = (0, m\<lparr>m_last_cursor := Some c, world := File (Open_read f) # world m\<rparr>)"
  using assms state_file_parse [OF assms(1), of "m_last_cursor m"] state_file_size [OF assms(1)]
  by (simp add: state_load_cursor_def open_state_file_def read_full_file_def read_full_stream_regular m_call_def Let_def)

theorem state_cursor_roundtrip_witness:
  "state_load_cursor (demo_env\<lparr>ans := \<lambda>w c. 0, out := \<lambda>w c. state_file_text ''s=1'', len := \<lambda>w c. length (state_file_text ''s=1'')\<rparr>)
     demo_manager = (0, demo_manager\<lparr>m_last_cursor := Some ''s=1'', world := [File (Open_read ''/var/lib/state'')]\<rparr>)"
  using state_cursor_roundtrip [OF demo_cursor_ok, of demo_manager "''/var/lib/state''"
    "demo_env\<lparr>ans := \<lambda>w c. 0, out := \<lambda>w c. state_file_text ''s=1'', len := \<lambda>w c. length (state_file_text ''s=1'')\<rparr>"] by simp

text \<open>
  C25.  When saving the cursor succeeds, the complete text was written to a fresh temporary file and flushed before that file was renamed over the state file.
\<close>

theorem save_cursor_atomic:
  assumes "state_update_cursor e m = Ret (0, m')" "m_state_file m = Some f" "m_last_cursor m = Some c"
  shows "\<exists>p t w. tempfn_xxxxxx f None = Inr p \<and> t = out e (world m) (File (Mkostemp p)) \<and>
    w = File Fflush # File (Fputs (state_file_text c)) # File (Fchmod 420) # File Fdopen # File (Mkostemp p) # world m \<and>
    0 \<le> ans e (tl w) (File Fflush) \<and> 0 \<le> ans e w (File (Rename t f)) \<and>
    m' = m\<lparr>world := File Fclose # File (Unlink t) # File (Rename t f) # w\<rparr>"
proof (cases "tempfn_xxxxxx f None")
  case (Inl r)
  then have "r < 0" by (auto simp: tempfn_xxxxxx_def Let_def split: if_splits prod.splits)
  then show ?thesis using assms Inl by (simp add: state_update_cursor_def fopen_temporary_def m_io_def)
next
  case (Inr p)
  show ?thesis
    using assms Inr
    by (auto simp: state_update_cursor_def fopen_temporary_def m_io_def mkostemp_safe_def sys_def m_sys_def m_call_def Let_def
      obind_eq_Ret split: if_splits)
qed

theorem save_cursor_atomic_witness:
  "\<exists>m'. state_update_cursor demo_env (demo_manager\<lparr>m_last_cursor := Some ''s=1''\<rparr>) = Ret (0, m') \<and>
    File (Rename (out demo_env [] (File (Mkostemp ''/var/lib/.#stateXXXXXX''))) ''/var/lib/state'') \<in> set (world m')"
proof -
  let ?m = "demo_manager\<lparr>m_last_cursor := Some ''s=1''\<rparr>"
  obtain m' where u: "state_update_cursor demo_env ?m = Ret (0, m')"
    by (simp add: state_update_cursor_def fopen_temporary_def mkostemp_safe_def demo_tempfn m_io_def m_sys_def m_call_def sys_def Let_def)
  from save_cursor_atomic [OF u, of "''/var/lib/state''" "''s=1''"] u show ?thesis by (auto simp: demo_tempfn)
qed

text \<open>
  C27.  The certificate callback of a manager that verifies certificates accepts one exactly when the mode is not \<open>deny\<close>, or OpenSSL accepted it and the chain is not deeper than the limit.
\<close>

theorem certificate_policy:
  assumes "ssl_auth_mode s \<noteq> OPEN_SSL_CERTIFICATE_AUTH_MODE_NONE"
  shows "\<exists>ok. ssl_verify_certificate_validity s depth preverify_ok = Ret ok \<and>
    (ok \<noteq> 0 \<longleftrightarrow> ssl_auth_mode s \<noteq> OPEN_SSL_CERTIFICATE_AUTH_MODE_DENY \<or> preverify_ok \<noteq> 0 \<and> depth \<le> VERIFICATION_DEPTH)"
  using assms
  by (cases "ssl_auth_mode s") (auto simp: ssl_verify_certificate_validity_def check_certificate_chain_depth_def)

theorem certificate_policy_witness:
  "\<exists>ok. ssl_verify_certificate_validity demo_ssl 21 1 = Ret ok \<and> ok = 0"
  using certificate_policy [of demo_ssl 21 1] by (auto simp: demo_ssl_def VERIFICATION_DEPTH_def)

text \<open>
  C28.  Writing to a connected SSL transport returns, 0 exactly when OpenSSL took the gathered text, and never \<open>-EAGAIN\<close>: the mark of a synthetic error stays in the value, so the callers' test for \<open>-EAGAIN\<close> never holds.
\<close>

theorem ssl_send_result:
  assumes "ssl_wf m" "ssl_connected m" "0 < length (concat iov)" "length (concat iov) < INT_MAX"
  shows "\<exists>r w'. ssl_writev e m iov w = Ret (r, w') \<and> r \<noteq> - EAGAIN \<and>
    (r = 0 \<longleftrightarrow> 0 < ans e w (Ssl (Ssl_write (concat iov)))) \<and> Ssl (Ssl_write (concat iov)) \<in> set w'"
proof -
  have "log_full_errno (SYNTHETIC_ERRNO EAGAIN) \<noteq> - EAGAIN" "log_full_errno (SYNTHETIC_ERRNO EPIPE) \<noteq> - EAGAIN"
    by (simp_all add: log_full_errno_def SYNTHETIC_ERRNO_def)
  then show ?thesis using ssl_writev_returns [OF assms, of e w] by auto
qed

theorem ssl_send_result_witness:
  "\<exists>r w'. ssl_writev demo_env (demo_ssl\<lparr>ssl_ssl := True, ssl_fd := 4, ssl_connected := True, ssl_pretty_address := Some ''x''\<rparr>) [''ab''] [] = Ret (r, w') \<and>
     r = 0 \<and> Ssl (Ssl_write ''ab'') \<in> set w'"
  using ssl_send_result [of "demo_ssl\<lparr>ssl_ssl := True, ssl_fd := 4, ssl_connected := True, ssl_pretty_address := Some ''x''\<rparr>" "[''ab'']" demo_env "[]"]
  by (auto simp: demo_ssl_def ssl_wf_def INT_MAX_def)

text \<open>
  C1.  Whatever the program is started with, every state its event loop reaches, from the end of start-up over the first connection attempt and any sequence of events, is well-formed.
\<close>

theorem whole_program_invariant:
  assumes "close_ok e" "sigmask_ok e" "caps_bounded e n" "n \<le> fuel" "0 < fuel" "conf_fs_small fs"
    and "main_start fuel e fs ops dir opts extra w = Ret (Loop m)" "run_event_loop_begin fuel e m = Ret m1"
    and "event_run event_enabled (handle_event fuel e) m1 evs m2"
  shows "daemon_wf m2"
proof -
  have "ready m" using main_start_post [OF assms(1-6), of w ops dir opts extra] assms(7) by (simp add: start_post_def)
  then have "daemon_wf m1" using run_event_loop_begin_wf [OF assms(1), of m fuel] assms(8) by (simp add: ready_def)
  then show ?thesis using daemon.run_inv [OF assms(9)] assms(1) by blast
qed

theorem whole_program_invariant_witness:
  "\<forall>ops. \<exists>m m1. main_start 41 demo_env demo_fs ops ''/run'' [] False [] = Ret (Loop m) \<and>
     run_event_loop_begin 41 demo_env m = Ret m1 \<and> daemon_wf m1"
proof
  fix ops
  obtain w where s: "main_start 41 demo_env demo_fs ops ''/run'' [] False [] = Ret (Loop (demo_booted STATE_FILE w))"
    using demo_start by blast
  obtain m1 where b: "run_event_loop_begin 41 demo_env (demo_booted STATE_FILE w) = Ret m1" using demo_begin by blast
  have "daemon_wf m1"
    using whole_program_invariant [OF demo_env_ok(1) demo_caps(2,1) _ _ demo_caps(3) s b event_run.run_start] by simp
  then show "\<exists>m m1. main_start 41 demo_env demo_fs ops ''/run'' [] False [] = Ret (Loop m) \<and>
     run_event_loop_begin 41 demo_env m = Ret m1 \<and> daemon_wf m1" using s b by blast
qed

text \<open>
  C7.  Start-up always comes to an end: the program exits with a result that is not positive (0 for the help texts), or it enters the event loop with a well-formed, disconnected manager that watches the network, retries no faster than once a second, and has changed to the user that the lookup of the netlog user gave; the other capabilities were dropped from the bounding set, and the kernel accepted the call, the last one of start-up, that sets the capabilities of the process to the three it needs.
\<close>

theorem startup_ready:
  assumes "close_ok e" "sigmask_ok e" "caps_bounded e n" "n \<le> fuel" "0 < fuel" "conf_fs_small fs"
  shows "\<exists>s. main_start fuel e fs ops dir opts extra w = Ret s \<and>
    (case s of
       Exit r mo w' \<Rightarrow> r \<le> 0
     | Loop m \<Rightarrow> daemon_wf m \<and> \<not> m_connected m \<and> \<not> m_journal m \<and> m_network_event_source m \<and>
         USEC_PER_SEC \<le> m_connection_retry_usec m \<and>
         (\<exists>uid gid w1 w2. resolve_user_credentials e (Proc (Umask 18) # w) = (Inr (uid, gid), w1) \<and>
           privileges_dropped fuel e uid gid netlogd_caps w2 (world m)))"
proof -
  obtain s where "main_start fuel e fs ops dir opts extra w = Ret s" "start_post fuel e w s"
    using main_start_post [OF assms, of w ops dir opts extra] by (auto simp: gives_iff)
  then show ?thesis by (cases s) (auto simp: start_post_def ready_def)
qed

theorem startup_ready_witness:
  "\<forall>ops. \<exists>m. main_start 41 demo_env demo_fs ops ''/run'' [] False [] = Ret (Loop m) \<and> daemon_wf m \<and>
     (\<exists>uid gid w2. privileges_dropped 41 demo_env uid gid netlogd_caps w2 (world m))"
proof
  fix ops
  obtain w where s: "main_start 41 demo_env demo_fs ops ''/run'' [] False [] = Ret (Loop (demo_booted STATE_FILE w))"
    using demo_start by blast
  with startup_ready [OF demo_env_ok(1) demo_caps(2,1) _ _ demo_caps(3), of 41 ops "''/run''" "[]" False "[]"]
  show "\<exists>m. main_start 41 demo_env demo_fs ops ''/run'' [] False [] = Ret (Loop m) \<and> daemon_wf m \<and>
     (\<exists>uid gid w2. privileges_dropped 41 demo_env uid gid netlogd_caps w2 (world m))" by (simp add: s) metis
qed

text \<open>
  C8.  When \<open>drop_privileges\<close> reports success, group, supplementary groups and user were changed, every capability up to the last one the kernel has, as \<open>cap_last_cap\<close> found it on the way, that the daemon does not need was dropped from the bounding set, and the last call set the capabilities of the process to CAP_NET_BIND_SERVICE, CAP_NET_BROADCAST and CAP_NET_ADMIN and nothing else, and the kernel accepted it.
\<close>

theorem drop_privileges_effect:
  assumes "drop_privileges fuel e uid gid netlogd_caps w = Ret (0, w')"
  shows "issued e (Proc (Setresgid gid)) w' \<and> issued e (Proc Setgroups) w' \<and> issued e (Proc (Setresuid uid)) w' \<and>
    (\<exists>w1 last w2. cap_last_cap fuel e w1 = Ret (last, w2) \<and> grows (\<lambda>_. True) w w1 \<and> grows (\<lambda>_. True) w2 w' \<and>
       (\<forall>i\<le>last. i \<notin> {10, 11, 12} \<longrightarrow> issued e (Proc (Prctl 24 (int i))) w')) \<and>
    (\<exists>c l. c = Proc (Cap_set_proc (False, [(CAP_EFFECTIVE, [10, 11, 12], True), (CAP_PERMITTED, [10, 11, 12], True)])) \<and>
       w' = c # l \<and> 0 \<le> ans e l c)"
proof -
  have "privileges_dropped fuel e uid gid netlogd_caps w w'"
    using drop_privileges_ok [OF assms netlogd_caps_kept(3)] by simp
  moreover have "netlogd_caps AND push_bit i 1 = 0" if "i \<notin> {10, 11, 12}" for i
    using that unfolding netlogd_caps_def
    by (intro bit_eqI) (auto simp only: bit_and_iff bit_or_iff bit_push_bit_iff bit_1_iff bit_0_eq bot_apply bot_bool_def insert_iff empty_iff)
  ultimately show ?thesis
    unfolding privileges_dropped_def caps_dropped_def caps_granted_def Let_def netlogd_caps_kept(1) by metis
qed

theorem drop_privileges_effect_witness:
  "\<exists>w'. drop_privileges 41 demo_env 0 0 netlogd_caps [] = Ret (0, w') \<and> issued demo_env (Proc (Setresuid 0)) w' \<and>
     hd w' = Proc (Cap_set_proc (False, [(CAP_EFFECTIVE, [10, 11, 12], True), (CAP_PERMITTED, [10, 11, 12], True)]))"
  using drop_privileges_effect [of 41 demo_env 0 0 "[]"] demo_drop [of "[]"] by fastforce

text \<open>
  C9.  A configuration file with a \<open>[Network]\<close> section of well-formed lines, and no drop-ins, has exactly the effect of its settings in the order of the file, each through the parser that the table names for its key; a retry time below one second is then replaced by the default.
\<close>

theorem config_file_applied:
  assumes "fs_open fs (dir @ ''/netlogd.conf'') = Inr (conf_text ''Network'' kvs, None)" "list_all setting_ok kvs"
    and "conf_files_list_nulstr fs ''.conf'' None (CONF_PATHS_NULSTR ''systemd/netlogd.conf.d'') = Inr []"
  shows "manager_parse_config_file e fs ops dir m =
    obind (apply_settings (netlog_lookup e ops) (dir @ ''/netlogd.conf'') (in_section ''Network'' 1) 1 kvs m) (\<lambda>(r, m').
      if r < 0 then Ret (r, m')
      else Ret (0, if m_connection_retry_usec m' < 1 * USEC_PER_SEC then m'\<lparr>m_connection_retry_usec := DEFAULT_CONNECTION_RETRY_USEC\<rparr> else m'))"
  by (rule config_file_settings [OF assms])

theorem config_file_applied_witness:
  "\<forall>ops. \<exists>m'. manager_parse_config_file demo_env demo_fs ops ''/etc'' demo_manager = Ret (0, m') \<and> bit (m_excluded_syslog_facilities m') 4"
proof
  fix ops
  have p: "\<forall>w\<in>set [''auth'', ''cron'']. plain_word w \<and> CHR 0x00 \<notin> set w" by (simp add: plain_word_def WHITESPACE_def)
  have ok: "list_all setting_ok [(''ExcludeSyslogFacility'', join_words [''auth'', ''cron''])]"
    using facility_line_ok [OF _ p] by simp
  have f: "syslog_facility_from_string (Some ''auth'') = 4" by code_simp
  have pl: "\<forall>w\<in>set [''auth'', ''cron'']. plain_word w" using p by blast
  note set = facility_setting [OF pl]
  have o: "fs_open demo_fs (''/etc'' @ ''/netlogd.conf'') = Inr (conf_text ''Network'' [(''ExcludeSyslogFacility'', join_words [''auth'', ''cron''])], None)"
    by (simp add: demo_fs_open)
  have r: "\<not> m_connection_retry_usec (demo_manager\<lparr>m_excluded_syslog_facilities := v\<rparr>) < USEC_PER_SEC" for v
    by (simp add: demo_manager_def manager_initial_def DEFAULT_CONNECTION_RETRY_USEC_def)
  have b: "bit (fold (add_bit syslog_facility_from_string) [''auth'', ''cron''] (0 :: u32)) 4"
    unfolding bit_add_bits using f by simp
  from config_file_applied [OF o ok demo_fs_files, of demo_env ops demo_manager] b r
  show "\<exists>m'. manager_parse_config_file demo_env demo_fs ops ''/etc'' demo_manager = Ret (0, m') \<and> bit (m_excluded_syslog_facilities m') 4"
    by (simp add: next_assignment_def in_section_def facility_lookup set del: fold_simps)
qed

text \<open>
  C10.  After reading a configuration file that excludes facilities by name, a message is dropped for its facility exactly when one of the words of the setting is the name of that facility.
\<close>

theorem excluded_facilities_configured:
  assumes "fs_open fs (dir @ ''/netlogd.conf'') = Inr (conf_text ''Network'' [(''ExcludeSyslogFacility'', join_words ws)], None)"
    and "conf_files_list_nulstr fs ''.conf'' None (CONF_PATHS_NULSTR ''systemd/netlogd.conf.d'') = Inr []"
    and "ws \<noteq> []" "\<forall>w\<in>set ws. plain_word w \<and> CHR 0x00 \<notin> set w" "length (join_words ws) < 2000"
  shows "\<exists>m'. manager_parse_config_file e fs ops dir m = Ret (0, m') \<and>
    (\<forall>f<24. (0 < fst (parse_syslog_facility m' (Some (dec_of_nat f)) d)) =
       (\<exists>w\<in>set ws. syslog_facility_from_string (Some w) = int f))"
  by (rule facilities_configured [OF assms])

theorem excluded_facilities_configured_witness:
  "\<forall>ops. \<exists>m'. manager_parse_config_file demo_env demo_fs ops ''/etc'' demo_manager = Ret (0, m') \<and>
     0 < fst (parse_syslog_facility m' (Some (dec_of_nat 4)) 1)"
proof
  fix ops
  have p: "\<forall>w\<in>set [''auth'', ''cron'']. plain_word w \<and> CHR 0x00 \<notin> set w" by (simp add: plain_word_def WHITESPACE_def)
  have f: "syslog_facility_from_string (Some ''auth'') = 4" by code_simp
  have o: "fs_open demo_fs (''/etc'' @ ''/netlogd.conf'') = Inr (conf_text ''Network'' [(''ExcludeSyslogFacility'', join_words [''auth'', ''cron''])], None)"
    by (simp add: demo_fs_open)
  from excluded_facilities_configured [OF o demo_fs_files _ p, of demo_env ops demo_manager 1] f
  show "\<exists>m'. manager_parse_config_file demo_env demo_fs ops ''/etc'' demo_manager = Ret (0, m') \<and>
     0 < fst (parse_syslog_facility m' (Some (dec_of_nat 4)) 1)" by fastforce
qed

text \<open>
  C13.  Whatever the configuration files contain, reading them ends, with every setting in the range of what it stands for: the port fits 16 bits, only facilities that exist are excluded, and after success the time between connection attempts is at least a second.
\<close>

theorem config_settings_typed:
  assumes "conf_fs_small fs" "settings_typed m"
  shows "\<exists>r m'. manager_parse_config_file e fs ops dir m = Ret (r, m') \<and> settings_typed m' \<and>
    (r = 0 \<longrightarrow> USEC_PER_SEC \<le> m_connection_retry_usec m')"
  using manager_parse_config_file_typed [OF assms, of e ops dir]
  by (cases "manager_parse_config_file e fs ops dir m") auto

theorem config_settings_typed_witness:
  "\<forall>ops. \<exists>r m'. manager_parse_config_file demo_env demo_fs ops ''/etc'' demo_manager = Ret (r, m') \<and> settings_typed m'"
proof -
  have "settings_typed demo_manager" by (simp add: settings_typed_def demo_manager_def manager_initial_def)
  then show ?thesis using config_settings_typed [OF demo_caps(3)] by blast
qed

end
